(* ===== verification/JS_Prelude.thy ===== *)
theory JS_Prelude
  imports Complex_Main "HOL-Library.Word"
begin

text \<open>
  What every other theory of the library shares.

  \<^item> \<open>jsnum\<close>: the JavaScript number type. Finite numbers are exact reals; the two
    infinities and \<open>NaN\<close> are separate values, and arithmetic and comparison follow
    IEEE 754 on them (every comparison with \<open>NaN\<close> is false, \<open>\<infinity> - \<infinity>\<close> is \<open>NaN\<close>, a
    number divided by zero is an infinity or \<open>NaN\<close>). The rounding of the 53 bit
    significand and the sign of zero are not represented.
  \<^item> \<open>jsval\<close>: the values that the option and configuration code passes around. An
    object is the association list of its own enumerable properties in insertion order.
  \<^item> the collections \<open>js_num\<close> and \<open>js_val\<close> of rewrite rules, and lemmas on
    lists that several components use.
\<close>

named_theorems js_num \<open>evaluation of JavaScript number operations\<close>
named_theorems js_val \<open>operations on JavaScript values and objects\<close>

section \<open>Numbers\<close>

datatype jsnum = Fin real | PInf | NInf | NaN

fun num_neg :: "jsnum \<Rightarrow> jsnum" where
  "num_neg (Fin a) = Fin (- a)"
| "num_neg PInf = NInf"
| "num_neg NInf = PInf"
| "num_neg NaN = NaN"

fun num_add :: "jsnum \<Rightarrow> jsnum \<Rightarrow> jsnum" where
  "num_add (Fin a) (Fin b) = Fin (a + b)"
| "num_add NaN y = NaN"
| "num_add x NaN = NaN"
| "num_add PInf NInf = NaN"
| "num_add NInf PInf = NaN"
| "num_add PInf y = PInf"
| "num_add NInf y = NInf"
| "num_add x y = y"

definition inf_of_sign :: "real \<Rightarrow> jsnum" where
  "inf_of_sign s = (if s > 0 then PInf else if s < 0 then NInf else NaN)"

text \<open>The sign of a number that is not \<open>NaN\<close>.\<close>

fun num_sgn :: "jsnum \<Rightarrow> real" where
  "num_sgn (Fin a) = sgn a"
| "num_sgn PInf = 1"
| "num_sgn NInf = - 1"
| "num_sgn NaN = 0"

fun num_mul :: "jsnum \<Rightarrow> jsnum \<Rightarrow> jsnum" where
  "num_mul (Fin a) (Fin b) = Fin (a * b)"
| "num_mul NaN y = NaN"
| "num_mul x NaN = NaN"
| "num_mul x y = inf_of_sign (num_sgn x * num_sgn y)"

fun num_div :: "jsnum \<Rightarrow> jsnum \<Rightarrow> jsnum" where
  "num_div (Fin a) (Fin b) = (if b = 0 then inf_of_sign a else Fin (a / b))"
| "num_div NaN y = NaN"
| "num_div x NaN = NaN"
| "num_div (Fin a) y = Fin 0"
| "num_div x (Fin b) = (if b < 0 then num_neg x else x)"
| "num_div x y = NaN"

fun num_less :: "jsnum \<Rightarrow> jsnum \<Rightarrow> bool" where
  "num_less (Fin a) (Fin b) = (a < b)"
| "num_less NaN y = False"
| "num_less x NaN = False"
| "num_less x NInf = False"
| "num_less PInf y = False"
| "num_less x y = True"

text \<open>The operator \<open>===\<close> on numbers: \<open>NaN\<close> differs from itself.\<close>

fun num_eq :: "jsnum \<Rightarrow> jsnum \<Rightarrow> bool" where
  "num_eq NaN y = False"
| "num_eq x NaN = False"
| "num_eq x y = (x = y)"

instantiation jsnum :: "{zero, one, plus, minus, uminus, times, inverse, ord}"
begin

definition zero_jsnum :: jsnum where "zero_jsnum = Fin 0"
definition one_jsnum :: jsnum where "one_jsnum = Fin 1"
definition plus_jsnum :: "jsnum \<Rightarrow> jsnum \<Rightarrow> jsnum" where "plus_jsnum = num_add"
definition uminus_jsnum :: "jsnum \<Rightarrow> jsnum" where "uminus_jsnum = num_neg"
definition minus_jsnum :: "jsnum \<Rightarrow> jsnum \<Rightarrow> jsnum" where
  "minus_jsnum x y = num_add x (num_neg y)"
definition times_jsnum :: "jsnum \<Rightarrow> jsnum \<Rightarrow> jsnum" where "times_jsnum = num_mul"
definition divide_jsnum :: "jsnum \<Rightarrow> jsnum \<Rightarrow> jsnum" where "divide_jsnum = num_div"
definition inverse_jsnum :: "jsnum \<Rightarrow> jsnum" where "inverse_jsnum = num_div (Fin 1)"
definition less_jsnum :: "jsnum \<Rightarrow> jsnum \<Rightarrow> bool" where "less_jsnum = num_less"
definition less_eq_jsnum :: "jsnum \<Rightarrow> jsnum \<Rightarrow> bool" where
  "less_eq_jsnum x y \<longleftrightarrow> num_less x y \<or> num_eq x y"

instance ..

end

lemma num_add_assoc: "num_add (num_add a b) c = num_add a (num_add b c)"
  by (cases a; cases b; cases c) simp_all

instance jsnum :: semigroup_add
  by standard (simp add: plus_jsnum_def num_add_assoc)

instance jsnum :: numeral ..

lemma numeral_jsnum [simp, js_num]: "(numeral k :: jsnum) = Fin (numeral k)"
  by (induction k) (simp_all only: numeral.simps one_jsnum_def plus_jsnum_def num_add.simps)

lemma zero_one_jsnum [simp, js_num]: "(0 :: jsnum) = Fin 0" "(1 :: jsnum) = Fin 1"
  by (simp_all add: zero_jsnum_def one_jsnum_def)

lemma Fin_arith [simp, js_num]:
  "Fin a + Fin b = Fin (a + b)" "Fin a - Fin b = Fin (a - b)"
  "Fin a * Fin b = Fin (a * b)" "- Fin a = Fin (- a)"
  by (simp_all add: plus_jsnum_def minus_jsnum_def times_jsnum_def uminus_jsnum_def)

lemma Fin_div [js_num]: "Fin a / Fin b = (if b = 0 then inf_of_sign a else Fin (a / b))"
  by (simp add: divide_jsnum_def)

lemma Fin_div_nz [simp]: "b \<noteq> 0 \<Longrightarrow> Fin a / Fin b = Fin (a / b)"
  by (simp add: Fin_div)

lemma Fin_order [simp, js_num]:
  "(Fin a < Fin b) = (a < b)" "(Fin a \<le> Fin b) = (a \<le> b)"
  by (auto simp: less_jsnum_def less_eq_jsnum_def)

lemma inf_order [simp, js_num]:
  "Fin a < PInf" "NInf < Fin a" "NInf < PInf"
  "Fin a \<le> PInf" "NInf \<le> Fin a" "NInf \<le> PInf"
  "\<not> PInf < Fin a" "\<not> PInf \<le> Fin a" "\<not> Fin a < NInf" "\<not> Fin a \<le> NInf"
  "\<not> PInf < PInf" "\<not> NInf < NInf" "PInf \<le> PInf" "NInf \<le> NInf"
  "\<not> PInf < NInf" "\<not> PInf \<le> NInf"
  by (simp_all add: less_jsnum_def less_eq_jsnum_def)

lemma NaN_order [simp, js_num]:
  "\<not> NaN < y" "\<not> x < NaN" "\<not> NaN \<le> y" "\<not> x \<le> NaN"
proof -
  show "\<not> NaN < y" and "\<not> NaN \<le> y" by (simp_all add: less_jsnum_def less_eq_jsnum_def)
  show "\<not> x < NaN" and "\<not> x \<le> NaN"
    by (cases x; simp add: less_jsnum_def less_eq_jsnum_def)+
qed

lemma num_eq_Fin [simp, js_num]: "num_eq (Fin a) (Fin b) = (a = b)"
  by simp

text \<open>\<open>Number.isFinite\<close>, \<open>isNaN\<close> and the functions of \<open>Math\<close> that the code calls.\<close>

fun is_finite :: "jsnum \<Rightarrow> bool" where
  "is_finite (Fin a) = True"
| "is_finite x = False"

fun is_nan :: "jsnum \<Rightarrow> bool" where
  "is_nan NaN = True"
| "is_nan x = False"

lemma is_finite_iff: "is_finite x \<longleftrightarrow> (\<exists>a. x = Fin a)"
  by (cases x) auto

text \<open>The real number of a finite number.\<close>

fun num_val :: "jsnum \<Rightarrow> real" where
  "num_val (Fin a) = a"
| "num_val x = 0"

lemma num_val_order:
  assumes "is_finite a" and "is_finite b"
  shows num_val_less: "a < b \<longleftrightarrow> num_val a < num_val b" and num_val_le: "a \<le> b \<longleftrightarrow> num_val a \<le> num_val b"
  using assms by (auto simp: is_finite_iff)

definition math_max :: "jsnum \<Rightarrow> jsnum \<Rightarrow> jsnum" where
  "math_max x y = (if is_nan x \<or> is_nan y then NaN else if x < y then y else x)"

definition math_min :: "jsnum \<Rightarrow> jsnum \<Rightarrow> jsnum" where
  "math_min x y = (if is_nan x \<or> is_nan y then NaN else if y < x then y else x)"

lemma math_max_min_Fin [simp, js_num]:
  "math_max (Fin a) (Fin b) = Fin (max a b)" "math_min (Fin a) (Fin b) = Fin (min a b)"
  by (auto simp: math_max_def math_min_def max_def min_def)

lemma math_max_NInf [simp]: "math_max NInf x = x"
  by (cases x) (simp_all add: math_max_def)

lemma math_min_PInf [simp]: "math_min PInf x = x"
  by (cases x) (simp_all add: math_min_def)

fun math_floor :: "jsnum \<Rightarrow> jsnum" where
  "math_floor (Fin a) = Fin (of_int \<lfloor>a\<rfloor>)"
| "math_floor x = x"

fun math_ceil :: "jsnum \<Rightarrow> jsnum" where
  "math_ceil (Fin a) = Fin (of_int \<lceil>a\<rceil>)"
| "math_ceil x = x"

text \<open>\<open>Math.round\<close> rounds half up: it is the floor of the number plus one half.\<close>

definition round_half_up :: "real \<Rightarrow> int" where
  "round_half_up a = \<lfloor>a + 1 / 2\<rfloor>"

fun math_round :: "jsnum \<Rightarrow> jsnum" where
  "math_round (Fin a) = Fin (of_int (round_half_up a))"
| "math_round x = x"

fun math_abs :: "jsnum \<Rightarrow> jsnum" where
  "math_abs (Fin a) = Fin \<bar>a\<bar>"
| "math_abs NaN = NaN"
| "math_abs x = PInf"

text \<open>
  The remainder operator \<open>%\<close> on finite numbers takes the sign of the dividend.
\<close>

definition trunc_real :: "real \<Rightarrow> int" where
  "trunc_real a = (if 0 \<le> a then \<lfloor>a\<rfloor> else \<lceil>a\<rceil>)"

definition real_rem :: "real \<Rightarrow> real \<Rightarrow> real" where
  "real_rem a b = a - b * of_int (trunc_real (a / b))"

fun num_rem :: "jsnum \<Rightarrow> jsnum \<Rightarrow> jsnum" where
  "num_rem (Fin a) (Fin b) = (if b = 0 then NaN else Fin (real_rem a b))"
| "num_rem (Fin a) PInf = Fin a"
| "num_rem (Fin a) NInf = Fin a"
| "num_rem x y = NaN"

text \<open>
  The conversion \<open>ToInt32\<close> that the bit operators apply to their operands: truncate,
  reduce modulo \<open>2 ^ 32\<close>, read as two's complement; \<open>NaN\<close> and the infinities give 0.
\<close>

fun toInt32 :: "jsnum \<Rightarrow> int" where
  "toInt32 (Fin a) = sint (word_of_int (trunc_real a) :: 32 word)"
| "toInt32 x = 0"

lemma trunc_real_of_int [simp]: "trunc_real (of_int i) = i"
  by (simp add: trunc_real_def)

lemma trunc_real_numeral [simp]:
  "trunc_real 0 = 0" "trunc_real 1 = 1" "trunc_real (numeral k) = numeral k"
  by (simp_all add: trunc_real_def)

lemma toInt32_small:
  assumes "- (2 ^ 31) \<le> trunc_real a" and "trunc_real a < 2 ^ 31"
  shows "toInt32 (Fin a) = trunc_real a"
  using assms by (simp add: toInt32.simps sint_sbintrunc' signed_take_bit_int_eq_self)

declare toInt32.simps(1) [simp del]

lemma real_rem_bounds:
  assumes "0 \<le> a" and "0 < b"
  shows "0 \<le> real_rem a b \<and> real_rem a b < b"
proof -
  from assms have q: "real_rem a b = a - b * of_int \<lfloor>a / b\<rfloor>"
    by (simp add: real_rem_def trunc_real_def)
  have "of_int \<lfloor>a / b\<rfloor> \<le> a / b" and "a / b < of_int \<lfloor>a / b\<rfloor> + 1"
    by linarith+
  with assms have "of_int \<lfloor>a / b\<rfloor> * b \<le> a" and "a < (of_int \<lfloor>a / b\<rfloor> + 1) * b"
    by (simp_all only: pos_le_divide_eq pos_divide_less_eq)
  then show ?thesis by (simp add: q algebra_simps)
qed

lemma real_rem_neg_bounds:
  assumes "a < 0" and "0 < b"
  shows "- b < real_rem a b \<and> real_rem a b \<le> 0"
proof -
  from assms have q: "real_rem a b = a - b * of_int \<lceil>a / b\<rceil>"
    by (auto simp: real_rem_def trunc_real_def zero_le_divide_iff)
  have "a / b \<le> of_int \<lceil>a / b\<rceil>" and "of_int \<lceil>a / b\<rceil> - 1 < a / b"
    by linarith+
  with assms have "a \<le> of_int \<lceil>a / b\<rceil> * b" and "(of_int \<lceil>a / b\<rceil> - 1) * b < a"
    by (simp_all only: pos_divide_le_eq pos_less_divide_eq)
  then show ?thesis by (simp add: q algebra_simps)
qed

section \<open>Values\<close>

datatype jsval =
    Undefined
  | Null
  | Bool bool
  | Num jsnum
  | Str string
  | Arr "jsval list"
  | Obj "(string \<times> jsval) list"
  | Func nat

type_synonym props = "(string \<times> jsval) list"

text \<open>Reading a property, writing one (in place, or at the end), own keys.\<close>

definition prop_get :: "props \<Rightarrow> string \<Rightarrow> jsval" where
  "prop_get ps k = (case map_of ps k of None \<Rightarrow> Undefined | Some v \<Rightarrow> v)"

fun prop_set :: "string \<Rightarrow> jsval \<Rightarrow> props \<Rightarrow> props" where
  "prop_set k v [] = [(k, v)]"
| "prop_set k v ((k', v') # ps) =
     (if k' = k then (k, v) # ps else (k', v') # prop_set k v ps)"

abbreviation own_keys :: "props \<Rightarrow> string list" where
  "own_keys ps \<equiv> map fst ps"

lemma map_of_prop_set [simp, js_val]: "map_of (prop_set k v ps) = (map_of ps)(k \<mapsto> v)"
  by (induction ps) (auto simp: fun_eq_iff)

lemma prop_get_set [simp, js_val]:
  "prop_get (prop_set k v ps) k' = (if k' = k then v else prop_get ps k')"
  by (simp add: prop_get_def)

lemma set_own_keys_prop_set [simp, js_val]:
  "set (own_keys (prop_set k v ps)) = insert k (set (own_keys ps))"
  by (induction k v ps rule: prop_set.induct) auto

lemma distinct_own_keys_prop_set [simp, js_val]:
  "distinct (own_keys ps) \<Longrightarrow> distinct (own_keys (prop_set k v ps))"
proof (induction k v ps rule: prop_set.induct)
  case (2 k v k' v' ps)
  moreover have "k' \<notin> set (own_keys (prop_set k v ps))" if "k' \<noteq> k"
    using that 2 by (simp only: set_own_keys_prop_set) simp
  ultimately show ?case by auto
qed simp

text \<open>Truth value of a value in a condition.\<close>

fun truthy :: "jsval \<Rightarrow> bool" where
  "truthy Undefined = False"
| "truthy Null = False"
| "truthy (Bool b) = b"
| "truthy (Num x) = (x \<noteq> NaN \<and> x \<noteq> Fin 0)"
| "truthy (Str s) = (s \<noteq> [])"
| "truthy v = True"

section \<open>Lists\<close>

text \<open>Reading an array at an index: out of range gives \<open>undefined\<close>, here \<open>None\<close>.\<close>

definition arr_get :: "'a list \<Rightarrow> int \<Rightarrow> 'a option" where
  "arr_get xs i = (if 0 \<le> i \<and> nat i < length xs then Some (xs ! nat i) else None)"

lemma arr_get_nth [simp]: "i < length xs \<Longrightarrow> arr_get xs (int i) = Some (xs ! i)"
  by (simp add: arr_get_def)

lemma sum_list_nonneg_prefix:
  fixes xs :: "real list"
  assumes "\<And>x. x \<in> set xs \<Longrightarrow> 0 \<le> x"
  shows "0 \<le> sum_list xs"
  using assms by (rule sum_list_nonneg)

text \<open>A running average stays between the bounds of what it averages.\<close>

lemma average_between:
  fixes v :: real
  assumes "0 < n \<Longrightarrow> lo \<le> v \<and> v \<le> hi" and "lo \<le> x" and "x \<le> hi'" and "hi \<le> hi'"
  shows "lo \<le> (real n * v + x) / (real n + 1) \<and> (real n * v + x) / (real n + 1) \<le> hi'"
proof -
  have "real n * lo \<le> real n * v" and "real n * v \<le> real n * hi'"
    using assms by (cases "n = 0"; fastforce intro: mult_left_mono)+
  with assms(2,3) show ?thesis by (simp add: field_simps)
qed

end
