(* ===== verification/Math_Helpers.thy ===== *)
theory Math_Helpers
  imports JS_Prelude
begin

text \<open>
  The numeric helpers of the charting library (\<open>niceNum\<close> to \<open>_isBetween\<close> in
  \<^verbatim>\<open>chart.js\<close>). Functions that only ever see finite numbers are over \<open>real\<close>;
  where the source tests for \<open>NaN\<close> or starts from an infinity they are over
  \<open>jsnum\<close>. \<open>_factorize\<close>, which callers give positive integers, is over \<open>nat\<close>.
\<close>

section \<open>Definitions\<close>

definition TAU :: real where "TAU = 2 * pi"
definition PITAU :: real where "PITAU = TAU + pi"

definition almostEquals :: "real \<Rightarrow> real \<Rightarrow> real \<Rightarrow> bool" where
  "almostEquals x y epsilon \<longleftrightarrow> \<bar>x - y\<bar> < epsilon"

definition almostWhole :: "real \<Rightarrow> real \<Rightarrow> bool" where
  "almostWhole x epsilon =
     (let rounded = of_int (round_half_up x) in rounded - epsilon \<le> x \<and> x \<le> rounded + epsilon)"

text \<open>\<open>Math.pow(10, k)\<close> for an integer \<open>k\<close>.\<close>

definition niceNum :: "real \<Rightarrow> real" where
  "niceNum range0 =
     (let roundedRange = of_int (round_half_up range0);
          range = (if almostEquals range0 roundedRange (range0 / 1000) then roundedRange else range0);
          niceRange = 10 powr of_int \<lfloor>log 10 range\<rfloor>;
          fraction = range / niceRange;
          niceFraction = (if fraction \<le> 1 then 1 else if fraction \<le> 2 then 2
                          else if fraction \<le> 5 then 5 else 10)
      in niceFraction * niceRange)"

text \<open>
  The loop of \<open>_factorize\<close>: it runs while \<open>i < sqrt(value)\<close>, which for natural
  numbers is \<open>i * i < value\<close> (\<open>less_sqrt_iff\<close> below), and leaves the first \<open>i\<close> past
  the root. The root is a whole number within the 32 bit range of \<open>sqrt | 0\<close> exactly
  when that \<open>i\<close> squares to the value and is below \<open>2 ^ 31\<close>.
\<close>

function factorize_loop :: "nat \<Rightarrow> nat \<Rightarrow> nat list \<Rightarrow> nat list" where
  "factorize_loop v i result =
     (if i * i < v
      then factorize_loop v (Suc i) (if v mod i = 0 then result @ [i, v div i] else result)
      else if i * i = v \<and> i < 2 ^ 31 then result @ [i] else result)"
  by pat_completeness auto
termination
proof (relation "measure (\<lambda>(v, i, r). v - i)", goal_cases)
  case (2 v i r)
  moreover have "i \<le> i * i" by simp
  ultimately have "i < v" by linarith
  then show ?case by simp
qed simp

declare factorize_loop.simps [simp del]

definition factorize :: "nat \<Rightarrow> nat list" where
  "factorize v = butlast (sort (factorize_loop v 1 []))"

text \<open>Running minimum and maximum over the values that are not \<open>NaN\<close>.\<close>

fun setMinAndMax :: "jsnum list \<Rightarrow> jsnum \<times> jsnum \<Rightarrow> jsnum \<times> jsnum" where
  "setMinAndMax [] (mn, mx) = (mn, mx)"
| "setMinAndMax (v # vs) (mn, mx) =
     (if \<not> is_nan v then setMinAndMax vs (math_min mn v, math_max mx v)
      else setMinAndMax vs (mn, mx))"

definition toRadians :: "real \<Rightarrow> real" where
  "toRadians degrees = degrees * (pi / 180)"

definition toDegrees :: "real \<Rightarrow> real" where
  "toDegrees radians = radians * (180 / pi)"

text \<open>
  The number of decimal places: the loop ends for a finite decimal only, so not ending is
  \<open>None\<close>.
\<close>

partial_function (option) decimalPlaces_loop :: "real \<Rightarrow> real \<Rightarrow> nat \<Rightarrow> nat option" where
  "decimalPlaces_loop v e p =
     (if of_int (round_half_up (v * e)) / e \<noteq> v then decimalPlaces_loop v (e * 10) (Suc p)
      else Some p)"

definition decimalPlaces :: "real \<Rightarrow> nat option" where
  "decimalPlaces v = decimalPlaces_loop v 1 0"

definition distanceBetweenPoints :: "real \<times> real \<Rightarrow> real \<times> real \<Rightarrow> real" where
  "distanceBetweenPoints pt1 pt2 = sqrt ((fst pt2 - fst pt1) ^ 2 + (snd pt2 - snd pt1) ^ 2)"

definition angleDiff :: "real \<Rightarrow> real \<Rightarrow> real" where
  "angleDiff a b = real_rem (a - b + PITAU) TAU - pi"

definition normalizeAngle :: "real \<Rightarrow> real" where
  "normalizeAngle a = real_rem (real_rem a TAU + TAU) TAU"

definition angleBetween :: "real \<Rightarrow> real \<Rightarrow> real \<Rightarrow> bool \<Rightarrow> bool" where
  "angleBetween angle start end' sameAngleIsFullCircle =
     (let a = normalizeAngle angle;
          s = normalizeAngle start;
          e = normalizeAngle end';
          angleToStart = normalizeAngle (s - a);
          angleToEnd = normalizeAngle (e - a);
          startToAngle = normalizeAngle (a - s);
          endToAngle = normalizeAngle (a - e)
      in a = s \<or> a = e \<or> (sameAngleIsFullCircle \<and> s = e)
         \<or> (angleToStart > angleToEnd \<and> startToAngle < endToAngle))"

definition limitValue :: "jsnum \<Rightarrow> jsnum \<Rightarrow> jsnum \<Rightarrow> jsnum" where
  "limitValue v mn mx = math_max mn (math_min mx v)"

definition int16Range :: "jsnum \<Rightarrow> jsnum" where
  "int16Range v = limitValue v (Fin (- 32768)) (Fin 32767)"

definition isBetween :: "real \<Rightarrow> real \<Rightarrow> real \<Rightarrow> real \<Rightarrow> bool" where
  "isBetween v start end' epsilon \<longleftrightarrow> v \<ge> min start end' - epsilon \<and> v \<le> max start end' + epsilon"

section \<open>Factorisation\<close>

lemma less_sqrt_iff: "real i < sqrt (real v) \<longleftrightarrow> i * i < v"
proof -
  have "real i < sqrt (real v) \<longleftrightarrow> (real i)\<^sup>2 < real v"
    by (metis abs_of_nat real_sqrt_abs real_sqrt_less_iff)
  then show ?thesis by (simp add: power2_eq_square flip: of_nat_mult)
qed

text \<open>The divisors that the loop still adds from \<open>i\<close> on.\<close>

definition divs_from :: "nat \<Rightarrow> nat \<Rightarrow> nat set" where
  "divs_from v i = {d. d dvd v \<and> i \<le> d \<and> i * d \<le> v}"

lemma divs_from_step:
  assumes "0 < i" and "i * i < v"
  shows "divs_from v i = (if i dvd v then {i, v div i} else {}) \<union> divs_from v (Suc i)"
    (is "?l = ?r")
proof (intro subset_antisym subsetI)
  fix d
  assume "d \<in> ?l"
  then have d: "d dvd v" "i \<le> d" "i * d \<le> v" by (auto simp: divs_from_def)
  then obtain e where e: "v = d * e" by blast
  with d assms have "i \<le> e" by (metis mult.commute mult_le_cancel1 not_less_iff_gr_or_eq
        less_le_trans mult_0 not_le zero_less_mult_pos)
  show "d \<in> ?r"
  proof (cases "d = i \<or> e = i")
    case True
    then show ?thesis using e d assms by auto
  next
    case False
    with d \<open>i \<le> e\<close> have "Suc i \<le> d" "Suc i \<le> e" by auto
    then have "Suc i * d \<le> v" using e by (metis mult.commute mult_le_mono1)
    with d \<open>Suc i \<le> d\<close> show ?thesis by (auto simp: divs_from_def)
  qed
next
  fix d
  assume r: "d \<in> ?r"
  show "d \<in> ?l"
  proof (cases "d \<in> divs_from v (Suc i)")
    case True
    then show ?thesis by (auto simp: divs_from_def)
  next
    case False
    with r have i: "i dvd v" and "d = i \<or> d = v div i" by (auto split: if_splits)
    moreover have "i \<le> v div i" using assms i by (simp add: less_eq_div_iff_mult_less_eq)
    ultimately show ?thesis using assms i by (auto simp: divs_from_def)
  qed
qed

lemma factorize_loop_set:
  "0 < i \<Longrightarrow> v < 2 ^ 62 \<Longrightarrow> set (factorize_loop v i result) = set result \<union> divs_from v i"
proof (induction v i result rule: factorize_loop.induct)
  case (1 v i result)
  show ?case
  proof (cases "i * i < v")
    case True
    then show ?thesis
      using 1 divs_from_step [OF 1(2) True]
      by (auto simp: factorize_loop.simps [of v i result] dvd_eq_mod_eq_0)
  next
    case False
    have "divs_from v i = (if i * i = v then {i} else {})"
    proof (cases "i * i = v")
      case True
      then show ?thesis using 1 by (auto simp: divs_from_def)
    next
      case neq: False
      have "\<not> (i \<le> d \<and> i * d \<le> v)" for d
        using False neq 1 by (metis le_antisym le_trans mult_le_mono2 not_le)
      then show ?thesis using neq by (auto simp: divs_from_def)
    qed
    moreover have "i < 2 ^ 31" if "i * i = v"
    proof (rule ccontr)
      assume "\<not> i < 2 ^ 31"
      then have "(2 ^ 31) * (2 ^ 31) \<le> i * i" by (intro mult_le_mono) simp_all
      with that 1 show False by simp
    qed
    ultimately show ?thesis using False by (simp add: factorize_loop.simps [of v i result])
  qed
qed

lemma factorize_loop_distinct:
  "0 < i \<Longrightarrow> distinct result \<Longrightarrow> set result \<inter> divs_from v i = {} \<Longrightarrow>
     distinct (factorize_loop v i result)"
proof (induction v i result rule: factorize_loop.induct)
  case (1 v i result)
  show ?case
  proof (cases "i * i < v")
    case True
    note step = divs_from_step [OF 1(2) True]
    have ne: "i dvd v \<Longrightarrow> i \<noteq> v div i" using True by (metis dvd_mult_div_cancel nat_neq_iff)
    have out: "i \<notin> divs_from v (Suc i)" "i dvd v \<Longrightarrow> v div i \<notin> divs_from v (Suc i)"
      using True by (auto simp: divs_from_def)
    let ?r = "if v mod i = 0 then result @ [i, v div i] else result"
    have "distinct ?r" and "set ?r \<inter> divs_from v (Suc i) = {}"
      using 1 step ne out by (auto simp: dvd_eq_mod_eq_0 split: if_splits)
    then show ?thesis using 1 True by (simp add: factorize_loop.simps [of v i result])
  next
    case False
    have "i \<in> divs_from v i" if "i * i = v" using that by (auto simp: divs_from_def)
    then show ?thesis using 1 False by (auto simp: factorize_loop.simps [of v i result])
  qed
qed

lemma butlast_sorted_list_of_set:
  fixes S :: "nat set"
  assumes "finite S" and "m \<in> S" and "\<And>d. d \<in> S \<Longrightarrow> d \<le> m"
  shows "butlast (sorted_list_of_set S) = sorted_list_of_set (S - {m})"
proof -
  have "sorted_list_of_set S = sorted_list_of_set (S - {m}) @ [m]"
  proof (rule sorted_distinct_set_unique)
    show "sorted (sorted_list_of_set (S - {m}) @ [m])"
      using assms by (auto simp: sorted_append)
  qed (use assms in auto)
  then show ?thesis by simp
qed

section \<open>Angles and ranges: lemmas\<close>

lemma TAU_pos [simp]: "0 < TAU"
  by (simp add: TAU_def)

lemma normalizeAngle_range: "0 \<le> normalizeAngle a \<and> normalizeAngle a < TAU"
proof -
  have "0 \<le> real_rem a TAU + TAU"
  proof (cases "0 \<le> a")
    case True
    then show ?thesis using real_rem_bounds [of a TAU] by simp
  next
    case False
    then show ?thesis using real_rem_neg_bounds [of a TAU] by simp
  qed
  then show ?thesis unfolding normalizeAngle_def by (intro real_rem_bounds) simp_all
qed

lemma real_rem_congruent: "\<exists>k :: int. real_rem a b = a + of_int k * b"
  by (rule exI [of _ "- trunc_real (a / b)"]) (simp add: real_rem_def algebra_simps)

lemma normalizeAngle_congruent: "\<exists>k :: int. normalizeAngle a = a + of_int k * TAU"
proof -
  obtain k :: int where k: "real_rem a TAU = a + of_int k * TAU" using real_rem_congruent by blast
  obtain l :: int where "real_rem (real_rem a TAU + TAU) TAU = real_rem a TAU + TAU + of_int l * TAU"
    using real_rem_congruent by blast
  then have "normalizeAngle a = a + of_int (k + 1 + l) * TAU"
    using k by (simp add: normalizeAngle_def algebra_simps)
  then show ?thesis by blast
qed

lemma limitValue_Fin [js_num]: "limitValue (Fin v) (Fin a) (Fin b) = Fin (max a (min b v))"
  by (simp add: limitValue_def)

section \<open>Properties\<close>

text \<open>
  Proper divisors. For every positive integer whose root fits 32 bits,
  \<open>_factorize\<close> returns its divisors other than itself, each once and in increasing
  order.
\<close>

theorem factorize_divisors:
  assumes "0 < v" and "v < 2 ^ 62"
  shows "factorize v = sorted_list_of_set {d. d dvd v \<and> d < v}"
proof -
  let ?l = "factorize_loop v 1 []" and ?S = "{d. d dvd v}"
  have fin: "finite ?S" using assms by simp
  have "divs_from v 1 = ?S"
    using assms(1) by (auto simp: divs_from_def dvd_imp_le Suc_le_eq intro: Nat.gr0I)
  then have "set ?l = ?S" using factorize_loop_set [of 1 v "[]"] assms(2) by simp
  moreover have "distinct ?l" by (rule factorize_loop_distinct) simp_all
  ultimately have "sort ?l = sorted_list_of_set ?S"
    using sorted_list_of_set_sort_remdups [of ?l] by (simp add: distinct_remdups_id)
  then have "factorize v = sorted_list_of_set (?S - {v})"
    using butlast_sorted_list_of_set [OF fin, of v] assms by (simp add: factorize_def dvd_imp_le)
  also have "?S - {v} = {d. d dvd v \<and> d < v}"
    using dvd_imp_le [OF _ assms(1)] by (auto simp: order.order_iff_strict)
  finally show ?thesis .
qed

theorem factorize_divisors_witness:
  "(0::nat) < 12 \<and> (12::nat) < 2 ^ 62 \<and> factorize 12 = sorted_list_of_set {d. d dvd 12 \<and> d < 12}"
  using factorize_divisors [of 12] by simp

text \<open>
  Normalised angles. A normalised angle lies in one turn, from zero inclusive, and
  differs from the given angle by whole turns; an angle is always between itself and any
  other angle, in either role.
\<close>

theorem normalizeAngle_one_turn:
  "0 \<le> normalizeAngle a \<and> normalizeAngle a < 2 * pi \<and>
   (\<exists>k :: int. normalizeAngle a = a + of_int k * (2 * pi)) \<and>
   angleBetween a a b same \<and> angleBetween b a b same"
  using normalizeAngle_range [of a] normalizeAngle_congruent [of a]
  by (simp add: TAU_def angleBetween_def Let_def)

end
