(* ===== verification/Layout.thy ===== *)
theory Layout
  imports Math_Helpers "HOL-Library.Product_Lexorder" "HOL-Library.Monad_Syntax" "HOL-Library.Multiset"
begin

text \<open>
  The layout of the boxes around the chart area (\<^verbatim>\<open>chart.js\<close>, \<open>filterByPosition\<close> to
  the object \<open>layouts\<close>).

  The code shares the wrappers of the boxes between several lists and mutates them. Here
  the boxes and their wrappers are two lists of the state, the lists that
  \<open>buildLayoutBoxes\<close> returns hold their indices, and each operation returns the updated
  state. What a box does in \<open>update\<close>, \<open>getPadding\<close> and \<open>beforeLayout\<close> is its own: the
  record of a box carries these as functions on a state of its own type. All sizes are
  finite, and the weights of a stack do not add up to zero.

  \<open>fitBoxes\<close> calls itself as long as boxes keep changing, so it is a partial function.
\<close>

section \<open>Data\<close>

datatype side = SLeft | STop | SRight | SBottom

type_synonym sides = "side \<Rightarrow> real"

text \<open>A position: one of the four, the chart area, the text \<open>center\<close> or an object.\<close>

datatype bpos = Static side | ChartArea | Center | ObjPos

datatype axis = AxisX | AxisY | AxisOther

record 's box =
  bx_id :: nat
  bx_pos :: bpos
  bx_axis :: axis
  bx_horizontal :: bool
  bx_weight :: real
  bx_fullSize :: bool
  bx_stack :: "string option"
  bx_stackWeight :: real
  bx_hidden :: bool
  bx_state :: 's
  bx_update :: "'s \<Rightarrow> real \<Rightarrow> real \<Rightarrow> sides \<Rightarrow> 's \<times> real \<times> real"
  bx_getPadding :: "('s \<Rightarrow> sides) option"
  bx_beforeLayout :: "'s \<Rightarrow> 's"
  bx_left :: real
  bx_top :: real
  bx_right :: real
  bx_bottom :: real
  bx_width :: real
  bx_height :: real

record wrap =
  lb_index :: nat
  lb_pos :: bpos
  lb_horizontal :: bool
  lb_weight :: real
  lb_stack :: "string option"
  lb_stackWeight :: real
  lb_width :: "real option"
  lb_height :: "real option"
  lb_size :: "real option"

record stack =
  sk_count :: nat
  sk_placed :: real
  sk_weight :: real
  sk_size :: real
  sk_start :: "real option"

record area =
  ar_sides :: sides
  ar_max :: sides
  ar_w :: real
  ar_h :: real
  ar_x :: real
  ar_y :: real

record params =
  pa_outerWidth :: real
  pa_outerHeight :: real
  pa_padding :: sides
  pa_availableWidth :: real
  pa_availableHeight :: real
  pa_vBoxMaxWidth :: real
  pa_hBoxMaxHeight :: real

record 's lay =
  ly_boxes :: "'s box list"
  ly_wraps :: "wrap list"
  ly_area :: area
  ly_stacks :: "string \<Rightarrow> stack option"

text \<open>The operator \<open>||\<close> on a size that may be missing: zero counts as missing too.\<close>

definition or_size :: "real option \<Rightarrow> real \<Rightarrow> real" where
  "or_size v d = (case v of Some x \<Rightarrow> if x \<noteq> 0 then x else d | None \<Rightarrow> d)"

section \<open>Wrapping and grouping\<close>

fun pos_text :: "bpos \<Rightarrow> string" where
  "pos_text (Static SLeft) = ''left''"
| "pos_text (Static STop) = ''top''"
| "pos_text (Static SRight) = ''right''"
| "pos_text (Static SBottom) = ''bottom''"
| "pos_text ChartArea = ''chartArea''"
| "pos_text Center = ''center''"
| "pos_text ObjPos = ''[object Object]''"

definition STATIC_POSITIONS :: "bpos list" where
  "STATIC_POSITIONS = [Static SLeft, Static STop, Static SRight, Static SBottom]"

definition filterByPosition :: "wrap list \<Rightarrow> bpos \<Rightarrow> wrap list" where
  "filterByPosition array p = filter (\<lambda>v. lb_pos v = p) array"

definition filterDynamicPositionByAxis :: "'s box list \<Rightarrow> wrap list \<Rightarrow> axis \<Rightarrow> wrap list" where
  "filterDynamicPositionByAxis boxes array ax =
     filter (\<lambda>v. lb_pos v \<notin> set STATIC_POSITIONS \<and> bx_axis (boxes ! lb_index v) = ax) array"

text \<open>
  The comparator orders by weight and then by index, or the other way round. Indices differ,
  so the order is total and the result is that of sorting by the pair.
\<close>

definition sortByWeight :: "wrap list \<Rightarrow> bool \<Rightarrow> wrap list" where
  "sortByWeight array reverse =
     (if reverse then sort_key (\<lambda>v. (- lb_weight v, - int (lb_index v))) array
      else sort_key (\<lambda>v. (lb_weight v, int (lb_index v))) array)"

definition wrap_box :: "nat \<Rightarrow> 's box \<Rightarrow> wrap" where
  "wrap_box i box =
     \<lparr>lb_index = i, lb_pos = bx_pos box, lb_horizontal = bx_horizontal box,
      lb_weight = bx_weight box,
      lb_stack = map_option (\<lambda>s. pos_text (bx_pos box) @ s) (bx_stack box),
      lb_stackWeight = bx_stackWeight box,
      lb_width = None, lb_height = None, lb_size = None\<rparr>"

definition wrapBoxes :: "'s box list \<Rightarrow> wrap list" where
  "wrapBoxes boxes = map2 wrap_box [0..<length boxes] boxes"

definition new_stack :: stack where
  "new_stack = \<lparr>sk_count = 0, sk_placed = 0, sk_weight = 0, sk_size = 0, sk_start = None\<rparr>"

fun buildStacks :: "wrap list \<Rightarrow> (string \<Rightarrow> stack option) \<Rightarrow> string \<Rightarrow> stack option" where
  "buildStacks [] stacks = stacks"
| "buildStacks (w # ws) stacks =
     (case lb_stack w of
        None \<Rightarrow> buildStacks ws stacks
      | Some key \<Rightarrow>
          if lb_pos w \<notin> set STATIC_POSITIONS then buildStacks ws stacks
          else
            let s = (case stacks key of Some s \<Rightarrow> s | None \<Rightarrow> new_stack);
                s1 = s\<lparr>sk_count := sk_count s + 1, sk_weight := sk_weight s + lb_stackWeight w\<rparr>
            in buildStacks ws (stacks(key \<mapsto> s1)))"

definition stack_of :: "(string \<Rightarrow> stack option) \<Rightarrow> wrap \<Rightarrow> stack option" where
  "stack_of stacks w = Option.bind (lb_stack w) stacks"

definition full_size :: "'s box list \<Rightarrow> wrap \<Rightarrow> bool" where
  "full_size boxes w = bx_fullSize (boxes ! lb_index w)"

text \<open>
  The dimensions that a wrapper starts with: its share of a stack, the available size for a
  full size box, nothing otherwise.
\<close>

definition share :: "(string \<Rightarrow> stack option) \<Rightarrow> wrap \<Rightarrow> real \<Rightarrow> real option \<Rightarrow> real option" where
  "share stacks w whole otherwise =
     (case stack_of stacks w of
        Some s \<Rightarrow> (let factor = lb_stackWeight w / sk_weight s in
                   if factor \<noteq> 0 then Some (factor * whole) else otherwise)
      | None \<Rightarrow> otherwise)"

definition set_dims :: "'s box list \<Rightarrow> (string \<Rightarrow> stack option) \<Rightarrow> params \<Rightarrow> wrap \<Rightarrow> wrap" where
  "set_dims boxes stacks prm w =
     (if lb_horizontal w
      then w\<lparr>lb_width := share stacks w (pa_vBoxMaxWidth prm)
               (if full_size boxes w then Some (pa_availableWidth prm) else None),
             lb_height := Some (pa_hBoxMaxHeight prm)\<rparr>
      else w\<lparr>lb_width := Some (pa_vBoxMaxWidth prm),
             lb_height := share stacks w (pa_hBoxMaxHeight prm)
               (if full_size boxes w then Some (pa_availableHeight prm) else None)\<rparr>)"

definition setLayoutDims ::
  "'s box list \<Rightarrow> nat list \<Rightarrow> wrap list \<Rightarrow> params \<Rightarrow> wrap list \<times> (string \<Rightarrow> stack option)" where
  "setLayoutDims boxes is wraps prm =
     (let stacks = buildStacks (map (nth wraps) is) Map.empty
      in (fold (\<lambda>i ws. ws[i := set_dims boxes stacks prm (ws ! i)]) is wraps, stacks))"

record layout_boxes =
  lx_fullSize :: "nat list"
  lx_leftAndTop :: "nat list"
  lx_rightAndBottom :: "nat list"
  lx_chartArea :: "nat list"
  lx_vertical :: "nat list"
  lx_horizontal :: "nat list"

definition buildLayoutBoxes :: "'s box list \<Rightarrow> layout_boxes" where
  "buildLayoutBoxes boxes =
     (let layoutBoxes = wrapBoxes boxes;
          fullSize = sortByWeight (filter (full_size boxes) layoutBoxes) True;
          left = sortByWeight (filterByPosition layoutBoxes (Static SLeft)) True;
          right = sortByWeight (filterByPosition layoutBoxes (Static SRight)) False;
          top = sortByWeight (filterByPosition layoutBoxes (Static STop)) True;
          bottom = sortByWeight (filterByPosition layoutBoxes (Static SBottom)) False;
          centerHorizontal = filterDynamicPositionByAxis boxes layoutBoxes AxisX;
          centerVertical = filterDynamicPositionByAxis boxes layoutBoxes AxisY
      in \<lparr>lx_fullSize = map lb_index fullSize,
          lx_leftAndTop = map lb_index (left @ top),
          lx_rightAndBottom = map lb_index (right @ centerVertical @ bottom @ centerHorizontal),
          lx_chartArea = map lb_index (filterByPosition layoutBoxes ChartArea),
          lx_vertical = map lb_index (left @ right @ centerVertical),
          lx_horizontal = map lb_index (top @ bottom @ centerHorizontal)\<rparr>)"

section \<open>Fitting\<close>

definition getCombinedMax :: "sides \<Rightarrow> sides \<Rightarrow> side \<Rightarrow> side \<Rightarrow> real" where
  "getCombinedMax maxPadding chartArea a b =
     max (maxPadding a) (chartArea a) + max (maxPadding b) (chartArea b)"

definition updateMaxPadding :: "sides \<Rightarrow> sides \<Rightarrow> sides" where
  "updateMaxPadding maxPadding boxPadding = (\<lambda>s. max (maxPadding s) (boxPadding s))"

text \<open>The dimension of a box that counts towards its side.\<close>

definition thickness :: "wrap \<Rightarrow> 's box \<Rightarrow> real" where
  "thickness w box = (if lb_horizontal w then bx_height box else bx_width box)"

definition size_or0 :: "wrap \<Rightarrow> real" where
  "size_or0 w = (case lb_size w of Some x \<Rightarrow> x | None \<Rightarrow> 0)"

text \<open>
  The accounting step of \<open>updateDims\<close>: the old size of the wrapper is taken off its side of
  the area, the new one is added. The text \<open>center\<close> names a property of the area that nothing
  reads.
\<close>

fun add_side :: "bpos \<Rightarrow> real \<Rightarrow> sides \<Rightarrow> sides" where
  "add_side (Static s) d a = a(s := a s + d)"
| "add_side p d a = a"

definition resize :: "nat \<Rightarrow> 's lay \<Rightarrow> 's lay" where
  "resize i st =
     (let w = ly_wraps st ! i; box = ly_boxes st ! i in
      if lb_pos w = ObjPos then st
      else
        let s = (case stack_of (ly_stacks st) w of
                   Some s \<Rightarrow> s | None \<Rightarrow> new_stack\<lparr>sk_count := 1\<rparr>);
            s1 = s\<lparr>sk_size := max (sk_size s) (thickness w box)\<rparr>;
            newsize = sk_size s1 / real (sk_count s1);
            a = ly_area st
        in st\<lparr>ly_area := a\<lparr>ar_sides :=
                 add_side (lb_pos w) newsize (add_side (lb_pos w) (- size_or0 w) (ar_sides a))\<rparr>,
              ly_wraps := (ly_wraps st)[i := w\<lparr>lb_size := Some newsize\<rparr>],
              ly_stacks := (case stack_of (ly_stacks st) w of
                              Some _ \<Rightarrow> (ly_stacks st)(the (lb_stack w) \<mapsto> s1)
                            | None \<Rightarrow> ly_stacks st)\<rparr>)"

definition pad_area :: "nat \<Rightarrow> 's lay \<Rightarrow> 's lay" where
  "pad_area i st =
     (let box = ly_boxes st ! i; a = ly_area st in
      case bx_getPadding box of
        None \<Rightarrow> st
      | Some g \<Rightarrow> st\<lparr>ly_area := a\<lparr>ar_max := updateMaxPadding (ar_max a) (g (bx_state box))\<rparr>\<rparr>)"

text \<open>The result is the state and the flags \<open>same\<close> and \<open>other\<close>.\<close>

definition updateDims :: "params \<Rightarrow> nat \<Rightarrow> 's lay \<Rightarrow> 's lay \<times> bool \<times> bool" where
  "updateDims prm i st0 =
     (let st = pad_area i (resize i st0);
          a = ly_area st;
          newWidth = max 0 (pa_outerWidth prm - getCombinedMax (ar_max a) (ar_sides a) SLeft SRight);
          newHeight = max 0 (pa_outerHeight prm - getCombinedMax (ar_max a) (ar_sides a) STop SBottom);
          widthChanged = (newWidth \<noteq> ar_w a);
          heightChanged = (newHeight \<noteq> ar_h a);
          st' = st\<lparr>ly_area := a\<lparr>ar_w := newWidth, ar_h := newHeight\<rparr>\<rparr>
      in if lb_horizontal (ly_wraps st0 ! i) then (st', widthChanged, heightChanged)
         else (st', heightChanged, widthChanged))"

definition updatePos :: "side \<Rightarrow> area \<Rightarrow> area \<times> real" where
  "updatePos s a =
     (let change = max (ar_max a s - ar_sides a s) 0
      in (a\<lparr>ar_sides := (ar_sides a)(s := ar_sides a s + change)\<rparr>, change))"

definition handleMaxPadding :: "area \<Rightarrow> area" where
  "handleMaxPadding a0 =
     (let (a1, dt) = updatePos STop a0; a2 = a1\<lparr>ar_y := ar_y a1 + dt\<rparr>;
          (a3, dl) = updatePos SLeft a2; a4 = a3\<lparr>ar_x := ar_x a3 + dl\<rparr>;
          (a5, dr) = updatePos SRight a4;
          (a6, db) = updatePos SBottom a5
      in a6)"

definition getMargins :: "bool \<Rightarrow> area \<Rightarrow> sides" where
  "getMargins horizontal a =
     (let positions = (if horizontal then [SLeft, SRight] else [STop, SBottom])
      in (\<lambda>s. if s \<in> set positions then max (ar_sides a s) (ar_max a s) else 0))"

text \<open>The call of a box's \<open>update\<close> with the dimensions its wrapper gives.\<close>

definition box_update :: "real \<Rightarrow> real \<Rightarrow> sides \<Rightarrow> 's box \<Rightarrow> 's box" where
  "box_update w h margins box =
     (let (s, wd, ht) = bx_update box (bx_state box) w h margins
      in box\<lparr>bx_state := s, bx_width := wd, bx_height := ht\<rparr>)"

definition update_box :: "nat \<Rightarrow> 's lay \<Rightarrow> 's lay" where
  "update_box i st =
     (let w = ly_wraps st ! i; a = ly_area st in
      st\<lparr>ly_boxes := (ly_boxes st)[i :=
            box_update (or_size (lb_width w) (ar_w a)) (or_size (lb_height w) (ar_h a))
              (getMargins (lb_horizontal w) a) (ly_boxes st ! i)]\<rparr>)"

text \<open>The loop of \<open>fitBoxes\<close>: the boxes to fit again, \<open>refit\<close> and \<open>changed\<close>.\<close>

fun fit_pass :: "params \<Rightarrow> nat list \<Rightarrow> 's lay \<Rightarrow> nat list \<Rightarrow> bool \<Rightarrow> bool \<Rightarrow>
    's lay \<times> nat list \<times> bool \<times> bool" where
  "fit_pass prm [] st refitBoxes refit changed = (st, refitBoxes, refit, changed)"
| "fit_pass prm (i # is) st refitBoxes refit changed =
     (let (st', same, other) = updateDims prm i (update_box i st);
          refit' = (refit \<or> (same \<and> refitBoxes \<noteq> []));
          refitBoxes' = (if bx_fullSize (ly_boxes st' ! i) then refitBoxes else refitBoxes @ [i])
      in fit_pass prm is st' refitBoxes' refit' (changed \<or> other))"

partial_function (option) fitBoxes :: "params \<Rightarrow> nat list \<Rightarrow> 's lay \<Rightarrow> ('s lay \<times> bool) option" where
  "fitBoxes prm is st =
     (case fit_pass prm is st [] False False of
        (st', refitBoxes, refit, changed) \<Rightarrow>
          if refit then
            Option.bind (fitBoxes prm refitBoxes st') (\<lambda>(st'', r). Some (st'', r \<or> changed))
          else Some (st', changed))"

section \<open>Placing\<close>

definition setBoxDims :: "'s box \<Rightarrow> real \<Rightarrow> real \<Rightarrow> real \<Rightarrow> real \<Rightarrow> 's box" where
  "setBoxDims box l t wd ht =
     box\<lparr>bx_top := t, bx_left := l, bx_right := l + wd, bx_bottom := t + ht,
         bx_width := wd, bx_height := ht\<rparr>"

definition place_box :: "params \<Rightarrow> nat \<Rightarrow> 's lay \<times> real \<times> real \<Rightarrow> 's lay \<times> real \<times> real" where
  "place_box prm i stxy =
     (let (st, x0, y0) = stxy;
          w = ly_wraps st ! i; box = ly_boxes st ! i; a = ly_area st;
          known = stack_of (ly_stacks st) w;
          s = (case known of
                 Some s \<Rightarrow> s | None \<Rightarrow> new_stack\<lparr>sk_count := 1, sk_weight := 1\<rparr>);
          weight = or_size (Some (lb_stackWeight w / sk_weight s)) 1;
          store = (\<lambda>s'. case known of
                          Some _ \<Rightarrow> (ly_stacks st)(the (lb_stack w) \<mapsto> s')
                        | None \<Rightarrow> ly_stacks st)
      in if lb_horizontal w then
           let width = ar_w a * weight;
               height = or_size (Some (sk_size s)) (bx_height box);
               y = (case sk_start s of Some v \<Rightarrow> v | None \<Rightarrow> y0);
               box' = (if bx_fullSize box
                 then setBoxDims box (pa_padding prm SLeft) y
                        (pa_outerWidth prm - pa_padding prm SRight - pa_padding prm SLeft) height
                 else setBoxDims box (ar_sides a SLeft + sk_placed s) y width height)
           in (st\<lparr>ly_boxes := (ly_boxes st)[i := box'],
                  ly_stacks := store (s\<lparr>sk_start := Some y, sk_placed := sk_placed s + width\<rparr>)\<rparr>,
               x0, bx_bottom box')
         else
           let height = ar_h a * weight;
               width = or_size (Some (sk_size s)) (bx_width box);
               x = (case sk_start s of Some v \<Rightarrow> v | None \<Rightarrow> x0);
               box' = (if bx_fullSize box
                 then setBoxDims box x (pa_padding prm STop) width
                        (pa_outerHeight prm - pa_padding prm SBottom - pa_padding prm STop)
                 else setBoxDims box x (ar_sides a STop + sk_placed s) width height)
           in (st\<lparr>ly_boxes := (ly_boxes st)[i := box'],
                  ly_stacks := store (s\<lparr>sk_start := Some x, sk_placed := sk_placed s + height\<rparr>)\<rparr>,
               bx_right box', y0))"

definition placeBoxes :: "params \<Rightarrow> nat list \<Rightarrow> 's lay \<Rightarrow> 's lay" where
  "placeBoxes prm is st =
     (let (st', x, y) = fold (place_box prm) is (st, ar_x (ly_area st), ar_y (ly_area st))
      in st'\<lparr>ly_area := (ly_area st')\<lparr>ar_x := x, ar_y := y\<rparr>\<rparr>)"

section \<open>The object \<open>layouts\<close>\<close>

text \<open>
  An item as it comes to \<open>addBox\<close>, where a missing field is \<open>None\<close>; \<open>_layers\<close> is not
  represented.
\<close>

definition addBox ::
  "'s box list \<Rightarrow> 's box \<Rightarrow> bool option \<Rightarrow> bpos option \<Rightarrow> real option \<Rightarrow> 's box list" where
  "addBox boxes item fullSize position weight =
     boxes @ [item\<lparr>bx_fullSize := (fullSize = Some True),
                    bx_pos := (case position of Some p \<Rightarrow> p | None \<Rightarrow> Static STop),
                    bx_weight := (case weight of Some x \<Rightarrow> x | None \<Rightarrow> 0)\<rparr>]"

definition removeBox :: "'s box list \<Rightarrow> nat \<Rightarrow> 's box list" where
  "removeBox boxes item =
     (let pre = takeWhile (\<lambda>b. bx_id b \<noteq> item) boxes in
      if length pre = length boxes then boxes else pre @ drop (length pre + 1) boxes)"

definition configure_box :: "'s box \<Rightarrow> bool \<Rightarrow> bpos \<Rightarrow> real \<Rightarrow> 's box" where
  "configure_box item fullSize position weight =
     item\<lparr>bx_fullSize := fullSize, bx_pos := position, bx_weight := weight\<rparr>"

definition layout_params :: "'s box list \<Rightarrow> nat list \<Rightarrow> sides \<Rightarrow> real \<Rightarrow> real \<Rightarrow> params" where
  "layout_params boxes vertical padding width height =
     (let availableWidth = max (width - (padding SLeft + padding SRight)) 0;
          availableHeight = max (height - (padding STop + padding SBottom)) 0;
          visible = length (filter (\<lambda>i. \<not> bx_hidden (boxes ! i)) vertical);
          visibleVerticalBoxCount = (if visible = 0 then 1 else visible)
      in \<lparr>pa_outerWidth = width, pa_outerHeight = height, pa_padding = padding,
          pa_availableWidth = availableWidth, pa_availableHeight = availableHeight,
          pa_vBoxMaxWidth = availableWidth / 2 / real visibleVerticalBoxCount,
          pa_hBoxMaxHeight = availableHeight / 2\<rparr>)"

definition start_layout :: "'s box list \<Rightarrow> layout_boxes \<Rightarrow> params \<Rightarrow> sides \<Rightarrow> 's lay" where
  "start_layout boxes lx prm minPadding =
     (let padding = pa_padding prm;
          (wraps, stacks) = setLayoutDims boxes (lx_vertical lx @ lx_horizontal lx) (wrapBoxes boxes) prm
      in \<lparr>ly_boxes = map (\<lambda>b. b\<lparr>bx_state := bx_beforeLayout b (bx_state b)\<rparr>) boxes,
          ly_wraps = wraps,
          ly_area = \<lparr>ar_sides = padding, ar_max = updateMaxPadding padding minPadding,
                      ar_w = pa_availableWidth prm, ar_h = pa_availableHeight prm,
                      ar_x = padding SLeft, ar_y = padding STop\<rparr>,
          ly_stacks = stacks\<rparr>)"

definition fit_all :: "params \<Rightarrow> layout_boxes \<Rightarrow> 's lay \<Rightarrow> 's lay option" where
  "fit_all prm lx st0 = do {
     (st1, _) \<leftarrow> fitBoxes prm (lx_fullSize lx) st0;
     (st2, _) \<leftarrow> fitBoxes prm (lx_vertical lx) st1;
     (st3, changed) \<leftarrow> fitBoxes prm (lx_horizontal lx) st2;
     if changed then do { (st4, _) \<leftarrow> fitBoxes prm (lx_vertical lx) st3; Some st4 }
     else Some st3
   }"

definition place_all :: "params \<Rightarrow> layout_boxes \<Rightarrow> 's lay \<Rightarrow> 's lay" where
  "place_all prm lx st =
     (let st1 = st\<lparr>ly_area := handleMaxPadding (ly_area st)\<rparr>;
          st2 = placeBoxes prm (lx_leftAndTop lx) st1;
          a = ly_area st2;
          st3 = st2\<lparr>ly_area := a\<lparr>ar_x := ar_x a + ar_w a, ar_y := ar_y a + ar_h a\<rparr>\<rparr>
      in placeBoxes prm (lx_rightAndBottom lx) st3)"

record chart_area =
  ca_left :: real
  ca_top :: real
  ca_right :: real
  ca_bottom :: real
  ca_width :: real
  ca_height :: real

definition final_area :: "area \<Rightarrow> chart_area" where
  "final_area a =
     \<lparr>ca_left = ar_sides a SLeft, ca_top = ar_sides a STop,
      ca_right = ar_sides a SLeft + ar_w a, ca_bottom = ar_sides a STop + ar_h a,
      ca_width = ar_w a, ca_height = ar_h a\<rparr>"

text \<open>
  A box in the chart area gets the area's dimensions and is updated without margins. The
  assignment copies the dimensions of the area into the box first.
\<close>

definition area_box :: "chart_area \<Rightarrow> 's box \<Rightarrow> 's box" where
  "area_box c box =
     box_update (ca_width c) (ca_height c) (\<lambda>s. 0)
       (box\<lparr>bx_left := ca_left c, bx_top := ca_top c, bx_right := ca_right c,
            bx_bottom := ca_bottom c, bx_width := ca_width c, bx_height := ca_height c\<rparr>)"

definition layout_update ::
  "'s box list \<Rightarrow> sides \<Rightarrow> real \<Rightarrow> real \<Rightarrow> sides \<Rightarrow> ('s box list \<times> chart_area) option" where
  "layout_update boxes padding width height minPadding =
     (let lx = buildLayoutBoxes boxes;
          prm = layout_params boxes (lx_vertical lx) padding width height
      in map_option (\<lambda>st.
           let st1 = place_all prm lx st; c = final_area (ly_area st1)
           in (fold (\<lambda>i bs. bs[i := area_box c (bs ! i)]) (lx_chartArea lx) (ly_boxes st1), c))
         (fit_all prm lx (start_layout boxes lx prm minPadding)))"

section \<open>Accounting: lemmas\<close>

named_theorems lay_frame \<open>what the operations of the layout leave unchanged\<close>

lemma sum_list_map_update:
  fixes f :: "'a \<Rightarrow> real"
  shows "i < length xs \<Longrightarrow> sum_list (map f (xs[i := x])) = sum_list (map f xs) - f (xs ! i) + f x"
  by (induction xs arbitrary: i) (auto split: nat.split)

text \<open>The fields of a wrapper that fitting and placing never change.\<close>

definition same_wrap :: "wrap \<Rightarrow> wrap \<Rightarrow> bool" where
  "same_wrap w w' \<longleftrightarrow> w' = w\<lparr>lb_size := lb_size w'\<rparr>"

lemma same_wrapD [lay_frame]:
  assumes "same_wrap w w'"
  shows "lb_index w' = lb_index w" "lb_pos w' = lb_pos w" "lb_horizontal w' = lb_horizontal w"
    "lb_weight w' = lb_weight w" "lb_stack w' = lb_stack w" "lb_stackWeight w' = lb_stackWeight w"
    "lb_width w' = lb_width w" "lb_height w' = lb_height w"
  using assms by (cases w; cases w'; simp add: same_wrap_def)+

definition same_wraps :: "wrap list \<Rightarrow> wrap list \<Rightarrow> bool" where
  "same_wraps ws ws' \<longleftrightarrow> list_all2 same_wrap ws ws'"

lemma same_wraps_refl [simp]: "same_wraps ws ws"
  by (simp add: same_wraps_def same_wrap_def list_all2_same)

lemma same_wrap_trans: "same_wrap a b \<Longrightarrow> same_wrap b c \<Longrightarrow> same_wrap a c"
  by (cases a; cases b; cases c) (simp add: same_wrap_def)

lemma same_wrap_size: "same_wrap w (w\<lparr>lb_size := v\<rparr>)" "same_wrap w w"
  by (cases w; simp add: same_wrap_def)+

lemma same_wraps_trans: "same_wraps ws ws' \<Longrightarrow> same_wraps ws' ws'' \<Longrightarrow> same_wraps ws ws''"
  unfolding same_wraps_def
  by (rule list_all2_trans [of same_wrap same_wrap same_wrap]) (rule same_wrap_trans)

lemma same_wraps_length: "same_wraps ws ws' \<Longrightarrow> length ws' = length ws"
  by (simp add: same_wraps_def list_all2_lengthD)

lemma same_wraps_nth: "same_wraps ws ws' \<Longrightarrow> i < length ws \<Longrightarrow> same_wrap (ws ! i) (ws' ! i)"
  by (simp add: same_wraps_def list_all2_nthD)

lemma same_wraps_update: "same_wraps ws (ws[i := (ws ! i)\<lparr>lb_size := v\<rparr>])"
  unfolding same_wraps_def list_all2_conv_all_nth
  by (cases "i < length ws") (simp_all add: nth_list_update same_wrap_size list_update_beyond)

lemma resize_frame:
  "ly_boxes (resize i st) = ly_boxes st" "same_wraps (ly_wraps st) (ly_wraps (resize i st))"
  "ar_max (ly_area (resize i st)) = ar_max (ly_area st)"
  by (simp_all add: resize_def Let_def same_wraps_update)

lemma pad_area_frame:
  "ly_boxes (pad_area i st) = ly_boxes st" "ly_wraps (pad_area i st) = ly_wraps st"
  "ly_stacks (pad_area i st) = ly_stacks st" "ar_sides (ly_area (pad_area i st)) = ar_sides (ly_area st)"
  by (simp_all add: pad_area_def Let_def split: option.split)

lemma update_box_frame:
  "ly_wraps (update_box i st) = ly_wraps st" "ly_area (update_box i st) = ly_area st"
  "ly_stacks (update_box i st) = ly_stacks st"
  "length (ly_boxes (update_box i st)) = length (ly_boxes st)"
  by (simp_all add: update_box_def Let_def)

lemma update_box_other: "j \<noteq> i \<Longrightarrow> ly_boxes (update_box i st) ! j = ly_boxes st ! j"
  by (simp add: update_box_def Let_def)

lemma updateDims_frame:
  assumes "updateDims prm i st = (st', same, other)"
  shows "ly_boxes st' = ly_boxes st" "ly_wraps st' = ly_wraps (resize i st)"
    "ar_sides (ly_area st') = ar_sides (ly_area (resize i st))"
    "ly_stacks st' = ly_stacks (resize i st)"
  using assms by (auto simp: updateDims_def Let_def pad_area_frame resize_frame split: if_splits)

definition side_total :: "wrap list \<Rightarrow> side \<Rightarrow> real" where
  "side_total ws s = sum_list (map (\<lambda>w. if lb_pos w = Static s then size_or0 w else 0) ws)"

definition balanced :: "sides \<Rightarrow> 's lay \<Rightarrow> bool" where
  "balanced padding st \<longleftrightarrow>
     (\<forall>s. ar_sides (ly_area st) s = padding s + side_total (ly_wraps st) s)"

lemma add_side_apply: "add_side p d a s = a s + (if p = Static s then d else 0)"
  by (cases "(p, d, a)" rule: add_side.cases) auto

lemma resize_balanced:
  assumes "balanced padding st" and "i < length (ly_wraps st)"
  shows "balanced padding (resize i st)"
  unfolding balanced_def
proof
  fix s
  have "ar_sides (ly_area (resize i st)) s - side_total (ly_wraps (resize i st)) s
      = ar_sides (ly_area st) s - side_total (ly_wraps st) s"
    using assms(2)
    by (auto simp: resize_def Let_def side_total_def sum_list_map_update add_side_apply size_or0_def)
  with assms(1) show "ar_sides (ly_area (resize i st)) s
      = padding s + side_total (ly_wraps (resize i st)) s"
    by (simp add: balanced_def)
qed

text \<open>One step of the loop of \<open>fitBoxes\<close>, and a rule for what every step preserves.\<close>

definition fit_step :: "params \<Rightarrow> nat \<Rightarrow> 's lay \<Rightarrow> 's lay" where
  "fit_step prm i st = fst (updateDims prm i (update_box i st))"

lemma fit_pass_state:
  "fst (fit_pass prm is st rb r c) = fold (fit_step prm) is st"
proof (induction "is" arbitrary: st rb r c)
  case (Cons i ks)
  obtain st' s ot where u: "updateDims prm i (update_box i st) = (st', s, ot)" by (metis prod_cases3)
  then show ?case by (simp add: Cons.IH fit_step_def Let_def)
qed simp

lemma fit_pass_refit:
  "set (fst (snd (fit_pass prm is st rb r c))) \<subseteq> set rb \<union> set is"
proof (induction "is" arbitrary: st rb r c)
  case (Cons i ks)
  obtain st' s ot where u: "updateDims prm i (update_box i st) = (st', s, ot)" by (metis prod_cases3)
  show ?case
    using Cons.IH [of st' rb "r \<or> (s \<and> rb \<noteq> [])" "c \<or> ot"]
      Cons.IH [of st' "rb @ [i]" "r \<or> (s \<and> rb \<noteq> [])" "c \<or> ot"]
    by (auto simp: u Let_def)
qed simp

lemma fitBoxes_invariant:
  assumes step: "\<And>i st. i \<in> I \<Longrightarrow> P st \<Longrightarrow> P (fit_step prm i st)"
    and "fitBoxes prm is st = Some (st', r)" and "set is \<subseteq> I" and "P st"
  shows "P st'"
proof -
  have "prm = prm \<longrightarrow> (\<forall>st' r. x = (st', r) \<longrightarrow> set is \<subseteq> I \<longrightarrow> P st \<longrightarrow> P st')"
    if "fitBoxes prm is st = Some x" for x
  proof (rule fitBoxes.raw_induct [where P = "\<lambda>p ks s y. p = prm \<longrightarrow>
      (\<forall>st' r. y = (st', r) \<longrightarrow> set ks \<subseteq> I \<longrightarrow> P s \<longrightarrow> P st')", OF _ that], intro impI allI)
    fix fit p ks s y st' r
    assume IH: "\<And>p ks s y. fit p ks s = Some y \<Longrightarrow>
        p = prm \<longrightarrow> (\<forall>st' r. y = (st', r) \<longrightarrow> set ks \<subseteq> I \<longrightarrow> P s \<longrightarrow> P st')"
      and run: "(case fit_pass p ks s [] False False of
        (st', refitBoxes, refit, changed) \<Rightarrow>
          if refit then Option.bind (fit p refitBoxes st') (\<lambda>(st'', r). Some (st'', r \<or> changed))
          else Some (st', changed)) = Some y"
      and p: "p = prm" and y: "y = (st', r)" and ks: "set ks \<subseteq> I" and Ps: "P s"
    obtain s1 rb rf ch where fp: "fit_pass p ks s [] False False = (s1, rb, rf, ch)"
      by (metis prod_cases4)
    have "s1 = fold (fit_step prm) ks s"
      using fit_pass_state [of p ks s "[]" False False] fp p by simp
    moreover have "P (fold (fit_step prm) ks s)"
      using ks Ps
    proof (induction ks arbitrary: s)
      case (Cons k ks)
      then show ?case using step by simp
    qed simp
    ultimately have P1: "P s1" by simp
    have rb: "set rb \<subseteq> I" using fit_pass_refit [of p ks s "[]" False False] fp ks by auto
    show "P st'"
    proof (cases rf)
      case True
      with run fp obtain r' where "fit p rb s1 = Some (st', r')"
        by (auto simp: y split: Option.bind_splits prod.splits)
      with IH p rb P1 show ?thesis by blast
    next
      case False
      with run fp y P1 show ?thesis by simp
    qed
  qed
  with assms show ?thesis by blast
qed

lemma fit_step_frame:
  "ly_wraps (fit_step prm i st) = ly_wraps (resize i (update_box i st))"
  "ly_boxes (fit_step prm i st) = ly_boxes (update_box i st)"
  "ar_sides (ly_area (fit_step prm i st)) = ar_sides (ly_area (resize i (update_box i st)))"
  "ly_stacks (fit_step prm i st) = ly_stacks (resize i (update_box i st))"
  unfolding fit_step_def
  by (metis updateDims_frame prod.collapse)+

text \<open>
  Every operation keeps the boxes' and the wrappers' number; the accounting is an invariant.
\<close>

definition wf_lay :: "nat \<Rightarrow> 's lay \<Rightarrow> bool" where
  "wf_lay n st \<longleftrightarrow> length (ly_wraps st) = n \<and> length (ly_boxes st) = n"

lemma fit_step_wf: "wf_lay n st \<Longrightarrow> wf_lay n (fit_step prm i st)"
  using same_wraps_length [OF resize_frame(2), of i "update_box i st"]
  by (simp add: wf_lay_def fit_step_frame update_box_frame)

lemma update_box_balanced: "balanced padding (update_box i st) = balanced padding st"
  by (simp add: balanced_def update_box_frame)

lemma fit_step_balanced:
  assumes "balanced padding st" and "i < length (ly_wraps st)"
  shows "balanced padding (fit_step prm i st)"
proof -
  have "balanced padding (resize i (update_box i st))"
    using assms by (intro resize_balanced) (simp_all add: update_box_balanced update_box_frame)
  then show ?thesis by (simp add: balanced_def fit_step_frame)
qed

lemma fit_all_invariant:
  assumes "\<And>i st. i \<in> I \<Longrightarrow> P st \<Longrightarrow> P (fit_step prm i st)"
    and "set (lx_fullSize lx @ lx_vertical lx @ lx_horizontal lx) \<subseteq> I"
    and "fit_all prm lx st = Some st'" and "P st"
  shows "P st'"
proof -
  from assms(3) obtain st1 st2 st3 r1 r2 ch where
    1: "fitBoxes prm (lx_fullSize lx) st = Some (st1, r1)" and
    2: "fitBoxes prm (lx_vertical lx) st1 = Some (st2, r2)" and
    3: "fitBoxes prm (lx_horizontal lx) st2 = Some (st3, ch)" and
    4: "(if ch then Option.bind (fitBoxes prm (lx_vertical lx) st3) (\<lambda>(s, r). Some s) else Some st3)
          = Some st'"
    by (auto simp: fit_all_def split: Option.bind_splits)
  note inv = fitBoxes_invariant [of I P prm, OF assms(1)]
  have "P st1" using inv [OF _ _ 1] assms(2,4) by auto
  then have "P st2" using inv [OF _ _ 2] assms(2) by auto
  then have P3: "P st3" using inv [OF _ _ 3] assms(2) by auto
  show ?thesis
  proof (cases ch)
    case True
    with 4 obtain r where 5: "fitBoxes prm (lx_vertical lx) st3 = Some (st', r)"
      by (auto split: Option.bind_splits)
    show ?thesis using inv [OF _ _ 5] P3 assms(2) by auto
  next
    case False
    with 4 P3 show ?thesis by simp
  qed
qed

section \<open>Grouping: lemmas\<close>

lemma wrapBoxes_nth: "i < length boxes \<Longrightarrow> wrapBoxes boxes ! i = wrap_box i (boxes ! i)"
  by (simp add: wrapBoxes_def)

lemma wrapBoxes_conv: "wrapBoxes boxes = map (\<lambda>i. wrap_box i (boxes ! i)) [0..<length boxes]"
  by (rule nth_equalityI) (simp_all add: wrapBoxes_def)

lemma sortByWeight_mset: "mset (sortByWeight array r) = mset array"
  by (simp add: sortByWeight_def)

text \<open>The indices of the boxes that satisfy a condition.\<close>

definition indices :: "'s box list \<Rightarrow> ('s box \<Rightarrow> bool) \<Rightarrow> nat multiset" where
  "indices boxes P = mset (filter (\<lambda>i. P (boxes ! i)) [0..<length boxes])"

lemma mset_filtered:
  assumes "\<And>i. i < length boxes \<Longrightarrow> Q (wrap_box i (boxes ! i)) = P (boxes ! i)"
  shows "image_mset lb_index (mset (filter Q (wrapBoxes boxes))) = indices boxes P"
proof -
  have "map lb_index (filter Q (wrapBoxes boxes))
      = filter (\<lambda>i. Q (wrap_box i (boxes ! i))) [0..<length boxes]"
    unfolding wrapBoxes_conv by (simp add: filter_map comp_def wrap_box_def)
  also have "\<dots> = filter (\<lambda>i. P (boxes ! i)) [0..<length boxes]"
    by (rule filter_cong) (simp_all add: assms)
  finally show ?thesis unfolding indices_def by (metis mset_map)
qed

lemma mset_position:
  "image_mset lb_index (mset (sortByWeight (filterByPosition (wrapBoxes boxes) p) r))
     = indices boxes (\<lambda>b. bx_pos b = p)"
  unfolding sortByWeight_mset filterByPosition_def
  by (rule mset_filtered) (simp add: wrap_box_def)

lemma mset_dynamic:
  "image_mset lb_index (mset (filterDynamicPositionByAxis boxes (wrapBoxes boxes) ax))
     = indices boxes (\<lambda>b. bx_pos b \<notin> set STATIC_POSITIONS \<and> bx_axis b = ax)"
  unfolding filterDynamicPositionByAxis_def
  by (rule mset_filtered) (simp add: wrap_box_def)

lemma mset_fullSize:
  "mset (lx_fullSize (buildLayoutBoxes boxes)) = indices boxes bx_fullSize"
proof -
  have "image_mset lb_index (mset (filter (full_size boxes) (wrapBoxes boxes))) = indices boxes bx_fullSize"
    by (rule mset_filtered) (simp add: wrap_box_def full_size_def)
  then show ?thesis by (simp add: buildLayoutBoxes_def Let_def sortByWeight_mset)
qed

abbreviation at_pos :: "'s box list \<Rightarrow> side \<Rightarrow> nat multiset" where
  "at_pos boxes s \<equiv> indices boxes (\<lambda>b. bx_pos b = Static s)"

abbreviation dynamic :: "'s box list \<Rightarrow> axis \<Rightarrow> nat multiset" where
  "dynamic boxes ax \<equiv> indices boxes (\<lambda>b. bx_pos b \<notin> set STATIC_POSITIONS \<and> bx_axis b = ax)"

lemma mset_lists:
  "mset (lx_vertical (buildLayoutBoxes boxes)) = at_pos boxes SLeft + at_pos boxes SRight + dynamic boxes AxisY"
  "mset (lx_horizontal (buildLayoutBoxes boxes)) = at_pos boxes STop + at_pos boxes SBottom + dynamic boxes AxisX"
  "mset (lx_leftAndTop (buildLayoutBoxes boxes)) = at_pos boxes SLeft + at_pos boxes STop"
  "mset (lx_rightAndBottom (buildLayoutBoxes boxes))
     = at_pos boxes SRight + dynamic boxes AxisY + at_pos boxes SBottom + dynamic boxes AxisX"
  by (simp_all add: buildLayoutBoxes_def Let_def mset_position mset_dynamic)

lemma mset_groups:
  fixes boxes :: "'s box list"
  shows "mset (filter (\<lambda>i. bx_pos (boxes ! i) = Static SLeft) is) + mset (filter (\<lambda>i. bx_pos (boxes ! i) = Static SRight) is)
    + mset (filter (\<lambda>i. bx_pos (boxes ! i) \<notin> set STATIC_POSITIONS \<and> bx_axis (boxes ! i) = AxisY) is)
    + (mset (filter (\<lambda>i. bx_pos (boxes ! i) = Static STop) is) + mset (filter (\<lambda>i. bx_pos (boxes ! i) = Static SBottom) is)
    + mset (filter (\<lambda>i. bx_pos (boxes ! i) \<notin> set STATIC_POSITIONS \<and> bx_axis (boxes ! i) = AxisX) is))
    = mset (filter (\<lambda>i. bx_pos (boxes ! i) \<in> set STATIC_POSITIONS \<or> bx_axis (boxes ! i) = AxisX \<or> bx_axis (boxes ! i) = AxisY) is)"
proof (induction "is")
  case (Cons i ks)
  then show ?case by (cases "bx_axis (boxes ! i)") (auto simp: STATIC_POSITIONS_def)
qed simp

text \<open>
  Every box is laid out once. The boxes that are fitted are the boxes that are placed; each box at one of
  the four positions, or elsewhere with an axis, is among them once, and no other box is.
\<close>

theorem layout_partition:
  "mset (lx_leftAndTop (buildLayoutBoxes boxes) @ lx_rightAndBottom (buildLayoutBoxes boxes))
     = mset (lx_vertical (buildLayoutBoxes boxes) @ lx_horizontal (buildLayoutBoxes boxes)) \<and>
   mset (lx_vertical (buildLayoutBoxes boxes) @ lx_horizontal (buildLayoutBoxes boxes))
     = indices boxes (\<lambda>b. bx_pos b \<in> set STATIC_POSITIONS \<or> bx_axis b = AxisX \<or> bx_axis b = AxisY)"
proof
  show "mset (lx_leftAndTop (buildLayoutBoxes boxes) @ lx_rightAndBottom (buildLayoutBoxes boxes))
     = mset (lx_vertical (buildLayoutBoxes boxes) @ lx_horizontal (buildLayoutBoxes boxes))"
    by (simp add: mset_lists)
  have "at_pos boxes SLeft + at_pos boxes SRight + dynamic boxes AxisY +
      (at_pos boxes STop + at_pos boxes SBottom + dynamic boxes AxisX)
     = indices boxes (\<lambda>b. bx_pos b \<in> set STATIC_POSITIONS \<or> bx_axis b = AxisX \<or> bx_axis b = AxisY)"
    unfolding indices_def by (rule mset_groups)
  then show "mset (lx_vertical (buildLayoutBoxes boxes) @ lx_horizontal (buildLayoutBoxes boxes))
     = indices boxes (\<lambda>b. bx_pos b \<in> set STATIC_POSITIONS \<or> bx_axis b = AxisX \<or> bx_axis b = AxisY)"
    by (simp add: mset_lists)
qed

lemma indices_bound: "i \<in># indices boxes P \<Longrightarrow> i < length boxes \<and> P (boxes ! i)"
  by (simp add: indices_def)

lemma fitted_bound:
  "set (lx_fullSize (buildLayoutBoxes boxes) @ lx_vertical (buildLayoutBoxes boxes)
      @ lx_horizontal (buildLayoutBoxes boxes)) \<subseteq> {..<length boxes}"
proof
  fix i
  assume "i \<in> set (lx_fullSize (buildLayoutBoxes boxes) @ lx_vertical (buildLayoutBoxes boxes)
      @ lx_horizontal (buildLayoutBoxes boxes))"
  then have "i \<in># mset (lx_fullSize (buildLayoutBoxes boxes)) \<or> i \<in># mset (lx_vertical (buildLayoutBoxes boxes))
      \<or> i \<in># mset (lx_horizontal (buildLayoutBoxes boxes))" by simp
  then show "i \<in> {..<length boxes}"
    unfolding mset_fullSize mset_lists by (auto dest: indices_bound)
qed

section \<open>Placing: lemmas\<close>

definition unstacked :: "'s lay \<Rightarrow> bool" where
  "unstacked st \<longleftrightarrow> (\<forall>w \<in> set (ly_wraps st). lb_stack w = None)"

lemma unstacked_nth: "unstacked st \<Longrightarrow> i < length (ly_wraps st) \<Longrightarrow> lb_stack (ly_wraps st ! i) = None"
  by (simp add: unstacked_def)

definition thick :: "'s lay \<Rightarrow> nat \<Rightarrow> real" where
  "thick st i = thickness (ly_wraps st ! i) (ly_boxes st ! i)"

abbreviation horiz :: "'s lay \<Rightarrow> nat \<Rightarrow> bool" where
  "horiz st i \<equiv> lb_horizontal (ly_wraps st ! i)"

text \<open>Where an unstacked box goes and how far the running edge moves.\<close>

lemma place_box_unstacked:
  assumes "unstacked st" and "i < length (ly_wraps st)" and "length (ly_boxes st) = length (ly_wraps st)"
    and "place_box prm i (st, x, y) = (st', x', y')"
  shows "x' = x + (if horiz st i then 0 else thick st i)"
    and "y' = y + (if horiz st i then thick st i else 0)"
    and "ly_wraps st' = ly_wraps st" and "ly_area st' = ly_area st"
    and "length (ly_boxes st') = length (ly_boxes st)"
    and "\<And>j. j \<noteq> i \<Longrightarrow> ly_boxes st' ! j = ly_boxes st ! j"
    and "\<not> horiz st i \<Longrightarrow> bx_left (ly_boxes st' ! i) = x \<and> bx_right (ly_boxes st' ! i) = x'"
    and "horiz st i \<Longrightarrow> bx_top (ly_boxes st' ! i) = y \<and> bx_bottom (ly_boxes st' ! i) = y'"
  using assms unstacked_nth [OF assms(1,2)]
  by (auto simp: place_box_def Let_def stack_of_def or_size_def new_stack_def setBoxDims_def thick_def
      thickness_def split: if_splits)

text \<open>
  The boxes of a list follow each other without overlap, between the edge at which the loop
  starts and the edge at which it ends.
\<close>

definition in_row :: "'s lay \<Rightarrow> 's box list \<Rightarrow> nat \<Rightarrow> nat \<Rightarrow> bool" where
  "in_row st bs i j \<longleftrightarrow>
     (\<not> horiz st i \<and> \<not> horiz st j \<longrightarrow> bx_right (bs ! i) \<le> bx_left (bs ! j)) \<and>
     (horiz st i \<and> horiz st j \<longrightarrow> bx_bottom (bs ! i) \<le> bx_top (bs ! j))"

definition between_edges :: "'s lay \<Rightarrow> 's box list \<Rightarrow> real \<Rightarrow> real \<Rightarrow> real \<Rightarrow> real \<Rightarrow> nat \<Rightarrow> bool" where
  "between_edges st bs x x' y y' i \<longleftrightarrow>
     (\<not> horiz st i \<longrightarrow> x \<le> bx_left (bs ! i) \<and> bx_right (bs ! i) \<le> x') \<and>
     (horiz st i \<longrightarrow> y \<le> bx_top (bs ! i) \<and> bx_bottom (bs ! i) \<le> y')"

lemma place_fold:
  assumes "unstacked st" and "length (ly_boxes st) = length (ly_wraps st)"
    and "\<forall>i \<in> set is. i < length (ly_wraps st) \<and> 0 \<le> thick st i" and "distinct is"
    and "fold (place_box prm) is (st, x, y) = (st', x', y')"
  shows "x' = x + (\<Sum>i\<leftarrow>is. if horiz st i then 0 else thick st i)
    \<and> y' = y + (\<Sum>i\<leftarrow>is. if horiz st i then thick st i else 0)
    \<and> ly_wraps st' = ly_wraps st \<and> ly_area st' = ly_area st
    \<and> length (ly_boxes st') = length (ly_boxes st)
    \<and> (\<forall>j. j \<notin> set is \<longrightarrow> ly_boxes st' ! j = ly_boxes st ! j)
    \<and> (\<forall>i \<in> set is. between_edges st (ly_boxes st') x x' y y' i)
    \<and> sorted_wrt (in_row st (ly_boxes st')) is"
  using assms
proof (induction "is" arbitrary: st x y)
  case (Cons i ks)
  obtain st1 x1 y1 where one: "place_box prm i (st, x, y) = (st1, x1, y1)" by (metis prod_cases3)
  from Cons.prems have i: "i < length (ly_wraps st)" "0 \<le> thick st i" by simp_all
  note p = place_box_unstacked [OF Cons.prems(1) i(1) Cons.prems(2) one]
  have u1: "unstacked st1" using Cons.prems(1) by (simp add: unstacked_def p)
  have t1: "thick st1 j = thick st j" if "j \<in> set ks" for j
  proof -
    have "j \<noteq> i" using that Cons.prems(4) by auto
    then show ?thesis by (simp add: thick_def p)
  qed
  have IH: "x' = x1 + (\<Sum>i\<leftarrow>ks. if horiz st1 i then 0 else thick st1 i)
    \<and> y' = y1 + (\<Sum>i\<leftarrow>ks. if horiz st1 i then thick st1 i else 0)
    \<and> ly_wraps st' = ly_wraps st1 \<and> ly_area st' = ly_area st1
    \<and> length (ly_boxes st') = length (ly_boxes st1)
    \<and> (\<forall>j. j \<notin> set ks \<longrightarrow> ly_boxes st' ! j = ly_boxes st1 ! j)
    \<and> (\<forall>i \<in> set ks. between_edges st1 (ly_boxes st') x1 x' y1 y' i)
    \<and> sorted_wrt (in_row st1 (ly_boxes st')) ks"
  proof (rule Cons.IH [OF u1])
    show "length (ly_boxes st1) = length (ly_wraps st1)" by (simp add: p Cons.prems(2))
    show "\<forall>i \<in> set ks. i < length (ly_wraps st1) \<and> 0 \<le> thick st1 i"
      using Cons.prems(3) t1 by (auto simp: p)
    show "distinct ks" using Cons.prems(4) by simp
    show "fold (place_box prm) ks (st1, x1, y1) = (st', x', y')"
      using Cons.prems(5) one by simp
  qed
  have same: "between_edges st1 = between_edges st" "in_row st1 = in_row st"
    by (simp_all add: between_edges_def in_row_def p fun_eq_iff)
  have sums: "(\<Sum>i\<leftarrow>ks. if horiz st1 i then 0 else thick st1 i) = (\<Sum>i\<leftarrow>ks. if horiz st i then 0 else thick st i)"
    "(\<Sum>i\<leftarrow>ks. if horiz st1 i then thick st1 i else 0) = (\<Sum>i\<leftarrow>ks. if horiz st i then thick st i else 0)"
    using t1 by (auto simp: p intro!: arg_cong [where f = sum_list])
  note IH = IH [unfolded sums]
  have nonneg: "0 \<le> (\<Sum>i\<leftarrow>ks. if horiz st i then 0 else thick st i)"
    "0 \<le> (\<Sum>i\<leftarrow>ks. if horiz st i then thick st i else 0)"
    using Cons.prems(3) by (auto intro!: sum_list_nonneg)
  have bi: "ly_boxes st' ! i = ly_boxes st1 ! i" using IH Cons.prems(4) by simp
  have le: "x \<le> x1" "y \<le> y1" "x1 \<le> x'" "y1 \<le> y'"
    using IH i(2) nonneg by (simp_all add: p)
  have wi: "between_edges st (ly_boxes st') x x' y y' i"
    using p(7,8) le by (auto simp: between_edges_def bi)
  have wk: "between_edges st (ly_boxes st') x x' y y' j" if "j \<in> set ks" for j
    using IH that le unfolding same by (force simp: between_edges_def)
  have ri: "in_row st (ly_boxes st') i j" if "j \<in> set ks" for j
    using IH that p(7,8) unfolding same by (auto simp: in_row_def between_edges_def bi)
  show ?case
    using IH wi wk ri by (auto simp: same p)
qed simp

section \<open>Sizes after fitting: lemmas\<close>

text \<open>The size that a wrapper accounts for is the thickness of its box.\<close>

definition sized :: "'s lay \<Rightarrow> nat \<Rightarrow> bool" where
  "sized st i \<longleftrightarrow> lb_size (ly_wraps st ! i) = Some (thick st i) \<and> 0 \<le> thick st i"

text \<open>
  The dimension of a box across its side: the height of a horizontal box, the width of another one. Only this one counts
  for the layout; a box may take any length along its side. Offered a space that is not negative, a box asks for no negative
  one across.
\<close>

definition across :: "'s box \<Rightarrow> real \<times> real \<Rightarrow> real" where
  "across b d = (if bx_horizontal b then snd d else fst d)"

lemma across_update [simp]:
  "across (b\<lparr>bx_state := s\<rparr>) = across b" "across (b\<lparr>bx_width := w\<rparr>) = across b" "across (b\<lparr>bx_height := h\<rparr>) = across b"
  "across (box_update w h m b) = across b"
  by (simp_all add: fun_eq_iff across_def box_update_def split: prod.split)

definition nonneg_box :: "'s box \<Rightarrow> bool" where
  "nonneg_box b \<longleftrightarrow> (\<forall>s w h m. 0 \<le> w \<longrightarrow> 0 \<le> h \<longrightarrow> 0 \<le> across b (snd (bx_update b s w h m)))"

definition fair_params :: "params \<Rightarrow> bool" where
  "fair_params prm \<longleftrightarrow> 0 \<le> pa_availableWidth prm \<and> 0 \<le> pa_availableHeight prm \<and> 0 \<le> pa_vBoxMaxWidth prm \<and> 0 \<le> pa_hBoxMaxHeight prm"

lemma layout_params_fair: "fair_params (layout_params boxes vs padding wd ht)"
  by (simp add: layout_params_def fair_params_def Let_def)

definition nonneg_dims :: "wrap \<Rightarrow> bool" where
  "nonneg_dims w \<longleftrightarrow> (\<forall>x. lb_width w = Some x \<longrightarrow> 0 \<le> x) \<and> (\<forall>x. lb_height w = Some x \<longrightarrow> 0 \<le> x)"

lemma or_size_nonneg: "0 \<le> d \<Longrightarrow> (\<forall>x. v = Some x \<longrightarrow> 0 \<le> x) \<Longrightarrow> 0 \<le> or_size v d"
  by (auto simp: or_size_def split: option.split)

text \<open>What fitting keeps, for boxes without stacks or object positions.\<close>

definition fit_inv :: "nat \<Rightarrow> sides \<Rightarrow> wrap list \<Rightarrow> 's lay \<Rightarrow> bool" where
  "fit_inv n padding ws st \<longleftrightarrow>
     wf_lay n st \<and> balanced padding st \<and> same_wraps ws (ly_wraps st) \<and>
     (\<forall>b \<in> set (ly_boxes st). nonneg_box b) \<and> 0 \<le> ar_w (ly_area st) \<and> 0 \<le> ar_h (ly_area st) \<and>
     (\<forall>i < n. lb_horizontal (ws ! i) = bx_horizontal (ly_boxes st ! i))"

definition plain_wraps :: "wrap list \<Rightarrow> bool" where
  "plain_wraps ws \<longleftrightarrow> (\<forall>w \<in> set ws. lb_stack w = None \<and> lb_pos w \<noteq> ObjPos \<and> nonneg_dims w)"

lemma fit_inv_wrap:
  assumes "fit_inv n padding ws st" and "i < n"
  shows "same_wrap (ws ! i) (ly_wraps st ! i)" and "i < length ws" and "i < length (ly_wraps st)"
    and "i < length (ly_boxes st)"
proof -
  from assms have l: "length ws = n" "length (ly_wraps st) = n"
    using same_wraps_length by (force simp: fit_inv_def wf_lay_def)+
  with assms show "same_wrap (ws ! i) (ly_wraps st ! i)"
    by (auto simp: fit_inv_def intro: same_wraps_nth)
  from l assms show "i < length ws" "i < length (ly_wraps st)" "i < length (ly_boxes st)"
    by (simp_all add: fit_inv_def wf_lay_def)
qed

lemma box_update_kept [simp]:
  "bx_horizontal (box_update w h m b) = bx_horizontal b" "bx_update (box_update w h m b) = bx_update b"
  "bx_getPadding (box_update w h m b) = bx_getPadding b"
  by (simp_all add: box_update_def split: prod.split)

lemma nonneg_box_update: "nonneg_box b \<Longrightarrow> nonneg_box (box_update w h m b)"
  by (simp add: nonneg_box_def)

lemma box_update_across:
  "nonneg_box b \<Longrightarrow> 0 \<le> w \<Longrightarrow> 0 \<le> h \<Longrightarrow> 0 \<le> (if bx_horizontal b then bx_height (box_update w h m b) else bx_width (box_update w h m b))"
proof -
  obtain st wd ht where u: "bx_update b (bx_state b) w h m = (st, wd, ht)" by (metis prod_cases3)
  assume "nonneg_box b" "0 \<le> w" "0 \<le> h"
  then have "0 \<le> across b (snd (bx_update b (bx_state b) w h m))" by (simp add: nonneg_box_def)
  then show ?thesis by (simp add: u box_update_def across_def split: if_splits)
qed

lemma update_box_horizontal: "bx_horizontal (ly_boxes (update_box i st) ! j) = bx_horizontal (ly_boxes st ! j)"
  by (cases "i < length (ly_boxes st)"; cases "i = j") (simp_all add: update_box_def Let_def list_update_beyond)

lemma fit_step_dims:
  "0 \<le> ar_w (ly_area (fit_step prm i st))" "0 \<le> ar_h (ly_area (fit_step prm i st))"
  by (simp_all add: fit_step_def updateDims_def Let_def)

lemma fit_step_inv:
  assumes "fit_inv n padding ws st" and "i < n"
  shows "fit_inv n padding ws (fit_step prm i st)"
proof -
  have "wf_lay n (fit_step prm i st)" using assms by (simp add: fit_inv_def fit_step_wf)
  moreover have "balanced padding (fit_step prm i st)"
    using assms by (intro fit_step_balanced) (auto simp: fit_inv_def wf_lay_def)
  moreover have "same_wraps ws (ly_wraps (fit_step prm i st))"
    using assms resize_frame(2) [of "update_box i st" i]
    by (auto simp: fit_inv_def fit_step_frame update_box_frame intro: same_wraps_trans)
  moreover have "\<forall>b \<in> set (ly_boxes (fit_step prm i st)). nonneg_box b"
    using assms fit_inv_wrap(4) [OF assms]
    by (auto simp: fit_inv_def fit_step_frame update_box_def Let_def nonneg_box_update
        dest!: subsetD [OF set_update_subset_insert])
  moreover have "\<forall>i < n. lb_horizontal (ws ! i) = bx_horizontal (ly_boxes (fit_step prm j st) ! i)" for j
    using assms(1) by (simp add: fit_inv_def fit_step_frame update_box_horizontal)
  ultimately show ?thesis by (simp add: fit_inv_def fit_step_dims)
qed

lemma resize_plain:
  assumes "lb_stack (ly_wraps st ! i) = None" and "lb_pos (ly_wraps st ! i) \<noteq> ObjPos"
    and "0 \<le> thick st i"
  shows "ly_wraps (resize i st) = (ly_wraps st)[i := (ly_wraps st ! i)\<lparr>lb_size := Some (thick st i)\<rparr>]"
  using assms by (simp add: resize_def Let_def stack_of_def new_stack_def thick_def)

lemma fit_step_sized:
  assumes inv: "fit_inv n padding ws st" and "plain_wraps ws" and "i < n"
  shows "sized (fit_step prm i st) i"
    and "j \<noteq> i \<Longrightarrow> sized (fit_step prm i st) j = sized st j"
proof -
  let ?s = "update_box i st"
  note w = fit_inv_wrap [OF inv assms(3)]
  from assms(2) w(2) have "lb_stack (ws ! i) = None" "lb_pos (ws ! i) \<noteq> ObjPos"
    by (simp_all add: plain_wraps_def)
  then have plain: "lb_stack (ly_wraps ?s ! i) = None" "lb_pos (ly_wraps ?s ! i) \<noteq> ObjPos"
    using w(1) by (simp_all add: update_box_frame same_wrapD)
  have bx: "nonneg_box (ly_boxes st ! i)" using inv w(4) by (simp add: fit_inv_def)
  have dims: "nonneg_dims (ly_wraps st ! i)" "lb_horizontal (ly_wraps st ! i) = bx_horizontal (ly_boxes st ! i)"
    "0 \<le> ar_w (ly_area st)" "0 \<le> ar_h (ly_area st)"
    using assms w(1,2) by (auto simp: plain_wraps_def nonneg_dims_def same_wrapD fit_inv_def)
  have nn: "0 \<le> thick ?s i"
    using box_update_across [OF bx, of "or_size (lb_width (ly_wraps st ! i)) (ar_w (ly_area st))"
        "or_size (lb_height (ly_wraps st ! i)) (ar_h (ly_area st))"] w(4) dims
    by (simp add: thick_def thickness_def update_box_def Let_def or_size_nonneg nonneg_dims_def)
  note r = resize_plain [OF plain nn]
  show "sized (fit_step prm i st) i"
    using w(3) nn by (simp add: sized_def fit_step_frame r thick_def update_box_frame thickness_def)
  show "j \<noteq> i \<Longrightarrow> sized (fit_step prm i st) j = sized st j"
    by (simp add: sized_def thick_def fit_step_frame r update_box_frame update_box_other)
qed

lemma fit_fold_sized:
  assumes "fit_inv n padding ws st" and "plain_wraps ws" and "set is \<subseteq> {..<n}"
  shows "fit_inv n padding ws (fold (fit_step prm) is st)"
    and "j \<in> set is \<or> sized st j \<Longrightarrow> sized (fold (fit_step prm) is st) j"
  using assms
proof (induction "is" arbitrary: st)
  case (Cons i ks)
  {
    case 1
    with Cons.IH(1) show ?case by (simp add: fit_step_inv)
  next
    case 2
    then have "i < n" by simp
    note s = fit_step_sized [OF 2(2,3) this, where prm = prm]
    have "j \<in> set ks \<or> sized (fit_step prm i st) j" using 2(1) s by (cases "j = i") auto
    with Cons.IH(2) [OF this] 2 show ?case by (simp add: fit_step_inv)
  }
qed auto

lemma fitBoxes_unfold:
  assumes "fitBoxes prm is st = Some (st', r)"
  shows "st' = fold (fit_step prm) is st \<or>
    (\<exists>rb r'. set rb \<subseteq> set is \<and> fitBoxes prm rb (fold (fit_step prm) is st) = Some (st', r'))"
proof -
  obtain s1 rb rf ch where fp: "fit_pass prm is st [] False False = (s1, rb, rf, ch)"
    by (metis prod_cases4)
  have s1: "s1 = fold (fit_step prm) is st"
    using fit_pass_state [of prm "is" st "[]" False False] fp by simp
  have rb: "set rb \<subseteq> set is" using fit_pass_refit [of prm "is" st "[]" False False] fp by simp
  from assms fp show ?thesis
    by (subst (asm) fitBoxes.simps)
      (use rb in \<open>auto simp: s1 [symmetric] split: if_splits Option.bind_splits\<close>)
qed

lemma fitBoxes_sized:
  assumes "fitBoxes prm is st = Some (st', r)" and "fit_inv n padding ws st" and "plain_wraps ws"
    and "set is \<subseteq> {..<n}" and "J \<subseteq> {..<n}" and "\<forall>j \<in> J. sized st j"
  shows "fit_inv n padding ws st' \<and> (\<forall>j \<in> J \<union> set is. sized st' j)"
proof -
  define P where "P s \<longleftrightarrow> fit_inv n padding ws s \<and> (\<forall>j \<in> J \<union> set is. sized s j)" for s :: "'a lay"
  have step: "P (fit_step prm i s)" if "i \<in> {..<n}" "P s" for i s
  proof -
    from that have inv: "fit_inv n padding ws s" and i: "i < n" by (simp_all add: P_def)
    have "sized (fit_step prm i s) j" if "sized s j" for j
      using fit_step_sized [OF inv assms(3) i] that by (cases "j = i") auto
    with \<open>P s\<close> fit_step_inv [OF inv i] show ?thesis by (simp add: P_def)
  qed
  have "P (fold (fit_step prm) is st)"
    using fit_fold_sized [OF assms(2,3,4)] assms(6) by (auto simp: P_def)
  with fitBoxes_unfold [OF assms(1)] have "P st'"
    using fitBoxes_invariant [of "{..<n}" P prm, OF step] assms(4) by blast
  then show ?thesis by (simp add: P_def)
qed

lemma fit_all_sized:
  assumes "fit_all prm lx st = Some st'" and "fit_inv n padding ws st" and "plain_wraps ws"
    and "set (lx_fullSize lx @ lx_vertical lx @ lx_horizontal lx) \<subseteq> {..<n}"
  shows "fit_inv n padding ws st' \<and> (\<forall>j \<in> set (lx_vertical lx @ lx_horizontal lx). sized st' j)"
proof -
  from assms(1) obtain st1 st2 st3 r1 r2 ch where
    1: "fitBoxes prm (lx_fullSize lx) st = Some (st1, r1)" and
    2: "fitBoxes prm (lx_vertical lx) st1 = Some (st2, r2)" and
    3: "fitBoxes prm (lx_horizontal lx) st2 = Some (st3, ch)" and
    4: "(if ch then Option.bind (fitBoxes prm (lx_vertical lx) st3) (\<lambda>(s, r). Some s) else Some st3)
          = Some st'"
    by (auto simp: fit_all_def split: Option.bind_splits)
  have "fit_inv n padding ws st1"
    using fitBoxes_sized [OF 1 assms(2,3), where J = "{}"] assms(4) by auto
  then have "fit_inv n padding ws st2 \<and> (\<forall>j \<in> set (lx_vertical lx). sized st2 j)"
    using fitBoxes_sized [OF 2 _ assms(3), where padding = padding and J = "{}"] assms(4) by auto
  then have s3: "fit_inv n padding ws st3 \<and>
      (\<forall>j \<in> set (lx_vertical lx) \<union> set (lx_horizontal lx). sized st3 j)"
    using fitBoxes_sized [OF 3 _ assms(3), where padding = padding and J = "set (lx_vertical lx)"] assms(4) by auto
  show ?thesis
  proof (cases ch)
    case True
    with 4 obtain r where 5: "fitBoxes prm (lx_vertical lx) st3 = Some (st', r)"
      by (auto split: Option.bind_splits)
    show ?thesis
      using fitBoxes_sized [OF 5 _ assms(3), where padding = padding and J = "set (lx_vertical lx) \<union> set (lx_horizontal lx)"]
        s3 assms(4) by auto
  next
    case False
    with 4 s3 show ?thesis by auto
  qed
qed

section \<open>Termination of fitting: lemmas\<close>

text \<open>
  A box is rigid when its dimension across its side and its padding do not depend on what it is offered, as for titles and for axes
  without labels; its length may follow the offer. It is fixed when it already has that dimension.
\<close>

definition rigid :: "'s box \<Rightarrow> bool" where
  "rigid b \<longleftrightarrow> (\<exists>d. \<forall>s w h m. across b (snd (bx_update b s w h m)) = d) \<and>
     (\<forall>g. bx_getPadding b = Some g \<longrightarrow> (\<exists>c. \<forall>s w h m. g (fst (bx_update b s w h m)) = c))"

definition fixed :: "'s box \<Rightarrow> bool" where
  "fixed b \<longleftrightarrow> rigid b \<and> (\<forall>s w h m. across b (snd (bx_update b s w h m)) = across b (bx_width b, bx_height b)) \<and>
     (\<forall>g. bx_getPadding b = Some g \<longrightarrow> (\<forall>s w h m. g (fst (bx_update b s w h m)) = g (bx_state b)))"

lemma box_update_fixed: "rigid b \<Longrightarrow> fixed (box_update w h m b)"
proof -
  assume r: "rigid b"
  then obtain d where d: "across b (snd (bx_update b s w h m)) = d" for s w h m by (auto simp: rigid_def)
  obtain s wd ht where u: "bx_update b (bx_state b) w h m = (s, wd, ht)" by (metis prod_cases3)
  with d [of "bx_state b" w h m] have "across b (wd, ht) = d" by simp
  moreover have "g (fst (bx_update b s' w' h' m')) = g s" if "bx_getPadding b = Some g" for g s' w' h' m'
    using r that u by (auto simp: rigid_def) (metis fst_conv)
  ultimately show ?thesis using d r u by (simp add: fixed_def rigid_def box_update_def across_def)
qed

text \<open>Boxes that differ in what they remember and in their length, and not in the dimension across.\<close>

definition same_dims :: "'s box \<Rightarrow> 's box \<Rightarrow> bool" where
  "same_dims b b' \<longleftrightarrow> (\<exists>s w h. b' = b\<lparr>bx_state := s, bx_width := w, bx_height := h\<rparr>) \<and>
     across b (bx_width b', bx_height b') = across b (bx_width b, bx_height b) \<and>
     (\<forall>g. bx_getPadding b = Some g \<longrightarrow> g (bx_state b') = g (bx_state b))"

lemma box_update_same:
  assumes "fixed b"
  shows "same_dims b (box_update w h m b)"
proof -
  obtain s wd ht where u: "bx_update b (bx_state b) w h m = (s, wd, ht)" by (metis prod_cases3)
  moreover have "across b (snd (bx_update b (bx_state b) w h m)) = across b (bx_width b, bx_height b)"
    using assms by (simp add: fixed_def)
  moreover have "g s = g (bx_state b)" if "bx_getPadding b = Some g" for g
    using assms that u unfolding fixed_def by (metis fst_conv)
  ultimately show ?thesis by (auto simp: box_update_def same_dims_def)
qed

definition padded :: "'s lay \<Rightarrow> nat \<Rightarrow> bool" where
  "padded st i \<longleftrightarrow>
     (\<forall>g. bx_getPadding (ly_boxes st ! i) = Some g \<longrightarrow>
        (\<forall>s. g (bx_state (ly_boxes st ! i)) s \<le> ar_max (ly_area st) s))"

definition dims_ok :: "params \<Rightarrow> 's lay \<Rightarrow> bool" where
  "dims_ok prm st \<longleftrightarrow>
     ar_w (ly_area st) = max 0 (pa_outerWidth prm -
       getCombinedMax (ar_max (ly_area st)) (ar_sides (ly_area st)) SLeft SRight) \<and>
     ar_h (ly_area st) = max 0 (pa_outerHeight prm -
       getCombinedMax (ar_max (ly_area st)) (ar_sides (ly_area st)) STop SBottom)"

definition stable :: "'s lay \<Rightarrow> nat \<Rightarrow> bool" where
  "stable st i \<longleftrightarrow> sized st i \<and> fixed (ly_boxes st ! i) \<and> padded st i \<and> horiz st i = bx_horizontal (ly_boxes st ! i)"

lemma same_dims_refl [simp]: "same_dims b b"
  unfolding same_dims_def by (intro conjI, rule exI [of _ "bx_state b"], rule exI [of _ "bx_width b"], rule exI [of _ "bx_height b"]) simp_all

lemma stable_same_dims:
  assumes "ly_wraps st' = ly_wraps st" and "ly_area st' = ly_area st"
    and "same_dims (ly_boxes st ! i) (ly_boxes st' ! i)" and "stable st i"
  shows "stable st' i"
proof -
  from assms(3) obtain s w h where b: "ly_boxes st' ! i = (ly_boxes st ! i)\<lparr>bx_state := s, bx_width := w, bx_height := h\<rparr>"
    and g: "\<forall>g. bx_getPadding (ly_boxes st ! i) = Some g \<longrightarrow> g s = g (bx_state (ly_boxes st ! i))"
    and ac: "across (ly_boxes st ! i) (w, h) = across (ly_boxes st ! i) (bx_width (ly_boxes st ! i), bx_height (ly_boxes st ! i))"
    by (auto simp: same_dims_def)
  have "thick st' i = thick st i"
    using assms(1,4) ac by (simp add: thick_def thickness_def b stable_def across_def split: if_splits)
  then have "sized st' i" using assms(1,4) by (simp add: stable_def sized_def)
  moreover have "fixed (ly_boxes st' ! i)"
    using assms(4) ac g by (simp add: stable_def b fixed_def rigid_def)
  moreover have "horiz st' i = bx_horizontal (ly_boxes st' ! i)"
    using assms(1,4) by (simp add: stable_def b)
  moreover have "padded st' i"
    unfolding padded_def
  proof (intro allI impI)
    fix f sd
    assume "bx_getPadding (ly_boxes st' ! i) = Some f"
    then have f: "bx_getPadding (ly_boxes st ! i) = Some f" by (simp add: b)
    with assms(4) have "f (bx_state (ly_boxes st ! i)) sd \<le> ar_max (ly_area st) sd"
      by (simp add: stable_def padded_def)
    with g f assms(2) show "f (bx_state (ly_boxes st' ! i)) sd \<le> ar_max (ly_area st') sd"
      by (simp add: b)
  qed
  ultimately show ?thesis by (simp add: stable_def)
qed

lemma resize_sized:
  assumes "sized st i" and "lb_stack (ly_wraps st ! i) = None"
  shows "resize i st = st"
proof -
  have upd: "(ly_wraps st)[i := (ly_wraps st ! i)\<lparr>lb_size := Some (thick st i)\<rparr>] = ly_wraps st"
  proof -
    have "(ly_wraps st ! i)\<lparr>lb_size := Some (thick st i)\<rparr> = ly_wraps st ! i"
      using assms(1) by (cases "ly_wraps st ! i") (simp add: sized_def)
    then show ?thesis by simp
  qed
  have sides: "add_side p d (add_side p (- d) a) = a" for p d a
    by (simp add: fun_eq_iff add_side_apply)
  have "thickness (ly_wraps st ! i) (ly_boxes st ! i) = thick st i" by (simp add: thick_def)
  with assms upd show ?thesis
    by (simp add: resize_def Let_def stack_of_def new_stack_def sized_def size_or0_def sides)
qed

lemma pad_area_padded: "padded st i \<Longrightarrow> pad_area i st = st"
proof -
  assume "padded st i"
  then have "updateMaxPadding (ar_max (ly_area st)) (g (bx_state (ly_boxes st ! i))) = ar_max (ly_area st)"
    if "bx_getPadding (ly_boxes st ! i) = Some g" for g
    using that by (auto simp: padded_def updateMaxPadding_def max_def fun_eq_iff dest: antisym)
  then show ?thesis by (simp add: pad_area_def Let_def split: option.split)
qed

lemma stable_step:
  assumes "stable st i" and "dims_ok prm st" and "lb_stack (ly_wraps st ! i) = None"
    and "i < length (ly_boxes st)"
  shows "updateDims prm i (update_box i st) = (update_box i st, False, False)"
    and "\<And>j. stable st j \<Longrightarrow> stable (update_box i st) j" and "dims_ok prm (update_box i st)"
proof -
  let ?s = "update_box i st"
  have same: "same_dims (ly_boxes st ! j) (ly_boxes ?s ! j)" for j
  proof (cases "j = i")
    case True
    with assms(1,4) show ?thesis
      using box_update_same [of "ly_boxes st ! i"]
      by (simp add: update_box_def Let_def stable_def)
  qed (simp add: update_box_other)
  show st: "stable ?s j" if "stable st j" for j
    using that same by (intro stable_same_dims [of ?s st]) (simp_all add: update_box_frame)
  show "dims_ok prm ?s" using assms(2) by (simp add: dims_ok_def update_box_frame)
  have "resize i ?s = ?s"
    using st [OF assms(1)] assms(3) by (intro resize_sized) (simp_all add: stable_def update_box_frame)
  moreover have "pad_area i ?s = ?s"
    using st [OF assms(1)] by (intro pad_area_padded) (simp add: stable_def)
  moreover have "?s\<lparr>ly_area := (ly_area ?s)\<lparr>ar_w := ar_w (ly_area ?s), ar_h := ar_h (ly_area ?s)\<rparr>\<rparr> = ?s"
    by simp
  ultimately show "updateDims prm i ?s = (?s, False, False)"
    using assms(2) by (simp add: updateDims_def Let_def dims_ok_def update_box_frame)
qed

lemma fit_pass_stable:
  assumes "\<forall>i \<in> set is. stable st i \<and> lb_stack (ly_wraps st ! i) = None \<and> i < length (ly_boxes st)"
    and "dims_ok prm st"
  shows "\<exists>st' rb. fit_pass prm is st rb0 False c = (st', rb, False, c)"
  using assms
proof (induction "is" arbitrary: st rb0)
  case (Cons i ks)
  then have "stable st i" "lb_stack (ly_wraps st ! i) = None" "i < length (ly_boxes st)" by simp_all
  note s = stable_step [OF this(1) Cons.prems(2) this(2,3)]
  have "\<forall>j \<in> set ks. stable (update_box i st) j \<and> lb_stack (ly_wraps (update_box i st) ! j) = None \<and>
      j < length (ly_boxes (update_box i st))"
    using Cons.prems(1) s(2) by (simp add: update_box_frame)
  from Cons.IH [OF this s(3)] show ?case by (simp add: s(1) Let_def)
qed simp

text \<open>A step makes the box it fits stable, keeps the others so, and sets the area's dimensions.\<close>

lemma fit_step_area:
  "ar_sides (ly_area (fit_step prm i st)) = ar_sides (ly_area (resize i (update_box i st)))"
  "ar_max (ly_area (fit_step prm i st)) = ar_max (ly_area (pad_area i (resize i (update_box i st))))"
  "ar_x (ly_area (fit_step prm i st)) = ar_x (ly_area st)"
  "ar_y (ly_area (fit_step prm i st)) = ar_y (ly_area st)"
  "dims_ok prm (fit_step prm i st)"
proof -
  have xy: "ar_x (ly_area (resize i s)) = ar_x (ly_area s)" "ar_y (ly_area (resize i s)) = ar_y (ly_area s)"
    "ar_x (ly_area (pad_area i s)) = ar_x (ly_area s)" "ar_y (ly_area (pad_area i s)) = ar_y (ly_area s)" for s :: "'a lay"
    by (simp_all add: resize_def pad_area_def Let_def split: option.split)
  show "ar_sides (ly_area (fit_step prm i st)) = ar_sides (ly_area (resize i (update_box i st)))"
    by (rule fit_step_frame)
  show "ar_max (ly_area (fit_step prm i st)) = ar_max (ly_area (pad_area i (resize i (update_box i st))))"
    "ar_x (ly_area (fit_step prm i st)) = ar_x (ly_area st)"
    "ar_y (ly_area (fit_step prm i st)) = ar_y (ly_area st)"
    "dims_ok prm (fit_step prm i st)"
    by (simp_all add: fit_step_def updateDims_def Let_def dims_ok_def xy update_box_frame)
qed

lemma fit_step_max:
  "ar_max (ly_area st) s \<le> ar_max (ly_area (fit_step prm i st)) s"
  "padded (fit_step prm i st) i"
proof -
  have m: "ar_max (ly_area (resize i (update_box i st))) = ar_max (ly_area st)"
    by (simp add: resize_frame update_box_frame)
  show "ar_max (ly_area st) s \<le> ar_max (ly_area (fit_step prm i st)) s"
    by (auto simp: fit_step_area pad_area_def Let_def m updateMaxPadding_def split: option.split)
  show "padded (fit_step prm i st) i"
    by (auto simp: padded_def fit_step_frame fit_step_area pad_area_def Let_def resize_frame
        updateMaxPadding_def)
qed

lemma fit_step_stable:
  assumes inv: "fit_inv n padding ws st" and "plain_wraps ws" and "i < n" and "rigid (ly_boxes st ! i)"
  shows "stable (fit_step prm i st) i" and "stable st j \<Longrightarrow> stable (fit_step prm i st) j"
proof -
  note s = fit_step_sized [OF assms(1-3), where prm = prm]
  have "i < length (ly_boxes st)" using fit_inv_wrap [OF inv assms(3)] by simp
  then have "fixed (ly_boxes (fit_step prm i st) ! i)"
    using assms(4) by (simp add: fit_step_frame update_box_def Let_def box_update_fixed)
  moreover have "horiz (fit_step prm i st) i = bx_horizontal (ly_boxes (fit_step prm i st) ! i)"
  proof -
    note inv' = fit_step_inv [OF inv assms(3), of prm]
    from fit_inv_wrap(1) [OF inv' assms(3)] inv' assms(3) show ?thesis by (simp add: fit_inv_def same_wrapD)
  qed
  ultimately show si: "stable (fit_step prm i st) i" using s(1) by (simp add: stable_def fit_step_max)
  show "stable (fit_step prm i st) j" if st: "stable st j"
  proof (cases "j = i")
    case False
    have "padded (fit_step prm i st) j"
      using st False fit_step_max(1) [of st _ prm i]
      by (auto simp: stable_def padded_def fit_step_frame update_box_other intro: order_trans)
    moreover have "horiz (fit_step prm i st) j = horiz st j"
    proof (cases "j < length (ly_wraps st)")
      case True
      from same_wraps_nth [OF resize_frame(2) [of "update_box i st" i], of j] True show ?thesis
        by (simp add: fit_step_frame update_box_frame same_wrapD)
    next
      case f: False
      then show ?thesis using False by (simp add: fit_step_frame resize_def Let_def update_box_frame)
    qed
    ultimately show ?thesis using st False s(2) [OF False]
      by (simp add: stable_def fit_step_frame update_box_other)
  qed (simp add: si)
qed

lemma rigid_update: "rigid b \<Longrightarrow> rigid (box_update w h m b)"
  by (simp add: rigid_def)

definition all_rigid :: "'s lay \<Rightarrow> bool" where
  "all_rigid st \<longleftrightarrow> (\<forall>b \<in> set (ly_boxes st). rigid b)"

lemma fit_step_rigid: "all_rigid st \<Longrightarrow> all_rigid (fit_step prm i st)"
proof (cases "i < length (ly_boxes st)")
  case True
  assume "all_rigid st"
  with True show ?thesis
    by (auto simp: all_rigid_def fit_step_frame update_box_def Let_def rigid_update
        dest!: subsetD [OF set_update_subset_insert])
next
  case False
  assume "all_rigid st"
  with False show ?thesis
    by (simp add: all_rigid_def fit_step_frame update_box_def Let_def list_update_beyond)
qed

lemma fit_fold_stable:
  assumes "fit_inv n padding ws st" and "plain_wraps ws" and "set is \<subseteq> {..<n}" and "all_rigid st"
  shows "(\<forall>j. j \<in> set is \<or> stable st j \<longrightarrow> stable (fold (fit_step prm) is st) j) \<and>
    (is \<noteq> [] \<longrightarrow> dims_ok prm (fold (fit_step prm) is st)) \<and>
    fit_inv n padding ws (fold (fit_step prm) is st) \<and> all_rigid (fold (fit_step prm) is st)"
  using assms
proof (induction "is" arbitrary: st)
  case (Cons i ks)
  let ?s = "fit_step prm i st"
  from Cons.prems have i: "i < n" "rigid (ly_boxes st ! i)"
    using fit_inv_wrap(4) [OF Cons.prems(1), of i] by (auto simp: all_rigid_def)
  note st = fit_step_stable [OF Cons.prems(1,2) i]
  have IH: "(\<forall>j. j \<in> set ks \<or> stable ?s j \<longrightarrow> stable (fold (fit_step prm) ks ?s) j) \<and>
    (ks \<noteq> [] \<longrightarrow> dims_ok prm (fold (fit_step prm) ks ?s)) \<and>
    fit_inv n padding ws (fold (fit_step prm) ks ?s) \<and> all_rigid (fold (fit_step prm) ks ?s)"
    using Cons.prems i by (intro Cons.IH fit_step_inv fit_step_rigid) simp_all
  then show ?case using st fit_step_area(5) [of prm i st] by (cases ks) auto
qed simp

lemma fitBoxes_returns:
  assumes inv: "fit_inv n padding ws st" and "plain_wraps ws" and "set is \<subseteq> {..<n}" and "all_rigid st"
  shows "\<exists>st' r. fitBoxes prm is st = Some (st', r) \<and> fit_inv n padding ws st' \<and> all_rigid st'"
proof -
  obtain s1 rb rf ch where fp: "fit_pass prm is st [] False False = (s1, rb, rf, ch)"
    by (metis prod_cases4)
  have s1: "s1 = fold (fit_step prm) is st"
    using fit_pass_state [of prm "is" st "[]" False False] fp by simp
  have rb: "set rb \<subseteq> set is" using fit_pass_refit [of prm "is" st "[]" False False] fp by simp
  note f = fit_fold_stable [OF assms, of prm]
  from f s1 have inv1: "fit_inv n padding ws s1" "all_rigid s1" by simp_all
  have "\<exists>st' r. fitBoxes prm is st = Some (st', r)"
  proof (cases rf)
    case True
    with fp have "is \<noteq> []" by (cases "is") auto
    with f s1 have dims: "dims_ok prm s1" by simp
    have "stable s1 i \<and> lb_stack (ly_wraps s1 ! i) = None \<and> i < length (ly_boxes s1)"
      if "i \<in> set rb" for i
    proof -
      from that rb assms(3) have "i < n" "i \<in> set is" by auto
      with f s1 fit_inv_wrap [OF inv1(1) \<open>i < n\<close>] assms(2) show ?thesis
        by (simp add: same_wrapD plain_wraps_def)
    qed
    then obtain s2 rb2 where "fit_pass prm rb s1 [] False False = (s2, rb2, False, False)"
      using fit_pass_stable [of rb s1 prm "[]" False] dims by blast
    then have "fitBoxes prm rb s1 = Some (s2, False)" by (subst fitBoxes.simps) simp
    with fp True show ?thesis by (subst fitBoxes.simps) simp
  next
    case False
    with fp show ?thesis by (subst fitBoxes.simps) simp
  qed
  then obtain st' r where run: "fitBoxes prm is st = Some (st', r)" by blast
  have "fit_inv n padding ws st' \<and> all_rigid st'"
    using fitBoxes_invariant [of "{..<n}" "\<lambda>s. fit_inv n padding ws s \<and> all_rigid s", OF _ run assms(3)]
      assms fit_step_inv fit_step_rigid by (metis lessThan_iff)
  with run show ?thesis by blast
qed

lemma fit_all_returns:
  assumes "fit_inv n padding ws st" and "plain_wraps ws" and "all_rigid st"
    and "set (lx_fullSize lx @ lx_vertical lx @ lx_horizontal lx) \<subseteq> {..<n}"
  shows "\<exists>st'. fit_all prm lx st = Some st'"
proof -
  have sub: "set (lx_fullSize lx) \<subseteq> {..<n}" "set (lx_vertical lx) \<subseteq> {..<n}" "set (lx_horizontal lx) \<subseteq> {..<n}"
    using assms(4) by simp_all
  from fitBoxes_returns [OF assms(1,2) sub(1) assms(3), of prm] obtain s1 r1 where
    1: "fitBoxes prm (lx_fullSize lx) st = Some (s1, r1)" "fit_inv n padding ws s1" "all_rigid s1" by blast
  from fitBoxes_returns [OF 1(2) assms(2) sub(2) 1(3), of prm] obtain s2 r2 where
    2: "fitBoxes prm (lx_vertical lx) s1 = Some (s2, r2)" "fit_inv n padding ws s2" "all_rigid s2" by blast
  from fitBoxes_returns [OF 2(2) assms(2) sub(3) 2(3), of prm] obtain s3 r3 where
    3: "fitBoxes prm (lx_horizontal lx) s2 = Some (s3, r3)" "fit_inv n padding ws s3" "all_rigid s3" by blast
  from fitBoxes_returns [OF 3(2) assms(2) sub(2) 3(3), of prm] obtain s4 r4 where
    4: "fitBoxes prm (lx_vertical lx) s3 = Some (s4, r4)" by blast
  show ?thesis by (simp add: fit_all_def 1 2 3 4)
qed

section \<open>The whole layout\<close>

text \<open>What \<open>setLayoutDims\<close> leaves of the wrappers.\<close>

definition agree :: "wrap \<Rightarrow> wrap \<Rightarrow> bool" where
  "agree w w' \<longleftrightarrow> lb_index w' = lb_index w \<and> lb_pos w' = lb_pos w \<and>
     lb_horizontal w' = lb_horizontal w \<and> lb_stack w' = lb_stack w \<and> lb_size w' = lb_size w"

lemma agree_set_dims: "agree w (set_dims boxes stacks prm w)" "agree w w"
  by (simp_all add: agree_def set_dims_def)

lemma agree_trans: "agree a b \<Longrightarrow> agree b c \<Longrightarrow> agree a c"
  by (simp add: agree_def)

lemma fold_set_dims:
  fixes boxes :: "'s box list"
  defines "F \<equiv> \<lambda>stacks prm i ws. ws[i := set_dims boxes stacks prm (ws ! i)]"
  shows "length (fold (F stacks prm) is ws) = length ws"
    and "j < length ws \<Longrightarrow> agree (ws ! j) (fold (F stacks prm) is ws ! j)"
proof (induction "is" arbitrary: ws)
  case (Cons i ks)
  {
    case 1
    show ?case using Cons.IH(1) by (simp add: F_def)
  next
    case 2
    let ?w = "F stacks prm i ws"
    have "agree (ws ! j) (?w ! j)"
      using 2 by (cases "j = i") (simp_all add: F_def agree_set_dims)
    moreover have "agree (?w ! j) (fold (F stacks prm) ks ?w ! j)"
      using 2 by (intro Cons.IH(2)) (simp add: F_def)
    ultimately show ?case by (auto intro: agree_trans)
  }
qed (simp_all add: agree_set_dims)

abbreviation started :: "'s box list \<Rightarrow> params \<Rightarrow> sides \<Rightarrow> 's lay" where
  "started boxes prm minPadding \<equiv> start_layout boxes (buildLayoutBoxes boxes) prm minPadding"

lemma started_wraps:
  "length (ly_wraps (started boxes prm mp)) = length boxes"
  "i < length boxes \<Longrightarrow> agree (wrap_box i (boxes ! i)) (ly_wraps (started boxes prm mp) ! i)"
proof -
  obtain stacks ks where eq: "ly_wraps (started boxes prm mp)
      = fold (\<lambda>i ws. ws[i := set_dims boxes stacks prm (ws ! i)]) ks (wrapBoxes boxes)"
    by (simp add: start_layout_def setLayoutDims_def Let_def del: fold_append)
  have len: "length (wrapBoxes boxes) = length boxes" by (simp add: wrapBoxes_def)
  show "length (ly_wraps (started boxes prm mp)) = length boxes"
    unfolding eq fold_set_dims(1) by (rule len)
  show "i < length boxes \<Longrightarrow> agree (wrap_box i (boxes ! i)) (ly_wraps (started boxes prm mp) ! i)"
    unfolding eq using fold_set_dims(2) [of i "wrapBoxes boxes"] by (simp add: len wrapBoxes_nth)
qed

lemma started_fields:
  "ly_boxes (started boxes prm mp) = map (\<lambda>b. b\<lparr>bx_state := bx_beforeLayout b (bx_state b)\<rparr>) boxes"
  "ar_sides (ly_area (started boxes prm mp)) = pa_padding prm"
  "ar_x (ly_area (started boxes prm mp)) = pa_padding prm SLeft"
  "ar_y (ly_area (started boxes prm mp)) = pa_padding prm STop"
  "ar_w (ly_area (started boxes prm mp)) = pa_availableWidth prm"
  "ar_h (ly_area (started boxes prm mp)) = pa_availableHeight prm"
  by (simp_all add: start_layout_def setLayoutDims_def Let_def)

lemma started_balanced: "balanced (pa_padding prm) (started boxes prm mp)"
proof -
  let ?st = "started boxes prm mp"
  have "size_or0 w = 0" if "w \<in> set (ly_wraps ?st)" for w
  proof -
    from that obtain i where i: "i < length boxes" "w = ly_wraps ?st ! i"
      by (auto simp: in_set_conv_nth started_wraps)
    from started_wraps(2) [OF i(1), of prm mp] i(2) show ?thesis
      by (simp add: agree_def wrap_box_def size_or0_def)
  qed
  then have "map (\<lambda>w. if lb_pos w = Static s then size_or0 w else 0) (ly_wraps ?st) = map (\<lambda>w. 0) (ly_wraps ?st)" for s
    by (intro map_cong) auto
  then have "side_total (ly_wraps ?st) s = 0" for s by (simp only: side_total_def sum_list_0)
  then show ?thesis by (simp add: balanced_def started_fields)
qed

lemma started_inv:
  assumes "\<forall>b \<in> set boxes. nonneg_box b" and "fair_params prm"
  shows "fit_inv (length boxes) (pa_padding prm) (ly_wraps (started boxes prm mp)) (started boxes prm mp)"
proof -
  have "lb_horizontal (ly_wraps (started boxes prm mp) ! i) = bx_horizontal (ly_boxes (started boxes prm mp) ! i)"
    if "i < length boxes" for i
    using started_wraps(2) [OF that, of prm mp] that by (simp add: agree_def wrap_box_def started_fields)
  then show ?thesis
    using assms started_balanced [of prm boxes mp]
    by (auto simp: fit_inv_def wf_lay_def started_wraps started_fields nonneg_box_def across_def fair_params_def)
qed

text \<open>
  Sides are accounted for. Whatever the boxes, when fitting returns, each side of the area is
  the padding plus the sizes of the wrappers at that side: refitting never counts a box
  twice and never forgets one.
\<close>

theorem layout_accounts:
  assumes "fit_all prm (buildLayoutBoxes boxes) (start_layout boxes (buildLayoutBoxes boxes) prm mp) = Some st"
  shows "ar_sides (ly_area st) s = pa_padding prm s + side_total (ly_wraps st) s"
proof -
  have "wf_lay (length boxes) st \<and> balanced (pa_padding prm) st"
    by (rule fit_all_invariant [OF _ fitted_bound assms])
      (auto simp: wf_lay_def started_wraps started_fields started_balanced fit_step_wf [unfolded wf_lay_def]
        intro!: fit_step_balanced)
  then show ?thesis by (simp add: balanced_def)
qed

text \<open>A rigid box without a stack, for concrete layouts.\<close>

definition rigid_box :: "side \<Rightarrow> bool \<Rightarrow> real \<Rightarrow> real \<Rightarrow> unit box" where
  "rigid_box s hz wd ht =
     \<lparr>bx_id = 0, bx_pos = Static s, bx_axis = AxisOther, bx_horizontal = hz, bx_weight = 0,
      bx_fullSize = False, bx_stack = None, bx_stackWeight = 1, bx_hidden = False, bx_state = (),
      bx_update = (\<lambda>st w h m. ((), wd, ht)), bx_getPadding = None, bx_beforeLayout = (\<lambda>st. st),
      bx_left = 0, bx_top = 0, bx_right = 0, bx_bottom = 0, bx_width = 0, bx_height = 0\<rparr>"

lemma rigid_box_ok:
  "0 \<le> wd \<Longrightarrow> 0 \<le> ht \<Longrightarrow> rigid (rigid_box s hz wd ht) \<and> nonneg_box (rigid_box s hz wd ht)"
  by (simp add: rigid_box_def rigid_def nonneg_box_def across_def)

lemma set_dims_nonneg:
  "fair_params prm \<Longrightarrow> lb_stack w = None \<Longrightarrow> nonneg_dims (set_dims boxes stacks prm w)"
  by (simp add: nonneg_dims_def set_dims_def share_def stack_of_def fair_params_def)

lemma fold_set_dims_nonneg:
  assumes "fair_params prm"
  shows "\<forall>w \<in> set ws. lb_stack w = None \<and> nonneg_dims w \<Longrightarrow>
    \<forall>w \<in> set (fold (\<lambda>i ws. ws[i := set_dims boxes stacks prm (ws ! i)]) is ws). lb_stack w = None \<and> nonneg_dims w"
proof (induction "is" arbitrary: ws)
  case (Cons i ks)
  have "\<forall>w \<in> set (ws[i := set_dims boxes stacks prm (ws ! i)]). lb_stack w = None \<and> nonneg_dims w"
  proof (cases "i < length ws")
    case True
    then have "lb_stack (ws ! i) = None" using Cons.prems by simp
    then have "lb_stack (set_dims boxes stacks prm (ws ! i)) = None \<and> nonneg_dims (set_dims boxes stacks prm (ws ! i))"
      using set_dims_nonneg [OF assms] agree_set_dims(1) [of "ws ! i" boxes stacks prm] by (simp add: agree_def)
    then show ?thesis using Cons.prems by (auto dest!: subsetD [OF set_update_subset_insert])
  qed (use Cons.prems in \<open>simp add: list_update_beyond\<close>)
  from Cons.IH [OF this] show ?case by simp
qed simp

lemma started_nonneg:
  assumes "\<forall>b \<in> set boxes. bx_stack b = None" and "fair_params prm" and "w \<in> set (ly_wraps (started boxes prm mp))"
  shows "nonneg_dims w"
proof -
  obtain stacks ks where eq: "ly_wraps (started boxes prm mp)
      = fold (\<lambda>i ws. ws[i := set_dims boxes stacks prm (ws ! i)]) ks (wrapBoxes boxes)"
    by (simp add: start_layout_def setLayoutDims_def Let_def del: fold_append)
  have "\<forall>w \<in> set (wrapBoxes boxes). lb_stack w = None \<and> nonneg_dims w"
    using assms(1) by (auto simp: wrapBoxes_conv wrap_box_def nonneg_dims_def)
  from fold_set_dims_nonneg [OF assms(2) this] assms(3) show ?thesis unfolding eq by blast
qed

lemma started_plain:
  assumes "\<forall>b \<in> set boxes. bx_stack b = None \<and> bx_pos b \<noteq> ObjPos" and "fair_params prm"
  shows "plain_wraps (ly_wraps (started boxes prm mp))"
  unfolding plain_wraps_def
proof
  fix w
  assume "w \<in> set (ly_wraps (started boxes prm mp))"
  then obtain i where i: "i < length boxes" "w = ly_wraps (started boxes prm mp) ! i"
    by (auto simp: in_set_conv_nth started_wraps)
  from started_nonneg [OF _ assms(2)] assms(1) \<open>w \<in> _\<close> have "nonneg_dims w" by blast
  with started_wraps(2) [OF i(1), of prm mp] i assms(1) show "lb_stack w = None \<and> lb_pos w \<noteq> ObjPos \<and> nonneg_dims w"
    by (simp add: agree_def wrap_box_def)
qed

lemma layout_params_padding: "pa_padding (layout_params boxes vs padding wd ht) = padding"
  by (simp add: layout_params_def Let_def)

lemma layout_returns_rigid:
  assumes "\<forall>b \<in> set boxes. rigid b \<and> nonneg_box b \<and> bx_stack b = None \<and> bx_pos b \<noteq> ObjPos"
  shows "\<exists>r. layout_update boxes padding wd ht mp = Some r"
proof -
  let ?prm = "layout_params boxes (lx_vertical (buildLayoutBoxes boxes)) padding wd ht"
  have "all_rigid (started boxes ?prm mp)"
    using assms by (auto simp: all_rigid_def started_fields rigid_def)
  then have "\<exists>st'. fit_all ?prm (buildLayoutBoxes boxes) (started boxes ?prm mp) = Some st'"
    using assms by (intro fit_all_returns [OF started_inv started_plain _ fitted_bound]) (simp_all add: layout_params_fair)
  then show ?thesis by (auto simp: layout_update_def Let_def)
qed

theorem layout_accounts_witness:
  "\<exists>prm st. fit_all prm (buildLayoutBoxes [rigid_box SLeft False 40 10])
      (start_layout [rigid_box SLeft False 40 10] (buildLayoutBoxes [rigid_box SLeft False 40 10]) prm (\<lambda>s. 0))
      = Some st \<and> ar_sides (ly_area st) SLeft = pa_padding prm SLeft + side_total (ly_wraps st) SLeft"
proof -
  let ?bs = "[rigid_box SLeft False 40 10]"
  let ?prm = "layout_params ?bs (lx_vertical (buildLayoutBoxes ?bs)) (\<lambda>s. 0) 400 300"
  have "all_rigid (started ?bs ?prm (\<lambda>s. 0))"
    by (simp add: all_rigid_def started_fields rigid_box_def rigid_def across_def)
  then obtain st where "fit_all ?prm (buildLayoutBoxes ?bs) (started ?bs ?prm (\<lambda>s. 0)) = Some st"
    using fit_all_returns [OF started_inv started_plain _ fitted_bound, of ?bs ?prm "\<lambda>s. 0" ?prm]
    by (auto simp: rigid_box_ok layout_params_fair) (auto simp: rigid_box_def)
  with layout_accounts [OF this, of SLeft] show ?thesis by blast
qed

lemma sum_indices:
  fixes f :: "nat \<Rightarrow> real"
  shows "sum_mset (image_mset f (indices boxes P)) = (\<Sum>i\<leftarrow>[0..<length boxes]. if P (boxes ! i) then f i else 0)"
proof -
  have "sum_mset (image_mset f (mset (filter Q ks))) = (\<Sum>i\<leftarrow>ks. if Q i then f i else 0)" for Q and ks :: "nat list"
    by (induction ks) auto
  then show ?thesis by (simp only: indices_def)
qed

lemma sum_list_as_mset: "(\<Sum>i\<leftarrow>is. f i) = sum_mset (image_mset f (mset is))"
  for f :: "nat \<Rightarrow> real"
  by (induction "is") simp_all

lemma side_total_conv:
  assumes "length ws = n" and "\<And>i. i < n \<Longrightarrow> lb_pos (ws ! i) = bx_pos (boxes ! i)" and "length boxes = n"
  shows "side_total ws s = sum_mset (image_mset (\<lambda>i. size_or0 (ws ! i)) (at_pos boxes s))"
proof -
  have "side_total ws s = (\<Sum>i\<leftarrow>[0..<n]. if lb_pos (ws ! i) = Static s then size_or0 (ws ! i) else 0)"
    unfolding side_total_def by (subst map_nth [symmetric]) (simp add: assms(1) comp_def)
  also have "\<dots> = (\<Sum>i\<leftarrow>[0..<n]. if bx_pos (boxes ! i) = Static s then size_or0 (ws ! i) else 0)"
    by (rule arg_cong [where f = sum_list], rule map_cong) (simp_all add: assms(2))
  finally show ?thesis by (simp add: sum_indices assms(3))
qed

lemma handleMaxPadding_area:
  "ar_sides (handleMaxPadding a) s = max (ar_max a s) (ar_sides a s)"
  "ar_x (handleMaxPadding a) = ar_x a + (ar_sides (handleMaxPadding a) SLeft - ar_sides a SLeft)"
  "ar_y (handleMaxPadding a) = ar_y a + (ar_sides (handleMaxPadding a) STop - ar_sides a STop)"
  "ar_w (handleMaxPadding a) = ar_w a" "ar_h (handleMaxPadding a) = ar_h a"
  by (cases s; simp add: handleMaxPadding_def updatePos_def Let_def max_def)+

text \<open>The contract of the layout: boxes stay outside the chart area and apart from each other.\<close>

fun outside :: "side \<Rightarrow> 's box \<Rightarrow> chart_area \<Rightarrow> bool" where
  "outside SLeft b c = (bx_right b \<le> ca_left c)"
| "outside SRight b c = (ca_right c \<le> bx_left b)"
| "outside STop b c = (bx_bottom b \<le> ca_top c)"
| "outside SBottom b c = (ca_bottom c \<le> bx_top b)"

definition apart :: "side \<Rightarrow> 's box \<Rightarrow> 's box \<Rightarrow> bool" where
  "apart s b b' \<longleftrightarrow>
     (if s = SLeft \<or> s = SRight then bx_right b \<le> bx_left b' \<or> bx_right b' \<le> bx_left b
      else bx_bottom b \<le> bx_top b' \<or> bx_bottom b' \<le> bx_top b)"

definition oriented :: "'s box \<Rightarrow> bool" where
  "oriented b \<longleftrightarrow>
     (bx_pos b \<in> {Static SLeft, Static SRight} \<longrightarrow> \<not> bx_horizontal b) \<and>
     (bx_pos b \<in> {Static STop, Static SBottom} \<longrightarrow> bx_horizontal b)"

lemma sorted_wrt_pair:
  assumes "sorted_wrt R is" and "i \<in> set is" and "j \<in> set is" and "i \<noteq> j"
  shows "R i j \<or> R j i"
  using assms by (induction "is") auto

lemma placed_distinct:
  "distinct (lx_leftAndTop (buildLayoutBoxes boxes) @ lx_rightAndBottom (buildLayoutBoxes boxes))"
proof -
  have "mset (lx_leftAndTop (buildLayoutBoxes boxes) @ lx_rightAndBottom (buildLayoutBoxes boxes))
    = indices boxes (\<lambda>b. bx_pos b \<in> set STATIC_POSITIONS \<or> bx_axis b = AxisX \<or> bx_axis b = AxisY)"
    unfolding indices_def mset_groups [symmetric]
    by (simp add: mset_lists) (simp add: indices_def)
  then have "distinct (lx_leftAndTop (buildLayoutBoxes boxes) @ lx_rightAndBottom (buildLayoutBoxes boxes))
    = distinct (filter (\<lambda>i. bx_pos (boxes ! i) \<in> set STATIC_POSITIONS \<or> bx_axis (boxes ! i) = AxisX \<or>
        bx_axis (boxes ! i) = AxisY) [0..<length boxes])"
    unfolding indices_def by (rule mset_eq_imp_distinct_iff)
  then show ?thesis by (simp only: distinct_filter distinct_upt simp_thms)
qed

lemma placed_sized:
  assumes "\<forall>j \<in> set (lx_vertical (buildLayoutBoxes boxes) @ lx_horizontal (buildLayoutBoxes boxes)). Q j"
  shows "\<forall>j \<in> set (lx_leftAndTop (buildLayoutBoxes boxes) @ lx_rightAndBottom (buildLayoutBoxes boxes)). Q j"
proof -
  have "set (lx_leftAndTop (buildLayoutBoxes boxes) @ lx_rightAndBottom (buildLayoutBoxes boxes))
      = set (lx_vertical (buildLayoutBoxes boxes) @ lx_horizontal (buildLayoutBoxes boxes))"
    unfolding set_mset_mset [symmetric] mset_append mset_lists by (simp add: ac_simps)
  with assms show ?thesis by simp
qed

text \<open>The placing of all boxes: edges of the rows and what each row is made of.\<close>

definition row_sum :: "'s lay \<Rightarrow> bool \<Rightarrow> nat list \<Rightarrow> real" where
  "row_sum st hz is = (\<Sum>i\<leftarrow>is. if horiz st i = hz then thick st i else 0)"

lemma placeBoxes_rows:
  assumes "unstacked st" and "length (ly_boxes st) = length (ly_wraps st)"
    and "\<forall>i \<in> set is. i < length (ly_wraps st) \<and> 0 \<le> thick st i" and "distinct is"
  shows "ar_x (ly_area (placeBoxes prm is st)) = ar_x (ly_area st) + row_sum st False is"
    and "ar_y (ly_area (placeBoxes prm is st)) = ar_y (ly_area st) + row_sum st True is"
    and "ar_sides (ly_area (placeBoxes prm is st)) = ar_sides (ly_area st)"
    and "ar_w (ly_area (placeBoxes prm is st)) = ar_w (ly_area st)"
    and "ar_h (ly_area (placeBoxes prm is st)) = ar_h (ly_area st)"
    and "ly_wraps (placeBoxes prm is st) = ly_wraps st"
    and "length (ly_boxes (placeBoxes prm is st)) = length (ly_boxes st)"
    and "j \<notin> set is \<Longrightarrow> ly_boxes (placeBoxes prm is st) ! j = ly_boxes st ! j"
    and "i \<in> set is \<Longrightarrow> between_edges st (ly_boxes (placeBoxes prm is st)) (ar_x (ly_area st))
      (ar_x (ly_area (placeBoxes prm is st))) (ar_y (ly_area st)) (ar_y (ly_area (placeBoxes prm is st))) i"
    and "sorted_wrt (in_row st (ly_boxes (placeBoxes prm is st))) is"
proof -
  obtain st' x' y' where f:
    "fold (place_box prm) is (st, ar_x (ly_area st), ar_y (ly_area st)) = (st', x', y')"
    by (metis prod_cases3)
  have row: "row_sum st False is = (\<Sum>i\<leftarrow>is. if horiz st i then 0 else thick st i)"
    unfolding row_sum_def by (rule arg_cong [where f = sum_list], rule map_cong) simp_all
  from place_fold [OF assms f] row
  show "ar_x (ly_area (placeBoxes prm is st)) = ar_x (ly_area st) + row_sum st False is"
    "ar_y (ly_area (placeBoxes prm is st)) = ar_y (ly_area st) + row_sum st True is"
    "ar_sides (ly_area (placeBoxes prm is st)) = ar_sides (ly_area st)"
    "ar_w (ly_area (placeBoxes prm is st)) = ar_w (ly_area st)"
    "ar_h (ly_area (placeBoxes prm is st)) = ar_h (ly_area st)"
    "ly_wraps (placeBoxes prm is st) = ly_wraps st"
    "length (ly_boxes (placeBoxes prm is st)) = length (ly_boxes st)"
    "j \<notin> set is \<Longrightarrow> ly_boxes (placeBoxes prm is st) ! j = ly_boxes st ! j"
    "i \<in> set is \<Longrightarrow> between_edges st (ly_boxes (placeBoxes prm is st)) (ar_x (ly_area st))
      (ar_x (ly_area (placeBoxes prm is st))) (ar_y (ly_area st)) (ar_y (ly_area (placeBoxes prm is st))) i"
    "sorted_wrt (in_row st (ly_boxes (placeBoxes prm is st))) is"
    by (auto simp: placeBoxes_def f row_sum_def Let_def)
qed

lemma row_sum_cong:
  assumes "ly_wraps st' = ly_wraps st" and "\<And>i. i \<in> set is \<Longrightarrow> ly_boxes st' ! i = ly_boxes st ! i"
  shows "row_sum st' hz is = row_sum st hz is"
  unfolding row_sum_def by (rule arg_cong [where f = sum_list], rule map_cong) (simp_all add: assms thick_def)

lemma fold_area_box:
  assumes "i \<notin> set is"
  shows "fold (\<lambda>i bs. bs[i := f (bs ! i)]) is bs ! i = bs ! i"
  using assms by (induction "is" arbitrary: bs) auto

text \<open>The state when everything is fitted: sides balance, and every box is accounted for.\<close>

lemma fitted:
  assumes "fit_all prm (buildLayoutBoxes boxes) (started boxes prm mp) = Some st"
    and ok: "\<forall>b \<in> set boxes. nonneg_box b \<and> bx_stack b = None \<and> bx_pos b \<noteq> ObjPos" and fair: "fair_params prm"
  shows "length (ly_wraps st) = length boxes" and "length (ly_boxes st) = length boxes"
    and "unstacked st"
    and "i < length boxes \<Longrightarrow> lb_pos (ly_wraps st ! i) = bx_pos (boxes ! i) \<and> horiz st i = bx_horizontal (boxes ! i)"
    and "\<forall>j \<in> set (lx_leftAndTop (buildLayoutBoxes boxes) @ lx_rightAndBottom (buildLayoutBoxes boxes)).
           j < length boxes \<and> sized st j"
    and "ar_sides (ly_area st) s = pa_padding prm s + side_total (ly_wraps st) s"
    and "ar_x (ly_area st) = pa_padding prm SLeft" and "ar_y (ly_area st) = pa_padding prm STop"
proof -
  let ?ws = "ly_wraps (started boxes prm mp)"
  have nn: "\<forall>b \<in> set boxes. nonneg_box b" and sp: "\<forall>b \<in> set boxes. bx_stack b = None \<and> bx_pos b \<noteq> ObjPos"
    using ok by simp_all
  note inv0 = started_inv [OF nn fair, of mp] and pl = started_plain [OF sp fair, of mp]
  from fit_all_sized [OF assms(1) inv0 pl fitted_bound]
  have inv: "fit_inv (length boxes) (pa_padding prm) ?ws st"
    and sz: "\<forall>j \<in> set (lx_vertical (buildLayoutBoxes boxes) @ lx_horizontal (buildLayoutBoxes boxes)). sized st j"
    by blast+
  from inv show len: "length (ly_wraps st) = length boxes" "length (ly_boxes st) = length boxes"
    and "ar_sides (ly_area st) s = pa_padding prm s + side_total (ly_wraps st) s"
    by (simp_all add: fit_inv_def wf_lay_def balanced_def)
  have wrap: "lb_stack (ly_wraps st ! i) = None \<and> lb_pos (ly_wraps st ! i) = bx_pos (boxes ! i) \<and>
      horiz st i = bx_horizontal (boxes ! i)" if "i < length boxes" for i
    using same_wrapD [OF fit_inv_wrap(1) [OF inv that]] started_wraps(2) [OF that, of prm mp] sp that
    by (simp add: agree_def wrap_box_def)
  show "unstacked st"
    unfolding unstacked_def using wrap len(1) by (auto simp: in_set_conv_nth)
  show "i < length boxes \<Longrightarrow> lb_pos (ly_wraps st ! i) = bx_pos (boxes ! i) \<and> horiz st i = bx_horizontal (boxes ! i)"
    using wrap by blast
  have "\<forall>j \<in> set (lx_vertical (buildLayoutBoxes boxes) @ lx_horizontal (buildLayoutBoxes boxes)).
      j < length boxes \<and> sized st j"
    using sz fitted_bound [of boxes] by auto
  then show "\<forall>j \<in> set (lx_leftAndTop (buildLayoutBoxes boxes) @ lx_rightAndBottom (buildLayoutBoxes boxes)).
      j < length boxes \<and> sized st j"
    by (rule placed_sized)
  have "ar_x (ly_area st) = pa_padding prm SLeft \<and> ar_y (ly_area st) = pa_padding prm STop"
    by (rule fit_all_invariant [OF _ fitted_bound assms(1)]) (simp_all add: fit_step_area started_fields)
  then show "ar_x (ly_area st) = pa_padding prm SLeft" "ar_y (ly_area st) = pa_padding prm STop"
    by simp_all
qed

lemma row_of_sides:
  assumes "length (ly_wraps st) = length boxes"
    and "\<And>i. i < length boxes \<Longrightarrow> lb_pos (ly_wraps st ! i) = bx_pos (boxes ! i) \<and> horiz st i = bx_horizontal (boxes ! i)"
    and "\<forall>j \<in> set (lx_leftAndTop (buildLayoutBoxes boxes)). sized st j"
    and "\<forall>b \<in> set boxes. oriented b"
  shows "row_sum st False (lx_leftAndTop (buildLayoutBoxes boxes)) = side_total (ly_wraps st) SLeft"
    and "row_sum st True (lx_leftAndTop (buildLayoutBoxes boxes)) = side_total (ly_wraps st) STop"
proof -
  let ?f = "\<lambda>hz i. if horiz st i = hz then thick st i else 0"
  have row: "row_sum st hz (lx_leftAndTop (buildLayoutBoxes boxes))
      = sum_mset (image_mset (?f hz) (at_pos boxes SLeft)) + sum_mset (image_mset (?f hz) (at_pos boxes STop))" for hz
    by (simp add: row_sum_def sum_list_as_mset mset_lists)
  have mem: "i < length boxes \<and> bx_pos (boxes ! i) = Static s \<and> sized st i"
    if "i \<in># at_pos boxes s" "s = SLeft \<or> s = STop" for i s
  proof -
    have "i \<in># mset (lx_leftAndTop (buildLayoutBoxes boxes))"
      using that unfolding mset_lists by auto
    then show ?thesis using assms(3) that indices_bound [OF that(1)] by simp
  qed
  have hl: "horiz st i = (s = STop)" if "i \<in># at_pos boxes s" "s = SLeft \<or> s = STop" for i s
    using mem [OF that] assms(2) [of i] assms(4) that(2) by (auto simp: oriented_def)
  have part: "image_mset (?f hz) (at_pos boxes s) =
      image_mset (\<lambda>i. if hz = (s = STop) then size_or0 (ly_wraps st ! i) else 0) (at_pos boxes s)"
    if "s = SLeft \<or> s = STop" for hz s
    using hl [OF _ that] mem [OF _ that] by (intro image_mset_cong) (auto simp: sized_def size_or0_def)
  show "row_sum st False (lx_leftAndTop (buildLayoutBoxes boxes)) = side_total (ly_wraps st) SLeft"
    "row_sum st True (lx_leftAndTop (buildLayoutBoxes boxes)) = side_total (ly_wraps st) STop"
    using assms(2) unfolding row part [OF disjI1 [OF refl]] part [OF disjI2 [OF refl]]
    by (simp_all add: side_total_conv [OF assms(1) _ refl])
qed

text \<open>Placing, from the fitted state: both rows, their order and the edges they keep to.\<close>

lemma place_all_rows:
  fixes boxes prm st
  defines "lx \<equiv> buildLayoutBoxes boxes"
  defines "final \<equiv> place_all prm lx st"
  defines "c \<equiv> final_area (ly_area final)"
  assumes st: "fit_all prm lx (started boxes prm mp) = Some st"
    and ok: "\<forall>b \<in> set boxes. nonneg_box b \<and> bx_stack b = None \<and> bx_pos b \<noteq> ObjPos"
    and ori: "\<forall>b \<in> set boxes. oriented b" and fair: "fair_params prm"
  shows "\<exists>x y. \<forall>i \<in> set (lx_leftAndTop lx). between_edges st (ly_boxes final) x (ca_left c) y (ca_top c) i"
    and "\<exists>x y. \<forall>i \<in> set (lx_rightAndBottom lx). between_edges st (ly_boxes final) (ca_right c) x (ca_bottom c) y i"
    and "sorted_wrt (in_row st (ly_boxes final)) (lx_leftAndTop lx)"
    and "sorted_wrt (in_row st (ly_boxes final)) (lx_rightAndBottom lx)"
proof -
  note f = fitted [OF st [unfolded lx_def] ok fair, folded lx_def]
  define s1 where "s1 = st\<lparr>ly_area := handleMaxPadding (ly_area st)\<rparr>"
  define s2 where "s2 = placeBoxes prm (lx_leftAndTop lx) s1"
  define s3 where "s3 = s2\<lparr>ly_area := (ly_area s2)\<lparr>ar_x := ar_x (ly_area s2) + ar_w (ly_area s2),
      ar_y := ar_y (ly_area s2) + ar_h (ly_area s2)\<rparr>\<rparr>"
  have s4: "final = placeBoxes prm (lx_rightAndBottom lx) s3"
    by (simp add: final_def place_all_def Let_def s1_def s2_def s3_def)
  have dist: "distinct (lx_leftAndTop lx)" "distinct (lx_rightAndBottom lx)"
    and disj: "set (lx_leftAndTop lx) \<inter> set (lx_rightAndBottom lx) = {}"
    using placed_distinct [of boxes] by (simp_all add: lx_def)
  have fields1: "ly_wraps s1 = ly_wraps st" "ly_boxes s1 = ly_boxes st" by (simp_all add: s1_def)
  have un: "unstacked s1" using f(3) by (simp add: unstacked_def fields1)
  have A: "\<forall>i \<in> set (lx_leftAndTop lx). i < length (ly_wraps s1) \<and> 0 \<le> thick s1 i"
    using f(1,5) by (simp add: fields1 thick_def sized_def)
  have L: "length (ly_boxes s1) = length (ly_wraps s1)" using f(1,2) by (simp add: fields1)
  note p1 = placeBoxes_rows [OF un L A dist(1), where prm = prm, folded s2_def]
  have fields3: "ly_wraps s3 = ly_wraps st" "ly_boxes s3 = ly_boxes s2"
    by (simp_all add: s3_def p1 fields1)
  have th3: "thick s3 j = thick st j" if "j \<in> set (lx_rightAndBottom lx)" for j
  proof -
    have "j \<notin> set (lx_leftAndTop lx)" using disj that by blast
    then show ?thesis by (simp add: thick_def fields3 fields1 p1(8))
  qed
  have un3: "unstacked s3" using f(3) by (simp add: unstacked_def fields3)
  have A3: "\<forall>i \<in> set (lx_rightAndBottom lx). i < length (ly_wraps s3) \<and> 0 \<le> thick s3 i"
    using f(1,5) by (simp add: fields3 th3 sized_def)
  have L3: "length (ly_boxes s3) = length (ly_wraps s3)" using f(1,2) by (simp add: fields3 p1 fields1)
  note p2 = placeBoxes_rows [OF un3 L3 A3 dist(2), where prm = prm, folded s4]
  have rows: "row_sum s1 hz (lx_leftAndTop lx) = row_sum st hz (lx_leftAndTop lx)" for hz
    by (rule row_sum_cong) (simp_all add: fields1)
  have rs: "row_sum st False (lx_leftAndTop lx) = side_total (ly_wraps st) SLeft"
    "row_sum st True (lx_leftAndTop lx) = side_total (ly_wraps st) STop"
    using row_of_sides [OF f(1) f(4) _ ori] f(5) by (simp_all add: lx_def)
  have edge: "ar_x (ly_area s2) = ar_sides (ly_area s1) SLeft" "ar_y (ly_area s2) = ar_sides (ly_area s1) STop"
    using f(6) [of SLeft] f(6) [of STop] f(7,8)
    by (simp_all add: p1 rows rs) (simp_all add: s1_def handleMaxPadding_area)
  have area: "ca_left c = ar_x (ly_area s2)" "ca_top c = ar_y (ly_area s2)"
    "ca_right c = ar_x (ly_area s3)" "ca_bottom c = ar_y (ly_area s3)"
    unfolding c_def final_area_def by (simp_all add: p2 edge) (simp_all add: s3_def edge p1)
  have same: "between_edges s3 = between_edges st" "in_row s3 = in_row st"
    "between_edges s1 = between_edges st" "in_row s1 = in_row st"
    by (simp_all add: between_edges_def in_row_def fields1 fields3 fun_eq_iff)
  have keep: "ly_boxes final ! j = ly_boxes s2 ! j" if "j \<in> set (lx_leftAndTop lx)" for j
  proof -
    have "j \<notin> set (lx_rightAndBottom lx)" using disj that by blast
    then show ?thesis by (simp add: fields3 p2(8))
  qed
  have "between_edges st (ly_boxes final) (ar_x (ly_area s1)) (ca_left c) (ar_y (ly_area s1)) (ca_top c) i"
    if "i \<in> set (lx_leftAndTop lx)" for i
    using p1(9) [OF that] unfolding same area by (simp add: between_edges_def keep [OF that])
  then show "\<exists>x y. \<forall>i \<in> set (lx_leftAndTop lx). between_edges st (ly_boxes final) x (ca_left c) y (ca_top c) i"
    by blast
  show "\<exists>x y. \<forall>i \<in> set (lx_rightAndBottom lx). between_edges st (ly_boxes final) (ca_right c) x (ca_bottom c) y i"
    using p2(9) unfolding same area by blast
  show "sorted_wrt (in_row st (ly_boxes final)) (lx_rightAndBottom lx)"
    using p2(10) unfolding same .
  have "sorted_wrt (in_row st (ly_boxes s2)) (lx_leftAndTop lx)"
    using p1(10) unfolding same .
  then show "sorted_wrt (in_row st (ly_boxes final)) (lx_leftAndTop lx)"
    by (rule sorted_wrt_mono_rel [rotated]) (simp add: in_row_def keep)
qed

lemma chartArea_other:
  assumes "bx_pos (boxes ! j) = Static s"
  shows "j \<notin> set (lx_chartArea (buildLayoutBoxes boxes))"
proof
  assume "j \<in> set (lx_chartArea (buildLayoutBoxes boxes))"
  moreover have "mset (lx_chartArea (buildLayoutBoxes boxes)) = indices boxes (\<lambda>b. bx_pos b = ChartArea)"
    using mset_position [of boxes ChartArea True]
    by (simp add: buildLayoutBoxes_def Let_def sortByWeight_mset)
  ultimately have "j \<in># indices boxes (\<lambda>b. bx_pos b = ChartArea)" by (metis set_mset_mset)
  with assms show False using indices_bound by fastforce
qed

lemma placed_lists:
  assumes "i < length boxes" and "bx_pos (boxes ! i) = Static s"
  shows "s = SLeft \<or> s = STop \<Longrightarrow> i \<in> set (lx_leftAndTop (buildLayoutBoxes boxes))"
    and "s = SRight \<or> s = SBottom \<Longrightarrow> i \<in> set (lx_rightAndBottom (buildLayoutBoxes boxes))"
  unfolding set_mset_mset [symmetric] mset_lists
  using assms by (auto simp: indices_def)

text \<open>
  Boxes surround the chart area: when the layout returns, every box at a side lies outside the chart area on its side, and two boxes
  at one side do not overlap.
\<close>

lemma layout_apart:
  assumes run: "layout_update boxes padding wd ht mp = Some (boxes', c)"
    and ok: "\<forall>b \<in> set boxes. nonneg_box b \<and> bx_stack b = None \<and> bx_pos b \<noteq> ObjPos \<and> oriented b"
    and i: "i < length boxes" "bx_pos (boxes ! i) = Static s"
  shows "outside s (boxes' ! i) c \<and>
    (\<forall>j < length boxes. j \<noteq> i \<longrightarrow> bx_pos (boxes ! j) = Static s \<longrightarrow> apart s (boxes' ! i) (boxes' ! j))"
proof -
  let ?lx = "buildLayoutBoxes boxes"
  let ?prm = "layout_params boxes (lx_vertical ?lx) padding wd ht"
  from run obtain st where st: "fit_all ?prm ?lx (started boxes ?prm mp) = Some st"
    and c: "c = final_area (ly_area (place_all ?prm ?lx st))"
    and boxes': "boxes' = fold (\<lambda>i bs. bs[i := area_box c (bs ! i)]) (lx_chartArea ?lx)
        (ly_boxes (place_all ?prm ?lx st))"
    by (auto simp: layout_update_def Let_def)
  have ok': "\<forall>b \<in> set boxes. nonneg_box b \<and> bx_stack b = None \<and> bx_pos b \<noteq> ObjPos"
    and ori: "\<forall>b \<in> set boxes. oriented b" using ok by simp_all
  note rows = place_all_rows [OF st ok' ori layout_params_fair, folded c]
  have final: "boxes' ! j = ly_boxes (place_all ?prm ?lx st) ! j" if "bx_pos (boxes ! j) = Static s" for j
    using chartArea_other [OF that] by (simp add: boxes' fold_area_box)
  have hz: "horiz st j = (s = STop \<or> s = SBottom)" if "j < length boxes" "bx_pos (boxes ! j) = Static s" for j
    using fitted(4) [OF st ok' layout_params_fair that(1)] ori that by (cases s) (auto simp: oriented_def)
  have out: "outside s (boxes' ! i) c"
    using rows(1,2) placed_lists [OF i] hz [OF i] final [OF i(2)]
    by (cases s) (auto simp: between_edges_def)
  have "apart s (boxes' ! i) (boxes' ! j)"
    if j: "j < length boxes" "j \<noteq> i" "bx_pos (boxes ! j) = Static s" for j
  proof -
    have "in_row st (ly_boxes (place_all ?prm ?lx st)) i j \<or> in_row st (ly_boxes (place_all ?prm ?lx st)) j i"
      using sorted_wrt_pair [OF rows(3), of i j] sorted_wrt_pair [OF rows(4), of i j]
        placed_lists [OF i] placed_lists [OF j(1,3)] j(2) by (cases s) auto
    then show ?thesis
      using hz [OF i] hz [OF j(1,3)] final [OF i(2)] final [OF j(3)] by (cases s) (auto simp: apart_def in_row_def)
  qed
  with out show ?thesis by blast
qed

end
