(* ===== verification/Canvas.thy ===== *)
theory Canvas
  imports Math_Helpers
begin

text \<open>
  The drawing helpers (\<^verbatim>\<open>chart.js\<close>, \<open>_measureText\<close> to
  \<open>addRoundedRectPath\<close>). The canvas context is code of the browser: an operation returns
  the list of the commands it issues to it, and the measures of a text are parameters.
\<close>

section \<open>Commands\<close>

datatype cmd =
    Save | Restore | BeginPath | ClosePath
  | MoveTo real real | LineTo real real
  | ArcTo real real real real real bool
  | RectTo real real real real
  | BezierTo real real real real real real
  | FillPath | FillEvenOdd | StrokePath | ClipPath
  | Translate real real | Rotate real | ResetTransform
  | DrawImage nat real real real real
  | ClearRect real real real real | FillRect real real real real
  | SetLineDash "real list" | SetLineDashOffset real
  | FillText string real real "real option"
  | StrokeText string real real "real option"
  | SetFont string
  | SetFillStyle string | SetStrokeStyle string | StrokeStyleFromFill
  | SetLineWidth real | SetLineJoin string | SetTextAlign string | SetTextBaseline string

text \<open>The nesting of \<open>save\<close> and \<open>restore\<close>: \<open>None\<close> when a restore has no save.\<close>

fun depth :: "nat \<Rightarrow> cmd list \<Rightarrow> nat option" where
  "depth d [] = Some d"
| "depth d (Save # cs) = depth (Suc d) cs"
| "depth d (Restore # cs) = (case d of 0 \<Rightarrow> None | Suc d' \<Rightarrow> depth d' cs)"
| "depth d (c # cs) = depth d cs"

definition flat :: "cmd \<Rightarrow> bool" where
  "flat c \<longleftrightarrow> c \<noteq> Save \<and> c \<noteq> Restore"

lemma depth_flat: "list_all flat cs \<Longrightarrow> depth d (cs @ ds) = depth d ds"
proof (induction cs)
  case (Cons c cs)
  then show ?case by (cases c) (simp_all add: flat_def)
qed simp

section \<open>Text measures\<close>

datatype label = LNone | LText string | LArr "label list"

record text_cache =
  tc_font :: "string option"
  tc_data :: "string \<Rightarrow> real option"
  tc_gc :: "string list"

text \<open>The local state of \<open>_longestText\<close>: data, the list for collection, the longest width.\<close>

type_synonym measuring = "(string \<Rightarrow> real option) \<times> string list \<times> real"

definition measureText :: "(string \<Rightarrow> real) \<Rightarrow> string \<Rightarrow> measuring \<Rightarrow> measuring" where
  "measureText widths str m =
     (let (data, gc, longest) = m;
          known = (case data str of Some w \<Rightarrow> w \<noteq> 0 | None \<Rightarrow> False);
          textWidth = (if known then the (data str) else widths str);
          data' = (if known then data else data(str \<mapsto> textWidth));
          gc' = (if known then gc else gc @ [str])
      in (data', gc', if textWidth > longest then textWidth else longest))"

fun measure_nested :: "(string \<Rightarrow> real) \<Rightarrow> label \<Rightarrow> measuring \<Rightarrow> measuring" where
  "measure_nested widths (LText s) m = measureText widths s m"
| "measure_nested widths l m = m"

fun measure_thing :: "(string \<Rightarrow> real) \<Rightarrow> label \<Rightarrow> measuring \<Rightarrow> measuring" where
  "measure_thing widths LNone m = m"
| "measure_thing widths (LText s) m = measureText widths s m"
| "measure_thing widths (LArr ls) m = fold (measure_nested widths) ls m"

text \<open>
  The collection: the loop runs while \<open>i < gc.length / 2\<close>, so it forgets one text more than
  \<open>splice\<close> removes when the length is odd.
\<close>

definition longestText ::
  "(string \<Rightarrow> string \<Rightarrow> real) \<Rightarrow> string \<Rightarrow> label list \<Rightarrow> text_cache \<Rightarrow> real \<times> text_cache \<times> cmd list" where
  "longestText widths font things cache =
     (let fresh = (tc_font cache \<noteq> Some font);
          data0 = (if fresh then Map.empty else tc_data cache);
          gc0 = (if fresh then [] else tc_gc cache);
          (data, gc, longest) = fold (measure_thing (widths font)) things (data0, gc0, 0);
          collect = (length gc > 2 * length things);
          n = length gc
      in (longest,
          \<lparr>tc_font = Some font,
           tc_data = (if collect then data |` (- set (take ((n + 1) div 2) gc)) else data),
           tc_gc = (if collect then drop (n div 2) gc else gc)\<rparr>,
          [Save, SetFont font, Restore]))"

section \<open>Pixels and areas\<close>

definition alignPixel :: "real \<Rightarrow> real \<Rightarrow> real \<Rightarrow> real" where
  "alignPixel devicePixelRatio pixel width =
     (let halfWidth = (if width \<noteq> 0 then max (width / 2) (1 / 2) else 0)
      in of_int (round_half_up ((pixel - halfWidth) * devicePixelRatio)) / devicePixelRatio + halfWidth)"

definition clearCanvas :: "real \<Rightarrow> real \<Rightarrow> cmd list" where
  "clearCanvas width height = [Save, ResetTransform, ClearRect 0 0 width height, Restore]"

record rect_area =
  ra_left :: real
  ra_top :: real
  ra_right :: real
  ra_bottom :: real

definition isPointInArea :: "(real \<times> real) option \<Rightarrow> rect_area option \<Rightarrow> real option \<Rightarrow> bool" where
  "isPointInArea point area margin0 =
     (let margin = (case margin0 of Some m \<Rightarrow> if m \<noteq> 0 then m else 1 / 2 | None \<Rightarrow> 1 / 2) in
      case area of
        None \<Rightarrow> True
      | Some a \<Rightarrow>
          (case point of
             None \<Rightarrow> False
           | Some (x, y) \<Rightarrow>
               x > ra_left a - margin \<and> x < ra_right a + margin \<and>
               y > ra_top a - margin \<and> y < ra_bottom a + margin))"

definition clipArea :: "rect_area \<Rightarrow> cmd list" where
  "clipArea a =
     [Save, BeginPath,
      RectTo (ra_left a) (ra_top a) (ra_right a - ra_left a) (ra_bottom a - ra_top a), ClipPath]"

definition unclipArea :: "cmd list" where
  "unclipArea = [Restore]"

section \<open>Points\<close>

datatype point_style = Image nat real real | Style string

record point_options =
  po_style :: point_style
  po_rotation :: "real option"
  po_radius :: "real option"
  po_borderWidth :: real

definition cross_lines :: "real \<Rightarrow> real \<Rightarrow> real \<Rightarrow> real \<Rightarrow> cmd list" where
  "cross_lines x y rad radius =
     (let xOffset = cos rad * radius; yOffset = sin rad * radius in
      [MoveTo (x - xOffset) (y - yOffset), LineTo (x + xOffset) (y + yOffset),
       MoveTo (x + yOffset) (y - xOffset), LineTo (x - yOffset) (y + xOffset)])"

definition rect_rot :: "real \<Rightarrow> real \<Rightarrow> real \<Rightarrow> real \<Rightarrow> cmd list" where
  "rect_rot x y rad radius =
     (let xOffset = cos rad * radius; yOffset = sin rad * radius in
      [MoveTo (x - xOffset) (y - yOffset), LineTo (x + yOffset) (y - xOffset),
       LineTo (x + xOffset) (y + yOffset), LineTo (x - yOffset) (y + xOffset), ClosePath])"

definition rounded_rect :: "real \<Rightarrow> real \<Rightarrow> real \<Rightarrow> real \<Rightarrow> real \<Rightarrow> cmd list" where
  "rounded_rect x y rad cornerRadius sz =
     (let xOffset = cos (rad + pi / 4) * sz; yOffset = sin (rad + pi / 4) * sz in
      [ArcTo (x - xOffset) (y - yOffset) cornerRadius (rad - pi) (rad - pi / 2) False,
       ArcTo (x + yOffset) (y - xOffset) cornerRadius (rad - pi / 2) rad False,
       ArcTo (x + xOffset) (y + yOffset) cornerRadius rad (rad + pi / 2) False,
       ArcTo (x - yOffset) (y + xOffset) cornerRadius (rad + pi / 2) (rad + pi) False,
       ClosePath])"

definition point_path :: "string \<Rightarrow> real \<Rightarrow> bool \<Rightarrow> real \<Rightarrow> real \<Rightarrow> real \<Rightarrow> cmd list" where
  "point_path style rad rotated radius x y =
     (if style = ''triangle'' then
        (let rad1 = rad + pi * 2 / 3; rad2 = rad1 + pi * 2 / 3 in
         [MoveTo (x + sin rad * radius) (y - cos rad * radius),
          LineTo (x + sin rad1 * radius) (y - cos rad1 * radius),
          LineTo (x + sin rad2 * radius) (y - cos rad2 * radius), ClosePath])
      else if style = ''rectRounded'' then
        rounded_rect x y rad (radius * (516 / 1000)) (radius - radius * (516 / 1000))
      else if style = ''rect'' then
        (if \<not> rotated then
           (let size = sqrt (1 / 2) * radius in [RectTo (x - size) (y - size) (2 * size) (2 * size)])
         else rect_rot x y (rad + pi / 4) radius)
      else if style = ''rectRot'' then rect_rot x y rad radius
      else if style = ''crossRot'' then cross_lines x y (rad + pi / 4) radius
      else if style = ''cross'' then cross_lines x y rad radius
      else if style = ''star'' then cross_lines x y rad radius @ cross_lines x y (rad + pi / 4) radius
      else if style = ''line'' then
        [MoveTo (x - cos rad * radius) (y - sin rad * radius),
         LineTo (x + cos rad * radius) (y + sin rad * radius)]
      else if style = ''dash'' then
        [MoveTo x y, LineTo (x + cos rad * radius) (y + sin rad * radius)]
      else [ArcTo x y radius 0 TAU False, ClosePath])"

definition drawPoint :: "point_options \<Rightarrow> real \<Rightarrow> real \<Rightarrow> cmd list" where
  "drawPoint opts x y =
     (let rotation = (case po_rotation opts of Some r \<Rightarrow> r | None \<Rightarrow> 0);
          rad = rotation * (pi / 180)
      in case po_style opts of
           Image img w h \<Rightarrow>
             [Save, Translate x y, Rotate rad, DrawImage img (- w / 2) (- h / 2) w h, Restore]
         | Style style \<Rightarrow>
             (case po_radius opts of
                None \<Rightarrow> []
              | Some radius \<Rightarrow>
                  if radius \<le> 0 then []
                  else [BeginPath] @ point_path style rad (rotation \<noteq> 0) radius x y @ [FillPath] @
                       (if po_borderWidth opts > 0 then [StrokePath] else [])))"

section \<open>Lines\<close>

definition steppedLineTo ::
  "(real \<times> real) option \<Rightarrow> real \<times> real \<Rightarrow> bool \<Rightarrow> string \<Rightarrow> cmd list" where
  "steppedLineTo previous target flip mode =
     (let (tx, ty) = target in
      case previous of
        None \<Rightarrow> [LineTo tx ty]
      | Some (px, py) \<Rightarrow>
          (if mode = ''middle'' then
             (let midpoint = (px + tx) / 2 in [LineTo midpoint py, LineTo midpoint ty])
           else if (mode = ''after'') \<noteq> flip then [LineTo px ty]
           else [LineTo tx py]) @ [LineTo tx ty])"

record bez_point =
  bz_pos :: "real \<times> real"
  bz_cp1 :: "real \<times> real"
  bz_cp2 :: "real \<times> real"

definition bezierCurveTo :: "bez_point option \<Rightarrow> bez_point \<Rightarrow> bool \<Rightarrow> cmd list" where
  "bezierCurveTo previous target flip =
     (let (tx, ty) = bz_pos target in
      case previous of
        None \<Rightarrow> [LineTo tx ty]
      | Some p \<Rightarrow>
          (let (ax, ay) = (if flip then bz_cp1 p else bz_cp2 p);
               (bx, by') = (if flip then bz_cp2 target else bz_cp1 target)
           in [BezierTo ax ay bx by' tx ty]))"

section \<open>Text\<close>

record render_opts =
  ro_strokeWidth :: "real option"
  ro_strokeColor :: "string option"
  ro_maxWidth :: "real option"
  ro_translation :: "(real \<times> real) option"
  ro_rotation :: "real option"
  ro_color :: "string option"
  ro_textAlign :: "string option"
  ro_textBaseline :: "string option"
  ro_strikethrough :: bool
  ro_underline :: bool
  ro_decorationWidth :: "real option"

text \<open>The extents of a text: left, right, ascent and descent of its box.\<close>

type_synonym metrics = "string \<Rightarrow> real \<times> real \<times> real \<times> real"

fun set_text :: "(string \<Rightarrow> cmd) \<Rightarrow> string option \<Rightarrow> cmd list" where
  "set_text f None = []"
| "set_text f (Some s) = (if s = [] then [] else [f s])"

definition setRenderOpts :: "render_opts \<Rightarrow> cmd list" where
  "setRenderOpts opts =
     (case ro_translation opts of Some (dx, dy) \<Rightarrow> [Translate dx dy] | None \<Rightarrow> []) @
     (case ro_rotation opts of Some r \<Rightarrow> [Rotate r] | None \<Rightarrow> []) @
     set_text SetFillStyle (ro_color opts) @
     set_text SetTextAlign (ro_textAlign opts) @
     set_text SetTextBaseline (ro_textBaseline opts)"

definition decorateText :: "metrics \<Rightarrow> real \<Rightarrow> real \<Rightarrow> string \<Rightarrow> render_opts \<Rightarrow> cmd list" where
  "decorateText metrics x y line opts =
     (if ro_strikethrough opts \<or> ro_underline opts then
        (let (l, r, asc, desc) = metrics line;
             left = x - l; right = x + r; t = y - asc; b = y + desc;
             yDecoration = (if ro_strikethrough opts then (t + b) / 2 else b);
             lineWidth = (case ro_decorationWidth opts of
                            Some w \<Rightarrow> if w \<noteq> 0 then w else 2 | None \<Rightarrow> 2)
         in [StrokeStyleFromFill, BeginPath, SetLineWidth lineWidth, MoveTo left yDecoration,
             LineTo right yDecoration, StrokePath])
      else [])"

definition stroke_line :: "real \<Rightarrow> real \<Rightarrow> string \<Rightarrow> render_opts \<Rightarrow> cmd list" where
  "stroke_line x y line opts =
     (if (case ro_strokeWidth opts of Some w \<Rightarrow> w > 0 | None \<Rightarrow> False) \<and> ro_strokeColor opts \<noteq> Some []
      then set_text SetStrokeStyle (ro_strokeColor opts) @
           (case ro_strokeWidth opts of Some w \<Rightarrow> [SetLineWidth w] | None \<Rightarrow> []) @
           [StrokeText line x y (ro_maxWidth opts)]
      else [])"

fun render_lines :: "metrics \<Rightarrow> string list \<Rightarrow> real \<Rightarrow> real \<Rightarrow> real \<Rightarrow> render_opts \<Rightarrow> cmd list" where
  "render_lines metrics [] x y lineHeight opts = []"
| "render_lines metrics (line # ls) x y lineHeight opts =
     stroke_line x y line opts @ [FillText line x y (ro_maxWidth opts)] @
     decorateText metrics x y line opts @ render_lines metrics ls x (y + lineHeight) lineHeight opts"

definition renderText ::
  "metrics \<Rightarrow> string list \<Rightarrow> real \<Rightarrow> real \<Rightarrow> string \<Rightarrow> real \<Rightarrow> render_opts \<Rightarrow> cmd list" where
  "renderText metrics ls x y font_string lineHeight opts =
     [Save, SetFont font_string] @ setRenderOpts opts @ render_lines metrics ls x y lineHeight opts @ [Restore]"

record corner_radii =
  cr_topLeft :: real
  cr_topRight :: real
  cr_bottomLeft :: real
  cr_bottomRight :: real

definition addRoundedRectPath :: "real \<Rightarrow> real \<Rightarrow> real \<Rightarrow> real \<Rightarrow> corner_radii \<Rightarrow> cmd list" where
  "addRoundedRectPath x y w h r =
     [ArcTo (x + cr_topLeft r) (y + cr_topLeft r) (cr_topLeft r) (- (pi / 2)) pi True,
      LineTo x (y + h - cr_bottomLeft r),
      ArcTo (x + cr_bottomLeft r) (y + h - cr_bottomLeft r) (cr_bottomLeft r) pi (pi / 2) True,
      LineTo (x + w - cr_bottomRight r) (y + h),
      ArcTo (x + w - cr_bottomRight r) (y + h - cr_bottomRight r) (cr_bottomRight r) (pi / 2) 0 True,
      LineTo (x + w) (y + cr_topRight r),
      ArcTo (x + w - cr_topRight r) (y + cr_topRight r) (cr_topRight r) 0 (- (pi / 2)) True,
      LineTo (x + cr_topLeft r) y]"

section \<open>Text measures: lemmas\<close>

fun nested_texts :: "label \<Rightarrow> string list" where
  "nested_texts (LText s) = [s]"
| "nested_texts l = []"

fun texts_of :: "label \<Rightarrow> string list" where
  "texts_of LNone = []"
| "texts_of (LText s) = [s]"
| "texts_of (LArr ls) = concat (map nested_texts ls)"

definition all_texts :: "label list \<Rightarrow> string list" where
  "all_texts things = concat (map texts_of things)"

lemma fold_nested: "fold (measure_nested widths) ls m = fold (measureText widths) (concat (map nested_texts ls)) m"
proof (induction ls arbitrary: m)
  case (Cons l ls)
  then show ?case by (cases l) simp_all
qed simp

lemma fold_things: "fold (measure_thing widths) things m = fold (measureText widths) (all_texts things) m"
proof (induction things arbitrary: m)
  case (Cons l ls)
  then show ?case by (cases l) (simp_all add: all_texts_def fold_nested)
qed (simp add: all_texts_def)

definition agrees :: "(string \<Rightarrow> real) \<Rightarrow> (string \<Rightarrow> real option) \<Rightarrow> bool" where
  "agrees widths data \<longleftrightarrow> (\<forall>s w. data s = Some w \<longrightarrow> w = widths s)"

lemma measureText_agrees:
  assumes "agrees widths data"
  shows "\<exists>data' gc'. measureText widths s (data, gc, l) = (data', gc', max (widths s) l) \<and> agrees widths data'"
  using assms
  by (cases "data s") (auto simp: measureText_def Let_def agrees_def max_def)

lemma fold_measureText:
  assumes "agrees widths data"
  shows "\<exists>data' gc'. fold (measureText widths) ss (data, gc, l)
      = (data', gc', fold (\<lambda>s m. max (widths s) m) ss l) \<and> agrees widths data'"
  using assms
proof (induction ss arbitrary: data gc l)
  case (Cons s ss)
  obtain data1 gc1 where "measureText widths s (data, gc, l) = (data1, gc1, max (widths s) l)"
    and "agrees widths data1" using measureText_agrees [OF Cons.prems] by blast
  with Cons.IH [of data1 gc1 "max (widths s) l"] show ?case by simp
qed simp

lemma Max_insert_max: "finite S \<Longrightarrow> Max (insert (max a l) S) = Max (insert l (insert a S))"
  for a :: real
  by (cases "S = {}") (simp_all add: max.assoc max.commute max.left_commute)

lemma fold_max_widths: "fold (\<lambda>s m. max (f s) m) ss l = Max (insert l (f ` set ss))"
  for f :: "'a \<Rightarrow> real"
proof (induction ss arbitrary: l)
  case (Cons s ss)
  show ?case by (simp only: fold_simps Cons.IH list.set image_insert Max_insert_max finite_imageI List.finite_set comp_apply)
qed simp

definition valid_cache :: "(string \<Rightarrow> string \<Rightarrow> real) \<Rightarrow> text_cache \<Rightarrow> bool" where
  "valid_cache widths c \<longleftrightarrow> (\<forall>f. tc_font c = Some f \<longrightarrow> agrees (widths f) (tc_data c))"

text \<open>
  The cache of widths is transparent. With a cache whose entries are widths in its font, \<open>_longestText\<close>
  returns the largest width of the texts, or 0, as measuring each text would, and leaves a cache of
  the same kind for the new font.
\<close>

theorem longestText_max:
  assumes "valid_cache widths cache" and "longestText widths font things cache = (longest, cache', cmds)"
  shows "longest = Max (insert 0 (widths font ` set (all_texts things))) \<and> valid_cache widths cache' \<and>
    tc_font cache' = Some font \<and> depth d cmds = Some d"
proof -
  define data0 where "data0 = (if tc_font cache \<noteq> Some font then Map.empty else tc_data cache)"
  define gc0 where "gc0 = (if tc_font cache \<noteq> Some font then [] else tc_gc cache)"
  have "agrees (widths font) data0"
    using assms(1) by (auto simp: data0_def valid_cache_def agrees_def)
  from fold_measureText [OF this, of "all_texts things" gc0 0] obtain data gc
    where f: "fold (measure_thing (widths font)) things (data0, gc0, 0)
        = (data, gc, fold (\<lambda>s m. max (widths font s) m) (all_texts things) 0)"
      and ok: "agrees (widths font) data"
    by (auto simp: fold_things)
  have sub: "agrees (widths font) (data |` X)" for X
    using ok by (auto simp: agrees_def restrict_map_def split: if_splits)
  from assms(2) f have "longest = fold (\<lambda>s m. max (widths font s) m) (all_texts things) 0"
    and "tc_font cache' = Some font"
    and "tc_data cache' = (if length gc > 2 * length things
        then data |` (- set (take ((length gc + 1) div 2) gc)) else data)"
    and "cmds = [Save, SetFont font, Restore]"
    by (auto simp: longestText_def Let_def data0_def [symmetric] gc0_def [symmetric])
  with ok sub show ?thesis by (simp add: valid_cache_def fold_max_widths)
qed

theorem longestText_max_witness:
  "\<exists>longest cache' cmds. longestText (\<lambda>f s. real (length s)) ''f'' [LText ''ab'', LArr [LText ''abc'', LNone]]
      \<lparr>tc_font = None, tc_data = Map.empty, tc_gc = []\<rparr> = (longest, cache', cmds) \<and> longest = 3"
proof -
  let ?c = "\<lparr>tc_font = None, tc_data = Map.empty, tc_gc = []\<rparr>"
  let ?things = "[LText ''ab'', LArr [LText ''abc'', LNone]]"
  have valid: "valid_cache (\<lambda>f s. real (length s)) ?c" by (simp add: valid_cache_def)
  obtain longest cache' cmds
    where run: "longestText (\<lambda>f s. real (length s)) ''f'' ?things ?c = (longest, cache', cmds)"
    by (metis prod_cases3)
  have "longest = Max (insert 0 ((\<lambda>s. real (length s)) ` set (all_texts ?things)))"
    using longestText_max [OF valid run, of 0] by simp
  then have "longest = 3" by (simp add: all_texts_def)
  with run show ?thesis by blast
qed

section \<open>Pixels, points and paths: lemmas\<close>

lemma alignPixel_near:
  fixes width :: real
  assumes "0 < ratio"
  shows "\<bar>alignPixel ratio pixel width - pixel\<bar> \<le> 1 / (2 * ratio)"
proof -
  define half where "half = (if width \<noteq> 0 then max (width / 2) (1 / 2) else 0)"
  let ?v = "(pixel - half) * ratio"
  have eq: "alignPixel ratio pixel width = of_int (round_half_up ?v) / ratio + half"
    by (simp add: alignPixel_def half_def Let_def)
  have "\<bar>of_int (round_half_up ?v) - ?v\<bar> \<le> 1 / 2" unfolding round_half_up_def by linarith
  then have "\<bar>of_int (round_half_up ?v) - ?v\<bar> / ratio \<le> (1 / 2) / ratio"
    using assms by (intro divide_right_mono) simp_all
  then have "\<bar>(of_int (round_half_up ?v) - ?v) / ratio\<bar> \<le> 1 / (2 * ratio)"
    using assms by (simp only: abs_divide divide_divide_eq_left abs_of_pos)
  moreover have "(of_int (round_half_up ?v) - ?v) / ratio = alignPixel ratio pixel width - pixel"
    using assms by (simp add: eq field_simps)
  ultimately show ?thesis by (simp only:)
qed

text \<open>
  Lines on whole device pixels. The edge of a line of the given width that \<open>_alignPixel\<close> returns falls on a
  whole device pixel, at most half a device pixel from where it was asked for.
\<close>

theorem alignPixel_aligned:
  fixes width :: real
  assumes "0 < ratio"
  defines "half \<equiv> if width \<noteq> 0 then max (width / 2) (1 / 2) else 0"
  shows "(alignPixel ratio pixel width - half) * ratio \<in> \<int> \<and>
    \<bar>alignPixel ratio pixel width - pixel\<bar> \<le> 1 / (2 * ratio)"
  using assms(1) alignPixel_near by (simp add: alignPixel_def half_def Let_def)

theorem alignPixel_aligned_witness:
  "\<bar>alignPixel 2 (10 / 3) 1 - 10 / 3\<bar> \<le> 1 / 4"
  using alignPixel_aligned [of 2 "10 / 3" 1] by simp

text \<open>A command keeps within a distance of a centre.\<close>

definition dist2 :: "real \<Rightarrow> real \<Rightarrow> real" where
  "dist2 a b = sqrt (a\<^sup>2 + b\<^sup>2)"

fun in_circle :: "real \<Rightarrow> real \<Rightarrow> real \<Rightarrow> cmd \<Rightarrow> bool" where
  "in_circle x y R (MoveTo a b) = (dist2 (a - x) (b - y) \<le> R)"
| "in_circle x y R (LineTo a b) = (dist2 (a - x) (b - y) \<le> R)"
| "in_circle x y R (ArcTo a b r s e ccw) = (dist2 (a - x) (b - y) + r \<le> R)"
| "in_circle x y R (RectTo a b w h) =
     (dist2 (a - x) (b - y) \<le> R \<and> dist2 (a + w - x) (b + h - y) \<le> R \<and>
      dist2 (a + w - x) (b - y) \<le> R \<and> dist2 (a - x) (b + h - y) \<le> R)"
| "in_circle x y R c = True"

lemma sin_cos_scaled: "(cos t * r)\<^sup>2 + (sin t * r)\<^sup>2 = r\<^sup>2" for t r :: real
proof -
  have "(cos t * r)\<^sup>2 + (sin t * r)\<^sup>2 = ((cos t)\<^sup>2 + (sin t)\<^sup>2) * r\<^sup>2"
    by (simp only: power_mult_distrib distrib_right)
  then show ?thesis by simp
qed

lemma dist2_polar [simp]:
  assumes "0 \<le> r"
  shows "dist2 (cos t * r) (sin t * r) = r" "dist2 (sin t * r) (cos t * r) = r"
    "dist2 (cos t * r) (- (sin t * r)) = r" "dist2 (- (cos t * r)) (sin t * r) = r"
    "dist2 (- (cos t * r)) (- (sin t * r)) = r" "dist2 (sin t * r) (- (cos t * r)) = r"
    "dist2 (- (sin t * r)) (cos t * r) = r" "dist2 (- (sin t * r)) (- (cos t * r)) = r"
  using assms sin_cos_scaled [of t r] by (simp_all add: dist2_def add.commute)

lemma dist2_square:
  assumes "0 \<le> r"
  shows "dist2 (sqrt (1 / 2) * r) (sqrt (1 / 2) * r) = r"
  using assms by (simp add: dist2_def power_mult_distrib)

lemma dist2_neg [simp]: "dist2 (- a) b = dist2 a b" "dist2 a (- b) = dist2 a b"
  by (simp_all add: dist2_def)

lemma dist2_diff [simp]:
  "dist2 (a - b - a) c = dist2 b c" "dist2 c (a - b - a) = dist2 c b"
  by (simp_all add: dist2_def)

lemma point_path_parts:
  assumes "0 \<le> radius"
  shows "list_all (in_circle x y radius) (cross_lines x y rad radius)"
    and "list_all (in_circle x y radius) (rect_rot x y rad radius)"
  using assms by (simp_all add: cross_lines_def rect_rot_def Let_def)

lemma rounded_in_circle:
  assumes "0 \<le> s" and "c + s \<le> radius"
  shows "list_all (in_circle x y radius) (rounded_rect x y rad c s)"
  using assms by (simp add: rounded_rect_def Let_def)

lemma rect_in_circle:
  assumes "0 \<le> radius"
  shows "list_all (in_circle x y radius) (point_path ''rect'' rad False radius x y)"
proof -
  have "x - s + 2 * s - x = s" for x s :: real by simp
  moreover define s where "s = sqrt (1 / 2) * radius"
  ultimately show ?thesis
    using dist2_square [OF assms] by (simp add: point_path_def Let_def s_def [symmetric])
qed

lemma point_path_in_circle:
  assumes "0 \<le> radius"
  shows "list_all (in_circle x y radius) (point_path style rad rotated radius x y)"
proof -
  consider "style = ''triangle''" | "style = ''rectRounded''" | "style = ''rect''"
    | "style \<notin> {''triangle'', ''rectRounded'', ''rect''}" by auto
  then show ?thesis
  proof cases
    case 1
    with assms show ?thesis by (simp add: point_path_def Let_def)
  next
    case 2
    with assms show ?thesis by (simp add: point_path_def rounded_in_circle)
  next
    case 3
    have "list_all (in_circle x y radius) (point_path ''rect'' rad True radius x y)"
      using point_path_parts [OF assms] by (simp add: point_path_def)
    with 3 rect_in_circle [OF assms] show ?thesis by (cases rotated) auto
  next
    case 4
    have zero: "dist2 0 0 = 0" by (simp add: dist2_def)
    from 4 assms point_path_parts [OF assms] show ?thesis by (simp add: point_path_def Let_def zero)
  qed
qed

text \<open>
  Points stay in their circle. Every move, line, arc and rectangle with which a point is drawn, whatever its
  style and rotation, lies within the point's radius of its centre; a radius that is not
  positive or not a number draws nothing.
\<close>

theorem drawPoint_bounded:
  assumes "po_style opts = Style style" and "po_radius opts = Some r"
  shows "list_all (in_circle x y r) (drawPoint opts x y) \<and> (r \<le> 0 \<longrightarrow> drawPoint opts x y = []) \<and>
    drawPoint (opts\<lparr>po_radius := None\<rparr>) x y = []"
proof -
  have path: "0 < r \<Longrightarrow> list_all (in_circle x y r) (point_path style rad rot r x y)" for rad rot
    by (rule point_path_in_circle) simp
  show ?thesis using assms path by (simp add: drawPoint_def Let_def)
qed

theorem drawPoint_bounded_witness:
  "list_all (in_circle 10 20 5)
     (drawPoint \<lparr>po_style = Style ''rectRounded'', po_rotation = Some 30, po_radius = Some 5,
                 po_borderWidth = 1\<rparr> 10 20)"
  using drawPoint_bounded [of "\<lparr>po_style = Style ''rectRounded'', po_rotation = Some 30,
      po_radius = Some 5, po_borderWidth = 1\<rparr>" "''rectRounded''" 5 10 20] by simp

lemma flat_cmds [simp]:
  "flat BeginPath" "flat ClosePath" "flat (MoveTo a b)" "flat (LineTo a b)" "flat (ArcTo a b r u v ccw)"
  "flat (RectTo a b w h)" "flat FillPath" "flat StrokePath" "flat (Translate a b)" "flat (Rotate a)"
  "flat (DrawImage i a b w h)" "flat (FillText s a b m)" "flat (StrokeText s a b m)" "flat (SetFont s)"
  "flat (SetFillStyle s)" "flat (SetStrokeStyle s)" "flat StrokeStyleFromFill" "flat (SetLineWidth a)"
  "flat (SetTextAlign s)" "flat (SetTextBaseline s)"
  by (simp_all add: flat_def)

lemma flat_parts:
  "list_all flat (set_text SetFillStyle s)" "list_all flat (set_text SetTextAlign s)"
  "list_all flat (set_text SetTextBaseline s)" "list_all flat (set_text SetStrokeStyle s)"
  "list_all flat (decorateText metrics x y line opts)" "list_all flat (stroke_line x y line opts)"
  "list_all flat (setRenderOpts opts)"
proof -
  have st: "list_all flat (set_text f s)" if "\<And>s. flat (f s)" for f s
    using that by (cases s) simp_all
  show "list_all flat (set_text SetFillStyle s)" "list_all flat (set_text SetTextAlign s)"
    "list_all flat (set_text SetTextBaseline s)" "list_all flat (set_text SetStrokeStyle s)"
    by (rule st, simp)+
  show "list_all flat (decorateText metrics x y line opts)"
    by (simp add: decorateText_def Let_def split: prod.split)
  show "list_all flat (stroke_line x y line opts)"
    using st [of SetStrokeStyle] by (simp add: stroke_line_def split: option.split)
  show "list_all flat (setRenderOpts opts)"
    using st [of SetFillStyle] st [of SetTextAlign] st [of SetTextBaseline]
    by (auto simp: setRenderOpts_def split: option.split)
qed

lemma render_lines_flat: "list_all flat (render_lines metrics ls x y lh opts)"
proof (induction ls arbitrary: y)
  case (Cons line ls)
  then show ?case using flat_parts by simp
qed simp

lemma point_path_flat: "list_all flat (point_path style rad rot r x y)"
  by (simp add: point_path_def Let_def cross_lines_def rect_rot_def rounded_rect_def)

lemma renderText_depth:
  "depth d (renderText metrics ls x y font_string lineHeight opts @ cs) = depth d cs"
  using depth_flat [OF flat_parts(7)] depth_flat [OF render_lines_flat]
  by (simp add: renderText_def)

text \<open>
  Drawing restores the context. Text, points, clearing, the measuring of labels and clipping with its
  counterpart leave the stack of saved states of the canvas as they found it.
\<close>

theorem drawing_restores:
  "depth d (renderText metrics ls x y font_string lineHeight opts) = Some d \<and>
   depth d (drawPoint popts x y) = Some d \<and>
   depth d (clearCanvas w h) = Some d \<and>
   depth d (clipArea a @ renderText metrics ls x y font_string lineHeight opts @ unclipArea) = Some d"
proof -
  have rt: "depth d (renderText metrics ls x y font_string lineHeight opts @ cs) = depth d cs" for d cs
    by (rule renderText_depth)
  have "list_all flat cs \<Longrightarrow> depth d cs = Some d" for cs using depth_flat [of cs d "[]"] by simp
  moreover have "list_all flat (drawPoint popts x y)" if "po_style popts = Style st" for st
    using that point_path_flat by (auto simp: drawPoint_def Let_def split: option.split)
  ultimately have "depth d (drawPoint popts x y) = Some d"
    by (cases "po_style popts") (simp_all add: drawPoint_def Let_def)
  moreover have "depth d (renderText metrics ls x y font_string lineHeight opts) = Some d"
    using rt [of d "[]"] by simp
  ultimately show ?thesis
    using rt by (simp add: clearCanvas_def clipArea_def unclipArea_def)
qed

text \<open>The pen: where a path is after its commands, and whether each arc starts at the pen.\<close>

fun pen_ok :: "real \<times> real \<Rightarrow> cmd list \<Rightarrow> bool" where
  "pen_ok p [] = True"
| "pen_ok p (ArcTo a b r s e ccw # cs) =
     (p = (a + r * cos s, b + r * sin s) \<and> pen_ok (a + r * cos e, b + r * sin e) cs)"
| "pen_ok p (LineTo a b # cs) = ((fst p = a \<or> snd p = b) \<and> pen_ok (a, b) cs)"
| "pen_ok p (c # cs) = pen_ok p cs"

text \<open>
  Rounded rectangles are closed outlines. The path of a rounded rectangle starts and ends at the same point
  of its upper edge, each arc starts where the line before it ended, and every line runs along an edge.
\<close>

theorem roundedRect_closed:
  "pen_ok (x + cr_topLeft r, y) (addRoundedRectPath x y w h r) \<and>
   last (addRoundedRectPath x y w h r) = LineTo (x + cr_topLeft r) y"
  by (simp add: addRoundedRectPath_def)

text \<open>
  Stepped lines. A stepped line ends at its target and each of its pieces is parallel to an
  axis, in every mode and direction.
\<close>

theorem steppedLine_parallel:
  "pen_ok p (steppedLineTo (Some p) q flip mode) \<and>
   last (steppedLineTo (Some p) q flip mode) = LineTo (fst q) (snd q)"
  by (cases p; cases q) (simp add: steppedLineTo_def Let_def)

end
