(* ===== verification/Ticks.thy ===== *)
theory Ticks
  imports Math_Helpers "HOL-Library.Sublist"
begin

text \<open>
  Which ticks of an axis are shown (\<^verbatim>\<open>chart.js\<close>, \<open>calculateDelta\<close> to
  \<open>getPixelForGridLine\<close>, \<open>titleAlign\<close>): number formats of ticks, automatic skipping,
  even spacing of major ticks, sampling and the pixels of grid lines.

  Limits and spacings are JavaScript numbers, because a limit of zero makes the spacing
  infinite. The functions that push ticks return the indices of the ticks they push. The loop
  \<open>while (next < 0)\<close> of \<open>skip\<close> may run for ever, so \<open>skip\<close> is partial.
\<close>

section \<open>Data\<close>

record tick =
  tk_value :: real
  tk_major :: bool

section \<open>Formats\<close>

definition tick_value :: "tick list \<Rightarrow> nat \<Rightarrow> real" where
  "tick_value ticks i = tk_value (ticks ! i)"

text \<open>The array has at least two ticks.\<close>

definition calculateDelta :: "real \<Rightarrow> tick list \<Rightarrow> real" where
  "calculateDelta tickValue ticks =
     (let delta = (if length ticks > 3 then tick_value ticks 2 - tick_value ticks 1
                   else tick_value ticks 1 - tick_value ticks 0)
      in if 1 \<le> \<bar>delta\<bar> \<and> tickValue \<noteq> of_int \<lfloor>tickValue\<rfloor> then tickValue - of_int \<lfloor>tickValue\<rfloor> else delta)"

text \<open>
  The options of the format of a number: whether the notation is scientific, and the number of
  fraction digits. The logarithm of a zero step is minus infinity, so it gets 20 digits.
\<close>

definition numeric_options :: "real \<Rightarrow> tick list \<Rightarrow> bool \<times> int" where
  "numeric_options tickValue ticks =
     (let maxTick = max \<bar>tick_value ticks 0\<bar> \<bar>tick_value ticks (length ticks - 1)\<bar>;
          scientific = (length ticks > 1 \<and> (maxTick < 1 / 10 ^ 4 \<or> maxTick > 10 ^ 15));
          delta = (if length ticks > 1 then calculateDelta tickValue ticks else tickValue);
          numDecimal = (if delta = 0 then 20 else max (min (- \<lfloor>log 10 \<bar>delta\<bar>\<rfloor>) 20) 0)
      in (scientific, numDecimal))"

text \<open>\<open>format\<close> stands for the browser's number format with those options.\<close>

definition numeric_format :: "(real \<Rightarrow> bool \<Rightarrow> int \<Rightarrow> string) \<Rightarrow> real \<Rightarrow> tick list \<Rightarrow> string" where
  "numeric_format fmt tickValue ticks =
     (if tickValue = 0 then ''0''
      else let (sci, digits) = numeric_options tickValue ticks in fmt tickValue sci digits)"

definition logarithmic_format :: "(real \<Rightarrow> bool \<Rightarrow> int \<Rightarrow> string) \<Rightarrow> real \<Rightarrow> tick list \<Rightarrow> string" where
  "logarithmic_format fmt tickValue ticks =
     (if tickValue = 0 then ''0''
      else
        let remain = tickValue / 10 powi \<lfloor>log 10 tickValue\<rfloor>
        in if 0 < tickValue \<and> (remain = 1 \<or> remain = 2 \<or> remain = 5)
           then numeric_format fmt tickValue ticks else [])"

section \<open>Skipping\<close>

definition getMajorIndices :: "tick list \<Rightarrow> nat list" where
  "getMajorIndices ticks = filter (\<lambda>i. tk_major (ticks ! i)) [0..<length ticks]"

text \<open>
  The comparison starts from the first index itself. The result 0 stands for \<open>false\<close> and for
  an even spacing of 0, which the caller does not distinguish.
\<close>

fun even_loop :: "nat list \<Rightarrow> nat \<Rightarrow> nat" where
  "even_loop (a # b # rest) diff = (if int b - int a \<noteq> int diff then 0 else even_loop (b # rest) diff)"
| "even_loop rest diff = diff"

definition getEvenSpacing :: "nat list \<Rightarrow> nat" where
  "getEvenSpacing arr = (if length arr < 2 then 0 else even_loop arr (hd arr))"

text \<open>The loop over the factors leaves the last one out.\<close>

definition calculateSpacing :: "nat list \<Rightarrow> nat \<Rightarrow> jsnum \<Rightarrow> jsnum" where
  "calculateSpacing majorIndices num_ticks ticksLimit =
     (let evenMajorSpacing = getEvenSpacing majorIndices;
          spacing = Fin (real num_ticks) / ticksLimit
      in if evenMajorSpacing = 0 then math_max spacing 1
         else case List.find (\<lambda>f. spacing < Fin (real f)) (butlast (factorize evenMajorSpacing)) of
                Some f \<Rightarrow> Fin (real f)
              | None \<Rightarrow> math_max spacing 1)"

text \<open>An array read at a number that \<open>Math.ceil\<close> produced.\<close>

fun at_num :: "nat list \<Rightarrow> jsnum \<Rightarrow> nat option" where
  "at_num xs (Fin a) = arr_get xs \<lfloor>a\<rfloor>"
| "at_num xs n = None"

fun majors_loop :: "nat list \<Rightarrow> nat list \<Rightarrow> jsnum \<Rightarrow> nat \<Rightarrow> nat option \<Rightarrow> nat list" where
  "majors_loop [] majorIndices spacing cnt nxt = []"
| "majors_loop (i # is) majorIndices spacing cnt nxt =
     (if nxt = Some i
      then i # majors_loop is majorIndices spacing (cnt + 1)
                 (at_num majorIndices (Fin (real (cnt + 1)) * spacing))
      else majors_loop is majorIndices spacing cnt nxt)"

definition skipMajors :: "nat \<Rightarrow> nat list \<Rightarrow> jsnum \<Rightarrow> nat list" where
  "skipMajors num_ticks majorIndices spacing0 =
     majors_loop [0..<num_ticks] majorIndices (math_ceil spacing0) 0 (at_num majorIndices (Fin 0))"

definition next_pos :: "int \<Rightarrow> jsnum \<Rightarrow> nat \<Rightarrow> jsnum" where
  "next_pos start spacing cnt = math_round (Fin (of_int start) + Fin (real cnt) * spacing)"

partial_function (option) skip_while :: "int \<Rightarrow> jsnum \<Rightarrow> nat \<Rightarrow> jsnum \<Rightarrow> (nat \<times> jsnum) option" where
  "skip_while start spacing cnt nxt =
     (if nxt < Fin 0 then skip_while start spacing (cnt + 1) (next_pos start spacing (cnt + 1))
      else Some (cnt, nxt))"

fun skip_loop :: "nat list \<Rightarrow> int \<Rightarrow> jsnum \<Rightarrow> nat \<Rightarrow> jsnum \<Rightarrow> nat list" where
  "skip_loop [] start spacing cnt nxt = []"
| "skip_loop (i # is) start spacing cnt nxt =
     (if nxt = Fin (real i)
      then i # skip_loop is start spacing (cnt + 1) (next_pos start spacing (cnt + 1))
      else skip_loop is start spacing cnt nxt)"

definition section_spacing :: "int \<Rightarrow> int option \<Rightarrow> jsnum \<Rightarrow> jsnum" where
  "section_spacing majorStart majorEnd spacing =
     (case majorEnd of
        Some e \<Rightarrow>
          if e \<noteq> 0 then
            (let len = Fin (of_int (e - majorStart)) in len / math_floor (len / spacing))
          else spacing
      | None \<Rightarrow> spacing)"

definition skip :: "nat \<Rightarrow> jsnum \<Rightarrow> int option \<Rightarrow> int option \<Rightarrow> nat list option" where
  "skip num_ticks spacing0 majorStart majorEnd =
     (let start = (case majorStart of Some s \<Rightarrow> s | None \<Rightarrow> 0);
          stop = min (case majorEnd of Some e \<Rightarrow> e | None \<Rightarrow> int num_ticks) (int num_ticks);
          spacing = section_spacing start majorEnd (math_ceil spacing0)
      in map_option (\<lambda>(cnt, nxt). skip_loop [nat (max start 0)..<nat stop] start spacing cnt nxt)
           (skip_while start spacing 0 (Fin (of_int start))))"

definition determineMaxTicks :: "bool \<Rightarrow> real \<Rightarrow> real \<Rightarrow> real \<Rightarrow> jsnum" where
  "determineMaxTicks offset tickLength len maxLength =
     (let maxScale = Fin len / Fin tickLength + Fin (if offset then 0 else 1);
          maxChart = Fin maxLength / Fin tickLength
      in math_floor (math_min maxScale maxChart))"

fun concat_opt :: "'a list option list \<Rightarrow> 'a list option" where
  "concat_opt [] = Some []"
| "concat_opt (None # xs) = None"
| "concat_opt (Some a # xs) = map_option (\<lambda>r. a @ r) (concat_opt xs)"

definition autoSkip_with :: "nat \<Rightarrow> nat list \<Rightarrow> jsnum \<Rightarrow> nat list option" where
  "autoSkip_with num_ticks majorIndices ticksLimit =
     (let numMajor = length majorIndices in
      if ticksLimit < Fin (real numMajor)
      then Some (skipMajors num_ticks majorIndices (Fin (real numMajor) / ticksLimit))
      else
        let spacing = calculateSpacing majorIndices num_ticks ticksLimit in
        if numMajor > 0 then
          (let first = int (hd majorIndices); last_major = int (last majorIndices);
               avg = (if numMajor > 1
                      then Some (round_half_up (of_int (last_major - first) / real (numMajor - 1)))
                      else None)
           in concat_opt
               ([skip num_ticks spacing (Some (case avg of None \<Rightarrow> 0 | Some a \<Rightarrow> first - a)) (Some first)] @
                map (\<lambda>i. skip num_ticks spacing (Some (int (majorIndices ! i)))
                            (Some (int (majorIndices ! (i + 1)))))
                    [0..<numMajor - 1] @
                [skip num_ticks spacing (Some last_major)
                   (Some (case avg of None \<Rightarrow> int num_ticks | Some a \<Rightarrow> last_major + a))]))
        else skip num_ticks spacing None None)"

definition autoSkip :: "bool \<Rightarrow> jsnum option \<Rightarrow> jsnum \<Rightarrow> tick list \<Rightarrow> tick list option" where
  "autoSkip major_enabled maxTicksLimit determined ticks =
     (let ticksLimit = (case maxTicksLimit of
                          Some l \<Rightarrow> if l = Fin 0 \<or> l = NaN then determined else l
                        | None \<Rightarrow> determined);
          majorIndices = (if major_enabled then getMajorIndices ticks else [])
      in map_option (map (nth ticks)) (autoSkip_with (length ticks) majorIndices ticksLimit))"

section \<open>Samples, alignment and grid lines\<close>

text \<open>
  \<open>sample\<close> adds the increment until it reaches the length; the sum after \<open>k\<close> steps is
  \<open>k\<close> times the increment.
\<close>

function sample_loop :: "'a list \<Rightarrow> nat \<Rightarrow> nat \<Rightarrow> 'a list" where
  "sample_loop arr numItems k =
     (if numItems = 0 \<or> arr = [] then []
      else
        let i = real k * (real (length arr) / real numItems) in
        if i < real (length arr) then arr ! nat \<lfloor>i\<rfloor> # sample_loop arr numItems (k + 1) else [])"
  by pat_completeness auto
termination
proof (relation "measure (\<lambda>(arr, n, k). n - k)", goal_cases)
  case (2 arr n k i)
  then have n: "0 < real n" and l: "0 < real (length arr)" by simp_all
  from 2 have "real k * (real (length arr) / real n) < real (length arr)" by simp
  then have "real k * real (length arr) < real n * real (length arr)"
    using n by (simp add: pos_divide_less_eq mult.commute)
  with l have "k < n" by simp
  then show ?case by simp
qed simp

declare sample_loop.simps [simp del]

definition sample :: "'a list \<Rightarrow> nat \<Rightarrow> 'a list" where
  "sample arr numItems =
     (if numItems = 0 then (if arr = [] then [] else [hd arr]) else sample_loop arr numItems 0)"

definition reverseAlign :: "string \<Rightarrow> string" where
  "reverseAlign align =
     (if align = ''left'' then ''right'' else if align = ''right'' then ''left'' else align)"

definition toLeftRightCenter :: "string \<Rightarrow> string" where
  "toLeftRightCenter align =
     (if align = ''start'' then ''left'' else if align = ''end'' then ''right'' else ''center'')"

definition alignStartEnd :: "string \<Rightarrow> real \<Rightarrow> real \<Rightarrow> real" where
  "alignStartEnd align a b =
     (if align = ''start'' then a else if align = ''end'' then b else (a + b) / 2)"

definition textX :: "string \<Rightarrow> real \<Rightarrow> real \<Rightarrow> bool \<Rightarrow> real" where
  "textX align l r rtl =
     (let check = (if rtl then ''left'' else ''right'')
      in if align = check then r else if align = ''center'' then (l + r) / 2 else l)"

definition titleAlign :: "string \<Rightarrow> string \<Rightarrow> bool \<Rightarrow> string" where
  "titleAlign align position reverse =
     (let ret = toLeftRightCenter align
      in if (reverse \<and> position \<noteq> ''right'') \<or> (\<not> reverse \<and> position = ''right'') then reverseAlign ret
         else ret)"

definition offsetFromEdge :: "(string \<Rightarrow> real) \<Rightarrow> string \<Rightarrow> real \<Rightarrow> real" where
  "offsetFromEdge scale edge offset =
     (if edge = ''top'' \<or> edge = ''left'' then scale edge + offset else scale edge - offset)"

definition getTickMarkLength :: "bool \<Rightarrow> real \<Rightarrow> real" where
  "getTickMarkLength drawTicks tickLength = (if drawTicks then tickLength else 0)"

text \<open>\<open>pixel\<close> is the scale's \<open>getPixelForTick\<close>; the scale has at least one tick.\<close>

definition getPixelForGridLine ::
  "nat \<Rightarrow> real \<Rightarrow> real \<Rightarrow> (nat \<Rightarrow> real) \<Rightarrow> nat \<Rightarrow> bool \<Rightarrow> real option" where
  "getPixelForGridLine len start stop pixel index offsetGridLines =
     (let validIndex = min index (len - 1);
          epsilon = 1 / 10 ^ 6;
          lineValue = pixel validIndex
      in if offsetGridLines then
           (let offset = (if len = 1 then max (lineValue - start) (stop - lineValue)
                          else if index = 0 then (pixel 1 - lineValue) / 2
                          else (lineValue - pixel (validIndex - 1)) / 2);
                lv = lineValue + (if validIndex < index then offset else - offset)
            in if lv < start - epsilon \<or> lv > stop + epsilon then None else Some lv)
         else Some lineValue)"

section \<open>Skipping: lemmas\<close>

text \<open>The spacings that occur: at least one, infinite, or not a number.\<close>

definition good :: "jsnum \<Rightarrow> bool" where
  "good s \<longleftrightarrow> s = PInf \<or> s = NaN \<or> (\<exists>r. s = Fin r \<and> 1 \<le> r)"

definition positive :: "jsnum \<Rightarrow> bool" where
  "positive s \<longleftrightarrow> s = PInf \<or> s = NaN \<or> (\<exists>r. s = Fin r \<and> 0 < r)"

lemma good_positive: "good s \<Longrightarrow> positive s"
  by (auto simp: good_def positive_def)

lemma good_ceil: "good s \<Longrightarrow> good (math_ceil s)"
  by (auto simp: good_def)

lemma inf_of_sign_cases: "0 \<le> r \<Longrightarrow> inf_of_sign r = PInf \<or> inf_of_sign r = NaN"
  by (auto simp: inf_of_sign_def)

lemma good_max1: "a = PInf \<or> a = NaN \<or> (\<exists>r. a = Fin r) \<Longrightarrow> good (math_max a 1)"
  by (auto simp: good_def math_max_def)

lemma div_limit: "Fin (real n) / Fin L = PInf \<or> Fin (real n) / Fin L = NaN \<or> (\<exists>r. Fin (real n) / Fin L = Fin r)"
  using inf_of_sign_cases [of "real n"] by (auto simp: Fin_div)

lemma factorize_loop_pos:
  "0 < v \<Longrightarrow> 0 < i \<Longrightarrow> (\<forall>d \<in> set result. 0 < d) \<Longrightarrow> d \<in> set (factorize_loop v i result) \<Longrightarrow> 0 < d"
proof (induction v i result rule: factorize_loop.induct)
  case (1 v i result)
  have "v mod i = 0 \<Longrightarrow> 0 < v div i" using 1(2,3) by (simp add: div_greater_zero_iff dvd_eq_mod_eq_0 [symmetric] dvd_imp_le)
  with 1 show ?case
    by (subst (asm) (2) factorize_loop.simps) (auto split: if_splits)
qed

lemma factorize_pos: "d \<in> set (factorize v) \<Longrightarrow> 0 < v \<Longrightarrow> 0 < d"
  unfolding factorize_def by (rule factorize_loop_pos [of v 1 "[]"]) (auto dest: in_set_butlastD)

lemma good_calculateSpacing: "good (calculateSpacing ms n (Fin L))"
proof (cases "List.find (\<lambda>f. Fin (real n) / Fin L < Fin (real f)) (butlast (factorize (getEvenSpacing ms)))")
  case None
  then show ?thesis using good_max1 [OF div_limit] by (simp add: calculateSpacing_def Let_def)
next
  case (Some f)
  then obtain k where k: "k < length (butlast (factorize (getEvenSpacing ms)))"
    "Fin (real n) / Fin L < Fin (real f)" "f = butlast (factorize (getEvenSpacing ms)) ! k"
    by (auto simp: find_Some_iff)
  have "good (Fin (real f))" if "getEvenSpacing ms \<noteq> 0"
  proof -
    have "f \<in> set (factorize (getEvenSpacing ms))" using k by (metis nth_mem in_set_butlastD)
    then have "0 < f" using that by (auto simp: factorize_pos)
    then show ?thesis by (simp add: good_def)
  qed
  with Some show ?thesis using good_max1 [OF div_limit] by (auto simp: calculateSpacing_def Let_def)
qed

lemma next_pos_nan [simp]: "\<not> next_pos start NaN c < Fin 0"
  by (simp add: next_pos_def times_jsnum_def plus_jsnum_def)

lemma next_pos_inf: "0 < c \<Longrightarrow> \<not> next_pos start PInf c < Fin 0"
  by (simp add: next_pos_def times_jsnum_def plus_jsnum_def inf_of_sign_def)

lemma next_pos_Fin: "next_pos start (Fin r) c = Fin (of_int (round_half_up (of_int start + real c * r)))"
  by (simp add: next_pos_def)

lemma skip_while_finite:
  assumes "0 < r"
  shows "- of_int start \<le> (real c + real n) * r \<Longrightarrow>
    \<exists>x. skip_while start (Fin r) c (next_pos start (Fin r) c) = Some x"
proof (induction n arbitrary: c)
  case 0
  then have "0 \<le> round_half_up (of_int start + real c * r)"
    unfolding round_half_up_def by (simp add: le_floor_iff)
  then show ?case by (subst skip_while.simps) (simp add: next_pos_Fin)
next
  case (Suc n)
  then have "\<exists>x. skip_while start (Fin r) (c + 1) (next_pos start (Fin r) (c + 1)) = Some x"
    by (intro Suc.IH) (simp add: algebra_simps)
  then show ?case by (subst skip_while.simps) simp
qed

lemma skip_while_returns:
  assumes "positive s"
  shows "\<exists>x. skip_while start s 0 (Fin (of_int start)) = Some x"
proof (cases "start < 0")
  case True
  have step: "\<exists>x. skip_while start s 1 (next_pos start s 1) = Some x"
  proof (cases s)
    case (Fin r)
    with assms have r: "0 < r" by (simp add: positive_def)
    obtain n :: nat where "- of_int start / r \<le> real n" using real_arch_simple by blast
    then have "- of_int start \<le> real n * r" using r by (simp only: pos_divide_le_eq)
    also have "real n * r \<le> (real 1 + real n) * r" using r by (intro mult_right_mono) simp_all
    finally show ?thesis using skip_while_finite [OF r, of start 1 n] Fin by simp
  next
    case PInf
    then show ?thesis by (subst skip_while.simps) (simp add: next_pos_inf)
  next
    case NInf
    with assms show ?thesis by (simp add: positive_def)
  next
    case NaN
    then show ?thesis by (subst skip_while.simps) simp
  qed
  then show ?thesis using True by (subst skip_while.simps) simp
next
  case False
  then show ?thesis by (subst skip_while.simps) simp
qed

lemma skip_while_immediate: "0 \<le> start \<Longrightarrow> skip_while start s 0 (Fin (of_int start)) = Some (0, Fin (of_int start))"
  by (subst skip_while.simps) simp

lemma section_spacing_positive:
  assumes "good s" and "\<And>e. stop = Some e \<Longrightarrow> e = 0 \<or> start < e"
  shows "positive (section_spacing start stop s)"
proof (cases "stop = None \<or> stop = Some 0")
  case True
  with assms(1) show ?thesis by (auto simp: section_spacing_def good_positive split: option.split)
next
  case False
  with assms(2) obtain e where e: "stop = Some e" "e \<noteq> 0" "start < e" by auto
  let ?l = "of_int (e - start) :: real"
  have l: "0 < ?l" using e(3) by simp
  have eq: "section_spacing start stop s = Fin ?l / math_floor (Fin ?l / s)"
    using e by (simp add: section_spacing_def Let_def)
  from assms(1) consider "s = PInf" | "s = NaN" | r where "s = Fin r" "1 \<le> r"
    by (auto simp: good_def)
  then show ?thesis
  proof cases
    case 1
    then have "section_spacing start stop s = PInf"
      unfolding eq using l by (simp add: divide_jsnum_def inf_of_sign_def)
    then show ?thesis by (simp add: positive_def)
  next
    case 2
    then have "section_spacing start stop s = NaN" unfolding eq by (simp add: divide_jsnum_def)
    then show ?thesis by (simp add: positive_def)
  next
    case 3
    let ?f = "of_int \<lfloor>?l / r\<rfloor> :: real"
    have "0 \<le> ?f" using l 3 by simp
    moreover have "section_spacing start stop s = Fin ?l / Fin ?f" unfolding eq using 3 by simp
    ultimately show ?thesis using l
      by (cases "?f = 0") (simp_all only: positive_def Fin_div inf_of_sign_def jsnum.inject if_True if_False
          ex_simps simp_thms less_le divide_nonneg_nonneg divide_eq_0_iff, auto)
  qed
qed

lemma skip_loop_subset: "set (skip_loop is start s c nxt) \<subseteq> set is"
  by (induction "is" start s c nxt rule: skip_loop.induct) auto

lemma skip_loop_sorted: "sorted_wrt (<) is \<Longrightarrow> sorted_wrt (<) (skip_loop is start s c nxt)"
proof (induction "is" arbitrary: c nxt)
  case (Cons i ks)
  then show ?case using skip_loop_subset [of ks start s "c + 1" "next_pos start s (c + 1)"] by auto
qed simp

text \<open>
  A section returns indices of ticks in order, between its ends; a section that starts at an
  index keeps it.
\<close>

definition start_of :: "int option \<Rightarrow> int" where
  "start_of s = (case s of Some v \<Rightarrow> v | None \<Rightarrow> 0)"

definition stop_of :: "nat \<Rightarrow> int option \<Rightarrow> int" where
  "stop_of n e = min (case e of Some v \<Rightarrow> v | None \<Rightarrow> int n) (int n)"

lemma skip_section:
  assumes "good s" and "\<And>e. stop = Some e \<Longrightarrow> e = 0 \<or> start_of start < e"
  shows "\<exists>is. skip n s start stop = Some is \<and> sorted_wrt (<) is \<and>
    (\<forall>i \<in> set is. start_of start \<le> int i \<and> int i < stop_of n stop) \<and>
    (0 \<le> start_of start \<longrightarrow> start_of start < stop_of n stop \<longrightarrow> nat (start_of start) \<in> set is)"
proof -
  let ?s = "section_spacing (start_of start) stop (math_ceil s)"
  obtain cnt nxt where w: "skip_while (start_of start) ?s 0 (Fin (of_int (start_of start))) = Some (cnt, nxt)"
    using skip_while_returns [OF section_spacing_positive [OF good_ceil [OF assms(1)] assms(2)]] by fastforce
  let ?is = "[nat (max (start_of start) 0)..<nat (stop_of n stop)]"
  let ?r = "skip_loop ?is (start_of start) ?s cnt nxt"
  have r: "skip n s start stop = Some ?r"
    using w by (simp add: skip_def start_of_def stop_of_def Let_def)
  have "start_of start \<le> int i \<and> int i < stop_of n stop" if "i \<in> set ?r" for i
    using subsetD [OF skip_loop_subset that] by auto
  moreover have "nat (start_of start) \<in> set ?r" if st: "0 \<le> start_of start" "start_of start < stop_of n stop"
  proof -
    have "cnt = 0" "nxt = Fin (of_int (start_of start))" using w skip_while_immediate [OF st(1)] by simp_all
    moreover have "?is = nat (start_of start) # [Suc (nat (start_of start))..<nat (stop_of n stop)]"
      using st by (simp add: upt_conv_Cons)
    ultimately show ?thesis using st by simp
  qed
  ultimately show ?thesis using r skip_loop_sorted [of ?is] by auto
qed

text \<open>Sections one after the other.\<close>

lemma concat_sections:
  assumes "good s"
  shows "sorted_wrt (\<lambda>p q. snd p \<le> fst q) secs \<Longrightarrow>
    (\<forall>p \<in> set secs. snd p = 0 \<or> fst p < snd p) \<Longrightarrow>
    \<exists>is. concat_opt (map (\<lambda>p. skip n s (Some (fst p)) (Some (snd p))) secs) = Some is \<and> sorted_wrt (<) is \<and>
      (\<forall>i \<in> set is. \<exists>p \<in> set secs. fst p \<le> int i \<and> int i < min (snd p) (int n)) \<and>
      (\<forall>p \<in> set secs. 0 \<le> fst p \<longrightarrow> fst p < min (snd p) (int n) \<longrightarrow> nat (fst p) \<in> set is)"
proof (induction secs)
  case (Cons p secs)
  obtain a b where p: "p = (a, b)" by (cases p)
  have "snd p = 0 \<or> fst p < snd p" using Cons.prems by simp
  then obtain js where js: "skip n s (Some a) (Some b) = Some js" "sorted_wrt (<) js"
    "\<forall>i \<in> set js. a \<le> int i \<and> int i < min b (int n)"
    "0 \<le> a \<longrightarrow> a < min b (int n) \<longrightarrow> nat a \<in> set js"
    using skip_section [OF assms, of "Some b" "Some a" n] by (auto simp: p start_of_def stop_of_def)
  from Cons obtain ks where ks:
    "concat_opt (map (\<lambda>p. skip n s (Some (fst p)) (Some (snd p))) secs) = Some ks" "sorted_wrt (<) ks"
    "\<forall>i \<in> set ks. \<exists>p \<in> set secs. fst p \<le> int i \<and> int i < min (snd p) (int n)"
    "\<forall>p \<in> set secs. 0 \<le> fst p \<longrightarrow> fst p < min (snd p) (int n) \<longrightarrow> nat (fst p) \<in> set ks" by auto
  have "i < k" if "i \<in> set js" "k \<in> set ks" for i k
  proof -
    from that(2) ks(3) obtain q where "q \<in> set secs" "fst q \<le> int k" by blast
    with Cons.prems(1) that(1) js(3) show ?thesis by (fastforce simp: p)
  qed
  with js(2) ks(2) have "sorted_wrt (<) (js @ ks)" by (simp add: sorted_wrt_append)
  with js ks show ?case by (auto simp: p)
qed simp

definition major_sections :: "nat \<Rightarrow> nat list \<Rightarrow> (int \<times> int) list" where
  "major_sections n ms =
     (let first = int (hd ms); last_major = int (last ms);
          avg = round_half_up (of_int (last_major - first) / real (length ms - 1))
      in [(if length ms > 1 then first - avg else 0, first)] @
         map (\<lambda>i. (int (ms ! i), int (ms ! (i + 1)))) [0..<length ms - 1] @
         [(last_major, if length ms > 1 then last_major + avg else int n)])"

lemma autoSkip_with_sections:
  assumes "ms \<noteq> []" and "real (length ms) \<le> L"
  shows "autoSkip_with n ms (Fin L)
    = concat_opt (map (\<lambda>p. skip n (calculateSpacing ms n (Fin L)) (Some (fst p)) (Some (snd p))) (major_sections n ms))"
  using assms by (auto simp: autoSkip_with_def major_sections_def Let_def comp_def)

lemma strictly_apart:
  fixes ms :: "nat list"
  shows "sorted_wrt (<) ms \<Longrightarrow> j < length ms \<Longrightarrow> i \<le> j \<Longrightarrow> ms ! i + (j - i) \<le> ms ! j"
proof (induction "j - i" arbitrary: j)
  case (Suc d)
  then have j: "0 < j" "d = j - 1 - i" "i \<le> j - 1" "j - 1 < length ms" by linarith+
  from Suc.hyps(1) [OF j(2) Suc.prems(1) j(4,3)] have "ms ! i + (j - 1 - i) \<le> ms ! (j - 1)" .
  moreover have "ms ! (j - 1) < ms ! j" using Suc.prems j(1) by (simp add: sorted_wrt_iff_nth_less)
  ultimately show ?case using j(1,3) by linarith
qed simp

lemma round_ge_1: "1 \<le> v \<Longrightarrow> 1 \<le> round_half_up v"
  by (simp add: round_half_up_def le_floor_iff)

lemma major_sections_ok:
  assumes "sorted_wrt (<) ms" and "ms \<noteq> []" and "set ms \<subseteq> {..<n}"
  shows "sorted_wrt (\<lambda>p q. snd p \<le> fst q) (major_sections n ms)"
    and "\<forall>p \<in> set (major_sections n ms). snd p = 0 \<or> fst p < snd p"
    and "\<forall>m \<in> set ms. \<exists>p \<in> set (major_sections n ms). fst p = int m \<and> m < n \<and> fst p < snd p"
proof -
  let ?k = "length ms - 1"
  let ?avg = "round_half_up (of_int (int (last ms) - int (hd ms)) / real ?k)"
  have ends: "hd ms = ms ! 0" "last ms = ms ! ?k" using assms(2) by (simp_all add: hd_conv_nth last_conv_nth)
  have len: "?k < length ms" using assms(2) by (simp add: Suc_le_eq)
  have le: "ms ! i \<le> ms ! j" if "i \<le> j" "j < length ms" for i j
    using strictly_apart [OF assms(1) that(2,1)] by linarith
  have less: "ms ! i < ms ! (i + 1)" if "i + 1 < length ms" for i
    using assms(1) that by (simp add: sorted_wrt_iff_nth_less)
  have avg: "1 \<le> ?avg" if "length ms > 1"
  proof -
    have "hd ms + ?k \<le> last ms" using strictly_apart [OF assms(1) len, of 0] by (simp add: ends)
    then have "real ?k \<le> of_int (int (last ms) - int (hd ms))" by linarith
    then have "1 \<le> of_int (int (last ms) - int (hd ms)) / real ?k" using that by (simp add: le_divide_eq)
    then show ?thesis by (rule round_ge_1)
  qed
  have lt: "ms ! i < n" if "i < length ms" for i using assms(3) that nth_mem by blast
  show "sorted_wrt (\<lambda>p q. snd p \<le> fst q) (major_sections n ms)"
    using le len by (auto simp: major_sections_def Let_def sorted_wrt_append sorted_wrt_map sorted_wrt_upt ends
        intro!: sorted_wrt_mono_rel [OF _ sorted_wrt_upt])
  show "\<forall>p \<in> set (major_sections n ms). snd p = 0 \<or> fst p < snd p"
    using avg less lt [OF len] by (auto simp: major_sections_def Let_def ends)
  have "\<exists>p \<in> set (major_sections n ms). fst p = int (ms ! i) \<and> ms ! i < n \<and> fst p < snd p" if i: "i < length ms" for i
  proof (cases "i = ?k")
    case True
    with avg lt [OF len] show ?thesis by (auto simp: major_sections_def Let_def ends)
  next
    case False
    with i have "i < ?k" by linarith
    with less [of i] lt [OF i] show ?thesis by (auto simp: major_sections_def Let_def intro!: bexI [of _ "(int (ms ! i), int (ms ! (i + 1)))"])
  qed
  then show "\<forall>m \<in> set ms. \<exists>p \<in> set (major_sections n ms). fst p = int m \<and> m < n \<and> fst p < snd p"
    by (auto simp: in_set_conv_nth)
qed

lemma autoSkip_with_majors:
  assumes "sorted_wrt (<) ms" and "set ms \<subseteq> {..<n}" and "real (length ms) \<le> L"
  shows "\<exists>is. autoSkip_with n ms (Fin L) = Some is \<and> sorted_wrt (<) is \<and> set is \<subseteq> {..<n} \<and> set ms \<subseteq> set is"
proof (cases "ms = []")
  case True
  have good: "good (calculateSpacing ms n (Fin L))" by (rule good_calculateSpacing)
  from skip_section [OF good, of None None n] True assms(3) show ?thesis
    by (auto simp: autoSkip_with_def Let_def start_of_def stop_of_def)
next
  case False
  note ok = major_sections_ok [OF assms(1) False assms(2)]
  from concat_sections [OF good_calculateSpacing [of ms n L] ok(1,2), where n = n] obtain "is" where r:
    "autoSkip_with n ms (Fin L) = Some is" "sorted_wrt (<) is"
    "\<forall>i \<in> set is. \<exists>p \<in> set (major_sections n ms). fst p \<le> int i \<and> int i < min (snd p) (int n)"
    "\<forall>p \<in> set (major_sections n ms). 0 \<le> fst p \<longrightarrow> fst p < min (snd p) (int n) \<longrightarrow> nat (fst p) \<in> set is"
    by (auto simp: autoSkip_with_sections [OF False assms(3)])
  have "m \<in> set is" if "m \<in> set ms" for m
  proof -
    from ok(3) that obtain p where "p \<in> set (major_sections n ms)" "fst p = int m" "m < n" "fst p < snd p" by blast
    with r(4) show ?thesis by fastforce
  qed
  with r show ?thesis by fastforce
qed

lemma subseq_upt: "sorted_wrt (<) is \<Longrightarrow> (\<forall>i \<in> set is. a \<le> i \<and> i < n) \<Longrightarrow> subseq is [a..<n]"
proof (induction "is" arbitrary: a)
  case (Cons i ks)
  from Cons.prems(2) have i: "a \<le> i" "i < n" by simp_all
  then have split: "[a..<n] = [a..<i] @ i # [Suc i..<n]"
    using upt_add_eq_append [of a i "n - i"] by (simp add: upt_conv_Cons)
  have "subseq ks [Suc i..<n]" using Cons by (intro Cons.IH) (auto simp: Suc_le_eq)
  then show ?case unfolding split by (intro list_emb_append2) simp
qed simp

lemma picked_subseq:
  assumes "sorted_wrt (<) is" and "set is \<subseteq> {..<length xs}"
  shows "subseq (map (nth xs) is) xs"
proof -
  have "subseq (map (nth xs) is) (map (nth xs) [0..<length xs])"
    using assms by (intro subseq_map subseq_upt) auto
  then show ?thesis by (simp add: map_nth)
qed

lemma getMajorIndices_props:
  "sorted_wrt (<) (getMajorIndices ticks)" "set (getMajorIndices ticks) \<subseteq> {..<length ticks}"
  by (auto simp: getMajorIndices_def sorted_wrt_filter sorted_wrt_upt)

text \<open>
  Major ticks are kept when they fit. When the limit is not below the number of major ticks, \<open>autoSkip\<close> returns a
  subsequence of the ticks with every major tick in it, however the majors are spaced.
\<close>

theorem autoSkip_keeps_majors:
  assumes "L \<noteq> 0" and "real (length (getMajorIndices ticks)) \<le> L"
  shows "\<exists>ts. autoSkip enabled (Some (Fin L)) determined ticks = Some ts \<and> subseq ts ticks \<and>
    (\<forall>t \<in> set ticks. enabled \<and> tk_major t \<longrightarrow> t \<in> set ts)"
proof -
  let ?ms = "if enabled then getMajorIndices ticks else []"
  have "sorted_wrt (<) ?ms" "set ?ms \<subseteq> {..<length ticks}" "real (length ?ms) \<le> L"
    using getMajorIndices_props [of ticks] assms(2) by auto
  then obtain "is" where r: "autoSkip_with (length ticks) ?ms (Fin L) = Some is" "sorted_wrt (<) is"
    "set is \<subseteq> {..<length ticks}" "set ?ms \<subseteq> set is"
    using autoSkip_with_majors by blast
  have "t \<in> set (map (nth ticks) is)" if "t \<in> set ticks" "enabled \<and> tk_major t" for t
  proof -
    from that obtain i where "i < length ticks" "t = ticks ! i" by (auto simp: in_set_conv_nth)
    with that r(4) have "i \<in> set is" by (auto simp: getMajorIndices_def)
    then show ?thesis using \<open>t = ticks ! i\<close> by simp
  qed
  with r assms(1) picked_subseq [OF r(2,3)] show ?thesis
    by (intro exI [of _ "map (nth ticks) is"]) (simp add: autoSkip_def Let_def)
qed

theorem autoSkip_keeps_majors_witness:
  "\<exists>ts. autoSkip True (Some (Fin 2)) (Fin 11)
      [\<lparr>tk_value = 0, tk_major = False\<rparr>, \<lparr>tk_value = 1, tk_major = True\<rparr>, \<lparr>tk_value = 2, tk_major = False\<rparr>]
      = Some ts \<and> \<lparr>tk_value = 1, tk_major = True\<rparr> \<in> set ts"
  using autoSkip_keeps_majors [of 2 "[\<lparr>tk_value = 0, tk_major = False\<rparr>, \<lparr>tk_value = 1, tk_major = True\<rparr>,
      \<lparr>tk_value = 2, tk_major = False\<rparr>]" True "Fin 11"]
  by (auto simp: getMajorIndices_def upt_rec)

lemma ceil_mult_ge_1:
  assumes "1 \<le> r"
  shows "\<exists>s::nat. 1 \<le> s \<and> math_ceil (Fin r) = Fin (real s) \<and> r \<le> real s"
proof (intro exI conjI)
  have pos: "1 \<le> \<lceil>r\<rceil>" using assms by (simp add: le_ceiling_iff)
  then show "1 \<le> nat \<lceil>r\<rceil>" by linarith
  from pos have eq: "real (nat \<lceil>r\<rceil>) = of_int \<lceil>r\<rceil>" by simp
  show "math_ceil (Fin r) = Fin (real (nat \<lceil>r\<rceil>))" by (simp add: eq)
  show "r \<le> real (nat \<lceil>r\<rceil>)" by (simp only: eq le_of_int_ceiling)
qed

lemma round_half_up_nat [simp]: "round_half_up (real n) = int n"
  unfolding round_half_up_def by linarith

lemma next_pos_nat: "next_pos 0 (Fin (real s)) c = Fin (real (c * s))"
  by (simp add: next_pos_Fin flip: of_nat_mult)

text \<open>Without majors the indices kept are the multiples of the spacing.\<close>

lemma skip_loop_multiples:
  assumes "0 < s"
  shows "a \<le> c * s \<Longrightarrow> c * s < a + s \<Longrightarrow>
    skip_loop [a..<n] 0 (Fin (real s)) c (Fin (real (c * s))) = filter (\<lambda>i. s dvd i) [a..<n]"
proof (induction "n - a" arbitrary: a c)
  case (Suc d)
  then have an: "a < n" by linarith
  then have split: "[a..<n] = a # [Suc a..<n]" by (rule upt_conv_Cons)
  show ?case
  proof (cases "a = c * s")
    case True
    have "skip_loop [Suc a..<n] 0 (Fin (real s)) (c + 1) (Fin (real ((c + 1) * s))) = filter (\<lambda>i. s dvd i) [Suc a..<n]"
      using Suc.hyps(2) assms True by (intro Suc.hyps(1)) simp_all
    then show ?thesis unfolding split using True by (simp add: next_pos_nat del: of_nat_mult)
  next
    case False
    have "\<not> s dvd a"
    proof
      assume "s dvd a"
      then obtain k where "a = s * k" by blast
      then have k: "a = k * s" by (simp only: mult.commute)
      with Suc.prems False have "k * s < c * s" "c * s < (k + 1) * s" by simp_all
      then have "k < c" "c < k + 1" by (simp_all only: mult_less_cancel2)
      then show False by simp
    qed
    moreover have "skip_loop [Suc a..<n] 0 (Fin (real s)) c (Fin (real (c * s))) = filter (\<lambda>i. s dvd i) [Suc a..<n]"
      using Suc False by (intro Suc.hyps(1)) simp_all
    ultimately show ?thesis unfolding split using False by (simp del: of_nat_mult)
  qed
qed simp

lemma length_multiples:
  assumes "0 < s"
  shows "length (filter (\<lambda>i. s dvd i) [0..<n]) = (n + s - 1) div s"
proof (induction n)
  case 0
  with assms show ?case by simp
next
  case (Suc n)
  define m where "m = n + s - 1"
  have m: "Suc n + s - 1 = Suc m" "Suc m = n + s" using assms by (simp_all add: m_def)
  have "(Suc m mod s = 0) = (s dvd n)" by (simp add: m(2) dvd_eq_mod_eq_0)
  moreover have "length (filter (\<lambda>i. s dvd i) [0..<Suc n]) = m div s + (if s dvd n then 1 else 0)"
    using Suc by (simp add: m_def)
  ultimately show ?case unfolding m(1) by (simp add: div_Suc)
qed

lemma multiples_bound:
  fixes s :: nat
  assumes "0 < s" and "n \<le> s * L"
  shows "(n + s - 1) div s \<le> L"
proof -
  have "n + s - 1 < s * L + s" using assms by arith
  then have "n + s - 1 < s * (L + 1)" by simp
  then have "(n + s - 1) div s < L + 1" using assms(1) by (simp add: div_less_iff_less_mult mult.commute)
  then show ?thesis by simp
qed

lemma autoSkip_with_plain:
  assumes "0 < (L::nat)"
  shows "\<exists>is. autoSkip_with n [] (Fin (real L)) = Some is \<and> length is \<le> L"
proof -
  let ?r = "max (real n / real L) 1"
  obtain s where s: "1 \<le> s" "math_ceil (Fin ?r) = Fin (real s)" "?r \<le> real s"
    using ceil_mult_ge_1 [of ?r] by auto
  have sp: "calculateSpacing [] n (Fin (real L)) = Fin ?r"
    using assms by (simp add: calculateSpacing_def getEvenSpacing_def)
  have "skip n (Fin ?r) None None = Some (filter (\<lambda>i. s dvd i) [0..<n])"
    using skip_loop_multiples [of s 0 0 n] skip_while_immediate [of 0 "Fin (real s)"] s(1)
    unfolding skip_def section_spacing_def s(2) Let_def by simp
  moreover have "n \<le> s * L"
  proof -
    have "real n / real L \<le> real s" using s(3) by simp
    then have "real n \<le> real s * real L" using assms by (simp only: pos_divide_le_eq of_nat_0_less_iff)
    then show ?thesis by (simp only: of_nat_mult [symmetric] of_nat_le_iff)
  qed
  ultimately show ?thesis
    using s(1) multiples_bound [of s n L] sp assms
    by (simp add: autoSkip_with_def length_multiples)
qed

lemma at_num_nat: "at_num ms (Fin (real c) * Fin (real s)) = (if c * s < length ms then Some (ms ! (c * s)) else None)"
  by (simp add: arr_get_def flip: of_nat_mult)

lemma majors_loop_length:
  assumes "0 < s"
  shows "nxt = at_num ms (Fin (real c) * Fin (real s)) \<Longrightarrow>
    length (majors_loop is ms (Fin (real s)) c nxt) \<le> (length ms + s - 1) div s - c"
proof (induction "is" arbitrary: c nxt)
  case (Cons i ks)
  show ?case
  proof (cases "nxt = Some i")
    case True
    then have "c * s < length ms" using Cons.prems unfolding at_num_nat by (simp split: if_splits)
    then have "(c + 1) * s \<le> length ms + s - 1" by simp
    then have "c + 1 \<le> (length ms + s - 1) div s" using assms by (simp add: less_eq_div_iff_mult_less_eq)
    moreover have "length (majors_loop ks ms (Fin (real s)) (c + 1) (at_num ms (Fin (real (c + 1)) * Fin (real s))))
        \<le> (length ms + s - 1) div s - (c + 1)" by (rule Cons.IH) (rule refl)
    ultimately show ?thesis using True by (simp del: at_num.simps)
  qed (use Cons in simp)
qed simp

lemma skipMajors_length:
  assumes "0 < (L::nat)" and "L < length ms"
  shows "length (skipMajors n ms (Fin (real (length ms)) / Fin (real L))) \<le> L"
proof -
  have "1 \<le> real (length ms) / real L" using assms by (simp add: le_divide_eq)
  from ceil_mult_ge_1 [OF this] obtain s where s: "1 \<le> s"
    "math_ceil (Fin (real (length ms) / real L)) = Fin (real s)" "real (length ms) / real L \<le> real s" by blast
  have "real (length ms) \<le> real s * real L"
    using s(3) assms(1) by (simp only: pos_divide_le_eq of_nat_0_less_iff)
  then have "length ms \<le> s * L" by (simp only: of_nat_mult [symmetric] of_nat_le_iff)
  moreover have "at_num ms (Fin 0) = at_num ms (Fin (real 0) * Fin (real s))" by simp
  ultimately show ?thesis
    using majors_loop_length [of s "at_num ms (Fin 0)" ms 0 "[0..<n]"] multiples_bound [of s "length ms" L] s(1)
    unfolding skipMajors_def Fin_div_nz [OF iffD2 [OF of_nat_0_less_iff assms(1), THEN less_imp_neq, THEN not_sym]] s(2)
    by linarith
qed

text \<open>
  The limit is respected. Unless major ticks within the limit are enabled, \<open>autoSkip\<close> shows no
  more ticks than its limit.
\<close>

theorem autoSkip_limit:
  assumes "0 < (L::nat)" and "\<not> enabled \<or> getMajorIndices ticks = [] \<or> L < length (getMajorIndices ticks)"
  shows "\<exists>ts. autoSkip enabled (Some (Fin (real L))) determined ticks = Some ts \<and> length ts \<le> L"
proof -
  let ?ms = "if enabled then getMajorIndices ticks else []"
  have "\<exists>is. autoSkip_with (length ticks) ?ms (Fin (real L)) = Some is \<and> length is \<le> L"
  proof (cases "?ms = []")
    case True
    with autoSkip_with_plain [OF assms(1), of "length ticks"] show ?thesis by simp
  next
    case False
    with assms(2) have "L < length ?ms" by (auto split: if_splits)
    with skipMajors_length [OF assms(1) this, of "length ticks"] show ?thesis
      by (simp add: autoSkip_with_def)
  qed
  with assms(1) show ?thesis by (auto simp: autoSkip_def Let_def)
qed

theorem autoSkip_limit_witness:
  "\<exists>ts. autoSkip True (Some (Fin 2)) (Fin 11) (replicate 7 \<lparr>tk_value = 0, tk_major = False\<rparr>) = Some ts \<and>
     length ts \<le> 2"
  using autoSkip_limit [of 2 True "replicate 7 \<lparr>tk_value = 0, tk_major = False\<rparr>" "Fin 11"]
  by (simp add: getMajorIndices_def)

lemma sample_loop_length:
  assumes "arr \<noteq> []"
  shows "k \<le> n \<Longrightarrow> length (sample_loop arr n k) = n - k \<and> set (sample_loop arr n k) \<subseteq> set arr"
proof (induction "n - k" arbitrary: k)
  case 0
  then show ?case using assms by (subst (1 2) sample_loop.simps) simp
next
  case (Suc d)
  then have k: "k < n" by linarith
  let ?i = "real k * (real (length arr) / real n)"
  have lt: "?i < real (length arr)" using k assms by (simp add: field_simps)
  have "nat \<lfloor>?i\<rfloor> < length arr" using lt by (simp add: nat_less_iff floor_less_iff)
  then have "arr ! nat \<lfloor>?i\<rfloor> \<in> set arr" by (rule nth_mem)
  moreover have "length (sample_loop arr n (k + 1)) = n - (k + 1) \<and> set (sample_loop arr n (k + 1)) \<subseteq> set arr"
    using Suc k by (intro Suc.hyps(1)) linarith+
  ultimately show ?case using lt k assms by (subst (1 2) sample_loop.simps) (simp add: Let_def)
qed

text \<open>
  Sampling. A sample of a list that is not empty has as many items as asked for, each of them an item of the
  list, and starts with the first one.
\<close>

theorem sample_items:
  assumes "arr \<noteq> []" and "0 < n"
  shows "length (sample arr n) = n \<and> set (sample arr n) \<subseteq> set arr \<and> hd (sample arr n) = hd arr"
proof -
  have "hd (sample_loop arr n 0) = hd arr"
    using assms by (subst sample_loop.simps) (simp add: hd_conv_nth)
  then show ?thesis using assms sample_loop_length [OF assms(1), of 0 n] by (simp add: sample_def)
qed

theorem sample_items_witness:
  "length (sample [10, 20, 30 :: real] 2) = 2 \<and> hd (sample [10, 20, 30 :: real] 2) = 10"
  using sample_items [of "[10, 20, 30 :: real]" 2] by simp

end
