(* ===== verification/Core_Helpers.thy ===== *)
theory Core_Helpers
  imports JS_Prelude
begin

text \<open>
  The core helpers of the charting library (\<^verbatim>\<open>webui/public/chart.js\<close>, from
  \<open>uid\<close> to \<open>_isClickEvent\<close>): type tests and defaults, iteration, deep copy and
  merge of option objects, dotted key paths.

  An option object is modelled by value, so the in-place updates of \<open>merge\<close> return the
  updated object; keys inherited through a prototype are not represented. An object's own
  keys are distinct, which is what \<open>wf_val\<close> says at every level.
\<close>

section \<open>Type tests and defaults\<close>

definition uid :: "nat \<Rightarrow> nat \<times> nat" where
  "uid next_id = (next_id, Suc next_id)"

definition isNullOrUndef :: "jsval \<Rightarrow> bool" where
  "isNullOrUndef v \<longleftrightarrow> v = Null \<or> v = Undefined"

fun isArray :: "jsval \<Rightarrow> bool" where
  "isArray (Arr xs) = True"
| "isArray v = False"

fun isObject :: "jsval \<Rightarrow> bool" where
  "isObject (Obj ps) = True"
| "isObject v = False"

fun isNumberFinite :: "jsval \<Rightarrow> bool" where
  "isNumberFinite (Num x) = is_finite x"
| "isNumberFinite v = False"

definition finiteOrDefault :: "jsval \<Rightarrow> jsval \<Rightarrow> jsval" where
  "finiteOrDefault v d = (if isNumberFinite v then v else d)"

definition valueOrDefault :: "jsval \<Rightarrow> jsval \<Rightarrow> jsval" where
  "valueOrDefault v d = (if v = Undefined then d else v)"

definition defined_val :: "jsval \<Rightarrow> bool" where
  "defined_val v \<longleftrightarrow> v \<noteq> Undefined"

fun isFunction :: "jsval \<Rightarrow> bool" where
  "isFunction (Func f) = True"
| "isFunction v = False"

lemma isObject_iff [js_val]: "isObject v \<longleftrightarrow> (\<exists>ps. v = Obj ps)"
  by (cases v) auto

section \<open>Iteration\<close>

text \<open>
  The calls that \<open>each\<close> makes, as (value, index or key) pairs in order. An array is
  walked by index, backwards when \<open>reverse\<close> is set; an object by its own keys.
\<close>

fun each_calls :: "jsval \<Rightarrow> bool \<Rightarrow> (jsval \<times> jsval) list" where
  "each_calls (Arr xs) reverse =
     (let calls = map (\<lambda>i. (xs ! i, Num (Fin (real i)))) [0..<length xs]
      in if reverse then rev calls else calls)"
| "each_calls (Obj ps) reverse = map (\<lambda>k. (prop_get ps k, Str k)) (own_keys ps)"
| "each_calls v reverse = []"

definition each :: "jsval \<Rightarrow> (jsval \<Rightarrow> jsval \<Rightarrow> 's \<Rightarrow> 's) \<Rightarrow> bool \<Rightarrow> 's \<Rightarrow> 's" where
  "each loopable fn reverse s = fold (\<lambda>(v, k). fn v k) (each_calls loopable reverse) s"

text \<open>
  Equality of two lists of active elements: an element is its dataset index and its index;
  a missing list is \<open>None\<close>.
\<close>

fun elements_loop :: "(nat \<times> nat) list \<Rightarrow> (nat \<times> nat) list \<Rightarrow> bool" where
  "elements_loop ((d0, i0) # a0) ((d1, i1) # a1) =
     (if d0 \<noteq> d1 \<or> i0 \<noteq> i1 then False else elements_loop a0 a1)"
| "elements_loop a0 a1 = True"

fun elementsEqual :: "(nat \<times> nat) list option \<Rightarrow> (nat \<times> nat) list option \<Rightarrow> bool" where
  "elementsEqual (Some a0) (Some a1) =
     (if length a0 \<noteq> length a1 then False else elements_loop a0 a1)"
| "elementsEqual a0 a1 = False"

section \<open>Deep copy\<close>

fun clone :: "jsval \<Rightarrow> jsval"
  and clone_keys :: "props \<Rightarrow> props \<Rightarrow> props" where
  "clone (Arr xs) = Arr (map clone xs)"
| "clone (Obj ps) = Obj (clone_keys ps [])"
| "clone v = v"
| "clone_keys [] target = target"
| "clone_keys ((k, v) # ps) target = clone_keys ps (prop_set k (clone v) target)"

section \<open>Merging\<close>

definition isValidKey :: "string \<Rightarrow> bool" where
  "isValidKey key \<longleftrightarrow> key \<notin> set [''__proto__'', ''prototype'', ''constructor'']"

text \<open>
  The loop of \<open>merge\<close> over the keys of one source, with the default merger
  (\<open>merge_keys\<close>) and with \<open>_mergerIf\<close> (\<open>mergeIf_keys\<close>).
\<close>

fun merger :: "string \<Rightarrow> props \<Rightarrow> jsval \<Rightarrow> props"
  and merge_keys :: "props \<Rightarrow> props \<Rightarrow> props" where
  "merger key target (Obj sv) =
     (if \<not> isValidKey key then target
      else case prop_get target key of
             Obj tv \<Rightarrow> prop_set key (Obj (merge_keys tv sv)) target
           | _ \<Rightarrow> prop_set key (clone (Obj sv)) target)"
| "merger key target sval =
     (if \<not> isValidKey key then target else prop_set key (clone sval) target)"
| "merge_keys target [] = target"
| "merge_keys target ((key, sval) # source) = merge_keys (merger key target sval) source"

fun mergerIf :: "string \<Rightarrow> props \<Rightarrow> jsval \<Rightarrow> props"
  and mergeIf_keys :: "props \<Rightarrow> props \<Rightarrow> props" where
  "mergerIf key target (Obj sv) =
     (if \<not> isValidKey key then target
      else case prop_get target key of
             Obj tv \<Rightarrow> prop_set key (Obj (mergeIf_keys tv sv)) target
           | _ \<Rightarrow> if key \<notin> set (own_keys target) then prop_set key (clone (Obj sv)) target
                  else target)"
| "mergerIf key target sval =
     (if \<not> isValidKey key then target
      else if key \<notin> set (own_keys target) then prop_set key (clone sval) target else target)"
| "mergeIf_keys target [] = target"
| "mergeIf_keys target ((key, sval) # source) = mergeIf_keys (mergerIf key target sval) source"

fun merge_sources :: "(props \<Rightarrow> props \<Rightarrow> props) \<Rightarrow> props \<Rightarrow> jsval list \<Rightarrow> props" where
  "merge_sources keys target [] = target"
| "merge_sources keys target (Obj s # sources) = merge_sources keys (keys target s) sources"
| "merge_sources keys target (s # sources) = merge_sources keys target sources"

fun source_list :: "jsval \<Rightarrow> jsval list" where
  "source_list (Arr xs) = xs"
| "source_list v = [v]"

fun merge :: "jsval \<Rightarrow> jsval \<Rightarrow> jsval" where
  "merge (Obj t) source = Obj (merge_sources merge_keys t (source_list source))"
| "merge target source = target"

fun mergeIf :: "jsval \<Rightarrow> jsval \<Rightarrow> jsval" where
  "mergeIf (Obj t) source = Obj (merge_sources mergeIf_keys t (source_list source))"
| "mergeIf target source = target"

section \<open>Dotted keys\<close>

text \<open>Property access \<open>obj[key]\<close> on a value, own properties only.\<close>

definition digit_val :: "char \<Rightarrow> nat option" where
  "digit_val c = (let n = of_char c :: nat in if 48 \<le> n \<and> n \<le> 57 then Some (n - 48) else None)"

fun digits_val :: "nat \<Rightarrow> string \<Rightarrow> nat option" where
  "digits_val acc [] = Some acc"
| "digits_val acc (c # cs) =
     (case digit_val c of None \<Rightarrow> None | Some d \<Rightarrow> digits_val (10 * acc + d) cs)"

text \<open>An array index key: a decimal number without leading zeros.\<close>

fun array_index :: "string \<Rightarrow> nat option" where
  "array_index [] = None"
| "array_index [c] = digit_val c"
| "array_index (c # cs) = (if c = CHR ''0'' then None else digits_val 0 (c # cs))"

fun js_get :: "jsval \<Rightarrow> string \<Rightarrow> jsval" where
  "js_get (Obj ps) key = prop_get ps key"
| "js_get (Arr xs) key =
     (if key = ''length'' then Num (Fin (real (length xs)))
      else case array_index key of
             Some i \<Rightarrow> if i < length xs then xs ! i else Undefined
           | None \<Rightarrow> Undefined)"
| "js_get (Str s) key =
     (if key = ''length'' then Num (Fin (real (length s)))
      else case array_index key of
             Some i \<Rightarrow> if i < length s then Str [s ! i] else Undefined
           | None \<Rightarrow> Undefined)"
| "js_get v key = Undefined"

definition indexOfDotOrLength :: "string \<Rightarrow> nat \<Rightarrow> nat" where
  "indexOfDotOrLength key start =
     (case find (\<lambda>i. key ! i = CHR ''.'') [start..<length key] of
        None \<Rightarrow> length key
      | Some idx \<Rightarrow> idx)"

lemma indexOfDot_gt: "pos < indexOfDotOrLength key pos \<Longrightarrow> pos < length key"
  by (auto simp: indexOfDotOrLength_def find_Some_iff split: option.splits)

function resolve_loop :: "string \<Rightarrow> jsval \<Rightarrow> nat \<Rightarrow> jsval" where
  "resolve_loop key obj pos =
     (let idx = indexOfDotOrLength key pos in
      if truthy obj \<and> idx > pos
      then resolve_loop key (js_get obj (take (idx - pos) (drop pos key))) (idx + 1)
      else obj)"
  by pat_completeness auto
termination
  by (relation "measure (\<lambda>(key, obj, pos). Suc (length key) - pos)")
     (use indexOfDot_gt in fastforce)+

declare resolve_loop.simps [simp del]

definition resolveObjectKey :: "jsval \<Rightarrow> string \<Rightarrow> jsval" where
  "resolveObjectKey obj key = (if key = [] then obj else resolve_loop key obj 0)"

text \<open>\<open>toUpperCase\<close> on the letters of ASCII.\<close>

definition to_upper :: "char \<Rightarrow> char" where
  "to_upper c = (let n = of_char c :: nat in if 97 \<le> n \<and> n \<le> 122 then char_of (n - 32) else c)"

fun capitalize :: "string \<Rightarrow> string" where
  "capitalize [] = []"
| "capitalize (c # cs) = to_upper c # cs"

text \<open>A \<open>Set\<close> is the list of its members in insertion order, without repetition.\<close>

fun sets_loop :: "'a list \<Rightarrow> 'a list \<Rightarrow> bool" where
  "sets_loop [] b = True"
| "sets_loop (item # a) b = (if item \<notin> set b then False else sets_loop a b)"

definition setsEqual :: "'a list \<Rightarrow> 'a list \<Rightarrow> bool" where
  "setsEqual a b = (if length a \<noteq> length b then False else sets_loop a b)"

definition isClickEvent :: "string \<Rightarrow> bool" where
  "isClickEvent type = (type = ''mouseup'' \<or> type = ''click'' \<or> type = ''contextmenu'')"

section \<open>Deep copy: lemmas\<close>

fun wf_val :: "jsval \<Rightarrow> bool" where
  "wf_val (Arr xs) = (\<forall>x \<in> set xs. wf_val x)"
| "wf_val (Obj ps) = (distinct (own_keys ps) \<and> (\<forall>p \<in> set ps. wf_val (snd p)))"
| "wf_val v = True"

lemma prop_set_append: "key \<notin> set (own_keys t) \<Longrightarrow> prop_set key v t = t @ [(key, v)]"
  by (induction t) auto

lemma prop_set_same: "distinct (own_keys t) \<Longrightarrow> (key, v) \<in> set t \<Longrightarrow> prop_set key v t = t"
  by (induction t) (auto simp: rev_image_eqI)

lemma prop_set_get: "key \<in> set (own_keys t) \<Longrightarrow> prop_set key (prop_get t key) t = t"
  by (induction t) (force simp: prop_get_def)+

lemma clone_wf:
  "wf_val v \<Longrightarrow> clone v = v"
  "distinct (own_keys (target @ ps)) \<Longrightarrow> (\<forall>p \<in> set ps. wf_val (snd p)) \<Longrightarrow>
     clone_keys ps target = target @ ps"
proof (induction v and ps target rule: clone_clone_keys.induct)
  case (1 xs)
  then show ?case by (simp add: map_idI)
next
  case (5 k v ps target)
  then have "clone v = v" by simp
  moreover from 5 have "prop_set k v target = target @ [(k, v)]"
    by (intro prop_set_append) auto
  ultimately show ?case using 5 by simp
qed simp_all

lemma prop_get_mem: "distinct (own_keys ps) \<Longrightarrow> (key, v) \<in> set ps \<Longrightarrow> prop_get ps key = v"
  by (simp add: prop_get_def)

lemma prop_get_notin: "key \<notin> set (own_keys ps) \<Longrightarrow> prop_get ps key = Undefined"
  by (simp add: prop_get_def map_of_eq_None_iff [THEN iffD2])

section \<open>Merging: lemmas\<close>

text \<open>What a merge leaves at a key that the source has.\<close>

fun merge_val :: "jsval \<Rightarrow> jsval \<Rightarrow> jsval" where
  "merge_val (Obj tv) (Obj sv) = Obj (merge_keys tv sv)"
| "merge_val old sval = clone sval"

lemma merger_eq:
  "merger key t sval =
     (if isValidKey key then prop_set key (merge_val (prop_get t key) sval) t else t)"
  by (cases sval; cases "prop_get t key") simp_all

lemma merge_keys_get:
  "distinct (own_keys source) \<Longrightarrow>
   prop_get (merge_keys t source) key =
     (if key \<in> set (own_keys source) \<and> isValidKey key
      then merge_val (prop_get t key) (prop_get source key) else prop_get t key)"
proof (induction source arbitrary: t)
  case (Cons s source)
  obtain k sval where s: "s = (k, sval)" by (cases s)
  have notin: "k \<notin> set (own_keys source)" using Cons.prems s by simp
  show ?case
  proof (cases "key = k")
    case True
    with Cons s notin show ?thesis by (simp add: merger_eq prop_get_def)
  next
    case False
    with Cons s show ?thesis by (simp add: merger_eq prop_get_def)
  qed
qed simp

lemma own_keys_merge_keys:
  "set (own_keys (merge_keys t source)) = set (own_keys t) \<union> {k \<in> set (own_keys source). isValidKey k}"
proof (induction source arbitrary: t)
  case (Cons s source)
  obtain k sval where s: "s = (k, sval)" by (cases s)
  have "set (own_keys (merger k t sval)) = set (own_keys t) \<union> (if isValidKey k then {k} else {})"
    by (simp add: merger_eq del: set_map)
  with Cons.IH s show ?case by (auto simp del: set_map)
qed simp

lemma merge_keys_fixed:
  "(\<And>k sval. (k, sval) \<in> set source \<Longrightarrow> isValidKey k \<Longrightarrow>
      k \<in> set (own_keys t) \<and> merge_val (prop_get t k) sval = prop_get t k) \<Longrightarrow>
   merge_keys t source = t"
proof (induction source)
  case (Cons s source)
  obtain k sval where s: "s = (k, sval)" by (cases s)
  have "merger k t sval = t"
    using Cons.prems [of k sval] s by (auto simp: merger_eq prop_set_get simp del: set_map)
  moreover have "merge_keys t source = t"
    by (rule Cons.IH) (rule Cons.prems; simp)
  ultimately show ?case using s by simp
qed simp

lemma merge_val_self: "wf_val v \<Longrightarrow> merge_val v v = v"
proof (induction v)
  case (Obj ps)
  have "merge_keys ps ps = ps"
  proof (rule merge_keys_fixed)
    fix k sval
    assume k: "(k, sval) \<in> set ps"
    with Obj.prems have "prop_get ps k = sval" and "wf_val sval" by (auto intro: prop_get_mem)
    moreover have "merge_val sval sval = sval"
      using Obj.IH [OF k] \<open>wf_val sval\<close> by simp
    ultimately show "k \<in> set (own_keys ps) \<and> merge_val (prop_get ps k) sval = prop_get ps k"
      using k by force
  qed
  then show ?case by simp
qed (simp_all add: clone_wf(1) del: clone.simps)

lemma merge_val_idem: "wf_val sval \<Longrightarrow> merge_val (merge_val a sval) sval = merge_val a sval"
proof (induction sval arbitrary: a)
  case (Obj ps)
  show ?case
  proof (cases "isObject a")
    case True
    then obtain tv where a: "a = Obj tv" by (auto simp: isObject_iff)
    have "merge_keys (merge_keys tv ps) ps = merge_keys tv ps"
    proof (rule merge_keys_fixed)
      fix k sv
      assume k: "(k, sv) \<in> set ps" and valid: "isValidKey k"
      with Obj.prems have get: "prop_get ps k = sv" and wf: "wf_val sv"
        by (auto intro: prop_get_mem)
      from k have key: "k \<in> set (own_keys ps)" by force
      have "prop_get (merge_keys tv ps) k = merge_val (prop_get tv k) sv"
        using Obj.prems key valid get by (simp add: merge_keys_get del: set_map)
      moreover have "merge_val (merge_val (prop_get tv k) sv) sv = merge_val (prop_get tv k) sv"
        using Obj.IH [OF k] wf by simp
      ultimately show "k \<in> set (own_keys (merge_keys tv ps)) \<and>
          merge_val (prop_get (merge_keys tv ps) k) sv = prop_get (merge_keys tv ps) k"
        using key valid by (simp add: own_keys_merge_keys del: set_map)
    qed
    with a show ?thesis by simp
  next
    case False
    then have "merge_val a (Obj ps) = Obj ps"
      using clone_wf(1) [OF Obj.prems] by (cases a) simp_all
    with merge_val_self [OF Obj.prems] show ?thesis by simp
  qed
qed simp_all

lemma merge_obj: "merge (Obj t) (Obj s) = Obj (merge_keys t s)"
  by simp

text \<open>The value at a path of own keys.\<close>

fun path_lookup :: "jsval \<Rightarrow> string list \<Rightarrow> jsval option" where
  "path_lookup v [] = Some v"
| "path_lookup (Obj ps) (k # path) =
     (case map_of ps k of None \<Rightarrow> None | Some v \<Rightarrow> path_lookup v path)"
| "path_lookup v (k # path) = None"

lemma path_lookup_prop_set:
  assumes "path_lookup (Obj t) (k # p) = Some v"
    and "k = key \<Longrightarrow> \<exists>old. map_of t key = Some old \<and> (path_lookup old p = Some v \<longrightarrow> path_lookup new p = Some v)"
  shows "path_lookup (Obj (prop_set key new t)) (k # p) = Some v"
  using assms by (auto split: option.splits)

lemma path_lookup_leaf:
  "path_lookup (Obj t) path = Some v \<Longrightarrow> \<not> isObject v \<Longrightarrow>
     \<exists>k p old. path = k # p \<and> map_of t k = Some old \<and> path_lookup old p = Some v"
  by (cases path) (auto split: option.splits)

lemma mergerIf_other:
  "\<not> (isObject sval \<and> isObject (prop_get t key)) \<Longrightarrow>
     mergerIf key t sval =
       (if isValidKey key \<and> key \<notin> set (own_keys t) then prop_set key (clone sval) t else t)"
  by (cases sval; cases "prop_get t key") simp_all

lemma mergerIf_other_keeps:
  assumes "path_lookup (Obj t) path = Some v" and "\<not> isObject v"
    and "\<not> (isObject sval \<and> isObject (prop_get t key))"
  shows "path_lookup (Obj (mergerIf key t sval)) path = Some v"
proof -
  from assms(1,2) obtain k p old
    where "path = k # p" "map_of t k = Some old" "path_lookup old p = Some v"
    by (blast dest: path_lookup_leaf)
  moreover from this have "k \<in> set (own_keys t)" by (force dest: map_of_SomeD)
  ultimately show ?thesis by (auto simp: mergerIf_other [OF assms(3)] simp del: set_map)
qed

lemma mergeIf_keeps:
  "path_lookup (Obj t) path = Some v \<Longrightarrow> \<not> isObject v \<Longrightarrow>
     path_lookup (Obj (mergerIf key t sval)) path = Some v"
  "path_lookup (Obj t) path = Some v \<Longrightarrow> \<not> isObject v \<Longrightarrow>
     path_lookup (Obj (mergeIf_keys t source)) path = Some v"
proof (induction key t sval and t source arbitrary: path and path
    rule: mergerIf_mergeIf_keys.induct)
  case (1 key t sv)
  show ?case
  proof (cases "isObject (prop_get t key) \<and> isValidKey key")
    case True
    then obtain tv where tv: "prop_get t key = Obj tv" and valid: "isValidKey key"
      by (auto simp: isObject_iff)
    then have old: "map_of t key = Some (Obj tv)"
      by (auto simp: prop_get_def split: option.splits)
    from 1 obtain k p where path: "path = k # p" by (blast dest: path_lookup_leaf)
    from 1 tv valid have "path_lookup (Obj tv) p = Some v \<longrightarrow> path_lookup (Obj (mergeIf_keys tv sv)) p = Some v"
      by simp
    with old have "path_lookup (Obj (prop_set key (Obj (mergeIf_keys tv sv)) t)) path = Some v"
      using 1 path path_lookup_prop_set [of t k p v key "Obj (mergeIf_keys tv sv)"] by auto
    with tv valid show ?thesis by simp
  next
    case False
    show ?thesis
    proof (cases "isValidKey key")
      case True
      with False 1 show ?thesis by (intro mergerIf_other_keeps) simp_all
    qed (use 1 in simp)
  qed
next
  case 3
  then show ?case by simp
next
  case (4 t key sval source)
  then show ?case by simp
qed (rule mergerIf_other_keeps; simp)+

lemma merge_sources_mergeIf_keeps:
  "path_lookup (Obj t) path = Some v \<Longrightarrow> \<not> isObject v \<Longrightarrow>
     path_lookup (Obj (merge_sources mergeIf_keys t sources)) path = Some v"
proof (induction sources arbitrary: t)
  case (Cons s sources)
  then show ?case by (cases s) (auto intro: mergeIf_keeps(2))
qed simp

lemma merge_source_wins:
  assumes "wf_val (Obj s)" and "path_lookup (Obj s) path = Some v" and "\<not> isObject v"
    and "\<forall>k \<in> set path. isValidKey k"
  shows "path_lookup (merge_val a (Obj s)) path = Some v"
  using assms
proof (induction path arbitrary: a s)
  case (Cons k p)
  from Cons.prems obtain sv where sv: "map_of s k = Some sv" "path_lookup sv p = Some v"
    by (auto split: option.splits)
  then have wf: "wf_val sv" and key: "k \<in> set (own_keys s)" and get: "prop_get s k = sv"
    using Cons.prems by (force dest: map_of_SomeD simp: prop_get_def)+
  have nested: "path_lookup (merge_val b sv) p = Some v" for b
  proof (cases "isObject sv")
    case True
    then obtain s' where "sv = Obj s'" by (auto simp: isObject_iff)
    then show ?thesis using Cons sv wf by simp
  next
    case False
    then have "merge_val b sv = sv" using wf by (cases b; cases sv) (simp_all add: clone_wf(1) del: clone.simps)
    with sv show ?thesis by simp
  qed
  show ?case
  proof (cases "isObject a")
    case True
    then obtain t where a: "a = Obj t" by (auto simp: isObject_iff)
    have "prop_get (merge_keys t s) k = merge_val (prop_get t k) sv"
      using Cons.prems key get by (simp add: merge_keys_get del: set_map)
    moreover have "k \<in> set (own_keys (merge_keys t s))"
      using Cons.prems key by (simp add: own_keys_merge_keys del: set_map)
    ultimately show ?thesis
      using a nested [of "prop_get t k"]
      by (auto simp: prop_get_def map_of_eq_None_iff split: option.splits)
  next
    case False
    then have "merge_val a (Obj s) = Obj s"
      using clone_wf(1) [OF Cons.prems(1)] by (cases a) simp_all
    with Cons.prems show ?thesis by simp
  qed
qed auto

section \<open>Dotted keys: lemmas\<close>

text \<open>The reference: split at the dots, follow the parts until one is empty.\<close>

fun split_dots :: "string \<Rightarrow> string list" where
  "split_dots [] = [[]]"
| "split_dots (c # cs) =
     (if c = CHR ''.'' then [] # split_dots cs
      else case split_dots cs of seg # segs \<Rightarrow> (c # seg) # segs | [] \<Rightarrow> [[c]])"

fun path_get :: "jsval \<Rightarrow> string list \<Rightarrow> jsval" where
  "path_get obj [] = obj"
| "path_get obj (seg # segs) = (if truthy obj then path_get (js_get obj seg) segs else obj)"

abbreviation not_dot :: "char \<Rightarrow> bool" where
  "not_dot c \<equiv> c \<noteq> CHR ''.''"

lemma split_dots_eq:
  "split_dots s = takeWhile not_dot s #
     (case dropWhile not_dot s of [] \<Rightarrow> [] | _ # r \<Rightarrow> split_dots r)"
  by (induction s) (auto split: list.splits)

lemma find_from:
  assumes "start \<le> length xs"
  shows "(case find (\<lambda>i. \<not> P (xs ! i)) [start..<length xs] of None \<Rightarrow> length xs | Some i \<Rightarrow> i)
    = start + length (takeWhile P (drop start xs))"
  using assms
proof (induction "length xs - start" arbitrary: start)
  case (Suc n)
  then have lt: "start < length xs" by simp
  then have "[start..<length xs] = start # [Suc start..<length xs]" by (rule upt_conv_Cons)
  moreover have "drop start xs = xs ! start # drop (Suc start) xs" using lt by (simp add: Cons_nth_drop_Suc)
  ultimately show ?case using Suc lt by auto
qed simp

lemma indexOfDot_eq:
  "pos \<le> length key \<Longrightarrow> indexOfDotOrLength key pos = pos + length (takeWhile not_dot (drop pos key))"
  using find_from [of pos key not_dot] by (simp add: indexOfDotOrLength_def)

lemma dropWhile_drop: "dropWhile P xs = drop (length (takeWhile P xs)) xs"
  by (induction xs) auto

lemma resolve_loop_eq:
  "resolve_loop key obj pos =
     path_get obj (if pos \<le> length key then takeWhile (\<lambda>s. s \<noteq> []) (split_dots (drop pos key)) else [])"
proof (induction key obj pos rule: resolve_loop.induct)
  case (1 key obj pos)
  show ?case
  proof (cases "pos \<le> length key")
    case False
    then have "\<not> pos < indexOfDotOrLength key pos" using indexOfDot_gt [of pos key] by linarith
    with False show ?thesis by (simp add: resolve_loop.simps [of key obj pos] Let_def)
  next
    case True
    let ?seg = "takeWhile not_dot (drop pos key)"
    let ?idx = "pos + length ?seg"
    have idx: "indexOfDotOrLength key pos = ?idx" using True by (rule indexOfDot_eq)
    have seg: "take (?idx - pos) (drop pos key) = ?seg"
      by (simp add: takeWhile_eq_take [symmetric])
    have rest: "(case dropWhile not_dot (drop pos key) of [] \<Rightarrow> [] | _ # r \<Rightarrow> split_dots r)
        = (if ?idx + 1 \<le> length key then split_dots (drop (?idx + 1) key) else [])"
    proof (cases "?idx < length key")
      case True
      then have "drop ?idx key = key ! ?idx # drop (Suc ?idx) key" by (simp add: Cons_nth_drop_Suc)
      then show ?thesis using True by (simp add: dropWhile_drop add.commute)
    qed (simp add: dropWhile_drop add.commute)
    show ?thesis
    proof (cases "truthy obj \<and> ?seg \<noteq> []")
      case run: True
      with idx have gt: "pos < indexOfDotOrLength key pos" by simp
      have "resolve_loop key obj pos = resolve_loop key (js_get obj ?seg) (?idx + 1)"
        using run idx seg by (simp add: resolve_loop.simps [of key obj pos] Let_def)
      also have "\<dots> = path_get (js_get obj ?seg)
          (if ?idx + 1 \<le> length key then takeWhile (\<lambda>s. s \<noteq> []) (split_dots (drop (?idx + 1) key)) else [])"
        using 1 run idx gt seg by simp
      also have "\<dots> = path_get obj (takeWhile (\<lambda>s. s \<noteq> []) (split_dots (drop pos key)))"
        using run by (subst split_dots_eq [of "drop pos key"]) (simp add: rest)
      finally show ?thesis using True by simp
    next
      case stop: False
      then have "resolve_loop key obj pos = obj"
        using idx by (auto simp: resolve_loop.simps [of key obj pos] Let_def)
      with stop True show ?thesis by (subst split_dots_eq [of "drop pos key"]) auto
    qed
  qed
qed

section \<open>Properties\<close>

text \<open>
  C33 (what a merge stores). Merging an object into another leaves, at every key of the
  source that is allowed, the recursive merge of two objects or a deep copy of the source's
  value; every other key of the target keeps its value, and the keys
  \<^verbatim>\<open>__proto__\<close>, \<^verbatim>\<open>prototype\<close> and \<^verbatim>\<open>constructor\<close> are never written.
\<close>

theorem merge_stores:
  assumes "distinct (own_keys source)"
  shows "\<exists>r. merge (Obj t) (Obj source) = Obj r \<and>
    (\<forall>key. prop_get r key =
       (if key \<in> set (own_keys source) \<and> isValidKey key
        then (case (prop_get t key, prop_get source key) of
                (Obj tv, Obj sv) \<Rightarrow> merge (Obj tv) (Obj sv)
              | (_, sval) \<Rightarrow> clone sval)
        else prop_get t key)) \<and>
    set (own_keys r) = set (own_keys t) \<union> {k \<in> set (own_keys source). isValidKey k}"
proof (intro exI conjI allI)
  show "merge (Obj t) (Obj source) = Obj (merge_keys t source)" by simp
next
  fix key
  have "merge_val a b = (case (a, b) of (Obj tv, Obj sv) \<Rightarrow> merge (Obj tv) (Obj sv) | (_, sval) \<Rightarrow> clone sval)" for a b
    by (cases a; cases b) simp_all
  then show "prop_get (merge_keys t source) key =
       (if key \<in> set (own_keys source) \<and> isValidKey key
        then (case (prop_get t key, prop_get source key) of
                (Obj tv, Obj sv) \<Rightarrow> merge (Obj tv) (Obj sv)
              | (_, sval) \<Rightarrow> clone sval)
        else prop_get t key)"
    using merge_keys_get [OF assms, of t key] by simp
qed (rule own_keys_merge_keys)

theorem merge_stores_witness:
  "\<exists>r. merge (Obj [(''a'', Num (Fin 1))]) (Obj [(''b'', Null), (''__proto__'', Null)]) = Obj r \<and>
    prop_get r ''b'' = Null \<and> set (own_keys r) = {''a'', ''b''}"
proof -
  have d: "distinct (own_keys [(''b'', Null), (''__proto__'', Null)])" by simp
  have "{k \<in> set (own_keys [(''b'', Null), (''__proto__'', Null)]). isValidKey k} = {''b''}"
    by (auto simp: isValidKey_def)
  moreover have "isValidKey ''b''" by (simp add: isValidKey_def)
  ultimately show ?thesis
    using merge_stores [OF d, of "[(''a'', Num (Fin 1))]"] by (auto simp: prop_get_def)
qed

text \<open>
  Merging twice is merging once. Merging the same well-formed source a second time
  changes nothing, at any depth and whatever the target is.
\<close>

theorem merge_idempotent:
  assumes "wf_val (Obj s)"
  shows "merge (merge target (Obj s)) (Obj s) = merge target (Obj s)"
proof (cases "isObject target")
  case True
  then obtain t where "target = Obj t" by (auto simp: isObject_iff)
  then show ?thesis using merge_val_idem [OF assms, of "Obj t"] by simp
next
  case False
  then show ?thesis by (cases target) simp_all
qed

theorem merge_idempotent_witness:
  "wf_val (Obj [(''a'', Obj [(''b'', Num (Fin 1))])]) \<and>
   merge (merge (Obj [(''a'', Obj [])]) (Obj [(''a'', Obj [(''b'', Num (Fin 1))])]))
     (Obj [(''a'', Obj [(''b'', Num (Fin 1))])])
   = merge (Obj [(''a'', Obj [])]) (Obj [(''a'', Obj [(''b'', Num (Fin 1))])])"
  by (rule conjI, simp) (rule merge_idempotent, simp)

text \<open>
  Who wins. After \<open>merge\<close> the source wins: every value that is not an object, at
  any path of allowed keys of a well-formed source object, is found at that path. After
  \<open>mergeIf\<close> the target wins: every value that is not an object and that the target had
  at some path is still there, whatever the sources are.
\<close>

theorem merge_priority:
  "(wf_val (Obj s) \<and> path_lookup (Obj s) path = Some v \<and> \<not> isObject v
      \<and> (\<forall>k \<in> set path. isValidKey k) \<longrightarrow>
      path_lookup (merge (Obj t) (Obj s)) path = Some v) \<and>
   (path_lookup (Obj t) path = Some v \<and> \<not> isObject v \<longrightarrow>
      path_lookup (mergeIf (Obj t) source) path = Some v)"
  using merge_source_wins [of s path v "Obj t"] merge_sources_mergeIf_keeps [of t path v]
  by auto

theorem merge_priority_witness:
  "path_lookup (merge (Obj [(''a'', Obj [(''b'', Null)])]) (Obj [(''a'', Obj [(''b'', Bool True)])])) [''a'', ''b''] = Some (Bool True)
   \<and> path_lookup (mergeIf (Obj [(''a'', Obj [(''b'', Bool True)])]) (Obj [(''a'', Null)])) [''a'', ''b''] = Some (Bool True)"
  using merge_priority [of "[(''a'', Obj [(''b'', Bool True)])]" "[''a'', ''b'']" "Bool True" "[(''a'', Obj [(''b'', Null)])]" Null]
    merge_priority [of "[]" "[''a'', ''b'']" "Bool True" "[(''a'', Obj [(''b'', Bool True)])]" "Obj [(''a'', Null)]"]
  by (simp add: isValidKey_def)

text \<open>
  Dotted keys. Resolving a dotted key, by the loop over positions of the source, is
  splitting the key at its dots and following the parts one property at a time up to the
  first empty part, stopping early at the first value that is false in a condition.
\<close>

theorem resolveObjectKey_split:
  "resolveObjectKey obj key = path_get obj (takeWhile (\<lambda>s. s \<noteq> []) (split_dots key))"
  by (simp add: resolveObjectKey_def resolve_loop_eq)

lemma sets_loop_iff: "sets_loop a b \<longleftrightarrow> set a \<subseteq> set b"
  by (induction a) auto

lemma setsEqual_iff: "distinct a \<Longrightarrow> distinct b \<Longrightarrow> setsEqual a b \<longleftrightarrow> set a = set b"
  by (auto simp: setsEqual_def sets_loop_iff distinct_card [symmetric]
      intro: card_subset_eq card_mono dest: card_subset_eq [OF finite_set])

lemma elements_loop_iff: "length a = length b \<Longrightarrow> elements_loop a b \<longleftrightarrow> a = b"
  by (induction a b rule: elements_loop.induct) auto

lemma elementsEqual_iff: "elementsEqual a b \<longleftrightarrow> a \<noteq> None \<and> a = b"
  by (cases a; cases b) (auto simp: elements_loop_iff)

end
