(* ===== verification/JS_Strings.thy ===== *)
theory JS_Strings
  imports Core_Helpers
begin

text \<open>
  The conversions between strings and numbers that the code relies on: \<open>+v\<close>,
  \<open>parseFloat\<close> and \<open>parseInt\<close>. Decimal text is read exactly.
\<close>

section \<open>Characters and decimal literals\<close>

definition is_digit :: "char \<Rightarrow> bool" where
  "is_digit c \<longleftrightarrow> digit_val c \<noteq> None"

definition is_space :: "char \<Rightarrow> bool" where
  "is_space c \<longleftrightarrow> of_char c \<in> {9, 10, 11, 12, 13, 32 :: nat}"

text \<open>
  Decimal literals: an optional sign, digits with at most one dot and at least one digit,
  an optional exponent; \<open>NaN\<close> otherwise.
\<close>

fun digits_value :: "string \<Rightarrow> nat" where
  "digits_value ds = foldl (\<lambda>acc c. 10 * acc + (case digit_val c of Some d \<Rightarrow> d | None \<Rightarrow> 0)) 0 ds"

fun split_sign :: "string \<Rightarrow> real \<times> string" where
  "split_sign (c # cs) =
     (if c = CHR ''-'' then (- 1, cs) else if c = CHR ''+'' then (1, cs) else (1, c # cs))"
| "split_sign [] = (1, [])"

definition parse_exponent :: "string \<Rightarrow> int option" where
  "parse_exponent s =
     (case s of
        [] \<Rightarrow> Some 0
      | c # cs \<Rightarrow>
          if c = CHR ''e'' \<or> c = CHR ''E'' then
            (let (sg, ds) = split_sign cs in
             if ds \<noteq> [] \<and> list_all is_digit ds
             then Some ((if sg < 0 then - 1 else 1) * int (digits_value ds)) else None)
          else None)"

definition to_number :: "string \<Rightarrow> jsnum" where
  "to_number str =
     (let (sg, rest) = split_sign str;
          ip = takeWhile is_digit rest;
          r1 = dropWhile is_digit rest;
          (fp, r2) = (case r1 of
                        c # cs \<Rightarrow> if c = CHR ''.'' then (takeWhile is_digit cs, dropWhile is_digit cs)
                                  else ([], r1)
                      | [] \<Rightarrow> ([], []))
      in if ip = [] \<and> fp = [] then NaN
         else case parse_exponent r2 of
                None \<Rightarrow> NaN
              | Some e \<Rightarrow>
                  Fin (sg * (real (digits_value ip) + real (digits_value fp) / 10 ^ length fp)
                       * 10 powi e))"

section \<open>Conversions\<close>

definition trim :: "string \<Rightarrow> string" where
  "trim s = rev (dropWhile is_space (rev (dropWhile is_space s)))"

definition radix_digit :: "char \<Rightarrow> nat option" where
  "radix_digit c =
     (let k = of_char c :: nat in
      if 48 \<le> k \<and> k \<le> 57 then Some (k - 48)
      else if 97 \<le> k \<and> k \<le> 122 then Some (k - 87)
      else if 65 \<le> k \<and> k \<le> 90 then Some (k - 55) else None)"

fun radix_value :: "nat \<Rightarrow> string \<Rightarrow> nat \<Rightarrow> nat option" where
  "radix_value r [] acc = Some acc"
| "radix_value r (c # cs) acc =
     (case radix_digit c of
        Some d \<Rightarrow> if d < r then radix_value r cs (acc * r + d) else None
      | None \<Rightarrow> None)"

definition radix_literal :: "nat \<Rightarrow> string \<Rightarrow> jsnum" where
  "radix_literal r ds =
     (if ds = [] then NaN
      else case radix_value r ds 0 of Some n \<Rightarrow> Fin (real n) | None \<Rightarrow> NaN)"

text \<open>The number a string converts to.\<close>

definition string_to_number :: "string \<Rightarrow> jsnum" where
  "string_to_number s =
     (let t = trim s; p = take 2 t; ds = drop 2 t in
      if t = [] then Fin 0
      else if t = ''Infinity'' \<or> t = ''+Infinity'' then PInf
      else if t = ''-Infinity'' then NInf
      else if p = ''0x'' \<or> p = ''0X'' then radix_literal 16 ds
      else if p = ''0o'' \<or> p = ''0O'' then radix_literal 8 ds
      else if p = ''0b'' \<or> p = ''0B'' then radix_literal 2 ds
      else to_number t)"

text \<open>
  The number a value converts to. An array converts through the string of its elements
  joined by commas, so an array of two or more elements is not a number.
\<close>

fun to_num :: "jsval \<Rightarrow> jsnum" where
  "to_num Undefined = NaN"
| "to_num Null = Fin 0"
| "to_num (Bool b) = Fin (if b then 1 else 0)"
| "to_num (Num x) = x"
| "to_num (Str s) = string_to_number s"
| "to_num (Arr []) = Fin 0"
| "to_num (Arr [Undefined]) = Fin 0"
| "to_num (Arr [Bool b]) = NaN"
| "to_num (Arr [v]) = to_num v"
| "to_num (Arr (v # w # vs)) = NaN"
| "to_num (Obj ps) = NaN"
| "to_num (Func f) = NaN"

text \<open>
  \<open>parseFloat\<close> reads the longest prefix that is a decimal literal or \<open>Infinity\<close>;
  \<open>parseInt\<close> with radix 10 reads an optional sign and the digits that follow.
\<close>

definition float_literal :: "string \<Rightarrow> jsnum" where
  "float_literal s =
     (if s = ''Infinity'' \<or> s = ''+Infinity'' then PInf
      else if s = ''-Infinity'' then NInf else to_number s)"

fun longest_prefix :: "nat \<Rightarrow> string \<Rightarrow> jsnum" where
  "longest_prefix 0 s = NaN"
| "longest_prefix (Suc n) s =
     (case float_literal (take (Suc n) s) of
        NaN \<Rightarrow> longest_prefix n s
      | x \<Rightarrow> x)"

definition parseFloat :: "string \<Rightarrow> jsnum" where
  "parseFloat s = (let t = dropWhile is_space s in longest_prefix (length t) t)"

definition parseInt10 :: "string \<Rightarrow> jsnum" where
  "parseInt10 s =
     (let (sg, rest) = split_sign (dropWhile is_space s); ds = takeWhile is_digit rest in
      if ds = [] then NaN else Fin (sg * real (digits_value ds)))"

text \<open>
  The string a value converts to. The text of a number or a function is a parameter,
  \<open>fmt\<close>.
\<close>

fun join_strings :: "string \<Rightarrow> string list \<Rightarrow> string" where
  "join_strings sep [] = []"
| "join_strings sep [s] = s"
| "join_strings sep (s # ss) = s @ sep @ join_strings sep ss"

fun to_str :: "(jsval \<Rightarrow> string) \<Rightarrow> jsval \<Rightarrow> string" where
  "to_str fmt Undefined = ''undefined''"
| "to_str fmt Null = ''null''"
| "to_str fmt (Bool b) = (if b then ''true'' else ''false'')"
| "to_str fmt (Num x) = fmt (Num x)"
| "to_str fmt (Str s) = s"
| "to_str fmt (Arr vs) =
     join_strings '','' (map (\<lambda>v. if isNullOrUndef v then [] else to_str fmt v) vs)"
| "to_str fmt (Obj ps) = ''[object Object]''"
| "to_str fmt (Func f) = fmt (Func f)"

lemma to_num_Num_finite: "isNumberFinite v \<Longrightarrow> is_finite (to_num v)"
  by (cases v) simp_all

end
