(* ===== verification/Options.thy ===== *)
theory Options
  imports JS_Strings "HOL-Library.Sublist"
begin

text \<open>
  Option values (\<^verbatim>\<open>chart.js\<close>): the tree of defaults with its dotted scopes
  (\<open>getScope$1\<close> to the class \<open>Defaults\<close>), dimensions, line heights, paddings,
  corners, fonts, the resolution of a list of inputs and the grace added to a range.

  The text of a number or function is the parameter \<open>fmt\<close>. Strict mode errors are the
  result \<open>None\<close>.
\<close>

section \<open>Scopes of the defaults\<close>

text \<open>
  \<open>getScope$1\<close> walks the keys and creates missing nodes, and its caller updates the node
  it returns. Both are one function here: \<open>at_scope\<close> applies \<open>f\<close> to the node and returns
  the updated root. Writing a property of a string or number raises a \<open>TypeError\<close>. Arrays
  and functions are leaves of the option trees; a path through one is \<open>None\<close> too.
\<close>

fun at_scope :: "string list \<Rightarrow> (jsval \<Rightarrow> jsval) \<Rightarrow> jsval \<Rightarrow> jsval option" where
  "at_scope [] f node = Some (f node)"
| "at_scope (k # ks) f (Obj ps) =
     (let child = (if truthy (prop_get ps k) then prop_get ps k else Obj [])
      in map_option (\<lambda>c. Obj (prop_set k c ps)) (at_scope ks f child))"
| "at_scope (k # ks) f node = None"

definition scope_keys :: "string \<Rightarrow> string list" where
  "scope_keys key = (if key = [] then [] else split_dots key)"

definition getScope :: "string \<Rightarrow> (jsval \<Rightarrow> jsval) \<Rightarrow> jsval \<Rightarrow> jsval option" where
  "getScope key = at_scope (scope_keys key)"

definition set_scope :: "jsval \<Rightarrow> jsval \<Rightarrow> jsval \<Rightarrow> jsval option" where
  "set_scope tree scope values =
     (case scope of
        Str key \<Rightarrow> getScope key (\<lambda>node. merge node values) tree
      | _ \<Rightarrow> getScope [] (\<lambda>node. merge node scope) tree)"

text \<open>The three trees that the instance \<open>defaults\<close> writes to.\<close>

record defaults_state =
  df_root :: jsval
  df_descriptors :: jsval
  df_overrides :: jsval

definition defaults_set :: "jsval \<Rightarrow> jsval \<Rightarrow> defaults_state \<Rightarrow> defaults_state option" where
  "defaults_set scope values st =
     map_option (\<lambda>r. st\<lparr>df_root := r\<rparr>) (set_scope (df_root st) scope values)"

definition defaults_describe :: "jsval \<Rightarrow> jsval \<Rightarrow> defaults_state \<Rightarrow> defaults_state option" where
  "defaults_describe scope values st =
     map_option (\<lambda>r. st\<lparr>df_descriptors := r\<rparr>) (set_scope (df_descriptors st) scope values)"

definition defaults_override :: "jsval \<Rightarrow> jsval \<Rightarrow> defaults_state \<Rightarrow> defaults_state option" where
  "defaults_override scope values st =
     map_option (\<lambda>r. st\<lparr>df_overrides := r\<rparr>) (set_scope (df_overrides st) scope values)"

text \<open>
  \<open>Defaults.get\<close>: the node at the scope; the state that it leaves has the missing nodes.
\<close>

fun scope_node :: "string list \<Rightarrow> jsval \<Rightarrow> jsval option" where
  "scope_node [] node = Some node"
| "scope_node (k # ks) (Obj ps) =
     scope_node ks (if truthy (prop_get ps k) then prop_get ps k else Obj [])"
| "scope_node (k # ks) node = None"

definition defaults_get :: "string \<Rightarrow> defaults_state \<Rightarrow> (jsval \<times> defaults_state) option" where
  "defaults_get scope st =
     (case (scope_node (scope_keys scope) (df_root st), getScope scope (\<lambda>n. n) (df_root st)) of
        (Some v, Some r) \<Rightarrow> Some (v, st\<lparr>df_root := r\<rparr>)
      | _ \<Rightarrow> None)"

text \<open>
  The constructor. The functions it stores are numbered; \<open>_descriptors\<close> is passed on to
  \<open>describe\<close>.
\<close>

definition num :: "real \<Rightarrow> jsval" where "num a = Num (Fin a)"

text \<open>The default font families, with \<open>^\<close> standing for the quote character.\<close>

definition helvetica :: string where
  "helvetica = map (\<lambda>c. if c = CHR ''^'' then CHR 0x27 else c)
     ''^Helvetica Neue^, ^Helvetica^, ^Arial^, sans-serif''"

definition new_defaults :: "props \<Rightarrow> defaults_state \<Rightarrow> defaults_state option" where
  "new_defaults descriptors_arg st =
     defaults_describe (Obj descriptors_arg) Undefined
       (st\<lparr>df_root := Obj
         [(''animation'', Undefined),
          (''backgroundColor'', Str ''rgba(0,0,0,0.1)''),
          (''borderColor'', Str ''rgba(0,0,0,0.1)''),
          (''color'', Str ''#666''),
          (''datasets'', Obj []),
          (''devicePixelRatio'', Func 0),
          (''elements'', Obj []),
          (''events'', Arr [Str ''mousemove'', Str ''mouseout'', Str ''click'', Str ''touchstart'',
                           Str ''touchmove'']),
          (''font'', Obj [(''family'', Str helvetica),
                        (''size'', num 12),
                        (''style'', Str ''normal''),
                        (''lineHeight'', num (12 / 10)),
                        (''weight'', Null)]),
          (''hover'', Obj []),
          (''hoverBackgroundColor'', Func 1),
          (''hoverBorderColor'', Func 2),
          (''hoverColor'', Func 3),
          (''indexAxis'', Str ''x''),
          (''interaction'', Obj [(''mode'', Str ''nearest''), (''intersect'', Bool True)]),
          (''maintainAspectRatio'', Bool True),
          (''onHover'', Null),
          (''onClick'', Null),
          (''parsing'', Bool True),
          (''plugins'', Obj []),
          (''responsive'', Bool True),
          (''scale'', Undefined),
          (''scales'', Obj []),
          (''showLine'', Bool True),
          (''drawActiveElementsOnTop'', Bool True)]\<rparr>)"

section \<open>Dimensions\<close>

definition ends_percent :: "string \<Rightarrow> bool" where
  "ends_percent s \<longleftrightarrow> s \<noteq> [] \<and> last s = CHR ''%''"

fun toPercentage :: "jsval \<Rightarrow> jsnum \<Rightarrow> jsnum" where
  "toPercentage (Str s) dimension =
     (if ends_percent s then parseFloat s / Fin 100 else string_to_number s / dimension)"
| "toPercentage v dimension = to_num v / dimension"

fun toDimension :: "jsval \<Rightarrow> jsnum \<Rightarrow> jsnum" where
  "toDimension (Str s) dimension =
     (if ends_percent s then parseFloat s / Fin 100 * dimension else string_to_number s)"
| "toDimension v dimension = to_num v"

section \<open>Line height\<close>

text \<open>
  The regular expression \<open>LINE_HEIGHT\<close>: \<open>Some None\<close> for \<open>normal\<close>, otherwise the digits
  and the unit.
\<close>

definition unit_suffix :: "string \<Rightarrow> bool" where
  "unit_suffix s \<longleftrightarrow> s \<in> set [[], ''px'', ''em'', ''%'']"

definition LINE_HEIGHT :: "string \<Rightarrow> (string \<times> string) option option" where
  "LINE_HEIGHT s =
     (if s = ''normal'' then Some None
      else
        let ip = takeWhile is_digit s; r1 = dropWhile is_digit s
        in if ip = [] then None
           else if unit_suffix r1 then Some (Some (ip, r1))
           else case r1 of
                  c # cs \<Rightarrow>
                    (let fp = takeWhile is_digit cs; r2 = dropWhile is_digit cs
                     in if c = CHR ''.'' \<and> fp \<noteq> [] \<and> unit_suffix r2
                        then Some (Some (ip @ [c] @ fp, r2)) else None)
                | [] \<Rightarrow> None)"

definition toLineHeight :: "(jsval \<Rightarrow> string) \<Rightarrow> jsval \<Rightarrow> jsnum \<Rightarrow> jsnum" where
  "toLineHeight fmt value fsize =
     (case LINE_HEIGHT (to_str fmt value) of
        Some (Some (digits, unit)) \<Rightarrow>
          (let v = string_to_number digits in
           if unit = ''px'' then v
           else if unit = ''%'' then fsize * (v / Fin 100)
           else fsize * v)
      | _ \<Rightarrow> fsize * Fin (12 / 10))"

section \<open>Padding and corners\<close>

definition numberOrZero :: "jsval \<Rightarrow> jsnum" where
  "numberOrZero v = (if truthy (Num (to_num v)) then to_num v else Fin 0)"

text \<open>
  \<open>_readValueToProps\<close> with a list of names, and with an object of names and shorthands.
\<close>

definition readValueToProps :: "jsval \<Rightarrow> string list \<Rightarrow> (string \<times> jsnum) list" where
  "readValueToProps value prps =
     map (\<lambda>p. (p, numberOrZero (if isObject value then js_get value p else value))) prps"

definition readValueToPropsObj :: "jsval \<Rightarrow> (string \<times> string) list \<Rightarrow> (string \<times> jsnum) list" where
  "readValueToPropsObj value prps =
     map (\<lambda>(p, short). (p, numberOrZero
            (if isObject value then valueOrDefault (js_get value p) (js_get value short)
             else value))) prps"

definition toTRBL :: "jsval \<Rightarrow> (string \<times> jsnum) list" where
  "toTRBL value =
     readValueToPropsObj value
       [(''top'', ''y''), (''right'', ''x''), (''bottom'', ''y''), (''left'', ''x'')]"

definition toTRBLCorners :: "jsval \<Rightarrow> (string \<times> jsnum) list" where
  "toTRBLCorners value =
     readValueToProps value [''topLeft'', ''topRight'', ''bottomLeft'', ''bottomRight'']"

record trbl =
  p_top :: jsnum
  p_right :: jsnum
  p_bottom :: jsnum
  p_left :: jsnum
  p_width :: jsnum
  p_height :: jsnum

definition side :: "(string \<times> jsnum) list \<Rightarrow> string \<Rightarrow> jsnum" where
  "side sides k = (case map_of sides k of Some x \<Rightarrow> x | None \<Rightarrow> NaN)"

definition toPadding :: "jsval \<Rightarrow> trbl" where
  "toPadding value =
     (let obj = toTRBL value in
      \<lparr>p_top = side obj ''top'', p_right = side obj ''right'',
       p_bottom = side obj ''bottom'', p_left = side obj ''left'',
       p_width = side obj ''left'' + side obj ''right'',
       p_height = side obj ''top'' + side obj ''bottom''\<rparr>)"

section \<open>Fonts\<close>

text \<open>The regular expression \<open>FONT_STYLE\<close>.\<close>

definition oblique_angle :: "string \<Rightarrow> bool" where
  "oblique_angle s =
     (case s of
        c # cs \<Rightarrow>
          c = CHR '' '' \<and>
          (let r = (case cs of d # ds \<Rightarrow> if d = CHR ''-'' then ds else cs | [] \<Rightarrow> []);
               ds = takeWhile is_digit r
           in length ds \<in> {1, 2} \<and> dropWhile is_digit r = ''deg'')
      | [] \<Rightarrow> True)"

definition FONT_STYLE :: "string \<Rightarrow> bool" where
  "FONT_STYLE s \<longleftrightarrow>
     s \<in> set [''normal'', ''italic'', ''initial'', ''inherit'', ''unset''] \<or>
     (take 7 s = ''oblique'' \<and> oblique_angle (drop 7 s))"

definition toFontString :: "(jsval \<Rightarrow> string) \<Rightarrow> jsval \<Rightarrow> string option" where
  "toFontString fmt font =
     (if \<not> truthy font \<or> isNullOrUndef (js_get font ''size'') \<or> isNullOrUndef (js_get font ''family'')
      then None
      else Some
        ((if truthy (js_get font ''style'') then to_str fmt (js_get font ''style'') @ '' '' else []) @
         (if truthy (js_get font ''weight'') then to_str fmt (js_get font ''weight'') @ '' '' else []) @
         to_str fmt (js_get font ''size'') @ ''px '' @ to_str fmt (js_get font ''family'')))"

definition font_size :: "jsval \<Rightarrow> jsval" where
  "font_size v = (case v of Str s \<Rightarrow> Num (parseInt10 s) | _ \<Rightarrow> v)"

definition font_style :: "(jsval \<Rightarrow> string) \<Rightarrow> jsval \<Rightarrow> jsval" where
  "font_style fmt style =
     (if truthy style \<and> \<not> FONT_STYLE (to_str fmt style) then Str [] else style)"

definition toFont :: "(jsval \<Rightarrow> string) \<Rightarrow> jsval \<Rightarrow> jsval \<Rightarrow> jsval \<Rightarrow> props" where
  "toFont fmt defaults_font options0 fallback0 =
     (let options = (if truthy options0 then options0 else Obj []);
          fallback = (if truthy fallback0 then fallback0 else defaults_font);
          opt = (\<lambda>k. valueOrDefault (js_get options k) (js_get fallback k));
          fsize = font_size (opt ''size'');
          style = font_style fmt (opt ''style'');
          font = [(''family'', opt ''family''),
                  (''lineHeight'', Num (toLineHeight fmt (opt ''lineHeight'') (to_num fsize))),
                  (''size'', fsize),
                  (''style'', style),
                  (''weight'', opt ''weight''),
                  (''string'', Str [])]
      in prop_set ''string''
           (case toFontString fmt (Obj font) of Some s \<Rightarrow> Str s | None \<Rightarrow> Null) font)"

section \<open>Resolution of a list of inputs\<close>

text \<open>
  The result is the value and whether it may be cached. \<open>call\<close> runs a function option on
  the context, when there is one. An empty array is indexed with \<open>NaN\<close>.
\<close>

definition index_value :: "nat option \<Rightarrow> jsval \<Rightarrow> jsval" where
  "index_value index v =
     (case (index, v) of
        (Some i, Arr xs) \<Rightarrow> if xs = [] then Undefined else xs ! (i mod length xs)
      | _ \<Rightarrow> v)"

definition call_value :: "(nat \<Rightarrow> jsval) option \<Rightarrow> jsval \<Rightarrow> jsval" where
  "call_value call v = (case (call, v) of (Some c, Func f) \<Rightarrow> c f | _ \<Rightarrow> v)"

fun resolve_inputs ::
  "(nat \<Rightarrow> jsval) option \<Rightarrow> nat option \<Rightarrow> jsval list \<Rightarrow> bool \<Rightarrow> jsval \<times> bool" where
  "resolve_inputs call index [] cacheable = (Undefined, True)"
| "resolve_inputs call index (v # vs) cacheable =
     (if v = Undefined then resolve_inputs call index vs cacheable
      else
        let v1 = call_value call v;
            c1 = (cacheable \<and> \<not> (call \<noteq> None \<and> isFunction v));
            v2 = index_value index v1;
            c2 = (c1 \<and> \<not> (index \<noteq> None \<and> isArray v1))
        in if v2 \<noteq> Undefined then (v2, c2) else resolve_inputs call index vs c2)"

definition resolve :: "jsval list \<Rightarrow> (nat \<Rightarrow> jsval) option \<Rightarrow> nat option \<Rightarrow> bool \<Rightarrow> jsval \<times> bool" where
  "resolve inputs call index info_cacheable =
     (let (v, c) = resolve_inputs call index inputs True in (v, info_cacheable \<and> c))"

section \<open>Grace\<close>

definition keepZero :: "bool \<Rightarrow> jsnum \<Rightarrow> jsnum \<Rightarrow> jsnum" where
  "keepZero beginAtZero value add = (if beginAtZero \<and> value = Fin 0 then Fin 0 else value + add)"

definition addGrace :: "jsnum \<Rightarrow> jsnum \<Rightarrow> jsval \<Rightarrow> bool \<Rightarrow> jsnum \<times> jsnum" where
  "addGrace mn mx grace beginAtZero =
     (let change = toDimension grace ((mx - mn) / Fin 2) in
      (keepZero beginAtZero mn (- math_abs change), keepZero beginAtZero mx change))"

section \<open>Scopes: lemmas\<close>

lemma merge_truthy: "truthy v \<Longrightarrow> truthy (merge v w)"
  by (cases v) simp_all

lemma at_scope_truthy:
  assumes "\<And>n. truthy n \<Longrightarrow> truthy (f n)"
  shows "at_scope ks f node = Some r \<Longrightarrow> truthy node \<Longrightarrow> truthy r"
proof (induction ks arbitrary: node r)
  case Nil
  with assms show ?case by auto
next
  case (Cons k ks)
  then show ?case by (cases node) auto
qed

lemma at_scope_node:
  assumes "\<And>n. truthy n \<Longrightarrow> truthy (f n)"
  shows "at_scope ks f node = Some r \<Longrightarrow>
     \<exists>n. scope_node ks node = Some n \<and> scope_node ks r = Some (f n)"
proof (induction ks arbitrary: node r)
  case (Cons k ks)
  then obtain ps where node: "node = Obj ps" by (cases node) simp_all
  define child where "child = (if truthy (prop_get ps k) then prop_get ps k else Obj [])"
  have "truthy child" by (simp add: child_def)
  from Cons.prems node obtain c where c: "at_scope ks f child = Some c" and r: "r = Obj (prop_set k c ps)"
    by (auto simp: child_def Let_def)
  from c \<open>truthy child\<close> assms have "truthy c" by (blast intro: at_scope_truthy)
  with Cons.IH [OF c] node r show ?case by (auto simp: child_def)
qed simp

lemma at_scope_other:
  "at_scope ks f node = Some r \<Longrightarrow> \<not> prefix ks js \<Longrightarrow> \<not> prefix js ks \<Longrightarrow>
     (\<And>n. truthy n \<Longrightarrow> truthy (f n)) \<Longrightarrow> scope_node js r = scope_node js node"
proof (induction ks arbitrary: node r js)
  case (Cons k ks)
  then obtain ps where node: "node = Obj ps" by (cases node) simp_all
  define child where "child = (if truthy (prop_get ps k) then prop_get ps k else Obj [])"
  have "truthy child" by (simp add: child_def)
  from Cons.prems(1) node obtain c where c: "at_scope ks f child = Some c" and r: "r = Obj (prop_set k c ps)"
    by (auto simp: child_def Let_def)
  from c \<open>truthy child\<close> Cons.prems(4) have tc: "truthy c" by (blast intro: at_scope_truthy)
  from Cons.prems(3) obtain j js' where js: "js = j # js'" by (cases js) auto
  show ?case
  proof (cases "j = k")
    case True
    with Cons.prems js have "\<not> prefix ks js'" and "\<not> prefix js' ks" by auto
    then have "scope_node js' c = scope_node js' child"
      using Cons.IH [OF c _ _ Cons.prems(4)] by blast
    with node r js True tc show ?thesis by (simp add: child_def)
  next
    case False
    with node r js show ?thesis by simp
  qed
qed simp

text \<open>
  A scope that was set reads back. After \<open>defaults.set\<close> at a dotted scope, reading that scope
  gives the node it had, merged with the values, and every scope that is neither above nor
  below it reads what it read before.
\<close>

theorem defaults_set_get:
  assumes "defaults_set (Str key) values st = Some st'"
    and "\<not> prefix (scope_keys key) (scope_keys other)"
    and "\<not> prefix (scope_keys other) (scope_keys key)"
  shows "(\<exists>n. scope_node (scope_keys key) (df_root st) = Some n \<and>
              scope_node (scope_keys key) (df_root st') = Some (merge n values)) \<and>
         scope_node (scope_keys other) (df_root st') = scope_node (scope_keys other) (df_root st)"
proof -
  from assms(1) obtain r where r: "at_scope (scope_keys key) (\<lambda>n. merge n values) (df_root st) = Some r"
    and st': "st' = st\<lparr>df_root := r\<rparr>"
    by (auto simp: defaults_set_def set_scope_def getScope_def)
  from at_scope_node [OF _ r] merge_truthy at_scope_other [OF r assms(2,3)] st'
  show ?thesis by auto
qed

theorem defaults_set_get_witness:
  "let st = \<lparr>df_root = Obj [(''font'', Obj [(''size'', num 12)])], df_descriptors = Obj [],
             df_overrides = Obj []\<rparr>;
       st' = st\<lparr>df_root := Obj [(''font'', Obj [(''size'', num 12)]),
                              (''layout'', Obj [(''padding'', Obj [(''top'', num 3)])])]\<rparr>
   in defaults_set (Str ''layout.padding'') (Obj [(''top'', num 3)]) st = Some st' \<and>
      scope_node [''font''] (df_root st') = scope_node [''font''] (df_root st)"
proof -
  define st where "st = \<lparr>df_root = Obj [(''font'', Obj [(''size'', num 12)])], df_descriptors = Obj [],
             df_overrides = Obj []\<rparr>"
  define st' where "st' = st\<lparr>df_root := Obj [(''font'', Obj [(''size'', num 12)]),
                              (''layout'', Obj [(''padding'', Obj [(''top'', num 3)])])]\<rparr>"
  have keys: "scope_keys ''layout.padding'' = [''layout'', ''padding'']" "scope_keys ''font'' = [''font'']"
    by (simp_all add: scope_keys_def)
  have set: "defaults_set (Str ''layout.padding'') (Obj [(''top'', num 3)]) st = Some st'"
    by (simp add: defaults_set_def set_scope_def getScope_def keys st_def st'_def prop_get_def isValidKey_def
        num_def)
  have "scope_node [''font''] (df_root st') = scope_node [''font''] (df_root st)"
    using defaults_set_get [OF set, of "''font''"] by (simp add: keys)
  with set show ?thesis by (simp add: st_def st'_def Let_def)
qed

section \<open>Resolution: lemmas\<close>

definition resolved :: "(nat \<Rightarrow> jsval) option \<Rightarrow> nat option \<Rightarrow> jsval \<Rightarrow> jsval" where
  "resolved call index v = index_value index (call_value call v)"

definition depends :: "(nat \<Rightarrow> jsval) option \<Rightarrow> nat option \<Rightarrow> jsval \<Rightarrow> bool" where
  "depends call index v \<longleftrightarrow>
     (call \<noteq> None \<and> isFunction v) \<or> (index \<noteq> None \<and> isArray (call_value call v))"

lemma resolved_Undefined [simp]: "resolved call index Undefined = Undefined"
  by (cases call; cases index) (simp_all add: resolved_def call_value_def index_value_def)

lemma depends_Undefined [simp]: "\<not> depends call index Undefined"
  by (cases call) (simp_all add: depends_def call_value_def)

lemma resolve_inputs_step:
  "resolve_inputs call index (v # vs) c =
     (if resolved call index v \<noteq> Undefined then (resolved call index v, c \<and> \<not> depends call index v)
      else resolve_inputs call index vs (c \<and> \<not> depends call index v))"
proof (cases "v = Undefined")
  case False
  then show ?thesis by (auto simp: resolved_def depends_def Let_def)
qed simp

lemma resolve_inputs_skip:
  "\<forall>p \<in> set pre. resolved call index p = Undefined \<Longrightarrow>
     resolve_inputs call index (pre @ vs) c =
       resolve_inputs call index vs (c \<and> list_all (\<lambda>p. \<not> depends call index p) pre)"
  by (induction pre arbitrary: c) (simp_all add: resolve_inputs_step conj_assoc del: resolve_inputs.simps(2))

text \<open>
  The first defined input wins. \<open>resolve\<close> returns the first input that is defined once a
  function was called and an array indexed, and marks the result as not cacheable exactly
  when that input or one tried before it was called or indexed.
\<close>

theorem resolve_first:
  assumes "\<forall>p \<in> set pre. resolved call index p = Undefined"
    and "resolved call index v \<noteq> Undefined"
  shows "resolve (pre @ v # post) call index info =
     (resolved call index v, info \<and> list_all (\<lambda>p. \<not> depends call index p) (pre @ [v]))"
  using assms by (simp add: resolve_def resolve_inputs_skip resolve_inputs_step del: resolve_inputs.simps(2))

theorem resolve_first_witness:
  "resolve ([Undefined, Func 7] @ Arr [num 1, num 2, num 3] # [Null]) (Some (\<lambda>f. Undefined)) (Some 4) True
     = (num 2, False)"
  using resolve_first [of "[Undefined, Func 7]" "Some (\<lambda>f. Undefined)" "Some 4" "Arr [num 1, num 2, num 3]"
      "[Null]" True]
  by (simp add: resolved_def call_value_def index_value_def num_def depends_def)

section \<open>Dimensions, fonts and grace: lemmas\<close>

lemma numberOrZero_not_NaN: "numberOrZero v \<noteq> NaN"
  by (simp add: numberOrZero_def)

lemma js_get_font_cases:
  "map_of (prop_set ''string'' v font) k = (if k = ''string'' then Some v else map_of font k)"
  by simp

lemma toFont_style:
  "prop_get (toFont fmt d opts fb) ''style'' =
     font_style fmt (valueOrDefault (js_get (if truthy opts then opts else Obj []) ''style'')
                       (js_get (if truthy fb then fb else d) ''style''))"
  by (simp add: toFont_def Let_def prop_get_def)

text \<open>
  Fonts are well formed. Whatever the options, the style of the font that \<open>toFont\<close> returns is empty or
  one that \<open>FONT_STYLE\<close> accepts, its size is not a string, and its \<open>string\<close> is the CSS
  text of its own fields.
\<close>

theorem toFont_wf:
  "(\<not> truthy (prop_get (toFont fmt d opts fb) ''style'') \<or>
      FONT_STYLE (to_str fmt (prop_get (toFont fmt d opts fb) ''style''))) \<and>
   (\<nexists>s. prop_get (toFont fmt d opts fb) ''size'' = Str s) \<and>
   prop_get (toFont fmt d opts fb) ''string'' =
     (case toFontString fmt (Obj (toFont fmt d opts fb)) of Some s \<Rightarrow> Str s | None \<Rightarrow> Null)"
proof (intro conjI)
  show "\<not> truthy (prop_get (toFont fmt d opts fb) ''style'') \<or>
      FONT_STYLE (to_str fmt (prop_get (toFont fmt d opts fb) ''style''))"
    unfolding toFont_style font_style_def by simp
  show "\<nexists>s. prop_get (toFont fmt d opts fb) ''size'' = Str s"
    by (simp add: toFont_def Let_def prop_get_def font_size_def split: jsval.split)
  show "prop_get (toFont fmt d opts fb) ''string'' =
     (case toFontString fmt (Obj (toFont fmt d opts fb)) of Some s \<Rightarrow> Str s | None \<Rightarrow> Null)"
    by (simp add: toFont_def Let_def prop_get_def toFontString_def)
qed

text \<open>
  Paddings. The sides of a padding are numbers, a number gives the same side four
  times, and an object gives each side from its name or, without it, from the shorthand
  \<open>x\<close> or \<open>y\<close>; the totals are the sums of the sides.
\<close>

theorem toPadding_sides:
  "list_all (\<lambda>x. x \<noteq> NaN) (map (\<lambda>f. f (toPadding v)) [p_top, p_right, p_bottom, p_left]) \<and>
   p_width (toPadding v) = p_left (toPadding v) + p_right (toPadding v) \<and>
   p_height (toPadding v) = p_top (toPadding v) + p_bottom (toPadding v) \<and>
   map (\<lambda>f. f (toPadding (Num (Fin a)))) [p_top, p_right, p_bottom, p_left] = replicate 4 (Fin a) \<and>
   p_top (toPadding (Obj ps)) = numberOrZero (valueOrDefault (prop_get ps ''top'') (prop_get ps ''y'')) \<and>
   p_left (toPadding (Obj ps)) = numberOrZero (valueOrDefault (prop_get ps ''left'') (prop_get ps ''x''))"
  by (simp add: toPadding_def toTRBL_def readValueToPropsObj_def side_def Let_def numberOrZero_not_NaN
      numberOrZero_def numeral_eq_Suc)

text \<open>
  Grace widens a range. Grace never raises the minimum; grace that is not negative never lowers the
  maximum, a bound at zero stays there with \<open>beginAtZero\<close>, and grace in percent widens
  each side by that share of half the range.
\<close>

theorem addGrace_widens:
  assumes "toDimension grace (Fin ((b - a) / 2)) = Fin g" and "0 \<le> g"
  shows "\<exists>a' b'. addGrace (Fin a) (Fin b) grace z = (Fin a', Fin b') \<and> a' \<le> a \<and> b \<le> b' \<and>
     (z \<and> a = 0 \<longrightarrow> a' = 0) \<and> (z \<and> b = 0 \<longrightarrow> b' = 0) \<and> (\<not> z \<longrightarrow> b' - a' = (b - a) + 2 * g)"
  using assms by (cases "z \<and> a = 0"; cases "z \<and> b = 0") (auto simp: addGrace_def keepZero_def Let_def)

theorem addGrace_widens_witness:
  "(\<exists>a' b'. addGrace (Fin 0) (Fin 40) (num 5) True = (Fin a', Fin b') \<and> a' \<le> 0 \<and> 40 \<le> b')"
  using addGrace_widens [of "num 5" 40 0 5 True] by (auto simp: num_def)

lemma takeWhile_digits:
  assumes "list_all is_digit ds" and "u = [] \<or> \<not> is_digit (hd u)"
  shows "takeWhile is_digit (ds @ u) = ds" and "dropWhile is_digit (ds @ u) = u"
  using assms by (auto simp: list_all_iff takeWhile_append2 dropWhile_append2 takeWhile_eq_Nil_iff
      dropWhile_eq_self_iff)

lemma digits_not_normal:
  assumes "list_all is_digit ds" and "ds \<noteq> []"
  shows "ds @ u \<noteq> ''normal''"
proof
  assume eq: "ds @ u = ''normal''"
  with assms obtain c cs where "ds = c # cs" "is_digit c" by (cases ds) auto
  with eq show False by (simp add: is_digit_def digit_val_def)
qed

lemma unit_suffix_hd: "unit_suffix u \<Longrightarrow> u = [] \<or> \<not> is_digit (hd u)"
  by (auto simp: unit_suffix_def is_digit_def digit_val_def)

lemma LINE_HEIGHT_digits:
  assumes "list_all is_digit ds" and "ds \<noteq> []" and "unit_suffix u"
  shows "LINE_HEIGHT (ds @ u) = Some (Some (ds, u))"
  using assms takeWhile_digits [OF assms(1) unit_suffix_hd [OF assms(3)]] digits_not_normal [OF assms(1,2)]
  by (simp add: LINE_HEIGHT_def)

text \<open>
  Line heights. A text of digits with the unit \<open>px\<close> is an absolute height; with \<open>em\<close>, or
  no unit, it multiplies the font size, with \<open>%\<close> it is hundredths of the font size; a text
  the expression does not match gives 1.2 times the size.
\<close>

theorem toLineHeight_units:
  assumes "list_all is_digit ds" and "ds \<noteq> []" and "string_to_number ds = Fin n"
  shows "toLineHeight fmt (Str (ds @ ''px'')) (Fin s) = Fin n \<and>
         toLineHeight fmt (Str (ds @ ''em'')) (Fin s) = Fin (s * n) \<and>
         toLineHeight fmt (Str ds) (Fin s) = Fin (s * n) \<and>
         toLineHeight fmt (Str (ds @ ''%'')) (Fin s) = Fin (s * (n / 100)) \<and>
         toLineHeight fmt (Str ''normal'') (Fin s) = Fin (s * (12 / 10))"
proof -
  note lh = LINE_HEIGHT_digits [OF assms(1,2)]
  have "unit_suffix ''px''" "unit_suffix ''em''" "unit_suffix ''%''" "unit_suffix []"
    by (simp_all add: unit_suffix_def)
  note lh4 = this [THEN lh]
  from lh4 have "LINE_HEIGHT ds = Some (Some (ds, []))" by simp
  with lh4 assms(3) show ?thesis by (simp add: toLineHeight_def Let_def LINE_HEIGHT_def [of "''normal''"])
qed

lemma string_150: "string_to_number ''150'' = Fin 150"
  by (simp add: string_to_number_def trim_def is_space_def to_number_def is_digit_def digit_val_def
      parse_exponent_def Let_def)

theorem toLineHeight_units_witness:
  "toLineHeight (\<lambda>_. []) (Str ''150%'') (Fin 12) = Fin 18"
  using toLineHeight_units [of "''150''" 150 "\<lambda>_. []" 12] string_150
  by (simp add: is_digit_def digit_val_def)

end
