(* ===== verification/Scale.thy ===== *)
theory Scale
  imports Layout Canvas Ticks Options
begin

text \<open>
  The base class of the axes (\<^verbatim>\<open>chart.js\<close>, class \<open>Scale\<close>): bounds given by the
  user and by the data, dimensions, tick labels and their sizes, label rotation, fitting into
  the layout, conversion between values, decimals and pixels, and the geometry of grid lines and
  labels.

  Bounds are JavaScript numbers, since missing bounds are infinities. Positions and the four
  sides are those of \<open>Layout\<close>, labels and the cache of text widths those of
  \<open>Canvas\<close>. Hooks and callbacks of the options are not represented, except the callback
  that makes the label of a tick. A quotient by zero in \<open>_calculatePadding\<close> and
  \<open>_tickSize\<close> is taken to be 0.
\<close>

section \<open>Bounds\<close>

definition fin_or :: "jsval \<Rightarrow> jsnum \<Rightarrow> jsnum" where
  "fin_or v d = (case v of Num x \<Rightarrow> if is_finite x then x else d | _ \<Rightarrow> d)"

definition num_or :: "jsnum \<Rightarrow> jsnum \<Rightarrow> jsnum" where
  "num_or x d = (if is_finite x then x else d)"

record user_bounds =
  ub_min :: jsnum
  ub_max :: jsnum
  ub_minDefined :: bool
  ub_maxDefined :: bool

definition getUserBounds :: "jsval \<Rightarrow> jsval \<Rightarrow> jsval \<Rightarrow> jsval \<Rightarrow> user_bounds" where
  "getUserBounds userMin userMax suggestedMin suggestedMax =
     (let umin = fin_or userMin PInf; umax = fin_or userMax NInf;
          smin = fin_or suggestedMin PInf; smax = fin_or suggestedMax NInf
      in \<lparr>ub_min = num_or umin smin, ub_max = num_or umax smax,
          ub_minDefined = is_finite umin, ub_maxDefined = is_finite umax\<rparr>)"

fun merge_ranges :: "bool \<Rightarrow> bool \<Rightarrow> (jsnum \<times> jsnum) list \<Rightarrow> jsnum \<times> jsnum \<Rightarrow> jsnum \<times> jsnum" where
  "merge_ranges minDefined maxDefined [] mm = mm"
| "merge_ranges minDefined maxDefined (r # rs) mm =
     merge_ranges minDefined maxDefined rs
       (if \<not> minDefined then math_min (fst mm) (fst r) else fst mm,
        if \<not> maxDefined then math_max (snd mm) (snd r) else snd mm)"

text \<open>The ranges are those that the controllers of the visible datasets return.\<close>

definition getMinMax :: "user_bounds \<Rightarrow> (jsnum \<times> jsnum) list \<Rightarrow> jsnum \<times> jsnum" where
  "getMinMax ub ranges =
     (if ub_minDefined ub \<and> ub_maxDefined ub then (ub_min ub, ub_max ub)
      else
        let (mn0, mx0) = merge_ranges (ub_minDefined ub) (ub_maxDefined ub) ranges (ub_min ub, ub_max ub);
            mn = (if ub_maxDefined ub \<and> mx0 < mn0 then mx0 else mn0);
            mx = (if ub_minDefined ub \<and> mx0 < mn then mn else mx0)
        in (num_or mn (num_or mx mn), num_or mx (num_or mn mx)))"

section \<open>State\<close>

record slabel =
  sk_value :: real
  sk_label :: label

record scale =
  sl_axis :: axis
  sl_pos :: bpos
  sl_reverse :: bool
  sl_alignToPixels :: bool
  sl_left :: real
  sl_top :: real
  sl_right :: real
  sl_bottom :: real
  sl_width :: real
  sl_height :: real
  sl_maxWidth :: real
  sl_maxHeight :: real
  sl_margins :: sides
  sl_paddings :: sides
  sl_startPixel :: real
  sl_endPixel :: real
  sl_length :: real
  sl_maxLength :: real
  sl_reversePixels :: bool
  sl_rotation :: real
  sl_ticks :: "slabel list"

definition isHorizontal :: "scale \<Rightarrow> bool" where
  "isHorizontal s \<longleftrightarrow> sl_pos s = Static STop \<or> sl_pos s = Static SBottom \<or> sl_axis s = AxisX"

definition getPadding :: "scale \<Rightarrow> sides" where
  "getPadding s = sl_paddings s"

definition scale_configure :: "scale \<Rightarrow> scale" where
  "scale_configure s =
     (let (startPixel, endPixel, reversePixels) =
        (if isHorizontal s then (sl_left s, sl_right s, sl_reverse s)
         else (sl_top s, sl_bottom s, \<not> sl_reverse s))
      in s\<lparr>sl_startPixel := startPixel, sl_endPixel := endPixel, sl_reversePixels := reversePixels,
           sl_length := endPixel - startPixel\<rparr>)"

definition setDimensions :: "scale \<Rightarrow> scale" where
  "setDimensions s =
     (if isHorizontal s
      then s\<lparr>sl_width := sl_maxWidth s, sl_left := 0, sl_right := sl_maxWidth s, sl_paddings := (\<lambda>_. 0)\<rparr>
      else s\<lparr>sl_height := sl_maxHeight s, sl_top := 0, sl_bottom := sl_maxHeight s,
             sl_paddings := (\<lambda>_. 0)\<rparr>)"

text \<open>The start of \<open>update\<close>: the space offered by the layout.\<close>

definition begin_update :: "real \<Rightarrow> real \<Rightarrow> sides \<Rightarrow> scale \<Rightarrow> scale" where
  "begin_update maxWidth maxHeight margins s =
     (let s1 = setDimensions (s\<lparr>sl_maxWidth := maxWidth, sl_maxHeight := maxHeight, sl_margins := margins\<rparr>)
      in s1\<lparr>sl_maxLength := (if isHorizontal s1 then sl_width s1 + margins SLeft + margins SRight
                             else sl_height s1 + margins STop + margins SBottom)\<rparr>)"

section \<open>Labels\<close>

definition generateTickLabels :: "(real \<Rightarrow> nat \<Rightarrow> slabel list \<Rightarrow> label) \<Rightarrow> slabel list \<Rightarrow> slabel list" where
  "generateTickLabels call ticks =
     map (\<lambda>(i, t). t\<lparr>sk_label := call (sk_value t) i ticks\<rparr>) (zip [0..<length ticks] ticks)"

text \<open>The loop that removes ticks without a label while it walks the array.\<close>

function remove_loop :: "slabel list \<Rightarrow> nat \<Rightarrow> slabel list" where
  "remove_loop ticks i =
     (if i < length ticks then
        if sk_label (ticks ! i) = LNone then remove_loop (take i ticks @ drop (i + 1) ticks) i
        else remove_loop ticks (i + 1)
      else ticks)"
  by pat_completeness auto
termination
  by (relation "measure (\<lambda>(ts, i). length ts - i)") auto

declare remove_loop.simps [simp del]

definition convertTicksToLabels :: "(real \<Rightarrow> nat \<Rightarrow> slabel list \<Rightarrow> label) \<Rightarrow> slabel list \<Rightarrow> slabel list" where
  "convertTicksToLabels call ticks = remove_loop (generateTickLabels call ticks) 0"

type_synonym caches = "string \<Rightarrow> ((string \<Rightarrow> real option) \<times> string list) option"

text \<open>The size of one label with its font and line height, and the updated cache.\<close>

definition label_size :: "(string \<Rightarrow> real) \<Rightarrow> real \<Rightarrow> label \<Rightarrow>
    (string \<Rightarrow> real option) \<times> string list \<Rightarrow> (real \<times> real) \<times> (string \<Rightarrow> real option) \<times> string list" where
  "label_size widths lineHeight lb cache =
     (let (data, gc) = cache in
      case lb of
        LNone \<Rightarrow> ((0, 0), data, gc)
      | LText s \<Rightarrow> (case measureText widths s (data, gc, 0) of (d, g, w) \<Rightarrow> ((w, lineHeight), d, g))
      | LArr ls \<Rightarrow> (case fold (measure_nested widths) ls (data, gc, 0) of
                     (d, g, w) \<Rightarrow> ((w, lineHeight * real (length (concat (map nested_texts ls)))), d, g)))"

fun label_sizes_loop :: "(string \<Rightarrow> string \<Rightarrow> real) \<Rightarrow> (nat \<Rightarrow> string \<times> real) \<Rightarrow> nat \<Rightarrow> label list \<Rightarrow>
    caches \<Rightarrow> (real \<times> real) list \<times> caches" where
  "label_sizes_loop widths fonts i [] cs = ([], cs)"
| "label_sizes_loop widths fonts i (lb # lbs) cs =
     (let (font, lineHeight) = fonts i;
          cache = (case cs font of Some c \<Rightarrow> c | None \<Rightarrow> (Map.empty, []));
          (sz, data, gc) = label_size (widths font) lineHeight lb cache;
          (rest, cs') = label_sizes_loop widths fonts (i + 1) lbs (cs(font \<mapsto> (data, gc)))
      in (sz # rest, cs'))"

definition garbageCollect :: "caches \<Rightarrow> nat \<Rightarrow> caches" where
  "garbageCollect cs n =
     (\<lambda>font. map_option (\<lambda>(data, gc).
        if length gc > 2 * n
        then (data |` (- set (take ((length gc + 1) div 2) gc)), drop (length gc div 2) gc)
        else (data, gc)) (cs font))"

record label_sizes =
  ls_first :: "real \<times> real"
  ls_last :: "real \<times> real"
  ls_widest :: "real \<times> real"
  ls_highest :: "real \<times> real"
  ls_all :: "(real \<times> real) list"

definition valueAt :: "(real \<times> real) list \<Rightarrow> nat \<Rightarrow> real \<times> real" where
  "valueAt sizes i = (if i < length sizes then sizes ! i else (0, 0))"

definition index_of :: "'a list \<Rightarrow> 'a \<Rightarrow> nat" where
  "index_of xs v = length (takeWhile (\<lambda>u. u \<noteq> v) xs)"

definition computeLabelSizes :: "(string \<Rightarrow> string \<Rightarrow> real) \<Rightarrow> (nat \<Rightarrow> string \<times> real) \<Rightarrow> slabel list \<Rightarrow>
    caches \<Rightarrow> label_sizes \<times> caches" where
  "computeLabelSizes widths fonts ticks cs =
     (let (sizes, cs') = label_sizes_loop widths fonts 0 (map sk_label ticks) cs;
          ws = map fst sizes; hs = map snd sizes;
          widest = index_of ws (fold max ws 0); highest = index_of hs (fold max hs 0)
      in (\<lparr>ls_first = valueAt sizes 0,
           ls_last = (if sizes = [] then (0, 0) else valueAt sizes (length sizes - 1)),
           ls_widest = valueAt sizes widest, ls_highest = valueAt sizes highest, ls_all = sizes\<rparr>,
          garbageCollect cs' (length ticks)))"

section \<open>Rotation and fit\<close>

text \<open>\<open>Math.asin\<close> on a number limited to the range from -1 to 1.\<close>

fun num_asin :: "jsnum \<Rightarrow> jsnum" where
  "num_asin (Fin x) = Fin (arcsin x)"
| "num_asin x = NaN"

definition limited_asin :: "real \<Rightarrow> real \<Rightarrow> jsnum" where
  "limited_asin a b = num_asin (limitValue (Fin a / Fin b) (- 1) 1)"

record rotation_opts =
  rt_visible :: bool
  rt_display :: bool
  rt_minRotation :: real
  rt_maxRotation :: real
  rt_offset :: bool
  rt_chartWidth :: real
  rt_tickMark :: real
  rt_padding :: real
  rt_titleHeight :: real

definition calculateLabelRotation :: "rotation_opts \<Rightarrow> label_sizes \<Rightarrow> scale \<Rightarrow> jsnum" where
  "calculateLabelRotation o1 sizes s =
     (let numTicks = real (length (sl_ticks s)) in
      if \<not> rt_visible o1 \<or> \<not> rt_display o1 \<or> rt_minRotation o1 \<ge> rt_maxRotation o1 \<or> numTicks \<le> 1 \<or>
         \<not> isHorizontal s
      then Fin (rt_minRotation o1)
      else
        let maxLabelWidth = fst (ls_widest sizes);
            maxLabelHeight = snd (ls_highest sizes);
            maxWidth = max 0 (min (sl_maxWidth s) (rt_chartWidth o1 - maxLabelWidth));
            tickWidth0 = (if rt_offset o1 then sl_maxWidth s / numTicks else maxWidth / (numTicks - 1))
        in if maxLabelWidth + 6 > tickWidth0 then
             (let tickWidth = maxWidth / (numTicks - (if rt_offset o1 then 1 / 2 else 1));
                  maxHeight = sl_maxHeight s - rt_tickMark o1 - rt_padding o1 - rt_titleHeight o1;
                  diagonal = sqrt (maxLabelWidth * maxLabelWidth + maxLabelHeight * maxLabelHeight);
                  radians = math_min (limited_asin (maxLabelHeight + 6) tickWidth)
                              (limited_asin maxHeight diagonal - limited_asin maxLabelHeight diagonal);
                  degrees = radians * Fin (180 / pi)
              in math_max (Fin (rt_minRotation o1)) (math_min (Fin (rt_maxRotation o1)) degrees))
           else Fin (rt_minRotation o1))"

definition h_paddings :: "bool \<Rightarrow> bool \<Rightarrow> string \<Rightarrow> real \<Rightarrow> real \<Rightarrow> real \<times> real \<Rightarrow> real \<times> real \<Rightarrow> real \<times> real" where
  "h_paddings rotated below align sn cs first last_size =
     (if rotated then
        (if below then (cs * fst first, sn * snd last_size) else (sn * snd first, cs * fst last_size))
      else if align = ''start'' then (0, fst last_size)
      else if align = ''end'' then (fst first, 0)
      else (fst first / 2, fst last_size / 2))"

definition calculatePadding ::
  "string \<Rightarrow> real \<Rightarrow> real \<Rightarrow> real \<Rightarrow> real \<times> real \<Rightarrow> real \<times> real \<Rightarrow> real \<Rightarrow> real \<Rightarrow> scale \<Rightarrow> scale" where
  "calculatePadding align padding sn cs first last_size pixelFirst pixelLast s =
     (if isHorizontal s then
        (let below = (sl_pos s \<noteq> Static STop \<and> sl_axis s = AxisX);
             offsetLeft = pixelFirst - sl_left s;
             offsetRight = sl_right s - pixelLast;
             (paddingLeft, paddingRight) = h_paddings (sl_rotation s \<noteq> 0) below align sn cs first last_size;
             l = max ((paddingLeft - offsetLeft + padding) * sl_width s / (sl_width s - offsetLeft)) 0;
             r = max ((paddingRight - offsetRight + padding) * sl_width s / (sl_width s - offsetRight)) 0
         in s\<lparr>sl_paddings := (sl_paddings s)(SLeft := l, SRight := r)\<rparr>)
      else
        (let (t, b) = (if align = ''start'' then (0, snd first)
                       else if align = ''end'' then (snd last_size, 0)
                       else (snd last_size / 2, snd first / 2))
         in s\<lparr>sl_paddings := (sl_paddings s)(STop := t + padding, SBottom := b + padding)\<rparr>))"

definition handleMargins :: "scale \<Rightarrow> scale" where
  "handleMargins s = s\<lparr>sl_margins := (\<lambda>d. max (sl_paddings s d) (sl_margins s d))\<rparr>"

record fit_opts =
  fo_display :: bool
  fo_tickDisplay :: bool
  fo_mirror :: bool
  fo_padding :: real
  fo_align :: string
  fo_tickMark :: real
  fo_titleHeight :: real
  fo_chartWidth :: real
  fo_chartHeight :: real

definition fit_min_size :: "fit_opts \<Rightarrow> label_sizes \<Rightarrow> scale \<Rightarrow> real \<times> real" where
  "fit_min_size fo sizes s =
     (if \<not> fo_display fo then (0, 0)
      else
        let base = fo_tickMark fo + fo_titleHeight fo;
            angle = toRadians (sl_rotation s);
            w = fst (ls_widest sizes); h = snd (ls_highest sizes);
            labels = (fo_tickDisplay fo \<and> sl_ticks s \<noteq> [])
        in if isHorizontal s then
             (let labelHeight = (if fo_mirror fo then 0 else sin angle * w + cos angle * h) in
              (sl_maxWidth s,
               if labels then min (sl_maxHeight s) (base + labelHeight + fo_padding fo * 2) else base))
           else
             (let labelWidth = (if fo_mirror fo then 0 else cos angle * w + sin angle * h) in
              (if labels then min (sl_maxWidth s) (base + labelWidth + fo_padding fo * 2) else base,
               sl_maxHeight s)))"

definition scale_fit :: "fit_opts \<Rightarrow> label_sizes \<Rightarrow> real \<Rightarrow> real \<Rightarrow> scale \<Rightarrow> scale" where
  "scale_fit fo sizes pixelFirst pixelLast s =
     (let (mw, mh) = fit_min_size fo sizes s;
          angle = toRadians (sl_rotation s);
          s1 = (if fo_display fo \<and> fo_tickDisplay fo \<and> sl_ticks s \<noteq> []
                then calculatePadding (fo_align fo) (fo_padding fo) (sin angle) (cos angle) (ls_first sizes)
                       (ls_last sizes) pixelFirst pixelLast s
                else s);
          s2 = handleMargins s1
      in if isHorizontal s then
           (let w = fo_chartWidth fo - sl_margins s2 SLeft - sl_margins s2 SRight
            in s2\<lparr>sl_width := w, sl_length := w, sl_height := mh\<rparr>)
         else
           (let h = fo_chartHeight fo - sl_margins s2 STop - sl_margins s2 SBottom
            in s2\<lparr>sl_width := mw, sl_height := h, sl_length := h\<rparr>))"

section \<open>Values and pixels\<close>

definition align_num :: "real \<Rightarrow> jsnum \<Rightarrow> jsnum" where
  "align_num ratio x = (case x of Fin p \<Rightarrow> Fin (alignPixel ratio p 0) | _ \<Rightarrow> x)"

definition getPixelForDecimal :: "real \<Rightarrow> scale \<Rightarrow> jsnum \<Rightarrow> jsnum" where
  "getPixelForDecimal ratio s decimal0 =
     (let decimal = (if sl_reversePixels s then 1 - decimal0 else decimal0);
          pixel = Fin (sl_startPixel s) + decimal * Fin (sl_length s)
      in int16Range (if sl_alignToPixels s then align_num ratio pixel else pixel))"

definition getDecimalForPixel :: "scale \<Rightarrow> jsnum \<Rightarrow> jsnum" where
  "getDecimalForPixel s pixel =
     (let decimal = (pixel - Fin (sl_startPixel s)) / Fin (sl_length s)
      in if sl_reversePixels s then 1 - decimal else decimal)"

definition getBaseValue :: "jsnum \<Rightarrow> jsnum \<Rightarrow> jsnum" where
  "getBaseValue mn mx =
     (if mn < 0 \<and> mx < 0 then mx else if 0 < mn \<and> 0 < mx then mn else 0)"

definition tickSize :: "scale \<Rightarrow> real \<Rightarrow> label_sizes \<Rightarrow> real" where
  "tickSize s padding sizes =
     (let rot = toRadians (sl_rotation s); c = \<bar>cos rot\<bar>; sn = \<bar>sin rot\<bar>;
          w = fst (ls_widest sizes) + padding; h = snd (ls_highest sizes) + padding
      in if isHorizontal s then (if h * c > w * sn then w / c else h / sn)
         else if h * sn < w * c then h / c else w / sn)"

section \<open>Bounds: properties\<close>

lemma jsnum_order_trans: "x \<le> y \<Longrightarrow> y \<le> z \<Longrightarrow> x \<le> (z :: jsnum)"
  by (cases x; cases y; cases z) simp_all

text \<open>A lower bound found so far, and an upper bound found so far.\<close>

definition lower :: "jsnum \<Rightarrow> bool" where
  "lower x \<longleftrightarrow> x = PInf \<or> is_finite x"

definition upper :: "jsnum \<Rightarrow> bool" where
  "upper x \<longleftrightarrow> x = NInf \<or> is_finite x"

definition finite_range :: "jsnum \<times> jsnum \<Rightarrow> bool" where
  "finite_range r \<longleftrightarrow> is_finite (fst r) \<and> is_finite (snd r) \<and> fst r \<le> snd r"

lemma lower_min:
  assumes "lower x" and "is_finite a"
  shows "lower (math_min x a) \<and> math_min x a \<le> x \<and> math_min x a \<le> a"
  using assms by (cases x; cases a) (simp_all add: lower_def)

lemma upper_max:
  assumes "upper x" and "is_finite a"
  shows "upper (math_max x a) \<and> x \<le> math_max x a \<and> a \<le> math_max x a"
  using assms by (cases x; cases a) (simp_all add: upper_def)

lemma lower_refl: "lower x \<Longrightarrow> x \<le> x" and upper_refl: "upper x \<Longrightarrow> x \<le> x"
  by (cases x; simp add: lower_def upper_def)+

lemma merge_ranges_lower:
  assumes "list_all finite_range rs" and "lower (fst mm)"
  shows "lower (fst (merge_ranges md xd rs mm)) \<and>
    (if md then fst (merge_ranges md xd rs mm) = fst mm
     else fst (merge_ranges md xd rs mm) \<le> fst mm \<and>
          (\<forall>r \<in> set rs. fst (merge_ranges md xd rs mm) \<le> fst r))"
  using assms
proof (induction md xd rs mm rule: merge_ranges.induct)
  case (1 md xd mm)
  then show ?case by (simp add: lower_refl)
next
  case (2 md xd r rs mm)
  then have "is_finite (fst r)" by (simp add: finite_range_def)
  note m = lower_min [OF 2(3) this]
  show ?case
  proof (cases md)
    case False
    let ?X = "fst (merge_ranges md xd (r # rs) mm)"
    have ih: "lower ?X" "?X \<le> math_min (fst mm) (fst r)" "\<forall>r \<in> set rs. ?X \<le> fst r"
      using 2 m False by simp_all
    have "?X \<le> fst mm" "?X \<le> fst r"
      using ih(2) m by (blast intro: jsnum_order_trans)+
    with ih False show ?thesis by simp
  qed (use 2 in simp)
qed

lemma merge_ranges_upper:
  assumes "list_all finite_range rs" and "upper (snd mm)"
  shows "upper (snd (merge_ranges md xd rs mm)) \<and>
    (if xd then snd (merge_ranges md xd rs mm) = snd mm
     else snd mm \<le> snd (merge_ranges md xd rs mm) \<and>
          (\<forall>r \<in> set rs. snd r \<le> snd (merge_ranges md xd rs mm)))"
  using assms
proof (induction md xd rs mm rule: merge_ranges.induct)
  case (1 md xd mm)
  then show ?case by (simp add: upper_refl)
next
  case (2 md xd r rs mm)
  then have "is_finite (snd r)" by (simp add: finite_range_def)
  note m = upper_max [OF 2(3) this]
  show ?case
  proof (cases xd)
    case False
    let ?X = "snd (merge_ranges md xd (r # rs) mm)"
    have ih: "upper ?X" "math_max (snd mm) (snd r) \<le> ?X" "\<forall>r \<in> set rs. snd r \<le> ?X"
      using 2 m False by simp_all
    have "snd mm \<le> ?X" "snd r \<le> ?X"
      using ih(2) m by (blast intro: jsnum_order_trans)+
    with ih False show ?thesis by simp
  qed (use 2 in simp)
qed

lemma fin_or_finite: "is_finite (fin_or v d) \<Longrightarrow> \<not> is_finite d \<Longrightarrow> v = Num (fin_or v d)"
  by (cases v) (auto simp: fin_or_def)

lemma fin_or_bounds: "lower (fin_or v PInf)" "upper (fin_or v NInf)"
  by (cases v; simp add: fin_or_def lower_def upper_def)+

lemma getUserBounds_props:
  assumes "ub = getUserBounds userMin userMax suggestedMin suggestedMax"
  shows "lower (ub_min ub)" and "upper (ub_max ub)"
    and "ub_minDefined ub \<Longrightarrow> userMin = Num (ub_min ub) \<and> is_finite (ub_min ub)"
    and "ub_maxDefined ub \<Longrightarrow> userMax = Num (ub_max ub) \<and> is_finite (ub_max ub)"
  unfolding assms
  using fin_or_bounds [of userMin] fin_or_bounds [of suggestedMin] fin_or_bounds [of userMax]
    fin_or_bounds [of suggestedMax] fin_or_finite [of userMin PInf] fin_or_finite [of userMax NInf]
  by (simp_all add: getUserBounds_def num_or_def Let_def split: if_splits)

lemma getMinMax_merged:
  assumes "\<not> (ub_minDefined ub \<and> ub_maxDefined ub)"
    and "merge_ranges (ub_minDefined ub) (ub_maxDefined ub) ranges (ub_min ub, ub_max ub) = (Fin x, Fin y)"
  shows "getMinMax ub ranges = (Fin (if ub_maxDefined ub then min x y else x), Fin (if ub_minDefined ub then max x y else y))"
  using assms unfolding getMinMax_def by (simp add: num_or_def Let_def min_def max_def)

text \<open>
  GetMinMax covers the data. When the visible datasets give finite ranges, the limits of an
  axis are finite; a limit that the user defines is used as it is; a limit that the user
  does not define is beyond all data; and the limits are in order unless the user has defined both.
\<close>

theorem getMinMax_covers:
  assumes "ub = getUserBounds userMin userMax suggestedMin suggestedMax"
    and "list_all finite_range ranges" and "ranges \<noteq> []"
  shows "\<exists>mn mx. getMinMax ub ranges = (Fin mn, Fin mx) \<and>
     (if ub_minDefined ub then userMin = Num (Fin mn) else (\<forall>r \<in> set ranges. Fin mn \<le> fst r)) \<and>
     (if ub_maxDefined ub then userMax = Num (Fin mx) else (\<forall>r \<in> set ranges. snd r \<le> Fin mx)) \<and>
     (mn \<le> mx \<or> ub_minDefined ub \<and> ub_maxDefined ub)"
proof -
  note ub = getUserBounds_props [OF assms(1)]
  define M where "M = merge_ranges (ub_minDefined ub) (ub_maxDefined ub) ranges (ub_min ub, ub_max ub)"
  have lo: "lower (fst M)" "ub_minDefined ub \<Longrightarrow> fst M = ub_min ub"
    "\<not> ub_minDefined ub \<Longrightarrow> \<forall>r \<in> set ranges. fst M \<le> fst r"
    using merge_ranges_lower [OF assms(2), where mm = "(ub_min ub, ub_max ub)"
      and md = "ub_minDefined ub" and xd = "ub_maxDefined ub"] ub(1)
    by (simp_all add: M_def)
  have hi: "upper (snd M)" "ub_maxDefined ub \<Longrightarrow> snd M = ub_max ub"
    "\<not> ub_maxDefined ub \<Longrightarrow> \<forall>r \<in> set ranges. snd r \<le> snd M"
    using merge_ranges_upper [OF assms(2), where mm = "(ub_min ub, ub_max ub)"
      and md = "ub_minDefined ub" and xd = "ub_maxDefined ub"] ub(2)
    by (simp_all add: M_def)
  obtain a b where ab: "(Fin a, Fin b) \<in> set ranges" "a \<le> b"
    using assms(2,3) by (cases ranges) (fastforce simp: finite_range_def is_finite_iff)+
  have flo: "is_finite (fst M)"
  proof (cases "ub_minDefined ub")
    case False
    then have "fst M \<le> Fin a" using lo(3) ab(1) by fastforce
    then show ?thesis using lo(1) by (auto simp: lower_def)
  qed (use ub(3) lo(2) in simp)
  have fhi: "is_finite (snd M)"
  proof (cases "ub_maxDefined ub")
    case False
    then have "Fin b \<le> snd M" using hi(3) ab(1) by fastforce
    then show ?thesis using hi(1) by (auto simp: upper_def)
  qed (use ub(4) hi(2) in simp)
  obtain x y where xy: "M = (Fin x, Fin y)"
    using flo fhi by (cases M) (auto simp: is_finite_iff)
  show ?thesis
  proof (cases "ub_minDefined ub")
    case True
    note mind = this
    then have x: "ub_min ub = Fin x" "userMin = Num (Fin x)" using ub(3) lo(2) xy by auto
    show ?thesis
    proof (cases "ub_maxDefined ub")
      case True
      with ub(4) hi(2) xy have "ub_max ub = Fin y" "userMax = Num (Fin y)" by auto
      with x True mind show ?thesis by (simp add: getMinMax_def)
    next
      case False
      have "\<forall>r \<in> set ranges. snd r \<le> Fin (max x y)"
        using hi(3) [OF False] xy jsnum_order_trans [of _ "Fin y" "Fin (max x y)"] by auto
      with x False mind xy show ?thesis
        using getMinMax_merged [OF _ xy [unfolded M_def]] by auto
    qed
  next
    case False
    have all: "\<forall>r \<in> set ranges. Fin x \<le> fst r" using lo(3) [OF False] xy by simp
    then have xa: "x \<le> a" using ab(1) by fastforce
    show ?thesis
    proof (cases "ub_maxDefined ub")
      case True
      then have y: "userMax = Num (Fin y)" using ub(4) hi(2) xy by auto
      have "\<forall>r \<in> set ranges. Fin (min x y) \<le> fst r"
        using all jsnum_order_trans [of "Fin (min x y)" "Fin x"] by auto
      with y False True xy show ?thesis
        using getMinMax_merged [OF _ xy [unfolded M_def]] by auto
    next
      case F: False
      have "\<forall>r \<in> set ranges. snd r \<le> Fin y" using hi(3) [OF F] xy by simp
      moreover from this have "b \<le> y" using ab(1) by fastforce
      ultimately show ?thesis using all xa ab(2) False F xy
        using getMinMax_merged [OF _ xy [unfolded M_def]] by auto
    qed
  qed
qed

theorem getMinMax_covers_witness:
  "\<exists>mn mx. getMinMax (getUserBounds (Num (Fin 5)) Undefined Undefined (Num (Fin 7))) [(Fin 1, Fin 2), (Fin 0, Fin 9)] = (Fin mn, Fin mx) \<and>
     mn = 5 \<and> 9 \<le> mx"
  using getMinMax_covers [OF refl, of "[(Fin 1, Fin 2), (Fin 0, Fin 9)]" "Num (Fin 5)" Undefined Undefined "Num (Fin 7)"]
  by (auto simp: finite_range_def getUserBounds_def fin_or_def num_or_def)

section \<open>Pixels: properties\<close>

lemma int16Range_inside: "- 32768 \<le> p \<Longrightarrow> p \<le> 32767 \<Longrightarrow> int16Range (Fin p) = Fin p"
  by (simp add: int16Range_def limitValue_def)

definition pixel_of :: "scale \<Rightarrow> real \<Rightarrow> real" where
  "pixel_of s d = sl_startPixel s + (if sl_reversePixels s then 1 - d else d) * sl_length s"

lemma getPixelForDecimal_inside:
  assumes "\<not> sl_alignToPixels s" and "\<bar>pixel_of s d\<bar> \<le> 32767"
  shows "getPixelForDecimal ratio s (Fin d) = Fin (pixel_of s d)"
  using assms by (auto simp: getPixelForDecimal_def pixel_of_def int16Range_inside abs_le_iff)

lemma getDecimalForPixel_Fin:
  assumes "sl_length s \<noteq> 0"
  shows "getDecimalForPixel s (Fin p) =
    Fin (let d = (p - sl_startPixel s) / sl_length s in if sl_reversePixels s then 1 - d else d)"
  using assms by (simp add: getDecimalForPixel_def Let_def)

text \<open>
  Decimals and pixels. On an axis of some length that does not snap to device pixels, a decimal
  whose pixel lies within 16 bits is recovered from its pixel, on reversed axes too; the decimals 0 and 1
  are the two ends of the axis, exchanged when it is reversed; and after \<open>configure\<close> these ends are the edges of
  the box of the axis.
\<close>

theorem decimal_pixel_roundtrip:
  assumes "\<not> sl_alignToPixels s" and "sl_length s \<noteq> 0" and "\<bar>pixel_of s d\<bar> \<le> 32767"
  shows "getDecimalForPixel s (getPixelForDecimal ratio s (Fin d)) = Fin d \<and>
    pixel_of (scale_configure s) 0 = (if isHorizontal s then (if sl_reverse s then sl_right s else sl_left s)
       else (if sl_reverse s then sl_top s else sl_bottom s)) \<and>
    pixel_of (scale_configure s) 1 = (if isHorizontal s then (if sl_reverse s then sl_left s else sl_right s)
       else (if sl_reverse s then sl_bottom s else sl_top s))"
proof -
  have "getDecimalForPixel s (getPixelForDecimal ratio s (Fin d)) = Fin d"
    using assms by (simp add: getPixelForDecimal_inside getDecimalForPixel_Fin) (simp add: pixel_of_def Let_def)
  then show ?thesis by (simp add: pixel_of_def scale_configure_def)
qed

definition sample_scale :: scale where
  "sample_scale = \<lparr>sl_axis = AxisX, sl_pos = Static SBottom, sl_reverse = True, sl_alignToPixels = False,
     sl_left = 10, sl_top = 0, sl_right = 110, sl_bottom = 30, sl_width = 100, sl_height = 30,
     sl_maxWidth = 100, sl_maxHeight = 30, sl_margins = (\<lambda>_. 0), sl_paddings = (\<lambda>_. 0),
     sl_startPixel = 10, sl_endPixel = 110, sl_length = 100, sl_maxLength = 100, sl_reversePixels = True,
     sl_rotation = 0, sl_ticks = []\<rparr>"

theorem decimal_pixel_roundtrip_witness:
  "getDecimalForPixel sample_scale (getPixelForDecimal 1 sample_scale (Fin (1 / 4))) = Fin (1 / 4)"
  using decimal_pixel_roundtrip [of sample_scale "1 / 4" 1]
  by (simp add: sample_scale_def pixel_of_def)

text \<open>
  The interface between an axis and its values: \<open>decimal_of\<close> and \<open>value_of\<close> convert between a
  value and its share of the axis, for the values that the axis can represent. An axis that
  promises to recover values and to keep their order places them on the pixels in order and
  reads them back.
\<close>

definition drawable :: "scale \<Rightarrow> bool" where
  "drawable s \<longleftrightarrow> \<not> sl_alignToPixels s \<and> 0 < sl_length s \<and> sl_endPixel s = sl_startPixel s + sl_length s \<and>
     - 32767 \<le> sl_startPixel s \<and> sl_endPixel s \<le> 32767"

lemma drawable_pixel:
  assumes "drawable s" and "0 \<le> d" and "d \<le> 1"
  shows "sl_startPixel s \<le> pixel_of s d" and "pixel_of s d \<le> sl_endPixel s"
    and "getPixelForDecimal ratio s (Fin d) = Fin (pixel_of s d)"
    and "getDecimalForPixel s (Fin (pixel_of s d)) = Fin d"
proof -
  note s = assms(1) [unfolded drawable_def]
  show b: "sl_startPixel s \<le> pixel_of s d" "pixel_of s d \<le> sl_endPixel s"
    using assms(2,3) s by (simp_all add: pixel_of_def mult_left_le_one_le)
  show "getPixelForDecimal ratio s (Fin d) = Fin (pixel_of s d)"
    using b s by (intro getPixelForDecimal_inside) auto
  show "getDecimalForPixel s (Fin (pixel_of s d)) = Fin d"
    using s by (simp add: getDecimalForPixel_Fin pixel_of_def Let_def)
qed

locale value_axis =
  fixes decimal_of :: "real \<Rightarrow> real" and value_of :: "real \<Rightarrow> real" and ok :: "real \<Rightarrow> bool"
  assumes value_decimal: "ok v \<Longrightarrow> value_of (decimal_of v) = v"
    and decimal_mono: "ok u \<Longrightarrow> ok v \<Longrightarrow> u \<le> v \<Longrightarrow> decimal_of u \<le> decimal_of v"
begin

lemma between:
  assumes "ok a" "ok b" "ok v" "a \<le> v" "v \<le> b" "decimal_of a = 0" "decimal_of b = 1"
  shows "0 \<le> decimal_of v" "decimal_of v \<le> 1"
  using decimal_mono [OF assms(1,3,4)] decimal_mono [OF assms(3,2,5)] assms(6,7) by simp_all

lemma on_axis:
  assumes "drawable s" and "ok v" and "0 \<le> decimal_of v" "decimal_of v \<le> 1"
  shows "\<exists>p. getPixelForDecimal ratio s (Fin (decimal_of v)) = Fin p \<and> sl_startPixel s \<le> p \<and> p \<le> sl_endPixel s \<and>
    getDecimalForPixel s (Fin p) = Fin (decimal_of v) \<and> value_of (decimal_of v) = v"
  using drawable_pixel [OF assms(1,3,4)] value_decimal [OF assms(2)] by blast

lemma pixel_order:
  assumes "0 \<le> sl_length s" and "ok u" "ok v" "u \<le> v"
  shows "if sl_reversePixels s then pixel_of s (decimal_of v) \<le> pixel_of s (decimal_of u)
         else pixel_of s (decimal_of u) \<le> pixel_of s (decimal_of v)"
  using decimal_mono [OF assms(2-4)] assms(1) by (simp add: pixel_of_def mult_right_mono)

end

section \<open>Labels: properties\<close>

lemma remove_loop_filter:
  "i \<le> length ticks \<Longrightarrow>
   remove_loop ticks i = take i ticks @ filter (\<lambda>t. sk_label t \<noteq> LNone) (drop i ticks)"
proof (induction ticks i rule: remove_loop.induct)
  case (1 ticks i)
  show ?case
  proof (cases "i < length ticks")
    case True
    then have d: "drop i ticks = ticks ! i # drop (Suc i) ticks" by (simp add: Cons_nth_drop_Suc)
    have t: "take (Suc i) ticks = take i ticks @ [ticks ! i]" using True by (simp add: take_Suc_conv_app_nth)
    show ?thesis using 1 True d t by (subst remove_loop.simps) (simp add: min_def)
  qed (use 1 in \<open>subst remove_loop.simps; simp\<close>)
qed

lemma index_of_nth: "v \<in> set xs \<Longrightarrow> index_of xs v < length xs \<and> xs ! index_of xs v = v"
  by (induction xs) (auto simp: index_of_def)

lemma fold_max_props:
  fixes a :: real
  shows "a \<le> fold max xs a \<and> (\<forall>x \<in> set xs. x \<le> fold max xs a) \<and> (fold max xs a = a \<or> fold max xs a \<in> set xs)"
  by (induction xs arbitrary: a) (force simp: max_def split: if_splits)+

lemma valueAt_max:
  assumes "sizes \<noteq> []" and "\<forall>p \<in> set sizes. 0 \<le> f p"
  shows "valueAt sizes (index_of (map f sizes) (fold max (map f sizes) 0)) \<in> set sizes \<and>
    (\<forall>p \<in> set sizes. f p \<le> f (valueAt sizes (index_of (map f sizes) (fold max (map f sizes) (0 :: real)))))"
proof -
  let ?m = "fold max (map f sizes) 0"
  note m = fold_max_props [of 0 "map f sizes"]
  have "?m \<in> set (map f sizes)"
  proof (cases "?m = 0")
    case True
    obtain p where "p \<in> set sizes" using assms(1) by (cases sizes) auto
    with m True assms(2) have "f p = 0" by fastforce
    with True \<open>p \<in> set sizes\<close> show ?thesis by (metis image_eqI set_map)
  qed (use m in blast)
  from index_of_nth [OF this] show ?thesis using m by (auto simp: valueAt_def)
qed

text \<open>The size of a label measured without any cache.\<close>

fun ideal_size :: "(string \<Rightarrow> real) \<Rightarrow> real \<Rightarrow> label \<Rightarrow> real \<times> real" where
  "ideal_size widths lineHeight lb =
     (Max (insert 0 (widths ` set (texts_of lb))),
      case lb of LArr ls \<Rightarrow> lineHeight * real (length (texts_of lb)) | LText s \<Rightarrow> lineHeight | LNone \<Rightarrow> 0)"

definition ideal_sizes :: "(string \<Rightarrow> string \<Rightarrow> real) \<Rightarrow> (nat \<Rightarrow> string \<times> real) \<Rightarrow> nat \<Rightarrow> label list \<Rightarrow> (real \<times> real) list" where
  "ideal_sizes widths fonts i lbs =
     map (\<lambda>j. ideal_size (widths (fst (fonts (i + j)))) (snd (fonts (i + j))) (lbs ! j)) [0..<length lbs]"

definition valid_caches :: "(string \<Rightarrow> string \<Rightarrow> real) \<Rightarrow> caches \<Rightarrow> bool" where
  "valid_caches widths cs \<longleftrightarrow> (\<forall>font data gc. cs font = Some (data, gc) \<longrightarrow> agrees (widths font) data)"

lemma label_size_ideal:
  assumes "agrees widths data"
  shows "\<exists>data' gc'. label_size widths lineHeight lb (data, gc) = (ideal_size widths lineHeight lb, data', gc') \<and>
    agrees widths data'"
proof (cases lb)
  case (LText s)
  obtain d g where "measureText widths s (data, gc, 0) = (d, g, max (widths s) 0)" "agrees widths d"
    using measureText_agrees [OF assms] by blast
  with LText show ?thesis by (simp add: label_size_def max.commute)
next
  case (LArr ls)
  obtain d g where "fold (measure_nested widths) ls (data, gc, 0)
      = (d, g, Max (insert 0 (widths ` set (concat (map nested_texts ls)))))" "agrees widths d"
    using fold_measureText [OF assms, of "concat (map nested_texts ls)" gc 0]
    by (auto simp: fold_nested fold_max_widths simp del: set_concat set_map)
  with LArr show ?thesis by (simp add: label_size_def)
qed (use assms in \<open>simp add: label_size_def\<close>)

lemma ideal_sizes_Cons:
  "ideal_sizes widths fonts i (lb # lbs) =
     ideal_size (widths (fst (fonts i))) (snd (fonts i)) lb # ideal_sizes widths fonts (i + 1) lbs"
  by (simp add: ideal_sizes_def upt_conv_Cons map_Suc_upt [symmetric] del: upt_Suc ideal_size.simps)

lemma label_sizes_loop_ideal:
  assumes "valid_caches widths cs"
  shows "\<exists>cs'. label_sizes_loop widths fonts i lbs cs = (ideal_sizes widths fonts i lbs, cs') \<and> valid_caches widths cs'"
  using assms
proof (induction lbs arbitrary: i cs)
  case (Cons lb lbs)
  obtain font lineHeight where f: "fonts i = (font, lineHeight)" by fastforce
  obtain data gc where c: "(case cs font of Some c \<Rightarrow> c | None \<Rightarrow> (Map.empty, [])) = (data, gc)" by fastforce
  then have "agrees (widths font) data"
    using Cons.prems by (auto simp: valid_caches_def agrees_def split: option.splits)
  from label_size_ideal [OF this, of lineHeight lb gc] obtain data' gc'
    where s: "label_size (widths font) lineHeight lb (data, gc) = (ideal_size (widths font) lineHeight lb, data', gc')"
      and a: "agrees (widths font) data'" by blast
  have "valid_caches widths (cs(font \<mapsto> (data', gc')))"
    using Cons.prems a by (auto simp: valid_caches_def)
  then obtain cs' where "label_sizes_loop widths fonts (i + 1) lbs (cs(font \<mapsto> (data', gc')))
      = (ideal_sizes widths fonts (i + 1) lbs, cs')" and "valid_caches widths cs'"
    using Cons.IH by blast
  with f c s show ?case by (simp add: ideal_sizes_Cons del: ideal_size.simps)
qed (simp add: ideal_sizes_def)

lemma garbageCollect_valid: "valid_caches widths cs \<Longrightarrow> valid_caches widths (garbageCollect cs n)"
  by (auto simp: valid_caches_def garbageCollect_def agrees_def restrict_map_def split: if_splits)

text \<open>
  C37 (label sizes). Whatever the caches hold, as long as it is right, the sizes of the labels are those that
  measuring every text afresh would give, the caches stay right, and the widest and the highest
  label are the sizes of labels that no other label exceeds.
\<close>

theorem computeLabelSizes_refines:
  assumes "valid_caches widths cs" and "ticks \<noteq> []" and "\<forall>i. 0 \<le> snd (fonts i)"
    and "computeLabelSizes widths fonts ticks cs = (sizes, cs')"
  shows "ls_all sizes = ideal_sizes widths fonts 0 (map sk_label ticks) \<and> valid_caches widths cs' \<and>
    ls_widest sizes \<in> set (ls_all sizes) \<and> (\<forall>p \<in> set (ls_all sizes). fst p \<le> fst (ls_widest sizes)) \<and>
    ls_highest sizes \<in> set (ls_all sizes) \<and> (\<forall>p \<in> set (ls_all sizes). snd p \<le> snd (ls_highest sizes))"
proof -
  let ?all = "ideal_sizes widths fonts 0 (map sk_label ticks)"
  obtain cs1 where l: "label_sizes_loop widths fonts 0 (map sk_label ticks) cs = (?all, cs1)"
    and v: "valid_caches widths cs1" using label_sizes_loop_ideal [OF assms(1)] by blast
  have ne: "?all \<noteq> []" using assms(2) by (simp add: ideal_sizes_def)
  have w: "\<forall>p \<in> set ?all. 0 \<le> fst p" by (simp add: ideal_sizes_def)
  have h: "\<forall>p \<in> set ?all. 0 \<le> snd p" using assms(3) by (auto simp: ideal_sizes_def split: label.splits)
  have s: "ls_all sizes = ?all" "cs' = garbageCollect cs1 (length ticks)"
    "ls_widest sizes = valueAt ?all (index_of (map fst ?all) (fold max (map fst ?all) 0))"
    "ls_highest sizes = valueAt ?all (index_of (map snd ?all) (fold max (map snd ?all) 0))"
    using assms(4) l by (auto simp: computeLabelSizes_def Let_def)
  show ?thesis
    unfolding s using v valueAt_max [OF ne w] valueAt_max [OF ne h] by (simp add: garbageCollect_valid)
qed

theorem computeLabelSizes_refines_witness:
  "\<exists>sizes cs'. computeLabelSizes (\<lambda>f s. real (length s)) (\<lambda>i. (''f'', 2))
      [\<lparr>sk_value = 1, sk_label = LText ''ab''\<rparr>, \<lparr>sk_value = 2, sk_label = LArr [LText ''a'', LText ''b'']\<rparr>] Map.empty
      = (sizes, cs') \<and> ls_all sizes = [(2, 2), (1, 4)]"
proof -
  let ?ts = "[\<lparr>sk_value = 1, sk_label = LText ''ab''\<rparr>, \<lparr>sk_value = 2, sk_label = LArr [LText ''a'', LText ''b'']\<rparr>]"
  obtain sizes cs' where run: "computeLabelSizes (\<lambda>f s. real (length s)) (\<lambda>i. (''f'', 2)) ?ts Map.empty = (sizes, cs')"
    by fastforce
  have "ls_all sizes = ideal_sizes (\<lambda>f s. real (length s)) (\<lambda>i. (''f'', 2)) 0 (map sk_label ?ts)"
    using computeLabelSizes_refines [OF _ _ _ run] by (simp add: valid_caches_def)
  with run show ?thesis by (simp add: ideal_sizes_def)
qed

section \<open>Rotation and margins: properties\<close>

lemma limited_asin_Fin:
  assumes "a \<noteq> 0 \<or> b \<noteq> 0"
  shows "\<exists>x. limited_asin a b = Fin x"
proof -
  have "\<exists>x. math_max (Fin (- 1)) (math_min (Fin 1) y) = Fin x" if "y \<noteq> NaN" for y
    using that by (cases y) (auto simp: math_max_def math_min_def)
  moreover have "Fin a / Fin b \<noteq> NaN" using assms by (auto simp: Fin_div inf_of_sign_def)
  ultimately show ?thesis unfolding limited_asin_def limitValue_def
    by (metis num_asin.simps(1) Fin_arith(4) zero_one_jsnum(2))
qed

text \<open>
  Rotation of labels. When labels have some height and the bounds of the rotation are in order, the rotation
  that is computed lies between them, and it is the smallest allowed one on vertical axes, for a single
  tick, and whenever the widest label fits between two ticks.
\<close>

theorem calculateLabelRotation_bounds:
  assumes "rt_minRotation ro \<le> rt_maxRotation ro" and "0 < snd (ls_highest sizes)"
  shows "\<exists>r. calculateLabelRotation ro sizes s = Fin r \<and> rt_minRotation ro \<le> r \<and> r \<le> rt_maxRotation ro \<and>
    (\<not> isHorizontal s \<or> length (sl_ticks s) \<le> 1 \<or>
       rt_offset ro \<and> fst (ls_widest sizes) + 6 \<le> sl_maxWidth s / real (length (sl_ticks s)) \<longrightarrow> r = rt_minRotation ro)"
proof -
  let ?n = "length (sl_ticks s)"
  have d: "sqrt (w * w + snd (ls_highest sizes) * snd (ls_highest sizes)) \<noteq> 0" for w
    using assms(2) by (smt (verit) mult_pos_pos real_sqrt_eq_zero_cancel_iff zero_le_square)
  have one: "\<exists>x. limited_asin (snd (ls_highest sizes) + 6) b = Fin x" for b
    using assms(2) by (intro limited_asin_Fin) simp
  have two: "\<exists>x. limited_asin a (sqrt (w * w + snd (ls_highest sizes) * snd (ls_highest sizes))) = Fin x" for a w
    using d by (intro limited_asin_Fin) simp
  have min3: "\<exists>z. math_max (Fin a) (math_min (Fin b) (math_min x (y - z1) * Fin c)) = Fin z \<and> a \<le> z \<and> z \<le> b"
    if "\<exists>v. x = Fin v" "\<exists>v. y = Fin v" "\<exists>v. z1 = Fin v" "a \<le> b" for a b c x y z1
    using that by auto
  have few: "real ?n \<le> 1 \<longleftrightarrow> ?n \<le> 1" by simp
  note big = min3 [OF one two two assms(1)]
  show ?thesis
    unfolding calculateLabelRotation_def Let_def few
    using big assms(1) by (auto simp: not_le)
qed

theorem calculateLabelRotation_bounds_witness:
  "\<exists>r. calculateLabelRotation
       \<lparr>rt_visible = True, rt_display = True, rt_minRotation = 0, rt_maxRotation = 50, rt_offset = True,
        rt_chartWidth = 100, rt_tickMark = 8, rt_padding = 3, rt_titleHeight = 0\<rparr>
       \<lparr>ls_first = (90, 12), ls_last = (90, 12), ls_widest = (90, 12), ls_highest = (90, 12), ls_all = [(90, 12), (90, 12)]\<rparr>
       (sample_scale\<lparr>sl_ticks := [\<lparr>sk_value = 1, sk_label = LText ''a''\<rparr>, \<lparr>sk_value = 2, sk_label = LText ''b''\<rparr>]\<rparr>) = Fin r \<and>
     0 \<le> r \<and> r \<le> 50"
  using calculateLabelRotation_bounds [of
       "\<lparr>rt_visible = True, rt_display = True, rt_minRotation = 0, rt_maxRotation = 50, rt_offset = True,
        rt_chartWidth = 100, rt_tickMark = 8, rt_padding = 3, rt_titleHeight = 0\<rparr>"
       "\<lparr>ls_first = (90, 12), ls_last = (90, 12), ls_widest = (90, 12), ls_highest = (90, 12), ls_all = [(90, 12), (90, 12)]\<rparr>"
       "sample_scale\<lparr>sl_ticks := [\<lparr>sk_value = 1, sk_label = LText ''a''\<rparr>, \<lparr>sk_value = 2, sk_label = LText ''b''\<rparr>]\<rparr>"]
  by auto

lemma calculatePadding_margins:
  "sl_margins (calculatePadding align pad sn cs first last_size p q s) = sl_margins s"
  by (simp add: calculatePadding_def Let_def split: prod.splits)

text \<open>
  Space taken by an axis. After \<open>fit\<close>, every margin covers the padding of its side and what was offered
  before; the axis and its margins take up the chart along the axis; and across the axis it takes
  nothing when hidden and never more than its maximal size when it has labels.
\<close>

theorem scale_fit_space:
  "let s' = scale_fit fo sizes pixelFirst pixelLast s;
       labels = (fo_tickDisplay fo \<and> sl_ticks s \<noteq> []);
       across = (if isHorizontal s then sl_height s' else sl_width s');
       limit = (if isHorizontal s then sl_maxHeight s else sl_maxWidth s)
   in (\<forall>d. sl_margins s' d = max (sl_paddings s' d) (sl_margins s d)) \<and>
      (if isHorizontal s then sl_width s' + sl_margins s' SLeft + sl_margins s' SRight = fo_chartWidth fo \<and> sl_length s' = sl_width s'
       else sl_height s' + sl_margins s' STop + sl_margins s' SBottom = fo_chartHeight fo \<and> sl_length s' = sl_height s') \<and>
      (if fo_display fo then (if labels then across \<le> limit else across = fo_tickMark fo + fo_titleHeight fo)
       else across = 0)"
  by (simp add: scale_fit_def handleMargins_def fit_min_size_def Let_def calculatePadding_margins)

end
