(* ===== verification/Chart_Title.thy ===== *)
theory Chart_Title
  imports Scale
begin

text \<open>
  Titles and subtitles (\<^verbatim>\<open>chart.js\<close>, \<open>Title\<close>, \<open>plugin_title\<close>, \<open>plugin_subtitle\<close>), and the boxes that titles and axes are
  for the layout: what the layout promises holds for charts made of them.

  The options are a record of resolved values. Both plugins do the same with a title of their own, which the chart or a map holds; here it is
  held by its identity in the list of boxes.
\<close>

section \<open>Titles\<close>

record title_config =
  tl_display :: bool
  tl_lines :: "string list"
  tl_isArray :: bool
  tl_padding :: sides
  tl_font :: string
  tl_lineHeight :: real
  tl_pos :: bpos
  tl_align :: string
  tl_color :: string
  tl_fullSize :: bool
  tl_weight :: real

record title =
  ti_left :: real
  ti_top :: real
  ti_right :: real
  ti_bottom :: real
  ti_width :: real
  ti_height :: real
  ti_padding :: sides

definition title_isHorizontal :: "title_config \<Rightarrow> bool" where
  "title_isHorizontal o' \<longleftrightarrow> tl_pos o' = Static STop \<or> tl_pos o' = Static SBottom"

definition title_update :: "title_config \<Rightarrow> real \<Rightarrow> real \<Rightarrow> title \<Rightarrow> title" where
  "title_update o' maxWidth maxHeight t =
     (let t0 = t\<lparr>ti_left := 0, ti_top := 0\<rparr> in
      if \<not> tl_display o' then t0\<lparr>ti_width := 0, ti_height := 0, ti_right := 0, ti_bottom := 0\<rparr>
      else
        let t1 = t0\<lparr>ti_width := maxWidth, ti_right := maxWidth, ti_height := maxHeight, ti_bottom := maxHeight,
                    ti_padding := tl_padding o'\<rparr>;
            lineCount = (if tl_isArray o' then real (length (tl_lines o')) else 1);
            textSize = lineCount * tl_lineHeight o' + (tl_padding o' STop + tl_padding o' SBottom)
        in if title_isHorizontal o' then t1\<lparr>ti_height := textSize\<rparr> else t1\<lparr>ti_width := textSize\<rparr>)"

text \<open>\<open>titleX\<close>, \<open>titleY\<close>, \<open>maxWidth\<close> and \<open>rotation\<close>.\<close>

definition drawArgs :: "title_config \<Rightarrow> real \<Rightarrow> title \<Rightarrow> real \<times> real \<times> real \<times> real" where
  "drawArgs o' offset t =
     (if title_isHorizontal o' then
        (alignStartEnd (tl_align o') (ti_left t) (ti_right t), ti_top t + offset, ti_right t - ti_left t, 0)
      else if tl_pos o' = Static SLeft then
        (ti_left t + offset, alignStartEnd (tl_align o') (ti_bottom t) (ti_top t), ti_bottom t - ti_top t, - (pi / 2))
      else
        (ti_right t - offset, alignStartEnd (tl_align o') (ti_top t) (ti_bottom t), ti_bottom t - ti_top t, pi / 2))"

definition draw_title :: "metrics \<Rightarrow> title_config \<Rightarrow> title \<Rightarrow> cmd list" where
  "draw_title metrics o' t =
     (if \<not> tl_display o' then []
      else
        let (titleX, titleY, maxWidth, rotation) = drawArgs o' (tl_lineHeight o' / 2 + ti_padding t STop) t
        in renderText metrics (tl_lines o') 0 0 (tl_font o') (tl_lineHeight o')
             \<lparr>ro_strokeWidth = None, ro_strokeColor = None, ro_maxWidth = Some maxWidth,
              ro_translation = Some (titleX, titleY), ro_rotation = Some rotation, ro_color = Some (tl_color o'),
              ro_textAlign = Some (toLeftRightCenter (tl_align o')), ro_textBaseline = Some ''middle'',
              ro_strikethrough = False, ro_underline = False, ro_decorationWidth = None\<rparr>)"

section \<open>Boxes\<close>

text \<open>What a box of the layout remembers: a title or an axis.\<close>

datatype part = TitlePart title | AxisPart scale

definition new_title :: title where
  "new_title = \<lparr>ti_left = 0, ti_top = 0, ti_right = 0, ti_bottom = 0, ti_width = 0, ti_height = 0, ti_padding = (\<lambda>_. 0)\<rparr>"

fun title_part :: "part \<Rightarrow> title" where
  "title_part (TitlePart t) = t"
| "title_part (AxisPart s) = new_title"

definition title_step :: "title_config \<Rightarrow> part \<Rightarrow> real \<Rightarrow> real \<Rightarrow> sides \<Rightarrow> part \<times> real \<times> real" where
  "title_step o' st w h margins = (let t = title_update o' w h (title_part st) in (TitlePart t, ti_width t, ti_height t))"

definition title_box :: "nat \<Rightarrow> title_config \<Rightarrow> part box" where
  "title_box ident o' =
     \<lparr>bx_id = ident, bx_pos = tl_pos o', bx_axis = AxisOther, bx_horizontal = title_isHorizontal o', bx_weight = tl_weight o',
      bx_fullSize = tl_fullSize o', bx_stack = None, bx_stackWeight = 1, bx_hidden = False, bx_state = TitlePart new_title,
      bx_update = title_step o', bx_getPadding = None, bx_beforeLayout = (\<lambda>st. st),
      bx_left = 0, bx_top = 0, bx_right = 0, bx_bottom = 0, bx_width = 0, bx_height = 0\<rparr>"

text \<open>The plugins: a title is created when the chart starts, configured before an update, and removed in the end.\<close>

definition title_start :: "part box list \<Rightarrow> nat \<Rightarrow> title_config \<Rightarrow> part box list" where
  "title_start boxes ident o' =
     addBox boxes (configure_box (title_box ident o') (tl_fullSize o') (tl_pos o') (tl_weight o'))
       (Some (tl_fullSize o')) (Some (tl_pos o')) (Some (tl_weight o'))"

definition title_stop :: "part box list \<Rightarrow> nat \<Rightarrow> part box list" where
  "title_stop boxes ident = removeBox boxes ident"

definition title_beforeUpdate :: "part box list \<Rightarrow> nat \<Rightarrow> title_config \<Rightarrow> part box list" where
  "title_beforeUpdate boxes ident o' =
     map (\<lambda>b. if bx_id b = ident
              then configure_box (b\<lparr>bx_update := title_step o', bx_horizontal := title_isHorizontal o'\<rparr>)
                     (tl_fullSize o') (tl_pos o') (tl_weight o')
              else b) boxes"

text \<open>
  An axis as a box: \<open>update\<close> starts with the space offered and ends with \<open>fit\<close>; \<open>prepare\<close> is what lies between, from the data limits to the
  rotation of the labels, which keeps the space, and gives the sizes of the labels and the pixels of the first and the last tick.
\<close>

definition blank_scale :: "bpos \<Rightarrow> axis \<Rightarrow> scale" where
  "blank_scale p ax = \<lparr>sl_axis = ax, sl_pos = p, sl_reverse = False, sl_alignToPixels = False,
     sl_left = 0, sl_top = 0, sl_right = 0, sl_bottom = 0, sl_width = 0, sl_height = 0, sl_maxWidth = 0, sl_maxHeight = 0,
     sl_margins = (\<lambda>_. 0), sl_paddings = (\<lambda>_. 0), sl_startPixel = 0, sl_endPixel = 0, sl_length = 0, sl_maxLength = 0,
     sl_reversePixels = False, sl_rotation = 0, sl_ticks = []\<rparr>"

fun axis_part :: "bpos \<Rightarrow> axis \<Rightarrow> part \<Rightarrow> scale" where
  "axis_part p ax (AxisPart s) = s\<lparr>sl_pos := p, sl_axis := ax\<rparr>"
| "axis_part p ax (TitlePart t) = blank_scale p ax"

definition axis_update :: "fit_opts \<Rightarrow> (scale \<Rightarrow> scale \<times> label_sizes \<times> real \<times> real) \<Rightarrow> real \<Rightarrow> real \<Rightarrow> sides \<Rightarrow> scale \<Rightarrow> scale" where
  "axis_update fo prepare w h margins s =
     (let (s1, sizes, pixelFirst, pixelLast) = prepare (begin_update w h margins s) in scale_fit fo sizes pixelFirst pixelLast s1)"

definition axis_step :: "bpos \<Rightarrow> axis \<Rightarrow> fit_opts \<Rightarrow> (scale \<Rightarrow> scale \<times> label_sizes \<times> real \<times> real) \<Rightarrow> part \<Rightarrow> real \<Rightarrow> real \<Rightarrow> sides \<Rightarrow>
    part \<times> real \<times> real" where
  "axis_step p ax fo prepare st w h margins =
     (let s = axis_update fo prepare w h margins (axis_part p ax st) in (AxisPart s, sl_width s, sl_height s))"

definition axis_padding :: "bpos \<Rightarrow> axis \<Rightarrow> part \<Rightarrow> sides" where
  "axis_padding p ax st = getPadding (axis_part p ax st)"

definition axis_box :: "nat \<Rightarrow> bpos \<Rightarrow> axis \<Rightarrow> fit_opts \<Rightarrow> (scale \<Rightarrow> scale \<times> label_sizes \<times> real \<times> real) \<Rightarrow> part box" where
  "axis_box ident p ax fo prepare =
     \<lparr>bx_id = ident, bx_pos = p, bx_axis = ax, bx_horizontal = isHorizontal (blank_scale p ax), bx_weight = 0,
      bx_fullSize = False, bx_stack = None, bx_stackWeight = 1, bx_hidden = False, bx_state = AxisPart (blank_scale p ax),
      bx_update = axis_step p ax fo prepare, bx_getPadding = Some (axis_padding p ax), bx_beforeLayout = (\<lambda>st. st),
      bx_left = 0, bx_top = 0, bx_right = 0, bx_bottom = 0, bx_width = 0, bx_height = 0\<rparr>"

section \<open>Titles: properties\<close>

definition sound_title :: "title_config \<Rightarrow> bool" where
  "sound_title o' \<longleftrightarrow> 0 \<le> tl_lineHeight o' \<and> 0 \<le> tl_padding o' STop \<and> 0 \<le> tl_padding o' SBottom \<and> tl_pos o' \<in> Static ` UNIV"

lemma title_step_across:
  "across (title_box i o') (snd (title_step o' st w h m)) =
     (if tl_display o' then (if tl_isArray o' then real (length (tl_lines o')) else 1) * tl_lineHeight o' +
        (tl_padding o' STop + tl_padding o' SBottom) else 0)"
  by (simp add: across_def title_box_def title_step_def title_update_def Let_def)

lemma title_box_ok:
  assumes "sound_title o'"
  shows "nonneg_box (title_box i o')" "rigid (title_box i o')" "bx_stack (title_box i o') = None"
    "bx_pos (title_box i o') \<noteq> ObjPos" "oriented (title_box i o')"
proof -
  have up: "bx_update (title_box i o') = title_step o'" "bx_getPadding (title_box i o') = None" by (simp_all add: title_box_def)
  show "nonneg_box (title_box i o')" "rigid (title_box i o')"
    using assms by (simp_all add: nonneg_box_def rigid_def up title_step_across sound_title_def)
  show "bx_stack (title_box i o') = None" "bx_pos (title_box i o') \<noteq> ObjPos" "oriented (title_box i o')"
    using assms by (auto simp: title_box_def sound_title_def oriented_def title_isHorizontal_def)
qed

text \<open>Stopping the plugin leaves the boxes as they were before it started.\<close>

lemma title_stop_start:
  assumes "\<forall>b \<in> set boxes. bx_id b \<noteq> ident"
  shows "title_stop (title_start boxes ident o') ident = boxes"
proof -
  have "takeWhile (\<lambda>b. bx_id b \<noteq> ident) (title_start boxes ident o') = boxes"
    using assms by (simp add: title_start_def addBox_def configure_box_def title_box_def takeWhile_append)
  then show ?thesis
    by (simp add: title_stop_def removeBox_def Let_def) (simp add: title_start_def addBox_def)
qed

section \<open>Axes as boxes: properties\<close>

definition keeps_space :: "(scale \<Rightarrow> scale \<times> label_sizes \<times> real \<times> real) \<Rightarrow> bool" where
  "keeps_space prepare \<longleftrightarrow> (\<forall>s s1 sizes p q. prepare s = (s1, sizes, p, q) \<longrightarrow>
     sl_pos s1 = sl_pos s \<and> sl_axis s1 = sl_axis s \<and> sl_maxWidth s1 = sl_maxWidth s \<and> sl_maxHeight s1 = sl_maxHeight s \<and>
     sl_paddings s1 = sl_paddings s \<and> 0 \<le> sl_rotation s1 \<and> sl_rotation s1 \<le> 90 \<and>
     0 \<le> fst (ls_widest sizes) \<and> 0 \<le> snd (ls_highest sizes))"

definition sound_fit :: "fit_opts \<Rightarrow> bool" where
  "sound_fit fo \<longleftrightarrow> 0 \<le> fo_tickMark fo \<and> 0 \<le> fo_titleHeight fo \<and> 0 \<le> fo_padding fo"

lemma isHorizontal_cong: "sl_pos s = sl_pos t \<Longrightarrow> sl_axis s = sl_axis t \<Longrightarrow> isHorizontal s = isHorizontal t"
  by (simp add: isHorizontal_def)

lemma axis_part_fields: "sl_pos (axis_part p ax st) = p" "sl_axis (axis_part p ax st) = ax"
  by (cases st; simp add: blank_scale_def)+

lemma begin_update_fields:
  "sl_pos (begin_update w h m s) = sl_pos s" "sl_axis (begin_update w h m s) = sl_axis s"
  "sl_maxWidth (begin_update w h m s) = w" "sl_maxHeight (begin_update w h m s) = h" "sl_paddings (begin_update w h m s) = (\<lambda>_. 0)"
  by (simp_all add: begin_update_def setDimensions_def Let_def)

lemma right_angle: "0 \<le> d \<Longrightarrow> d \<le> 90 \<Longrightarrow> 0 \<le> sin (toRadians d) \<and> 0 \<le> cos (toRadians d)"
proof -
  assume d: "0 \<le> d" "d \<le> 90"
  have "d * (pi / 180) \<le> 90 * (pi / 180)" by (rule mult_right_mono [OF d(2)]) simp
  then have "0 \<le> toRadians d" "toRadians d \<le> pi / 2" using d(1) by (simp_all add: toRadians_def)
  then show ?thesis using sin_ge_zero [of "toRadians d"] cos_ge_zero [of "toRadians d"] pi_gt_zero by simp
qed

lemma axis_across:
  assumes prep: "prepare (begin_update w h m (axis_part p ax st)) = (s1, sizes, pf, pl)" and "keeps_space prepare"
  shows "across (axis_box i p ax fo prepare) (snd (axis_step p ax fo prepare st w h m)) =
    across (axis_box i p ax fo prepare) (fit_min_size fo sizes s1)"
proof -
  have k: "sl_pos s1 = p" "sl_axis s1 = ax"
    using assms unfolding keeps_space_def by (metis begin_update_fields(1,2) axis_part_fields)+
  have hz: "isHorizontal s1 = isHorizontal (blank_scale p ax)" by (rule isHorizontal_cong) (simp_all add: k blank_scale_def)
  show ?thesis
    by (simp add: axis_step_def axis_update_def prep across_def axis_box_def hz [symmetric] scale_fit_def Let_def split: prod.split)
qed

text \<open>An axis asks for no negative space across its side, whatever it is offered along it.\<close>

lemma axis_box_ok:
  assumes "sound_fit fo" "keeps_space prepare" and "p \<in> {Static SLeft, Static SRight} \<and> ax = AxisY \<or> p \<in> {Static STop, Static SBottom} \<and> ax = AxisX"
  shows "nonneg_box (axis_box i p ax fo prepare)" "bx_stack (axis_box i p ax fo prepare) = None"
    "bx_pos (axis_box i p ax fo prepare) \<noteq> ObjPos" "oriented (axis_box i p ax fo prepare)"
proof -
  have up: "bx_update (axis_box i p ax fo prepare) = axis_step p ax fo prepare" by (simp add: axis_box_def)
  have "0 \<le> across (axis_box i p ax fo prepare) (snd (axis_step p ax fo prepare st w h m))" if "0 \<le> w" "0 \<le> h" for st w h m
  proof -
    obtain s1 sizes pf pl where prep: "prepare (begin_update w h m (axis_part p ax st)) = (s1, sizes, pf, pl)" by (metis prod_cases4)
    have k: "sl_pos s1 = p" "sl_axis s1 = ax" "sl_maxWidth s1 = w" "sl_maxHeight s1 = h" "0 \<le> sl_rotation s1" "sl_rotation s1 \<le> 90"
        "0 \<le> fst (ls_widest sizes)" "0 \<le> snd (ls_highest sizes)"
      using assms(2) prep unfolding keeps_space_def by (metis begin_update_fields(1-4) axis_part_fields)+
    have hz: "isHorizontal s1 = isHorizontal (blank_scale p ax)" by (rule isHorizontal_cong) (simp_all add: k blank_scale_def)
    show ?thesis
      unfolding axis_across [OF prep assms(2)]
      using right_angle [OF k(5,6)] k(7,8) that assms(1)
      by (simp add: across_def axis_box_def fit_min_size_def Let_def hz [symmetric] k(3,4) sound_fit_def)
  qed
  then show "nonneg_box (axis_box i p ax fo prepare)" by (simp add: nonneg_box_def up)
  show "bx_stack (axis_box i p ax fo prepare) = None" "bx_pos (axis_box i p ax fo prepare) \<noteq> ObjPos" "oriented (axis_box i p ax fo prepare)"
    using assms(3) by (auto simp: axis_box_def oriented_def isHorizontal_def blank_scale_def)
qed

text \<open>Without labels the space across an axis is that of its tick marks and its title.\<close>

lemma axis_box_rigid:
  assumes "keeps_space prepare" and "\<not> fo_tickDisplay fo"
  shows "rigid (axis_box i p ax fo prepare)"
proof -
  have up: "bx_update (axis_box i p ax fo prepare) = axis_step p ax fo prepare" "bx_getPadding (axis_box i p ax fo prepare) = Some (axis_padding p ax)"
    by (simp_all add: axis_box_def)
  have ac: "across (axis_box i p ax fo prepare) (snd (axis_step p ax fo prepare st w h m)) = (if fo_display fo then fo_tickMark fo + fo_titleHeight fo else 0)"
    for st w h m
  proof -
    obtain s1 sizes pf pl where prep: "prepare (begin_update w h m (axis_part p ax st)) = (s1, sizes, pf, pl)" by (metis prod_cases4)
    have k: "sl_pos s1 = p" "sl_axis s1 = ax"
      using assms(1) prep unfolding keeps_space_def by (metis begin_update_fields(1,2) axis_part_fields)+
    have hz: "isHorizontal s1 = isHorizontal (blank_scale p ax)" by (rule isHorizontal_cong) (simp_all add: k blank_scale_def)
    show ?thesis unfolding axis_across [OF prep assms(1)]
      using assms(2) by (simp add: across_def axis_box_def fit_min_size_def Let_def hz [symmetric])
  qed
  have pad: "axis_padding p ax (fst (axis_step p ax fo prepare st w h m)) = (\<lambda>_. 0)" for st w h m
  proof -
    obtain s1 sizes pf pl where prep: "prepare (begin_update w h m (axis_part p ax st)) = (s1, sizes, pf, pl)" by (metis prod_cases4)
    then have "sl_paddings s1 = (\<lambda>_. 0)" using assms(1) unfolding keeps_space_def by (metis begin_update_fields(5))
    then show ?thesis using assms(2)
      by (simp add: axis_padding_def getPadding_def axis_step_def axis_update_def prep scale_fit_def handleMargins_def Let_def split: prod.split)
  qed
  show ?thesis unfolding rigid_def up using ac pad by auto
qed

section \<open>Charts of titles and axes\<close>

text \<open>
  C4 (boxes do not overlap). When the layout returns, every box at a side lies outside the chart area on its side, and two boxes at one side do not
  overlap. The boxes do not stack, have one of the five named positions, lie horizontally exactly at the top and the bottom, and never ask
  for negative space across their side when the space offered is not negative; nothing is assumed of the space they take along it. Titles
  and subtitles are such boxes (\<^verbatim>\<open>title_box_ok\<close>), and so are the axes of a chart (\<^verbatim>\<open>axis_box_ok\<close>).
\<close>

theorem layout_no_overlap:
  assumes "layout_update boxes padding wd ht mp = Some (boxes', c)"
    and "\<forall>b \<in> set boxes. nonneg_box b \<and> bx_stack b = None \<and> bx_pos b \<noteq> ObjPos \<and> oriented b"
    and "i < length boxes" and "bx_pos (boxes ! i) = Static s"
  shows "outside s (boxes' ! i) c \<and>
    (\<forall>j < length boxes. j \<noteq> i \<longrightarrow> bx_pos (boxes ! j) = Static s \<longrightarrow> apart s (boxes' ! i) (boxes' ! j))"
  using assms by (rule layout_apart)

text \<open>A chart with a title, a subtitle below it, an axis on the left with a title but no labels, and an axis without labels at the bottom.\<close>

definition sample_title :: "nat \<Rightarrow> part box" where
  "sample_title n = title_box n \<lparr>tl_display = True, tl_lines = [''messages''], tl_isArray = False, tl_padding = (\<lambda>_. 10),
     tl_font = ''bold 12px sans-serif'', tl_lineHeight = 72 / 5, tl_pos = Static STop, tl_align = ''center'', tl_color = ''#666'',
     tl_fullSize = True, tl_weight = 2000 - real n\<rparr>"

definition sample_prepare :: "scale \<Rightarrow> scale \<times> label_sizes \<times> real \<times> real" where
  "sample_prepare s = (s\<lparr>sl_rotation := 0\<rparr>,
     \<lparr>ls_first = (0, 0), ls_last = (0, 0), ls_widest = (0, 0), ls_highest = (0, 0), ls_all = []\<rparr>, 0, 0)"

definition sample_axis :: "nat \<Rightarrow> side \<Rightarrow> axis \<Rightarrow> part box" where
  "sample_axis n s ax = axis_box n (Static s) ax \<lparr>fo_display = True, fo_tickDisplay = False, fo_mirror = False, fo_padding = 3,
     fo_align = ''center'', fo_tickMark = 8, fo_titleHeight = 20, fo_chartWidth = 400, fo_chartHeight = 300\<rparr> sample_prepare"

definition sample_chart :: "part box list" where
  "sample_chart = [sample_title 0, sample_title 1, sample_axis 2 SLeft AxisY, sample_axis 3 SBottom AxisX]"

lemma sample_chart_ok:
  "\<forall>b \<in> set sample_chart. rigid b \<and> nonneg_box b \<and> bx_stack b = None \<and> bx_pos b \<noteq> ObjPos \<and> oriented b"
proof -
  have ks: "keeps_space sample_prepare" by (auto simp: keeps_space_def sample_prepare_def)
  have a: "rigid (sample_axis n s ax) \<and> nonneg_box (sample_axis n s ax) \<and> bx_stack (sample_axis n s ax) = None \<and>
      bx_pos (sample_axis n s ax) \<noteq> ObjPos \<and> oriented (sample_axis n s ax)"
    if "Static s \<in> {Static SLeft, Static SRight} \<and> ax = AxisY \<or> Static s \<in> {Static STop, Static SBottom} \<and> ax = AxisX" for n s ax
    unfolding sample_axis_def using axis_box_ok [OF _ ks that] axis_box_rigid [OF ks] by (simp add: sound_fit_def)
  have t: "rigid (sample_title n) \<and> nonneg_box (sample_title n) \<and> bx_stack (sample_title n) = None \<and>
      bx_pos (sample_title n) \<noteq> ObjPos \<and> oriented (sample_title n)" for n
    unfolding sample_title_def by (intro conjI title_box_ok) (simp_all add: sound_title_def)
  show ?thesis unfolding sample_chart_def using t a [of SLeft AxisY] a [of SBottom AxisX] by simp
qed

theorem layout_no_overlap_witness:
  "\<exists>boxes' c. layout_update sample_chart (\<lambda>s. 0) 400 300 (\<lambda>s. 0) = Some (boxes', c) \<and>
     outside STop (boxes' ! 0) c \<and> apart STop (boxes' ! 0) (boxes' ! 1)"
proof -
  have "\<exists>r. layout_update sample_chart (\<lambda>s. 0) 400 300 (\<lambda>s. 0) = Some r"
    using sample_chart_ok by (intro layout_returns_rigid) blast
  then obtain boxes' c where run: "layout_update sample_chart (\<lambda>s. 0) 400 300 (\<lambda>s. 0) = Some (boxes', c)" by auto
  have "0 < length sample_chart" "bx_pos (sample_chart ! 0) = Static STop"
    by (simp_all add: sample_chart_def sample_title_def title_box_def)
  from layout_no_overlap [OF run _ this] sample_chart_ok
  have "outside STop (boxes' ! 0) c \<and>
      (\<forall>j < length sample_chart. j \<noteq> 0 \<longrightarrow> bx_pos (sample_chart ! j) = Static STop \<longrightarrow> apart STop (boxes' ! 0) (boxes' ! j))"
    by blast
  then have "outside STop (boxes' ! 0) c \<and> apart STop (boxes' ! 0) (boxes' ! 1)"
    by (auto simp: sample_chart_def sample_title_def title_box_def elim: allE [of _ 1])
  with run show ?thesis by blast
qed

text \<open>
  The layout returns for charts whose boxes take the same space across their side and the same padding whatever they are offered:
  titles and subtitles do (\<^verbatim>\<open>title_box_ok\<close>), and axes without labels (\<^verbatim>\<open>axis_box_rigid\<close>). They neither stack nor have a position of their own.
\<close>

theorem layout_returns:
  assumes "\<forall>b \<in> set boxes. rigid b \<and> nonneg_box b \<and> bx_stack b = None \<and> bx_pos b \<noteq> ObjPos"
  shows "\<exists>r. layout_update boxes padding wd ht mp = Some r"
  using assms by (rule layout_returns_rigid)

theorem layout_returns_witness: "\<exists>r. layout_update sample_chart (\<lambda>s. 10) 600 200 (\<lambda>s. 0) = Some r"
  using sample_chart_ok by (intro layout_returns) blast

end
