(* ===== verification/Overview.thy ===== *)
theory Overview
  imports JS_Strings
begin

text \<open>
  The overview page (\<^verbatim>\<open>webui/src/Overview.svelte\<close>): the statistics of the broker turned into
  points of two line charts and into the numbers that the page shows.

  A histogram of the statistics is an object whose keys are the decimal texts of whole numbers of seconds: here
  a list of integer keys with their message counts. \<open>now\<close> is the time in seconds. An interval
  is positive: the page uses 1 and 60. Strings are their UTF-8 bytes. The chart is represented by
  what the page sets in it.
\<close>

section \<open>Points of a chart\<close>

record histogram =
  hg_values :: "(int \<times> nat) list"
  hg_min :: jsnum
  hg_max :: real

text \<open>The loop \<open>for(let i = min; i <= max; i += interval)\<close>.\<close>

function scatter_loop :: "(int \<Rightarrow> nat option) \<Rightarrow> real \<Rightarrow> int \<Rightarrow> int \<Rightarrow> (int \<times> nat) list" where
  "scatter_loop src mx interval i =
     (if of_int i \<le> mx \<and> 0 < interval then
        (case src i of
           None \<Rightarrow> (i, 0)
         | Some msg_count \<Rightarrow> (i, msg_count)) # scatter_loop src mx interval (i + interval)
      else [])"
  by pat_completeness auto
termination
  by (relation "measure (\<lambda>(src, mx, interval, i). nat (\<lfloor>mx\<rfloor> + 1 - i))") (auto simp: le_floor_iff)

declare scatter_loop.simps [simp del]

definition toScatterData :: "(int \<times> nat) list \<Rightarrow> int \<Rightarrow> real \<Rightarrow> histogram" where
  "toScatterData src interval now =
     (let keys = map fst src in
      if keys = [] then \<lparr>hg_values = [], hg_min = PInf, hg_max = now\<rparr>
      else
        let mn = Min (set keys); mx = max (of_int (Max (set keys))) now
        in \<lparr>hg_values = scatter_loop (map_of src) mx interval mn, hg_min = Fin (of_int mn), hg_max = mx\<rparr>)"

section \<open>Numbers of the page\<close>

text \<open>The decimal text of a natural number.\<close>

fun nat_text :: "nat \<Rightarrow> string" where
  "nat_text n = (if n < 10 then [char_of (48 + n)] else nat_text (n div 10) @ [char_of (48 + n mod 10)])"

declare nat_text.simps [simp del]

definition padStart :: "nat \<Rightarrow> char \<Rightarrow> string \<Rightarrow> string" where
  "padStart n c s = replicate (n - length s) c @ s"

text \<open>\<open>seconds\<close> is a natural number, so the number of days is never negative and is always shown.\<close>

definition formatDuration :: "nat \<Rightarrow> string" where
  "formatDuration seconds =
     (let s = padStart 2 CHR ''0'' (nat_text (seconds mod 60));
          m = padStart 2 CHR ''0'' (nat_text (seconds div 60 mod 60));
          h = padStart 2 CHR ''0'' (nat_text (seconds div 3600 mod 24));
          d = seconds div (3600 * 24)
      in (if 0 \<le> d then nat_text d @ '' days '' else []) @ h @ '':'' @ m @ '':'' @ s)"

record client =
  cl_hostname :: string
  cl_port :: nat

record stats =
  ss_total :: nat
  ss_sleep_level :: string
  ss_queue_depth :: nat
  ss_retained_count :: nat
  ss_retained_size :: nat
  ss_uptime :: nat
  ss_subscriptions :: "(string \<times> nat) list"
  ss_clients :: "(string \<times> client) list"
  ss_per_second :: "(int \<times> nat) list"
  ss_per_minute :: "(int \<times> nat) list"

record overview =
  ov_total :: nat
  ov_retained_count :: nat
  ov_retained_bytes :: nat
  ov_queue_depth :: nat
  ov_sleep_state :: string
  ov_subscriptions :: nat
  ov_uptime :: nat
  ov_clients :: "(string \<times> client) list"
  ov_firstRefresh :: bool
  ov_created :: nat
  ov_seconds :: "histogram option"
  ov_minutes :: "histogram option"

definition overview_start :: overview where
  "overview_start =
     \<lparr>ov_total = 0, ov_retained_count = 0, ov_retained_bytes = 0, ov_queue_depth = 0, ov_sleep_state = [],
      ov_subscriptions = 0, ov_uptime = 0, ov_clients = [], ov_firstRefresh = True, ov_created = 0,
      ov_seconds = None, ov_minutes = None\<rparr>"

definition sleep_text :: "string \<Rightarrow> string" where
  "sleep_text level =
     (if level = ''tens_of_milliseconds'' then ''10ms''
      else if level = ''milliseconds'' then ''1ms''
      else if level = ''microseconds'' then ''10'' @ [CHR 0xC2, CHR 0xB5] @ ''s''
      else if level = ''yield'' then ''yield''
      else level)"

definition onDataReceived :: "stats \<Rightarrow> overview \<Rightarrow> overview" where
  "onDataReceived st ov =
     ov\<lparr>ov_total := ss_total st, ov_retained_count := ss_retained_count st, ov_retained_bytes := ss_retained_size st,
       ov_queue_depth := ss_queue_depth st, ov_clients := ss_clients st,
       ov_sleep_state := sleep_text (ss_sleep_level st),
       ov_subscriptions := foldl (+) 0 (map snd (ss_subscriptions st)), ov_uptime := ss_uptime st\<rparr>"

text \<open>
  \<open>drawHistogram\<close> creates a chart and returns the function that replaces its data: both
  leave the chart with the given points and range.
\<close>

definition drawHistogram :: "histogram \<Rightarrow> overview \<Rightarrow> histogram \<times> overview" where
  "drawHistogram h ov = (h, ov\<lparr>ov_created := Suc (ov_created ov)\<rparr>)"

definition update_graph :: "histogram \<Rightarrow> histogram option \<Rightarrow> histogram option" where
  "update_graph h g = map_option (\<lambda>c. c\<lparr>hg_values := hg_values h, hg_min := hg_min h, hg_max := hg_max h\<rparr>) g"

text \<open>The callback of the polling manager, after the statistics have arrived.\<close>

definition refresh_callback :: "stats \<times> real \<Rightarrow> overview \<Rightarrow> overview" where
  "refresh_callback arrived ov =
     (let (st, now) = arrived;
          secs = toScatterData (ss_per_second st) 1 now;
          mins = toScatterData (ss_per_minute st) 60 now
      in if ov_firstRefresh ov then
           (let o1 = ov\<lparr>ov_firstRefresh := False\<rparr>;
                (gs, o2) = drawHistogram secs o1;
                (gm, o3) = drawHistogram mins o2
            in onDataReceived st (o3\<lparr>ov_seconds := Some gs, ov_minutes := Some gm\<rparr>))
         else onDataReceived st
                (ov\<lparr>ov_seconds := update_graph secs (ov_seconds ov), ov_minutes := update_graph mins (ov_minutes ov)\<rparr>))"

definition client_line :: "string \<times> client \<Rightarrow> string" where
  "client_line c =
     (let (name, cl) = c in
      if cl_port cl = 0 then ''['' @ name @ ''] Not connected''
      else ''['' @ name @ ''] connected from '' @ cl_hostname cl @ '':'' @ nat_text (cl_port cl))"

section \<open>Points: properties\<close>

definition count_at :: "(int \<times> nat) list \<Rightarrow> int \<Rightarrow> nat" where
  "count_at src i = (case map_of src i of None \<Rightarrow> 0 | Some c \<Rightarrow> c)"

lemma scatter_loop_points:
  assumes "0 < interval"
  shows "scatter_loop (map_of src) mx interval i =
    map (\<lambda>k. (i + int k * interval, count_at src (i + int k * interval)))
      [0..<nat ((\<lfloor>mx\<rfloor> - i) div interval + 1)]"
proof (induction "nat (\<lfloor>mx\<rfloor> + 1 - i)" arbitrary: i rule: less_induct)
  case less
  show ?case
  proof (cases "of_int i \<le> mx")
    case True
    then have i: "i \<le> \<lfloor>mx\<rfloor>" by (simp add: le_floor_iff)
    have "(\<lfloor>mx\<rfloor> - i) div interval = (\<lfloor>mx\<rfloor> - (i + interval)) div interval + 1"
      using assms div_add_self2 [of interval "\<lfloor>mx\<rfloor> - (i + interval)"] by simp
    moreover have "0 \<le> (\<lfloor>mx\<rfloor> - i) div interval" using i assms by (simp add: pos_imp_zdiv_nonneg_iff)
    ultimately have n: "nat ((\<lfloor>mx\<rfloor> - i) div interval + 1) = Suc (nat ((\<lfloor>mx\<rfloor> - (i + interval)) div interval + 1))"
      by simp
    have "scatter_loop (map_of src) mx interval (i + interval) =
        map (\<lambda>k. (i + interval + int k * interval, count_at src (i + interval + int k * interval)))
          [0..<nat ((\<lfloor>mx\<rfloor> - (i + interval)) div interval + 1)]"
      using less [of "i + interval"] i assms by simp
    then show ?thesis
      using True assms unfolding n
      by (subst scatter_loop.simps)
        (simp add: count_at_def upt_conv_Cons map_Suc_upt [symmetric] algebra_simps del: upt_Suc split: option.split)
  next
    case False
    then have "\<lfloor>mx\<rfloor> - i < 0" by (simp add: floor_less_iff)
    then have "(\<lfloor>mx\<rfloor> - i) div interval < 0" using assms by (simp add: pos_imp_zdiv_neg_iff)
    with False show ?thesis by (subst scatter_loop.simps) simp
  qed
qed

lemma toScatterData_points:
  assumes "src \<noteq> []" and "0 < interval"
  defines "mn \<equiv> Min (fst ` set src)"
  shows "\<exists>n \<ge> 1. hg_values (toScatterData src interval now) = map (\<lambda>k. (mn + int k * interval, count_at src (mn + int k * interval))) [0..<n] \<and>
    mn + int (n - 1) * interval \<le> \<lfloor>hg_max (toScatterData src interval now)\<rfloor> \<and>
    \<lfloor>hg_max (toScatterData src interval now)\<rfloor> < mn + int n * interval"
proof -
  let ?h = "toScatterData src interval now"
  define mx where "mx = \<lfloor>hg_max ?h\<rfloor>"
  have h: "hg_values ?h = scatter_loop (map_of src) (hg_max ?h) interval mn"
    "hg_max ?h = max (of_int (Max (fst ` set src))) now"
    using assms(1) by (simp_all add: toScatterData_def Let_def mn_def)
  have "mn \<le> Max (fst ` set src)" unfolding mn_def using assms(1) by simp
  then have le: "mn \<le> mx" unfolding mx_def h(2) by (simp add: le_floor_iff)
  define q where "q = (mx - mn) div interval"
  have q: "0 \<le> q" "q * interval \<le> mx - mn" "mx - mn < (q + 1) * interval"
    using le assms(2) by (simp_all add: q_def pos_imp_zdiv_nonneg_iff div_mult_mod_eq [symmetric] algebra_simps
        flip: minus_mod_eq_mult_div)
  show ?thesis
    using h(1) q by (intro exI [of _ "nat (q + 1)"]) (simp add: scatter_loop_points [OF assms(2)] mx_def [symmetric] q_def [symmetric] algebra_simps)
qed

lemma count_at_sum:
  assumes "distinct (map fst src)"
  shows "(\<Sum>key \<in> fst ` set src. count_at src key) = sum_list (map snd src)"
proof -
  have "count_at src k = v" if "(k, v) \<in> set src" for k v
    using that assms by (simp add: count_at_def)
  then have "map (count_at src) (map fst src) = map snd src" by auto
  then show ?thesis using assms by (metis list.set_map sum_list_distinct_conv_sum_set)
qed

lemma count_at_outside: "key \<notin> fst ` set src \<Longrightarrow> count_at src key = 0"
  using map_of_eq_None_iff [of src key] by (simp add: count_at_def)

lemma scatter_sum:
  assumes "distinct (map fst src)" and "0 < interval"
    and "\<And>key. key \<in> fst ` set src \<Longrightarrow> \<exists>k < n. key = mn + int k * interval"
  shows "sum_list (map (\<lambda>k. count_at src (mn + int k * interval)) [0..<n]) = sum_list (map snd src)"
proof -
  let ?g = "\<lambda>k. mn + int k * interval"
  have inj: "inj_on ?g {..<n}" using assms(2) by (auto simp: inj_on_def)
  have "sum_list (map (\<lambda>k. count_at src (?g k)) [0..<n]) = (\<Sum>k<n. count_at src (?g k))"
    by (simp add: interv_sum_list_conv_sum_set_nat lessThan_atLeast0)
  also have "\<dots> = (\<Sum>key \<in> ?g ` {..<n}. count_at src key)" by (simp add: sum.reindex [OF inj])
  also have "\<dots> = (\<Sum>key \<in> fst ` set src. count_at src key)"
  proof (rule sum.mono_neutral_right)
    show "fst ` set src \<subseteq> ?g ` {..<n}" using assms(3) by blast
  qed (simp_all add: count_at_outside)
  finally show ?thesis using count_at_sum [OF assms(1)] by simp
qed

text \<open>
  C6 (the points of a chart). For statistics with distinct keys the points of a chart are evenly spaced by the interval, from the first key
  up to the present or the last key; every point has the count of its key or zero; and when the keys are whole
  intervals apart, no message is lost: the points add up to the counts of the statistics.
\<close>

theorem scatter_keeps_messages:
  assumes "src \<noteq> []" and "distinct (map fst src)" and "0 < interval"
    and "h = toScatterData src interval now" and "mn = Min (fst ` set src)"
  shows "\<exists>n \<ge> 1. hg_values h = map (\<lambda>k. (mn + int k * interval, count_at src (mn + int k * interval))) [0..<n] \<and>
    of_int (mn + int (n - 1) * interval) \<le> hg_max h \<and> hg_max h < of_int (mn + int n * interval) \<and> now \<le> hg_max h \<and>
    ((\<forall>key \<in> fst ` set src. interval dvd key - mn) \<longrightarrow> sum_list (map snd (hg_values h)) = sum_list (map snd src))"
proof -
  obtain n where n: "1 \<le> n" "hg_values h = map (\<lambda>k. (mn + int k * interval, count_at src (mn + int k * interval))) [0..<n]"
    "mn + int (n - 1) * interval \<le> \<lfloor>hg_max h\<rfloor>" "\<lfloor>hg_max h\<rfloor> < mn + int n * interval"
    using toScatterData_points [OF assms(1,3), of now] unfolding assms(4,5) by blast
  have mx: "hg_max h = max (of_int (Max (fst ` set src))) now"
    using assms(1) by (simp add: assms(4) toScatterData_def Let_def)
  have "sum_list (map snd (hg_values h)) = sum_list (map snd src)"
    if dvd: "\<forall>key \<in> fst ` set src. interval dvd key - mn"
  proof -
    have "\<exists>k < n. key = mn + int k * interval" if key: "key \<in> fst ` set src" for key
    proof -
      have "mn \<le> key" using key by (simp add: assms(5))
      moreover have "of_int key \<le> hg_max h" using key by (simp add: mx le_max_iff_disj)
      then have "key < mn + int n * interval" using n(4) by (simp add: floor_less_iff [symmetric] le_floor_iff [symmetric])
      moreover obtain j where j: "key - mn = interval * j" using dvd key by blast
      ultimately have "0 \<le> interval * j" "interval * j < interval * int n" by (simp_all add: algebra_simps)
      then have "0 \<le> j" "j < int n" using assms(3) by (simp_all add: zero_le_mult_iff)
      with j show ?thesis by (intro exI [of _ "nat j"]) (simp add: algebra_simps nat_less_iff)
    qed
    from scatter_sum [OF assms(2,3) this] show ?thesis by (simp add: n(2) comp_def)
  qed
  then show ?thesis using n mx by (auto simp: floor_less_iff le_floor_iff)
qed

theorem scatter_keeps_messages_witness:
  "sum_list (map snd (hg_values (toScatterData [(120, 5), (240, 7)] 60 250))) = 12"
  using scatter_keeps_messages [of "[(120, 5), (240, 7)]" 60 _ 250, OF _ _ _ refl refl] by auto

section \<open>Numbers: properties\<close>

lemma nat_text_one: "n < 10 \<Longrightarrow> nat_text n = [char_of (48 + n)]"
  by (subst nat_text.simps) simp

lemma nat_text_two: "10 \<le> n \<Longrightarrow> n < 100 \<Longrightarrow> nat_text n = [char_of (48 + n div 10), char_of (48 + n mod 10)]"
  by (subst nat_text.simps) (simp add: nat_text_one)

lemma char_0: "char_of (48 :: nat) = CHR ''0''"
  by (simp add: char_of_def bit_0)

lemma pad_two: "n < 100 \<Longrightarrow> padStart 2 CHR ''0'' (nat_text n) = [char_of (48 + n div 10), char_of (48 + n mod 10)]"
  by (cases "n < 10") (simp_all add: padStart_def nat_text_one nat_text_two char_0)

lemma digit_char_inj: "m < 10 \<Longrightarrow> n < 10 \<Longrightarrow> (char_of (48 + m) :: char) = char_of (48 + n) \<longleftrightarrow> m = n"
  for m n :: nat
  by (simp add: char_of_eq_iff take_bit_eq_mod)

lemma pad_two_inj:
  assumes "m < 100" "n < 100" and "padStart 2 CHR ''0'' (nat_text m) = padStart 2 CHR ''0'' (nat_text n)"
  shows "m = n"
proof -
  have "m div 10 < 10" "n div 10 < 10" "m mod 10 < 10" "n mod 10 < 10" using assms(1,2) by simp_all
  with assms have "m div 10 = n div 10 \<and> m mod 10 = n mod 10" by (simp add: pad_two digit_char_inj)
  then show ?thesis by (metis div_mod_decomp)
qed

lemma nat_text_inj: "nat_text m = nat_text n \<Longrightarrow> m = n"
proof (induction m arbitrary: n rule: less_induct)
  case (less m)
  have ne: "nat_text k \<noteq> []" "[] \<noteq> nat_text k" for k by (subst nat_text.simps; simp)+
  show ?case
  proof (cases "m < 10")
    case True
    with less.prems show ?thesis
      by (cases "n < 10") (auto simp: nat_text.simps [of m] nat_text.simps [of n] digit_char_inj ne)
  next
    case m: False
    show ?thesis
    proof (cases "n < 10")
      case False
      with m less.prems have "nat_text (m div 10) = nat_text (n div 10)" "m mod 10 = n mod 10"
        by (simp_all add: nat_text.simps [of m] nat_text.simps [of n] digit_char_inj)
      with less.IH [of "m div 10" "n div 10"] m show ?thesis by (metis div_less_dividend div_mod_decomp le_eq_less_or_eq
            not_less numeral_less_iff one_less_numeral_iff semiring_norm(76) zero_less_numeral order_less_le_trans)
    qed (use m less.prems in \<open>auto simp: nat_text.simps [of m] nat_text.simps [of n] ne\<close>)
  qed
qed

text \<open>
  Durations. The text of a duration shows its days, hours, minutes and seconds, each within its range and together the whole
  duration; so no two durations are shown alike.
\<close>

theorem formatDuration_exact:
  "(\<exists>d h m s. formatDuration t = nat_text d @ '' days '' @ padStart 2 CHR ''0'' (nat_text h) @ '':'' @
      padStart 2 CHR ''0'' (nat_text m) @ '':'' @ padStart 2 CHR ''0'' (nat_text s) \<and>
      h < 24 \<and> m < 60 \<and> s < 60 \<and> t = ((d * 24 + h) * 60 + m) * 60 + s) \<and>
   (formatDuration t = formatDuration u \<longleftrightarrow> t = u)"
proof -
  define d h m s where "d u = u div (3600 * 24)" and "h u = u div 3600 mod 24" and "m u = u div 60 mod 60" and "s u = u mod 60"
    for u :: nat
  have f: "formatDuration u = nat_text (d u) @ '' days '' @ padStart 2 CHR ''0'' (nat_text (h u)) @ '':'' @
      padStart 2 CHR ''0'' (nat_text (m u)) @ '':'' @ padStart 2 CHR ''0'' (nat_text (s u))" for u
    by (simp add: formatDuration_def Let_def d_def h_def m_def s_def)
  have r: "h u < 24" "m u < 60" "s u < 60" for u by (simp_all add: h_def m_def s_def)
  have sum: "u = ((d u * 24 + h u) * 60 + m u) * 60 + s u" for u
  proof -
    have "u div 60 = u div 60 div 60 * 60 + u div 60 mod 60" "u = u div 60 * 60 + u mod 60"
      "u div 3600 = u div 3600 div 24 * 24 + u div 3600 mod 24" by (simp_all only: div_mult_mod_eq)
    then show ?thesis by (simp add: d_def h_def m_def s_def div_mult2_eq [symmetric])
  qed
  have "t = u" if e: "formatDuration t = formatDuration u"
  proof -
    have len: "length (padStart 2 CHR ''0'' (nat_text n)) = 2" if "n < 100" for n using that by (simp add: pad_two)
    have lens: "length (padStart 2 CHR ''0'' (nat_text (h v))) = 2" "length (padStart 2 CHR ''0'' (nat_text (m v))) = 2"
      "length (padStart 2 CHR ''0'' (nat_text (s v))) = 2" for v using r [of v] by (simp_all add: len)
    have "d t = d u" "padStart 2 CHR ''0'' (nat_text (h t)) = padStart 2 CHR ''0'' (nat_text (h u))"
      "padStart 2 CHR ''0'' (nat_text (m t)) = padStart 2 CHR ''0'' (nat_text (m u))"
      "padStart 2 CHR ''0'' (nat_text (s t)) = padStart 2 CHR ''0'' (nat_text (s u))"
      using e lens nat_text_inj by (auto simp: f append_eq_append_conv)
    moreover have "h v < 100" "m v < 100" "s v < 100" for v using r [of v] by simp_all
    ultimately have "d t = d u" "h t = h u" "m t = m u" "s t = s u" by (simp_all add: pad_two_inj)
    then show ?thesis using sum [of t] sum [of u] by simp
  qed
  moreover note f [of t] r [of t] sum [of t]
  ultimately show ?thesis by blast
qed

section \<open>The page: properties\<close>

lemma onDataReceived_graphs [simp]:
  "ov_created (onDataReceived st ov) = ov_created ov" "ov_seconds (onDataReceived st ov) = ov_seconds ov"
  "ov_minutes (onDataReceived st ov) = ov_minutes ov" "ov_firstRefresh (onDataReceived st ov) = ov_firstRefresh ov"
  by (simp_all add: onDataReceived_def)

definition page_ok :: "overview \<Rightarrow> bool" where
  "page_ok ov \<longleftrightarrow>
     (if ov_firstRefresh ov then ov_created ov = 0 \<and> ov_seconds ov = None \<and> ov_minutes ov = None
      else ov_created ov = 2 \<and> ov_seconds ov \<noteq> None \<and> ov_minutes ov \<noteq> None)"

lemma refresh_callback_ok:
  assumes "page_ok ov"
  shows "page_ok (refresh_callback (st, now) ov) \<and> \<not> ov_firstRefresh (refresh_callback (st, now) ov) \<and>
    ov_seconds (refresh_callback (st, now) ov) = Some (toScatterData (ss_per_second st) 1 now) \<and>
    ov_minutes (refresh_callback (st, now) ov) = Some (toScatterData (ss_per_minute st) 60 now) \<and>
    ov_total (refresh_callback (st, now) ov) = ss_total st \<and>
    ov_subscriptions (refresh_callback (st, now) ov) = sum_list (map snd (ss_subscriptions st))"
proof -
  have sum: "foldl (+) a xs = a + sum_list xs" for a and xs :: "nat list"
    by (induction xs arbitrary: a) simp_all
  have data: "ov_total (onDataReceived st x) = ss_total st"
    "ov_subscriptions (onDataReceived st x) = sum_list (map snd (ss_subscriptions st))" for x
    by (simp_all add: onDataReceived_def sum)
  show ?thesis
  proof (cases "ov_firstRefresh ov")
    case True
    with assms show ?thesis by (simp add: page_ok_def refresh_callback_def drawHistogram_def Let_def data)
  next
    case False
    with assms obtain gs gm where "ov_seconds ov = Some gs" "ov_minutes ov = Some gm" "ov_created ov = 2"
      by (auto simp: page_ok_def)
    with False show ?thesis by (simp add: page_ok_def refresh_callback_def update_graph_def Let_def data)
  qed
qed

lemma page_ok_runs: "page_ok ov \<Longrightarrow> page_ok (fold refresh_callback arrivals ov)"
  using refresh_callback_ok by (induction arrivals arbitrary: ov) auto

text \<open>
  The page shows the last statistics. However many statistics have arrived since the page was opened, the two charts have been
  created once, and the charts and numbers are those of the statistics that arrived last.
\<close>

theorem page_shows_last:
  "let ov = fold refresh_callback (earlier @ [(st, now)]) overview_start in
     ov_created ov = 2 \<and> ov_seconds ov = Some (toScatterData (ss_per_second st) 1 now) \<and>
     ov_minutes ov = Some (toScatterData (ss_per_minute st) 60 now) \<and> ov_total ov = ss_total st \<and>
     ov_subscriptions ov = sum_list (map snd (ss_subscriptions st))"
proof -
  have "page_ok (fold refresh_callback earlier overview_start)"
    by (rule page_ok_runs) (simp add: page_ok_def overview_start_def)
  from refresh_callback_ok [OF this, of st now] show ?thesis by (auto simp: page_ok_def Let_def split: if_splits)
qed

end
