(* ===== verification/Linear_Scale.thy ===== *)
theory Linear_Scale
  imports Scale "HOL-Library.Monad_Syntax"
begin

text \<open>
  The linear axis (\<^verbatim>\<open>chart.js\<close>, \<open>generateTicks$1\<close>, \<open>relativeLabelSize\<close>, the
  classes \<open>LinearScaleBase\<close> and \<open>LinearScale\<close>).

  Limits and ticks are exact reals. Generating ticks asks for the number of decimals of the spacing, and the
  loop that counts them ends only for finite decimals: a list of ticks is \<open>None\<close> when it does not
  end. The range of the data is not empty, and more than one tick is allowed. Options that may be
  missing are \<open>option\<close> values; a missing step size is 0. \<open>strlen\<close> gives the length
  of the text of a number.
\<close>

section \<open>Generating ticks\<close>

record tick_gen =
  tg_ticksBounds :: bool
  tg_step :: real
  tg_min :: "real option"
  tg_max :: "real option"
  tg_precision :: "nat option"
  tg_count :: "real option"
  tg_maxTicks :: real
  tg_maxDigits :: real
  tg_horizontal :: bool
  tg_minRotation :: real
  tg_includeBounds :: bool

definition relativeLabelSize :: "(real \<Rightarrow> nat) \<Rightarrow> real \<Rightarrow> real \<Rightarrow> tick_gen \<Rightarrow> real" where
  "relativeLabelSize strlen v minSpacing g =
     (let rad = toRadians (tg_minRotation g);
          ratio0 = (if tg_horizontal g then sin rad else cos rad);
          ratio = (if ratio0 \<noteq> 0 then ratio0 else 1 / 1000)
      in min (minSpacing / ratio) (3 / 4 * minSpacing * real (strlen v)))"

definition unit_of :: "tick_gen \<Rightarrow> real" where
  "unit_of g = (if tg_step g \<noteq> 0 then tg_step g else 1)"

definition first_spacing :: "tick_gen \<Rightarrow> real \<Rightarrow> real \<Rightarrow> real" where
  "first_spacing g rmin rmax = niceNum ((rmax - rmin) / (tg_maxTicks g - 1) / unit_of g) * unit_of g"

definition tick_spacing :: "tick_gen \<Rightarrow> real \<Rightarrow> real \<Rightarrow> real" where
  "tick_spacing g rmin rmax =
     (let maxSpaces = tg_maxTicks g - 1;
          s0 = first_spacing g rmin rmax;
          numSpaces = of_int (\<lceil>rmax / s0\<rceil> - \<lfloor>rmin / s0\<rfloor>);
          s1 = (if numSpaces > maxSpaces then niceNum (numSpaces * s0 / maxSpaces / unit_of g) * unit_of g else s0)
      in case tg_precision g of
           None \<Rightarrow> s1
         | Some p \<Rightarrow> of_int \<lceil>s1 * 10 ^ p\<rceil> / 10 ^ p)"

text \<open>\<open>spacing\<close>, \<open>niceMin\<close>, \<open>niceMax\<close> and \<open>numSpaces\<close> after the three branches.\<close>

definition tick_layout :: "tick_gen \<Rightarrow> real \<Rightarrow> real \<Rightarrow> real \<Rightarrow> real \<times> real \<times> real \<times> real" where
  "tick_layout g rmin rmax spacing =
     (let niceMin = (if tg_ticksBounds g then of_int \<lfloor>rmin / spacing\<rfloor> * spacing else rmin);
          niceMax = (if tg_ticksBounds g then of_int \<lceil>rmax / spacing\<rceil> * spacing else rmax);
          equal = (case (tg_min g, tg_max g) of
             (Some mn, Some mx) \<Rightarrow>
               if tg_step g \<noteq> 0 \<and> almostWhole ((mx - mn) / tg_step g) (spacing / 1000) then Some (mn, mx) else None
           | _ \<Rightarrow> None)
      in case equal of
           Some (mn, mx) \<Rightarrow>
             (let numSpaces = of_int (round_half_up (min ((mx - mn) / spacing) (tg_maxTicks g)))
              in ((mx - mn) / numSpaces, mn, mx, numSpaces))
         | None \<Rightarrow>
             (case tg_count g of
                Some cnt \<Rightarrow>
                  (let mn = (case tg_min g of Some m \<Rightarrow> m | None \<Rightarrow> niceMin);
                       mx = (case tg_max g of Some m \<Rightarrow> m | None \<Rightarrow> niceMax)
                   in ((mx - mn) / (cnt - 1), mn, mx, cnt - 1))
              | None \<Rightarrow>
                  (let n = (niceMax - niceMin) / spacing
                   in (spacing, niceMin, niceMax,
                       if almostEquals n (of_int (round_half_up n)) (spacing / 1000) then of_int (round_half_up n)
                       else of_int \<lceil>n\<rceil>))))"

definition round_to :: "real \<Rightarrow> real \<Rightarrow> real" where
  "round_to factor x = of_int (round_half_up (x * factor)) / factor"

text \<open>The ticks before the loop over \<open>j\<close>, and the first \<open>j\<close>.\<close>

definition low_ticks :: "tick_gen \<Rightarrow> (real \<Rightarrow> nat) \<Rightarrow> real \<Rightarrow> real \<Rightarrow> real \<Rightarrow> real \<Rightarrow> real list \<times> nat" where
  "low_ticks g strlen minSpacing factor niceMin spacing =
     (case tg_min g of
        None \<Rightarrow> ([], 0)
      | Some mn \<Rightarrow>
          (if tg_includeBounds g \<and> niceMin \<noteq> mn then
             (let j = (if niceMin < mn then 1 else 0)
              in ([mn], if almostEquals (round_to factor (niceMin + real j * spacing)) mn
                             (relativeLabelSize strlen mn minSpacing g) then j + 1 else j))
           else ([], if niceMin < mn then 1 else 0)))"

definition high_ticks :: "tick_gen \<Rightarrow> (real \<Rightarrow> nat) \<Rightarrow> real \<Rightarrow> real \<Rightarrow> real list \<Rightarrow> real list" where
  "high_ticks g strlen minSpacing niceMax ticks =
     (case tg_max g of
        None \<Rightarrow> ticks @ [niceMax]
      | Some mx \<Rightarrow>
          (if tg_includeBounds g \<and> niceMax \<noteq> mx then
             (if ticks \<noteq> [] \<and> almostEquals (last ticks) mx (relativeLabelSize strlen mx minSpacing g)
              then butlast ticks @ [mx] else ticks @ [mx])
           else if niceMax = mx then ticks @ [niceMax] else ticks))"

definition generateTicks :: "tick_gen \<Rightarrow> (real \<Rightarrow> nat) \<Rightarrow> real \<times> real \<Rightarrow> real list option" where
  "generateTicks g strlen dataRange =
     (let (rmin, rmax) = dataRange;
          minSpacing = (rmax - rmin) / (tg_maxDigits g + 1)
      in if first_spacing g rmin rmax < 1 / 10 ^ 14 \<and> tg_min g = None \<and> tg_max g = None then Some [rmin, rmax]
         else
           let (spacing, niceMin0, niceMax0, numSpaces) = tick_layout g rmin rmax (tick_spacing g rmin rmax)
           in do {
             ds \<leftarrow> decimalPlaces spacing;
             dm \<leftarrow> decimalPlaces niceMin0;
             let factor = 10 ^ (case tg_precision g of None \<Rightarrow> max ds dm | Some p \<Rightarrow> p);
             let niceMin = round_to factor niceMin0;
             let niceMax = round_to factor niceMax0;
             let (low, j) = low_ticks g strlen minSpacing factor niceMin spacing;
             let inner = map (\<lambda>j. round_to factor (niceMin + real j * spacing)) [j..<nat \<lceil>numSpaces\<rceil>];
             Some (high_ticks g strlen minSpacing niceMax (low @ inner))
           })"

section \<open>The axis\<close>

record linear =
  ln_min :: real
  ln_max :: real
  ln_start :: real
  ln_end :: real
  ln_startValue :: real
  ln_endValue :: real
  ln_valueRange :: real

text \<open>The conversion \<open>+raw\<close> of other values is \<open>to_num\<close>.\<close>

definition parse :: "jsval \<Rightarrow> jsval" where
  "parse raw =
     (if raw = Null \<or> raw = Undefined then Null
      else case raw of
        Num x \<Rightarrow> if is_finite x then raw else Null
      | _ \<Rightarrow> Num (to_num raw))"

text \<open>The closures \<open>setMin\<close> and \<open>setMax\<close>: a limit that the user has defined stays.\<close>

definition set_limit :: "bool \<Rightarrow> real \<Rightarrow> real \<Rightarrow> real" where
  "set_limit defined old v = (if defined then old else v)"

definition begin_at_zero :: "bool \<Rightarrow> bool \<Rightarrow> bool \<Rightarrow> real \<times> real \<Rightarrow> real \<times> real" where
  "begin_at_zero beginAtZero minDefined maxDefined mm =
     (let (mn, mx) = mm in
      if beginAtZero then
        (if sgn mn < 0 \<and> sgn mx < 0 then (mn, set_limit maxDefined mx 0)
         else if 0 < sgn mn \<and> 0 < sgn mx then (set_limit minDefined mn 0, mx) else (mn, mx))
      else (mn, mx))"

definition handleTickRangeOptions :: "bool \<Rightarrow> bool \<Rightarrow> bool \<Rightarrow> real \<times> real \<Rightarrow> real \<times> real" where
  "handleTickRangeOptions beginAtZero minDefined maxDefined mm =
     (let (mn, mx) = begin_at_zero beginAtZero minDefined maxDefined mm
      in if mn = mx then
           (let offset = (if mx \<ge> 2 ^ 53 - 1 \<or> mn \<le> - (2 ^ 53 - 1) then \<bar>mx * (1 / 20)\<bar> else 1)
            in (if beginAtZero then mn else set_limit minDefined mn (mn - offset), set_limit maxDefined mx (mx + offset)))
         else (mn, mx))"

definition determineDataLimits :: "bool \<Rightarrow> user_bounds \<Rightarrow> jsnum \<times> jsnum \<Rightarrow> linear \<Rightarrow> linear" where
  "determineDataLimits beginAtZero ub mm l =
     (let mn = (case fst mm of Fin x \<Rightarrow> x | _ \<Rightarrow> 0);
          mx = (case snd mm of Fin x \<Rightarrow> x | _ \<Rightarrow> 1);
          (mn', mx') = handleTickRangeOptions beginAtZero (ub_minDefined ub) (ub_maxDefined ub) (mn, mx)
      in l\<lparr>ln_min := mn', ln_max := mx'\<rparr>)"

definition computeTickLimit :: "scale \<Rightarrow> real \<Rightarrow> real \<Rightarrow> real" where
  "computeTickLimit s minRotation0 lineHeight =
     (let h = isHorizontal s;
          len = (if h then sl_width s else sl_height s);
          minRotation = toRadians minRotation0;
          ratio0 = (if h then sin minRotation else cos minRotation);
          ratio = (if ratio0 \<noteq> 0 then ratio0 else 1 / 1000)
      in of_int \<lceil>len / min 40 (lineHeight / ratio)\<rceil>)"

definition getTickLimit :: "real option \<Rightarrow> real \<Rightarrow> real \<Rightarrow> linear \<Rightarrow> real" where
  "getTickLimit maxTicksLimit stepSize tickLimit l =
     (let given = (case maxTicksLimit of Some m \<Rightarrow> m \<noteq> 0 | None \<Rightarrow> False) in
      if stepSize \<noteq> 0 then
        (let maxTicks = min 1000 (of_int (\<lceil>ln_max l / stepSize\<rceil> - \<lfloor>ln_min l / stepSize\<rfloor> + 1))
         in if given then min (the maxTicksLimit) maxTicks else maxTicks)
      else min (if given then the maxTicksLimit else 11) tickLimit)"

text \<open>\<open>_setMinAndMaxByKey\<close> on the ticks, with the axis as target.\<close>

definition widen :: "real list \<Rightarrow> linear \<Rightarrow> linear" where
  "widen ticks l = fold (\<lambda>v a. a\<lparr>ln_min := min (ln_min a) v, ln_max := max (ln_max a) v\<rparr>) ticks l"

text \<open>
  \<open>g\<close> holds the options, its maximal number of ticks is that of \<open>getTickLimit\<close>. \<open>range'\<close> is the property \<open>_range\<close>, the limits
  widened by the grace, which the last search for limits left.
\<close>

definition buildTicks :: "tick_gen \<Rightarrow> bool \<Rightarrow> (real \<Rightarrow> nat) \<Rightarrow> real \<Rightarrow> (real \<times> real) option \<Rightarrow> linear \<Rightarrow> (real list \<times> linear) option" where
  "buildTicks g reverse strlen tickLimit range' l =
     do {
       let dataRange = (case range' of Some r \<Rightarrow> r | None \<Rightarrow> (ln_min l, ln_max l));
       ticks \<leftarrow> generateTicks (g\<lparr>tg_maxTicks := max 2 tickLimit\<rparr>) strlen dataRange;
       let l1 = (if tg_ticksBounds g then widen ticks l else l);
       Some (if reverse then (rev ticks, l1\<lparr>ln_start := ln_max l1, ln_end := ln_min l1\<rparr>)
             else (ticks, l1\<lparr>ln_start := ln_min l1, ln_end := ln_max l1\<rparr>))
     }"

definition configure :: "bool \<Rightarrow> nat \<Rightarrow> scale \<Rightarrow> linear \<Rightarrow> scale \<times> linear" where
  "configure offsetOption ticksLength s l =
     (let start = ln_min l; stop = ln_max l;
          offset = (if offsetOption \<and> ticksLength \<noteq> 0 then (stop - start) / max (real ticksLength - 1) 1 / 2 else 0);
          start' = start - offset; stop' = stop + offset
      in (scale_configure s, l\<lparr>ln_startValue := start', ln_endValue := stop', ln_valueRange := stop' - start'\<rparr>))"

definition getPixelForValue :: "real \<Rightarrow> scale \<Rightarrow> linear \<Rightarrow> jsnum option \<Rightarrow> jsnum" where
  "getPixelForValue ratio s l v =
     (case v of
        None \<Rightarrow> NaN
      | Some x \<Rightarrow> getPixelForDecimal ratio s ((x - Fin (ln_startValue l)) / Fin (ln_valueRange l)))"

definition getValueForPixel :: "scale \<Rightarrow> linear \<Rightarrow> jsnum \<Rightarrow> jsnum" where
  "getValueForPixel s l pixel = Fin (ln_startValue l) + getDecimalForPixel s pixel * Fin (ln_valueRange l)"

section \<open>Decimals\<close>

text \<open>A number with at most \<open>p\<close> decimal places.\<close>

definition decimal :: "nat \<Rightarrow> real \<Rightarrow> bool" where
  "decimal p x \<longleftrightarrow> x * 10 ^ p \<in> \<int>"

lemma decimal_mono: "decimal p x \<Longrightarrow> p \<le> q \<Longrightarrow> decimal q x"
proof -
  assume "decimal p x" and "p \<le> q"
  then have "x * 10 ^ q = x * 10 ^ p * 10 ^ (q - p)" by (simp flip: power_add)
  with \<open>decimal p x\<close> show ?thesis unfolding decimal_def by (metis Ints_mult Ints_numeral Ints_power)
qed

lemma decimal_add: "decimal p x \<Longrightarrow> decimal p y \<Longrightarrow> decimal p (x + y)"
  by (simp add: decimal_def algebra_simps)

lemma decimal_mult_of_int: "decimal p x \<Longrightarrow> decimal p (of_int i * x)"
  unfolding decimal_def by (metis Ints_mult Ints_of_int mult.assoc)

lemma round_Ints: "x \<in> \<int> \<Longrightarrow> of_int (round_half_up x) = x"
  by (auto elim!: Ints_cases simp: round_half_up_def floor_eq_iff)

lemma round_to_decimal: "decimal p x \<Longrightarrow> round_to (10 ^ p) x = x"
  by (simp add: round_to_def decimal_def round_Ints)

lemma decimalPlaces_loop_ends:
  "decimal (p + n) v \<Longrightarrow> \<exists>q. decimalPlaces_loop v (10 ^ p) p = Some q \<and> decimal q v"
proof (induction n arbitrary: p)
  case 0
  then have "of_int (round_half_up (v * 10 ^ p)) = v * 10 ^ p" by (simp add: decimal_def round_Ints)
  with 0 show ?case by (subst decimalPlaces_loop.simps) simp
next
  case (Suc n)
  show ?case
  proof (cases "of_int (round_half_up (v * 10 ^ p)) / 10 ^ p = v")
    case True
    then have "v * 10 ^ p = of_int (round_half_up (v * 10 ^ p))" by (simp add: field_simps)
    then have "decimal p v" unfolding decimal_def by (metis Ints_of_int)
    with True show ?thesis by (subst decimalPlaces_loop.simps) simp
  next
    case False
    with Suc.IH [of "Suc p"] Suc.prems show ?thesis
      by (subst decimalPlaces_loop.simps) (simp add: mult.commute)
  qed
qed

lemma decimalPlaces_ends: "decimal p v \<Longrightarrow> \<exists>q. decimalPlaces v = Some q \<and> decimal q v"
  using decimalPlaces_loop_ends [of 0 p v] by (simp add: decimalPlaces_def)

text \<open>The numbers that \<open>niceNum\<close> returns.\<close>

definition nice :: "real \<Rightarrow> bool" where
  "nice s \<longleftrightarrow> (\<exists>m k. m \<in> {1, 2, 5, 10} \<and> s = m * 10 powr of_int k)"

lemma nice_niceNum: "nice (niceNum x)"
proof -
  define y where "y = (if almostEquals x (of_int (round_half_up x)) (x / 1000) then of_int (round_half_up x) else x)"
  define k where "k = \<lfloor>log 10 y\<rfloor>"
  define f where "f = y / 10 powr of_int k"
  have "niceNum x = (if f \<le> 1 then 1 else if f \<le> 2 then 2 else if f \<le> 5 then 5 else 10) * 10 powr of_int k"
    by (simp add: niceNum_def Let_def y_def k_def f_def)
  then show ?thesis unfolding nice_def
    by (intro exI [of _ "if f \<le> 1 then 1 else if f \<le> 2 then 2 else if f \<le> 5 then 5 else 10"] exI [of _ k]) simp
qed

lemma nice_pos: "nice s \<Longrightarrow> 0 < s"
  by (auto simp: nice_def)

lemma nice_decimal:
  assumes "nice s"
  shows "\<exists>p. decimal p s"
proof -
  from assms obtain m k where s: "s = m * 10 powr of_int k" "m \<in> {1, 2, 5, 10}" by (auto simp: nice_def)
  define n where "n = nat (- k)"
  have "0 \<le> k + int n" by (simp add: n_def)
  then obtain m' where m': "k + int n = int m'" by (rule nonneg_int_cases)
  have "10 powr of_int k * 10 ^ n = (10 :: real) powr of_int k * 10 powr real n" by (simp add: powr_realpow)
  also have "\<dots> = 10 powr of_int (k + int n)" by (simp only: powr_add [symmetric] of_int_add of_int_of_nat_eq)
  also have "\<dots> = 10 ^ m'" by (simp add: m' powr_realpow)
  finally have "s * 10 ^ n = m * 10 ^ m'" using s(1) by simp
  with s(2) show ?thesis unfolding decimal_def by (metis Ints_1 Ints_mult Ints_numeral Ints_power insertE singletonD)
qed

section \<open>Ticks: properties\<close>

text \<open>The options of an axis whose user gives neither limits nor a number of ticks nor a step.\<close>

definition automatic :: "tick_gen \<Rightarrow> bool" where
  "automatic g \<longleftrightarrow> tg_ticksBounds g \<and> tg_step g = 0 \<and> tg_min g = None \<and> tg_max g = None \<and>
     tg_precision g = None \<and> tg_count g = None"

lemma automatic_spacing: "automatic g \<Longrightarrow> nice (tick_spacing g rmin rmax)"
  by (simp add: automatic_def tick_spacing_def first_spacing_def unit_of_def nice_niceNum Let_def)

lemma automatic_ticks:
  assumes "automatic g" and "rmin < rmax" and "1 / 10 ^ 14 \<le> first_spacing g rmin rmax"
  defines "s \<equiv> tick_spacing g rmin rmax"
  shows "generateTicks g strlen (rmin, rmax) =
    Some (map (\<lambda>j. of_int (\<lfloor>rmin / s\<rfloor> + int j) * s) [0..<Suc (nat (\<lceil>rmax / s\<rceil> - \<lfloor>rmin / s\<rfloor>))])"
proof -
  define a where "a = \<lfloor>rmin / s\<rfloor>"
  define b where "b = \<lceil>rmax / s\<rceil>"
  have nice: "nice s" unfolding s_def using assms(1) by (rule automatic_spacing)
  note s = nice_pos [OF nice]
  have "rmin / s < rmax / s" using assms(2) s by (simp add: divide_strict_right_mono)
  then have ab: "a < b" unfolding a_def b_def by linarith
  obtain p where p: "decimal p s" using nice_decimal [OF nice] by blast
  obtain ds where ds: "decimalPlaces s = Some ds" "decimal ds s" using decimalPlaces_ends [OF p] by blast
  obtain dm where dm: "decimalPlaces (of_int a * s) = Some dm"
    using decimalPlaces_ends [OF decimal_mult_of_int [OF p]] by blast
  let ?q = "max ds dm"
  have q: "decimal ?q s" using decimal_mono [OF ds(2)] by simp
  have r: "round_to (10 ^ ?q) (of_int i * s) = of_int i * s" for i
    by (intro round_to_decimal decimal_mult_of_int q)
  have n: "(of_int b * s - of_int a * s) / s = of_int (b - a)" using s by (simp add: field_simps)
  have lay: "tick_layout g rmin rmax s = (s, of_int a * s, of_int b * s, of_int (b - a))"
    using assms(1) s n
    by (simp add: tick_layout_def automatic_def a_def b_def Let_def round_Ints almostEquals_def)
  have inner: "round_to (10 ^ ?q) (of_int a * s + real j * s) = of_int (a + int j) * s" for j
    using r [of "a + int j"] by (simp add: algebra_simps)
  have "generateTicks g strlen (rmin, rmax) =
      Some (map (\<lambda>j. of_int (a + int j) * s) [0..<nat (b - a)] @ [of_int b * s])"
  proof -
    have c: "(first_spacing g rmin rmax < 1 / 10 ^ 14) = False" using assms(3) by (simp only: not_less simp_thms)
    have o: "tg_min g = None" "tg_max g = None" "tg_precision g = None"
      using assms(1) by (simp_all add: automatic_def)
    have l: "low_ticks g strlen u f v w = ([], 0)" "high_ticks g strlen u v ts = ts @ [v]" for u f v w ts
      by (simp_all add: low_ticks_def high_ticks_def o)
    show ?thesis
      unfolding generateTicks_def Let_def prod.case c s_def [symmetric] lay simp_thms if_False
      by (simp only: ds(1) dm o l r inner Option.bind.simps option.case prod.case append_Nil simp_thms if_False Let_def
            floor_of_int ceiling_of_int)
  qed
  moreover have "map (\<lambda>j. of_int (a + int j) * s) [0..<Suc (nat (b - a))] =
      map (\<lambda>j. of_int (a + int j) * s) [0..<nat (b - a)] @ [of_int b * s]" using ab by simp
  ultimately show ?thesis by (simp only: a_def [symmetric] b_def [symmetric])
qed

lemma floor_ceiling_bounds:
  fixes s :: real
  assumes "0 < s" and "rmin < rmax"
  shows "of_int \<lfloor>rmin / s\<rfloor> * s \<le> rmin" "rmin < of_int \<lfloor>rmin / s\<rfloor> * s + s"
    "rmax \<le> of_int \<lceil>rmax / s\<rceil> * s" "of_int \<lceil>rmax / s\<rceil> * s - s < rmax" "\<lfloor>rmin / s\<rfloor> < \<lceil>rmax / s\<rceil>"
proof -
  have f: "of_int \<lfloor>rmin / s\<rfloor> \<le> rmin / s" "rmin / s < of_int \<lfloor>rmin / s\<rfloor> + 1"
    "rmax / s \<le> of_int \<lceil>rmax / s\<rceil>" "of_int \<lceil>rmax / s\<rceil> - 1 < rmax / s" by linarith+
  then have g: "of_int \<lfloor>rmin / s\<rfloor> * s \<le> rmin" "rmin < (of_int \<lfloor>rmin / s\<rfloor> + 1) * s"
    "rmax \<le> of_int \<lceil>rmax / s\<rceil> * s" "(of_int \<lceil>rmax / s\<rceil> - 1) * s < rmax"
    using assms(1) by (simp_all only: pos_le_divide_eq pos_divide_less_eq pos_divide_le_eq pos_less_divide_eq)
  from g show "of_int \<lfloor>rmin / s\<rfloor> * s \<le> rmin" "rmin < of_int \<lfloor>rmin / s\<rfloor> * s + s"
    "rmax \<le> of_int \<lceil>rmax / s\<rceil> * s" "of_int \<lceil>rmax / s\<rceil> * s - s < rmax"
    by (simp_all add: algebra_simps)
  have "rmin / s < rmax / s" using assms by (simp add: divide_strict_right_mono)
  then show "\<lfloor>rmin / s\<rfloor> < \<lceil>rmax / s\<rceil>" by linarith
qed

text \<open>
  C36 (automatic ticks of a linear axis). When the user gives no limits, step, precision or number of ticks, the
  generation ends; the ticks are evenly spaced multiples of a spacing of the form 1, 2, 5 or 10 times a power of
  ten; and they reach just beyond the data on both sides.
\<close>

theorem linear_ticks_cover:
  assumes "automatic g" and "rmin < rmax" and "1 / 10 ^ 14 \<le> first_spacing g rmin rmax"
  shows "\<exists>s a n. nice s \<and> 1 \<le> n \<and>
    generateTicks g strlen (rmin, rmax) = Some (map (\<lambda>j. of_int (a + int j) * s) [0..<Suc n]) \<and>
    of_int a * s \<le> rmin \<and> rmin < of_int (a + 1) * s \<and>
    rmax \<le> of_int (a + int n) * s \<and> of_int (a + int n - 1) * s < rmax"
proof -
  define s where "s = tick_spacing g rmin rmax"
  have nice: "nice s" unfolding s_def using assms(1) by (rule automatic_spacing)
  note b = floor_ceiling_bounds [OF nice_pos [OF nice] assms(2)]
  define n where "n = nat (\<lceil>rmax / s\<rceil> - \<lfloor>rmin / s\<rfloor>)"
  have n: "1 \<le> n" "\<lfloor>rmin / s\<rfloor> + int n = \<lceil>rmax / s\<rceil>" using b(5) by (simp_all add: n_def)
  show ?thesis
  proof (intro exI conjI)
    show "generateTicks g strlen (rmin, rmax) = Some (map (\<lambda>j. of_int (\<lfloor>rmin / s\<rfloor> + int j) * s) [0..<Suc n])"
      using automatic_ticks [OF assms] by (simp only: s_def n_def)
  qed (use nice n b in \<open>simp_all add: algebra_simps\<close>)
qed

definition plain_ticks :: tick_gen where
  "plain_ticks = \<lparr>tg_ticksBounds = True, tg_step = 0, tg_min = None, tg_max = None, tg_precision = None, tg_count = None,
     tg_maxTicks = 11, tg_maxDigits = 10, tg_horizontal = False, tg_minRotation = 0, tg_includeBounds = True\<rparr>"

lemma niceNum_one: "niceNum 1 = 1"
  by (simp add: niceNum_def almostEquals_def round_half_up_def)

theorem linear_ticks_cover_witness:
  "\<exists>s a n. generateTicks plain_ticks (\<lambda>x. 1) (0, 10) = Some (map (\<lambda>j. of_int (a + int j) * s) [0..<Suc n]) \<and> nice s"
  using linear_ticks_cover [of plain_ticks 0 10 "\<lambda>x. 1"]
  by (auto simp: automatic_def plain_ticks_def first_spacing_def unit_of_def niceNum_one)

text \<open>The options of an axis whose user may give limits, but neither a number of ticks nor a step.\<close>

definition unstepped :: "tick_gen \<Rightarrow> bool" where
  "unstepped g \<longleftrightarrow> tg_ticksBounds g \<and> tg_step g = 0 \<and> tg_precision g = None \<and> tg_count g = None"

lemma generateTicks_returns:
  assumes "unstepped g"
  shows "\<exists>ticks. generateTicks g strlen dataRange = Some ticks"
proof -
  obtain rmin rmax where r: "dataRange = (rmin, rmax)" by fastforce
  define s where "s = tick_spacing g rmin rmax"
  have nice: "nice s"
    using assms by (simp add: s_def unstepped_def tick_spacing_def first_spacing_def unit_of_def nice_niceNum Let_def)
  obtain p where p: "decimal p s" using nice_decimal [OF nice] by blast
  obtain ds where ds: "decimalPlaces s = Some ds" using decimalPlaces_ends [OF p] by blast
  obtain dm where dm: "decimalPlaces (of_int \<lfloor>rmin / s\<rfloor> * s) = Some dm"
    using decimalPlaces_ends [OF decimal_mult_of_int [OF p]] by blast
  have "\<exists>hi n. tick_layout g rmin rmax s = (s, of_int \<lfloor>rmin / s\<rfloor> * s, hi, n)"
    using assms by (auto simp: tick_layout_def unstepped_def Let_def split: option.split)
  then obtain hi n where lay: "tick_layout g rmin rmax s = (s, of_int \<lfloor>rmin / s\<rfloor> * s, hi, n)" by blast
  show ?thesis
    unfolding r generateTicks_def Let_def prod.case s_def [symmetric] lay
    by (simp add: ds dm split: prod.split)
qed

section \<open>Limits: properties\<close>

text \<open>
  Limits of a linear axis. From limits in order, \<open>handleTickRangeOptions\<close> makes limits in order around them,
  leaves a limit that the user has defined, includes zero when asked to and free to, and leaves an empty range
  only when the upper limit is the user's and the lower one is the user's too or may not be moved because of
  \<open>beginAtZero\<close>.
\<close>

theorem linear_limits:
  assumes "mn \<le> mx" and "handleTickRangeOptions beginAtZero minDefined maxDefined (mn, mx) = (a, b)"
  shows "a \<le> mn \<and> mx \<le> b \<and>
    (if minDefined then a = mn else beginAtZero \<longrightarrow> a \<le> 0) \<and>
    (if maxDefined then b = mx else beginAtZero \<longrightarrow> 0 \<le> b) \<and>
    (a < b \<or> a = b \<and> mn = mx \<and> maxDefined \<and> (minDefined \<or> beginAtZero \<and> mn \<le> 0))"
proof -
  obtain u w where z: "begin_at_zero beginAtZero minDefined maxDefined (mn, mx) = (u, w)" by fastforce
  define off where "off = (if w \<ge> 2 ^ 53 - 1 \<or> u \<le> - (2 ^ 53 - 1) then \<bar>w * (1 / 20)\<bar> else 1)"
  have ab: "a = (if u = w \<and> \<not> beginAtZero then set_limit minDefined u (u - off) else u)"
    "b = (if u = w then set_limit maxDefined w (w + off) else w)"
    using assms(2) by (auto simp: handleTickRangeOptions_def Let_def z off_def split: if_splits)
  have off: "u = w \<Longrightarrow> 0 < off" unfolding off_def by auto
  have uw: "u \<le> mn \<and> mx \<le> w \<and> (minDefined \<longrightarrow> u = mn) \<and> (maxDefined \<longrightarrow> w = mx) \<and>
    (beginAtZero \<and> \<not> minDefined \<longrightarrow> u \<le> 0) \<and> (beginAtZero \<and> \<not> maxDefined \<longrightarrow> 0 \<le> w)"
    using assms(1) z by (auto simp: begin_at_zero_def set_limit_def split: if_splits)
  show ?thesis
  proof (cases "u = w")
    case False
    with uw assms(1) ab show ?thesis by auto
  next
    case True
    with uw assms(1) have "mn = mx" "u = mn" by auto
    with uw ab off True show ?thesis by (auto simp: set_limit_def)
  qed
qed

theorem linear_limits_witness:
  "fst (handleTickRangeOptions True False False (3, 7)) \<le> 0 \<and> 7 \<le> snd (handleTickRangeOptions True False False (3, 7))"
  using linear_limits [OF _ prod.collapse [symmetric], of 3 7 True False False] by simp

section \<open>Pixels: properties\<close>

definition decimal_of :: "linear \<Rightarrow> real \<Rightarrow> real" where
  "decimal_of l v = (v - ln_startValue l) / ln_valueRange l"

definition value_of :: "linear \<Rightarrow> real \<Rightarrow> real" where
  "value_of l d = ln_startValue l + d * ln_valueRange l"

interpretation li: value_axis "decimal_of l" "value_of l" "\<lambda>v. 0 < ln_valueRange l" for l
  by unfold_locales (simp_all add: decimal_of_def value_of_def divide_right_mono)

lemma widen_fields:
  "ln_min (widen ticks l) = fold (\<lambda>v m. min m v) ticks (ln_min l)"
  "ln_max (widen ticks l) = fold (\<lambda>v m. max m v) ticks (ln_max l)"
  unfolding widen_def by (induction ticks arbitrary: l) simp_all

lemma widen_bounds: "ln_min (widen ticks l) \<le> ln_min l" "ln_max l \<le> ln_max (widen ticks l)"
    "v \<in> set ticks \<Longrightarrow> ln_min (widen ticks l) \<le> v \<and> v \<le> ln_max (widen ticks l)"
proof -
  have m: "fold (\<lambda>v m. min m v) ts a \<le> a \<and> (\<forall>v \<in> set ts. fold (\<lambda>v m. min m v) ts a \<le> v)" for ts and a :: real
  proof (induction ts arbitrary: a)
    case (Cons x ts)
    from Cons.IH [of "min a x"] show ?case by simp
  qed simp
  have M: "a \<le> fold (\<lambda>v m. max m v) ts a \<and> (\<forall>v \<in> set ts. v \<le> fold (\<lambda>v m. max m v) ts a)" for ts and a :: real
  proof (induction ts arbitrary: a)
    case (Cons x ts)
    from Cons.IH [of "max a x"] show ?case by simp
  qed simp
  show "ln_min (widen ticks l) \<le> ln_min l" "ln_max l \<le> ln_max (widen ticks l)"
    "v \<in> set ticks \<Longrightarrow> ln_min (widen ticks l) \<le> v \<and> v \<le> ln_max (widen ticks l)"
    using m M by (simp_all add: widen_fields)
qed

lemma buildTicks_limits:
  assumes "buildTicks g reverse strlen tickLimit range' l = Some (ticks, l')"
  shows "ln_min l' \<le> ln_min l \<and> ln_max l \<le> ln_max l' \<and>
    (tg_ticksBounds g \<longrightarrow> (\<forall>v \<in> set ticks. ln_min l' \<le> v \<and> v \<le> ln_max l'))"
  using assms widen_bounds
  by (auto simp: buildTicks_def Let_def split: bind_splits if_splits)

lemma values_on_axis:
  assumes "buildTicks g reverse strlen tickLimit range' l = Some (ticks, l1)"
    and "ln_min l < ln_max l" and "ln_min l \<le> v \<and> v \<le> ln_max l \<or> tg_ticksBounds g \<and> v \<in> set ticks"
    and "configure offsetOption (length ticks) s0 l1 = (s, l2)" and "drawable s"
  shows "\<exists>p. getPixelForValue ratio s l2 (Some (Fin v)) = Fin p \<and> sl_startPixel s \<le> p \<and> p \<le> sl_endPixel s \<and>
    getValueForPixel s l2 (Fin p) = Fin v"
proof -
  note lim = buildTicks_limits [OF assms(1)]
  have v: "ln_min l1 \<le> v" "v \<le> ln_max l1" and pos: "ln_min l1 < ln_max l1"
    using lim assms(2,3) by auto
  define off where "off = (if offsetOption \<and> length ticks \<noteq> 0
      then (ln_max l1 - ln_min l1) / max (real (length ticks) - 1) 1 / 2 else 0)"
  have "0 \<le> off" using pos by (simp add: off_def)
  have l2: "ln_startValue l2 = ln_min l1 - off" "ln_endValue l2 = ln_max l1 + off"
      "ln_valueRange l2 = ln_max l1 + off - (ln_min l1 - off)"
    using assms(4) by (auto simp: configure_def Let_def off_def)
  then have r: "0 < ln_valueRange l2" using pos \<open>0 \<le> off\<close> by simp
  have d: "0 \<le> decimal_of l2 v" "decimal_of l2 v \<le> 1"
    using v \<open>0 \<le> off\<close> r by (simp_all add: decimal_of_def l2)
  from li.on_axis [OF assms(5) r d, of ratio] r show ?thesis
    by (fastforce simp: getPixelForValue_def getValueForPixel_def decimal_of_def value_of_def)
qed

text \<open>
  C5 (values of a linear axis on pixels). After an axis has built its ticks, from its limits or from a range widened by some grace,
  and is configured, every value between the limits of the data has a pixel between the two ends of the axis, and reading this pixel gives
  the value back; with the option \<^verbatim>\<open>bounds: 'ticks'\<close>, the default, the same holds for every tick, also where the grace has put it
  beyond the limits of the data. The limits are not equal,
  the axis has a positive length, its ends lie within 32767 pixels of the origin, and pixels are not rounded (\<^verbatim>\<open>alignToPixels\<close>).
\<close>

theorem linear_values_on_axis:
  assumes "buildTicks g reverse strlen tickLimit range' l = Some (ticks, l1)"
    and "ln_min l < ln_max l" and "ln_min l \<le> v \<and> v \<le> ln_max l \<or> tg_ticksBounds g \<and> v \<in> set ticks"
    and "configure offsetOption (length ticks) s0 l1 = (s, l2)" and "drawable s"
  shows "\<exists>p. getPixelForValue ratio s l2 (Some (Fin v)) = Fin p \<and> sl_startPixel s \<le> p \<and> p \<le> sl_endPixel s \<and>
    getValueForPixel s l2 (Fin p) = Fin v"
  using assms by (rule values_on_axis)

theorem linear_values_on_axis_witness:
  "\<exists>ticks l1 p.
     buildTicks plain_ticks False (\<lambda>x. 1) 11 (Some (0, 10))
       \<lparr>ln_min = 0, ln_max = 10, ln_start = 0, ln_end = 0, ln_startValue = 0, ln_endValue = 0, ln_valueRange = 0\<rparr>
       = Some (ticks, l1) \<and>
     getPixelForValue 1 (scale_configure sample_scale) (snd (configure False (length ticks) sample_scale l1)) (Some (Fin 5))
       = Fin p \<and> 10 \<le> p \<and> p \<le> 110"
proof -
  let ?l = "\<lparr>ln_min = 0, ln_max = 10, ln_start = 0, ln_end = 0, ln_startValue = 0, ln_endValue = 0, ln_valueRange = 0\<rparr>"
  have g: "plain_ticks\<lparr>tg_maxTicks := 11\<rparr> = plain_ticks" by (simp add: plain_ticks_def)
  have "\<exists>ticks. generateTicks plain_ticks (\<lambda>x. 1) (0, 10) = Some ticks"
    using automatic_ticks [of plain_ticks 0 10 "\<lambda>x. 1"]
    by (simp add: automatic_def plain_ticks_def first_spacing_def unit_of_def niceNum_one)
  then obtain ticks l1 where b: "buildTicks plain_ticks False (\<lambda>x. 1) 11 (Some (0, 10)) ?l = Some (ticks, l1)"
    by (auto simp: buildTicks_def g Let_def)
  obtain s l2 where c: "configure False (length ticks) sample_scale l1 = (s, l2)" by fastforce
  then have s: "s = scale_configure sample_scale" by (simp add: configure_def Let_def)
  have d: "drawable s" by (simp add: s drawable_def scale_configure_def sample_scale_def isHorizontal_def)
  have e: "sl_startPixel s = 10" "sl_endPixel s = 110"
    by (simp_all add: s scale_configure_def sample_scale_def isHorizontal_def)
  show ?thesis
    using linear_values_on_axis [OF b _ _ c d, of 5 1] b c e s by (auto simp: plain_ticks_def)
qed

text \<open>
  An empty range. When an axis begins at zero, its only data are zero and the user sets the upper limit to zero, the limits stay
  equal, although the user has not set the lower one, and the pixel of the data is not a number.
\<close>

theorem begin_at_zero_empty_range:
  "let mm = handleTickRangeOptions True False True (0, 0);
       (s, l) = configure offsetOption n s0 (l0\<lparr>ln_min := fst mm, ln_max := snd mm\<rparr>)
   in mm = (0, 0) \<and> getPixelForValue ratio s l (Some (Fin 0)) = NaN"
proof -
  have nan: "getPixelForDecimal ratio s NaN = NaN" for s
    by (simp add: getPixelForDecimal_def Let_def align_num_def int16Range_def limitValue_def
        math_min_def math_max_def times_jsnum_def plus_jsnum_def minus_jsnum_def)
  show ?thesis
    by (simp add: handleTickRangeOptions_def begin_at_zero_def set_limit_def configure_def Let_def
        getPixelForValue_def Fin_div inf_of_sign_def nan)
qed

end
