(* ===== verification/Dashboard.thy ===== *)
theory Dashboard
  imports Overview Linear_Scale
begin

text \<open>
  The charts of the overview page on the axes of the charting library: the options that
  \<open>drawHistogram\<close> in \<^verbatim>\<open>webui/src/Overview.svelte\<close> gives to the horizontal axis, and the way
  the limits and the points of a histogram take through the linear axis of
  \<^verbatim>\<open>chart.js\<close>: limits of the user, limits of the axis, ticks, configuration and pixels.
\<close>

text \<open>
  The options \<open>min\<close> and \<open>max\<close> of the axis \<open>x\<close>; every other option of its ticks has its default.
\<close>

definition time_axis :: "real \<Rightarrow> histogram \<Rightarrow> tick_gen" where
  "time_axis maxDigits h =
     \<lparr>tg_ticksBounds = True, tg_step = 0, tg_min = (case hg_min h of Fin m \<Rightarrow> Some m | _ \<Rightarrow> None), tg_max = Some (hg_max h),
      tg_precision = None, tg_count = None, tg_maxTicks = 11, tg_maxDigits = maxDigits, tg_horizontal = True,
      tg_minRotation = 0, tg_includeBounds = True\<rparr>"

definition time_bounds :: "histogram \<Rightarrow> user_bounds" where
  "time_bounds h = getUserBounds (Num (hg_min h)) (Num (Fin (hg_max h))) Undefined Undefined"

definition time_limits :: "histogram \<Rightarrow> (jsnum \<times> jsnum) list \<Rightarrow> linear \<Rightarrow> linear" where
  "time_limits h ranges l =
     Linear_Scale.determineDataLimits False (time_bounds h) (getMinMax (time_bounds h) ranges) l"

lemma time_limits_of:
  assumes "hg_min h = Fin mn" and "mn < hg_max h"
  shows "ln_min (time_limits h ranges l) = mn" and "ln_max (time_limits h ranges l) = hg_max h"
proof -
  have b: "time_bounds h = \<lparr>ub_min = Fin mn, ub_max = Fin (hg_max h), ub_minDefined = True, ub_maxDefined = True\<rparr>"
    by (simp add: time_bounds_def getUserBounds_def fin_or_def num_or_def assms(1) Let_def)
  have "handleTickRangeOptions False True True (mn, hg_max h) = (mn, hg_max h)"
    using assms(2) by (simp add: handleTickRangeOptions_def begin_at_zero_def)
  then show "ln_min (time_limits h ranges l) = mn" and "ln_max (time_limits h ranges l) = hg_max h"
    by (simp_all add: time_limits_def b getMinMax_def Linear_Scale.determineDataLimits_def)
qed

lemma time_axis_unstepped: "unstepped (time_axis d h\<lparr>tg_maxTicks := m\<rparr>)"
  by (simp add: time_axis_def unstepped_def)

lemma histogram_points:
  assumes "src \<noteq> []" and "0 < interval" and "h = toScatterData src interval now"
  obtains mn where "hg_min h = Fin (of_int mn)"
    and "\<And>x c. (x, c) \<in> set (hg_values h) \<Longrightarrow> of_int mn \<le> (of_int x :: real) \<and> of_int x \<le> hg_max h"
proof -
  define mn where "mn = Min (fst ` set src)"
  have h: "hg_min h = Fin (of_int mn)" using assms(1) by (simp add: assms(3) toScatterData_def mn_def Let_def)
  obtain n where n: "1 \<le> n"
    "hg_values h = map (\<lambda>k. (mn + int k * interval, count_at src (mn + int k * interval))) [0..<n]"
    "mn + int (n - 1) * interval \<le> \<lfloor>hg_max h\<rfloor>"
    using toScatterData_points [OF assms(1,2), of now] unfolding assms(3) mn_def by blast
  have "of_int mn \<le> (of_int x :: real) \<and> of_int x \<le> hg_max h" if x: "(x, c) \<in> set (hg_values h)" for x c
  proof -
    from x obtain k where k: "k < n" "x = mn + int k * interval" by (auto simp: n(2))
    have "int k * interval \<le> int (n - 1) * interval" using k(1) assms(2) by (intro mult_right_mono) simp_all
    moreover have "0 \<le> int k * interval" using assms(2) by simp
    ultimately have "mn \<le> x" "x \<le> \<lfloor>hg_max h\<rfloor>" using k(2) n(3) by linarith+
    then show ?thesis by (simp add: le_floor_iff)
  qed
  with h show thesis by (rule that)
qed

text \<open>
  C3 (the charts of the overview page). For statistics that span some time, the horizontal axis of a chart finishes building its ticks, and every
  point of the histogram gets a pixel between the two ends of the axis, from which the axis reads back its time, whatever range the axis
  keeps from its limits. The axis has a positive length, its ends lie within 32767 pixels, and its pixels are not rounded.
\<close>

theorem overview_points_on_axis:
  assumes "src \<noteq> []" and "0 < interval" and "h = toScatterData src interval now" and "of_int (Min (fst ` set src)) < hg_max h"
    and "drawable (scale_configure s0)"
  shows "\<exists>ticks l1. Linear_Scale.buildTicks (time_axis digits h) False strlen limit range' (time_limits h ranges l0) = Some (ticks, l1) \<and>
    (let (s, l2) = Linear_Scale.configure False (length ticks) s0 l1 in
     \<forall>(x, c) \<in> set (hg_values h). \<exists>p. Linear_Scale.getPixelForValue ratio s l2 (Some (Fin (of_int x))) = Fin p \<and>
       sl_startPixel s \<le> p \<and> p \<le> sl_endPixel s \<and> Linear_Scale.getValueForPixel s l2 (Fin p) = Fin (of_int x))"
proof -
  obtain mn where mn: "hg_min h = Fin (of_int mn)"
    and pts: "\<And>x c. (x, c) \<in> set (hg_values h) \<Longrightarrow> of_int mn \<le> (of_int x :: real) \<and> of_int x \<le> hg_max h"
    using histogram_points [OF assms(1-3)] by blast
  have "of_int mn < hg_max h"
    using assms(1,4) mn by (simp add: assms(3) toScatterData_def Let_def)
  note lim = time_limits_of [OF mn this, of ranges l0]
  define l where "l = time_limits h ranges l0"
  obtain ticks where "generateTicks (time_axis digits h\<lparr>tg_maxTicks := max 2 limit\<rparr>) strlen
      (case range' of Some r \<Rightarrow> r | None \<Rightarrow> (ln_min l, ln_max l)) = Some ticks"
    using generateTicks_returns [OF time_axis_unstepped] by blast
  then obtain l1 where b: "Linear_Scale.buildTicks (time_axis digits h) False strlen limit range' l = Some (ticks, l1)"
    by (simp add: Linear_Scale.buildTicks_def Let_def)
  obtain s l2 where c: "Linear_Scale.configure False (length ticks) s0 l1 = (s, l2)" by fastforce
  then have s: "s = scale_configure s0" by (simp add: Linear_Scale.configure_def Let_def)
  have "\<exists>p. Linear_Scale.getPixelForValue ratio s l2 (Some (Fin (of_int x))) = Fin p \<and> sl_startPixel s \<le> p \<and>
      p \<le> sl_endPixel s \<and> Linear_Scale.getValueForPixel s l2 (Fin p) = Fin (of_int x)"
    if x: "(x, y) \<in> set (hg_values h)" for x y
  proof (rule values_on_axis [OF b _ _ c])
    show "ln_min l < ln_max l" using lim \<open>of_int mn < hg_max h\<close> by (simp add: l_def)
    show "ln_min l \<le> of_int x \<and> of_int x \<le> ln_max l \<or>
        tg_ticksBounds (time_axis digits h) \<and> of_int x \<in> set ticks" using pts [OF x] lim by (simp add: l_def)
  qed (simp_all add: time_axis_def s assms(5))
  then show ?thesis using b c by (auto simp: l_def)
qed

theorem overview_points_on_axis_witness:
  "\<exists>ticks l1. Linear_Scale.buildTicks (time_axis 10 (toScatterData [(120, 5), (240, 7)] 60 250)) False (\<lambda>x. 1) 11 (Some (0, 250))
     (time_limits (toScatterData [(120, 5), (240, 7)] 60 250) []
       \<lparr>ln_min = 0, ln_max = 0, ln_start = 0, ln_end = 0, ln_startValue = 0, ln_endValue = 0, ln_valueRange = 0\<rparr>) = Some (ticks, l1)"
proof -
  have d: "drawable (scale_configure sample_scale)"
    by (simp add: drawable_def scale_configure_def sample_scale_def isHorizontal_def)
  have "of_int (Min (fst ` set [(120, 5 :: nat), (240, 7)])) < hg_max (toScatterData [(120, 5), (240, 7)] 60 250)"
    by (simp add: toScatterData_def)
  moreover have "[(120, 5 :: nat), (240, 7)] \<noteq> []" "0 < (60 :: int)" by simp_all
  ultimately show ?thesis
    using overview_points_on_axis [OF _ _ refl _ d, where digits = 10 and strlen = "\<lambda>x. 1" and limit = 11 and ranges = "[]" and range' = "Some (0, 250)"
      and ratio = 1 and ?l0.0 = "\<lparr>ln_min = 0, ln_max = 0, ln_start = 0, ln_end = 0, ln_startValue = 0, ln_endValue = 0, ln_valueRange = 0\<rparr>"]
    by blast
qed

end
