(* ===== verification/Scripts_Page.thy ===== *)
theory Scripts_Page
  imports Main "HOL-Library.List_Lexorder" "HOL-Library.Char_ord"
begin

text \<open>
  The pages that manage the scripts of the broker (\<^verbatim>\<open>webui/src/Scripts.svelte\<close> and
  \<^verbatim>\<open>webui/src/Edit.svelte\<close>).

  Strings are their UTF-8 bytes. \<open>scripts\<close> is the association list of an object; the names of scripts have
  an extension, so no key is an array index and the order of keys is that of insertion. What the server
  answers is a parameter of the steps: an asynchronous function that awaits an answer leaves a
  continuation behind, and answers come in any order. A request is its method, the path that is sent
  and its body: the URL parser cuts the path at \<open>?\<close> and \<open>#\<close> and encodes some bytes. Path segments that
  consist of dots are not treated.
\<close>

section \<open>URLs\<close>

definition hex_digit :: "nat \<Rightarrow> char" where
  "hex_digit n = (''0123456789ABCDEF'' ! n)"

definition percent :: "char \<Rightarrow> string" where
  "percent c = [CHR ''%'', hex_digit (of_char c div 16), hex_digit (of_char c mod 16)]"

definition unreserved :: "char \<Rightarrow> bool" where
  "unreserved c \<longleftrightarrow> c \<in> set ''ABCDEFGHIJKLMNOPQRSTUVWXYZabcdefghijklmnopqrstuvwxyz0123456789-_.!~*()'' \<or> c = CHR 0x27"

definition encodeURIComponent :: "string \<Rightarrow> string" where
  "encodeURIComponent s = concat (map (\<lambda>c. if unreserved c then [c] else percent c) s)"

text \<open>What the URL parser does with the bytes of a path, and where the path ends.\<close>

definition path_byte :: "char \<Rightarrow> string" where
  "path_byte c =
     (if of_char c < (33 :: nat) \<or> of_char c > (126 :: nat) \<or> c \<in> {CHR 0x22, CHR ''<'', CHR ''>'', CHR 0x60, CHR ''{'', CHR ''}''}
      then percent c else [c])"

definition in_path :: "char \<Rightarrow> bool" where
  "in_path c \<longleftrightarrow> c \<noteq> CHR ''#'' \<and> c \<noteq> CHR ''?''"

definition fetch_path :: "string \<Rightarrow> string" where
  "fetch_path url = concat (map path_byte (takeWhile in_path url))"

datatype request = Request (rq_method: string) (rq_path: string) (rq_body: string)

definition activate_request :: "string \<Rightarrow> request" where
  "activate_request script = Request ''POST'' (fetch_path (''/scripts/'' @ encodeURIComponent script @ ''/activate'')) []"

definition deactivate_request :: "string \<Rightarrow> request" where
  "deactivate_request script = Request ''POST'' (fetch_path (''/scripts/'' @ encodeURIComponent script @ ''/deactivate'')) []"

definition delete_request :: "string \<Rightarrow> request" where
  "delete_request script = Request ''DELETE'' (fetch_path (''/scripts/'' @ script)) []"

definition put_request :: "string \<Rightarrow> string \<Rightarrow> request" where
  "put_request script body = Request ''PUT'' (fetch_path (''/scripts/'' @ script)) body"

section \<open>The list of scripts\<close>

text \<open>A property that an object may lack is an \<open>option\<close>.\<close>

record script =
  sc_name :: string
  sc_state :: "string option"
  sc_active :: "bool option"

datatype cont = ToggleRest string | DeleteRest string | NewRest string | StatusRest

record page =
  pg_scripts :: "(string \<times> script) list"
  pg_pending :: "cont list"
  pg_sent :: "request list"
  pg_rejected :: nat


definition send :: "request \<Rightarrow> cont \<Rightarrow> page \<Rightarrow> page" where
  "send r k p = p\<lparr>pg_sent := pg_sent p @ [r], pg_pending := pg_pending p @ [k]\<rparr>"

definition updateStatus :: "page \<Rightarrow> page" where
  "updateStatus p = send (Request ''GET'' (fetch_path ''/scripts'') []) StatusRest p"

definition activate :: "string \<Rightarrow> page \<Rightarrow> page" where
  "activate script p = send (activate_request script) (ToggleRest script) p"

definition deactivate :: "string \<Rightarrow> page \<Rightarrow> page" where
  "deactivate script p = send (deactivate_request script) (ToggleRest script) p"

definition deleteScript :: "bool \<Rightarrow> string \<Rightarrow> page \<Rightarrow> page" where
  "deleteScript confirmed script p = (if \<not> confirmed then p else send (delete_request script) (DeleteRest script) p)"

definition newScript :: "string option \<Rightarrow> page \<Rightarrow> page" where
  "newScript answer p =
     (case answer of None \<Rightarrow> p | Some script \<Rightarrow> send (put_request script []) (NewRest script) p)"

text \<open>Writing and deleting a property of an object.\<close>

definition obj_set :: "string \<Rightarrow> 'a \<Rightarrow> (string \<times> 'a) list \<Rightarrow> (string \<times> 'a) list" where
  "obj_set k v kvs = (if k \<in> fst ` set kvs then map (\<lambda>(k', v'). (k', if k' = k then v else v')) kvs else kvs @ [(k, v)])"

definition obj_delete :: "string \<Rightarrow> (string \<times> 'a) list \<Rightarrow> (string \<times> 'a) list" where
  "obj_delete k kvs = filter (\<lambda>(k', v). k' \<noteq> k) kvs"

text \<open>
  The order of \<open>sort\<close> is that of the UTF-16 units of the names, which differs from that of their bytes beyond the
  basic plane.
\<close>

definition units_of :: "nat \<Rightarrow> nat list" where
  "units_of cp = (if cp < 65536 then [cp] else [55296 + (cp - 65536) div 1024, 56320 + (cp - 65536) mod 1024])"

definition low_bits :: "char \<Rightarrow> nat" where
  "low_bits c = of_char c mod 64"

fun utf16 :: "string \<Rightarrow> nat list" where
  "utf16 (a # b # c # d # cs) =
     (let n = of_char a in
      if n < 192 then n # utf16 (b # c # d # cs)
      else if n < 224 then units_of ((n - 192) * 64 + low_bits b) @ utf16 (c # d # cs)
      else if n < 240 then units_of (((n - 224) * 64 + low_bits b) * 64 + low_bits c) @ utf16 (d # cs)
      else units_of ((((n - 240) * 64 + low_bits b) * 64 + low_bits c) * 64 + low_bits d) @ utf16 cs)"
| "utf16 [a, b, c] =
     (let n = of_char a in
      if n < 192 then n # utf16 [b, c]
      else if n < 224 then units_of ((n - 192) * 64 + low_bits b) @ utf16 [c]
      else units_of (((n - 224) * 64 + low_bits b) * 64 + low_bits c))"
| "utf16 [a, b] =
     (let n = of_char a in if n < 192 then n # utf16 [b] else units_of ((n - 192) * 64 + low_bits b))"
| "utf16 [a] = [of_char a]"
| "utf16 [] = []"

definition sort_names :: "string list \<Rightarrow> string list" where
  "sort_names = sort_key utf16"

text \<open>\<open>Object.keys(scripts).sort().reduce(...)\<close>.\<close>

definition sorted_object :: "(string \<times> 'a) list \<Rightarrow> (string \<times> 'a) list" where
  "sorted_object kvs = foldl (\<lambda>obj key. obj_set key (the (map_of kvs key)) obj) [] (sort_names (map fst kvs))"

text \<open>An answer of the server: a status, or the status and the list of scripts.\<close>

datatype answer = Status nat | Listing "(string \<times> script) list"

fun run_cont :: "cont \<Rightarrow> answer \<Rightarrow> page \<Rightarrow> page" where
  "run_cont (ToggleRest script) a p =
     (case map_of (pg_scripts p) script of
        None \<Rightarrow> p\<lparr>pg_rejected := Suc (pg_rejected p)\<rparr>
      | Some sc \<Rightarrow>
          updateStatus (p\<lparr>pg_scripts := obj_set script (sc\<lparr>sc_active := Some (sc_active sc \<noteq> Some True)\<rparr>) (pg_scripts p)\<rparr>))"
| "run_cont (DeleteRest script) a p =
     (if a \<noteq> Status 200 then p else p\<lparr>pg_scripts := obj_delete script (pg_scripts p)\<rparr>)"
| "run_cont (NewRest script) a p =
     (if a \<noteq> Status 200 then p
      else p\<lparr>pg_scripts := sorted_object
               (obj_set script \<lparr>sc_name = script, sc_state = None, sc_active = Some True\<rparr> (pg_scripts p))\<rparr>)"
| "run_cont StatusRest a p =
     (case a of Listing l \<Rightarrow> p\<lparr>pg_scripts := l\<rparr> | Status _ \<Rightarrow> p\<lparr>pg_rejected := Suc (pg_rejected p)\<rparr>)"

datatype tile = DeactivateTile | ActivateTile | StateTile "string option"

definition row :: "script \<Rightarrow> string \<times> tile" where
  "row sc = (sc_name sc,
     if sc_state sc = Some ''running'' then DeactivateTile
     else if sc_state sc = Some ''deactivated'' then ActivateTile else StateTile (sc_state sc))"

definition shown_names :: "page \<Rightarrow> string list" where
  "shown_names p = sort_names (map fst (pg_scripts p))"

definition rows :: "page \<Rightarrow> (string \<times> tile) list" where
  "rows p = map (\<lambda>key. row (the (map_of (pg_scripts p) key))) (shown_names p)"

section \<open>Steps\<close>


definition drop_pending :: "nat \<Rightarrow> page \<Rightarrow> page" where
  "drop_pending k p = p\<lparr>pg_pending := take k (pg_pending p) @ drop (Suc k) (pg_pending p)\<rparr>"

text \<open>The keys of the object that the server sends are distinct, as those of every object.\<close>

definition wf_listing :: "(string \<times> script) list \<Rightarrow> bool" where
  "wf_listing l \<longleftrightarrow> distinct (map fst l)"





section \<open>The editor\<close>

text \<open>
  The link of the list is \<open>edit.html?script=\<close> and the name as it is; the editor reads the
  name with \<open>URLSearchParams\<close>, which splits at \<open>&\<close> and \<open>=\<close>, reads \<open>+\<close> as a space and decodes percent
  sequences.
\<close>

definition hex_value :: "char \<Rightarrow> nat option" where
  "hex_value c =
     (let n = of_char c in
      if 48 \<le> n \<and> n \<le> 57 then Some (n - 48)
      else if 65 \<le> n \<and> n \<le> 70 then Some (n - 55)
      else if 97 \<le> n \<and> n \<le> 102 then Some (n - 87) else None)"

fun percent_decode :: "string \<Rightarrow> string" where
  "percent_decode [] = []"
| "percent_decode (c # cs) =
     (if c = CHR ''%'' then
        (case cs of
           a # b # rest \<Rightarrow>
             (case (hex_value a, hex_value b) of
                (Some x, Some y) \<Rightarrow> char_of (16 * x + y) # percent_decode rest
              | _ \<Rightarrow> c # percent_decode cs)
         | _ \<Rightarrow> c # percent_decode cs)
      else c # percent_decode cs)"

definition form_decode :: "string \<Rightarrow> string" where
  "form_decode s = percent_decode (map (\<lambda>c. if c = CHR ''+'' then CHR '' '' else c) s)"

fun split_at :: "char \<Rightarrow> string \<Rightarrow> string list" where
  "split_at d s =
     (case dropWhile (\<lambda>c. c \<noteq> d) s of
        [] \<Rightarrow> [s]
      | _ # rest \<Rightarrow> takeWhile (\<lambda>c. c \<noteq> d) s # (if length rest < length s then split_at d rest else []))"

declare split_at.simps [simp del]

definition get_param :: "string \<Rightarrow> string \<Rightarrow> string option" where
  "get_param name query =
     map_of (map (\<lambda>part. (form_decode (takeWhile (\<lambda>c. c \<noteq> CHR ''='') part),
                          form_decode (drop 1 (dropWhile (\<lambda>c. c \<noteq> CHR ''='') part))))
              (filter (\<lambda>part. part \<noteq> []) (split_at CHR ''&'' query))) name"

definition edit_link :: "string \<Rightarrow> string" where
  "edit_link script = ''edit.html?script='' @ script"

text \<open>The query of a URL: from its first \<open>?\<close> to its first \<open>#\<close>.\<close>

definition url_query :: "string \<Rightarrow> string" where
  "url_query url = drop 1 (dropWhile (\<lambda>c. c \<noteq> CHR ''?'') (takeWhile (\<lambda>c. c \<noteq> CHR ''#'') url))"

definition edit_file :: "string \<Rightarrow> string option" where
  "edit_file url = get_param ''script'' (url_query url)"

record editor =
  ed_file :: "string option"
  ed_doc :: string
  ed_shown :: bool
  ed_logged :: "string list"
  ed_alerts :: nat

text \<open>A missing parameter is \<open>null\<close>, whose text is \<open>null\<close>.\<close>

definition file_text :: "editor \<Rightarrow> string" where
  "file_text ed = (case ed_file ed of Some f \<Rightarrow> f | None \<Rightarrow> ''null'')"

definition open_editor :: "string \<Rightarrow> editor \<times> request" where
  "open_editor url =
     (let ed = \<lparr>ed_file = edit_file url, ed_doc = [], ed_shown = False, ed_logged = [], ed_alerts = 0\<rparr>
      in (ed, Request ''GET'' (fetch_path (''/scripts/'' @ file_text ed)) []))"

text \<open>The answer: its status, the code it holds, and its text for the log.\<close>

definition editor_loaded :: "nat \<Rightarrow> string \<Rightarrow> string \<Rightarrow> editor \<Rightarrow> editor" where
  "editor_loaded status code txt ed =
     (if status \<noteq> 200 then ed\<lparr>ed_logged := ed_logged ed @ [txt]\<rparr>
      else ed\<lparr>ed_doc := code, ed_shown := True\<rparr>)"

definition editor_type :: "nat \<Rightarrow> nat \<Rightarrow> string \<Rightarrow> editor \<Rightarrow> editor" where
  "editor_type a b s ed = ed\<lparr>ed_doc := take a (ed_doc ed) @ s @ drop b (ed_doc ed)\<rparr>"

definition saveScript :: "editor \<Rightarrow> request" where
  "saveScript ed = put_request (file_text ed) (ed_doc ed)"

definition save_failed :: "editor \<Rightarrow> editor" where
  "save_failed ed = ed\<lparr>ed_alerts := Suc (ed_alerts ed)\<rparr>"

definition editor_key :: "bool \<Rightarrow> char \<Rightarrow> editor \<Rightarrow> request option" where
  "editor_key ctrl key ed = (if ctrl \<and> key = CHR ''s'' then Some (saveScript ed) else None)"

section \<open>URLs: properties\<close>

lemma hex_digit_value: "n < 16 \<Longrightarrow> hex_value (hex_digit n) = Some n"
proof -
  have "list_all (\<lambda>n. hex_value (hex_digit n) = Some n) [0..<16]" by code_simp
  then show "n < 16 \<Longrightarrow> hex_value (hex_digit n) = Some n" by (simp add: list_all_iff)
qed

lemma unreserved_not_percent: "\<not> unreserved CHR ''%''"
  by (simp add: unreserved_def)

lemma decode_percent: "percent_decode (percent c @ cs) = c # percent_decode cs"
proof -
  have "of_char c < (256 :: nat)" by simp
  then have "of_char c div 16 < (16 :: nat)" "of_char c mod 16 < (16 :: nat)" by linarith+
  then show ?thesis by (simp add: percent_def hex_digit_value)
qed

lemma decode_encode: "percent_decode (encodeURIComponent s @ rest) = s @ percent_decode rest"
proof (induction s)
  case (Cons c s)
  have "c \<noteq> CHR ''%''" if "unreserved c" using that unreserved_not_percent by auto
  with Cons show ?case by (simp add: encodeURIComponent_def decode_percent)
qed (simp add: encodeURIComponent_def)

text \<open>Bytes that stand for themselves in a path.\<close>

definition plain :: "char \<Rightarrow> bool" where
  "plain c \<longleftrightarrow> in_path c \<and> path_byte c = [c]"

lemma unreserved_plain: "unreserved c \<Longrightarrow> plain c"
proof -
  have "list_all plain (CHR 0x27 # ''ABCDEFGHIJKLMNOPQRSTUVWXYZabcdefghijklmnopqrstuvwxyz0123456789-_.!~*()'')" by code_simp
  then show "unreserved c \<Longrightarrow> plain c" unfolding unreserved_def list_all_iff by auto
qed

lemma hex_plain: "n < 16 \<Longrightarrow> plain (hex_digit n)"
proof -
  have "list_all (\<lambda>n. plain (hex_digit n)) [0..<16]" by code_simp
  then show "n < 16 \<Longrightarrow> plain (hex_digit n)" by (simp add: list_all_iff)
qed

lemma percent_plain: "list_all plain (percent c)"
proof -
  have "of_char c < (256 :: nat)" by simp
  then have "of_char c div 16 < (16 :: nat)" "of_char c mod 16 < (16 :: nat)" by linarith+
  moreover have "plain CHR ''%''" by code_simp
  ultimately show ?thesis by (simp add: percent_def hex_plain)
qed

lemma encode_plain: "list_all plain (encodeURIComponent s)"
  by (induction s) (simp_all add: encodeURIComponent_def unreserved_plain percent_plain)

lemma fetch_plain: "list_all plain s \<Longrightarrow> fetch_path (s @ t) = s @ fetch_path t"
  by (induction s) (simp_all add: fetch_path_def plain_def)

lemma fetch_prefix: "list_all plain ''/scripts/''" "fetch_path ''/activate'' = ''/activate''"
  by code_simp+

lemma encode_inj: "encodeURIComponent s = encodeURIComponent t \<longleftrightarrow> s = t"
proof
  have "percent_decode (encodeURIComponent u) = u" for u using decode_encode [of u "[]"] by simp
  then show "encodeURIComponent s = encodeURIComponent t \<Longrightarrow> s = t" by metis
qed simp

lemma activate_path: "rq_path (activate_request s) = ''/scripts/'' @ encodeURIComponent s @ ''/activate''"
proof -
  have "fetch_path (''/scripts/'' @ encodeURIComponent s @ ''/activate'') = ''/scripts/'' @ fetch_path (encodeURIComponent s @ ''/activate'')"
    by (rule fetch_plain [OF fetch_prefix(1)])
  also have "fetch_path (encodeURIComponent s @ ''/activate'') = encodeURIComponent s @ ''/activate''"
    unfolding fetch_plain [OF encode_plain] fetch_prefix(2) ..
  finally show ?thesis by (simp only: activate_request_def request.sel)
qed

text \<open>
  Requests for activation. The request that activates a script carries exactly its name, whatever bytes it consists of: decoding
  the segment of the path gives the name, and different scripts have different requests.
\<close>

theorem activate_names_script:
  "rq_path (activate_request s) = ''/scripts/'' @ encodeURIComponent s @ ''/activate'' \<and>
   percent_decode (encodeURIComponent s) = s \<and> (activate_request s = activate_request t \<longleftrightarrow> s = t)"
proof -
  have "activate_request s = activate_request t \<Longrightarrow> s = t"
    using activate_path [of s] activate_path [of t] encode_inj [of s t] by (metis append_same_eq same_append_eq)
  moreover have "percent_decode (encodeURIComponent s) = s" using decode_encode [of s "[]"] by simp
  ultimately show ?thesis using activate_path [of s] by blast
qed

lemma cut_path: "\<not> in_path c \<Longrightarrow> takeWhile in_path (xs @ c # ys) = takeWhile in_path xs"
  by (induction xs) auto

text \<open>
  A request that hits another script. Deleting and creating put the name into the URL as it is, so the request for a script
  whose name has a \<open>#\<close> or a \<open>?\<close> is that of the script named before this sign, although the two scripts have
  different requests for activation.
\<close>

theorem delete_hits_other_script:
  "delete_request (s @ ''#'' @ t) = delete_request s \<and> delete_request (s @ ''?'' @ t) = delete_request s \<and>
   put_request (s @ ''#'' @ t) body = put_request s body \<and> activate_request (s @ ''#'' @ t) \<noteq> activate_request s"
proof -
  have "fetch_path (''/scripts/'' @ s @ ''#'' @ t) = fetch_path (''/scripts/'' @ s)"
    "fetch_path (''/scripts/'' @ s @ ''?'' @ t) = fetch_path (''/scripts/'' @ s)"
    using cut_path [of "CHR ''#''" "''/scripts/'' @ s" t] cut_path [of "CHR ''?''" "''/scripts/'' @ s" t]
    by (simp_all add: fetch_path_def in_path_def)
  moreover have "activate_request (s @ ''#'' @ t) \<noteq> activate_request s"
  proof
    assume "activate_request (s @ ''#'' @ t) = activate_request s"
    then have "encodeURIComponent (s @ ''#'' @ t) = encodeURIComponent s"
      using activate_path [of "s @ ''#'' @ t"] activate_path [of s] by (metis append_same_eq same_append_eq)
    then show False by (simp add: encode_inj)
  qed
  ultimately show ?thesis by (simp add: delete_request_def put_request_def)
qed

lemma form_decode_plain: "list_all unreserved s \<Longrightarrow> form_decode s = s"
proof -
  have "percent_decode s = s" "map (\<lambda>c. if c = CHR ''+'' then CHR '' '' else c) s = s" if "list_all unreserved s"
  proof -
    have "\<not> unreserved CHR ''%''" "\<not> unreserved CHR ''+''" by (simp_all add: unreserved_def)
    then show "percent_decode s = s" "map (\<lambda>c. if c = CHR ''+'' then CHR '' '' else c) s = s"
      using that by (induction s) auto
  qed
  then show "list_all unreserved s \<Longrightarrow> form_decode s = s" by (simp add: form_decode_def)
qed

text \<open>
  The link to the editor. The editor opened from the list gets the name of the script when it has unreserved characters only; a
  plus sign in a name arrives as a space, so such a script cannot be edited.
\<close>

theorem edit_link_opens:
  "(if list_all unreserved s then edit_file (edit_link s) = Some s else True) \<and>
   edit_file (edit_link ''a+b.js'') = Some ''a b.js''"
proof -
  have "edit_file (edit_link s) = Some s" if s: "list_all unreserved s"
  proof -
    have no: "\<not> unreserved CHR ''#''" "\<not> unreserved CHR ''?''" "\<not> unreserved CHR ''&''" "\<not> unreserved CHR ''=''"
      by (simp_all add: unreserved_def)
    then have neq: "\<forall>c \<in> set s. c \<noteq> CHR ''#'' \<and> c \<noteq> CHR ''&''" using s by (auto simp: list_all_iff)
    then have w: "takeWhile (\<lambda>c. c \<noteq> CHR ''#'') s = s" "dropWhile (\<lambda>c. c \<noteq> CHR ''&'') s = []"
      by (simp_all add: takeWhile_eq_all_conv)
    have q: "url_query (edit_link s) = ''script='' @ s" using w(1) by (simp add: url_query_def edit_link_def)
    have sp: "split_at CHR ''&'' (''script='' @ s) = [''script='' @ s]"
      by (subst split_at.simps) (simp add: w(2) del: dropWhile_eq_Nil_conv)
    have n: "form_decode ''script'' = ''script''" by code_simp
    show ?thesis
      using form_decode_plain [OF s] n unfolding edit_file_def q get_param_def sp by simp
  qed
  moreover have "edit_file (edit_link ''a+b.js'') = Some ''a b.js''" by code_simp
  ultimately show ?thesis by simp
qed

section \<open>The list: properties\<close>

lemma keys_obj_set: "map fst (obj_set k v kvs) = (if k \<in> fst ` set kvs then map fst kvs else map fst kvs @ [k])"
  by (auto simp: obj_set_def)

lemma map_of_obj_set: "map_of (obj_set k v kvs) = (map_of kvs)(k \<mapsto> v)"
proof (cases "k \<in> fst ` set kvs")
  case True
  have "map_of (map (\<lambda>(k', v'). (k', if k' = k then v else v')) kvs) j =
      (if j = k then map_option (\<lambda>_. v) (map_of kvs k) else map_of kvs j)" for j
    by (induction kvs) auto
  moreover obtain w where "map_of kvs k = Some w" using True by (metis map_of_eq_None_iff not_None_eq)
  ultimately show ?thesis using True by (auto simp: obj_set_def)
next
  case False
  then have "map_of kvs k = None" by (simp add: map_of_eq_None_iff)
  with False show ?thesis by (auto simp: obj_set_def map_add_def split: option.split)
qed

definition own_names :: "(string \<times> script) list \<Rightarrow> bool" where
  "own_names l \<longleftrightarrow> (\<forall>(k, sc) \<in> set l. sc_name sc = k)"






lemma sort_names_simps [simp]: "set (sort_names xs) = set xs" "distinct (sort_names xs) = distinct xs" "length (sort_names xs) = length xs"
  by (simp_all add: sort_names_def)

lemma build_object:
  "distinct (map fst obj @ keys) \<Longrightarrow> foldl (\<lambda>obj key. obj_set key (f key) obj) obj keys = obj @ map (\<lambda>key. (key, f key)) keys"
proof (induction keys arbitrary: obj)
  case (Cons k ks)
  then have "obj_set k (f k) obj = obj @ [(k, f k)]" by (auto simp: obj_set_def)
  with Cons.IH [of "obj @ [(k, f k)]"] Cons.prems show ?case by simp
qed simp

lemma sorted_object_eq:
  "distinct (map fst kvs) \<Longrightarrow> sorted_object kvs = map (\<lambda>key. (key, the (map_of kvs key))) (sort_names (map fst kvs))"
  by (simp add: sorted_object_def build_object [of "[]" "sort_names (map fst kvs)", simplified])

lemma sorted_object_props:
  assumes "distinct (map fst kvs)"
  shows "map fst (sorted_object kvs) = sort_names (map fst kvs)" and "map_of (sorted_object kvs) = map_of kvs"
proof -
  show keys: "map fst (sorted_object kvs) = sort_names (map fst kvs)" by (simp add: sorted_object_eq [OF assms] comp_def)
  show "map_of (sorted_object kvs) = map_of kvs"
  proof
    fix k
    show "map_of (sorted_object kvs) k = map_of kvs k"
    proof (cases "k \<in> fst ` set kvs")
      case True
      then obtain v where v: "map_of kvs k = Some v" by (metis map_of_eq_None_iff not_None_eq)
      have "map_of (map (\<lambda>key. (key, the (map_of kvs key))) (sort_names (map fst kvs))) k = Some (the (map_of kvs k))"
        using True by (simp add: map_of_map_restrict)
      then show ?thesis by (simp add: sorted_object_eq [OF assms] v)
    next
      case False
      moreover have "fst ` set (sorted_object kvs) = fst ` set kvs" using keys by (metis list.set_map sort_names_simps(1))
      ultimately show ?thesis using map_of_eq_None_iff by metis
    qed
  qed
qed



lemma scripts_simps [simp]:
  "pg_scripts (send r k p) = pg_scripts p" "pg_scripts (updateStatus p) = pg_scripts p"
  "pg_scripts (activate s p) = pg_scripts p" "pg_scripts (deactivate s p) = pg_scripts p"
  "pg_scripts (deleteScript c s p) = pg_scripts p" "pg_scripts (newScript a p) = pg_scripts p"
  "pg_scripts (drop_pending j p) = pg_scripts p"
  by (simp_all add: send_def updateStatus_def activate_def deactivate_def deleteScript_def newScript_def drop_pending_def
      split: option.split)







definition two_scripts :: "(string \<times> script) list" where
  "two_scripts =
     [(''b.js'', \<lparr>sc_name = ''b.js'', sc_state = Some ''running'', sc_active = None\<rparr>),
      (''a.js'', \<lparr>sc_name = ''a.js'', sc_state = Some ''deactivated'', sc_active = None\<rparr>)]"

lemma two_scripts_wf: "wf_listing two_scripts" "own_names two_scripts"
  by (simp_all add: two_scripts_def wf_listing_def own_names_def)


text \<open>
  A new script. When the server accepts a new script, the list holds it beside the others, which keep their entries, in the order of the names; but
  its state is unknown, so its row offers neither activation nor deactivation until the list is loaded again.
\<close>

theorem new_script_listed:
  assumes "wf_listing (pg_scripts p)" and "p' = run_cont (NewRest s) (Status 200) p"
  shows "sorted (map utf16 (map fst (pg_scripts p'))) \<and> set (map fst (pg_scripts p')) = insert s (fst ` set (pg_scripts p)) \<and>
    (\<forall>k. k = s \<or> map_of (pg_scripts p') k = map_of (pg_scripts p) k) \<and> (s, StateTile None) \<in> set (rows p')"
proof -
  let ?new = "\<lparr>sc_name = s, sc_state = None, sc_active = Some True\<rparr>"
  let ?l = "obj_set s ?new (pg_scripts p)"
  have d: "distinct (map fst ?l)" using assms(1) by (auto simp: wf_listing_def keys_obj_set)
  have l: "pg_scripts p' = sorted_object ?l" by (simp add: assms(2))
  note so = sorted_object_props [OF d]
  have keys: "set (map fst (pg_scripts p')) = insert s (fst ` set (pg_scripts p))"
    unfolding l so(1) sort_names_simps keys_obj_set by auto
  have m: "map_of (pg_scripts p') = (map_of (pg_scripts p))(s \<mapsto> ?new)" unfolding l so(2) by (rule map_of_obj_set)
  have r: "row (the (map_of (pg_scripts p') s)) = (s, StateTile None)" by (simp add: m row_def)
  have "s \<in> set (shown_names p')" using keys unfolding shown_names_def sort_names_simps by simp
  then have "row (the (map_of (pg_scripts p') s)) \<in> set (rows p')" unfolding rows_def set_map by (rule imageI)
  then have "(s, StateTile None) \<in> set (rows p')" unfolding r .
  moreover have "sorted (map utf16 (map fst (pg_scripts p')))" unfolding l so(1) sort_names_def by (rule sorted_sort_key)
  moreover have "\<forall>k. k = s \<or> map_of (pg_scripts p') k = map_of (pg_scripts p) k" unfolding m by simp
  ultimately show ?thesis using keys by simp
qed

theorem new_script_listed_witness:
  "(''c.js'', StateTile None) \<in> set (rows (run_cont (NewRest ''c.js'') (Status 200)
     \<lparr>pg_scripts = two_scripts, pg_pending = [], pg_sent = [], pg_rejected = 0\<rparr>))"
  using new_script_listed [OF _ refl, of "\<lparr>pg_scripts = two_scripts, pg_pending = [], pg_sent = [], pg_rejected = 0\<rparr>" "''c.js''"]
  by (simp add: two_scripts_wf)

end
