(* ===== verification/Web_App.thy ===== *)
theory Web_App
  imports Main
begin

text \<open>
  The frame of the web interface (\<^verbatim>\<open>webui/src/App.svelte\<close>): which page is shown and how the
  navigation changes it; and the development server of its build (\<^verbatim>\<open>webui/rollup.config.js\<close>,
  \<open>serve\<close> and the list of plugins).
\<close>

section \<open>Pages\<close>

datatype content = OverviewPage | ScriptsPage | SettingsPage | EditPage | ErrorPage

record nav_element =
  nav_href :: "string list"
  nav_text :: string

record app =
  ap_currentPage :: string
  ap_refreshRate :: string
  ap_history :: "string list"

definition navElements :: "nav_element list" where
  "navElements =
     [\<lparr>nav_href = [''index.html''], nav_text = ''Overview''\<rparr>,
      \<lparr>nav_href = [''scripts.html'', ''edit.html''], nav_text = ''Scripts''\<rparr>,
      \<lparr>nav_href = [''settings.html''], nav_text = ''Settings''\<rparr>]"

text \<open>\<open>pathname.split("/").pop()\<close>: what follows the last slash.\<close>

definition last_segment :: "string \<Rightarrow> string" where
  "last_segment pathname = rev (takeWhile (\<lambda>c. c \<noteq> CHR ''/'') (rev pathname))"

definition app_start :: "string \<Rightarrow> app" where
  "app_start pathname = \<lparr>ap_currentPage = last_segment pathname, ap_refreshRate = ''15000'', ap_history = [pathname]\<rparr>"

definition bold :: "app \<Rightarrow> nav_element \<Rightarrow> bool" where
  "bold a e \<longleftrightarrow> ap_currentPage a \<in> set (nav_href e)"

definition click :: "nav_element \<Rightarrow> app \<Rightarrow> app" where
  "click e a = a\<lparr>ap_currentPage := hd (nav_href e), ap_history := ap_history a @ [hd (nav_href e)]\<rparr>"

definition content_of :: "app \<Rightarrow> content" where
  "content_of a =
     (if ap_currentPage a = ''index.html'' then OverviewPage
      else if ap_currentPage a = ''scripts.html'' then ScriptsPage
      else if ap_currentPage a = ''settings.html'' then SettingsPage
      else if ap_currentPage a = ''edit.html'' then EditPage
      else ErrorPage)"

definition select_rate :: "string \<Rightarrow> app \<Rightarrow> app" where
  "select_rate rate a = a\<lparr>ap_refreshRate := rate\<rparr>"

section \<open>The development server\<close>

record dev =
  dv_server :: "nat option"
  dv_spawned :: nat
  dv_handlers :: nat
  dv_signals :: "(nat \<times> nat) list"

definition dev_start :: dev where
  "dev_start = \<lparr>dv_server = None, dv_spawned = 0, dv_handlers = 0, dv_signals = []\<rparr>"

text \<open>Servers are numbered as they are spawned; two handlers are added for the end of the process.
  \<open>kill\<close> sends a signal, here recorded with the server it is sent to.\<close>

definition writeBundle :: "dev \<Rightarrow> dev" where
  "writeBundle d =
     (if dv_server d \<noteq> None then d
      else d\<lparr>dv_server := Some (dv_spawned d), dv_spawned := Suc (dv_spawned d), dv_handlers := dv_handlers d + 2\<rparr>)"

definition toExit :: "dev \<Rightarrow> dev" where
  "toExit d = (case dv_server d of None \<Rightarrow> d | Some n \<Rightarrow> d\<lparr>dv_signals := dv_signals d @ [(n, 0)]\<rparr>)"

definition process_exit :: "dev \<Rightarrow> dev" where
  "process_exit d = (if 0 < dv_handlers d then toExit d else d)"

text \<open>The plugins, in order; an entry that is \<open>false\<close> is skipped.\<close>

definition plugins :: "bool \<Rightarrow> string list" where
  "plugins production =
     [''svelte'', ''css'', ''resolve'', ''nodeResolve'', ''commonjs'', ''typescript''] @
     (if \<not> production then [''serve''] else []) @ (if \<not> production then [''livereload''] else []) @
     (if production then [''terser''] else [])"

section \<open>Properties\<close>

text \<open>
  Navigation. A page that has content has exactly one bold entry in the navigation; clicking an entry shows the content of its first
  address, makes this entry bold and no other, and is recorded in the history.
\<close>

theorem navigation_consistent:
  "(content_of a = ErrorPage \<longleftrightarrow> filter (bold a) navElements = []) \<and> length (filter (bold a) navElements) \<le> 1 \<and>
   list_all (\<lambda>e. content_of (click e a) \<noteq> ErrorPage \<and> filter (bold (click e a)) navElements = [e] \<and>
     last (ap_history (click e a)) = ap_currentPage (click e a)) navElements"
  by (simp add: content_of_def bold_def navElements_def click_def)

lemma builds: "(writeBundle ^^ Suc n) dev_start = \<lparr>dv_server = Some 0, dv_spawned = 1, dv_handlers = 2, dv_signals = []\<rparr>"
  by (induction n) (simp_all add: writeBundle_def dev_start_def)

text \<open>
  The development server. However often the bundle is written, one server is spawned, and the end of the build process sends it
  the signal 0; a process that has written no bundle sends nothing.
\<close>

theorem one_dev_server:
  "dv_spawned ((writeBundle ^^ Suc n) dev_start) = 1 \<and> dv_signals (process_exit ((writeBundle ^^ Suc n) dev_start)) = [(0, 0)] \<and>
   dv_signals (process_exit dev_start) = []"
  unfolding builds by (simp add: process_exit_def toExit_def dev_start_def)

end
