(* ===== verification/Refresh_Manager.thy ===== *)
theory Refresh_Manager
  imports JS_Prelude
begin

text \<open>
  The polling manager of the web interface (\<^verbatim>\<open>webui/src/Utils.js\<close>).

  The object's fields, the timers of the browser and the suspended asynchronous
  functions are one record. A function of the source that contains \<open>await\<close> is two
  definitions: what runs up to the \<open>await\<close>, which leaves a continuation behind, and
  the rest, which runs when the awaited promise settles. Browser and framework choose when
  that happens, so the whole is a step relation. A refresh rate is the string of the
  \<open>select\<close> element that the page passes.
\<close>

section \<open>State\<close>

datatype cont = MountCont | RefreshCont string

record rm =
  oldRefreshRate :: "string option"
  refreshIntervalTimeoutId :: nat
  initDone :: bool
  ctorRate :: string
  intervals :: "(nat \<times> string) list"
  nextTimer :: nat
  pending :: "cont list"
  callbackCalls :: nat
  mounted :: bool
  destroyed :: bool

text \<open>The browser's timers: identifiers are positive and never reused.\<close>

definition setInterval :: "string \<Rightarrow> rm \<Rightarrow> nat \<times> rm" where
  "setInterval rate s =
     (nextTimer s,
      s\<lparr>intervals := (nextTimer s, rate) # intervals s, nextTimer := Suc (nextTimer s)\<rparr>)"

definition clearInterval :: "nat \<Rightarrow> rm \<Rightarrow> rm" where
  "clearInterval i s = s\<lparr>intervals := filter (\<lambda>(j, _). j \<noteq> i) (intervals s)\<rparr>"

definition refreshCallback :: "rm \<Rightarrow> rm" where
  "refreshCallback s = s\<lparr>callbackCalls := Suc (callbackCalls s)\<rparr>"

section \<open>Operations\<close>

definition rm_new :: "string \<Rightarrow> rm" where
  "rm_new rate =
     \<lparr>oldRefreshRate = None, refreshIntervalTimeoutId = 0, initDone = False, ctorRate = rate,
      intervals = [], nextTimer = 1, pending = [], callbackCalls = 0,
      mounted = False, destroyed = False\<rparr>"

definition rm_onMount :: "rm \<Rightarrow> rm" where
  "rm_onMount s =
     (refreshCallback s)\<lparr>pending := pending s @ [MountCont], mounted := True\<rparr>"

definition rm_onMount_rest :: "rm \<Rightarrow> rm" where
  "rm_onMount_rest s =
     (let s1 = s\<lparr>initDone := True, oldRefreshRate := Some (ctorRate s)\<rparr>;
          (i, s2) = setInterval (ctorRate s) s1
      in s2\<lparr>refreshIntervalTimeoutId := i\<rparr>)"

definition rm_pageshow :: "bool \<Rightarrow> rm \<Rightarrow> rm" where
  "rm_pageshow persisted s = (if persisted then refreshCallback s else s)"

definition rm_onDestroy :: "rm \<Rightarrow> rm" where
  "rm_onDestroy s = (clearInterval (refreshIntervalTimeoutId s) s)\<lparr>destroyed := True\<rparr>"

definition rm_refresh :: "string \<Rightarrow> rm \<Rightarrow> rm" where
  "rm_refresh rate s =
     (if oldRefreshRate s \<noteq> Some rate \<and> initDone s then
        (let s1 = s\<lparr>oldRefreshRate := Some rate\<rparr>;
             s2 = refreshCallback (clearInterval (refreshIntervalTimeoutId s1) s1)
         in s2\<lparr>pending := pending s2 @ [RefreshCont rate]\<rparr>)
      else s)"

definition rm_refresh_rest :: "string \<Rightarrow> rm \<Rightarrow> rm" where
  "rm_refresh_rest rate s =
     (let (i, s1) = setInterval rate s in s1\<lparr>refreshIntervalTimeoutId := i\<rparr>)"

fun rm_run_cont :: "cont \<Rightarrow> rm \<Rightarrow> rm" where
  "rm_run_cont MountCont s = rm_onMount_rest s"
| "rm_run_cont (RefreshCont rate) s = rm_refresh_rest rate s"

definition drop_cont :: "nat \<Rightarrow> rm \<Rightarrow> rm" where
  "drop_cont k s = s\<lparr>pending := take k (pending s) @ drop (Suc k) (pending s)\<rparr>"

lemmas rm_defs = setInterval_def clearInterval_def refreshCallback_def rm_onMount_def
  rm_onMount_rest_def rm_pageshow_def rm_onDestroy_def rm_refresh_def rm_refresh_rest_def
  drop_cont_def

section \<open>Steps and runs\<close>

text \<open>
  A promise that the callback returned is fulfilled (\<open>EvResume\<close>, the continuation runs)
  or rejected (\<open>EvReject\<close>, the rest of the asynchronous function is skipped).
\<close>

datatype rm_event =
  EvMount | EvResume nat | EvReject nat | EvRefresh string | EvPageshow bool | EvDestroy

inductive rm_step :: "rm \<Rightarrow> rm_event \<Rightarrow> rm \<Rightarrow> bool" where
  mount: "\<not> mounted s \<Longrightarrow> \<not> destroyed s \<Longrightarrow> rm_step s EvMount (rm_onMount s)"
| resume: "k < length (pending s) \<Longrightarrow>
     rm_step s (EvResume k) (rm_run_cont (pending s ! k) (drop_cont k s))"
| reject: "k < length (pending s) \<Longrightarrow> rm_step s (EvReject k) (drop_cont k s)"
| refresh: "\<not> destroyed s \<Longrightarrow> rm_step s (EvRefresh rate) (rm_refresh rate s)"
| pageshow: "rm_step s (EvPageshow b) (rm_pageshow b s)"
| destroy: "mounted s \<Longrightarrow> \<not> destroyed s \<Longrightarrow> rm_step s EvDestroy (rm_onDestroy s)"

inductive_cases rm_step_mountE: "rm_step s EvMount t"
inductive_cases rm_step_resumeE: "rm_step s (EvResume k) t"
inductive_cases rm_step_refreshE: "rm_step s (EvRefresh rate) t"
inductive_simps rm_step_destroy_iff: "rm_step s EvDestroy t"

inductive rm_reach :: "string \<Rightarrow> rm \<Rightarrow> bool" for rate where
  start: "rm_reach rate (rm_new rate)"
| step: "rm_reach rate s \<Longrightarrow> rm_step s e t \<Longrightarrow> rm_reach rate t"

text \<open>
  An orderly run: the rate is not changed, and the component not destroyed, while an
  asynchronous function is suspended.
\<close>

fun orderly :: "rm \<Rightarrow> rm_event \<Rightarrow> bool" where
  "orderly s (EvRefresh rate) = (pending s = [])"
| "orderly s EvDestroy = (pending s = [])"
| "orderly s e = True"

inductive rm_orderly_reach :: "string \<Rightarrow> rm \<Rightarrow> bool" for rate where
  start: "rm_orderly_reach rate (rm_new rate)"
| step: "rm_orderly_reach rate s \<Longrightarrow> rm_step s e t \<Longrightarrow> orderly s e \<Longrightarrow> rm_orderly_reach rate t"

section \<open>The invariant of orderly runs\<close>

definition rm_inv :: "rm \<Rightarrow> bool" where
  "rm_inv s \<longleftrightarrow>
     (intervals s = [] \<or> (\<exists>rate. intervals s = [(refreshIntervalTimeoutId s, rate)]
        \<and> oldRefreshRate s = Some rate))
     \<and> (pending s \<noteq> [] \<longrightarrow> length (pending s) = 1 \<and> intervals s = [] \<and> mounted s)
     \<and> (\<forall>rate. RefreshCont rate \<in> set (pending s) \<longrightarrow> oldRefreshRate s = Some rate)
     \<and> (\<not> mounted s \<longrightarrow> intervals s = [] \<and> \<not> initDone s)
     \<and> (destroyed s \<longrightarrow> intervals s = [] \<and> pending s = [] \<and> mounted s)"

lemma rm_inv_init: "rm_inv (rm_new rate)"
  by (simp add: rm_inv_def rm_new_def)

lemma single_pending:
  assumes "rm_inv s" and "k < length (pending s)"
  obtains c where "k = 0" "pending s = [c]" "intervals s = []" "mounted s" "\<not> destroyed s"
  using assms by (cases "pending s") (auto simp: rm_inv_def)

lemma rm_inv_mount: "rm_inv s \<Longrightarrow> \<not> mounted s \<Longrightarrow> \<not> destroyed s \<Longrightarrow> rm_inv (rm_onMount s)"
  by (auto simp: rm_inv_def rm_defs)

lemma rm_inv_resume:
  assumes inv: "rm_inv s" and k: "k < length (pending s)"
  shows "rm_inv (rm_run_cont (pending s ! k) (drop_cont k s))"
proof (rule single_pending [OF inv k])
  fix c
  assume p: "k = 0" "pending s = [c]" "intervals s = []" "mounted s" "\<not> destroyed s"
  show ?thesis
  proof (cases c)
    case MountCont
    with p show ?thesis by (simp add: rm_inv_def rm_defs)
  next
    case (RefreshCont rate)
    with p inv have "oldRefreshRate s = Some rate" by (auto simp: rm_inv_def)
    with RefreshCont p show ?thesis by (simp add: rm_inv_def rm_defs)
  qed
qed

lemma rm_inv_reject:
  assumes inv: "rm_inv s" and k: "k < length (pending s)"
  shows "rm_inv (drop_cont k s)"
  by (rule single_pending [OF inv k]) (use inv in \<open>simp add: rm_inv_def rm_defs\<close>)

lemma rm_inv_refresh: "rm_inv s \<Longrightarrow> \<not> destroyed s \<Longrightarrow> pending s = [] \<Longrightarrow> rm_inv (rm_refresh rate s)"
  by (auto simp: rm_inv_def rm_defs Let_def)

lemma rm_inv_destroy: "rm_inv s \<Longrightarrow> mounted s \<Longrightarrow> pending s = [] \<Longrightarrow> rm_inv (rm_onDestroy s)"
  by (auto simp: rm_inv_def rm_defs)

lemma rm_inv_step: "rm_step s e t \<Longrightarrow> orderly s e \<Longrightarrow> rm_inv s \<Longrightarrow> rm_inv t"
proof (induction rule: rm_step.induct)
  case (pageshow s b)
  then show ?case by (simp add: rm_inv_def rm_defs)
qed (auto intro: rm_inv_mount rm_inv_resume rm_inv_reject rm_inv_refresh rm_inv_destroy)

lemma rm_orderly_inv: "rm_orderly_reach rate s \<Longrightarrow> rm_inv s"
  by (induction rule: rm_orderly_reach.induct) (auto intro: rm_inv_init rm_inv_step)

section \<open>Properties\<close>

text \<open>
  C1 (one timer). In an orderly run at most one timer is live, it is the one whose
  identifier the manager holds and it runs at the rate the manager last recorded; and
  destroying the component then leaves no timer behind.
\<close>

theorem orderly_one_timer:
  assumes "rm_orderly_reach rate s"
  shows "(intervals s = [] \<or> (\<exists>r. intervals s = [(refreshIntervalTimeoutId s, r)] \<and> oldRefreshRate s = Some r))
    \<and> (rm_step s EvDestroy t \<and> orderly s EvDestroy \<longrightarrow> intervals t = [])"
proof -
  from assms have inv: "rm_inv s" by (rule rm_orderly_inv)
  then have "intervals t = []" if "rm_step s EvDestroy t" "orderly s EvDestroy"
    using that rm_inv_step [OF that inv] by (auto simp: rm_step_destroy_iff rm_inv_def rm_onDestroy_def)
  with inv show ?thesis by (auto simp: rm_inv_def)
qed

lemma rm_new_mount: "rm_step (rm_new rate) EvMount (rm_onMount (rm_new rate))"
  by (rule rm_step.mount) (simp_all add: rm_new_def)

definition rm_loaded :: "string \<Rightarrow> rm" where
  "rm_loaded rate =
     \<lparr>oldRefreshRate = Some rate, refreshIntervalTimeoutId = 1, initDone = True, ctorRate = rate,
      intervals = [(1, rate)], nextTimer = 2, pending = [], callbackCalls = 1,
      mounted = True, destroyed = False\<rparr>"

lemma rm_mounted_resume: "rm_step (rm_onMount (rm_new rate)) (EvResume 0) (rm_loaded rate)"
  using rm_step.resume [of 0 "rm_onMount (rm_new rate)"]
  by (simp add: rm_new_def rm_loaded_def rm_defs Let_def numeral_2_eq_2)

theorem orderly_one_timer_witness:
  "rm_orderly_reach ''15000'' (rm_loaded ''15000'') \<and>
   intervals (rm_onDestroy (rm_loaded ''15000'')) = []"
proof -
  have "rm_orderly_reach ''15000'' (rm_onMount (rm_new ''15000''))"
    by (rule rm_orderly_reach.step [OF rm_orderly_reach.start rm_new_mount]) simp
  then have r: "rm_orderly_reach ''15000'' (rm_loaded ''15000'')"
    by (rule rm_orderly_reach.step [OF _ rm_mounted_resume]) simp
  have "rm_step (rm_loaded ''15000'') EvDestroy (rm_onDestroy (rm_loaded ''15000''))"
    by (rule rm_step.destroy) (simp_all add: rm_loaded_def)
  moreover have "orderly (rm_loaded ''15000'') EvDestroy" by (simp add: rm_loaded_def)
  ultimately show ?thesis
    using r orderly_one_timer [OF r, of "rm_onDestroy (rm_loaded ''15000'')"] by blast
qed

text \<open>
  Overlapping refreshes leak a timer. Two rate changes in quick succession, the second
  while the callback of the first is still awaited, start two timers of which the manager
  remembers one: after the component is destroyed with nothing suspended, a timer still
  runs.
\<close>

theorem overlapping_refresh_leaks_timer:
  "\<exists>s. rm_reach ''15000'' s \<and> destroyed s \<and> pending s = [] \<and> intervals s \<noteq> []"
proof -
  let ?l = "rm_loaded ''15000''"
  let ?a = "rm_refresh ''1000'' ?l"
  let ?b = "rm_refresh ''5000'' ?a"
  let ?c = "rm_run_cont (pending ?b ! 0) (drop_cont 0 ?b)"
  let ?d = "rm_run_cont (pending ?c ! 0) (drop_cont 0 ?c)"
  note [simp] = rm_loaded_def rm_defs Let_def
  have "rm_reach ''15000'' (rm_onMount (rm_new ''15000''))"
    by (rule rm_reach.step [OF rm_reach.start rm_new_mount])
  then have "rm_reach ''15000'' ?l" by (rule rm_reach.step [OF _ rm_mounted_resume])
  then have "rm_reach ''15000'' ?a" by (rule rm_reach.step [OF _ rm_step.refresh]) simp
  then have "rm_reach ''15000'' ?b" by (rule rm_reach.step [OF _ rm_step.refresh]) simp
  then have "rm_reach ''15000'' ?c" by (rule rm_reach.step [OF _ rm_step.resume]) simp
  then have "rm_reach ''15000'' ?d" by (rule rm_reach.step [OF _ rm_step.resume]) simp
  then have "rm_reach ''15000'' (rm_onDestroy ?d)"
    by (rule rm_reach.step [OF _ rm_step.destroy]) simp_all
  moreover have "destroyed (rm_onDestroy ?d)" and "pending (rm_onDestroy ?d) = []"
    and "intervals (rm_onDestroy ?d) \<noteq> []" by simp_all
  ultimately show ?thesis by blast
qed

text \<open>
  When a refresh restarts the timer. Once the page is loaded, asking for the current
  rate changes nothing; another rate stops the held timer at once, calls the callback once
  and, when the callback is done, runs a timer at the new rate. Before the first load is
  done a rate is ignored: the timer then starts at the constructor's rate.
\<close>

theorem refresh_behaviour:
  "(\<not> initDone s \<longrightarrow> rm_refresh rate s = s) \<and>
   (oldRefreshRate s = Some rate \<longrightarrow> rm_refresh rate s = s) \<and>
   (initDone s \<and> oldRefreshRate s \<noteq> Some rate \<longrightarrow>
      callbackCalls (rm_refresh rate s) = Suc (callbackCalls s) \<and>
      refreshIntervalTimeoutId s \<notin> fst ` set (intervals (rm_refresh rate s)) \<and>
      last (pending (rm_refresh rate s)) = RefreshCont rate \<and>
      (refreshIntervalTimeoutId (rm_refresh_rest rate t), rate) \<in> set (intervals (rm_refresh_rest rate t))) \<and>
   (intervals (rm_onMount_rest t) = (refreshIntervalTimeoutId (rm_onMount_rest t), ctorRate t) # intervals t)"
  by (auto simp: rm_defs Let_def)

theorem refresh_behaviour_witness:
  "callbackCalls (rm_refresh ''1000'' (rm_loaded ''15000'')) = 2"
  using refresh_behaviour [of "rm_loaded ''15000''" "''1000''" "rm_loaded ''15000''"]
  by (simp add: rm_loaded_def)

end
