(* ===== verification/Collections.thy ===== *)
theory Collections
  imports Core_Helpers
begin

text \<open>
  The collection helpers of the charting library (\<open>_lookup\<close> to \<open>_arrayUnique\<close> in
  \<^verbatim>\<open>chart.js\<close>): binary search, clipping of a sorted array, listening to the
  mutating methods of an array, removal of duplicates.
\<close>

section \<open>Binary search\<close>

text \<open>
  The loop keeps two positions; on an empty table \<open>hi\<close> starts at \<open>-1\<close>, so positions
  are integers. The comparison is a function of the index, as in the source.
\<close>

function lookup_loop :: "(int \<Rightarrow> bool) \<Rightarrow> int \<Rightarrow> int \<Rightarrow> int \<times> int" where
  "lookup_loop cmp lo hi =
     (if hi - lo > 1
      then (let mid = (lo + hi) div 2
            in if cmp mid then lookup_loop cmp mid hi else lookup_loop cmp lo mid)
      else (lo, hi))"
  by pat_completeness auto
termination
  by (relation "measure (\<lambda>(cmp, lo, hi). nat (hi - lo))") auto

declare lookup_loop.simps [simp del]

definition lookup_with :: "nat \<Rightarrow> (int \<Rightarrow> bool) \<Rightarrow> int \<times> int" where
  "lookup_with n cmp = lookup_loop cmp 0 (int n - 1)"

definition lookup :: "real list \<Rightarrow> real \<Rightarrow> int \<times> int" where
  "lookup table v = lookup_with (length table) (\<lambda>i. table ! nat i < v)"

definition lookupByKey :: "'a list \<Rightarrow> ('a \<Rightarrow> real) \<Rightarrow> real \<Rightarrow> int \<times> int" where
  "lookupByKey table key v = lookup_with (length table) (\<lambda>i. key (table ! nat i) < v)"

definition rlookupByKey :: "'a list \<Rightarrow> ('a \<Rightarrow> real) \<Rightarrow> real \<Rightarrow> int \<times> int" where
  "rlookupByKey table key v = lookup_with (length table) (\<lambda>i. key (table ! nat i) \<ge> v)"

section \<open>Clipping a sorted array\<close>

function skip_low :: "real list \<Rightarrow> real \<Rightarrow> nat \<Rightarrow> nat \<Rightarrow> nat" where
  "skip_low vs mn start end' =
     (if start < end' \<and> vs ! start < mn then skip_low vs mn (Suc start) end' else start)"
  by pat_completeness auto
termination
  by (relation "measure (\<lambda>(vs, mn, start, end'). end' - start)") auto

fun skip_high :: "real list \<Rightarrow> real \<Rightarrow> nat \<Rightarrow> nat \<Rightarrow> nat" where
  "skip_high vs mx start end' =
     (if end' > start \<and> vs ! (end' - 1) > mx then skip_high vs mx start (end' - 1) else end')"

declare skip_low.simps [simp del] skip_high.simps [simp del]

definition filterBetween :: "real list \<Rightarrow> real \<Rightarrow> real \<Rightarrow> real list" where
  "filterBetween vs mn mx =
     (let start = skip_low vs mn 0 (length vs);
          end' = skip_high vs mx start (length vs)
      in if start > 0 \<or> end' < length vs then take (end' - start) (drop start vs) else vs)"

section \<open>Listening to an array\<close>

text \<open>
  An array with its stub: \<open>None\<close> is an array without the \<open>_chartjs\<close> property, whose
  methods are the built-in ones. A listener is identified by a number; \<open>has_method\<close>
  says which handlers an object has. A call of a wrapped method changes the array, then calls
  the handler of every listener in order.
\<close>

definition arrayEvents :: "string list" where
  "arrayEvents = [''push'', ''pop'', ''shift'', ''splice'', ''unshift'']"

record 'a listened =
  arr_items :: "'a list"
  arr_listeners :: "nat list option"

definition listenArrayEvents :: "nat \<Rightarrow> 'a listened \<Rightarrow> 'a listened" where
  "listenArrayEvents listener arr =
     (case arr_listeners arr of
        Some ls \<Rightarrow> arr\<lparr>arr_listeners := Some (ls @ [listener])\<rparr>
      | None \<Rightarrow> arr\<lparr>arr_listeners := Some [listener]\<rparr>)"

definition unlistenArrayEvents :: "nat \<Rightarrow> 'a listened \<Rightarrow> 'a listened" where
  "unlistenArrayEvents listener arr =
     (case arr_listeners arr of
        None \<Rightarrow> arr
      | Some ls \<Rightarrow>
          (let ls' = remove1 listener ls
           in if ls' \<noteq> [] then arr\<lparr>arr_listeners := Some ls'\<rparr>
              else arr\<lparr>arr_listeners := None\<rparr>))"

text \<open>The calls \<open>object[method]\<close> that one call of a method of the array causes.\<close>

definition array_notifications ::
    "(nat \<Rightarrow> string \<Rightarrow> bool) \<Rightarrow> string \<Rightarrow> 'a listened \<Rightarrow> (nat \<times> string) list" where
  "array_notifications has_method key arr =
     (let m = ''_onData'' @ capitalize key in
      case arr_listeners arr of
        None \<Rightarrow> []
      | Some ls \<Rightarrow> if key \<in> set arrayEvents
                   then map (\<lambda>l. (l, m)) (filter (\<lambda>l. has_method l m) ls) else [])"

section \<open>Duplicates\<close>

text \<open>Adding to a \<open>Set\<close> keeps the first occurrence of each member, in order.\<close>

fun set_add_all :: "'a list \<Rightarrow> 'a list \<Rightarrow> 'a list" where
  "set_add_all s [] = s"
| "set_add_all s (v # items) = set_add_all (if v \<in> set s then s else s @ [v]) items"

definition arrayUnique :: "'a list \<Rightarrow> 'a list" where
  "arrayUnique items =
     (let s = set_add_all [] items in if length s = length items then items else s)"

section \<open>Binary search: the interface and its laws\<close>

text \<open>
  What the callers of the search rely on: the indices for which the comparison holds come
  before those for which it does not. Each of the three lookups of the source provides it
  for the tables its callers keep sorted.
\<close>

locale searchable =
  fixes ordered :: "'t \<Rightarrow> bool"
    and size_of :: "'t \<Rightarrow> nat"
    and below :: "'t \<Rightarrow> 'v \<Rightarrow> int \<Rightarrow> bool"
  assumes below_down:
    "ordered t \<Longrightarrow> 0 \<le> i \<Longrightarrow> i \<le> j \<Longrightarrow> j < int (size_of t) \<Longrightarrow> below t v j \<Longrightarrow> below t v i"
begin

lemma loop_bracket:
  assumes "0 \<le> lo" and "lo \<le> hi" and "hi < int (size_of t)"
    and "lo = 0 \<or> below t v lo" and "hi = int (size_of t) - 1 \<or> \<not> below t v hi"
    and "lookup_loop (below t v) lo hi = (l, h)"
  shows "0 \<le> l \<and> l \<le> h \<and> h - l \<le> 1 \<and> h < int (size_of t) \<and> (l = 0 \<or> below t v l) \<and>
    (h = int (size_of t) - 1 \<or> \<not> below t v h)"
  using assms
proof (induction "below t v" lo hi rule: lookup_loop.induct)
  case (1 lo hi)
  show ?case
  proof (cases "hi - lo > 1")
    case True
    then have "lo < (lo + hi) div 2" and "(lo + hi) div 2 < hi" by auto
    with 1 True show ?thesis
      by (cases "below t v ((lo + hi) div 2)") (simp_all add: lookup_loop.simps [of _ lo hi] Let_def)
  next
    case False
    with 1 show ?thesis by (simp add: lookup_loop.simps [of _ lo hi])
  qed
qed

text \<open>
  The result is a bracket: neighbouring positions such that everything before the lower one
  is below the value and nothing after the upper one is.
\<close>

lemma bracket:
  assumes "ordered t" and "0 < size_of t" and res: "lookup_with (size_of t) (below t v) = (l, h)"
  shows "0 \<le> l \<and> l \<le> h \<and> h \<le> l + 1 \<and> h < int (size_of t) \<and>
    (\<forall>i. 0 \<le> i \<and> i < l \<longrightarrow> below t v i) \<and>
    (\<forall>i. h < i \<and> i < int (size_of t) \<longrightarrow> \<not> below t v i)"
proof -
  have b: "0 \<le> l \<and> l \<le> h \<and> h - l \<le> 1 \<and> h < int (size_of t) \<and> (l = 0 \<or> below t v l) \<and>
      (h = int (size_of t) - 1 \<or> \<not> below t v h)"
    by (rule loop_bracket [of 0 "int (size_of t) - 1"]) (use assms in \<open>simp_all add: lookup_with_def\<close>)
  have "below t v i" if "0 \<le> i" "i < l" for i
    using that b below_down [OF assms(1), of i l v] by auto
  moreover have "\<not> below t v i" if "h < i" "i < int (size_of t)" for i
    using that b below_down [OF assms(1), of h i v] by auto
  ultimately show ?thesis using b by auto
qed

end

interpretation lk: searchable sorted length "\<lambda>table v i. table ! nat i < (v :: real)"
proof (unfold_locales)
  fix t :: "real list" and i j v
  assume "sorted t" "0 \<le> i" "i \<le> j" "j < int (length t)" "t ! nat j < v"
  then show "t ! nat i < v"
    using sorted_nth_mono [of t "nat i" "nat j"] by (simp add: nat_less_iff nat_mono)
qed

interpretation lkKey: searchable "\<lambda>(table, key). sorted (map key table)" "\<lambda>(table, key). length table"
    "\<lambda>(table, key) v i. key (table ! nat i) < (v :: real)"
proof (unfold_locales, clarsimp)
  fix table :: "'a list" and key :: "'a \<Rightarrow> real" and i j v
  assume "sorted (map key table)" "0 \<le> i" "i \<le> j" "j < int (length table)" "key (table ! nat j) < v"
  then show "key (table ! nat i) < v"
    using sorted_nth_mono [of "map key table" "nat i" "nat j"] by (simp add: nat_less_iff nat_mono)
qed

interpretation rlkKey: searchable "\<lambda>(table, key). sorted (rev (map key table))"
    "\<lambda>(table, key). length table" "\<lambda>(table, key) v i. key (table ! nat i) \<ge> (v :: real)"
proof (unfold_locales, clarsimp)
  fix table :: "'a list" and key :: "'a \<Rightarrow> real" and i j v
  assume "sorted (rev (map key table))" "0 \<le> i" "i \<le> j" "j < int (length table)" "v \<le> key (table ! nat j)"
  then show "v \<le> key (table ! nat i)"
    using sorted_rev_nth_mono [of "map key table" "nat i" "nat j"] by (simp add: nat_less_iff nat_mono)
qed

section \<open>Clipping and duplicates: lemmas\<close>

lemma skip_low_eq:
  "start \<le> end' \<Longrightarrow> end' \<le> length vs \<Longrightarrow>
     skip_low vs mn start end' = start + length (takeWhile (\<lambda>v. v < mn) (take (end' - start) (drop start vs)))"
proof (induction vs mn start end' rule: skip_low.induct)
  case (1 vs mn start end')
  show ?case
  proof (cases "start < end'")
    case True
    then have "take (end' - start) (drop start vs) = vs ! start # take (end' - Suc start) (drop (Suc start) vs)"
      using 1 by (simp add: Cons_nth_drop_Suc [symmetric] Suc_diff_Suc [symmetric])
    then show ?thesis using 1 True by (simp add: skip_low.simps [of vs mn start end'])
  next
    case False
    then show ?thesis using 1 by (subst skip_low.simps) simp
  qed
qed

lemma skip_high_eq:
  "start \<le> end' \<Longrightarrow> end' \<le> length vs \<Longrightarrow>
     take (skip_high vs mx start end' - start) (drop start vs)
       = rev (dropWhile (\<lambda>v. mx < v) (rev (take (end' - start) (drop start vs)))) \<and>
     start \<le> skip_high vs mx start end' \<and> skip_high vs mx start end' \<le> end'"
proof (induction vs mx start end' rule: skip_high.induct)
  case (1 vs mx start end')
  show ?case
  proof (cases "start < end'")
    case True
    then have "take (end' - start) (drop start vs) = take (end' - 1 - start) (drop start vs) @ [vs ! (end' - 1)]"
      using 1 take_Suc_conv_app_nth [of "end' - 1 - start" "drop start vs"] by (simp add: Suc_diff_Suc)
    moreover have "start \<le> end' - 1" and "end' - 1 \<le> length vs" using True 1 by simp_all
    ultimately show ?thesis
      using 1 True by (cases "mx < vs ! (end' - 1)") (auto simp: skip_high.simps [of vs mx start end'])
  next
    case False
    then show ?thesis using 1 by (subst (1 2 3) skip_high.simps) simp
  qed
qed

lemma sorted_dropWhile_filter:
  fixes vs :: "real list"
  shows "sorted vs \<Longrightarrow> dropWhile (\<lambda>v. v < mn) vs = filter (\<lambda>v. mn \<le> v) vs"
proof (induction vs)
  case (Cons a vs)
  then have "filter ((\<le>) mn) vs = vs" if "mn \<le> a" using that by (intro filter_True) auto
  with Cons show ?case by auto
qed simp

lemma sorted_rev_dropWhile_filter:
  fixes vs :: "real list"
  shows "sorted vs \<Longrightarrow> rev (dropWhile (\<lambda>v. mx < v) (rev vs)) = filter (\<lambda>v. v \<le> mx) vs"
proof (induction vs rule: rev_induct)
  case (snoc v vs)
  show ?case
  proof (cases "mx < v")
    case True
    with snoc show ?thesis by (simp add: sorted_append)
  next
    case False
    with snoc.prems have "\<forall>u \<in> set vs. u \<le> mx" by (auto simp: sorted_append)
    with False show ?thesis by (simp add: filter_id_conv)
  qed
qed simp

lemma set_add_all_props:
  "distinct s \<Longrightarrow> distinct (set_add_all s items) \<and> set (set_add_all s items) = set s \<union> set items"
  by (induction items arbitrary: s) auto

lemma set_add_all_eq:
  "set_add_all s items = s @ filter (\<lambda>v. v \<notin> set s) (set_add_all [] items)"
proof (induction items arbitrary: s)
  case (Cons v items)
  have *: "set_add_all [v] items = v # filter (\<lambda>u. u \<noteq> v) (set_add_all [] items)"
    using Cons.IH [of "[v]"] by simp
  show ?case
    using Cons.IH [of s] Cons.IH [of "s @ [v]"]
    by (auto simp: * intro!: filter_cong)
qed simp

lemma length_set_add_all: "length (set_add_all s items) \<le> length s + length items"
proof (induction items arbitrary: s)
  case (Cons v items)
  have "length (set_add_all s items) \<le> length s + length items"
    and "length (set_add_all (s @ [v]) items) \<le> length (s @ [v]) + length items"
    by (rule Cons.IH)+
  then show ?case by simp
qed simp

lemma set_add_all_full:
  "length (set_add_all s items) = length s + length items \<Longrightarrow> set_add_all s items = s @ items"
proof (induction items arbitrary: s)
  case (Cons v items)
  then show ?case
    using length_set_add_all [of s items] Cons.IH [of "s @ [v]"] by (cases "v \<in> set s") auto
qed simp

section \<open>Properties\<close>

text \<open>
  Binary search. On a non-empty sorted table the search ends with two neighbouring
  indices of the table such that every entry before the lower one is less than the value and
  every entry after the upper one is not; looking up by a key in a table sorted by that key,
  and by a key in a table sorted downwards, give the corresponding brackets.
\<close>

theorem lookup_brackets:
  assumes "sorted table" and "table \<noteq> []" and "lookup table v = (lo, hi)"
  shows "0 \<le> lo \<and> lo \<le> hi \<and> hi \<le> lo + 1 \<and> hi < int (length table) \<and>
    (\<forall>i < length table. (int i < lo \<longrightarrow> table ! i < v) \<and> (hi < int i \<longrightarrow> v \<le> table ! i))"
proof -
  have "lookup_with (length table) (\<lambda>i. table ! nat i < v) = (lo, hi)"
    using assms(3) by (simp add: lookup_def)
  then have b: "0 \<le> lo \<and> lo \<le> hi \<and> hi \<le> lo + 1 \<and> hi < int (length table) \<and>
      (\<forall>i. 0 \<le> i \<and> i < lo \<longrightarrow> table ! nat i < v) \<and>
      (\<forall>i. hi < i \<and> i < int (length table) \<longrightarrow> \<not> table ! nat i < v)"
    using assms by (intro lk.bracket) simp_all
  have "table ! i < v" if "int i < lo" for i
    using b that by (metis nat_int of_nat_0_le_iff)
  moreover have "v \<le> table ! i" if "hi < int i" "i < length table" for i
    using b that by (metis nat_int not_less of_nat_less_iff)
  ultimately show ?thesis using b by blast
qed

theorem lookup_brackets_witness:
  "sorted [1, 3, 5, 7 :: real] \<and> lookup [1, 3, 5, 7] 4 = (1, 2) \<and> (4 :: real) \<le> [1, 3, 5, 7] ! 3"
proof -
  have s: "sorted [1, 3, 5, 7 :: real]" and ne: "[1, 3, 5, 7 :: real] \<noteq> []" by simp_all
  have r: "lookup [1, 3, 5, 7] 4 = (1, 2)"
    by (simp add: lookup_def lookup_with_def lookup_loop.simps Let_def)
  from lookup_brackets [OF s ne r] have "(4 :: real) \<le> [1, 3, 5, 7] ! 3" by (auto dest: spec [of _ 3])
  with s r show ?thesis by blast
qed

text \<open>
  Lookup by key. The same for the lookups by key: \<open>_lookupByKey\<close> on a table whose
  keys ascend, \<open>_rlookupByKey\<close> on one whose keys descend.
\<close>

theorem lookupByKey_brackets:
  assumes "table \<noteq> []"
  shows "(sorted (map key table) \<and> lookupByKey table key v = (lo, hi) \<longrightarrow>
      0 \<le> lo \<and> lo \<le> hi \<and> hi \<le> lo + 1 \<and> hi < int (length table) \<and>
      (\<forall>i. 0 \<le> i \<and> i < lo \<longrightarrow> key (table ! nat i) < v) \<and>
      (\<forall>i. hi < i \<and> i < int (length table) \<longrightarrow> v \<le> key (table ! nat i))) \<and>
    (sorted (rev (map key table)) \<and> rlookupByKey table key v = (lo, hi) \<longrightarrow>
      0 \<le> lo \<and> lo \<le> hi \<and> hi \<le> lo + 1 \<and> hi < int (length table) \<and>
      (\<forall>i. 0 \<le> i \<and> i < lo \<longrightarrow> v \<le> key (table ! nat i)) \<and>
      (\<forall>i. hi < i \<and> i < int (length table) \<longrightarrow> key (table ! nat i) < v))"
  using assms lkKey.bracket [of "(table, key)" v lo hi] rlkKey.bracket [of "(table, key)" v lo hi]
  by (auto simp: lookupByKey_def rlookupByKey_def not_less not_le)

theorem lookupByKey_brackets_witness:
  "lookupByKey [(0::real, ''a''), (2, ''b''), (4, ''c'')] fst 3 = (1, 2) \<and>
   fst ([(0::real, ''a''), (2, ''b''), (4, ''c'')] ! nat 0) < 3"
proof -
  have r: "lookupByKey [(0::real, ''a''), (2, ''b''), (4, ''c'')] fst 3 = (1, 2)"
    by (simp add: lookupByKey_def lookup_with_def lookup_loop.simps Let_def)
  then show ?thesis
    using lookupByKey_brackets [of "[(0::real, ''a''), (2, ''b''), (4, ''c'')]" fst 3 1 2] by auto
qed

text \<open>
  Clipping. On a sorted array, \<open>_filterBetween\<close> keeps exactly the values from the
  minimum to the maximum, both included.
\<close>

theorem filterBetween_filters:
  assumes "sorted vs"
  shows "filterBetween vs mn mx = filter (\<lambda>v. mn \<le> v \<and> v \<le> mx) vs"
proof -
  define start where "start = skip_low vs mn 0 (length vs)"
  define stop where "stop = skip_high vs mx start (length vs)"
  have start: "start = length (takeWhile (\<lambda>v. v < mn) vs)" by (simp add: start_def skip_low_eq)
  then have le: "start \<le> length vs" by (simp add: length_takeWhile_le)
  have low: "drop start vs = filter (\<lambda>v. mn \<le> v) vs"
    using assms by (simp add: start dropWhile_drop [symmetric] sorted_dropWhile_filter)
  have "sorted (drop start vs)" using assms by (simp add: sorted_wrt_drop)
  then have "take (stop - start) (drop start vs) = filter (\<lambda>v. v \<le> mx) (drop start vs)"
    using skip_high_eq [OF le order_refl, of mx] le by (simp add: stop_def sorted_rev_dropWhile_filter)
  then have eq: "take (stop - start) (drop start vs) = filter (\<lambda>v. mn \<le> v \<and> v \<le> mx) vs"
    by (simp add: low conj_commute)
  have "stop \<le> length vs" using skip_high_eq [OF le order_refl, of mx] by (simp add: stop_def)
  then have "take (stop - start) (drop start vs) = vs" if "\<not> (start > 0 \<or> stop < length vs)"
    using that by simp
  then show ?thesis using eq by (auto simp: filterBetween_def Let_def start_def [symmetric] stop_def [symmetric])
qed

theorem filterBetween_filters_witness:
  "sorted [1, 2, 5, 9 :: real] \<and> filterBetween [1, 2, 5, 9] 2 6 = [2, 5]"
  using filterBetween_filters [of "[1, 2, 5, 9]" 2 6] by simp

text \<open>
  Duplicates. \<open>_arrayUnique\<close> returns each item once, in the order of the first
  occurrences, and returns an array without duplicates as it is.
\<close>

theorem arrayUnique_unique:
  "distinct (arrayUnique items) \<and> set (arrayUnique items) = set items \<and>
   (distinct items \<longrightarrow> arrayUnique items = items) \<and>
   arrayUnique (v # items) = v # filter (\<lambda>u. u \<noteq> v) (arrayUnique items)"
proof -
  have eq: "arrayUnique xs = set_add_all [] xs" for xs :: "'a list"
    using set_add_all_full [of "[]" xs] by (auto simp: arrayUnique_def Let_def)
  have "length (set_add_all [] items) = length items" if "distinct items"
    using that set_add_all_props [of "[]" items] by (metis distinct_card distinct.simps(1) set_empty sup_bot_left empty_set)
  then have "arrayUnique items = items" if "distinct items"
    using that by (simp add: arrayUnique_def)
  then show ?thesis
    using set_add_all_props [of "[]" items] set_add_all_eq [of "[v]" items] by (simp add: eq)
qed

theorem arrayUnique_unique_witness: "arrayUnique [3, 1, 3, 2, 1 :: nat] = [3, 1, 2]"
  using arrayUnique_unique [of "[1, 3, 2, 1 :: nat]" 3] by (simp add: arrayUnique_def)

text \<open>
  Array listeners. Listening and then unlistening restores the array whatever listeners
  it had before; a listened-to array notifies its listeners in order of registration, once
  per registration, with the handler of the called method; an array nobody listens to
  notifies nobody.
\<close>

theorem listen_unlisten:
  assumes "case arr_listeners arr of None \<Rightarrow> True | Some ls \<Rightarrow> ls \<noteq> [] \<and> l \<notin> set ls"
    and "key \<in> set arrayEvents"
  shows "unlistenArrayEvents l (listenArrayEvents l arr) = arr \<and>
    array_notifications has_method key (listenArrayEvents l arr)
      = array_notifications has_method key arr @
        (if has_method l (''_onData'' @ capitalize key) then [(l, ''_onData'' @ capitalize key)] else [])"
  using assms
  by (cases arr)
     (auto simp: listenArrayEvents_def unlistenArrayEvents_def array_notifications_def
        remove1_append Let_def split: option.splits)

theorem listen_unlisten_witness:
  "unlistenArrayEvents 7 (listenArrayEvents 7 \<lparr>arr_items = [1 :: nat], arr_listeners = Some [3]\<rparr>)
    = \<lparr>arr_items = [1 :: nat], arr_listeners = Some [3]\<rparr>"
  using listen_unlisten [where arr = "\<lparr>arr_items = [1 :: nat], arr_listeners = Some [3]\<rparr>" and l = 7 and key = "''push''"]
  by (simp add: arrayEvents_def)

end
