(* ===== verification/Segments.thy ===== *)
theory Segments
  imports Math_Helpers
begin

text \<open>
  Line segments (\<open>propertyFn\<close> to \<open>_computeSegments\<close> in \<^verbatim>\<open>chart.js\<close>): the
  points of a line are cut into the runs between its gaps, a closed line is walked around
  its start, and a segment can be cut again at a pair of bounds.

  A segment names its first and last point by index; in a closed line the last may come
  before the first. Positions beyond the end of the array are taken modulo its length, as
  in the source.
\<close>

section \<open>Data\<close>

record line_point =
  pt_skip :: bool
  pt_stop :: bool
  pt_x :: real
  pt_y :: real
  pt_angle :: real

datatype pt_property = AngleProp | XProp | YProp

fun read_property :: "pt_property \<Rightarrow> line_point \<Rightarrow> real" where
  "read_property AngleProp p = pt_angle p"
| "read_property XProp p = pt_x p"
| "read_property YProp p = pt_y p"

record segment =
  seg_start :: nat
  seg_end :: nat
  seg_loop :: bool

record bounds =
  b_property :: pt_property
  b_start :: real
  b_end :: real

datatype span_gaps = NoSpan | SpanAll | SpanNum real

fun span_truthy :: "span_gaps \<Rightarrow> bool" where
  "span_truthy NoSpan = False"
| "span_truthy SpanAll = True"
| "span_truthy (SpanNum gap) = (gap \<noteq> 0)"

section \<open>Comparison by property\<close>

fun prop_between :: "pt_property \<Rightarrow> real \<Rightarrow> real \<Rightarrow> real \<Rightarrow> bool" where
  "prop_between AngleProp v s e = angleBetween v s e False"
| "prop_between _ v s e = isBetween v s e (1 / 10 ^ 6)"

fun prop_compare :: "pt_property \<Rightarrow> real \<Rightarrow> real \<Rightarrow> real" where
  "prop_compare AngleProp a b = angleDiff a b"
| "prop_compare _ a b = a - b"

fun prop_normalize :: "pt_property \<Rightarrow> real \<Rightarrow> real" where
  "prop_normalize AngleProp v = normalizeAngle v"
| "prop_normalize _ v = v"

text \<open>
  \<open>between(bound, prevValue, value)\<close> when there is no previous value yet: the comparisons
  with \<open>undefined\<close> are false; the angle version still tests equality with the value.
\<close>

fun between_prev :: "pt_property \<Rightarrow> real \<Rightarrow> real option \<Rightarrow> real \<Rightarrow> bool" where
  "between_prev pr v (Some p) cur = prop_between pr v p cur"
| "between_prev AngleProp v None cur = (normalizeAngle v = normalizeAngle cur)"
| "between_prev pr v None cur = False"

fun compare_prev_nz :: "pt_property \<Rightarrow> real \<Rightarrow> real option \<Rightarrow> bool" where
  "compare_prev_nz pr v (Some p) = (prop_compare pr v p \<noteq> 0)"
| "compare_prev_nz pr v None = True"

section \<open>Bounding a segment\<close>

definition normalizeSegment :: "nat \<Rightarrow> nat \<Rightarrow> nat \<Rightarrow> bool \<Rightarrow> segment" where
  "normalizeSegment start end' count loop =
     \<lparr>seg_start = start mod count, seg_end = end' mod count,
      seg_loop = (loop \<and> (end' - start + 1) mod count = 0)\<rparr>"

text \<open>
  The loop of \<open>getSegment\<close> moves back while the start lies within the bounds, at most
  \<open>count\<close> times.
\<close>

fun move_back :: "(nat \<Rightarrow> bool) \<Rightarrow> nat \<Rightarrow> nat \<times> nat \<Rightarrow> nat \<times> nat" where
  "move_back inb 0 (start, end') = (start, end')"
| "move_back inb (Suc k) (start, end') =
     (if \<not> inb start then (start, end') else move_back inb k (start - 1, end' - 1))"

definition getSegment :: "segment \<Rightarrow> line_point list \<Rightarrow> bounds \<Rightarrow> segment" where
  "getSegment segm points bnds =
     (let pr = b_property bnds;
          count = length points;
          inb = (\<lambda>s. prop_between pr (prop_normalize pr (read_property pr (points ! (s mod count))))
                  (b_start bnds) (b_end bnds));
          (start, end') =
            (if seg_loop segm
             then (let (s, e) = move_back inb count (seg_start segm + count, seg_end segm + count)
                   in (s mod count, e mod count))
             else (seg_start segm, seg_end segm));
          end'' = (if end' < start then end' + count else end')
      in \<lparr>seg_start = start, seg_end = end'', seg_loop = seg_loop segm\<rparr>)"

text \<open>
  The state of the loop of \<open>_boundSegment\<close>: the segments found, the start of the open
  one, the previous point's position and its value.
\<close>

record bound_state =
  bs_result :: "segment list"
  bs_subStart :: "nat option"
  bs_prev :: nat
  bs_prevValue :: "real option"

definition bound_step :: "line_point list \<Rightarrow> bounds \<Rightarrow> bool \<Rightarrow> nat \<Rightarrow> bound_state \<Rightarrow> bound_state" where
  "bound_step points bnds loop i st =
     (let count = length points;
          pr = b_property bnds;
          point = points ! (i mod count);
          value = prop_normalize pr (read_property pr point)
      in if pt_skip point then st
         else if bs_prevValue st = Some value then st
         else
          (let inside = prop_between pr value (b_start bnds) (b_end bnds);
               startIsBefore = (between_prev pr (b_start bnds) (bs_prevValue st) value
                                \<and> compare_prev_nz pr (b_start bnds) (bs_prevValue st));
               endIsBefore = (prop_compare pr (b_end bnds) value = 0
                              \<or> between_prev pr (b_end bnds) (bs_prevValue st) value);
               sub1 = (if bs_subStart st = None \<and> (inside \<or> startIsBefore)
                       then Some (if prop_compare pr value (b_start bnds) = 0 then i else bs_prev st)
                       else bs_subStart st)
           in case sub1 of
                Some s \<Rightarrow>
                  if \<not> inside \<or> endIsBefore
                  then \<lparr>bs_result = bs_result st @ [normalizeSegment s i count loop],
                        bs_subStart = None, bs_prev = i, bs_prevValue = Some value\<rparr>
                  else st\<lparr>bs_subStart := Some s, bs_prev := i, bs_prevValue := Some value\<rparr>
              | None \<Rightarrow> st\<lparr>bs_subStart := None, bs_prev := i, bs_prevValue := Some value\<rparr>))"

definition boundSegment :: "segment \<Rightarrow> line_point list \<Rightarrow> bounds option \<Rightarrow> segment list" where
  "boundSegment segm points bo =
     (case bo of
        None \<Rightarrow> [segm]
      | Some bnds \<Rightarrow>
          (let sg = getSegment segm points bnds;
               st = fold (bound_step points bnds (seg_loop sg)) [seg_start sg..<Suc (seg_end sg)]
                      \<lparr>bs_result = [], bs_subStart = None, bs_prev = seg_start sg, bs_prevValue = None\<rparr>
           in case bs_subStart st of
                Some s \<Rightarrow> bs_result st @ [normalizeSegment s (seg_end sg) (length points) (seg_loop sg)]
              | None \<Rightarrow> bs_result st))"

definition boundSegments :: "segment list \<Rightarrow> line_point list \<Rightarrow> bounds option \<Rightarrow> segment list" where
  "boundSegments segs points bo = concat (map (\<lambda>sg. boundSegment sg points bo) segs)"

section \<open>Computing the segments\<close>

text \<open>\<open>while (start < count && test(points[start])) start++\<close>\<close>

function advance :: "(line_point \<Rightarrow> bool) \<Rightarrow> line_point list \<Rightarrow> nat \<Rightarrow> nat" where
  "advance test points start =
     (if start < length points \<and> test (points ! start) then advance test points (Suc start) else start)"
  by pat_completeness auto
termination
  by (relation "measure (\<lambda>(t, ps, s). length ps - s)") auto

text \<open>\<open>while (end > start && points[end % count].skip) end--\<close>\<close>

fun retreat :: "line_point list \<Rightarrow> nat \<Rightarrow> nat \<Rightarrow> nat" where
  "retreat points start end' =
     (if end' > start \<and> pt_skip (points ! (end' mod length points))
      then retreat points start (end' - 1) else end')"

declare advance.simps [simp del] retreat.simps [simp del]

definition findStartAndEnd :: "line_point list \<Rightarrow> bool \<Rightarrow> span_gaps \<Rightarrow> nat \<times> nat" where
  "findStartAndEnd points loop spanGaps =
     (let count = length points;
          start1 = (if loop \<and> \<not> span_truthy spanGaps then advance (\<lambda>p. \<not> pt_skip p) points 0 else 0);
          start = advance pt_skip points start1 mod count;
          end1 = (if loop then count - 1 + start else count - 1);
          end' = retreat points start end1 mod count
      in (start, end'))"

text \<open>
  The state of the loop of \<open>solidSegments\<close>. Both positions can be \<open>null\<close>, and
  \<open>null % count\<close> is 0.
\<close>

record solid_state =
  ss_result :: "segment list"
  ss_start :: "nat option"
  ss_last :: "nat option"
  ss_prev :: line_point
  ss_loop :: bool

definition null_mod :: "nat option \<Rightarrow> nat \<Rightarrow> nat" where
  "null_mod p count = (case p of None \<Rightarrow> 0 | Some i \<Rightarrow> i mod count)"

definition solid_step :: "line_point list \<Rightarrow> nat \<Rightarrow> solid_state \<Rightarrow> solid_state" where
  "solid_step points end' st =
     (let count = length points;
          cur = points ! (end' mod count);
          st' =
            (if pt_skip cur \<or> pt_stop cur then
               (if \<not> pt_skip (ss_prev st) then
                  (let p = (if pt_stop cur then Some end' else None) in
                   st\<lparr>ss_loop := False,
                      ss_result := ss_result st @
                        [\<lparr>seg_start = null_mod (ss_start st) count,
                          seg_end = (end' - 1) mod count, seg_loop = False\<rparr>],
                      ss_start := p, ss_last := p\<rparr>)
                else st)
             else
               (if pt_skip (ss_prev st) then st\<lparr>ss_last := Some end', ss_start := Some end'\<rparr>
                else st\<lparr>ss_last := Some end'\<rparr>))
      in st'\<lparr>ss_prev := cur\<rparr>)"

definition solidSegments :: "line_point list \<Rightarrow> nat \<Rightarrow> nat \<Rightarrow> bool \<Rightarrow> segment list" where
  "solidSegments points start mx loop =
     (let count = length points;
          st = fold (solid_step points) [Suc start..<Suc mx]
                 \<lparr>ss_result = [], ss_start = Some start, ss_last = Some start,
                  ss_prev = points ! start, ss_loop = loop\<rparr>
      in case ss_last st of
           None \<Rightarrow> ss_result st
         | Some l \<Rightarrow> ss_result st @ [\<lparr>seg_start = null_mod (ss_start st) count,
                                      seg_end = l mod count, seg_loop = ss_loop st\<rparr>])"

text \<open>\<open>_computeSegments\<close> for a line without segment styles.\<close>

definition computeSegments :: "line_point list \<Rightarrow> span_gaps \<Rightarrow> bool \<Rightarrow> bool \<Rightarrow> segment list" where
  "computeSegments points spanGaps line_loop fullLoop =
     (let count = length points in
      if count = 0 then []
      else
       (let (start, end') = findStartAndEnd points line_loop spanGaps in
        if spanGaps = SpanAll then [\<lparr>seg_start = start, seg_end = end', seg_loop = line_loop\<rparr>]
        else
         (let mx = (if end' < start then end' + count else end');
              completeLoop = (fullLoop \<and> start = 0 \<and> end' = count - 1)
          in solidSegments points start mx completeLoop)))"

section \<open>Positions of a segment\<close>

text \<open>The indices that a segment covers, walking forward and around.\<close>

definition seg_indices :: "nat \<Rightarrow> segment \<Rightarrow> nat list" where
  "seg_indices count sg =
     map (\<lambda>j. (seg_start sg + j) mod count)
       [0..<Suc ((seg_end sg + count - seg_start sg) mod count)]"

lemma seg_indices_range:
  assumes "s < e" and "e - s \<le> count"
  shows "seg_indices count \<lparr>seg_start = s mod count, seg_end = (e - 1) mod count, seg_loop = l\<rparr>
    = map (\<lambda>i. i mod count) [s..<e]"
proof -
  have c: "0 < count" using assms by simp
  have "((e - 1) mod count + count - s mod count) mod count = (e - 1 - s) mod count"
  proof -
    have "s mod count \<le> count" using c by (simp add: less_imp_le)
    then have "((e - 1) mod count + count - s mod count) mod count
        = ((e - 1) mod count + (count - s mod count)) mod count" by simp
    also have "\<dots> = (e - 1 + (count - s mod count)) mod count" by (simp add: mod_add_left_eq)
    also have "e - 1 + (count - s mod count) = (e - 1 - s) + (s - s mod count + count)"
      using assms \<open>s mod count \<le> count\<close> mod_less_eq_dividend [of s count] by linarith
    also have "s - s mod count = count * (s div count)" by (simp add: minus_mod_eq_mult_div)
    finally show ?thesis by (simp flip: add.assoc)
  qed
  also have "\<dots> = e - 1 - s" using assms by (intro mod_less) linarith
  finally have len: "((e - 1) mod count + count - s mod count) mod count = e - 1 - s" .
  have "map (\<lambda>i. i mod count) [s..<e] = map (\<lambda>j. (s + j) mod count) [0..<Suc (e - 1 - s)]"
    using assms by (intro nth_equalityI) (simp_all add: Suc_diff_Suc del: upt_Suc)
  moreover have "seg_indices count \<lparr>seg_start = s mod count, seg_end = (e - 1) mod count, seg_loop = l\<rparr>
      = map (\<lambda>j. (s + j) mod count) [0..<Suc (e - 1 - s)]"
    unfolding seg_indices_def segment.select_convs len mod_add_left_eq ..
  ultimately show ?thesis by (simp del: upt_Suc)
qed

text \<open>The points of a range of positions that are not skipped, as indices.\<close>

definition solid_indices :: "line_point list \<Rightarrow> nat \<Rightarrow> nat \<Rightarrow> nat list" where
  "solid_indices points a b =
     map (\<lambda>i. i mod length points) (filter (\<lambda>i. \<not> pt_skip (points ! (i mod length points))) [a..<b])"

lemma solid_indices_snoc:
  "a \<le> b \<Longrightarrow> solid_indices points a (Suc b) = solid_indices points a b @
     (if pt_skip (points ! (b mod length points)) then [] else [b mod length points])"
  by (simp add: solid_indices_def)

lemma solid_indices_all:
  "(\<And>i. a \<le> i \<Longrightarrow> i < b \<Longrightarrow> \<not> pt_skip (points ! (i mod length points))) \<Longrightarrow>
     solid_indices points a b = map (\<lambda>i. i mod length points) [a..<b]"
  by (simp add: solid_indices_def filter_True)

text \<open>
  A gap marker that \<open>solidSegments\<close> handles: a point that breaks the line is not skipped
  and follows a point that is not skipped.
\<close>

definition clean_stops :: "line_point list \<Rightarrow> nat \<Rightarrow> nat \<Rightarrow> bool" where
  "clean_stops points a b \<longleftrightarrow>
     (\<forall>i \<in> set [Suc a..<Suc b]. pt_stop (points ! (i mod length points)) \<longrightarrow>
        \<not> pt_skip (points ! (i mod length points)) \<and> \<not> pt_skip (points ! ((i - 1) mod length points)))"

text \<open>What holds after the position \<open>k\<close> has been looked at.\<close>

definition solid_inv :: "line_point list \<Rightarrow> nat \<Rightarrow> nat \<Rightarrow> solid_state \<Rightarrow> bool" where
  "solid_inv points a k st \<longleftrightarrow>
     ss_prev st = points ! (k mod length points) \<and>
     (if pt_skip (points ! (k mod length points))
      then ss_last st = None \<and>
        concat (map (seg_indices (length points)) (ss_result st)) = solid_indices points a (Suc k)
      else ss_last st = Some k \<and>
        (\<exists>s. ss_start st = Some s \<and> a \<le> s \<and> s \<le> k \<and>
          concat (map (seg_indices (length points)) (ss_result st))
            @ map (\<lambda>i. i mod length points) [s..<Suc k] = solid_indices points a (Suc k)))"

lemma solid_inv_step:
  assumes inv: "solid_inv points a k st" and "a \<le> k" and room: "Suc k - a \<le> length points"
    and stops: "pt_stop (points ! (Suc k mod length points)) \<Longrightarrow>
      \<not> pt_skip (points ! (Suc k mod length points)) \<and> \<not> pt_skip (points ! (k mod length points))"
  shows "solid_inv points a (Suc k) (solid_step points (Suc k) st)"
proof -
  let ?n = "length points"
  let ?cur = "points ! (Suc k mod ?n)" and ?old = "points ! (k mod ?n)"
  have snoc: "solid_indices points a (Suc (Suc k)) = solid_indices points a (Suc k) @
      (if pt_skip ?cur then [] else [Suc k mod ?n])"
    using assms(2) by (intro solid_indices_snoc) simp
  show ?thesis
  proof (cases "pt_skip ?old")
    case True
    with stops have "\<not> pt_stop ?cur" by blast
    with True inv snoc \<open>a \<le> k\<close> show ?thesis
      by (auto simp: solid_inv_def solid_step_def Let_def)
  next
    case False
    with inv obtain s where s: "ss_start st = Some s" "a \<le> s" "s \<le> k" "ss_last st = Some k"
      and res: "concat (map (seg_indices ?n) (ss_result st)) @ map (\<lambda>i. i mod ?n) [s..<Suc k]
        = solid_indices points a (Suc k)"
      by (auto simp: solid_inv_def)
    have range: "seg_indices ?n \<lparr>seg_start = s mod ?n, seg_end = k mod ?n, seg_loop = False\<rparr>
        = map (\<lambda>i. i mod ?n) [s..<Suc k]"
      using seg_indices_range [of s "Suc k" ?n] s room by simp
    show ?thesis
    proof (cases "pt_skip ?cur \<or> pt_stop ?cur")
      case True
      with False inv s res range snoc stops show ?thesis
        by (auto simp: solid_inv_def solid_step_def Let_def null_mod_def)
    next
      case ok: False
      have "map (\<lambda>i. i mod ?n) [s..<Suc (Suc k)] = map (\<lambda>i. i mod ?n) [s..<Suc k] @ [Suc k mod ?n]"
        using s by simp
      with ok False inv s res snoc show ?thesis
        by (auto simp: solid_inv_def solid_step_def Let_def simp flip: append_assoc)
    qed
  qed
qed

lemma solid_inv_fold:
  assumes "a \<le> b" and "b - a < length points" and "\<not> pt_skip (points ! (a mod length points))"
    and "clean_stops points a b" and "a < length points"
  shows "solid_inv points a b
    (fold (solid_step points) [Suc a..<Suc b]
      \<lparr>ss_result = [], ss_start = Some a, ss_last = Some a, ss_prev = points ! a, ss_loop = l\<rparr>)"
  using assms
proof (induction b rule: nat_induct_at_least)
  case base
  then show ?case
    by (simp add: solid_inv_def solid_indices_def)
next
  case (Suc b)
  have inv: "solid_inv points a b (fold (solid_step points) [Suc a..<Suc b]
      \<lparr>ss_result = [], ss_start = Some a, ss_last = Some a, ss_prev = points ! a, ss_loop = l\<rparr>)"
    by (rule Suc.IH) (use Suc in \<open>auto simp: clean_stops_def\<close>)
  have "solid_inv points a (Suc b) (solid_step points (Suc b) (fold (solid_step points) [Suc a..<Suc b]
      \<lparr>ss_result = [], ss_start = Some a, ss_last = Some a, ss_prev = points ! a, ss_loop = l\<rparr>))"
    by (rule solid_inv_step [OF inv]) (use Suc in \<open>auto simp: clean_stops_def\<close>)
  then show ?case using Suc by (simp add: upt_Suc_append)
qed

lemma solidSegments_indices:
  assumes "a \<le> b" and "b - a < length points" and "\<not> pt_skip (points ! a)"
    and "clean_stops points a b" and "a < length points"
  shows "concat (map (seg_indices (length points)) (solidSegments points a b l)) = solid_indices points a (Suc b)"
proof -
  let ?st = "fold (solid_step points) [Suc a..<Suc b]
      \<lparr>ss_result = [], ss_start = Some a, ss_last = Some a, ss_prev = points ! a, ss_loop = l\<rparr>"
  have inv: "solid_inv points a b ?st" using assms by (intro solid_inv_fold) simp_all
  show ?thesis
  proof (cases "pt_skip (points ! (b mod length points))")
    case True
    with inv show ?thesis by (simp add: solidSegments_def solid_inv_def Let_def)
  next
    case False
    with inv obtain s where s: "ss_start ?st = Some s" "a \<le> s" "s \<le> b" "ss_last ?st = Some b"
      and res: "concat (map (seg_indices (length points)) (ss_result ?st)) @ map (\<lambda>i. i mod length points) [s..<Suc b]
        = solid_indices points a (Suc b)"
      by (auto simp: solid_inv_def)
    have "seg_indices (length points) \<lparr>seg_start = s mod length points, seg_end = b mod length points, seg_loop = ss_loop ?st\<rparr>
        = map (\<lambda>i. i mod length points) [s..<Suc b]"
      using seg_indices_range [of s "Suc b" "length points"] s assms by simp
    with s res show ?thesis by (simp add: solidSegments_def Let_def null_mod_def del: upt_Suc)
  qed
qed

section \<open>Start and end of a line\<close>

lemma advance_spec:
  "s \<le> length points \<Longrightarrow>
     s \<le> advance test points s \<and> advance test points s \<le> length points \<and>
     (\<forall>i. s \<le> i \<and> i < advance test points s \<longrightarrow> test (points ! i)) \<and>
     (advance test points s < length points \<longrightarrow> \<not> test (points ! advance test points s))"
proof (induction test points s rule: advance.induct)
  case (1 test points s)
  show ?case
  proof (cases "s < length points \<and> test (points ! s)")
    case True
    let ?r = "advance test points (Suc s)"
    have r: "Suc s \<le> ?r \<and> ?r \<le> length points \<and> (\<forall>i. Suc s \<le> i \<and> i < ?r \<longrightarrow> test (points ! i)) \<and>
        (?r < length points \<longrightarrow> \<not> test (points ! ?r))"
      using 1 True by simp
    moreover have "test (points ! i)" if "s \<le> i" "i < ?r" for i
      using r True that by (cases "i = s") auto
    moreover have "advance test points s = ?r" using True by (simp add: advance.simps [of test points s])
    ultimately show ?thesis by simp
  next
    case False
    with 1 show ?thesis by (auto simp: advance.simps [of test points s])
  qed
qed

lemma retreat_spec:
  "s \<le> e \<Longrightarrow>
     s \<le> retreat points s e \<and> retreat points s e \<le> e \<and>
     (\<forall>i. retreat points s e < i \<and> i \<le> e \<longrightarrow> pt_skip (points ! (i mod length points))) \<and>
     (retreat points s e = s \<or> \<not> pt_skip (points ! (retreat points s e mod length points)))"
proof (induction points s e rule: retreat.induct)
  case (1 points s e)
  show ?case
  proof (cases "s < e \<and> pt_skip (points ! (e mod length points))")
    case True
    then have le: "s \<le> e - 1" by linarith
    have "pt_skip (points ! (i mod length points))" if "retreat points s (e - 1) < i" "i \<le> e" for i
      using 1(1) True le that by (cases "i = e") auto
    moreover have "retreat points s e = retreat points s (e - 1)"
      using True by (simp add: retreat.simps [of points s e])
    ultimately show ?thesis using 1(1) True le by auto
  next
    case False
    with 1 show ?thesis by (auto simp: retreat.simps [of points s e])
  qed
qed

definition some_point :: "line_point list \<Rightarrow> bool" where
  "some_point points \<longleftrightarrow> (\<exists>p \<in> set points. \<not> pt_skip p)"

lemma advance_skip_lt:
  assumes "some_point points" and "\<And>i. i < s \<Longrightarrow> pt_skip (points ! i)" and "s \<le> length points"
  shows "advance pt_skip points s < length points"
proof (rule ccontr)
  assume "\<not> ?thesis"
  with advance_spec [OF assms(3), of pt_skip] have "pt_skip (points ! i)" if "i < length points" for i
    using that assms(2) by (cases "i < s") auto
  with assms(1) show False by (auto simp: some_point_def in_set_conv_nth)
qed

text \<open>The position that the line starts from, and that it is a drawn point.\<close>

definition line_start :: "line_point list \<Rightarrow> bool \<Rightarrow> span_gaps \<Rightarrow> nat" where
  "line_start points loop spanGaps = fst (findStartAndEnd points loop spanGaps)"

lemma line_start_eq:
  "line_start points loop spanGaps =
     advance pt_skip points
       (if loop \<and> \<not> span_truthy spanGaps then advance (\<lambda>p. \<not> pt_skip p) points 0 else 0)
     mod length points"
  by (simp add: line_start_def findStartAndEnd_def Let_def)

lemma line_start_solid:
  assumes "some_point points"
  shows "line_start points loop spanGaps < length points \<and>
    \<not> pt_skip (points ! line_start points loop spanGaps)"
proof -
  have n: "0 < length points" using assms by (auto simp: some_point_def)
  define s1 where "s1 = (if loop \<and> \<not> span_truthy spanGaps then advance (\<lambda>p. \<not> pt_skip p) points 0 else 0)"
  have s1: "s1 \<le> length points" "\<And>i. i < s1 \<Longrightarrow> \<not> pt_skip (points ! i)"
    using advance_spec [of 0 points "\<lambda>p. \<not> pt_skip p"] by (auto simp: s1_def split: if_splits)
  let ?r = "advance pt_skip points s1"
  have r: "?r \<le> length points" "?r < length points \<Longrightarrow> \<not> pt_skip (points ! ?r)"
    using advance_spec [OF s1(1), of pt_skip] by auto
  have start: "line_start points loop spanGaps = ?r mod length points"
    by (simp add: line_start_eq s1_def)
  show ?thesis
  proof (cases "?r < length points")
    case True
    with r start show ?thesis by simp
  next
    case False
    with r have "?r = length points" by simp
    moreover have "0 < s1"
    proof (rule ccontr)
      assume "\<not> 0 < s1"
      with False advance_skip_lt [OF assms, of s1] s1 show False by simp
    qed
    ultimately show ?thesis using start n s1 by simp
  qed
qed

text \<open>The last position, counted onwards from the start.\<close>

definition line_stop :: "line_point list \<Rightarrow> bool \<Rightarrow> span_gaps \<Rightarrow> nat" where
  "line_stop points loop spanGaps =
     retreat points (line_start points loop spanGaps)
       (if loop then length points - 1 + line_start points loop spanGaps else length points - 1)"

lemma line_stop_spec:
  assumes "some_point points"
  shows "line_start points loop sg \<le> line_stop points loop sg \<and>
    line_stop points loop sg < line_start points loop sg + length points \<and>
    snd (findStartAndEnd points loop sg) = line_stop points loop sg mod length points \<and>
    (\<not> loop \<longrightarrow> line_stop points loop sg < length points)"
proof -
  have s: "line_start points loop sg < length points" using line_start_solid [OF assms] by blast
  have "snd (findStartAndEnd points loop sg) = line_stop points loop sg mod length points"
    by (simp add: findStartAndEnd_def line_stop_def line_start_eq Let_def)
  moreover have "line_start points loop sg \<le> line_stop points loop sg \<and>
      line_stop points loop sg \<le> (if loop then length points - 1 + line_start points loop sg else length points - 1)"
    unfolding line_stop_def using s by (intro conjI; intro retreat_spec [THEN conjunct1] retreat_spec [THEN conjunct2, THEN conjunct1]) auto
  ultimately show ?thesis using s by (auto split: if_splits)
qed

lemma window_max:
  fixes s r n :: nat
  assumes "s < n" and "s \<le> r" and "r < s + n"
  shows "(if r mod n < s then r mod n + n else r mod n) = r"
proof (cases "r < n")
  case True
  with assms show ?thesis by simp
next
  case False
  then have "r mod n = r - n" using assms by (simp add: mod_if)
  with False assms show ?thesis by simp
qed

lemma window_all:
  assumes "some_point points" and "i < length points" and "\<not> pt_skip (points ! i)"
  shows "\<exists>j. line_start points loop sg \<le> j \<and> j \<le> line_stop points loop sg \<and> j mod length points = i"
proof -
  let ?n = "length points" and ?s = "line_start points loop sg"
  let ?e = "if loop then ?n - 1 + ?s else ?n - 1"
  have s: "?s < ?n" using line_start_solid [OF assms(1)] by blast
  have after: "pt_skip (points ! (k mod ?n))" if "line_stop points loop sg < k" "k \<le> ?e" for k
  proof -
    have "?s \<le> ?e" using s by auto
    from retreat_spec [OF this, of points] that show ?thesis unfolding line_stop_def by blast
  qed
  have "\<exists>j. ?s \<le> j \<and> j \<le> ?e \<and> j mod ?n = i"
  proof (cases "?s \<le> i")
    case True
    then show ?thesis using assms s by (intro exI [of _ i]) auto
  next
    case False
    show ?thesis
    proof (cases loop)
      case True
      then show ?thesis using assms s False by (intro exI [of _ "i + ?n"]) auto
    next
      case open_line: False
      have "?s = advance pt_skip points 0 mod ?n" using open_line by (simp add: line_start_eq)
      then have "?s = advance pt_skip points 0"
        using advance_skip_lt [OF assms(1), of 0] by simp
      then have "pt_skip (points ! i)" using False advance_spec [of 0 points pt_skip] by simp
      with assms show ?thesis by simp
    qed
  qed
  then obtain j where j: "?s \<le> j" "j \<le> ?e" "j mod ?n = i" by blast
  with after assms have "j \<le> line_stop points loop sg" by (metis not_le)
  with j show ?thesis by blast
qed

text \<open>In the whole line every break is at a drawn point that follows a drawn point.\<close>

definition stops_clean :: "line_point list \<Rightarrow> bool" where
  "stops_clean points \<longleftrightarrow>
     (\<forall>i < length points. pt_stop (points ! i) \<longrightarrow>
        0 < i \<and> \<not> pt_skip (points ! i) \<and> \<not> pt_skip (points ! (i - 1)))"

lemma stops_clean_window: "stops_clean points \<Longrightarrow> points \<noteq> [] \<Longrightarrow> clean_stops points a b"
proof (unfold clean_stops_def, intro ballI impI)
  fix i
  assume clean: "stops_clean points" and ne: "points \<noteq> []" and i: "i \<in> set [Suc a..<Suc b]"
    and stop: "pt_stop (points ! (i mod length points))"
  let ?j = "i mod length points"
  have j: "?j < length points" using ne by simp
  with clean stop have pos: "0 < ?j" and sk: "\<not> pt_skip (points ! ?j)" "\<not> pt_skip (points ! (?j - 1))"
    by (auto simp: stops_clean_def)
  have "(i - 1) mod length points = ?j - 1"
    using pos i by (cases i) (auto simp: mod_Suc split: if_splits)
  with sk show "\<not> pt_skip (points ! ?j) \<and> \<not> pt_skip (points ! ((i - 1) mod length points))" by simp
qed

lemma computeSegments_solid:
  assumes "some_point points" and "sg \<noteq> SpanAll"
  shows "\<exists>l. computeSegments points sg loop full =
    solidSegments points (line_start points loop sg) (line_stop points loop sg) l"
proof -
  let ?s = "line_start points loop sg" and ?r = "line_stop points loop sg" and ?n = "length points"
  have f: "findStartAndEnd points loop sg = (?s, ?r mod ?n)"
    using line_stop_spec [OF assms(1)] by (simp add: line_start_def prod_eq_iff)
  have "(if ?r mod ?n < ?s then ?r mod ?n + ?n else ?r mod ?n) = ?r"
    using line_start_solid [OF assms(1)] line_stop_spec [OF assms(1)] by (intro window_max) blast+
  moreover have "points \<noteq> []" using assms by (auto simp: some_point_def)
  ultimately show ?thesis
    using assms(2) by (auto simp: computeSegments_def f Let_def)
qed

lemma mod_window_inj:
  fixes a b n :: nat
  shows "b - a \<le> n \<Longrightarrow> inj_on (\<lambda>i. i mod n) {a..<b}"
proof (rule inj_onI)
  fix x y
  assume n: "b - a \<le> n" and x: "x \<in> {a..<b}" and y: "y \<in> {a..<b}" and eq: "x mod n = y mod n"
  have aux: "u = v" if "u \<le> v" "u mod n = v mod n" "v - u < n" for u v
    using that by (metis diff_is_0_eq dvd_imp_le mod_eq_dvd_iff_nat mod_0 le_antisym
        dual_order.strict_iff_not gr0I)
  show "x = y"
  proof (cases "x \<le> y")
    case True
    moreover have "y - x < n" using n x y by (simp only: atLeastLessThan_iff) linarith
    ultimately show ?thesis using aux [of x y] eq by simp
  next
    case False
    moreover have "x - y < n" using n x y by (simp only: atLeastLessThan_iff) linarith
    ultimately show ?thesis using aux [of y x] eq by simp
  qed
qed

section \<open>Properties\<close>

text \<open>
  C31 (segments cover the line). For a line with at least one drawn point whose breaks (\<open>stop\<close>) are only at
  drawn points that follow drawn points, and unless the option \<open>spanGaps\<close> is true, the computed
  segments visit every point that is not skipped exactly once and no skipped point,
  whether the line is open or closed.
\<close>

theorem computeSegments_cover:
  assumes "some_point points" and "stops_clean points" and "sg \<noteq> SpanAll"
  shows "let visited = concat (map (seg_indices (length points)) (computeSegments points sg loop full))
    in distinct visited \<and> set visited = {i. i < length points \<and> \<not> pt_skip (points ! i)}"
proof -
  define visited where "visited = concat (map (seg_indices (length points)) (computeSegments points sg loop full))"
  let ?s = "line_start points loop sg" and ?r = "line_stop points loop sg" and ?n = "length points"
  have ne: "points \<noteq> []" using assms by (auto simp: some_point_def)
  have s: "?s < ?n" "\<not> pt_skip (points ! ?s)" using line_start_solid [OF assms(1)] by blast+
  have r: "?s \<le> ?r" "?r - ?s < ?n" using line_stop_spec [OF assms(1), of loop sg] by linarith+
  obtain l where "computeSegments points sg loop full = solidSegments points ?s ?r l"
    using computeSegments_solid [OF assms(1,3)] by blast
  then have v: "visited = solid_indices points ?s (Suc ?r)"
    using solidSegments_indices [OF r s(2) stops_clean_window [OF assms(2) ne] s(1)] by (simp add: visited_def)
  have "inj_on (\<lambda>i. i mod ?n) {?s..<Suc ?r}" using r by (intro mod_window_inj) simp
  then have "distinct visited"
    unfolding v solid_indices_def distinct_map by (auto intro: inj_on_subset)
  moreover have "set visited = {i. i < ?n \<and> \<not> pt_skip (points ! i)}"
  proof (intro subset_antisym subsetI)
    fix i
    assume "i \<in> set visited"
    then show "i \<in> {i. i < ?n \<and> \<not> pt_skip (points ! i)}" using ne by (auto simp: v solid_indices_def)
  next
    fix i
    assume "i \<in> {i. i < ?n \<and> \<not> pt_skip (points ! i)}"
    then have i: "i < ?n" "\<not> pt_skip (points ! i)" by auto
    with window_all [OF assms(1), of i loop sg] obtain j where "?s \<le> j" "j \<le> ?r" "j mod ?n = i" by blast
    with i show "i \<in> set visited"
      by (auto simp: v solid_indices_def simp del: upt_Suc intro!: image_eqI [of _ _ j])
  qed
  ultimately show ?thesis by (simp add: visited_def Let_def)
qed

definition drawn :: line_point where
  "drawn = \<lparr>pt_skip = False, pt_stop = False, pt_x = 0, pt_y = 0, pt_angle = 0\<rparr>"

theorem computeSegments_cover_witness:
  "set (concat (map (seg_indices 4) (computeSegments [drawn, drawn\<lparr>pt_skip := True\<rparr>, drawn, drawn] NoSpan True False)))
    = {i. i < 4 \<and> \<not> pt_skip ([drawn, drawn\<lparr>pt_skip := True\<rparr>, drawn, drawn] ! i)}"
proof -
  let ?ps = "[drawn, drawn\<lparr>pt_skip := True\<rparr>, drawn, drawn]"
  have "some_point ?ps" and "stops_clean ?ps"
    by (auto simp: some_point_def stops_clean_def drawn_def nth_Cons split: nat.splits)
  from computeSegments_cover [OF this, of NoSpan True False] show ?thesis by (simp add: Let_def numeral_eq_Suc)
qed

text \<open>
  A break after a gap. When a point that breaks the line follows a skipped point the
  start of the open segment stays \<open>null\<close>, which counts as index 0: the segment from the
  first point is emitted again and runs across the skipped point.
\<close>

theorem break_after_gap_crosses_gap:
  "let points = [drawn, drawn\<lparr>pt_skip := True\<rparr>, drawn\<lparr>pt_stop := True\<rparr>, drawn];
       visited = concat (map (seg_indices 4) (computeSegments points (SpanNum 1) False False))
   in visited = [0, 0, 1, 2, 3] \<and> pt_skip (points ! 1)"
proof -
  let ?ps = "[drawn, drawn\<lparr>pt_skip := True\<rparr>, drawn\<lparr>pt_stop := True\<rparr>, drawn]"
  have "advance pt_skip ?ps 0 = 0" by (simp add: advance.simps drawn_def)
  moreover have "retreat ?ps 0 (Suc (Suc (Suc 0))) = 3" by (simp add: retreat.simps drawn_def)
  ultimately have "findStartAndEnd ?ps False (SpanNum 1) = (0, 3)"
    by (simp add: findStartAndEnd_def)
  moreover have "[Suc 0..<4] = [1, 2, 3]" by (simp add: upt_rec)
  moreover have "[0..<4] = [0, 1, 2, 3 :: nat]" by (simp add: upt_rec)
  moreover have "solidSegments ?ps 0 3 False =
      [\<lparr>seg_start = 0, seg_end = 0, seg_loop = False\<rparr>, \<lparr>seg_start = 0, seg_end = 3, seg_loop = False\<rparr>]"
    using \<open>[Suc 0..<4] = [1, 2, 3]\<close>
    by (simp add: solidSegments_def solid_step_def null_mod_def drawn_def Let_def)
  ultimately show ?thesis
    by (simp add: computeSegments_def seg_indices_def drawn_def Let_def)
qed

lemma bound_step_result:
  "bs_result (bound_step points bnds loop i st) = bs_result st \<or>
   (\<exists>s. bs_result (bound_step points bnds loop i st) =
      bs_result st @ [normalizeSegment s i (length points) loop])"
  unfolding bound_step_def Let_def by (auto split: option.split)

lemma bound_step_range:
  assumes "points \<noteq> []" and "\<forall>sg \<in> set (bs_result st). seg_start sg < length points \<and> seg_end sg < length points"
  shows "\<forall>sg \<in> set (bs_result (bound_step points bnds loop i st)). seg_start sg < length points \<and> seg_end sg < length points"
  using bound_step_result [of points bnds loop i st] assms by (auto simp: normalizeSegment_def)

lemma fold_bound_step_range:
  assumes "points \<noteq> []" and "\<forall>sg \<in> set (bs_result st). seg_start sg < length points \<and> seg_end sg < length points"
  shows "\<forall>sg \<in> set (bs_result (fold (bound_step points bnds loop) is st)).
    seg_start sg < length points \<and> seg_end sg < length points"
  using assms(2) by (induction "is" arbitrary: st) (auto dest: bound_step_range [OF assms(1)])

text \<open>
  Bounded segments stay inside. Cutting segments at bounds yields segments whose ends
  are indices of the points array; without bounds the segments are unchanged.
\<close>

theorem boundSegments_in_range:
  "boundSegments segs points None = segs \<and>
   (points \<noteq> [] \<longrightarrow> (\<forall>sg \<in> set (boundSegments segs points (Some bnds)).
      seg_start sg < length points \<and> seg_end sg < length points))"
proof (rule conjI, goal_cases)
  case 1
  show ?case by (induction segs) (auto simp: boundSegments_def boundSegment_def)
next
  case 2
  show ?case
  proof (intro impI ballI)
  fix sg
  assume ne: "points \<noteq> []" and "sg \<in> set (boundSegments segs points (Some bnds))"
  then obtain s0 where s0: "sg \<in> set (boundSegment s0 points (Some bnds))"
    by (auto simp: boundSegments_def)
  define st where "st = fold (bound_step points bnds (seg_loop (getSegment s0 points bnds)))
      [seg_start (getSegment s0 points bnds)..<Suc (seg_end (getSegment s0 points bnds))]
      \<lparr>bs_result = [], bs_subStart = None, bs_prev = seg_start (getSegment s0 points bnds), bs_prevValue = None\<rparr>"
  have "\<forall>sg \<in> set (bs_result st). seg_start sg < length points \<and> seg_end sg < length points"
    unfolding st_def by (rule fold_bound_step_range [OF ne]) simp
  moreover from s0 have "sg \<in> set (bs_result st) \<or>
      (\<exists>s e n l. sg = normalizeSegment s e (length points) l)"
    by (auto simp: boundSegment_def Let_def st_def [symmetric] simp del: upt_Suc split: option.splits)
  ultimately show "seg_start sg < length points \<and> seg_end sg < length points"
    using ne by (auto simp: normalizeSegment_def)
  qed
qed

theorem boundSegments_in_range_witness:
  "case boundSegments [\<lparr>seg_start = 0, seg_end = 1, seg_loop = False\<rparr>] [drawn, drawn]
      (Some \<lparr>b_property = XProp, b_start = 0, b_end = 1\<rparr>) of
     [] \<Rightarrow> True | sg # _ \<Rightarrow> seg_start sg < 2 \<and> seg_end sg < 2"
  using boundSegments_in_range [of "[\<lparr>seg_start = 0, seg_end = 1, seg_loop = False\<rparr>]" "[drawn, drawn]"
      "\<lparr>b_property = XProp, b_start = 0, b_end = 1\<rparr>"]
  by (simp add: numeral_2_eq_2 split: list.split)

end
