(* ===== verification/Animation.thy ===== *)
theory Animation
  imports JS_Prelude "HOL-Library.Multiset"
begin

text \<open>
  Animations and the animator (classes \<open>Animation\<close> and \<open>Animator\<close> in
  \<^verbatim>\<open>chart.js\<close>).

  An animation owns the target property it writes, here its field \<open>an_value\<close>, and the
  promises that wait for it, named by numbers; settling a promise appends to a log. Times are
  whole milliseconds. The animator's map of charts is an association list, frames requested
  from the browser are a flag, drawing a chart and calling its listeners append to a log, and
  the items that \<open>stop\<close> cancels and drops are kept in \<open>ar_cancelled\<close>.
  Callbacks that change the animator while it updates are not represented.
\<close>

section \<open>One animation\<close>

record 'v animation =
  an_active :: bool
  an_fn :: "'v \<Rightarrow> 'v \<Rightarrow> jsnum \<Rightarrow> 'v"
  an_easing :: "jsnum \<Rightarrow> jsnum"
  an_start :: int
  an_duration :: int
  an_total :: int
  an_loop :: bool
  an_value :: 'v
  an_from :: 'v
  an_to :: 'v
  an_promises :: "nat list"
  an_settled :: "(nat \<times> bool) list"

record 'v anim_cfg =
  cfg_from :: "'v option"
  cfg_to :: "'v option"
  cfg_fn :: "'v \<Rightarrow> 'v \<Rightarrow> jsnum \<Rightarrow> 'v"
  cfg_easing :: "jsnum \<Rightarrow> jsnum"
  cfg_delay :: real
  cfg_duration :: real
  cfg_loop :: bool

text \<open>\<open>resolve([a, b, c])\<close> on plain values: the first that is defined.\<close>

definition resolve_to :: "'v anim_cfg \<Rightarrow> 'v option \<Rightarrow> 'v \<Rightarrow> 'v" where
  "resolve_to cfg to current =
     (case cfg_to cfg of Some v \<Rightarrow> v | None \<Rightarrow> (case to of Some v \<Rightarrow> v | None \<Rightarrow> current))"

definition resolve_from :: "'v anim_cfg \<Rightarrow> 'v \<Rightarrow> 'v" where
  "resolve_from cfg current = (case cfg_from cfg of Some v \<Rightarrow> v | None \<Rightarrow> current)"

definition new_animation :: "int \<Rightarrow> 'v anim_cfg \<Rightarrow> 'v \<Rightarrow> 'v option \<Rightarrow> 'v animation" where
  "new_animation now cfg current to =
     \<lparr>an_active = True, an_fn = cfg_fn cfg, an_easing = cfg_easing cfg,
      an_start = \<lfloor>real_of_int now + cfg_delay cfg\<rfloor>,
      an_duration = \<lfloor>cfg_duration cfg\<rfloor>, an_total = \<lfloor>cfg_duration cfg\<rfloor>,
      an_loop = cfg_loop cfg, an_value = current,
      an_from = resolve_from cfg current, an_to = resolve_to cfg to current,
      an_promises = [], an_settled = []\<rparr>"

definition an_notify :: "bool \<Rightarrow> 'v animation \<Rightarrow> 'v animation" where
  "an_notify resolved a = a\<lparr>an_settled := an_settled a @ map (\<lambda>p. (p, resolved)) (an_promises a)\<rparr>"

definition an_wait :: "nat \<Rightarrow> 'v animation \<Rightarrow> 'v animation" where
  "an_wait p a = a\<lparr>an_promises := an_promises a @ [p]\<rparr>"

definition an_update :: "'v anim_cfg \<Rightarrow> 'v option \<Rightarrow> int \<Rightarrow> 'v animation \<Rightarrow> 'v animation" where
  "an_update cfg to date a =
     (if an_active a then
        (let a1 = an_notify False a;
             current = an_value a1;
             elapsed = date - an_start a1;
             remain = an_duration a1 - elapsed
         in a1\<lparr>an_start := date,
               an_duration := \<lfloor>max (real_of_int remain) (cfg_duration cfg)\<rfloor>,
               an_total := an_total a1 + elapsed,
               an_loop := cfg_loop cfg,
               an_to := resolve_to cfg to current,
               an_from := resolve_from cfg current\<rparr>)
      else a)"

text \<open>The share of the way that a tick passes to the easing function.\<close>

definition tick_factor :: "bool \<Rightarrow> int \<Rightarrow> int \<Rightarrow> jsnum" where
  "tick_factor loop elapsed duration =
     (let f = num_rem (Fin (of_int elapsed) / Fin (of_int duration)) (Fin 2);
          g = (if loop \<and> f > Fin 1 then Fin 2 - f else f)
      in math_min (Fin 1) (math_max (Fin 0) g))"

definition an_tick :: "int \<Rightarrow> 'v animation \<Rightarrow> 'v animation" where
  "an_tick date a =
     (let elapsed = date - an_start a;
          active = (an_from a \<noteq> an_to a \<and> (an_loop a \<or> elapsed < an_duration a));
          a1 = a\<lparr>an_active := active\<rparr>
      in if \<not> active then an_notify True (a1\<lparr>an_value := an_to a\<rparr>)
         else if elapsed < 0 then a1\<lparr>an_value := an_from a\<rparr>
         else a1\<lparr>an_value := an_fn a (an_from a) (an_to a)
                               (an_easing a (tick_factor (an_loop a) elapsed (an_duration a)))\<rparr>)"

definition an_cancel :: "int \<Rightarrow> 'v animation \<Rightarrow> 'v animation" where
  "an_cancel now a =
     (if an_active a then an_notify False ((an_tick now a)\<lparr>an_active := False\<rparr>) else a)"

section \<open>The animator\<close>

datatype anim_event_type = Complete | Progress

datatype animator_event =
    Draw nat
  | Notify nat nat bool "int option" "int option" anim_event_type

record 'v anims =
  as_running :: bool
  as_initial :: bool
  as_items :: "'v animation list"
  as_complete :: "nat list"
  as_progress :: "nat list"
  as_start :: "int option"
  as_duration :: "int option"

record 'v animator =
  ar_request :: bool
  ar_charts :: "(nat \<times> 'v anims) list"
  ar_running :: bool
  ar_lastDate :: "int option"
  ar_log :: "animator_event list"
  ar_cancelled :: "'v animation list"

definition new_animator :: "'v animator" where
  "new_animator = \<lparr>ar_request = False, ar_charts = [], ar_running = False, ar_lastDate = None, ar_log = [],
     ar_cancelled = []\<rparr>"

definition new_anims :: "'v anims" where
  "new_anims = \<lparr>as_running = False, as_initial = True, as_items = [], as_complete = [],
     as_progress = [], as_start = None, as_duration = None\<rparr>"

text \<open>
  The calls of the listeners: each gets the number of steps and the current step, the
  smaller of the elapsed time and the number of steps; \<open>undefined\<close> fields are \<open>None\<close>.
\<close>

definition ar_notify :: "nat \<Rightarrow> 'v anims \<Rightarrow> int \<Rightarrow> anim_event_type \<Rightarrow> animator_event list" where
  "ar_notify chart an date type =
     (let listeners = (case type of Complete \<Rightarrow> as_complete an | Progress \<Rightarrow> as_progress an);
          step = (case (as_start an, as_duration an) of
                    (Some s, Some d) \<Rightarrow> Some (min (date - s) d) | _ \<Rightarrow> None)
      in map (\<lambda>l. Notify chart l (as_initial an) (as_duration an) step type) listeners)"

text \<open>
  The loop of \<open>_update\<close> over the items of one chart, from the last index down: an active
  item is ticked, an inactive one is replaced by the last item, which is popped.
\<close>

fun items_loop :: "int \<Rightarrow> nat \<Rightarrow> 'v animation list \<Rightarrow> int option \<Rightarrow> bool
    \<Rightarrow> 'v animation list \<times> int option \<times> bool" where
  "items_loop date 0 items duration draw = (items, duration, draw)"
| "items_loop date (Suc i) items duration draw =
     (let item = items ! i in
      if an_active item then
        items_loop date i (items[i := an_tick date item])
          (case duration of Some d \<Rightarrow> if an_total item > d then Some (an_total item) else Some d
                          | None \<Rightarrow> None) True
      else items_loop date i (butlast (items[i := last items])) duration draw)"

definition update_chart :: "int \<Rightarrow> nat \<Rightarrow> 'v anims \<Rightarrow> 'v anims \<times> animator_event list \<times> nat" where
  "update_chart date chart an =
     (if \<not> as_running an \<or> as_items an = [] then (an, [], 0)
      else
        (let (items, duration, draw) =
               items_loop date (length (as_items an)) (as_items an) (as_duration an) False;
             an1 = an\<lparr>as_items := items, as_duration := duration\<rparr>;
             log1 = (if draw then Draw chart # ar_notify chart an1 date Progress else []);
             (an2, log2) =
               (if items = [] then
                  (let an' = an1\<lparr>as_running := False\<rparr>
                   in (an'\<lparr>as_initial := False\<rparr>, log1 @ ar_notify chart an' date Complete))
                else (an1, log1))
         in (an2, log2, length items)))"

fun update_charts :: "int \<Rightarrow> (nat \<times> 'v anims) list \<Rightarrow> (nat \<times> 'v anims) list \<times> animator_event list \<times> nat" where
  "update_charts date [] = ([], [], 0)"
| "update_charts date ((chart, an) # charts) =
     (let (an', log, n) = update_chart date chart an;
          (charts', logs, m) = update_charts date charts
      in ((chart, an') # charts', log @ logs, n + m))"

definition ar_update :: "int \<Rightarrow> 'v animator \<Rightarrow> 'v animator" where
  "ar_update date r =
     (let (charts, log, remaining) = update_charts date (ar_charts r)
      in r\<lparr>ar_charts := charts, ar_log := ar_log r @ log, ar_lastDate := Some date,
           ar_running := (if remaining = 0 then False else ar_running r)\<rparr>)"

definition ar_refresh :: "'v animator \<Rightarrow> 'v animator" where
  "ar_refresh r = (if ar_request r then r else r\<lparr>ar_running := True, ar_request := True\<rparr>)"

text \<open>The callback of a requested frame.\<close>

definition ar_frame :: "int \<Rightarrow> 'v animator \<Rightarrow> 'v animator" where
  "ar_frame date r =
     (let r1 = (ar_update date r)\<lparr>ar_request := False\<rparr>
      in if ar_running r1 then ar_refresh r1 else r1)"

definition upd_anims :: "nat \<Rightarrow> ('v anims \<Rightarrow> 'v anims) \<Rightarrow> 'v animator \<Rightarrow> 'v animator" where
  "upd_anims chart f r =
     (if chart \<in> fst ` set (ar_charts r)
      then r\<lparr>ar_charts := map (\<lambda>(c, an). if c = chart then (c, f an) else (c, an)) (ar_charts r)\<rparr>
      else r\<lparr>ar_charts := ar_charts r @ [(chart, f new_anims)]\<rparr>)"

definition ar_listen :: "nat \<Rightarrow> anim_event_type \<Rightarrow> nat \<Rightarrow> 'v animator \<Rightarrow> 'v animator" where
  "ar_listen chart event cb =
     upd_anims chart (\<lambda>an. case event of
         Complete \<Rightarrow> an\<lparr>as_complete := as_complete an @ [cb]\<rparr>
       | Progress \<Rightarrow> an\<lparr>as_progress := as_progress an @ [cb]\<rparr>)"

definition ar_add :: "nat \<Rightarrow> 'v animation list \<Rightarrow> 'v animator \<Rightarrow> 'v animator" where
  "ar_add chart items r =
     (if items = [] then r else upd_anims chart (\<lambda>an. an\<lparr>as_items := as_items an @ items\<rparr>) r)"

text \<open>\<open>has\<close> creates the entry of an unknown chart, like every use of \<open>_getAnims\<close>.\<close>

definition ar_has :: "nat \<Rightarrow> 'v animator \<Rightarrow> bool \<times> 'v animator" where
  "ar_has chart r =
     (let r' = upd_anims chart id r
      in (case map_of (ar_charts r') chart of Some an \<Rightarrow> as_items an \<noteq> [] | None \<Rightarrow> False, r'))"

definition ar_start :: "int \<Rightarrow> nat \<Rightarrow> 'v animator \<Rightarrow> 'v animator" where
  "ar_start now chart r =
     (case map_of (ar_charts r) chart of
        None \<Rightarrow> r
      | Some _ \<Rightarrow>
          ar_refresh (upd_anims chart
            (\<lambda>an. an\<lparr>as_running := True, as_start := Some now,
                     as_duration := Some (foldl (\<lambda>acc cur. max acc (an_duration cur)) 0 (as_items an))\<rparr>) r))"

definition ar_is_running :: "nat \<Rightarrow> 'v animator \<Rightarrow> bool" where
  "ar_is_running chart r =
     (if \<not> ar_running r then False
      else case map_of (ar_charts r) chart of
             None \<Rightarrow> False
           | Some an \<Rightarrow> as_running an \<and> as_items an \<noteq> [])"

definition ar_stop :: "int \<Rightarrow> nat \<Rightarrow> 'v animator \<Rightarrow> 'v animator" where
  "ar_stop now chart r =
     (case map_of (ar_charts r) chart of
        None \<Rightarrow> r
      | Some an \<Rightarrow>
          if as_items an = [] then r
          else (let r1 = upd_anims chart (\<lambda>a. a\<lparr>as_items := []\<rparr>) r
                in r1\<lparr>ar_log := ar_log r1 @ ar_notify chart an now Complete,
                      ar_cancelled := ar_cancelled r1 @ map (an_cancel now) (rev (as_items an))\<rparr>))"

definition ar_remove :: "nat \<Rightarrow> 'v animator \<Rightarrow> bool \<times> 'v animator" where
  "ar_remove chart r =
     (chart \<in> fst ` set (ar_charts r),
      r\<lparr>ar_charts := filter (\<lambda>(c, _). c \<noteq> chart) (ar_charts r)\<rparr>)"

section \<open>The loop over the items\<close>

lemma mset_swap_remove:
  assumes "i < length items"
  shows "take i (butlast (items[i := last items])) = take i items \<and>
    mset (drop i (butlast (items[i := last items]))) = mset (drop (Suc i) items)"
proof (cases "Suc i = length items")
  case True
  then have "items[i := last items] = items" using assms
    by (metis One_nat_def diff_Suc_1 last_conv_nth length_0_conv list_update_id not_less_zero)
  with True show ?thesis by (simp add: take_butlast butlast_conv_take)
next
  case False
  have items: "items = take i items @ items ! i # drop (Suc i) items"
    using assms by (rule id_take_nth_drop)
  obtain mid l where mid: "drop (Suc i) items = mid @ [l]"
    using False assms by (metis Suc_lessI drop_eq_Nil2 leD rev_exhaust)
  have "last items = l" using items mid by (metis last_appendR last_snoc list.distinct(1) last_ConsR append_is_Nil_conv)
  moreover have "items[i := l] = take i items @ l # mid @ [l]"
    using assms mid by (metis upd_conv_take_nth_drop)
  ultimately have "butlast (items[i := last items]) = take i items @ l # mid"
    by (simp add: butlast_append)
  then show ?thesis using assms mid by simp
qed

lemma items_loop_mset:
  "i \<le> length items \<Longrightarrow>
     mset (fst (items_loop date i items duration draw))
       = mset (map (an_tick date) (filter an_active (take i items))) + mset (drop i items) \<and>
     snd (snd (items_loop date i items duration draw))
       = (draw \<or> (\<exists>a \<in> set (take i items). an_active a))"
proof (induction date i items duration draw rule: items_loop.induct)
  case (2 date i items duration draw)
  then have i: "i < length items" by simp
  let ?item = "items ! i"
  have take: "take (Suc i) items = take i items @ [?item]" using i by (rule take_Suc_conv_app_nth)
  have drop: "drop i items = ?item # drop (Suc i) items" using i by (simp add: Cons_nth_drop_Suc)
  show ?case
  proof (cases "an_active ?item")
    case True
    have upd: "take i (items[i := an_tick date ?item]) = take i items"
      "drop i (items[i := an_tick date ?item]) = an_tick date ?item # drop (Suc i) items"
      using i by (simp_all add: upd_conv_take_nth_drop)
    show ?thesis
      using 2(1) [OF refl True] i True by (simp add: take upd Let_def)
  next
    case False
    let ?items = "butlast (items[i := last items])"
    have le: "i \<le> length ?items" using i by simp
    show ?thesis
      using 2(2) [OF refl False le] mset_swap_remove [OF i] False
      by (simp add: take Let_def)
  qed
qed simp

lemma an_tick_done:
  assumes "\<not> an_loop a" and "an_start a + an_duration a \<le> date"
  shows "\<not> an_active (an_tick date a) \<and> an_value (an_tick date a) = an_to a \<and>
    an_loop (an_tick date a) = an_loop a \<and> an_start (an_tick date a) = an_start a \<and>
    an_duration (an_tick date a) = an_duration a"
  using assms by (simp add: an_tick_def an_notify_def Let_def)

lemma tick_factor_unit:
  assumes "0 \<le> elapsed" and "0 < duration"
  shows "\<exists>f. tick_factor loop elapsed duration = Fin f \<and> 0 \<le> f \<and> f \<le> 1"
proof -
  let ?q = "real_of_int elapsed / real_of_int duration"
  have "num_rem (Fin (of_int elapsed) / Fin (of_int duration)) (Fin 2) = Fin (real_rem ?q 2)"
    using assms by simp
  then show ?thesis by (auto simp: tick_factor_def Let_def)
qed

lemma tick_factor_plain:
  assumes "0 \<le> elapsed" and "elapsed < duration"
  shows "tick_factor loop elapsed duration = Fin (real_of_int elapsed / real_of_int duration)"
proof -
  let ?q = "real_of_int elapsed / real_of_int duration"
  have q: "0 \<le> ?q" "?q < 1" using assms by simp_all
  then have "\<lfloor>?q / 2\<rfloor> = 0" by (simp add: floor_eq_iff)
  then have "real_rem ?q 2 = ?q" using q by (simp add: real_rem_def trunc_real_def)
  moreover have "num_rem (Fin (of_int elapsed) / Fin (of_int duration)) (Fin 2) = Fin (real_rem ?q 2)"
    using assms by simp
  ultimately show ?thesis using q by (simp add: tick_factor_def Let_def)
qed

section \<open>Steps of the animator\<close>

inductive ar_step :: "'v animator \<Rightarrow> 'v animator \<Rightarrow> bool" where
  listen: "ar_step r (ar_listen chart event cb r)"
| add: "ar_step r (ar_add chart items r)"
| has: "ar_step r (snd (ar_has chart r))"
| start: "ar_step r (ar_start now chart r)"
| stop: "ar_step r (ar_stop now chart r)"
| remove: "ar_step r (snd (ar_remove chart r))"
| frame: "ar_request r \<Longrightarrow> ar_step r (ar_frame date r)"

inductive ar_reach :: "'v animator \<Rightarrow> bool" where
  init: "ar_reach new_animator"
| step: "ar_reach r \<Longrightarrow> ar_step r r' \<Longrightarrow> ar_reach r'"

definition ar_inv :: "'v animator \<Rightarrow> bool" where
  "ar_inv r \<longleftrightarrow> (ar_running r \<longleftrightarrow> ar_request r) \<and> distinct (map fst (ar_charts r))"

lemma upd_anims_frame [simp]:
  "ar_running (upd_anims chart f r) = ar_running r" "ar_request (upd_anims chart f r) = ar_request r"
  by (simp_all add: upd_anims_def)

lemma upd_anims_keys:
  "map fst (ar_charts (upd_anims chart f r)) =
     (if chart \<in> fst ` set (ar_charts r) then map fst (ar_charts r) else map fst (ar_charts r) @ [chart])"
  by (auto simp: upd_anims_def intro: map_cong)

lemma ar_inv_upd: "ar_inv r \<Longrightarrow> ar_inv (upd_anims chart f r)"
  by (auto simp: ar_inv_def upd_anims_keys)

lemma ar_inv_refresh: "ar_inv r \<Longrightarrow> ar_inv (ar_refresh r)"
  by (auto simp: ar_inv_def ar_refresh_def)

lemma update_charts_keys: "map fst (fst (update_charts date charts)) = map fst charts"
  by (induction date charts rule: update_charts.induct) (auto split: prod.splits)

lemma ar_inv_frame: "ar_inv r \<Longrightarrow> ar_inv (ar_frame date r)"
  using update_charts_keys [of date "ar_charts r"]
  by (auto simp: ar_inv_def ar_frame_def ar_refresh_def ar_update_def Let_def split: prod.splits)

lemma ar_inv_log [simp]: "ar_inv (r\<lparr>ar_log := l, ar_cancelled := c\<rparr>) = ar_inv r"
  by (simp add: ar_inv_def)

lemma ar_inv_step: "ar_step r r' \<Longrightarrow> ar_inv r \<Longrightarrow> ar_inv r'"
proof (induction rule: ar_step.induct)
  case (remove r chart)
  then show ?case
    by (auto simp: ar_remove_def ar_inv_def distinct_map inj_on_def)
next
  case (stop r now chart)
  then show ?case
    by (auto simp: ar_stop_def Let_def split: option.splits intro: ar_inv_upd)
next
  case (start r now chart)
  then show ?case by (auto simp: ar_start_def split: option.splits intro: ar_inv_upd ar_inv_refresh)
qed (auto simp: ar_listen_def ar_add_def ar_has_def Let_def intro: ar_inv_upd ar_inv_frame)

lemma ar_reach_inv: "ar_reach r \<Longrightarrow> ar_inv r"
  by (induction rule: ar_reach.induct) (auto simp: ar_inv_def new_animator_def dest: ar_inv_step)

section \<open>Properties\<close>

text \<open>
  A tick. While a non-looping animation runs, a tick writes the interpolation at the
  easing of the elapsed share of the duration, which lies between 0 and 1; a tick at or
  after its end, or when nothing changes, writes exactly the final value, ends the
  animation and resolves every waiting promise.
\<close>

theorem an_tick_progress:
  assumes "\<not> an_loop a" and "0 < an_duration a" and "an_start a \<le> date"
  shows "let share = of_int (date - an_start a) / of_int (an_duration a) in
    (if an_from a \<noteq> an_to a \<and> date < an_start a + an_duration a
     then an_active (an_tick date a) \<and> 0 \<le> share \<and> share < 1 \<and>
       an_value (an_tick date a) = an_fn a (an_from a) (an_to a) (an_easing a (Fin share)) \<and>
       an_settled (an_tick date a) = an_settled a
     else \<not> an_active (an_tick date a) \<and> an_value (an_tick date a) = an_to a \<and>
       an_settled (an_tick date a) = an_settled a @ map (\<lambda>p. (p, True)) (an_promises a))"
  using assms tick_factor_plain [of "date - an_start a" "an_duration a" False]
  by (auto simp: an_tick_def an_notify_def Let_def)

definition sample_anim :: "real animation" where
  "sample_anim = \<lparr>an_active = True, an_fn = (\<lambda>a b f. case f of Fin t \<Rightarrow> a + (b - a) * t | _ \<Rightarrow> a),
     an_easing = id, an_start = 100, an_duration = 50, an_total = 50, an_loop = False, an_value = 0,
     an_from = 0, an_to = 10, an_promises = [1], an_settled = []\<rparr>"

theorem an_tick_progress_witness:
  "an_value (an_tick 125 sample_anim) = 5 \<and> an_settled (an_tick 150 sample_anim) = [(1, True)]"
  using an_tick_progress [of sample_anim 125] an_tick_progress [of sample_anim 150]
  by (simp add: sample_anim_def Let_def)

text \<open>
  One update of a chart. Updating a running chart with items keeps, as a multiset,
  exactly the items that were active, each ticked once, whatever order the removal by
  swapping leaves them in; it draws the chart and reports progress exactly when some item
  was active; and when no item is left the chart stops running and its completion
  listeners are called.
\<close>

theorem update_chart_items:
  assumes "as_running an" and "as_items an \<noteq> []" and "update_chart date chart an = (an', lg, n)"
  shows "mset (as_items an') = mset (map (an_tick date) (filter an_active (as_items an))) \<and>
    n = length (as_items an') \<and>
    (Draw chart \<in> set lg \<longleftrightarrow> (\<exists>a \<in> set (as_items an). an_active a)) \<and>
    (as_running an' \<longleftrightarrow> as_items an' \<noteq> []) \<and>
    (as_items an' = [] \<longrightarrow> (\<forall>l \<in> set (as_complete an). \<exists>i d s. Notify chart l i d s Complete \<in> set lg))"
proof -
  obtain items dur draw where
    l: "items_loop date (length (as_items an)) (as_items an) (as_duration an) False = (items, dur, draw)"
    by (metis prod_cases3)
  have *: "mset items = mset (map (an_tick date) (filter an_active (as_items an)))"
    "draw = (\<exists>a \<in> set (as_items an). an_active a)"
    using items_loop_mset [of "length (as_items an)" "as_items an" date "as_duration an" False] by (simp_all add: l)
  show ?thesis
  proof (cases "items = []")
    case True
    with assms * show ?thesis
      by (force simp: update_chart_def l Let_def ar_notify_def)
  next
    case False
    with assms * show ?thesis
      by (auto simp: update_chart_def l Let_def ar_notify_def)
  qed
qed

theorem update_chart_items_witness:
  "mset (as_items (fst (update_chart 125 7 (new_anims\<lparr>as_running := True, as_items := [sample_anim, sample_anim\<lparr>an_active := False\<rparr>]\<rparr>))))
    = {# an_tick 125 sample_anim #}"
proof -
  let ?an = "new_anims\<lparr>as_running := True, as_items := [sample_anim, sample_anim\<lparr>an_active := False\<rparr>]\<rparr>"
  obtain an' lg n where r: "update_chart 125 7 ?an = (an', lg, n)" by (metis prod_cases3)
  have "as_running ?an" and "as_items ?an \<noteq> []" by simp_all
  from update_chart_items [OF this r] show ?thesis by (simp add: r) (simp add: sample_anim_def)
qed

text \<open>
  C34 (animations end). When every item of a running chart is past its end and none loops,
  two updates finish the chart: every item has its final value after the first, and after
  the second the chart has no items, no longer runs and is no longer in its initial
  animation.
\<close>

theorem animations_end:
  assumes "as_running an" and "as_items an \<noteq> []" and "\<forall>a \<in> set (as_items an). an_active a"
    and "\<forall>a \<in> set (as_items an). \<not> an_loop a \<and> an_start a + an_duration a \<le> date" and "date \<le> date'"
  shows "let an1 = fst (update_chart date chart an); an2 = fst (update_chart date' chart an1) in
    (\<forall>a \<in> set (as_items an1). an_value a = an_to a) \<and>
    as_items an2 = [] \<and> \<not> as_running an2 \<and> \<not> as_initial an2"
proof -
  obtain an1 log1 n1 where u1: "update_chart date chart an = (an1, log1, n1)" by (metis prod_cases3)
  obtain items dur draw where
    l: "items_loop date (length (as_items an)) (as_items an) (as_duration an) False = (items, dur, draw)"
    by (metis prod_cases3)
  have m: "mset items = mset (map (an_tick date) (as_items an))"
    using items_loop_mset [of "length (as_items an)" "as_items an" date "as_duration an" False] assms(3)
    by (simp add: l filter_True)
  then have ne: "items \<noteq> []" using assms(2) by auto
  have an1: "as_items an1 = items" "as_running an1"
    using u1 assms(1,2) ne by (auto simp: update_chart_def l Let_def)
  have "set items = an_tick date ` set (as_items an)" using m by (metis set_map set_mset_mset)
  then have fin: "\<forall>a \<in> set items. \<not> an_active a \<and> an_value a = an_to a"
    using assms(4) an_tick_done by (auto simp: an_tick_def an_notify_def Let_def)
  obtain items2 dur2 draw2 where
    l2: "items_loop date' (length items) items (as_duration an1) False = (items2, dur2, draw2)"
    by (metis prod_cases3)
  have "items2 = []"
    using items_loop_mset [of "length items" items date' "as_duration an1" False] fin by (simp add: l2)
  then have "fst (update_chart date' chart an1) =
      an1\<lparr>as_items := [], as_duration := dur2, as_running := False, as_initial := False\<rparr>"
    using an1 ne l2 by (simp add: update_chart_def Let_def)
  then show ?thesis
    using fin an1 by (simp add: u1)
qed

theorem animations_end_witness:
  "\<not> as_running (fst (update_chart 300 7 (fst (update_chart 200 7 (new_anims\<lparr>as_running := True, as_items := [sample_anim]\<rparr>)))))"
  using animations_end [of "new_anims\<lparr>as_running := True, as_items := [sample_anim]\<rparr>" 200 300 7]
  by (simp add: sample_anim_def Let_def)

text \<open>
  C38 (running means a frame is due). In every reachable state the animator runs exactly when
  a frame is requested from the browser, so a chart that reports a running animation is
  always updated again, and each chart has one entry.
\<close>

theorem animator_frame_due:
  assumes "ar_reach r"
  shows "(ar_running r \<longleftrightarrow> ar_request r) \<and> distinct (map fst (ar_charts r)) \<and>
    (ar_is_running chart r \<longrightarrow> ar_request r)"
  using ar_reach_inv [OF assms] by (auto simp: ar_inv_def ar_is_running_def)

theorem animator_frame_due_witness:
  "ar_reach (ar_start 100 7 (ar_add 7 [sample_anim] new_animator)) \<and>
   ar_request (ar_start 100 7 (ar_add 7 [sample_anim] new_animator))"
proof -
  let ?r = "ar_start 100 7 (ar_add 7 [sample_anim] new_animator)"
  have r: "ar_reach ?r" by (blast intro: ar_reach.intros ar_step.intros)
  moreover have "ar_is_running 7 ?r"
    by (simp add: ar_start_def ar_add_def upd_anims_def new_animator_def ar_refresh_def ar_is_running_def new_anims_def)
  ultimately show ?thesis using animator_frame_due [OF r, of 7] by blast
qed

end
