(* ===== verification/Color.thy ===== *)
theory Color
  imports JS_Strings
begin

unbundle bit_operations_syntax

text \<open>
  The colour library inside the charting library (\<^verbatim>\<open>chart.js\<close>, \<open>map$1\<close> to
  \<open>getHoverColor\<close>): parsing hexadecimal, named, \<open>rgb()\<close> and hue notations, conversion
  between colour spaces, the operations of the class \<open>Color\<close> and printing.

  The four components of a colour are JavaScript numbers. Bit operators act on the 32 bit
  conversion of their operands; an unknown hexadecimal digit is \<open>undefined\<close>, which is
  \<open>NaN\<close> in arithmetic and 0 in bit operators. Converting a number to text, which the
  printing functions use, is a parameter.
\<close>

section \<open>Hexadecimal notation\<close>

record rgba =
  c_r :: jsnum
  c_g :: jsnum
  c_b :: jsnum
  c_a :: jsnum

definition hex_val :: "char \<Rightarrow> nat option" where
  "hex_val c = map_of
    [(CHR ''0'', 0), (CHR ''1'', 1), (CHR ''2'', 2), (CHR ''3'', 3), (CHR ''4'', 4), (CHR ''5'', 5),
     (CHR ''6'', 6), (CHR ''7'', 7), (CHR ''8'', 8), (CHR ''9'', 9), (CHR ''A'', 10), (CHR ''B'', 11),
     (CHR ''C'', 12), (CHR ''D'', 13), (CHR ''E'', 14), (CHR ''F'', 15), (CHR ''a'', 10), (CHR ''b'', 11),
     (CHR ''c'', 12), (CHR ''d'', 13), (CHR ''e'', 14), (CHR ''f'', 15)] c"

definition hex_digits :: string where
  "hex_digits = ''0123456789ABCDEF''"

definition h1 :: "jsnum \<Rightarrow> string" where
  "h1 b = [hex_digits ! nat (toInt32 b AND 15)]"

definition h2 :: "jsnum \<Rightarrow> string" where
  "h2 b = [hex_digits ! nat (drop_bit 4 (toInt32 b AND 240)), hex_digits ! nat (toInt32 b AND 15)]"

definition eq_nibbles :: "jsnum \<Rightarrow> bool" where
  "eq_nibbles b \<longleftrightarrow> drop_bit 4 (toInt32 b AND 240) = toInt32 b AND 15"

definition isShort :: "rgba \<Rightarrow> bool" where
  "isShort v \<longleftrightarrow> eq_nibbles (c_r v) \<and> eq_nibbles (c_g v) \<and> eq_nibbles (c_b v) \<and> eq_nibbles (c_a v)"

text \<open>A digit as an operand of a bit operator, and as a factor.\<close>

definition hex_bits :: "char \<Rightarrow> int" where
  "hex_bits c = (case hex_val c of None \<Rightarrow> 0 | Some n \<Rightarrow> int n)"

definition hex_num :: "char \<Rightarrow> jsnum" where
  "hex_num c = (case hex_val c of None \<Rightarrow> NaN | Some n \<Rightarrow> Fin (real n))"

definition byte_of :: "jsnum \<Rightarrow> jsnum" where
  "byte_of x = Fin (of_int (255 AND toInt32 x))"

definition hex_pair :: "char \<Rightarrow> char \<Rightarrow> jsnum" where
  "hex_pair c d = Fin (of_int (push_bit 4 (hex_bits c) OR hex_bits d))"

definition hexParse :: "string \<Rightarrow> rgba option" where
  "hexParse str =
     (case str of
        [] \<Rightarrow> None
      | c # cs \<Rightarrow>
          if c = CHR ''#'' then
            (let len = length str in
             if len = 4 \<or> len = 5 then
               Some \<lparr>c_r = byte_of (hex_num (str ! 1) * Fin 17),
                     c_g = byte_of (hex_num (str ! 2) * Fin 17),
                     c_b = byte_of (hex_num (str ! 3) * Fin 17),
                     c_a = (if len = 5 then hex_num (str ! 4) * Fin 17 else Fin 255)\<rparr>
             else if len = 7 \<or> len = 9 then
               Some \<lparr>c_r = hex_pair (str ! 1) (str ! 2),
                     c_g = hex_pair (str ! 3) (str ! 4),
                     c_b = hex_pair (str ! 5) (str ! 6),
                     c_a = (if len = 9 then hex_pair (str ! 7) (str ! 8) else Fin 255)\<rparr>
             else None)
          else None)"

definition hexString :: "rgba \<Rightarrow> string" where
  "hexString v =
     (let f = (if isShort v then h1 else h2)
      in ''#'' @ f (c_r v) @ f (c_g v) @ f (c_b v) @ (if c_a v < Fin 255 then f (c_a v) else []))"

section \<open>Conversions between ranges\<close>

definition round_num :: "jsnum \<Rightarrow> jsnum" where
  "round_num v = Fin (of_int (toInt32 (v + Fin (1 / 2))))"

definition lim :: "jsnum \<Rightarrow> jsnum \<Rightarrow> jsnum \<Rightarrow> jsnum" where
  "lim v l h = math_max (math_min v h) l"

definition p2b :: "jsnum \<Rightarrow> jsnum" where
  "p2b v = lim (round_num (v * Fin (255 / 100))) (Fin 0) (Fin 255)"

definition n2b :: "jsnum \<Rightarrow> jsnum" where
  "n2b v = lim (round_num (v * Fin 255)) (Fin 0) (Fin 255)"

definition b2n :: "jsnum \<Rightarrow> jsnum" where
  "b2n v = lim (round_num (v / Fin (255 / 100)) / Fin 100) (Fin 0) (Fin 1)"

definition n2p :: "jsnum \<Rightarrow> jsnum" where
  "n2p v = lim (round_num (v * Fin 100)) (Fin 0) (Fin 100)"

section \<open>Numbers and separators inside a colour\<close>

definition num_char1 :: "char \<Rightarrow> bool" where
  "num_char1 c \<longleftrightarrow> c = CHR ''-'' \<or> c = CHR ''+'' \<or> c = CHR ''.'' \<or> is_digit c"

definition num_char :: "char \<Rightarrow> bool" where
  "num_char c \<longleftrightarrow> num_char1 c \<or> c = CHR ''e''"

text \<open>The parts of the regular expressions, each taking what it matches from the front.\<close>

fun drop_prefix :: "string \<Rightarrow> string \<Rightarrow> string option" where
  "drop_prefix [] s = Some s"
| "drop_prefix (p # ps) [] = None"
| "drop_prefix (p # ps) (c # cs) = (if p = c then drop_prefix ps cs else None)"

definition take_some :: "(char \<Rightarrow> bool) \<Rightarrow> string \<Rightarrow> (string \<times> string) option" where
  "take_some P s = (let w = takeWhile P s in if w = [] then None else Some (w, dropWhile P s))"

definition take_percent :: "string \<Rightarrow> bool \<times> string" where
  "take_percent s = (case s of c # cs \<Rightarrow> if c = CHR ''%'' then (True, cs) else (False, s) | [] \<Rightarrow> (False, []))"

text \<open>The end of both expressions: an optional alpha value, then the closing bracket.\<close>

definition close_bracket :: "string \<Rightarrow> bool" where
  "close_bracket s \<longleftrightarrow> dropWhile is_space s = '')''"

definition parse_alpha :: "(char \<Rightarrow> bool) \<Rightarrow> string \<Rightarrow> (string \<times> bool) option option" where
  "parse_alpha sep s =
     (case take_some sep s of
        Some (_, r) \<Rightarrow>
          (case take_some num_char r of
             Some (a, r1) \<Rightarrow>
               (let (pc, r2) = take_percent r1 in if close_bracket r2 then Some (Some (a, pc)) else None)
           | None \<Rightarrow> if close_bracket s then Some None else None)
      | None \<Rightarrow> if close_bracket s then Some None else None)"

definition comma_sep :: "char \<Rightarrow> bool" where
  "comma_sep c \<longleftrightarrow> is_space c \<or> c = CHR '',''"

definition slash_sep :: "char \<Rightarrow> bool" where
  "slash_sep c \<longleftrightarrow> comma_sep c \<or> c = CHR ''/''"

type_synonym rgb_match = "(string \<times> bool) \<times> (string \<times> bool) \<times> (string \<times> bool) \<times> (string \<times> bool) option"

definition rgb_prefix :: "string \<Rightarrow> string option" where
  "rgb_prefix s = (case drop_prefix ''rgba('' s of Some r \<Rightarrow> Some r | None \<Rightarrow> drop_prefix ''rgb('' s)"

definition RGB_RE :: "string \<Rightarrow> rgb_match option" where
  "RGB_RE str =
     Option.bind (rgb_prefix str) (\<lambda>s0.
     Option.bind (take_some num_char1 (dropWhile is_space s0)) (\<lambda>(r, s1).
     let (rp, s2) = take_percent s1 in
     Option.bind (take_some comma_sep s2) (\<lambda>(_, s3).
     Option.bind (take_some num_char s3) (\<lambda>(g, s4).
     let (gp, s5) = take_percent s4 in
     Option.bind (take_some comma_sep s5) (\<lambda>(_, s6).
     Option.bind (take_some num_char s6) (\<lambda>(b, s7).
     let (bp, s8) = take_percent s7 in
     Option.bind (parse_alpha slash_sep s8) (\<lambda>a. Some ((r, rp), (g, gp), (b, bp), a))))))))"

definition channel :: "string \<times> bool \<Rightarrow> jsnum" where
  "channel c = byte_of (if snd c then p2b (to_number (fst c)) else to_number (fst c))"

definition rgbParse :: "string \<Rightarrow> rgba option" where
  "rgbParse str =
     (case RGB_RE str of
        None \<Rightarrow> None
      | Some (r, g, b, alpha) \<Rightarrow>
          Some \<lparr>c_r = channel r, c_g = channel g, c_b = channel b,
                c_a = (case alpha of
                         None \<Rightarrow> Fin 255
                       | Some (v, pc) \<Rightarrow> byte_of (if pc then p2b (to_number v) else to_number v * Fin 255))\<rparr>)"

definition rgbString :: "(jsnum \<Rightarrow> string) \<Rightarrow> rgba \<Rightarrow> string" where
  "rgbString show v =
     (if c_a v < Fin 255
      then ''rgba('' @ show (c_r v) @ '', '' @ show (c_g v) @ '', '' @ show (c_b v) @ '', ''
             @ show (b2n (c_a v)) @ '')''
      else ''rgb('' @ show (c_r v) @ '', '' @ show (c_g v) @ '', '' @ show (c_b v) @ '')'')"

section \<open>Colour spaces\<close>

definition min3 :: "jsnum \<Rightarrow> jsnum \<Rightarrow> jsnum \<Rightarrow> jsnum" where
  "min3 a b c = math_min (math_min a b) c"

definition hsl2rgbn :: "jsnum \<Rightarrow> jsnum \<Rightarrow> jsnum \<Rightarrow> jsnum \<times> jsnum \<times> jsnum" where
  "hsl2rgbn h s l =
     (let a = s * math_min l (Fin 1 - l);
          f = (\<lambda>n. let k = num_rem (Fin n + h / Fin 30) (Fin 12)
                   in l - a * math_max (min3 (k - Fin 3) (Fin 9 - k) (Fin 1)) (Fin (- 1)))
      in (f 0, f 8, f 4))"

definition hsv2rgbn :: "jsnum \<Rightarrow> jsnum \<Rightarrow> jsnum \<Rightarrow> jsnum \<times> jsnum \<times> jsnum" where
  "hsv2rgbn h s v =
     (let f = (\<lambda>n. let k = num_rem (Fin n + h / Fin 60) (Fin 6)
                   in v - v * s * math_max (min3 k (Fin 4 - k) (Fin 1)) (Fin 0))
      in (f 5, f 3, f 1))"

definition hwb2rgbn :: "jsnum \<Rightarrow> jsnum \<Rightarrow> jsnum \<Rightarrow> jsnum \<times> jsnum \<times> jsnum" where
  "hwb2rgbn h w b =
     (let (r0, g0, b0) = hsl2rgbn h (Fin 1) (Fin (1 / 2));
          (w', b') = (if w + b > Fin 1 then (w * (Fin 1 / (w + b)), b * (Fin 1 / (w + b))) else (w, b));
          f = (\<lambda>c. c * (Fin 1 - w' - b') + w')
      in (f r0, f g0, f b0))"

definition max3 :: "jsnum \<Rightarrow> jsnum \<Rightarrow> jsnum \<Rightarrow> jsnum" where
  "max3 a b c = math_max (math_max a b) c"

definition rgb2hsl :: "rgba \<Rightarrow> jsnum \<times> jsnum \<times> jsnum" where
  "rgb2hsl v =
     (let r = c_r v / Fin 255; g = c_g v / Fin 255; b = c_b v / Fin 255;
          mx = max3 r g b; mn = min3 r g b;
          l = (mx + mn) / Fin 2
      in if \<not> num_eq mx mn then
           (let d = mx - mn;
                s = (if l > Fin (1 / 2) then d / (Fin 2 - mx - mn) else d / (mx + mn));
                h = (if num_eq mx r then (g - b) / d + (if g < b then Fin 6 else Fin 0)
                     else if num_eq mx g then (b - r) / d + Fin 2
                     else (r - g) / d + Fin 4)
            in (Fin (of_int (toInt32 (h * Fin 60 + Fin (1 / 2)))), if s = NaN then Fin 0 else s, l))
         else (Fin 0, Fin 0, l))"

definition calln :: "jsnum \<times> jsnum \<times> jsnum \<Rightarrow> jsnum \<times> jsnum \<times> jsnum" where
  "calln t = (case t of (x, y, z) \<Rightarrow> (n2b x, n2b y, n2b z))"

definition hsl2rgb :: "jsnum \<Rightarrow> jsnum \<Rightarrow> jsnum \<Rightarrow> jsnum \<times> jsnum \<times> jsnum" where
  "hsl2rgb h s l = calln (hsl2rgbn h s l)"

definition hwb2rgb :: "jsnum \<Rightarrow> jsnum \<Rightarrow> jsnum \<Rightarrow> jsnum \<times> jsnum \<times> jsnum" where
  "hwb2rgb h w b = calln (hwb2rgbn h w b)"

definition hsv2rgb :: "jsnum \<Rightarrow> jsnum \<Rightarrow> jsnum \<Rightarrow> jsnum \<times> jsnum \<times> jsnum" where
  "hsv2rgb h s v = calln (hsv2rgbn h s v)"

definition hue :: "jsnum \<Rightarrow> jsnum" where
  "hue h = num_rem (num_rem h (Fin 360) + Fin 360) (Fin 360)"

definition hue_prefix :: "string \<Rightarrow> (string \<times> string) option" where
  "hue_prefix s =
     (case drop_prefix ''hsla('' s of Some r \<Rightarrow> Some (''hsla'', r)
      | None \<Rightarrow> case drop_prefix ''hsl('' s of Some r \<Rightarrow> Some (''hsl'', r)
      | None \<Rightarrow> case drop_prefix ''hwb('' s of Some r \<Rightarrow> Some (''hwb'', r)
      | None \<Rightarrow> case drop_prefix ''hsv('' s of Some r \<Rightarrow> Some (''hsv'', r)
      | None \<Rightarrow> None)"

definition drop_deg :: "string \<Rightarrow> string" where
  "drop_deg s = (case drop_prefix ''deg'' s of Some r \<Rightarrow> r | None \<Rightarrow> s)"

definition HUE_RE :: "string \<Rightarrow> (string \<times> string \<times> string \<times> string \<times> (string \<times> bool) option) option" where
  "HUE_RE str =
     Option.bind (hue_prefix str) (\<lambda>(kind, s0).
     Option.bind (take_some num_char (dropWhile is_space s0)) (\<lambda>(h, s1).
     Option.bind (take_some comma_sep (drop_deg s1)) (\<lambda>(_, s2).
     Option.bind (take_some num_char s2) (\<lambda>(p1, s3).
     Option.bind (drop_prefix ''%'' s3) (\<lambda>s4.
     Option.bind (take_some comma_sep s4) (\<lambda>(_, s5).
     Option.bind (take_some num_char s5) (\<lambda>(p2, s6).
     Option.bind (drop_prefix ''%'' s6) (\<lambda>s7.
     Option.bind (parse_alpha comma_sep s7) (\<lambda>a. Some (kind, h, p1, p2, a))))))))))"

definition hueParse :: "string \<Rightarrow> rgba option" where
  "hueParse str =
     (case HUE_RE str of
        None \<Rightarrow> None
      | Some (kind, hs, s1, s2, alpha) \<Rightarrow>
          (let a = (case alpha of None \<Rightarrow> Fin 255
                    | Some (v, pc) \<Rightarrow> if pc then p2b (to_number v) else n2b (to_number v));
               h = hue (to_number hs);
               p1 = to_number s1 / Fin 100;
               p2 = to_number s2 / Fin 100;
               (r, g, b) = (if kind = ''hwb'' then hwb2rgb h p1 p2
                            else if kind = ''hsv'' then hsv2rgb h p1 p2
                            else hsl2rgb h p1 p2)
           in Some \<lparr>c_r = r, c_g = g, c_b = b, c_a = a\<rparr>))"

definition rotate_color :: "rgba \<Rightarrow> jsnum \<Rightarrow> rgba" where
  "rotate_color v deg =
     (let (h, s, l) = rgb2hsl v; (r, g, b) = hsl2rgb (hue (h + deg)) s l
      in v\<lparr>c_r := r, c_g := g, c_b := b\<rparr>)"

definition hslString :: "(jsnum \<Rightarrow> string) \<Rightarrow> rgba \<Rightarrow> string" where
  "hslString show v =
     (let (h, s0, l0) = rgb2hsl v; s = n2p s0; l = n2p l0
      in if c_a v < Fin 255
         then ''hsla('' @ show h @ '', '' @ show s @ ''%, '' @ show l @ ''%, '' @ show (b2n (c_a v)) @ '')''
         else ''hsl('' @ show h @ '', '' @ show s @ ''%, '' @ show l @ ''%)'')"

section \<open>Named colours\<close>

text \<open>
  The names are stored compressed: each capital letter of a key, and the letter \<open>x\<close>,
  stands for a fragment. \<open>unpack\<close> replaces the first occurrence of each, in the order of
  the fragment table.
\<close>

definition name_fragments :: "(char \<times> string) list" where
  "name_fragments = [
    (CHR ''x'', ''dark''), (CHR ''Z'', ''light''), (CHR ''Y'', ''re''), (CHR ''X'', ''blu''),
    (CHR ''W'', ''gr''), (CHR ''V'', ''medium''), (CHR ''U'', ''slate''), (CHR ''A'', ''ee''),
    (CHR ''T'', ''ol''), (CHR ''S'', ''or''), (CHR ''B'', ''ra''), (CHR ''C'', ''lateg''),
    (CHR ''D'', ''ights''), (CHR ''R'', ''in''), (CHR ''Q'', ''turquois''), (CHR ''E'', ''hi''),
    (CHR ''P'', ''ro''), (CHR ''O'', ''al''), (CHR ''N'', ''le''), (CHR ''M'', ''de''),
    (CHR ''L'', ''yello''), (CHR ''F'', ''en''), (CHR ''K'', ''ch''), (CHR ''G'', ''arks''),
    (CHR ''H'', ''ea''), (CHR ''I'', ''ightg''), (CHR ''J'', ''wh'')]"

definition names :: "(string \<times> string) list" where
  "names = [
    (''OiceXe'', ''f0f8ff''), (''antiquewEte'', ''faebd7''), (''aqua'', ''ffff''),
    (''aquamarRe'', ''7fffd4''), (''azuY'', ''f0ffff''), (''beige'', ''f5f5dc''),
    (''bisque'', ''ffe4c4''), (''black'', ''0''), (''blanKedOmond'', ''ffebcd''),
    (''Xe'', ''ff''), (''XeviTet'', ''8a2be2''), (''bPwn'', ''a52a2a''),
    (''burlywood'', ''deb887''), (''caMtXe'', ''5f9ea0''), (''KartYuse'', ''7fff00''),
    (''KocTate'', ''d2691e''), (''cSO'', ''ff7f50''), (''cSnflowerXe'', ''6495ed''),
    (''cSnsilk'', ''fff8dc''), (''crimson'', ''dc143c''), (''cyan'', ''ffff''),
    (''xXe'', ''8b''), (''xcyan'', ''8b8b''), (''xgTMnPd'', ''b8860b''), (''xWay'', ''a9a9a9''),
    (''xgYF'', ''6400''), (''xgYy'', ''a9a9a9''), (''xkhaki'', ''bdb76b''),
    (''xmagFta'', ''8b008b''), (''xTivegYF'', ''556b2f''), (''xSange'', ''ff8c00''),
    (''xScEd'', ''9932cc''), (''xYd'', ''8b0000''), (''xsOmon'', ''e9967a''),
    (''xsHgYF'', ''8fbc8f''), (''xUXe'', ''483d8b''), (''xUWay'', ''2f4f4f''),
    (''xUgYy'', ''2f4f4f''), (''xQe'', ''ced1''), (''xviTet'', ''9400d3''),
    (''dAppRk'', ''ff1493''), (''dApskyXe'', ''bfff''), (''dimWay'', ''696969''),
    (''dimgYy'', ''696969''), (''dodgerXe'', ''1e90ff''), (''fiYbrick'', ''b22222''),
    (''flSOwEte'', ''fffaf0''), (''foYstWAn'', ''228b22''), (''fuKsia'', ''ff00ff''),
    (''gaRsbSo'', ''dcdcdc''), (''ghostwEte'', ''f8f8ff''), (''gTd'', ''ffd700''),
    (''gTMnPd'', ''daa520''), (''Way'', ''808080''), (''gYF'', ''8000''),
    (''gYFLw'', ''adff2f''), (''gYy'', ''808080''), (''honeyMw'', ''f0fff0''),
    (''hotpRk'', ''ff69b4''), (''RdianYd'', ''cd5c5c''), (''Rdigo'', ''4b0082''),
    (''ivSy'', ''fffff0''), (''khaki'', ''f0e68c''), (''lavFMr'', ''e6e6fa''),
    (''lavFMrXsh'', ''fff0f5''), (''lawngYF'', ''7cfc00''), (''NmoncEffon'', ''fffacd''),
    (''ZXe'', ''add8e6''), (''ZcSO'', ''f08080''), (''Zcyan'', ''e0ffff''),
    (''ZgTMnPdLw'', ''fafad2''), (''ZWay'', ''d3d3d3''), (''ZgYF'', ''90ee90''),
    (''ZgYy'', ''d3d3d3''), (''ZpRk'', ''ffb6c1''), (''ZsOmon'', ''ffa07a''),
    (''ZsHgYF'', ''20b2aa''), (''ZskyXe'', ''87cefa''), (''ZUWay'', ''778899''),
    (''ZUgYy'', ''778899''), (''ZstAlXe'', ''b0c4de''), (''ZLw'', ''ffffe0''),
    (''lime'', ''ff00''), (''limegYF'', ''32cd32''), (''lRF'', ''faf0e6''),
    (''magFta'', ''ff00ff''), (''maPon'', ''800000''), (''VaquamarRe'', ''66cdaa''),
    (''VXe'', ''cd''), (''VScEd'', ''ba55d3''), (''VpurpN'', ''9370db''),
    (''VsHgYF'', ''3cb371''), (''VUXe'', ''7b68ee''), (''VsprRggYF'', ''fa9a''),
    (''VQe'', ''48d1cc''), (''VviTetYd'', ''c71585''), (''midnightXe'', ''191970''),
    (''mRtcYam'', ''f5fffa''), (''mistyPse'', ''ffe4e1''), (''moccasR'', ''ffe4b5''),
    (''navajowEte'', ''ffdead''), (''navy'', ''80''), (''Tdlace'', ''fdf5e6''),
    (''Tive'', ''808000''), (''TivedBb'', ''6b8e23''), (''Sange'', ''ffa500''),
    (''SangeYd'', ''ff4500''), (''ScEd'', ''da70d6''), (''pOegTMnPd'', ''eee8aa''),
    (''pOegYF'', ''98fb98''), (''pOeQe'', ''afeeee''), (''pOeviTetYd'', ''db7093''),
    (''papayawEp'', ''ffefd5''), (''pHKpuff'', ''ffdab9''), (''peru'', ''cd853f''),
    (''pRk'', ''ffc0cb''), (''plum'', ''dda0dd''), (''powMrXe'', ''b0e0e6''),
    (''purpN'', ''800080''), (''YbeccapurpN'', ''663399''), (''Yd'', ''ff0000''),
    (''Psybrown'', ''bc8f8f''), (''PyOXe'', ''4169e1''), (''saddNbPwn'', ''8b4513''),
    (''sOmon'', ''fa8072''), (''sandybPwn'', ''f4a460''), (''sHgYF'', ''2e8b57''),
    (''sHshell'', ''fff5ee''), (''siFna'', ''a0522d''), (''silver'', ''c0c0c0''),
    (''skyXe'', ''87ceeb''), (''UXe'', ''6a5acd''), (''UWay'', ''708090''),
    (''UgYy'', ''708090''), (''snow'', ''fffafa''), (''sprRggYF'', ''ff7f''),
    (''stAlXe'', ''4682b4''), (''tan'', ''d2b48c''), (''teO'', ''8080''),
    (''tEstN'', ''d8bfd8''), (''tomato'', ''ff6347''), (''Qe'', ''40e0d0''),
    (''viTet'', ''ee82ee''), (''JHt'', ''f5deb3''), (''wEte'', ''ffffff''),
    (''wEtesmoke'', ''f5f5f5''), (''Lw'', ''ffff00''), (''LwgYF'', ''9acd32'')]"

text \<open>\<open>str.replace(k, by)\<close> for a single character: the first occurrence only.\<close>

fun replace_first :: "char \<Rightarrow> string \<Rightarrow> string \<Rightarrow> string" where
  "replace_first k by' [] = []"
| "replace_first k by' (c # cs) = (if c = k then by' @ cs else c # replace_first k by' cs)"

fun parse_hex :: "string \<Rightarrow> int" where
  "parse_hex s = foldl (\<lambda>acc c. 16 * acc + hex_bits c) 0 s"

definition unpack_name :: "string \<Rightarrow> string" where
  "unpack_name ok = fold (\<lambda>(k, by'). replace_first k by') name_fragments ok"

definition unpack_rgb :: "string \<Rightarrow> int list" where
  "unpack_rgb code =
     (let k = parse_hex code
      in [drop_bit 16 k AND 255, drop_bit 8 k AND 255, k AND 255])"

definition unpack :: "(string \<times> int list) list" where
  "unpack = map (\<lambda>(ok, code). (unpack_name ok, unpack_rgb code)) names"

definition to_lower :: "char \<Rightarrow> char" where
  "to_lower c = (let n = of_char c :: nat in if 65 \<le> n \<and> n \<le> 90 then char_of (n + 32) else c)"

definition nameParse :: "string \<Rightarrow> rgba option" where
  "nameParse str =
     (case map_of ((''transparent'', [0, 0, 0, 0]) # rev unpack) (map to_lower str) of
        None \<Rightarrow> None
      | Some a \<Rightarrow>
          Some \<lparr>c_r = Fin (of_int (a ! 0)), c_g = Fin (of_int (a ! 1)), c_b = Fin (of_int (a ! 2)),
                c_a = (if length a = 4 then Fin (of_int (a ! 3)) else Fin 255)\<rparr>)"

definition modHSL :: "rgba \<Rightarrow> nat \<Rightarrow> jsnum \<Rightarrow> rgba" where
  "modHSL v i ratio =
     (let (h, s, l) = rgb2hsl v;
          m = (\<lambda>j x. if i = j
                     then math_max (Fin 0) (math_min (x + x * ratio) (if i = 0 then Fin 360 else Fin 1))
                     else x);
          (r, g, b) = hsl2rgb (m 0 h) (m 1 s) (m 2 l)
      in v\<lparr>c_r := r, c_g := g, c_b := b\<rparr>)"

section \<open>The class Color\<close>

text \<open>
  What the constructor accepts: an object with some of the four components, an array of
  numbers, a string. Reading a component of an invalid colour raises a type error, the
  result \<open>None\<close> of the operations below.
\<close>

datatype color_input =
    RgbObject "jsnum option" "jsnum option" "jsnum option" "jsnum option"
  | RgbArray "jsnum list"
  | ColorString string
  | OtherInput

fun fromObject :: "color_input \<Rightarrow> rgba" where
  "fromObject (RgbArray xs) =
     (if length xs \<ge> 3
      then \<lparr>c_r = xs ! 0, c_g = xs ! 1, c_b = xs ! 2, c_a = (if length xs > 3 then n2b (xs ! 3) else Fin 255)\<rparr>
      else \<lparr>c_r = Fin 0, c_g = Fin 0, c_b = Fin 0, c_a = Fin 255\<rparr>)"
| "fromObject (RgbObject r g b a) =
     \<lparr>c_r = (case r of Some x \<Rightarrow> x | None \<Rightarrow> Fin 0), c_g = (case g of Some x \<Rightarrow> x | None \<Rightarrow> Fin 0),
      c_b = (case b of Some x \<Rightarrow> x | None \<Rightarrow> Fin 0), c_a = n2b (case a of Some x \<Rightarrow> x | None \<Rightarrow> Fin 1)\<rparr>"
| "fromObject _ = \<lparr>c_r = Fin 0, c_g = Fin 0, c_b = Fin 0, c_a = n2b (Fin 1)\<rparr>"

definition functionParse :: "string \<Rightarrow> rgba option" where
  "functionParse str =
     (case str of c # _ \<Rightarrow> if c = CHR ''r'' then rgbParse str else hueParse str | [] \<Rightarrow> hueParse str)"

record color =
  col_rgb :: "rgba option"
  col_valid :: bool

definition color_parse :: "string \<Rightarrow> rgba option" where
  "color_parse str =
     (case hexParse str of Some v \<Rightarrow> Some v
      | None \<Rightarrow> case nameParse str of Some v \<Rightarrow> Some v | None \<Rightarrow> functionParse str)"

definition new_color :: "color_input \<Rightarrow> color" where
  "new_color input =
     (let v = (case input of
                 ColorString s \<Rightarrow> color_parse s
               | OtherInput \<Rightarrow> None
               | _ \<Rightarrow> Some (fromObject input))
      in \<lparr>col_rgb = v, col_valid = (v \<noteq> None)\<rparr>)"

definition color_rgb :: "color \<Rightarrow> rgba option" where
  "color_rgb c = map_option (\<lambda>v. v\<lparr>c_a := b2n (c_a v)\<rparr>) (col_rgb c)"

definition set_rgb :: "rgba \<Rightarrow> color \<Rightarrow> color" where
  "set_rgb v c = c\<lparr>col_rgb := Some (fromObject (RgbObject (Some (c_r v)) (Some (c_g v)) (Some (c_b v)) (Some (c_a v))))\<rparr>"

definition mix :: "color \<Rightarrow> color \<Rightarrow> jsnum option \<Rightarrow> color option" where
  "mix me other weight =
     (case (color_rgb me, color_rgb other) of
        (Some c1, Some c2) \<Rightarrow>
          (let p = (case weight of None \<Rightarrow> Fin (1 / 2) | Some w \<Rightarrow> w);
               w = Fin 2 * p - Fin 1;
               a = c_a c1 - c_a c2;
               w1 = ((if num_eq (w * a) (Fin (- 1)) then w else (w + a) / (Fin 1 + w * a)) + Fin 1) / Fin 2;
               w2 = Fin 1 - w1;
               f = (\<lambda>x y. byte_of (w1 * x + w2 * y + Fin (1 / 2)))
           in Some (set_rgb \<lparr>c_r = f (c_r c1) (c_r c2), c_g = f (c_g c1) (c_g c2), c_b = f (c_b c1) (c_b c2),
                             c_a = p * c_a c1 + (Fin 1 - p) * c_a c2\<rparr> me))
      | _ \<Rightarrow> None)"

definition upd_rgb :: "(rgba \<Rightarrow> rgba) \<Rightarrow> color \<Rightarrow> color option" where
  "upd_rgb f c = (case col_rgb c of None \<Rightarrow> None | Some v \<Rightarrow> Some (c\<lparr>col_rgb := Some (f v)\<rparr>))"

definition color_alpha :: "jsnum \<Rightarrow> color \<Rightarrow> color option" where
  "color_alpha a = upd_rgb (\<lambda>v. v\<lparr>c_a := n2b a\<rparr>)"

definition clearer :: "jsnum \<Rightarrow> color \<Rightarrow> color option" where
  "clearer ratio = upd_rgb (\<lambda>v. v\<lparr>c_a := c_a v * (Fin 1 - ratio)\<rparr>)"

definition greyscale :: "color \<Rightarrow> color option" where
  "greyscale = upd_rgb (\<lambda>v.
     let x = round_num (c_r v * Fin (3 / 10) + c_g v * Fin (59 / 100) + c_b v * Fin (11 / 100))
     in v\<lparr>c_r := x, c_g := x, c_b := x\<rparr>)"

definition opaquer :: "jsnum \<Rightarrow> color \<Rightarrow> color option" where
  "opaquer ratio = upd_rgb (\<lambda>v. v\<lparr>c_a := c_a v * (Fin 1 + ratio)\<rparr>)"

definition negate :: "color \<Rightarrow> color option" where
  "negate = upd_rgb (\<lambda>v. v\<lparr>c_r := Fin 255 - c_r v, c_g := Fin 255 - c_g v, c_b := Fin 255 - c_b v\<rparr>)"

text \<open>The operations through \<open>modHSL\<close> leave an invalid colour alone.\<close>

definition mod_color :: "nat \<Rightarrow> jsnum \<Rightarrow> color \<Rightarrow> color" where
  "mod_color i ratio c = (case col_rgb c of None \<Rightarrow> c | Some v \<Rightarrow> c\<lparr>col_rgb := Some (modHSL v i ratio)\<rparr>)"

definition lighten :: "jsnum \<Rightarrow> color \<Rightarrow> color" where "lighten ratio = mod_color 2 ratio"
definition darken :: "jsnum \<Rightarrow> color \<Rightarrow> color" where "darken ratio = mod_color 2 (- ratio)"
definition saturate :: "jsnum \<Rightarrow> color \<Rightarrow> color" where "saturate ratio = mod_color 1 ratio"
definition desaturate :: "jsnum \<Rightarrow> color \<Rightarrow> color" where "desaturate ratio = mod_color 1 (- ratio)"

definition rotate_op :: "jsnum \<Rightarrow> color \<Rightarrow> color option" where
  "rotate_op deg = upd_rgb (\<lambda>v. rotate_color v deg)"

definition color_hexString :: "color \<Rightarrow> string option" where
  "color_hexString c = (if col_valid c then map_option hexString (col_rgb c) else None)"

definition getHoverColor :: "color_input \<Rightarrow> string option" where
  "getHoverColor value = color_hexString (darken (Fin (1 / 10)) (saturate (Fin (1 / 2)) (new_color value)))"

section \<open>Bytes\<close>

definition is_byte :: "jsnum \<Rightarrow> bool" where
  "is_byte x \<longleftrightarrow> (\<exists>n < 256. x = Fin (real n))"

definition byte_color :: "rgba \<Rightarrow> bool" where
  "byte_color v \<longleftrightarrow> is_byte (c_r v) \<and> is_byte (c_g v) \<and> is_byte (c_b v)"

lemma is_byteI: "0 \<le> i \<Longrightarrow> i < 256 \<Longrightarrow> is_byte (Fin (of_int i))"
  unfolding is_byte_def by (rule exI [of _ "nat i"]) simp

lemma and255: "255 AND i = i mod (256 :: int)"
  using take_bit_eq_mask [of 8 i] by (simp add: mask_eq_exp_minus_1 take_bit_eq_mod and.commute)

lemma and255': "i AND 255 = i mod (256 :: int)"
  using and255 [of i] by (simp add: and.commute)

lemma byte_of_is_byte [simp]: "is_byte (byte_of x)"
  unfolding byte_of_def by (rule is_byteI) (simp_all add: and255)

lemma toInt32_nat [simp]: "n < 256 \<Longrightarrow> toInt32 (Fin (real n)) = int n"
  using toInt32_small [of "real n"] trunc_real_of_int [of "int n"] by simp

lemma nibble_table:
  "list_all (\<lambda>n. int n AND 15 = int (n mod 16) \<and> drop_bit 4 (int n) AND 15 = int (n div 16)) [0..<256]"
  by code_simp

lemma nibbles: "n < 256 \<Longrightarrow> int n AND 15 = int (n mod 16) \<and> drop_bit 4 (int n) AND 15 = int (n div 16)"
  using nibble_table by (simp add: list_all_iff)

lemma digit_table: "list_all (\<lambda>k. hex_val (hex_digits ! k) = Some k) [0..<16]"
  by code_simp

lemma hex_val_digit: "k < 16 \<Longrightarrow> hex_val (hex_digits ! k) = Some k"
  using digit_table by (simp add: list_all_iff)

lemma pair_table:
  "list_all (\<lambda>h. list_all (\<lambda>l. push_bit 4 (int h) OR int l = int (16 * h + l)) [0..<16]) [0..<16]"
  by code_simp

lemma pair_val: "h < 16 \<Longrightarrow> l < 16 \<Longrightarrow> push_bit 4 (int h) OR int l = int (16 * h + l)"
  using pair_table by (simp add: list_all_iff)

lemma hex_val_range: "hex_val c = Some n \<Longrightarrow> n < 16"
  by (auto simp: hex_val_def split: if_splits)

lemma hex_pair_is_byte [simp]: "is_byte (hex_pair c d)"
proof -
  have "\<exists>n < 16. hex_bits e = int n" for e
    by (auto simp: hex_bits_def split: option.split dest: hex_val_range)
  then obtain h l where "h < 16" "hex_bits c = int h" "l < 16" "hex_bits d = int l" by blast
  moreover from this have "is_byte (Fin (of_int (int (16 * h + l))))" by (intro is_byteI) simp_all
  ultimately show ?thesis by (simp only: hex_pair_def pair_val)
qed

text \<open>A byte printed with two digits, and with one when its digits agree, reads back.\<close>

lemma h2_byte: "n < 256 \<Longrightarrow> h2 (Fin (real n)) = [hex_digits ! (n div 16), hex_digits ! (n mod 16)]"
  by (simp add: h2_def nibbles)

lemma h1_byte: "n < 256 \<Longrightarrow> h1 (Fin (real n)) = [hex_digits ! (n mod 16)]"
  by (simp add: h1_def nibbles)

lemma eq_nibbles_byte: "n < 256 \<Longrightarrow> eq_nibbles (Fin (real n)) \<longleftrightarrow> n div 16 = n mod 16"
  by (simp add: eq_nibbles_def nibbles)

lemma hex_pair_digits: "n < 256 \<Longrightarrow> hex_pair (hex_digits ! (n div 16)) (hex_digits ! (n mod 16)) = Fin (real n)"
  by (simp add: hex_pair_def hex_bits_def hex_val_digit pair_val)

lemma hex_num_digit:
  assumes "n < 256" and "n div 16 = n mod 16"
  shows "hex_num (hex_digits ! (n mod 16)) * Fin 17 = Fin (real n)"
proof -
  have "n mod 16 * 17 = n" using assms div_mult_mod_eq [of n 16] by simp
  then have "real (n mod 16) * 17 = real n" by (metis of_nat_mult of_nat_numeral)
  then show ?thesis by (simp add: hex_num_def hex_val_digit)
qed

lemma byte_of_byte: "n < 256 \<Longrightarrow> byte_of (Fin (real n)) = Fin (real n)"
  by (simp add: byte_of_def and255)

section \<open>Ranges\<close>

lemma lim_int: "lim (Fin (of_int i)) (Fin 0) (Fin (of_int m)) = Fin (of_int (max (min i m) 0))"
  by (simp add: lim_def)

lemma p2b_is_byte [simp]: "is_byte (p2b v)"
  using lim_int [of "toInt32 (v * Fin (255 / 100) + Fin (1 / 2))" 255]
  by (simp only: p2b_def round_num_def of_int_numeral) (rule is_byteI; simp)

lemma n2b_is_byte [simp]: "is_byte (n2b v)"
  using lim_int [of "toInt32 (v * Fin 255 + Fin (1 / 2))" 255]
  by (simp only: n2b_def round_num_def of_int_numeral) (rule is_byteI; simp)

lemma calln_bytes: "calln t = (r, g, b) \<Longrightarrow> is_byte r \<and> is_byte g \<and> is_byte b"
  by (auto simp: calln_def split: prod.splits)

lemma hexParse_bytes: "hexParse str = Some v \<Longrightarrow> byte_color v"
  by (auto simp: hexParse_def byte_color_def Let_def split: list.splits if_splits)

lemma unpack_rgb_bytes: "list_all (\<lambda>i. 0 \<le> i \<and> i < 256) (unpack_rgb code) \<and> length (unpack_rgb code) = 3"
  by (simp add: unpack_rgb_def Let_def and255')

lemma nameParse_bytes: "nameParse str = Some v \<Longrightarrow> byte_color v \<and> is_byte (c_a v)"
proof -
  assume "nameParse str = Some v"
  then obtain a where a: "map_of ((''transparent'', [0, 0, 0, 0]) # rev unpack) (map to_lower str) = Some a"
    and v: "v = \<lparr>c_r = Fin (of_int (a ! 0)), c_g = Fin (of_int (a ! 1)), c_b = Fin (of_int (a ! 2)),
                c_a = (if length a = 4 then Fin (of_int (a ! 3)) else Fin 255)\<rparr>"
    by (auto simp: nameParse_def split: option.splits)
  from map_of_SomeD [OF a] have "a = [0, 0, 0, 0] \<or> (\<exists>code. a = unpack_rgb code)"
    by (auto simp: unpack_def)
  then have "list_all (\<lambda>i. 0 \<le> i \<and> i < 256) a \<and> (length a = 3 \<or> length a = 4)"
    using unpack_rgb_bytes by auto
  then have "\<forall>i < length a. is_byte (Fin (of_int (a ! i)))" and "length a = 3 \<or> length a = 4"
    by (auto simp: list_all_length intro: is_byteI)
  moreover have "is_byte (Fin 255)" using is_byteI [of 255] by simp
  ultimately show ?thesis by (auto simp: v byte_color_def)
qed

lemma rgbParse_bytes: "rgbParse str = Some v \<Longrightarrow> byte_color v"
  by (auto simp: rgbParse_def byte_color_def channel_def split: option.splits)

lemma hueParse_bytes:
  assumes "hueParse str = Some v"
  shows "byte_color v"
proof -
  from assms obtain kind hs s1 s2 alpha where m: "HUE_RE str = Some (kind, hs, s1, s2, alpha)"
    by (auto simp: hueParse_def split: option.splits)
  define t where "t = (if kind = ''hwb'' then hwb2rgb (hue (to_number hs)) (to_number s1 / Fin 100) (to_number s2 / Fin 100)
      else if kind = ''hsv'' then hsv2rgb (hue (to_number hs)) (to_number s1 / Fin 100) (to_number s2 / Fin 100)
      else hsl2rgb (hue (to_number hs)) (to_number s1 / Fin 100) (to_number s2 / Fin 100))"
  obtain r g b where t: "t = (r, g, b)" by (metis prod_cases3)
  then have "\<exists>u. calln u = (r, g, b)" unfolding t_def hwb2rgb_def hsv2rgb_def hsl2rgb_def by metis
  then have "is_byte r \<and> is_byte g \<and> is_byte b" by (auto dest: calln_bytes)
  moreover have "c_r v = r \<and> c_g v = g \<and> c_b v = b"
    using assms t unfolding t_def by (auto simp: hueParse_def m Let_def split: prod.splits)
  ultimately show ?thesis by (simp add: byte_color_def)
qed

lemma mix_frac_id:
  assumes "n < 256"
  shows "byte_of (Fin (real n + 1 / 2)) = Fin (real n)"
proof -
  have "\<lfloor>real n + 1 / 2\<rfloor> = int n" by (simp add: floor_eq_iff)
  then have "trunc_real (real n + 1 / 2) = int n" by (simp add: trunc_real_def)
  then have "toInt32 (Fin (real n + 1 / 2)) = int n" using assms by (subst toInt32_small) simp_all
  then show ?thesis using assms by (simp add: byte_of_def and255)
qed

lemma b2n_opaque: "b2n (Fin 255) = Fin 1"
proof -
  have "toInt32 (Fin (100 + 1 / 2)) = 100"
  proof -
    have "\<lfloor>100 + 1 / 2 :: real\<rfloor> = 100" by (simp add: floor_eq_iff)
    then show ?thesis by (subst toInt32_small) (simp_all add: trunc_real_def)
  qed
  then show ?thesis by (simp add: b2n_def round_num_def lim_def)
qed

lemma n2b_one: "n2b (Fin 1) = Fin 255"
proof -
  have "\<lfloor>255 + 1 / 2 :: real\<rfloor> = 255" by (simp add: floor_eq_iff)
  then have "toInt32 (Fin (255 + 1 / 2)) = 255" by (subst toInt32_small) (simp_all add: trunc_real_def)
  then show ?thesis by (simp add: n2b_def round_num_def lim_def)
qed

section \<open>Properties\<close>

text \<open>
  Hexadecimal round trip. Every colour of four bytes is parsed back from what
  \<open>hexString\<close> prints, in the short form with one digit for each component and in the
  long form, with and without the alpha digits.
\<close>

theorem hex_roundtrip:
  assumes "byte_color v" and "is_byte (c_a v)"
  shows "hexParse (hexString v) = Some v"
proof -
  from assms obtain r g b a where n: "r < 256" "g < 256" "b < 256" "a < 256"
    and v: "v = \<lparr>c_r = Fin (real r), c_g = Fin (real g), c_b = Fin (real b), c_a = Fin (real a)\<rparr>"
    by (cases v) (auto simp: byte_color_def is_byte_def)
  have full: "a = 255" if "\<not> a < 255" using that n by simp
  show ?thesis
  proof (cases "isShort v")
    case True
    then have "r div 16 = r mod 16" "g div 16 = g mod 16" "b div 16 = b mod 16" "a div 16 = a mod 16"
      using n by (simp_all add: isShort_def v eq_nibbles_byte)
    with True n full show ?thesis
      by (auto simp: hexString_def v h1_byte hexParse_def hex_num_digit byte_of_byte Let_def)
  next
    case False
    with n full show ?thesis
      by (auto simp: hexString_def v h2_byte hexParse_def hex_pair_digits Let_def)
  qed
qed

theorem hex_roundtrip_witness:
  "hexParse (hexString \<lparr>c_r = Fin 255, c_g = Fin 128, c_b = Fin 0, c_a = Fin 64\<rparr>)
     = Some \<lparr>c_r = Fin 255, c_g = Fin 128, c_b = Fin 0, c_a = Fin 64\<rparr>"
proof (rule hex_roundtrip)
  have "is_byte (Fin (of_int i))" if "i \<in> {0, 64, 128, 255}" for i
    using that by (intro is_byteI) auto
  from this [of 0] this [of 64] this [of 128] this [of 255]
  show "byte_color \<lparr>c_r = Fin 255, c_g = Fin 128, c_b = Fin 0, c_a = Fin 64\<rparr>"
    and "is_byte (c_a \<lparr>c_r = Fin 255, c_g = Fin 128, c_b = Fin 0, c_a = Fin 64\<rparr>)"
    by (simp_all add: byte_color_def)
qed

text \<open>
  Parsed colours are bytes. Whatever string is parsed, in whatever notation and with
  whatever numbers in it, a valid colour has whole red, green and blue components from 0 to
  255.
\<close>

theorem parsed_color_bytes:
  assumes "col_rgb (new_color (ColorString str)) = Some v"
  shows "is_byte (c_r v) \<and> is_byte (c_g v) \<and> is_byte (c_b v)"
proof -
  from assms have "hexParse str = Some v \<or> nameParse str = Some v \<or> rgbParse str = Some v \<or> hueParse str = Some v"
    by (auto simp: new_color_def color_parse_def functionParse_def Let_def split: option.splits list.splits if_splits)
  then have "byte_color v"
    using hexParse_bytes nameParse_bytes rgbParse_bytes hueParse_bytes by blast
  then show ?thesis by (simp add: byte_color_def)
qed

theorem parsed_color_bytes_witness:
  "\<exists>v. col_rgb (new_color (ColorString ''#ff8000'')) = Some v \<and> is_byte (c_r v)"
proof -
  obtain v where "hexParse ''#ff8000'' = Some v" by (auto simp: hexParse_def)
  then have "col_rgb (new_color (ColorString ''#ff8000'')) = Some v"
    by (simp add: new_color_def color_parse_def)
  with parsed_color_bytes [OF this] show ?thesis by blast
qed

text \<open>
  Ends of a colour transition. Mixing two opaque colours with weight 1 gives the first
  and with weight 0 the second, exactly: an animated colour starts and ends at its two
  given colours.
\<close>

theorem mix_ends:
  assumes "byte_color v" and "byte_color w" and "c_a v = Fin 255" and "c_a w = Fin 255"
  shows "mix \<lparr>col_rgb = Some v, col_valid = True\<rparr> \<lparr>col_rgb = Some w, col_valid = True\<rparr> (Some (Fin 1))
      = Some \<lparr>col_rgb = Some v, col_valid = True\<rparr> \<and>
    mix \<lparr>col_rgb = Some v, col_valid = True\<rparr> \<lparr>col_rgb = Some w, col_valid = True\<rparr> (Some (Fin 0))
      = Some \<lparr>col_rgb = Some w, col_valid = True\<rparr>"
proof -
  from assms obtain r g b r' g' b' where n: "r < 256" "g < 256" "b < 256" "r' < 256" "g' < 256" "b' < 256"
    and v: "v = \<lparr>c_r = Fin (real r), c_g = Fin (real g), c_b = Fin (real b), c_a = Fin 255\<rparr>"
    and w: "w = \<lparr>c_r = Fin (real r'), c_g = Fin (real g'), c_b = Fin (real b'), c_a = Fin 255\<rparr>"
    by (cases v; cases w) (auto simp: byte_color_def is_byte_def)
  show ?thesis
    using n by (simp add: mix_def v w color_rgb_def set_rgb_def b2n_opaque n2b_one mix_frac_id Let_def)
qed

theorem mix_ends_witness:
  "mix \<lparr>col_rgb = Some \<lparr>c_r = Fin 0, c_g = Fin 0, c_b = Fin 0, c_a = Fin 255\<rparr>, col_valid = True\<rparr>
       \<lparr>col_rgb = Some \<lparr>c_r = Fin 0, c_g = Fin 0, c_b = Fin 0, c_a = Fin 255\<rparr>, col_valid = True\<rparr> (Some (Fin 1))
     = Some \<lparr>col_rgb = Some \<lparr>c_r = Fin 0, c_g = Fin 0, c_b = Fin 0, c_a = Fin 255\<rparr>, col_valid = True\<rparr>"
proof -
  let ?v = "\<lparr>c_r = Fin 0, c_g = Fin 0, c_b = Fin 0, c_a = Fin 255\<rparr>"
  have "byte_color ?v" using is_byteI [of 0] by (simp add: byte_color_def)
  from mix_ends [OF this this] show ?thesis by simp
qed

lemma names_unpacked:
  "list_all (\<lambda>(k, c). list_all (\<lambda>ch. 97 \<le> (of_char ch :: nat) \<and> (of_char ch :: nat) \<le> 122) (unpack_name k)) names"
  by code_simp

lemma names_distinct: "distinct (map (\<lambda>(k, c). unpack_name k) names) \<and> length names = 148"
  by code_simp

lemma to_lower_idem: "to_lower (to_lower c) = to_lower c"
proof (cases "65 \<le> (of_char c :: nat) \<and> (of_char c :: nat) \<le> 90")
  case True
  then have "of_char (to_lower c) = (of_char c :: nat) + 32" by (simp add: to_lower_def)
  then show ?thesis using True by (simp add: to_lower_def [of "to_lower c"])
qed (auto simp: to_lower_def Let_def)

text \<open>
  Named colours. The compressed table unpacks to 148 different names made of lower case
  letters only, so no fragment mark is left in a name and no name hides another, and looking
  up a colour name does not depend on the case of its letters.
\<close>

theorem named_colors:
  "length unpack = 148 \<and> distinct (map fst unpack) \<and>
   (\<forall>(name, rgb) \<in> set unpack. (\<forall>ch \<in> set name. 97 \<le> (of_char ch :: nat) \<and> (of_char ch :: nat) \<le> 122)
      \<and> length rgb = 3 \<and> (\<forall>i \<in> set rgb. 0 \<le> i \<and> i < 256)) \<and>
   nameParse (map to_lower str) = nameParse str"
proof (intro conjI)
  show "length unpack = 148" using names_distinct by (simp add: unpack_def)
  have "map fst unpack = map (\<lambda>(k, c). unpack_name k) names" by (auto simp: unpack_def)
  then show "distinct (map fst unpack)" using names_distinct by simp
  show "\<forall>(name, rgb) \<in> set unpack. (\<forall>ch \<in> set name. 97 \<le> (of_char ch :: nat) \<and> (of_char ch :: nat) \<le> 122)
      \<and> length rgb = 3 \<and> (\<forall>i \<in> set rgb. 0 \<le> i \<and> i < 256)"
    using names_unpacked unpack_rgb_bytes by (fastforce simp: unpack_def list_all_iff)
  have "map to_lower (map to_lower str) = map to_lower str" by (simp add: to_lower_idem)
  then show "nameParse (map to_lower str) = nameParse str" by (simp only: nameParse_def)
qed

theorem named_colors_witness: "length (snd (hd unpack)) = 3 \<and> nameParse ''red'' = nameParse (map to_lower ''red'')"
proof -
  have "unpack \<noteq> []" using named_colors [of "''red''"] by auto
  then have "hd unpack \<in> set unpack" by simp
  moreover obtain name rgb where hd: "hd unpack = (name, rgb)" by (cases "hd unpack")
  ultimately have "(name, rgb) \<in> set unpack" by simp
  then have "length (snd (hd unpack)) = 3" using named_colors [of "''red''"] by (auto simp: hd)
  moreover have "nameParse ''red'' = nameParse (map to_lower ''red'')" using named_colors [of "''red''"] by metis
  ultimately show ?thesis by blast
qed

text \<open>
  Hue. The hue of any finite angle lies from 0 to below 360 degrees.
\<close>

theorem hue_range: "\<exists>r. hue (Fin h) = Fin r \<and> 0 \<le> r \<and> r < 360"
proof -
  have "0 \<le> real_rem h 360 + 360"
    using real_rem_bounds [of h 360] real_rem_neg_bounds [of h 360] by (cases "0 \<le> h") simp_all
  then show ?thesis using real_rem_bounds [of "real_rem h 360 + 360" 360] by (simp add: hue_def)
qed

end
