(* ===== verification/Easing.thy ===== *)
theory Easing
  imports Math_Helpers
begin

text \<open>
  Easing effects, interpolation between points and the adapters for the text direction
  (\<open>effects\<close> to \<open>getRtlAdapter\<close> in \<^verbatim>\<open>chart.js\<close>). An assignment inside an
  expression, such as \<open>t -= 1\<close>, is a \<open>let\<close>.
\<close>

section \<open>Effects\<close>

definition atEdge :: "real \<Rightarrow> bool" where
  "atEdge t \<longleftrightarrow> t = 0 \<or> t = 1"

definition elasticIn :: "real \<Rightarrow> real \<Rightarrow> real \<Rightarrow> real" where
  "elasticIn t s p = (let t1 = t - 1 in - ((2 powr (10 * t1)) * sin ((t1 - s) * TAU / p)))"

definition elasticOut :: "real \<Rightarrow> real \<Rightarrow> real \<Rightarrow> real" where
  "elasticOut t s p = 2 powr (- 10 * t) * sin ((t - s) * TAU / p) + 1"

definition easeOutBounce :: "real \<Rightarrow> real" where
  "easeOutBounce t =
     (let m = 75625 / 10000; d = 275 / 100 in
      if t < 1 / d then m * t * t
      else if t < 2 / d then (let t1 = t - 15 / 10 / d in m * t1 * t1 + 75 / 100)
      else if t < 25 / 10 / d then (let t1 = t - 225 / 100 / d in m * t1 * t1 + 9375 / 10000)
      else (let t1 = t - 2625 / 1000 / d in m * t1 * t1 + 984375 / 1000000))"

definition easeInBounce :: "real \<Rightarrow> real" where
  "easeInBounce t = 1 - easeOutBounce (1 - t)"

definition effects :: "(string \<times> (real \<Rightarrow> real)) list" where
  "effects =
    [(''linear'', \<lambda>t. t),
     (''easeInQuad'', \<lambda>t. t * t),
     (''easeOutQuad'', \<lambda>t. - t * (t - 2)),
     (''easeInOutQuad'', \<lambda>t0. let t = t0 / (1 / 2) in
        if t < 1 then 1 / 2 * t * t else (let u = t - 1 in - (1 / 2) * (u * (u - 2) - 1))),
     (''easeInCubic'', \<lambda>t. t * t * t),
     (''easeOutCubic'', \<lambda>t. let u = t - 1 in u * u * u + 1),
     (''easeInOutCubic'', \<lambda>t0. let t = t0 / (1 / 2) in
        if t < 1 then 1 / 2 * t * t * t else (let u = t - 2 in 1 / 2 * (u * u * u + 2))),
     (''easeInQuart'', \<lambda>t. t * t * t * t),
     (''easeOutQuart'', \<lambda>t. let u = t - 1 in - (u * u * u * u - 1)),
     (''easeInOutQuart'', \<lambda>t0. let t = t0 / (1 / 2) in
        if t < 1 then 1 / 2 * t * t * t * t else (let u = t - 2 in - (1 / 2) * (u * u * u * u - 2))),
     (''easeInQuint'', \<lambda>t. t * t * t * t * t),
     (''easeOutQuint'', \<lambda>t. let u = t - 1 in u * u * u * u * u + 1),
     (''easeInOutQuint'', \<lambda>t0. let t = t0 / (1 / 2) in
        if t < 1 then 1 / 2 * t * t * t * t * t else (let u = t - 2 in 1 / 2 * (u * u * u * u * u + 2))),
     (''easeInSine'', \<lambda>t. - cos (t * (pi / 2)) + 1),
     (''easeOutSine'', \<lambda>t. sin (t * (pi / 2))),
     (''easeInOutSine'', \<lambda>t. - (1 / 2) * (cos (pi * t) - 1)),
     (''easeInExpo'', \<lambda>t. if t = 0 then 0 else 2 powr (10 * (t - 1))),
     (''easeOutExpo'', \<lambda>t. if t = 1 then 1 else - (2 powr (- 10 * t)) + 1),
     (''easeInOutExpo'', \<lambda>t. if atEdge t then t
        else if t < 1 / 2 then 1 / 2 * 2 powr (10 * (t * 2 - 1))
        else 1 / 2 * (- (2 powr (- 10 * (t * 2 - 1))) + 2)),
     (''easeInCirc'', \<lambda>t. if t \<ge> 1 then t else - (sqrt (1 - t * t) - 1)),
     (''easeOutCirc'', \<lambda>t. let u = t - 1 in sqrt (1 - u * u)),
     (''easeInOutCirc'', \<lambda>t0. let t = t0 / (1 / 2) in
        if t < 1 then - (1 / 2) * (sqrt (1 - t * t) - 1)
        else (let u = t - 2 in 1 / 2 * (sqrt (1 - u * u) + 1))),
     (''easeInElastic'', \<lambda>t. if atEdge t then t else elasticIn t (75 / 1000) (3 / 10)),
     (''easeOutElastic'', \<lambda>t. if atEdge t then t else elasticOut t (75 / 1000) (3 / 10)),
     (''easeInOutElastic'', \<lambda>t. let s = 1125 / 10000; p = 45 / 100 in
        if atEdge t then t
        else if t < 1 / 2 then 1 / 2 * elasticIn (t * 2) s p
        else 1 / 2 + 1 / 2 * elasticOut (t * 2 - 1) s p),
     (''easeInBack'', \<lambda>t. let s = 170158 / 100000 in t * t * ((s + 1) * t - s)),
     (''easeOutBack'', \<lambda>t. let s = 170158 / 100000; u = t - 1 in u * u * ((s + 1) * u + s) + 1),
     (''easeInOutBack'', \<lambda>t0. let t = t0 / (1 / 2); s = 170158 / 100000 * (1525 / 1000) in
        if t < 1 then 1 / 2 * (t * t * ((s + 1) * t - s))
        else (let u = t - 2 in 1 / 2 * (u * u * ((s + 1) * u + s) + 2))),
     (''easeInBounce'', easeInBounce),
     (''easeOutBounce'', easeOutBounce),
     (''easeInOutBounce'', \<lambda>t. if t < 1 / 2 then easeInBounce (t * 2) * (1 / 2)
        else easeOutBounce (t * 2 - 1) * (1 / 2) + 1 / 2)]"

section \<open>Interpolation between points\<close>

type_synonym xy = "real \<times> real"

record curve_point =
  cp_x :: real
  cp_y :: real
  cp1 :: xy
  cp2 :: xy

definition pointInLine :: "xy \<Rightarrow> xy \<Rightarrow> real \<Rightarrow> xy" where
  "pointInLine p1 p2 t = (fst p1 + t * (fst p2 - fst p1), snd p1 + t * (snd p2 - snd p1))"

definition steppedInterpolation :: "xy \<Rightarrow> xy \<Rightarrow> real \<Rightarrow> string \<Rightarrow> xy" where
  "steppedInterpolation p1 p2 t mode =
     (fst p1 + t * (fst p2 - fst p1),
      if mode = ''middle'' then (if t < 1 / 2 then snd p1 else snd p2)
      else if mode = ''after'' then (if t < 1 then snd p1 else snd p2)
      else if t > 0 then snd p2 else snd p1)"

definition bezierInterpolation :: "curve_point \<Rightarrow> curve_point \<Rightarrow> real \<Rightarrow> xy" where
  "bezierInterpolation q1 q2 t =
     (let p1 = (cp_x q1, cp_y q1); p2 = (cp_x q2, cp_y q2);
          c1 = cp2 q1; c2 = cp1 q2;
          a = pointInLine p1 c1 t;
          b = pointInLine c1 c2 t;
          c = pointInLine c2 p2 t;
          d = pointInLine a b t;
          e = pointInLine b c t
      in pointInLine d e t)"

section \<open>Text direction\<close>

text \<open>The state of an adapter is the pair of the left edge and the width it mirrors in.\<close>

datatype rtl_adapter = Rtl real real | Ltr

definition getRtlAdapter :: "bool \<Rightarrow> real \<Rightarrow> real \<Rightarrow> rtl_adapter" where
  "getRtlAdapter rtl rectX width = (if rtl then Rtl rectX width else Ltr)"

fun rtl_x :: "rtl_adapter \<Rightarrow> real \<Rightarrow> real" where
  "rtl_x (Rtl rectX width) v = rectX + rectX + width - v"
| "rtl_x Ltr v = v"

fun rtl_setWidth :: "rtl_adapter \<Rightarrow> real \<Rightarrow> rtl_adapter" where
  "rtl_setWidth (Rtl rectX width) w = Rtl rectX w"
| "rtl_setWidth Ltr w = Ltr"

fun rtl_textAlign :: "rtl_adapter \<Rightarrow> string \<Rightarrow> string" where
  "rtl_textAlign (Rtl rectX width) align =
     (if align = ''center'' then align else if align = ''right'' then ''left'' else ''right'')"
| "rtl_textAlign Ltr align = align"

fun rtl_xPlus :: "rtl_adapter \<Rightarrow> real \<Rightarrow> real \<Rightarrow> real" where
  "rtl_xPlus (Rtl rectX width) v d = v - d"
| "rtl_xPlus Ltr v d = v + d"

fun rtl_leftForLtr :: "rtl_adapter \<Rightarrow> real \<Rightarrow> real \<Rightarrow> real" where
  "rtl_leftForLtr (Rtl rectX width) v itemWidth = v - itemWidth"
| "rtl_leftForLtr Ltr v itemWidth = v"

section \<open>Properties\<close>

lemma bounce_ends: "easeOutBounce 0 = 0" "easeOutBounce 1 = 1" "easeInBounce 0 = 0" "easeInBounce 1 = 1"
  by (simp_all add: easeOutBounce_def easeInBounce_def Let_def)

text \<open>
  Effects keep the ends. Every easing effect maps 0 to 0 and 1 to 1, so an animation
  starts at its first value and ends at its last whatever effect it uses.
\<close>

theorem effects_ends: "list_all (\<lambda>(name, f). f 0 = 0 \<and> f 1 = 1) effects"
  by (simp add: effects_def Let_def atEdge_def bounce_ends)

lemma square_bounds:
  fixes u a :: real
  assumes "- a \<le> u" and "u \<le> a"
  shows "u * u \<le> a * a"
proof -
  have "\<bar>u\<bar> \<le> \<bar>a\<bar>" using assms by simp
  then have "\<bar>u\<bar> * \<bar>u\<bar> \<le> \<bar>a\<bar> * \<bar>a\<bar>" by (intro mult_mono) simp_all
  then show ?thesis by simp
qed

lemma bounce_piece:
  fixes u w a b c :: real
  assumes "- b \<le> u" and "u \<le> b" and "c + 75625 / 10000 * (b * b) \<le> 1" and "0 \<le> c"
  shows "0 \<le> 75625 / 10000 * u * u + c \<and> 75625 / 10000 * u * u + c \<le> 1"
proof -
  have "u * u \<le> b * b" by (rule square_bounds [OF assms(1,2)])
  then have "75625 / 10000 * u * u \<le> 75625 / 10000 * (b * b)" by simp
  moreover have "0 \<le> u * u" by simp
  ultimately show ?thesis using assms by simp
qed

text \<open>
  Bouncing stays in range. Over the whole course the bouncing effect stays between 0
  and 1, in each of its four pieces.
\<close>

theorem easeOutBounce_range:
  assumes "0 \<le> t" and "t \<le> 1"
  shows "0 \<le> easeOutBounce t \<and> easeOutBounce t \<le> 1 \<and> 0 \<le> easeInBounce t \<and> easeInBounce t \<le> 1"
proof -
  have range: "0 \<le> easeOutBounce u \<and> easeOutBounce u \<le> 1" if "0 \<le> u" "u \<le> 1" for u
    using that bounce_piece [of "4 / 11" u 0] bounce_piece [of "2 / 11" "u - 6 / 11" "75 / 100"]
      bounce_piece [of "1 / 11" "u - 9 / 11" "9375 / 10000"]
      bounce_piece [of "1 / 22" "u - 21 / 22" "984375 / 1000000"]
    by (simp add: easeOutBounce_def Let_def)
  show ?thesis using range [of t] range [of "1 - t"] assms by (simp add: easeInBounce_def)
qed

theorem easeOutBounce_range_witness: "0 \<le> easeOutBounce (1 / 2) \<and> easeOutBounce (1 / 2) \<le> 1"
  using easeOutBounce_range [of "1 / 2"] by simp

text \<open>
  Curves join their points. Linear, stepped and cubic interpolation pass through the
  first point at 0 and the second at 1, so consecutive pieces of a line meet.
\<close>

theorem interpolation_ends:
  "pointInLine p q 0 = p \<and> pointInLine p q 1 = q \<and>
   steppedInterpolation p q 0 mode = p \<and> steppedInterpolation p q 1 mode = q \<and>
   bezierInterpolation a b 0 = (cp_x a, cp_y a) \<and> bezierInterpolation a b 1 = (cp_x b, cp_y b)"
  by (cases p; cases q) (simp add: pointInLine_def steppedInterpolation_def bezierInterpolation_def Let_def)

text \<open>
  Mirrored items stay inside. The adapter for right-to-left text mirrors positions
  within its rectangle: mirroring twice gives the position back, and an item that lies
  inside the rectangle is drawn inside it, at the mirrored place.
\<close>

theorem rtl_mirror:
  assumes "rectX \<le> v" and "v + w \<le> rectX + width"
  shows "let a = getRtlAdapter rtl rectX width; left = rtl_leftForLtr a (rtl_x a v) w in
    rtl_x a (rtl_x a v) = v \<and> rectX \<le> left \<and> left + w \<le> rectX + width \<and>
    rtl_x a (rtl_xPlus a v d) = (if rtl then rtl_x a v + d else v + d)"
  using assms by (simp add: getRtlAdapter_def Let_def)

theorem rtl_mirror_witness: "rtl_leftForLtr (getRtlAdapter True 10 100) (rtl_x (getRtlAdapter True 10 100) 20) 30 = 70 \<and> (10 :: real) \<le> 70"
  using rtl_mirror [of 10 20 30 100 True 0] by (simp add: getRtlAdapter_def Let_def)

end
