(* ===== verification/Splines.thy ===== *)
theory Splines
  imports Canvas
begin

text \<open>
  The control points of curved lines (\<^verbatim>\<open>chart.js\<close>, \<open>EPSILON\<close> to
  \<open>_updateBezierControlPoints\<close>): cardinal splines, monotone splines and the capping to
  the chart area.

  The code writes the control points into the points; each operation here returns the
  updated list. The array \<open>mK\<close> has holes at skipped points, which nothing reads: they are 0.
  A quotient \<open>0 / 0\<close>, which the code turns from \<open>NaN\<close> into 0, is 0 here.
\<close>

section \<open>Points\<close>

type_synonym pt = "real \<times> real"

record spoint =
  sp_pos :: pt
  sp_skip :: bool
  sp_cp1 :: pt
  sp_cp2 :: pt

definition EPSILON :: real where "EPSILON = 1 / 2 ^ 52"

definition getPoint :: "spoint list \<Rightarrow> nat \<Rightarrow> spoint option" where
  "getPoint points i = (if i < length points \<and> \<not> sp_skip (points ! i) then Some (points ! i) else None)"

text \<open>
  \<open>getValueAxis\<close>: with the index axis \<open>x\<close> the value axis is \<open>y\<close>, otherwise \<open>x\<close>. A point
  is read and written through the pair of its index and value coordinates.
\<close>

definition to_axes :: "bool \<Rightarrow> pt \<Rightarrow> pt" where
  "to_axes index_x p = (if index_x then p else (snd p, fst p))"

definition idx :: "bool \<Rightarrow> spoint \<Rightarrow> real" where
  "idx ax p = fst (to_axes ax (sp_pos p))"

definition val :: "bool \<Rightarrow> spoint \<Rightarrow> real" where
  "val ax p = snd (to_axes ax (sp_pos p))"

section \<open>Cardinal splines\<close>

text \<open>The result is the pair of control points before and after the middle point.\<close>

definition splineCurve :: "spoint \<Rightarrow> spoint \<Rightarrow> spoint \<Rightarrow> real \<Rightarrow> pt \<times> pt" where
  "splineCurve firstPoint middlePoint afterPoint t =
     (let previous = (if sp_skip firstPoint then sp_pos middlePoint else sp_pos firstPoint);
          current = sp_pos middlePoint;
          follow = (if sp_skip afterPoint then sp_pos middlePoint else sp_pos afterPoint);
          d01 = distanceBetweenPoints current previous;
          d12 = distanceBetweenPoints follow current;
          s01 = d01 / (d01 + d12);
          s12 = d12 / (d01 + d12);
          fa = t * s01;
          fb = t * s12;
          dx = fst follow - fst previous;
          dy = snd follow - snd previous
      in ((fst current - fa * dx, snd current - fa * dy),
          (fst current + fb * dx, snd current + fb * dy)))"

section \<open>Monotone splines\<close>

definition monotone_deltas :: "bool \<Rightarrow> spoint list \<Rightarrow> real list" where
  "monotone_deltas ax points =
     map (\<lambda>i. case (getPoint points i, getPoint points (i + 1)) of
                (Some p, Some q) \<Rightarrow>
                  (let slopeDelta = idx ax q - idx ax p in
                   if slopeDelta \<noteq> 0 then (val ax q - val ax p) / slopeDelta else 0)
              | _ \<Rightarrow> 0)
       [0..<length points]"

definition before_point :: "spoint list \<Rightarrow> nat \<Rightarrow> spoint option" where
  "before_point points i = (if i = 0 then None else getPoint points (i - 1))"

definition monotone_slopes :: "spoint list \<Rightarrow> real list \<Rightarrow> real list" where
  "monotone_slopes points deltaK =
     map (\<lambda>i. case getPoint points i of
                None \<Rightarrow> 0
              | Some _ \<Rightarrow>
                  if before_point points i = None then deltaK ! i
                  else if getPoint points (i + 1) = None then deltaK ! (i - 1)
                  else if sgn (deltaK ! (i - 1)) \<noteq> sgn (deltaK ! i) then 0
                  else (deltaK ! (i - 1) + deltaK ! i) / 2)
       [0..<length points]"

definition adjust_step :: "spoint list \<Rightarrow> real list \<Rightarrow> nat \<Rightarrow> real list \<Rightarrow> real list" where
  "adjust_step points deltaK i mK =
     (if getPoint points i = None \<or> getPoint points (i + 1) = None then mK
      else if almostEquals (deltaK ! i) 0 EPSILON then mK[i := 0, i + 1 := 0]
      else
        let alphaK = mK ! i / deltaK ! i;
            betaK = mK ! (i + 1) / deltaK ! i;
            squaredMagnitude = alphaK ^ 2 + betaK ^ 2
        in if squaredMagnitude \<le> 9 then mK
           else
             let tauK = 3 / sqrt squaredMagnitude
             in mK[i := alphaK * tauK * deltaK ! i, i + 1 := betaK * tauK * deltaK ! i])"

definition monotoneAdjust :: "spoint list \<Rightarrow> real list \<Rightarrow> real list \<Rightarrow> real list" where
  "monotoneAdjust points deltaK mK =
     fold (adjust_step points deltaK) [0..<length points - 1] mK"

definition compute_point :: "bool \<Rightarrow> spoint list \<Rightarrow> real list \<Rightarrow> nat \<Rightarrow> spoint" where
  "compute_point ax points mK i =
     (case getPoint points i of
        None \<Rightarrow> points ! i
      | Some p \<Rightarrow>
          (let iPixel = idx ax p; vPixel = val ax p;
               p1 = (case before_point points i of
                       None \<Rightarrow> p
                     | Some b \<Rightarrow>
                         (let delta = (iPixel - idx ax b) / 3
                          in p\<lparr>sp_cp1 := to_axes ax (iPixel - delta, vPixel - delta * mK ! i)\<rparr>))
           in case getPoint points (i + 1) of
                None \<Rightarrow> p1
              | Some a \<Rightarrow>
                  (let delta = (idx ax a - iPixel) / 3
                   in p1\<lparr>sp_cp2 := to_axes ax (iPixel + delta, vPixel + delta * mK ! i)\<rparr>)))"

definition monotoneCompute :: "bool \<Rightarrow> spoint list \<Rightarrow> real list \<Rightarrow> spoint list" where
  "monotoneCompute ax points mK = map (compute_point ax points mK) [0..<length points]"

definition splineCurveMonotone :: "bool \<Rightarrow> spoint list \<Rightarrow> spoint list" where
  "splineCurveMonotone ax points =
     (let deltaK = monotone_deltas ax points;
          mK = monotone_slopes points deltaK
      in monotoneCompute ax points (monotoneAdjust points deltaK mK))"

section \<open>Capping and the update of all control points\<close>

definition capControlPoint :: "real \<Rightarrow> real \<Rightarrow> real \<Rightarrow> real" where
  "capControlPoint p lo hi = max (min p hi) lo"

definition cap_pt :: "rect_area \<Rightarrow> pt \<Rightarrow> pt" where
  "cap_pt a p =
     (capControlPoint (fst p) (ra_left a) (ra_right a), capControlPoint (snd p) (ra_top a) (ra_bottom a))"

definition in_area :: "rect_area \<Rightarrow> spoint list \<Rightarrow> nat \<Rightarrow> bool" where
  "in_area a points i \<longleftrightarrow> i < length points \<and> isPointInArea (Some (sp_pos (points ! i))) (Some a) None"

definition cap_point :: "rect_area \<Rightarrow> spoint list \<Rightarrow> nat \<Rightarrow> spoint" where
  "cap_point a points i =
     (let p = points ! i in
      if \<not> in_area a points i then p
      else
        let p1 = (if i > 0 \<and> in_area a points (i - 1) then p\<lparr>sp_cp1 := cap_pt a (sp_cp1 p)\<rparr> else p)
        in if in_area a points (i + 1) then p1\<lparr>sp_cp2 := cap_pt a (sp_cp2 p1)\<rparr> else p1)"

definition capBezierPoints :: "spoint list \<Rightarrow> rect_area \<Rightarrow> spoint list" where
  "capBezierPoints points a = map (cap_point a points) [0..<length points]"

definition cardinal_point :: "spoint list \<Rightarrow> bool \<Rightarrow> real \<Rightarrow> nat \<Rightarrow> spoint" where
  "cardinal_point points loop tension i =
     (let n = length points;
          prev = (if i = 0 then (if loop then points ! (n - 1) else points ! 0) else points ! (i - 1));
          follow = points ! (min (i + 1) (n - (if loop then 0 else 1)) mod n);
          (c1, c2) = splineCurve prev (points ! i) follow tension
      in (points ! i)\<lparr>sp_cp1 := c1, sp_cp2 := c2\<rparr>)"

record bezier_options =
  bo_spanGaps :: bool
  bo_monotone :: bool
  bo_tension :: real
  bo_cap :: bool

text \<open>
  With \<open>spanGaps\<close> the code filters the array of references first, so skipped points keep
  their control points: \<open>write_back\<close> puts the updated points into the places of the others.
\<close>

fun write_back :: "spoint list \<Rightarrow> spoint list \<Rightarrow> spoint list" where
  "write_back [] qs = []"
| "write_back (p # ps) qs =
     (if sp_skip p then p # write_back ps qs
      else case qs of [] \<Rightarrow> p # write_back ps [] | q # qs' \<Rightarrow> q # write_back ps qs')"

definition bezier_points ::
  "spoint list \<Rightarrow> bezier_options \<Rightarrow> rect_area \<Rightarrow> bool \<Rightarrow> bool \<Rightarrow> spoint list" where
  "bezier_points points opts a loop ax =
     (let curved = (if bo_monotone opts then splineCurveMonotone ax points
                    else map (cardinal_point points loop (bo_tension opts)) [0..<length points])
      in if bo_cap opts then capBezierPoints curved a else curved)"

definition updateBezierControlPoints ::
  "spoint list \<Rightarrow> bezier_options \<Rightarrow> rect_area \<Rightarrow> bool \<Rightarrow> bool \<Rightarrow> spoint list" where
  "updateBezierControlPoints points opts a loop ax =
     (if bo_spanGaps opts
      then write_back points (bezier_points (filter (\<lambda>p. \<not> sp_skip p) points) opts a loop ax)
      else bezier_points points opts a loop ax)"

section \<open>Monotone splines: lemmas\<close>

text \<open>
  What a pair of slopes at the ends of a segment must satisfy: nothing on a flat segment,
  otherwise the sign of the segment's own slope and the bound of Fritsch and Carlson.
\<close>

definition sign_ok :: "real \<Rightarrow> real \<Rightarrow> real \<Rightarrow> bool" where
  "sign_ok d a b \<longleftrightarrow> (EPSILON \<le> \<bar>d\<bar> \<longrightarrow> 0 \<le> a * d \<and> 0 \<le> b * d)"

definition seg_ok :: "real \<Rightarrow> real \<Rightarrow> real \<Rightarrow> bool" where
  "seg_ok d a b \<longleftrightarrow>
     (if \<bar>d\<bar> < EPSILON then a = 0 \<and> b = 0
      else 0 \<le> a * d \<and> 0 \<le> b * d \<and> (a / d)\<^sup>2 + (b / d)\<^sup>2 \<le> 9)"

definition shrunk :: "real \<Rightarrow> real \<Rightarrow> bool" where
  "shrunk a a' \<longleftrightarrow> (\<exists>c. 0 \<le> c \<and> c \<le> 1 \<and> a' = c * a)"

lemma shrunk_refl [simp]: "shrunk a a"
  unfolding shrunk_def by (rule exI [of _ 1]) simp

lemma EPSILON_pos: "0 < EPSILON"
  by (simp add: EPSILON_def)

lemma shrunk_sq:
  assumes "shrunk a a'"
  shows "(a' / d)\<^sup>2 \<le> (a / d)\<^sup>2" and "0 \<le> a * d \<Longrightarrow> 0 \<le> a' * d" and "a = 0 \<Longrightarrow> a' = 0"
proof -
  from assms obtain c where c: "0 \<le> c" "c \<le> 1" "a' = c * a" by (auto simp: shrunk_def)
  have "\<bar>c * (a / d)\<bar> \<le> \<bar>a / d\<bar>"
    using c mult_right_mono [of c 1 "\<bar>a / d\<bar>"] by (simp add: abs_mult)
  then have "(c * (a / d))\<^sup>2 \<le> (a / d)\<^sup>2" by (simp only: abs_le_square_iff)
  then show "(a' / d)\<^sup>2 \<le> (a / d)\<^sup>2" by (simp add: c(3))
  show "0 \<le> a * d \<Longrightarrow> 0 \<le> a' * d" using c by (simp add: mult.assoc)
  show "a = 0 \<Longrightarrow> a' = 0" using c by simp
qed

lemma seg_ok_shrunk:
  assumes "seg_ok d a b" and "shrunk a a'" and "shrunk b b'"
  shows "seg_ok d a' b'"
proof -
  note A = shrunk_sq [OF assms(2)] and B = shrunk_sq [OF assms(3)]
  from A(1) [of d] B(1) [of d] have "(a' / d)\<^sup>2 + (b' / d)\<^sup>2 \<le> (a / d)\<^sup>2 + (b / d)\<^sup>2" by simp
  with A(2) [of d] A(3) B(2) [of d] B(3) assms(1) show ?thesis
    by (auto simp: seg_ok_def split: if_splits)
qed

lemma sign_ok_shrunk: "sign_ok d a b \<Longrightarrow> shrunk a a' \<Longrightarrow> shrunk b b' \<Longrightarrow> sign_ok d a' b'"
  using shrunk_sq(2) by (auto simp: sign_ok_def)

lemma adjust_step_length [simp]: "length (adjust_step points deltaK i mK) = length mK"
  by (simp add: adjust_step_def Let_def)

lemma tau_shrinks:
  assumes "9 < s"
  shows "0 \<le> 3 / sqrt s \<and> 3 / sqrt s \<le> 1" and "(3 / sqrt s)\<^sup>2 * s = 9"
proof -
  have "3 \<le> sqrt s" using assms by (intro real_le_rsqrt) simp
  then show "0 \<le> 3 / sqrt s \<and> 3 / sqrt s \<le> 1" using assms by (simp add: divide_le_eq)
  show "(3 / sqrt s)\<^sup>2 * s = 9" using assms by (simp add: power_divide)
qed

text \<open>One step shrinks slopes towards zero and makes its own segment good.\<close>

lemma adjust_step_props:
  assumes "i + 1 < length mK"
  shows "\<And>j. j < length mK \<Longrightarrow> shrunk (mK ! j) (adjust_step points deltaK i mK ! j)"
    and "getPoint points i \<noteq> None \<Longrightarrow> getPoint points (i + 1) \<noteq> None \<Longrightarrow>
      sign_ok (deltaK ! i) (mK ! i) (mK ! (i + 1)) \<Longrightarrow>
      seg_ok (deltaK ! i) (adjust_step points deltaK i mK ! i) (adjust_step points deltaK i mK ! (i + 1))"
proof -
  let ?d = "deltaK ! i"
  let ?s = "(mK ! i / ?d)\<^sup>2 + (mK ! (i + 1) / ?d)\<^sup>2"
  let ?m = "adjust_step points deltaK i mK"
  consider (skip) "getPoint points i = None \<or> getPoint points (i + 1) = None"
    | (flat) "getPoint points i \<noteq> None" "getPoint points (i + 1) \<noteq> None" "\<bar>?d\<bar> < EPSILON"
    | (small) "getPoint points i \<noteq> None" "getPoint points (i + 1) \<noteq> None" "EPSILON \<le> \<bar>?d\<bar>" "?s \<le> 9"
    | (large) "getPoint points i \<noteq> None" "getPoint points (i + 1) \<noteq> None" "EPSILON \<le> \<bar>?d\<bar>" "9 < ?s"
    by linarith
  then have "(\<forall>j < length mK. shrunk (mK ! j) (?m ! j)) \<and>
    (getPoint points i \<noteq> None \<longrightarrow> getPoint points (i + 1) \<noteq> None \<longrightarrow>
      sign_ok ?d (mK ! i) (mK ! (i + 1)) \<longrightarrow> seg_ok ?d (?m ! i) (?m ! (i + 1)))"
  proof cases
    case skip
    then show ?thesis by (auto simp: adjust_step_def)
  next
    case flat
    then have m: "?m = mK[i := 0, i + 1 := 0]" by (auto simp: adjust_step_def almostEquals_def)
    have "shrunk a 0" for a unfolding shrunk_def by (rule exI [of _ 0]) simp
    then show ?thesis using assms flat(3) by (simp add: m nth_list_update seg_ok_def)
  next
    case small
    then have "?m = mK" by (auto simp: adjust_step_def almostEquals_def Let_def)
    with small show ?thesis by (auto simp: seg_ok_def sign_ok_def)
  next
    case large
    from large(3) EPSILON_pos have d: "?d \<noteq> 0" by auto
    let ?t = "3 / sqrt ?s"
    have m: "?m = mK[i := ?t * mK ! i, i + 1 := ?t * mK ! (i + 1)]"
      using large d by (auto simp: adjust_step_def almostEquals_def Let_def mult.commute)
    note t = tau_shrinks [OF large(4)]
    have sh: "shrunk a (?t * a)" for a unfolding shrunk_def using t(1) by blast
    have "(?t * mK ! i / ?d)\<^sup>2 + (?t * mK ! (i + 1) / ?d)\<^sup>2 = ?t\<^sup>2 * ?s"
      by (simp only: power_mult_distrib times_divide_eq_right [symmetric] distrib_left)
    then have sq: "(?t * mK ! i / ?d)\<^sup>2 + (?t * mK ! (i + 1) / ?d)\<^sup>2 = 9" by (simp only: t(2))
    have "seg_ok ?d (?m ! i) (?m ! (i + 1))" if "sign_ok ?d (mK ! i) (mK ! (i + 1))"
    proof -
      from sign_ok_shrunk [OF that sh sh] have "sign_ok ?d (?t * mK ! i) (?t * mK ! (i + 1))" .
      with large(3) sq assms show ?thesis by (simp add: seg_ok_def sign_ok_def m)
    qed
    moreover have "shrunk (mK ! j) (?m ! j)" if "j < length mK" for j
    proof -
      have "?m ! j = mK ! j \<or> ?m ! j = ?t * mK ! j"
        unfolding m using assms that by (cases "j = i"; cases "j = i + 1") (simp_all only: nth_list_update_eq
            nth_list_update_neq length_list_update simp_thms)
      then show ?thesis using sh by (metis shrunk_refl)
    qed
    ultimately show ?thesis by blast
  qed
  then show "\<And>j. j < length mK \<Longrightarrow> shrunk (mK ! j) (?m ! j)"
    and "getPoint points i \<noteq> None \<Longrightarrow> getPoint points (i + 1) \<noteq> None \<Longrightarrow>
      sign_ok ?d (mK ! i) (mK ! (i + 1)) \<Longrightarrow> seg_ok ?d (?m ! i) (?m ! (i + 1))"
    by blast+
qed

definition segment :: "spoint list \<Rightarrow> nat \<Rightarrow> bool" where
  "segment points i \<longleftrightarrow> getPoint points i \<noteq> None \<and> getPoint points (i + 1) \<noteq> None"

lemma segment_bound: "segment points i \<Longrightarrow> i + 1 < length points"
  by (auto simp: segment_def getPoint_def split: if_splits)

lemma adjust_fold:
  assumes "length mK = length points" and "k < length points"
    and "\<And>i. segment points i \<Longrightarrow> sign_ok (deltaK ! i) (mK ! i) (mK ! (i + 1))"
  defines "m \<equiv> fold (adjust_step points deltaK) [0..<k] mK"
  shows "length m = length points \<and>
    (\<forall>i. segment points i \<longrightarrow> sign_ok (deltaK ! i) (m ! i) (m ! (i + 1)) \<and>
      (i < k \<longrightarrow> seg_ok (deltaK ! i) (m ! i) (m ! (i + 1))))"
  using assms(2) unfolding m_def
proof (induction k)
  case 0
  with assms(1,3) show ?case by simp
next
  case (Suc k)
  let ?m = "fold (adjust_step points deltaK) [0..<k] mK"
  from Suc have IH: "length ?m = length points"
    "\<And>i. segment points i \<Longrightarrow> sign_ok (deltaK ! i) (?m ! i) (?m ! (i + 1))"
    "\<And>i. segment points i \<Longrightarrow> i < k \<Longrightarrow> seg_ok (deltaK ! i) (?m ! i) (?m ! (i + 1))" by auto
  let ?m' = "adjust_step points deltaK k ?m"
  have k: "k + 1 < length ?m" using Suc.prems IH(1) by simp
  note st = adjust_step_props [OF k, where points = points and deltaK = deltaK]
  have "sign_ok (deltaK ! i) (?m' ! i) (?m' ! (i + 1)) \<and>
      (i < Suc k \<longrightarrow> seg_ok (deltaK ! i) (?m' ! i) (?m' ! (i + 1)))" if s: "segment points i" for i
  proof -
    have b: "i < length ?m" "i + 1 < length ?m" using segment_bound [OF s] IH(1) by simp_all
    have "sign_ok (deltaK ! i) (?m' ! i) (?m' ! (i + 1))"
      using IH(2) [OF s] st(1) [OF b(1)] st(1) [OF b(2)] by (rule sign_ok_shrunk)
    moreover have "seg_ok (deltaK ! i) (?m' ! i) (?m' ! (i + 1))" if "i < k"
      using IH(3) [OF s that] st(1) [OF b(1)] st(1) [OF b(2)] by (rule seg_ok_shrunk)
    moreover have "seg_ok (deltaK ! i) (?m' ! i) (?m' ! (i + 1))" if "i = k"
      using st(2) IH(2) [OF s] s that by (simp add: segment_def)
    ultimately show ?thesis by (auto simp: less_Suc_eq)
  qed
  with IH(1) show ?case by simp
qed

lemma slopes_sign_ok:
  assumes "segment points i" and "length deltaK = length points"
  shows "sign_ok (deltaK ! i) (monotone_slopes points deltaK ! i) (monotone_slopes points deltaK ! (i + 1))"
proof -
  have same: "0 \<le> a / 2 * c + b / 2 * c" if "sgn a = sgn b" "c = a \<or> c = b" for a b c :: real
    using that by (cases "0 :: real" a rule: linorder_cases; cases "0 :: real" b rule: linorder_cases)
      (auto simp: mult_nonneg_nonneg mult_nonpos_nonpos intro!: add_nonneg_nonneg)
  have b: "i < length points" "i + 1 < length points" using segment_bound [OF assms(1)] by simp_all
  have here: "getPoint points i \<noteq> None" "getPoint points (i + 1) \<noteq> None"
    using assms(1) by (simp_all add: segment_def)
  then obtain p q where pq: "getPoint points i = Some p" "getPoint points (i + 1) = Some q" by auto
  have bef: "before_point points (i + 1) = Some p" using pq by (simp add: before_point_def)
  have "0 \<le> monotone_slopes points deltaK ! i * deltaK ! i"
    using same [of "deltaK ! (i - 1)" "deltaK ! i" "deltaK ! i"] b pq
    by (auto simp: monotone_slopes_def add_divide_distrib distrib_right)
  moreover have "0 \<le> monotone_slopes points deltaK ! (i + 1) * deltaK ! i"
    using same [of "deltaK ! i" "deltaK ! (i + 1)" "deltaK ! i"] b pq bef
    by (auto simp: monotone_slopes_def add_divide_distrib distrib_right nth_append simp del: upt_Suc)
  ultimately show ?thesis by (simp add: sign_ok_def)
qed

lemma scaled_between:
  fixes v w :: real
  assumes "seg_ok d a b" and "w - v = d * h"
  shows "min v w \<le> v + h / 3 * a \<and> v + h / 3 * a \<le> max v w"
    and "min v w \<le> w - h / 3 * b \<and> w - h / 3 * b \<le> max v w"
proof -
  have share: "\<exists>s. 0 \<le> s \<and> s \<le> 1 \<and> h / 3 * c = s * (w - v)" if "c = a \<or> c = b" for c
  proof (cases "\<bar>d\<bar> < EPSILON")
    case True
    with assms(1) that have "c = 0" by (auto simp: seg_ok_def)
    then show ?thesis by (intro exI [of _ 0]) simp
  next
    case False
    with EPSILON_pos have d: "d \<noteq> 0" by auto
    from False assms(1) that have pos: "0 \<le> c * d" and sq: "(c / d)\<^sup>2 \<le> 3\<^sup>2"
      by (auto simp: seg_ok_def intro: order_trans [rotated])
    from pos have c0: "0 \<le> c / d" by (simp add: zero_le_divide_iff zero_le_mult_iff)
    from sq have "c / d \<le> 3" by (rule power2_le_imp_le) simp
    with c0 assms(2) d show ?thesis by (intro exI [of _ "c / d / 3"]) simp
  qed
  have betw: "min v w \<le> v + s * (w - v) \<and> v + s * (w - v) \<le> max v w \<and>
      min v w \<le> w - s * (w - v) \<and> w - s * (w - v) \<le> max v w" if "0 \<le> s" "s \<le> 1" for s
  proof (cases "v \<le> w")
    case True
    have "0 \<le> s * (w - v)" "s * (w - v) \<le> 1 * (w - v)"
      using True that by (simp_all add: mult_right_mono del: mult_1)
    with True show ?thesis by simp
  next
    case False
    define z where "z = s * (w - v)"
    have "z \<le> 0" using False that by (simp add: z_def mult_nonneg_nonpos)
    moreover have "1 * (w - v) \<le> z" unfolding z_def by (rule mult_right_mono_neg) (use False that in simp_all)
    ultimately show ?thesis using False unfolding z_def [symmetric] by simp
  qed
  from share [of a] betw show "min v w \<le> v + h / 3 * a \<and> v + h / 3 * a \<le> max v w" by auto
  from share [of b] betw show "min v w \<le> w - h / 3 * b \<and> w - h / 3 * b \<le> max v w" by auto
qed

lemma third_between:
  fixes v w :: real
  shows "min v w \<le> v + (w - v) / 3 \<and> v + (w - v) / 3 \<le> max v w \<and>
    min v w \<le> w - (w - v) / 3 \<and> w - (w - v) / 3 \<le> max v w"
  by (auto simp: min_def max_def field_simps)

text \<open>A control point lies in the rectangle that two points span.\<close>

definition in_box :: "pt \<Rightarrow> pt \<Rightarrow> pt \<Rightarrow> bool" where
  "in_box p q c \<longleftrightarrow>
     min (fst p) (fst q) \<le> fst c \<and> fst c \<le> max (fst p) (fst q) \<and>
     min (snd p) (snd q) \<le> snd c \<and> snd c \<le> max (snd p) (snd q)"

lemma in_box_axes: "in_box (to_axes ax p) (to_axes ax q) (to_axes ax c) = in_box p q c"
  by (auto simp: in_box_def to_axes_def)

lemma to_axes_twice [simp]: "to_axes ax (to_axes ax p) = p"
  by (simp add: to_axes_def)

lemma compute_cp2:
  assumes "getPoint points i = Some p" and "getPoint points (i + 1) = Some q"
  shows "sp_cp2 (compute_point ax points mK i)
     = to_axes ax (idx ax p + (idx ax q - idx ax p) / 3, val ax p + (idx ax q - idx ax p) / 3 * mK ! i)"
  using assms by (simp add: compute_point_def Let_def split: option.split)

lemma compute_cp1:
  assumes "getPoint points i = Some p" and "getPoint points (i + 1) = Some q"
  shows "sp_cp1 (compute_point ax points mK (i + 1))
     = to_axes ax (idx ax q - (idx ax q - idx ax p) / 3,
                   val ax q - (idx ax q - idx ax p) / 3 * mK ! (i + 1))"
  using assms by (simp add: compute_point_def before_point_def Let_def split: option.split)

text \<open>
  C39 (monotone curves do not overshoot). In monotone mode, both control points of the curve between two
  neighbouring points that are drawn lie in the rectangle spanned by the two points, so the
  curve never leaves it, on either index axis.
\<close>

theorem monotone_no_overshoot:
  assumes p: "getPoint points i = Some p" and q: "getPoint points (i + 1) = Some q"
  shows "in_box (sp_pos p) (sp_pos q) (sp_cp2 (splineCurveMonotone ax points ! i)) \<and>
         in_box (sp_pos p) (sp_pos q) (sp_cp1 (splineCurveMonotone ax points ! (i + 1)))"
proof -
  let ?d = "monotone_deltas ax points"
  let ?m = "monotoneAdjust points ?d (monotone_slopes points ?d)"
  have s: "segment points i" using p q by (simp add: segment_def)
  note b = segment_bound [OF s]
  have len: "length ?d = length points" by (simp add: monotone_deltas_def)
  have "seg_ok (?d ! i) (?m ! i) (?m ! (i + 1))"
    using adjust_fold [of "monotone_slopes points ?d" points "length points - 1" ?d] s b
      slopes_sign_ok [OF _ len] by (simp add: monotoneAdjust_def monotone_slopes_def)
  moreover have "val ax q - val ax p = ?d ! i * (idx ax q - idx ax p)" if "idx ax q \<noteq> idx ax p"
    using p q b that by (simp add: monotone_deltas_def Let_def)
  moreover have "?d ! i = 0" if "idx ax q = idx ax p"
    using p q b that by (simp add: monotone_deltas_def Let_def)
  ultimately have v:
    "min (val ax p) (val ax q) \<le> val ax p + (idx ax q - idx ax p) / 3 * ?m ! i \<and>
     val ax p + (idx ax q - idx ax p) / 3 * ?m ! i \<le> max (val ax p) (val ax q) \<and>
     min (val ax p) (val ax q) \<le> val ax q - (idx ax q - idx ax p) / 3 * ?m ! (i + 1) \<and>
     val ax q - (idx ax q - idx ax p) / 3 * ?m ! (i + 1) \<le> max (val ax p) (val ax q)"
    using scaled_between by (cases "idx ax q = idx ax p") auto
  have nth: "splineCurveMonotone ax points ! j = compute_point ax points ?m j" if "j < length points" for j
    using that by (simp add: splineCurveMonotone_def monotoneCompute_def Let_def)
  have axes: "to_axes ax (sp_pos r) = (idx ax r, val ax r)" for r by (simp add: idx_def val_def)
  show ?thesis
    unfolding in_box_axes [of ax "sp_pos p", symmetric] axes
    using v third_between [of "idx ax p" "idx ax q"] b
    by (simp add: nth compute_cp2 [OF p q] compute_cp1 [OF p q, simplified] in_box_def)
qed

definition plain_point :: "real \<Rightarrow> real \<Rightarrow> spoint" where
  "plain_point x y = \<lparr>sp_pos = (x, y), sp_skip = False, sp_cp1 = (0, 0), sp_cp2 = (0, 0)\<rparr>"

theorem monotone_no_overshoot_witness:
  "in_box (1, 10) (2, 0) (sp_cp2 (splineCurveMonotone True
     [plain_point 0 0, plain_point 1 10, plain_point 2 0] ! 1))"
  using monotone_no_overshoot [of "[plain_point 0 0, plain_point 1 10, plain_point 2 0]" 1
      "plain_point 1 10" "plain_point 2 0" True]
  by (simp add: getPoint_def plain_point_def)

section \<open>Capping: lemmas\<close>

text \<open>
  Capped control points. Capping changes no position and keeps the control points between two
  neighbouring points of the area within the area.
\<close>

theorem capBezierPoints_in_area:
  assumes "ra_left a \<le> ra_right a" and "ra_top a \<le> ra_bottom a"
    and "in_area a points i" and "in_area a points (i + 1)"
  shows "in_box (ra_left a, ra_top a) (ra_right a, ra_bottom a) (sp_cp2 (capBezierPoints points a ! i)) \<and>
         in_box (ra_left a, ra_top a) (ra_right a, ra_bottom a) (sp_cp1 (capBezierPoints points a ! (i + 1))) \<and>
         map sp_pos (capBezierPoints points a) = map sp_pos points"
proof -
  have cap: "in_box (ra_left a, ra_top a) (ra_right a, ra_bottom a) (cap_pt a c)" for c
    using assms(1,2) by (auto simp: in_box_def cap_pt_def capControlPoint_def)
  have "i < length points" "i + 1 < length points" using assms(3,4) by (simp_all add: in_area_def)
  then have "sp_cp2 (capBezierPoints points a ! i) = cap_pt a (sp_cp2 (points ! i))"
    and "sp_cp1 (capBezierPoints points a ! (i + 1)) = cap_pt a (sp_cp1 (points ! (i + 1)))"
    using assms(3,4) by (simp_all add: capBezierPoints_def cap_point_def Let_def del: upt_Suc)
  moreover have "map sp_pos (capBezierPoints points a) = map sp_pos points"
    by (rule nth_equalityI) (simp_all add: capBezierPoints_def cap_point_def Let_def)
  ultimately show ?thesis using cap by simp
qed

theorem capBezierPoints_in_area_witness:
  "in_box (0, 0) (10, 10) (sp_cp2 (capBezierPoints
     [plain_point 1 1, plain_point 9 9] \<lparr>ra_left = 0, ra_top = 0, ra_right = 10, ra_bottom = 10\<rparr> ! 0))"
  using capBezierPoints_in_area [of "\<lparr>ra_left = 0, ra_top = 0, ra_right = 10, ra_bottom = 10\<rparr>"
      "[plain_point 1 1, plain_point 9 9]" 0]
  by (simp add: in_area_def isPointInArea_def plain_point_def)

text \<open>
  Cardinal curves are smooth. The control points of a cardinal spline lie on one line through the point,
  parallel to the line between its neighbours, on opposite sides when the tension is not
  negative; the distance between them is the tension times that of the neighbours.
\<close>

theorem splineCurve_smooth:
  fixes t :: real
  assumes "\<not> sp_skip a" and "\<not> sp_skip c" and "sp_pos a \<noteq> sp_pos b \<or> sp_pos b \<noteq> sp_pos c"
  defines "r \<equiv> splineCurve a b c t"
  shows "fst (snd r) - fst (fst r) = t * (fst (sp_pos c) - fst (sp_pos a)) \<and>
         snd (snd r) - snd (fst r) = t * (snd (sp_pos c) - snd (sp_pos a)) \<and>
         (fst (sp_pos b) - fst (fst r)) * (snd (sp_pos c) - snd (sp_pos a))
           = (snd (sp_pos b) - snd (fst r)) * (fst (sp_pos c) - fst (sp_pos a))"
proof -
  let ?d1 = "distanceBetweenPoints (sp_pos b) (sp_pos a)"
  let ?d2 = "distanceBetweenPoints (sp_pos c) (sp_pos b)"
  have pos: "0 < distanceBetweenPoints p q \<or> p = q" "0 \<le> distanceBetweenPoints p q" for p q
  proof -
    have "(fst q - fst p)\<^sup>2 + (snd q - snd p)\<^sup>2 = 0 \<Longrightarrow> p = q"
      by (simp add: sum_power2_eq_zero_iff prod_eq_iff)
    then have "0 < (fst q - fst p)\<^sup>2 + (snd q - snd p)\<^sup>2 \<or> p = q"
      by (metis sum_power2_ge_zero order_le_less)
    then show "0 < distanceBetweenPoints p q \<or> p = q" by (auto simp: distanceBetweenPoints_def)
    show "0 \<le> distanceBetweenPoints p q" by (simp add: distanceBetweenPoints_def)
  qed
  have "?d1 + ?d2 \<noteq> 0"
    using assms(3) pos [of "sp_pos b" "sp_pos a"] pos [of "sp_pos c" "sp_pos b"] by auto
  then have one: "?d1 / (?d1 + ?d2) + ?d2 / (?d1 + ?d2) = 1" by (simp add: add_divide_distrib [symmetric])
  have lin: "x + t * s2 * e - (x - t * s1 * e) = t * e" if "s1 + s2 = 1" for x e s1 s2 :: real
  proof -
    have "x + t * s2 * e - (x - t * s1 * e) = (s1 + s2) * (t * e)" by (simp add: algebra_simps)
    with that show ?thesis by simp
  qed
  show ?thesis
    using assms(1,2) lin [OF one] by (simp add: r_def splineCurve_def Let_def)
qed

theorem splineCurve_smooth_witness:
  "fst (snd (splineCurve (plain_point 0 0) (plain_point 3 4) (plain_point 6 8) (1 / 2)))
     - fst (fst (splineCurve (plain_point 0 0) (plain_point 3 4) (plain_point 6 8) (1 / 2))) = 3"
  using splineCurve_smooth [of "plain_point 0 0" "plain_point 6 8" "plain_point 3 4" "1 / 2"]
  by (simp add: plain_point_def)

end
