(* ===== verification/Scale_Drawing.thy ===== *)
theory Scale_Drawing
  imports Scale "HOL-Library.Multiset"
begin

text \<open>
  What an axis draws (\<^verbatim>\<open>chart.js\<close>, \<open>titleArgs\<close> and the methods of \<open>Scale\<close> from
  \<open>_computeGridLineItems\<close> to \<open>_layers\<close>): the geometry of its grid lines, tick marks,
  labels and title, and the commands that draw them.

  A coordinate that the code leaves undefined, or computes from an undefined one, is
  \<open>None\<close>; the canvas ignores a path command with such a coordinate. \<open>cross\<close> is the pixel
  on the other axis that an object as position refers to. Styles that the options give for the
  tick at an index are functions of the index. With offset grid lines the axis has a tick.
\<close>

section \<open>Grid lines\<close>

record grid_line =
  gl_tx1 :: "real option"
  gl_ty1 :: "real option"
  gl_tx2 :: "real option"
  gl_ty2 :: "real option"
  gl_x1 :: "real option"
  gl_y1 :: "real option"
  gl_x2 :: "real option"
  gl_y2 :: "real option"

record line_style =
  st_width :: real
  st_color :: string
  st_dash :: "real list"
  st_dashOffset :: real
  st_tickWidth :: real
  st_tickColor :: string
  st_tickDash :: "real list"
  st_tickDashOffset :: real

record grid_opts =
  go_offset :: bool
  go_tickMark :: real
  go_borderWidth :: real
  go_limit :: "real option"
  go_ratio :: real

text \<open>\<open>alignBorderValue\<close> and the branches on the position that set \<open>borderValue\<close>.\<close>

definition border_value :: "grid_opts \<Rightarrow> rect_area \<Rightarrow> real option \<Rightarrow> scale \<Rightarrow> real option" where
  "border_value g ca cross s =
     (let align = (\<lambda>p. alignPixel (go_ratio g) p (go_borderWidth g)) in
      case sl_pos s of
        Static STop \<Rightarrow> Some (align (sl_bottom s))
      | Static SBottom \<Rightarrow> Some (align (sl_top s))
      | Static SLeft \<Rightarrow> Some (align (sl_right s))
      | Static SRight \<Rightarrow> Some (align (sl_left s))
      | Center \<Rightarrow>
          (case sl_axis s of
             AxisX \<Rightarrow> Some (align ((ra_top ca + ra_bottom ca) / 2 + 1 / 2))
           | AxisY \<Rightarrow> Some (align ((ra_left ca + ra_right ca) / 2))
           | AxisOther \<Rightarrow> None)
      | ObjPos \<Rightarrow> if sl_axis s = AxisOther then None else map_option align cross
      | ChartArea \<Rightarrow> None)"

definition no_line :: grid_line where
  "no_line = \<lparr>gl_tx1 = None, gl_ty1 = None, gl_tx2 = None, gl_ty2 = None,
              gl_x1 = None, gl_y1 = None, gl_x2 = None, gl_y2 = None\<rparr>"

text \<open>The coordinates that all lines share, as the branches leave them before the loop.\<close>

definition grid_ends :: "grid_opts \<Rightarrow> rect_area \<Rightarrow> real option \<Rightarrow> scale \<Rightarrow> grid_line" where
  "grid_ends g ca cross s =
     (let align = (\<lambda>p. alignPixel (go_ratio g) p (go_borderWidth g));
          half = go_borderWidth g / 2; tl = go_tickMark g;
          border = border_value g ca cross s
      in case sl_pos s of
        Static STop \<Rightarrow> no_line\<lparr>gl_ty1 := Some (sl_bottom s - tl), gl_ty2 := map_option (\<lambda>b. b - half) border,
                               gl_y1 := Some (align (ra_top ca) + half), gl_y2 := Some (ra_bottom ca)\<rparr>
      | Static SBottom \<Rightarrow> no_line\<lparr>gl_y1 := Some (ra_top ca), gl_y2 := Some (align (ra_bottom ca) - half),
                               gl_ty1 := map_option (\<lambda>b. b + half) border, gl_ty2 := Some (sl_top s + tl)\<rparr>
      | Static SLeft \<Rightarrow> no_line\<lparr>gl_tx1 := Some (sl_right s - tl), gl_tx2 := map_option (\<lambda>b. b - half) border,
                               gl_x1 := Some (align (ra_left ca) + half), gl_x2 := Some (ra_right ca)\<rparr>
      | Static SRight \<Rightarrow> no_line\<lparr>gl_x1 := Some (ra_left ca), gl_x2 := Some (align (ra_right ca) - half),
                               gl_tx1 := map_option (\<lambda>b. b + half) border, gl_tx2 := Some (sl_left s + tl)\<rparr>
      | _ \<Rightarrow>
          (case sl_axis s of
             AxisX \<Rightarrow> no_line\<lparr>gl_y1 := Some (ra_top ca), gl_y2 := Some (ra_bottom ca),
                        gl_ty1 := map_option (\<lambda>b. b + half) border, gl_ty2 := map_option (\<lambda>b. b + half + tl) border\<rparr>
           | AxisY \<Rightarrow> no_line\<lparr>gl_tx1 := map_option (\<lambda>b. b - half) border, gl_tx2 := map_option (\<lambda>b. b - half - tl) border,
                        gl_x1 := Some (ra_left ca), gl_x2 := Some (ra_right ca)\<rparr>
           | AxisOther \<Rightarrow> no_line))"

definition across_at :: "bool \<Rightarrow> real \<Rightarrow> grid_line \<Rightarrow> grid_line" where
  "across_at horizontal p l =
     (if horizontal then l\<lparr>gl_tx1 := Some p, gl_tx2 := Some p, gl_x1 := Some p, gl_x2 := Some p\<rparr>
      else l\<lparr>gl_ty1 := Some p, gl_ty2 := Some p, gl_y1 := Some p, gl_y2 := Some p\<rparr>)"

text \<open>The indices of the loop; a step that is not finite ends it after the first one.\<close>

function step_loop :: "nat \<Rightarrow> nat \<Rightarrow> nat \<Rightarrow> nat list" where
  "step_loop n step i = (if i < n \<and> 0 < step then i # step_loop n step (i + step) else [])"
  by pat_completeness auto
termination
  by (relation "measure (\<lambda>(n, step, i). n - i)") auto

declare step_loop.simps [simp del]

definition grid_step :: "nat \<Rightarrow> real option \<Rightarrow> jsnum" where
  "grid_step n limit = math_max 1 (math_ceil (Fin (real n) / Fin (case limit of Some l \<Rightarrow> l | None \<Rightarrow> real n)))"

definition grid_indices :: "nat \<Rightarrow> real option \<Rightarrow> nat list" where
  "grid_indices n limit =
     (case grid_step n limit of
        Fin k \<Rightarrow> step_loop n (nat \<lfloor>k\<rfloor>) 0
      | _ \<Rightarrow> if n = 0 then [] else [0])"

definition grid_item :: "grid_opts \<Rightarrow> (nat \<Rightarrow> real) \<Rightarrow> (nat \<Rightarrow> line_style) \<Rightarrow> scale \<Rightarrow> grid_line \<Rightarrow> nat \<Rightarrow>
    (grid_line \<times> line_style) option" where
  "grid_item g pixel style s ends i =
     (case getPixelForGridLine (length (sl_ticks s)) (sl_startPixel s) (sl_endPixel s) pixel i (go_offset g) of
        None \<Rightarrow> None
      | Some lineValue \<Rightarrow>
          Some (across_at (isHorizontal s) (alignPixel (go_ratio g) lineValue (st_width (style i))) ends, style i))"

text \<open>The items, \<open>_ticksLength\<close> and \<open>_borderValue\<close>.\<close>

definition computeGridLineItems :: "grid_opts \<Rightarrow> rect_area \<Rightarrow> real option \<Rightarrow> (nat \<Rightarrow> real) \<Rightarrow> (nat \<Rightarrow> line_style) \<Rightarrow> scale \<Rightarrow>
    (grid_line \<times> line_style) list \<times> nat \<times> real option" where
  "computeGridLineItems g ca cross pixel style s =
     (let ticksLength = length (sl_ticks s) + (if go_offset g then 1 else 0);
          ends = grid_ends g ca cross s
      in (List.map_filter (grid_item g pixel style s ends) (grid_indices ticksLength (go_limit g)),
          ticksLength, border_value g ca cross s))"

section \<open>Alignment of labels\<close>

record label_opts =
  lo_align :: string
  lo_crossAlign :: string
  lo_mirror :: bool
  lo_padding :: real
  lo_tickMark :: real
  lo_offset :: real

definition getXAxisLabelAlignment :: "label_opts \<Rightarrow> scale \<Rightarrow> string" where
  "getXAxisLabelAlignment lo s =
     (let rotation = - toRadians (sl_rotation s) in
      if rotation \<noteq> 0 then (if sl_pos s = Static STop then ''left'' else ''right'')
      else if lo_align lo = ''start'' then ''left''
      else if lo_align lo = ''end'' then ''right'' else ''center'')"

definition getYAxisLabelAlignment :: "label_opts \<Rightarrow> label_sizes \<Rightarrow> scale \<Rightarrow> string \<times> real option" where
  "getYAxisLabelAlignment lo sizes s =
     (let tickAndPadding = lo_tickMark lo + lo_padding lo;
          widest = fst (ls_widest sizes)
      in if sl_pos s = Static SLeft then
           (if lo_mirror lo then
              (let x = sl_right s + lo_padding lo in
               if lo_crossAlign lo = ''near'' then (''left'', Some x)
               else if lo_crossAlign lo = ''center'' then (''center'', Some (x + widest / 2))
               else (''right'', Some (x + widest)))
            else
              (let x = sl_right s - tickAndPadding in
               if lo_crossAlign lo = ''near'' then (''right'', Some x)
               else if lo_crossAlign lo = ''center'' then (''center'', Some (x - widest / 2))
               else (''left'', Some (sl_left s))))
         else if sl_pos s = Static SRight then
           (if lo_mirror lo then
              (let x = sl_left s + lo_padding lo in
               if lo_crossAlign lo = ''near'' then (''right'', Some x)
               else if lo_crossAlign lo = ''center'' then (''center'', Some (x - widest / 2))
               else (''left'', Some (x - widest)))
            else
              (let x = sl_left s + tickAndPadding in
               if lo_crossAlign lo = ''near'' then (''left'', Some x)
               else if lo_crossAlign lo = ''center'' then (''center'', Some (x + widest / 2))
               else (''right'', Some (sl_right s))))
         else (''right'', None))"

definition computeLabelArea :: "label_opts \<Rightarrow> real \<Rightarrow> real \<Rightarrow> scale \<Rightarrow> rect_area option" where
  "computeLabelArea lo chartWidth chartHeight s =
     (if lo_mirror lo then None
      else if sl_pos s = Static SLeft \<or> sl_pos s = Static SRight
      then Some \<lparr>ra_left = sl_left s, ra_top = 0, ra_right = sl_right s, ra_bottom = chartHeight\<rparr>
      else if sl_pos s = Static STop \<or> sl_pos s = Static SBottom
      then Some \<lparr>ra_left = 0, ra_top = sl_top s, ra_right = chartWidth, ra_bottom = sl_bottom s\<rparr>
      else None)"

section \<open>Labels\<close>

text \<open>The options of the label of one tick, with the font it resolves to.\<close>

record label_style =
  ly_font :: string
  ly_lineHeight :: real
  ly_color :: string
  ly_strokeColor :: string
  ly_strokeWidth :: real
  ly_showBackdrop :: bool
  ly_backdropPadding :: sides
  ly_backdropColor :: string

record backdrop =
  bd_left :: "real option"
  bd_top :: "real option"
  bd_width :: real
  bd_height :: real
  bd_color :: string

record label_item =
  li_rotation :: real
  li_label :: label
  li_style :: label_style
  li_textOffset :: real
  li_textAlign :: "string option"
  li_textBaseline :: string
  li_x :: "real option"
  li_y :: "real option"
  li_backdrop :: "backdrop option"

text \<open>The branches on the position, before the loop: \<open>x\<close>, \<open>y\<close> and \<open>textAlign\<close>.\<close>

definition label_origin :: "label_opts \<Rightarrow> rect_area \<Rightarrow> real option \<Rightarrow> label_sizes \<Rightarrow> scale \<Rightarrow>
    real option \<times> real option \<times> string option" where
  "label_origin lo ca cross sizes s =
     (let tickAndPadding = lo_tickMark lo + lo_padding lo;
          hTickAndPadding = (if lo_mirror lo then - lo_padding lo else tickAndPadding);
          ret = getYAxisLabelAlignment lo sizes s
      in case sl_pos s of
        Static STop \<Rightarrow> (None, Some (sl_bottom s - hTickAndPadding), Some (getXAxisLabelAlignment lo s))
      | Static SBottom \<Rightarrow> (None, Some (sl_top s + hTickAndPadding), Some (getXAxisLabelAlignment lo s))
      | Static _ \<Rightarrow> (snd ret, None, Some (fst ret))
      | p \<Rightarrow>
          (case sl_axis s of
             AxisX \<Rightarrow>
               (None,
                (case p of Center \<Rightarrow> Some ((ra_top ca + ra_bottom ca) / 2 + tickAndPadding)
                         | ObjPos \<Rightarrow> map_option (\<lambda>v. v + tickAndPadding) cross | _ \<Rightarrow> None),
                Some (getXAxisLabelAlignment lo s))
           | AxisY \<Rightarrow>
               ((case p of Center \<Rightarrow> Some ((ra_left ca + ra_right ca) / 2 - tickAndPadding)
                         | ObjPos \<Rightarrow> cross | _ \<Rightarrow> None),
                None, Some (fst ret))
           | AxisOther \<Rightarrow> (None, None, None)))"

definition label_baseline :: "label_opts \<Rightarrow> scale \<Rightarrow> string" where
  "label_baseline lo s =
     (if sl_axis s = AxisY then
        (if lo_align lo = ''start'' then ''top'' else if lo_align lo = ''end'' then ''bottom'' else ''middle'')
      else ''middle'')"

definition line_count :: "label \<Rightarrow> nat" where
  "line_count lb = (case lb of LArr ls \<Rightarrow> length ls | _ \<Rightarrow> 1)"

definition text_offset :: "label_opts \<Rightarrow> real \<Rightarrow> label_sizes \<Rightarrow> scale \<Rightarrow> real \<Rightarrow> real \<Rightarrow> real" where
  "text_offset lo rotation sizes s lineCount lineHeight =
     (let halfCount = lineCount / 2; highest = snd (ls_highest sizes) in
      if isHorizontal s then
        (let textOffset =
           (if sl_pos s = Static STop then
              (if lo_crossAlign lo = ''near'' \<or> rotation \<noteq> 0 then - lineCount * lineHeight + lineHeight / 2
               else if lo_crossAlign lo = ''center'' then - highest / 2 - halfCount * lineHeight + lineHeight
               else - highest + lineHeight / 2)
            else
              (if lo_crossAlign lo = ''near'' \<or> rotation \<noteq> 0 then lineHeight / 2
               else if lo_crossAlign lo = ''center'' then highest / 2 - halfCount * lineHeight
               else highest - lineCount * lineHeight))
         in if lo_mirror lo then textOffset * - 1 else textOffset)
      else (1 - lineCount) * lineHeight / 2)"

definition label_backdrop :: "label_style \<Rightarrow> real \<times> real \<Rightarrow> string \<Rightarrow> string option \<Rightarrow> real option \<Rightarrow> real option \<Rightarrow> real \<Rightarrow>
    backdrop option" where
  "label_backdrop st sz textBaseline textAlign x y textOffset =
     (if \<not> ly_showBackdrop st then None
      else
        let (w, h) = sz; pad = ly_backdropPadding st;
            dy = (if textBaseline = ''middle'' then h / 2 else if textBaseline = ''bottom'' then h else 0);
            dx = (if textAlign = Some ''center'' then w / 2 else if textAlign = Some ''right'' then w else 0)
        in Some \<lparr>bd_left = map_option (\<lambda>v. v - pad SLeft - dx) x,
                 bd_top = map_option (\<lambda>v. v + textOffset - pad STop - dy) y,
                 bd_width = w + (pad SLeft + pad SRight), bd_height = h + (pad STop + pad SBottom),
                 bd_color = ly_backdropColor st\<rparr>)"

definition label_item :: "label_opts \<Rightarrow> (nat \<Rightarrow> real) \<Rightarrow> (nat \<Rightarrow> label_style) \<Rightarrow> label_sizes \<Rightarrow> scale \<Rightarrow>
    real option \<times> real option \<times> string option \<Rightarrow> nat \<Rightarrow> label_item" where
  "label_item lo pixel style sizes s origin i =
     (let (x0, y0, textAlign) = origin;
          lb = sk_label (sl_ticks s ! i);
          rotation = - toRadians (sl_rotation s);
          p = pixel i + lo_offset lo;
          x = (if isHorizontal s then Some p else x0);
          y = (if isHorizontal s then y0 else Some p);
          textOffset = text_offset lo rotation sizes s (real (line_count lb)) (ly_lineHeight (style i));
          base = label_baseline lo s
      in \<lparr>li_rotation = rotation, li_label = lb, li_style = style i, li_textOffset = textOffset,
          li_textAlign = textAlign, li_textBaseline = base, li_x = x, li_y = y,
          li_backdrop = label_backdrop (style i) (ls_all sizes ! i) base textAlign x y textOffset\<rparr>)"

definition computeLabelItems :: "label_opts \<Rightarrow> rect_area \<Rightarrow> real option \<Rightarrow> (nat \<Rightarrow> real) \<Rightarrow> (nat \<Rightarrow> label_style) \<Rightarrow>
    label_sizes \<Rightarrow> scale \<Rightarrow> label_item list" where
  "computeLabelItems lo ca cross pixel style sizes s =
     (let origin = label_origin lo ca cross sizes s
      in map (label_item lo pixel style sizes s origin) [0..<length (sl_ticks s)])"

section \<open>Title\<close>

definition getTitleHeight :: "bool \<Rightarrow> real \<Rightarrow> real \<Rightarrow> nat \<Rightarrow> real" where
  "getTitleHeight display lineHeight paddingHeight texts =
     (if \<not> display then 0 else real texts * lineHeight + paddingHeight)"

definition edge_of :: "scale \<Rightarrow> string \<Rightarrow> real" where
  "edge_of s e = (if e = ''top'' then sl_top s else if e = ''left'' then sl_left s
                  else if e = ''bottom'' then sl_bottom s else sl_right s)"

text \<open>\<open>titleX\<close>, \<open>titleY\<close>, \<open>maxWidth\<close> and \<open>rotation\<close>; the position is not \<open>chartArea\<close>.\<close>

definition titleArgs :: "rect_area \<Rightarrow> real option \<Rightarrow> real \<Rightarrow> string \<Rightarrow> scale \<Rightarrow>
    real option \<times> real option \<times> real option \<times> real" where
  "titleArgs ca cross offset align s =
     (let h = sl_bottom s - sl_top s; w = sl_right s - sl_left s in
      if isHorizontal s then
        (Some (alignStartEnd align (sl_left s) (sl_right s)),
         (case sl_pos s of
            ObjPos \<Rightarrow> map_option (\<lambda>v. v + h - offset) cross
          | Center \<Rightarrow> Some ((ra_bottom ca + ra_top ca) / 2 + h - offset)
          | p \<Rightarrow> Some (offsetFromEdge (edge_of s) (pos_text p) offset)),
         Some w, 0)
      else
        ((case sl_pos s of
            ObjPos \<Rightarrow> map_option (\<lambda>v. v - w + offset) cross
          | Center \<Rightarrow> Some ((ra_left ca + ra_right ca) / 2 - w + offset)
          | p \<Rightarrow> Some (offsetFromEdge (edge_of s) (pos_text p) offset)),
         Some (alignStartEnd align (sl_bottom s) (sl_top s)),
         None, if sl_pos s = Static SLeft then - (pi / 2) else pi / 2))"

section \<open>Drawing\<close>

text \<open>A path command with an undefined coordinate is ignored by the canvas.\<close>

definition path_to :: "(real \<Rightarrow> real \<Rightarrow> cmd) \<Rightarrow> real option \<Rightarrow> real option \<Rightarrow> cmd list" where
  "path_to f x y = (case (x, y) of (Some a, Some b) \<Rightarrow> [f a b] | _ \<Rightarrow> [])"

definition drawLine :: "real option \<times> real option \<Rightarrow> real option \<times> real option \<Rightarrow> real \<Rightarrow> string \<Rightarrow> real list \<Rightarrow> real \<Rightarrow> cmd list" where
  "drawLine p1 p2 w color dash dashOffset =
     (if w = 0 \<or> color = [] then []
      else [Save, SetLineWidth w, SetStrokeStyle color, SetLineDash dash, SetLineDashOffset dashOffset, BeginPath] @
           path_to MoveTo (fst p1) (snd p1) @ path_to LineTo (fst p2) (snd p2) @ [StrokePath, Restore])"

definition drawGrid :: "bool \<Rightarrow> bool \<Rightarrow> bool \<Rightarrow> (grid_line \<times> line_style) list \<Rightarrow> cmd list" where
  "drawGrid display onChartArea drawTicks items =
     (if display then
        concat (map (\<lambda>(l, st).
          (if onChartArea then drawLine (gl_x1 l, gl_y1 l) (gl_x2 l, gl_y2 l) (st_width st) (st_color st)
                                 (st_dash st) (st_dashOffset st) else []) @
          (if drawTicks then drawLine (gl_tx1 l, gl_ty1 l) (gl_tx2 l, gl_ty2 l) (st_tickWidth st) (st_tickColor st)
                               (st_tickDash st) (st_tickDashOffset st) else [])) items)
      else [])"

definition drawBorder :: "grid_opts \<Rightarrow> string \<Rightarrow> real \<Rightarrow> real option \<Rightarrow> scale \<Rightarrow> cmd list" where
  "drawBorder g color lastLineWidth border s =
     (let axisWidth = go_borderWidth g; r = go_ratio g in
      if axisWidth = 0 then []
      else
        let (x1, y1, x2, y2) =
          (if isHorizontal s then
             (Some (alignPixel r (sl_left s) axisWidth - axisWidth / 2), border,
              Some (alignPixel r (sl_right s) lastLineWidth + lastLineWidth / 2), border)
           else
             (border, Some (alignPixel r (sl_top s) axisWidth - axisWidth / 2),
              border, Some (alignPixel r (sl_bottom s) lastLineWidth + lastLineWidth / 2)))
        in [Save, SetLineWidth axisWidth, SetStrokeStyle color, BeginPath] @ path_to MoveTo x1 y1 @
           path_to LineTo x2 y2 @ [StrokePath, Restore])"

definition drawBackground :: "string \<Rightarrow> scale \<Rightarrow> cmd list" where
  "drawBackground color s =
     (if color = [] then []
      else [Save, SetFillStyle color, FillRect (sl_left s) (sl_top s) (sl_width s) (sl_height s), Restore])"

definition both :: "'a option \<Rightarrow> 'b option \<Rightarrow> ('a \<times> 'b) option" where
  "both x y = (case (x, y) of (Some a, Some b) \<Rightarrow> Some (a, b) | _ \<Rightarrow> None)"

definition label_lines :: "label \<Rightarrow> string list" where
  "label_lines lb = (case lb of LArr ls \<Rightarrow> concat (map nested_texts ls) | LText s \<Rightarrow> [s] | LNone \<Rightarrow> [])"

definition draw_label :: "metrics \<Rightarrow> label_item \<Rightarrow> cmd list" where
  "draw_label metrics it =
     (case li_backdrop it of
        Some b \<Rightarrow> SetFillStyle (bd_color b) #
                  path_to (\<lambda>l t. FillRect l t (bd_width b) (bd_height b)) (bd_left b) (bd_top b)
      | None \<Rightarrow> []) @
     renderText metrics (label_lines (li_label it)) 0 (li_textOffset it) (ly_font (li_style it)) (ly_lineHeight (li_style it))
       \<lparr>ro_strokeWidth = Some (ly_strokeWidth (li_style it)), ro_strokeColor = Some (ly_strokeColor (li_style it)),
        ro_maxWidth = None, ro_translation = both (li_x it) (li_y it), ro_rotation = Some (li_rotation it),
        ro_color = Some (ly_color (li_style it)), ro_textAlign = li_textAlign it,
        ro_textBaseline = Some (li_textBaseline it), ro_strikethrough = False, ro_underline = False,
        ro_decorationWidth = None\<rparr>"

definition drawLabels :: "metrics \<Rightarrow> bool \<Rightarrow> rect_area option \<Rightarrow> label_item list \<Rightarrow> cmd list" where
  "drawLabels metrics display area items =
     (if \<not> display then []
      else (case area of Some a \<Rightarrow> clipArea a | None \<Rightarrow> []) @ concat (map (draw_label metrics) items) @
           (case area of Some a \<Rightarrow> unclipArea | None \<Rightarrow> []))"

record title_opts =
  to_display :: bool
  to_texts :: "string list"
  to_isArray :: bool
  to_align :: string
  to_font :: string
  to_lineHeight :: real
  to_padTop :: real
  to_padBottom :: real
  to_color :: string

definition title_offset :: "title_opts \<Rightarrow> bpos \<Rightarrow> real" where
  "title_offset t p =
     (if p = Static SBottom \<or> p = Center \<or> p = ObjPos then
        to_lineHeight t / 2 + to_padBottom t +
        (if to_isArray t then to_lineHeight t * (real (length (to_texts t)) - 1) else 0)
      else to_lineHeight t / 2 + to_padTop t)"

definition drawTitle :: "metrics \<Rightarrow> title_opts \<Rightarrow> rect_area \<Rightarrow> real option \<Rightarrow> scale \<Rightarrow> cmd list" where
  "drawTitle metrics t ca cross s =
     (if \<not> to_display t then []
      else
        let (titleX, titleY, maxWidth, rotation) = titleArgs ca cross (title_offset t (sl_pos s)) (to_align t) s
        in renderText metrics (to_texts t) 0 0 (to_font t) (to_lineHeight t)
             \<lparr>ro_strokeWidth = None, ro_strokeColor = None, ro_maxWidth = maxWidth,
              ro_translation = both titleX titleY, ro_rotation = Some rotation, ro_color = Some (to_color t),
              ro_textAlign = Some (titleAlign (to_align t) (pos_text (sl_pos s)) (sl_reverse s)),
              ro_textBaseline = Some ''middle'', ro_strikethrough = False, ro_underline = False,
              ro_decorationWidth = None\<rparr>)"

text \<open>The five parts of a drawn axis, drawn at once or in layers.\<close>

record parts =
  pt_background :: "cmd list"
  pt_grid :: "cmd list"
  pt_border :: "cmd list"
  pt_title :: "cmd list"
  pt_labels :: "cmd list"

definition draw :: "bool \<Rightarrow> parts \<Rightarrow> cmd list" where
  "draw visible p =
     (if \<not> visible then [] else pt_background p @ pt_grid p @ pt_border p @ pt_title p @ pt_labels p)"

definition layers :: "bool \<Rightarrow> (bool \<Rightarrow> parts \<Rightarrow> cmd list) option \<Rightarrow> real option \<Rightarrow> real option \<Rightarrow> parts \<Rightarrow> (real \<times> cmd list) list" where
  "layers visible own_draw ticks_z grid_z p =
     (let tz = (case ticks_z of Some z \<Rightarrow> z | None \<Rightarrow> 0);
          gz = (case grid_z of Some z \<Rightarrow> z | None \<Rightarrow> - 1)
      in case own_draw of
           Some f \<Rightarrow> [(tz, f visible p)]
         | None \<Rightarrow>
             if \<not> visible then [(tz, draw visible p)]
             else [(gz, pt_background p @ pt_grid p @ pt_title p), (gz + 1, pt_border p), (tz, pt_labels p)])"

definition getMatchingVisibleMetas :: "string \<Rightarrow> (string \<times> string) list \<Rightarrow> string option \<Rightarrow> (string \<times> string) list" where
  "getMatchingVisibleMetas scale_id metas ty =
     filter (\<lambda>(ax, t). ax = scale_id \<and> (case ty of None \<Rightarrow> True | Some u \<Rightarrow> t = u)) metas"

definition getLineWidthForValue :: "bool \<Rightarrow> bool \<Rightarrow> (nat \<Rightarrow> line_style) \<Rightarrow> scale \<Rightarrow> real \<Rightarrow> real" where
  "getLineWidthForValue visible display style s v =
     (if \<not> visible \<or> \<not> display then 0
      else let i = index_of (map sk_value (sl_ticks s)) v
           in if i < length (sl_ticks s) then st_width (style i) else 0)"

definition maxDigits :: "scale \<Rightarrow> real \<Rightarrow> real" where
  "maxDigits s lineHeight = (if isHorizontal s then sl_width s else sl_height s) / lineHeight"

section \<open>Grid lines: properties\<close>

lemma length_step_loop: "0 < step \<Longrightarrow> length (step_loop n step i) = (n - i + step - 1) div step"
proof (induction n step i rule: step_loop.induct)
  case (1 n step i)
  show ?case
  proof (cases "i < n")
    case True
    then have "length (step_loop n step i) = Suc ((n - (i + step) + step - 1) div step)"
      using 1 by (subst step_loop.simps) simp
    also have "\<dots> = (n - i + step - 1) div step"
    proof (cases "n \<le> i + step")
      case T: True
      have "(n - i + step - 1) div step = Suc ((n - i - 1) div step)"
        using True 1(2) div_add_self2 [of step "n - i - 1"] by (simp add: algebra_simps)
      with T True 1(2) show ?thesis by (simp add: div_less)
    next
      case False
      then have "n - i + step - 1 = (n - (i + step) + step - 1) + step" by simp
      then show ?thesis using 1(2) by (simp only: div_add_self2)
    qed
    finally show ?thesis .
  next
    case False
    with 1(2) show ?thesis by (subst step_loop.simps) (simp add: div_less)
  qed
qed

lemma step_loop_below: "i \<in> set (step_loop n step j) \<Longrightarrow> i < n"
  by (induction n step j rule: step_loop.induct) (subst (asm) (2) step_loop.simps, auto split: if_splits)

lemma grid_indices_limit:
  assumes "1 \<le> m"
  shows "length (grid_indices n (Some (real m))) \<le> m"
proof -
  define k where "k = max 1 \<lceil>real n / real m\<rceil>"
  have g: "grid_step n (Some (real m)) = Fin (of_int k)"
    using assms by (simp add: grid_step_def k_def of_int_max)
  have "real n / real m \<le> of_int k" unfolding k_def by linarith
  then have "real n \<le> of_int k * real m" using assms by (simp add: pos_divide_le_eq)
  then have "int n \<le> k * int m" by (metis of_int_le_iff of_int_mult of_int_of_nat_eq)
  moreover define j where "j = nat k"
  moreover have k1: "1 \<le> k" by (simp add: k_def)
  ultimately have "n \<le> j * m" and j: "0 < j"
    by (simp_all add: nat_le_iff [symmetric] flip: of_nat_le_iff [where 'a = int])
  then have "n + j - 1 < (m + 1) * j" by (simp add: algebra_simps)
  then have "(n + j - 1) div j \<le> m" using j by (simp add: less_mult_imp_div_less less_Suc_eq_le [symmetric])
  then show ?thesis using j by (simp add: grid_indices_def g length_step_loop j_def)
qed

lemma length_map_filter: "length (List.map_filter f xs) \<le> length xs"
  by (simp add: List.map_filter_def)

text \<open>
  Grid lines. An axis draws at most \<open>maxTicksLimit\<close> grid lines; each of them is a straight line across the
  chart, drawn with its tick mark at one position, which is that of the grid line of some index, moved by
  no more than half a device pixel.
\<close>

theorem grid_lines_limited:
  assumes "1 \<le> m" and "go_limit g = Some (real m)" and "0 < go_ratio g"
    and "computeGridLineItems g ca cross pixel style s = (items, n, border)"
  shows "length items \<le> m \<and>
    (\<forall>(l, st) \<in> set items. \<exists>i v p. i < n \<and> st = style i \<and>
       getPixelForGridLine (length (sl_ticks s)) (sl_startPixel s) (sl_endPixel s) pixel i (go_offset g) = Some v \<and>
       \<bar>p - v\<bar> \<le> 1 / (2 * go_ratio g) \<and>
       (if isHorizontal s then gl_x1 l = Some p \<and> gl_x2 l = Some p \<and> gl_tx1 l = Some p \<and> gl_tx2 l = Some p
        else gl_y1 l = Some p \<and> gl_y2 l = Some p \<and> gl_ty1 l = Some p \<and> gl_ty2 l = Some p))"
proof -
  have items: "items = List.map_filter (grid_item g pixel style s (grid_ends g ca cross s)) (grid_indices n (go_limit g))"
    and n: "n = length (sl_ticks s) + (if go_offset g then 1 else 0)"
    using assms(4) by (auto simp: computeGridLineItems_def Let_def)
  have "length items \<le> m"
    using length_map_filter grid_indices_limit [OF assms(1)] unfolding items assms(2) by (rule le_trans)
  moreover have "i < n" if "i \<in> set (grid_indices n (go_limit g))" for i
    using that step_loop_below by (fastforce simp: grid_indices_def split: jsnum.splits if_splits)
  ultimately show ?thesis
    using alignPixel_near [OF assms(3)]
    by (fastforce simp: items List.map_filter_def grid_item_def across_at_def split: option.splits if_splits)
qed

theorem grid_lines_limited_witness:
  "length (fst (computeGridLineItems
      \<lparr>go_offset = True, go_tickMark = 8, go_borderWidth = 1, go_limit = Some (real 2), go_ratio = 1\<rparr>
      \<lparr>ra_left = 0, ra_top = 0, ra_right = 100, ra_bottom = 100\<rparr> None (\<lambda>i. real i * 10)
      (\<lambda>i. \<lparr>st_width = 1, st_color = ''red'', st_dash = [], st_dashOffset = 0, st_tickWidth = 1, st_tickColor = ''red'',
           st_tickDash = [], st_tickDashOffset = 0\<rparr>)
      (sample_scale\<lparr>sl_ticks := replicate 9 \<lparr>sk_value = 1, sk_label = LText ''a''\<rparr>\<rparr>))) \<le> 2"
  by (rule grid_lines_limited [OF _ _ _ prod.collapse [symmetric, THEN trans, OF arg_cong2 [where f = Pair, OF refl prod.collapse [symmetric]]],
        THEN conjunct1]) simp_all

section \<open>Labels: properties\<close>

text \<open>The horizontal extent of a text of a width drawn at a position with an alignment.\<close>

definition extent :: "string \<Rightarrow> real \<Rightarrow> real \<Rightarrow> real \<times> real" where
  "extent align x w =
     (if align = ''left'' then (x, x + w) else if align = ''center'' then (x - w / 2, x + w / 2) else (x - w, x))"

text \<open>
  Labels stay inside their axis. On a vertical axis with labels that are not mirrored, wide enough for its
  widest label and the tick marks, every label lies between the tick marks and the far edge of the axis, whatever
  the cross alignment; mirrored labels lie beyond the inner edge of the axis.
\<close>

theorem labels_inside_axis:
  assumes "sl_pos s = Static SLeft \<or> sl_pos s = Static SRight"
    and "0 \<le> w" and "w \<le> fst (ls_widest sizes)"
    and "fst (ls_widest sizes) + lo_tickMark lo + lo_padding lo \<le> sl_right s - sl_left s"
    and "getYAxisLabelAlignment lo sizes s = (align, Some x)" and "extent align x w = (l, r)"
  shows "if lo_mirror lo then
           (if sl_pos s = Static SLeft then sl_right s + lo_padding lo \<le> l else r \<le> sl_left s + lo_padding lo)
         else if sl_pos s = Static SLeft then sl_left s \<le> l \<and> r \<le> sl_right s - lo_tickMark lo - lo_padding lo
         else sl_left s + lo_tickMark lo + lo_padding lo \<le> l \<and> r \<le> sl_right s"
  using assms by (auto simp: getYAxisLabelAlignment_def extent_def Let_def split: if_splits)

theorem labels_inside_axis_witness:
  "let s = sample_scale\<lparr>sl_pos := Static SLeft, sl_axis := AxisY\<rparr>;
       sizes = \<lparr>ls_first = (40, 12), ls_last = (40, 12), ls_widest = (40, 12), ls_highest = (40, 12), ls_all = []\<rparr>;
       lo = \<lparr>lo_align = ''center'', lo_crossAlign = ''center'', lo_mirror = False, lo_padding = 3, lo_tickMark = 8, lo_offset = 0\<rparr>
   in sl_left s \<le> fst (extent ''center'' 79 30) \<and> getYAxisLabelAlignment lo sizes s = (''center'', Some 79)"
  using labels_inside_axis [of "sample_scale\<lparr>sl_pos := Static SLeft, sl_axis := AxisY\<rparr>" 30
      "\<lparr>ls_first = (40, 12), ls_last = (40, 12), ls_widest = (40, 12), ls_highest = (40, 12), ls_all = []\<rparr>"
      "\<lparr>lo_align = ''center'', lo_crossAlign = ''center'', lo_mirror = False, lo_padding = 3, lo_tickMark = 8, lo_offset = 0\<rparr>"
      "''center''" 79 64 94]
  by (simp add: sample_scale_def getYAxisLabelAlignment_def extent_def)

section \<open>Drawing: properties\<close>

lemma depth_path: "depth d (path_to MoveTo x y @ path_to LineTo u v @ cs) = depth d cs"
  by (cases x; cases y; cases u; cases v) (simp_all add: path_to_def)

lemma depth_drawLine: "depth d (drawLine p q w c da off @ cs) = depth d cs"
  by (simp add: drawLine_def depth_path)

lemma depth_drawGrid: "depth d (drawGrid display a b items @ cs) = depth d cs"
proof (induction items arbitrary: cs)
  case (Cons x items)
  then show ?case by (cases x) (auto simp: drawGrid_def depth_drawLine)
qed (simp add: drawGrid_def)

lemma depth_drawBorder: "depth d (drawBorder g color lw border s @ cs) = depth d cs"
  by (simp add: drawBorder_def Let_def depth_path split: prod.split)

lemma depth_drawBackground: "depth d (drawBackground color s @ cs) = depth d cs"
  by (simp add: drawBackground_def)

lemma depth_drawTitle: "depth d (drawTitle metrics t ca cross s @ cs) = depth d cs"
  by (simp add: drawTitle_def Let_def renderText_depth split: prod.split)

lemma depth_draw_label: "depth d (draw_label metrics it @ cs) = depth d cs"
  by (auto simp: draw_label_def renderText_depth path_to_def split: option.split)

lemma depth_draw_labels: "depth d (concat (map (draw_label metrics) items) @ cs) = depth d cs"
  by (induction items arbitrary: cs) (simp_all add: depth_draw_label)

lemma depth_drawLabels: "depth d (drawLabels metrics display area items @ cs) = depth d cs"
  by (cases area) (simp_all add: drawLabels_def depth_draw_labels clipArea_def unclipArea_def)

definition scale_parts where
  "scale_parts metrics bgColor grid gi bo ti ar li s =
     \<lparr>pt_background = drawBackground bgColor s, pt_grid = (case grid of (a, b, c) \<Rightarrow> drawGrid a b c gi),
      pt_border = (case bo of (g, color, w, v) \<Rightarrow> drawBorder g color w v s),
      pt_title = (case ti of (t, ca, cross) \<Rightarrow> drawTitle metrics t ca cross s),
      pt_labels = (case ar of (display, area) \<Rightarrow> drawLabels metrics display area li)\<rparr>"

text \<open>
  Layers of an axis. The layers of a visible axis issue the same commands as drawing it at once, and each layer on its
  own leaves the saved states of the canvas as it found them, so layers of different elements can be drawn
  in any order.
\<close>

theorem layers_independent:
  "let p = scale_parts metrics bg grid gi bo ti ar li s in
    mset (concat (map snd (layers True None tz gz p))) = mset (draw True p) \<and>
    list_all (\<lambda>(z, cmds). depth d cmds = Some d) (layers True None tz gz p) \<and> depth d (draw True p) = Some d"
proof -
  define p where "p = scale_parts metrics bg grid gi bo ti ar li s"
  have one: "depth d (part @ cs) = depth d cs"
    if "part \<in> {pt_background p, pt_grid p, pt_border p, pt_title p, pt_labels p}" for part cs
    using that by (auto simp: p_def scale_parts_def depth_drawBackground depth_drawGrid depth_drawBorder
        depth_drawTitle depth_drawLabels split: prod.split)
  have nil: "depth d part = Some d"
    if "part \<in> {pt_background p, pt_grid p, pt_border p, pt_title p, pt_labels p}" for part
    using one [OF that, of "[]"] by simp
  show ?thesis unfolding p_def [symmetric] by (simp add: layers_def draw_def Let_def one nil)
qed

end
