(* ===== verification/Category_Scale.thy ===== *)
theory Category_Scale
  imports Scale
begin

text \<open>
  The category axis (\<^verbatim>\<open>chart.js\<close>, \<open>addIfString\<close> to the class \<open>CategoryScale\<close>).

  The labels are an array that the axis shares with the data of the chart. Parsing a text that
  is not among them appends it and remembers where, and the next \<open>init\<close> takes the
  remembered labels out again. Labels and raw values are primitive values; limits are integers.
\<close>

section \<open>Parsing\<close>

record category =
  ct_labels :: "jsval list"
  ct_added :: "(nat \<times> string) list"
  ct_startValue :: real
  ct_valueRange :: real
  ct_min :: int
  ct_max :: int

text \<open>The operator \<open>===\<close> on primitive values.\<close>

fun same :: "jsval \<Rightarrow> jsval \<Rightarrow> bool" where
  "same (Num x) (Num y) = num_eq x y"
| "same v w = (v = w)"

definition index_in :: "jsval list \<Rightarrow> jsval \<Rightarrow> nat option" where
  "index_in labels raw =
     (let i = length (takeWhile (\<lambda>l. \<not> same l raw) labels) in if i < length labels then Some i else None)"

definition last_index_in :: "jsval list \<Rightarrow> jsval \<Rightarrow> nat option" where
  "last_index_in labels raw = map_option (\<lambda>i. length labels - 1 - i) (index_in (rev labels) raw)"

definition addIfString :: "jsval list \<Rightarrow> jsval \<Rightarrow> jsval \<Rightarrow> (nat \<times> string) list \<Rightarrow>
    jsval \<times> jsval list \<times> (nat \<times> string) list" where
  "addIfString labels raw index added =
     (case raw of
        Str s \<Rightarrow> (Num (Fin (real (length labels))), labels @ [raw], (length labels, s) # added)
      | _ \<Rightarrow> (if is_nan (to_num raw) then Null else index, labels, added))"

definition findOrAddLabel :: "jsval list \<Rightarrow> jsval \<Rightarrow> jsval \<Rightarrow> (nat \<times> string) list \<Rightarrow>
    jsval \<times> jsval list \<times> (nat \<times> string) list" where
  "findOrAddLabel labels raw index added =
     (case index_in labels raw of
        None \<Rightarrow> addIfString labels raw index added
      | Some first \<Rightarrow>
          (if last_index_in labels raw \<noteq> Some first then index else Num (Fin (real first)), labels, added))"

definition validIndex :: "jsval \<Rightarrow> int \<Rightarrow> jsval" where
  "validIndex index mx =
     (if index = Null then Null else Num (limitValue (math_round (to_num index)) 0 (Fin (of_int mx))))"

text \<open>\<open>labels[index]\<close> for an index that is a finite number.\<close>

definition label_at :: "jsval list \<Rightarrow> jsval \<Rightarrow> jsval" where
  "label_at labels index =
     (case index of
        Num (Fin x) \<Rightarrow> if x = of_int \<lfloor>x\<rfloor> then (case arr_get labels \<lfloor>x\<rfloor> of Some l \<Rightarrow> l | None \<Rightarrow> Undefined) else Undefined
      | _ \<Rightarrow> Undefined)"

text \<open>\<open>parse\<close>; the index is a number or missing.\<close>

definition parse :: "jsval \<Rightarrow> jsval \<Rightarrow> category \<Rightarrow> jsval \<times> category" where
  "parse raw index c =
     (if raw = Null \<or> raw = Undefined then (Null, c)
      else
        let labels = ct_labels c;
            (i, labels', added') =
              (if is_finite (to_num index) \<and> same (label_at labels index) raw then (index, labels, ct_added c)
               else findOrAddLabel labels raw (if index = Undefined then raw else index) (ct_added c))
        in (validIndex i (int (length labels') - 1), c\<lparr>ct_labels := labels', ct_added := added'\<rparr>))"

definition remove_added :: "jsval list \<Rightarrow> nat \<times> string \<Rightarrow> jsval list" where
  "remove_added labels a =
     (case a of (index, lb) \<Rightarrow>
        if index < length labels \<and> labels ! index = Str lb
        then take index labels @ drop (index + 1) labels else labels)"

definition init :: "category \<Rightarrow> category" where
  "init c = (if ct_added c \<noteq> [] then c\<lparr>ct_labels := foldl remove_added (ct_labels c) (ct_added c), ct_added := []\<rparr> else c)"

section \<open>Limits, ticks and pixels\<close>

definition determineDataLimits :: "user_bounds \<Rightarrow> bool \<Rightarrow> int \<times> int \<Rightarrow> category \<Rightarrow> category" where
  "determineDataLimits ub bounds_ticks mm c =
     (let mn = (if bounds_ticks \<and> \<not> ub_minDefined ub then 0 else fst mm);
          mx = (if bounds_ticks \<and> \<not> ub_maxDefined ub then int (length (ct_labels c)) - 1 else snd mm)
      in c\<lparr>ct_min := mn, ct_max := mx\<rparr>)"

definition slice_end :: "int \<Rightarrow> nat \<Rightarrow> nat" where
  "slice_end k n = nat (if k < 0 then max (int n + k) 0 else min k (int n))"

definition slice :: "'a list \<Rightarrow> int \<Rightarrow> int \<Rightarrow> 'a list" where
  "slice xs a b = drop (slice_end a (length xs)) (take (slice_end b (length xs)) xs)"

definition buildTicks :: "bool \<Rightarrow> category \<Rightarrow> int list \<times> category" where
  "buildTicks offset c =
     (let mn = ct_min c; mx = ct_max c; labels = ct_labels c;
          shown = (if mn = 0 \<and> mx = int (length labels) - 1 then labels else slice labels mn (mx + 1))
      in ([mn..mx],
          c\<lparr>ct_valueRange := max (real (length shown) - (if offset then 0 else 1)) 1,
            ct_startValue := of_int mn - (if offset then 1 / 2 else 0)\<rparr>))"

definition getLabelForValue :: "category \<Rightarrow> real \<Rightarrow> jsval" where
  "getLabelForValue c v =
     (if 0 \<le> v \<and> v < real (length (ct_labels c)) then label_at (ct_labels c) (Num (Fin v)) else Num (Fin v))"

definition configure :: "scale \<Rightarrow> scale" where
  "configure s =
     (let s1 = scale_configure s
      in if isHorizontal s1 then s1 else s1\<lparr>sl_reversePixels := \<not> sl_reversePixels s1\<rparr>)"

definition getPixelForValue :: "real \<Rightarrow> scale \<Rightarrow> jsval \<Rightarrow> category \<Rightarrow> jsnum \<times> category" where
  "getPixelForValue ratio s v c =
     (let (v', c') = (case v of Num x \<Rightarrow> (v, c) | _ \<Rightarrow> parse v Undefined c)
      in (case v' of
            Null \<Rightarrow> NaN
          | _ \<Rightarrow> getPixelForDecimal ratio s ((to_num v' - Fin (ct_startValue c')) / Fin (ct_valueRange c')), c'))"

definition getPixelForTick :: "real \<Rightarrow> scale \<Rightarrow> int list \<Rightarrow> int \<Rightarrow> category \<Rightarrow> jsnum option" where
  "getPixelForTick ratio s ticks index c =
     (if index < 0 \<or> int (length ticks) - 1 < index then None
      else Some (fst (getPixelForValue ratio s (Num (Fin (of_int (ticks ! nat index)))) c)))"

definition getValueForPixel :: "scale \<Rightarrow> jsnum \<Rightarrow> category \<Rightarrow> jsnum" where
  "getValueForPixel s pixel c =
     math_round (Fin (ct_startValue c) + getDecimalForPixel s pixel * Fin (ct_valueRange c))"

definition getBasePixel :: "scale \<Rightarrow> real" where
  "getBasePixel s = sl_bottom s"

section \<open>Parsing: properties\<close>

text \<open>
  The labels that were added since the last \<open>init\<close> are at the end of the array, the
  latest first in the list.
\<close>

definition extended :: "jsval list \<Rightarrow> category \<Rightarrow> bool" where
  "extended base c \<longleftrightarrow>
     (\<exists>texts. ct_labels c = base @ map Str texts \<and>
        ct_added c = rev (zip [length base..<length base + length texts] texts))"

lemma addIfString_cases:
  "addIfString labels raw index added = (i, labels', added') \<Longrightarrow>
     labels' = labels \<and> added' = added \<or>
     (\<exists>s. raw = Str s \<and> labels' = labels @ [Str s] \<and> added' = (length labels, s) # added)"
  by (cases raw) (auto simp: addIfString_def split: if_splits)

lemma findOrAddLabel_cases:
  "findOrAddLabel labels raw index added = (i, labels', added') \<Longrightarrow>
     labels' = labels \<and> added' = added \<or>
     (\<exists>s. raw = Str s \<and> labels' = labels @ [Str s] \<and> added' = (length labels, s) # added)"
  using addIfString_cases by (fastforce simp: findOrAddLabel_def split: option.splits)

lemma parse_find:
  assumes "raw \<noteq> Null" "raw \<noteq> Undefined" "\<not> (is_finite (to_num index) \<and> same (label_at (ct_labels c) index) raw)"
    and "findOrAddLabel (ct_labels c) raw (if index = Undefined then raw else index) (ct_added c) = (i, l, a)"
  shows "parse raw index c = (validIndex i (int (length l) - 1), c\<lparr>ct_labels := l, ct_added := a\<rparr>)"
  using assms by (auto simp: parse_def Let_def)

lemma parse_direct:
  assumes "raw \<noteq> Null" "raw \<noteq> Undefined" "is_finite (to_num index) \<and> same (label_at (ct_labels c) index) raw"
  shows "parse raw index c = (validIndex index (int (length (ct_labels c)) - 1), c)"
  using assms by (simp add: parse_def Let_def)

lemma parse_cases:
  obtains "ct_labels (snd (parse raw index c)) = ct_labels c" "ct_added (snd (parse raw index c)) = ct_added c"
  | s where "raw = Str s" "ct_labels (snd (parse raw index c)) = ct_labels c @ [Str s]"
      "ct_added (snd (parse raw index c)) = (length (ct_labels c), s) # ct_added c"
proof -
  obtain i l a where f: "findOrAddLabel (ct_labels c) raw (if index = Undefined then raw else index) (ct_added c) = (i, l, a)"
    by (metis prod_cases3)
  consider "raw = Null \<or> raw = Undefined"
    | "raw \<noteq> Null" "raw \<noteq> Undefined" "is_finite (to_num index) \<and> same (label_at (ct_labels c) index) raw"
    | "raw \<noteq> Null" "raw \<noteq> Undefined" "\<not> (is_finite (to_num index) \<and> same (label_at (ct_labels c) index) raw)"
    by blast
  then show thesis
  proof cases
    case 1
    then have "snd (parse raw index c) = c" by (auto simp: parse_def)
    with that(1) show thesis by simp
  next
    case 2
    with that(1) show thesis by (simp add: parse_direct)
  next
    case 3
    from parse_find [OF this f] have p: "ct_labels (snd (parse raw index c)) = l" "ct_added (snd (parse raw index c)) = a"
      by simp_all
    from findOrAddLabel_cases [OF f] p that show thesis by blast
  qed
qed

lemma parse_extended:
  assumes "extended base c"
  shows "extended base (snd (parse raw index c))"
proof (cases raw index c rule: parse_cases)
  case 1
  with assms show ?thesis by (simp add: extended_def)
next
  case (2 s)
  from assms obtain texts where t: "ct_labels c = base @ map Str texts"
    "ct_added c = rev (zip [length base..<length base + length texts] texts)"
    by (auto simp: extended_def)
  with 2 have "ct_labels (snd (parse raw index c)) = base @ map Str (texts @ [s]) \<and>
    ct_added (snd (parse raw index c)) = rev (zip [length base..<length base + length (texts @ [s])] (texts @ [s]))"
    by (simp add: zip_append1)
  then show ?thesis unfolding extended_def by blast
qed

lemma remove_all_added:
  "foldl remove_added (base @ map Str texts) (rev (zip [length base..<length base + length texts] texts)) = base"
proof (induction texts rule: rev_induct)
  case (snoc s texts)
  then show ?case by (simp add: zip_append1 remove_added_def nth_append)
qed simp

lemma init_extended:
  assumes "extended base c"
  shows "ct_labels (init c) = base \<and> ct_added (init c) = []"
proof -
  from assms obtain texts where t: "ct_labels c = base @ map Str texts"
    "ct_added c = rev (zip [length base..<length base + length texts] texts)"
    by (auto simp: extended_def)
  show ?thesis
  proof (cases "texts = []")
    case False
    with t have "ct_added c \<noteq> []" by simp
    then show ?thesis using remove_all_added by (simp add: init_def t)
  qed (use t in \<open>simp add: init_def\<close>)
qed

definition parse_all :: "(jsval \<times> jsval) list \<Rightarrow> category \<Rightarrow> category" where
  "parse_all raws c = fold (\<lambda>(raw, index). snd \<circ> parse raw index) raws c"

lemma parse_all_extended: "extended base c \<Longrightarrow> extended base (parse_all raws c)"
  by (induction raws arbitrary: c) (auto simp: parse_all_def parse_extended)

text \<open>
  C32 (parsing leaves no trace). Whatever values have been parsed since the labels were clean, and
  however many labels this has added, the next \<open>init\<close> leaves exactly the labels there were.
\<close>

theorem init_undoes_parsing:
  assumes "ct_added c = []"
  shows "ct_labels (init (parse_all raws c)) = ct_labels c \<and> ct_added (init (parse_all raws c)) = []"
proof -
  from assms have "extended (ct_labels c) c" by (simp add: extended_def)
  then show ?thesis by (intro init_extended parse_all_extended)
qed

definition sample_category :: category where
  "sample_category = \<lparr>ct_labels = [Str ''a'', Str ''b''], ct_added = [], ct_startValue = 0, ct_valueRange = 1, ct_min = 0, ct_max = 1\<rparr>"

theorem init_undoes_parsing_witness:
  "ct_labels (init (parse_all [(Str ''x'', Undefined), (Str ''a'', Undefined), (Str ''y'', Num (Fin 1))] sample_category))
     = [Str ''a'', Str ''b'']"
  using init_undoes_parsing [of sample_category] by (simp add: sample_category_def)

lemma same_Str [simp]: "same l (Str s) \<longleftrightarrow> l = Str s"
  by (cases l) auto

lemma takeWhile_stops: "length (takeWhile P xs) < length xs \<longleftrightarrow> (\<exists>x \<in> set xs. \<not> P x)"
  by (induction xs) auto

lemma index_in_Str:
  "index_in labels (Str s) = (if Str s \<in> set labels then Some (length (takeWhile (\<lambda>l. l \<noteq> Str s) labels)) else None)"
  by (auto simp: index_in_def Let_def takeWhile_stops)

lemma index_in_nth:
  assumes "Str s \<in> set labels"
  obtains i where "index_in labels (Str s) = Some i" "i < length labels" "labels ! i = Str s"
proof -
  let ?i = "length (takeWhile (\<lambda>l. l \<noteq> Str s) labels)"
  have "?i < length labels \<and> labels ! ?i = Str s" using assms by (induction labels) auto
  with that assms show thesis by (simp add: index_in_Str)
qed

lemma last_index_in_distinct:
  assumes "distinct labels" and "index_in labels (Str s) = Some i" "i < length labels" "labels ! i = Str s"
  shows "last_index_in labels (Str s) = Some i"
proof -
  have "Str s \<in> set (rev labels)" using assms(3,4) nth_mem by fastforce
  then obtain j where j: "index_in (rev labels) (Str s) = Some j" "j < length (rev labels)" "rev labels ! j = Str s"
    by (rule index_in_nth)
  then have "labels ! (length labels - 1 - j) = labels ! i" using assms(4) by (simp add: rev_nth)
  with assms(1,3) j(2) have "length labels - 1 - j = i" by (simp add: nth_eq_iff_index_eq)
  then show ?thesis by (simp add: last_index_in_def j(1))
qed

lemma validIndex_index: "i < n \<Longrightarrow> validIndex (Num (Fin (real i))) (int n - 1) = Num (Fin (real i))"
  by (simp add: validIndex_def round_half_up_def limitValue_def floor_eq_iff)

lemma label_at_nth: "i < length labels \<Longrightarrow> label_at labels (Num (Fin (real i))) = labels ! i"
  by (simp add: label_at_def arr_get_def)

lemma parse_known:
  assumes "distinct (ct_labels c)" and "Str s \<in> set (ct_labels c)"
  shows "\<exists>i < length (ct_labels c). ct_labels c ! i = Str s \<and> parse (Str s) Undefined c = (Num (Fin (real i)), c)"
proof -
  obtain i where i: "index_in (ct_labels c) (Str s) = Some i" "i < length (ct_labels c)" "ct_labels c ! i = Str s"
    using assms(2) by (rule index_in_nth)
  have "findOrAddLabel (ct_labels c) (Str s) (if Undefined = Undefined then Str s else Undefined) (ct_added c)
      = (Num (Fin (real i)), ct_labels c, ct_added c)"
    using last_index_in_distinct [OF assms(1) i] i(1) by (simp add: findOrAddLabel_def)
  from parse_find [OF _ _ _ this] i show ?thesis by (auto simp: validIndex_index)
qed

lemma parse_unknown:
  assumes "Str s \<notin> set (ct_labels c)"
  shows "parse (Str s) Undefined c = (Num (Fin (real (length (ct_labels c)))),
     c\<lparr>ct_labels := ct_labels c @ [Str s], ct_added := (length (ct_labels c), s) # ct_added c\<rparr>)"
proof -
  have "findOrAddLabel (ct_labels c) (Str s) (if Undefined = Undefined then Str s else Undefined) (ct_added c)
      = (Num (Fin (real (length (ct_labels c)))), ct_labels c @ [Str s], (length (ct_labels c), s) # ct_added c)"
    using assms by (simp add: findOrAddLabel_def index_in_Str addIfString_def)
  from parse_find [OF _ _ _ this] show ?thesis
    using validIndex_index [of "length (ct_labels c)" "Suc (length (ct_labels c))"] by simp
qed

text \<open>
  Texts and their values. When the labels are distinct, parsing a text gives the index of that text among the
  labels, adding it at the end when it is new; the labels stay distinct, parsing it again gives the
  same index and changes nothing, and the label of that value is the text.
\<close>

theorem parse_label_roundtrip:
  assumes "distinct (ct_labels c)" and "parse (Str s) Undefined c = (v, c')"
  shows "\<exists>i < length (ct_labels c'). v = Num (Fin (real i)) \<and> ct_labels c' ! i = Str s \<and>
    distinct (ct_labels c') \<and> getLabelForValue c' (real i) = Str s \<and> parse (Str s) Undefined c' = (v, c') \<and>
    ct_labels c' = ct_labels c @ (if Str s \<in> set (ct_labels c) then [] else [Str s])"
proof (cases "Str s \<in> set (ct_labels c)")
  case True
  with parse_known [OF assms(1)] assms(2) obtain i where "i < length (ct_labels c)" "ct_labels c ! i = Str s"
    "v = Num (Fin (real i))" "c' = c" by fastforce
  with True assms show ?thesis by (auto simp: getLabelForValue_def label_at_nth)
next
  case False
  from assms(2) have c': "v = Num (Fin (real (length (ct_labels c))))" "ct_labels c' = ct_labels c @ [Str s]"
    by (auto simp: parse_unknown [OF False])
  have d: "distinct (ct_labels c')" using assms(1) False by (simp add: c')
  obtain i where i: "i < length (ct_labels c')" "ct_labels c' ! i = Str s" "parse (Str s) Undefined c' = (Num (Fin (real i)), c')"
    using parse_known [OF d] by (auto simp: c')
  moreover have "ct_labels c' ! i = ct_labels c' ! length (ct_labels c)" using i(2) by (simp add: c')
  then have "i = length (ct_labels c)" using nth_eq_iff_index_eq [OF d i(1), of "length (ct_labels c)"] by (simp add: c')
  ultimately show ?thesis using d c' False by (auto simp: getLabelForValue_def label_at_nth)
qed

theorem parse_label_roundtrip_witness:
  "fst (parse (Str ''x'') Undefined (snd (parse (Str ''x'') Undefined sample_category)))
     = fst (parse (Str ''x'') Undefined sample_category)"
  using parse_label_roundtrip [OF _ prod.collapse [symmetric], of sample_category "''x''"]
  by (auto simp: sample_category_def)

section \<open>Pixels: properties\<close>

lemma buildTicks_range: "1 \<le> ct_valueRange (snd (buildTicks offset c))"
  by (simp add: buildTicks_def Let_def)

lemma buildTicks_startValue: "0 < ct_valueRange (snd (buildTicks offset c))"
  using buildTicks_range [of offset c] by linarith

definition decimal_of :: "category \<Rightarrow> real \<Rightarrow> real" where
  "decimal_of c v = (v - ct_startValue c) / ct_valueRange c"

definition value_of :: "category \<Rightarrow> real \<Rightarrow> real" where
  "value_of c d = of_int (round_half_up (ct_startValue c + d * ct_valueRange c))"

interpretation ca: value_axis "decimal_of c" "value_of c" "\<lambda>v. 0 < ct_valueRange c \<and> v = of_int \<lfloor>v\<rfloor>" for c
proof
  show "value_of c (decimal_of c v) = v" if "0 < ct_valueRange c \<and> v = of_int \<lfloor>v\<rfloor>" for v
  proof -
    have "ct_startValue c + decimal_of c v * ct_valueRange c = v" using that by (simp add: decimal_of_def)
    moreover have "round_half_up (of_int k) = k" for k by (simp add: round_half_up_def floor_eq_iff)
    ultimately show ?thesis using that unfolding value_of_def by metis
  qed
qed (simp add: decimal_of_def divide_right_mono)

text \<open>
  Category values and pixels. After the ticks are built, every tick has a pixel between the two ends of an axis
  whose limits are indices of labels, and the value at this pixel is the tick.
\<close>

theorem category_pixel_roundtrip:
  fixes v :: int
  assumes "buildTicks offset c = (ticks, c')" and "v \<in> set ticks"
    and "0 \<le> ct_min c" and "ct_max c < int (length (ct_labels c))"
    and "drawable s"
  shows "\<exists>p. getPixelForValue ratio s (Num (Fin (of_int v))) c' = (Fin p, c') \<and>
    sl_startPixel s \<le> p \<and> p \<le> sl_endPixel s \<and> getValueForPixel s (Fin p) c' = Fin (of_int v)"
proof -
  define len where "len = ct_max c - ct_min c + 1"
  have v: "ct_min c \<le> v" "v \<le> ct_max c" using assms(1,2) by (auto simp: buildTicks_def Let_def)
  have "length (slice (ct_labels c) (ct_min c) (ct_max c + 1)) = nat len"
    using assms(3,4) v by (simp add: slice_def slice_end_def len_def)
  then have R: "ct_valueRange c' = max (of_int len - (if offset then 0 else 1)) 1"
    and S: "ct_startValue c' = of_int (ct_min c) - (if offset then 1 / 2 else 0)"
    using assms(1) v by (auto simp: buildTicks_def Let_def len_def)
  have "0 \<le> of_int v - ct_startValue c'" "of_int v - ct_startValue c' \<le> ct_valueRange c'"
    using v by (auto simp: R S len_def)
  then have d: "0 \<le> decimal_of c' (of_int v)" "decimal_of c' (of_int v) \<le> 1" and pos: "0 < ct_valueRange c'"
    by (simp_all add: decimal_of_def R)
  have "\<exists>p. getPixelForDecimal ratio s (Fin (decimal_of c' (of_int v))) = Fin p \<and> sl_startPixel s \<le> p \<and>
      p \<le> sl_endPixel s \<and> getDecimalForPixel s (Fin p) = Fin (decimal_of c' (of_int v)) \<and>
      value_of c' (decimal_of c' (of_int v)) = of_int v"
    using pos d by (intro ca.on_axis assms(5)) simp_all
  then show ?thesis
    using pos by (fastforce simp: getPixelForValue_def getValueForPixel_def decimal_of_def value_of_def)
qed

theorem category_pixel_roundtrip_witness:
  "getValueForPixel sample_scale (fst (getPixelForValue 1 sample_scale (Num (Fin 1)) (snd (buildTicks True sample_category))))
     (snd (buildTicks True sample_category)) = Fin 1"
  using category_pixel_roundtrip [OF prod.collapse [symmetric], of 1 True sample_category sample_scale 1]
  by (auto simp: sample_category_def sample_scale_def buildTicks_def drawable_def)

end
