(* ===== verification/Log_Scale.thy ===== *)
theory Log_Scale
  imports Scale "HOL-Library.Monad_Syntax"
begin

text \<open>
  The logarithmic axis (\<^verbatim>\<open>chart.js\<close>, \<open>isMajor\<close>, \<open>generateTicks\<close> and the class
  \<open>LogarithmicScale\<close>).

  Logarithms and powers of ten are exact. Limits that the user defines are positive, since
  \<open>parse\<close> turns any other value into a missing one; a missing limit is \<open>None\<close>. The
  loop that generates ticks is a partial function, and it is shown to end.
\<close>

section \<open>Ticks\<close>

definition pow10 :: "int \<Rightarrow> real" where
  "pow10 k = 10 powr of_int k"

definition isMajor :: "real \<Rightarrow> bool" where
  "isMajor tickVal \<longleftrightarrow> tickVal / pow10 \<lfloor>log 10 tickVal\<rfloor> = 1"

text \<open>
  The body of the loop, from the current exponent, significand, precision and value: one tick is
  pushed before the condition is tested. The result holds the ticks pushed and the value after them.
\<close>

partial_function (option) log_loop :: "int \<Rightarrow> int \<Rightarrow> int \<Rightarrow> int \<Rightarrow> real \<Rightarrow> real \<Rightarrow> ((real \<times> bool) list \<times> real) option" where
  "log_loop endExp endSignificand e significand precision tickVal =
     (let significand1 = significand + 1;
          rollover = (significand1 = 10);
          e' = (if rollover then e + 1 else e);
          significand' = (if rollover then 1 else significand1);
          precision' = (if rollover \<and> e' \<ge> 0 then 1 else precision);
          tickVal' = of_int (round_half_up (of_int significand' * pow10 e' * precision')) / precision'
      in if e' < endExp \<or> (e' = endExp \<and> significand' < endSignificand) then
           do {
             (ticks, v) \<leftarrow> log_loop endExp endSignificand e' significand' precision' tickVal';
             Some ((tickVal, isMajor tickVal) # ticks, v)
           }
         else Some ([(tickVal, isMajor tickVal)], tickVal'))"

definition generateTicks :: "real option \<Rightarrow> real option \<Rightarrow> real \<times> real \<Rightarrow> (real \<times> bool) list option" where
  "generateTicks gmin gmax dataRange =
     (let (dmin, dmax) = dataRange;
          endExp = \<lfloor>log 10 dmax\<rfloor>;
          endSignificand = \<lceil>dmax / pow10 endExp\<rceil>;
          tickVal = (case gmin of Some m \<Rightarrow> m | None \<Rightarrow> pow10 \<lfloor>log 10 dmin\<rfloor>);
          e = \<lfloor>log 10 tickVal\<rfloor>;
          significand = \<lfloor>tickVal / pow10 e\<rfloor>;
          precision = (if e < 0 then pow10 \<bar>e\<bar> else 1)
      in do {
        (ticks, v) \<leftarrow> log_loop endExp endSignificand e significand precision tickVal;
        Some (ticks @ [(case gmax of Some m \<Rightarrow> m | None \<Rightarrow> v, isMajor v)])
      })"

section \<open>The axis\<close>

record log_axis =
  lg_min :: "real option"
  lg_max :: "real option"
  lg_zero :: bool
  lg_start :: "real option"
  lg_end :: "real option"
  lg_startValue :: real
  lg_valueRange :: real

text \<open>\<open>parse\<close> on the result of the linear \<open>parse\<close>; the second component is the flag \<open>_zero\<close>.\<close>

definition parse :: "jsval \<Rightarrow> log_axis \<Rightarrow> jsval \<times> log_axis" where
  "parse v l =
     (case v of
        Num (Fin x) \<Rightarrow> if x = 0 then (Undefined, l\<lparr>lg_zero := True\<rparr>) else (if 0 < x then v else Null, l)
      | _ \<Rightarrow> (Null, l))"

text \<open>The closure \<open>exp\<close>; the logarithm of a number that is not positive gives the power 0.\<close>

definition exp_of :: "real \<Rightarrow> int \<Rightarrow> real" where
  "exp_of v m = (if v \<le> 0 then 0 else pow10 (\<lfloor>log 10 v\<rfloor> + m))"

definition set_limit :: "bool \<Rightarrow> real option \<Rightarrow> real \<Rightarrow> real option" where
  "set_limit defined old v = (if defined then old else Some v)"

text \<open>A missing limit is \<open>null\<close>, which is 0 in comparisons and calculations.\<close>

definition nv :: "real option \<Rightarrow> real" where
  "nv v = (case v of Some x \<Rightarrow> x | None \<Rightarrow> 0)"

definition handleTickRangeOptions :: "bool \<Rightarrow> bool \<Rightarrow> real option \<Rightarrow> log_axis \<Rightarrow> log_axis" where
  "handleTickRangeOptions minDefined maxDefined suggestedMin l =
     (let setMin = set_limit minDefined; setMax = set_limit maxDefined;
          mn0 = lg_min l; mx0 = lg_max l;
          (mn1, mx1) = (if mn0 = mx0 then
                          (if nv mn0 \<le> 0 then (setMin mn0 1, setMax mx0 10)
                           else (setMin mn0 (exp_of (nv mn0) (- 1)), setMax mx0 (exp_of (nv mx0) 1)))
                        else (mn0, mx0));
          mn2 = (if nv mn1 \<le> 0 then setMin mn1 (exp_of (nv mx1) (- 1)) else mn1);
          mx2 = (if nv mx1 \<le> 0 then setMax mx1 (exp_of (nv mn2) 1) else mx1);
          mn3 = (if lg_zero l \<and> lg_min l \<noteq> suggestedMin \<and> mn2 = Some (exp_of (nv (lg_min l)) 0)
                 then setMin mn2 (exp_of (nv mn2) (- 1)) else mn2)
      in l\<lparr>lg_min := mn3, lg_max := mx2\<rparr>)"

definition clamp0 :: "jsnum \<Rightarrow> real option" where
  "clamp0 x = (case x of Fin r \<Rightarrow> Some (max 0 r) | _ \<Rightarrow> None)"

definition determineDataLimits :: "bool \<Rightarrow> user_bounds \<Rightarrow> real option \<Rightarrow> jsnum \<times> jsnum \<Rightarrow> log_axis \<Rightarrow> log_axis" where
  "determineDataLimits beginAtZero ub suggestedMin mm l =
     (let l1 = l\<lparr>lg_min := clamp0 (fst mm), lg_max := clamp0 (snd mm)\<rparr>;
          l2 = (if beginAtZero then l1\<lparr>lg_zero := True\<rparr> else l1)
      in handleTickRangeOptions (ub_minDefined ub) (ub_maxDefined ub) suggestedMin l2)"

text \<open>The limits are those that \<open>determineDataLimits\<close> leaves, which are not missing.\<close>

definition buildTicks :: "real option \<Rightarrow> real option \<Rightarrow> bool \<Rightarrow> bool \<Rightarrow> log_axis \<Rightarrow> ((real \<times> bool) list \<times> log_axis) option" where
  "buildTicks userMin userMax ticksBounds reverse l =
     do {
       ticks \<leftarrow> generateTicks userMin userMax (nv (lg_min l), nv (lg_max l));
       let l1 = (if ticksBounds
                 then l\<lparr>lg_min := Some (fold (\<lambda>t m. min m (fst t)) ticks (nv (lg_min l))),
                        lg_max := Some (fold (\<lambda>t m. max m (fst t)) ticks (nv (lg_max l)))\<rparr> else l);
       Some (if reverse then (rev ticks, l1\<lparr>lg_start := lg_max l1, lg_end := lg_min l1\<rparr>)
             else (ticks, l1\<lparr>lg_start := lg_min l1, lg_end := lg_max l1\<rparr>))
     }"

definition configure :: "scale \<Rightarrow> log_axis \<Rightarrow> scale \<times> log_axis" where
  "configure s l =
     (scale_configure s,
      l\<lparr>lg_startValue := log 10 (nv (lg_min l)), lg_valueRange := log 10 (nv (lg_max l)) - log 10 (nv (lg_min l))\<rparr>)"

text \<open>A missing or zero value is placed at the lower limit; other values are positive.\<close>

definition getPixelForValue :: "real \<Rightarrow> scale \<Rightarrow> log_axis \<Rightarrow> jsval \<Rightarrow> jsnum" where
  "getPixelForValue ratio s l v =
     (let v1 = (if v = Undefined \<or> v = Num (Fin 0) then Num (Fin (nv (lg_min l))) else v) in
      case v1 of
        Num (Fin x) \<Rightarrow>
          getPixelForDecimal ratio s
            (if Some x = lg_min l then 0 else (Fin (log 10 x) - Fin (lg_startValue l)) / Fin (lg_valueRange l))
      | _ \<Rightarrow> NaN)"

definition getValueForPixel :: "scale \<Rightarrow> log_axis \<Rightarrow> real \<Rightarrow> jsnum" where
  "getValueForPixel s l pixel =
     (case getDecimalForPixel s (Fin pixel) of
        Fin decimal \<Rightarrow> Fin (10 powr (lg_startValue l + decimal * lg_valueRange l))
      | _ \<Rightarrow> NaN)"

section \<open>Ticks: properties\<close>

lemma pow10_pos [simp]: "0 < pow10 k"
  by (simp add: pow10_def)

lemma pow10_nz [simp]: "pow10 k \<noteq> 0"
  by (simp add: pow10_def)

lemma pow10_add: "pow10 (a + b) = pow10 a * pow10 b"
  by (simp add: pow10_def powr_add)

lemma pow10_1 [simp]: "pow10 1 = 10" and pow10_0 [simp]: "pow10 0 = 1"
  by (simp_all add: pow10_def)

lemma pow10_Ints: "0 \<le> k \<Longrightarrow> pow10 k \<in> \<int>"
  by (auto elim!: nonneg_int_cases simp: pow10_def powr_realpow)

text \<open>The ticks in order: the multiples 1 to 9 of each power of ten, from the power \<open>e\<close> on.\<close>

definition log_value :: "int \<Rightarrow> nat \<Rightarrow> real" where
  "log_value e n = of_int (int (n mod 9) + 1) * pow10 (e + int (n div 9))"

lemma log_value_at: "b < 10 \<Longrightarrow> log_value e (9 * a + b) = real (b + 1) * pow10 (e + int a)"
proof (cases "b < 9")
  case False
  assume "b < 10"
  with False have "b = 9" by simp
  then show ?thesis by (simp add: log_value_def pow10_add)
qed (simp add: log_value_def)

lemma log_value_Suc: "log_value e n < log_value e (Suc n)"
proof -
  define a b where "a = n div 9" and "b = n mod 9"
  have n: "n = 9 * a + b" "b < 9" by (simp_all add: a_def b_def)
  have "log_value e n = real (b + 1) * pow10 (e + int a)"
    using log_value_at [of b e a] n by simp
  moreover have "log_value e (Suc n) = real (b + 2) * pow10 (e + int a)"
    using log_value_at [of "b + 1" e a] n by simp
  ultimately show ?thesis by simp
qed

lemma log_value_mono: "m \<le> n \<Longrightarrow> log_value e m \<le> log_value e n"
  by (rule lift_Suc_mono_le [of "log_value e"]) (simp_all add: less_imp_le [OF log_value_Suc])

lemma isMajor_value: "isMajor (log_value e n) \<longleftrightarrow> n mod 9 = 0"
proof -
  define a b where "a = n div 9" and "b = n mod 9"
  have v: "log_value e n = real (b + 1) * pow10 (e + int a)" "b < 9"
    by (simp_all add: log_value_def a_def b_def)
  have "log 10 (log_value e n) = log 10 (real (b + 1)) + of_int (e + int a)"
    by (simp add: v(1) log_mult pow10_def)
  moreover have "0 \<le> log 10 (real (b + 1))" "log 10 (real (b + 1)) < 1"
    using v(2) by (simp_all add: log_less_iff)
  ultimately have "\<lfloor>log 10 (log_value e n)\<rfloor> = e + int a" by (intro floor_unique) simp_all
  then have "isMajor (log_value e n) \<longleftrightarrow> real (b + 1) = 1"
    using pow10_pos [of "e + int a"] by (simp add: isMajor_def v(1))
  then show ?thesis by (simp add: b_def)
qed

definition tick_of :: "int \<Rightarrow> nat \<Rightarrow> real \<times> bool" where
  "tick_of e n = (log_value e n, n mod 9 = 0)"

lemma round_int_mult:
  assumes "0 \<le> p" and "0 \<le> e + p"
  shows "of_int (round_half_up (of_int m * pow10 e * pow10 p)) / pow10 p = of_int m * pow10 e"
proof -
  have "of_int m * pow10 e * pow10 p \<in> \<int>"
    using pow10_Ints [OF assms(2)] by (simp add: pow10_add mult.assoc)
  then have "of_int (round_half_up (of_int m * pow10 e * pow10 p)) = of_int m * pow10 e * pow10 p"
    by (auto elim!: Ints_cases simp: round_half_up_def floor_eq_iff)
  then show ?thesis using pow10_pos [of p] by simp
qed

lemma log_loop_step:
  assumes "0 \<le> p" and "0 \<le> e0 + int (n div 9) + p"
  shows "\<exists>q \<ge> 0. 0 \<le> e0 + int (Suc n div 9) + q \<and>
    log_loop endExp endSig (e0 + int (n div 9)) (int (n mod 9) + 1) (pow10 p) (log_value e0 n) =
      (if e0 + int (Suc n div 9) < endExp \<or> (e0 + int (Suc n div 9) = endExp \<and> int (Suc n mod 9) + 1 < endSig)
       then map_option (\<lambda>(ts, v). (tick_of e0 n # ts, v))
         (log_loop endExp endSig (e0 + int (Suc n div 9)) (int (Suc n mod 9) + 1) (pow10 q) (log_value e0 (Suc n)))
       else Some ([tick_of e0 n], log_value e0 (Suc n)))"
proof -
  define roll where "roll \<longleftrightarrow> n mod 9 = 8"
  have dm: "Suc n div 9 = (if roll then Suc (n div 9) else n div 9)" "Suc n mod 9 = (if roll then 0 else Suc (n mod 9))"
    by (auto simp: roll_def mod_Suc div_Suc)
  define q where "q = (if roll \<and> 0 \<le> e0 + int (Suc n div 9) then 0 else p)"
  have q: "0 \<le> q" "0 \<le> e0 + int (Suc n div 9) + q" using assms by (auto simp: q_def dm)
  have prec: "(if roll \<and> 0 \<le> e0 + int (Suc n div 9) then 1 else pow10 p) = pow10 q" by (simp add: q_def)
  have val: "of_int (round_half_up (of_int (int (Suc n mod 9) + 1) * pow10 (e0 + int (Suc n div 9)) * pow10 q)) / pow10 q
      = log_value e0 (Suc n)"
    unfolding log_value_def by (rule round_int_mult [OF q])
  have roll': "(int (n mod 9) + 1 + 1 = 10) = roll" by (auto simp: roll_def)
  have e': "(if roll then e0 + int (n div 9) + 1 else e0 + int (n div 9)) = e0 + int (Suc n div 9)"
    and s': "(if roll then 1 else int (n mod 9) + 1 + 1) = int (Suc n mod 9) + 1" by (simp_all add: dm)
  have "log_loop endExp endSig (e0 + int (n div 9)) (int (n mod 9) + 1) (pow10 p) (log_value e0 n) =
      (if e0 + int (Suc n div 9) < endExp \<or> (e0 + int (Suc n div 9) = endExp \<and> int (Suc n mod 9) + 1 < endSig)
       then do { (ts, v) \<leftarrow> log_loop endExp endSig (e0 + int (Suc n div 9)) (int (Suc n mod 9) + 1) (pow10 q) (log_value e0 (Suc n));
                 Some ((log_value e0 n, isMajor (log_value e0 n)) # ts, v) }
       else Some ([(log_value e0 n, isMajor (log_value e0 n))], log_value e0 (Suc n)))"
    by (subst log_loop.simps) (simp only: Let_def roll' e' s' prec val)
  then show ?thesis using q
    by (intro exI [of _ q]) (auto simp: isMajor_value tick_of_def bind_map_option [symmetric] map_option_case
        split: option.split)
qed

text \<open>The condition of the loop at the tick of an index.\<close>

lemma loop_condition:
  assumes "1 \<le> endSig" "endSig \<le> 10"
  shows "(e0 + int (n div 9) < endExp \<or> (e0 + int (n div 9) = endExp \<and> int (n mod 9) + 1 < endSig)) \<longleftrightarrow>
    int n < (endExp - e0) * 9 + endSig - 1"
proof -
  define a b where "a = n div 9" and "b = n mod 9"
  have "n = 9 * a + b" "b < 9" by (simp_all add: a_def b_def)
  then show ?thesis using assms unfolding a_def [symmetric] b_def [symmetric] by auto
qed

lemma log_loop_returns:
  assumes "1 \<le> endSig" "endSig \<le> 10" and "0 \<le> p" "0 \<le> e0 + int (n div 9) + p"
  shows "log_loop endExp endSig (e0 + int (n div 9)) (int (n mod 9) + 1) (pow10 p) (log_value e0 n) =
    (let m = max (Suc n) (nat ((endExp - e0) * 9 + endSig - 1)) in Some (map (tick_of e0) [n..<m], log_value e0 m))"
  using assms(3,4)
proof (induction "nat ((endExp - e0) * 9 + endSig - 1) - n" arbitrary: n p)
  case 0
  define T where "T = nat ((endExp - e0) * 9 + endSig - 1)"
  have T: "T \<le> Suc n" and c: "\<not> int (Suc n) < (endExp - e0) * 9 + endSig - 1" using 0(1) by (simp_all add: T_def)
  from log_loop_step [OF 0(2,3), of endExp endSig] c
  have "log_loop endExp endSig (e0 + int (n div 9)) (int (n mod 9) + 1) (pow10 p) (log_value e0 n)
      = Some ([tick_of e0 n], log_value e0 (Suc n))"
    unfolding loop_condition [OF assms(1,2)] by auto
  then show ?case using T unfolding T_def [symmetric] Let_def by (simp add: max_absorb1)
next
  case (Suc k)
  define T where "T = nat ((endExp - e0) * 9 + endSig - 1)"
  from log_loop_step [OF Suc(3,4), of endExp endSig] obtain q
    where q: "0 \<le> q" "0 \<le> e0 + int (Suc n div 9) + q" and
      step: "log_loop endExp endSig (e0 + int (n div 9)) (int (n mod 9) + 1) (pow10 p) (log_value e0 n) =
      (if int (Suc n) < (endExp - e0) * 9 + endSig - 1
       then map_option (\<lambda>(ts, v). (tick_of e0 n # ts, v))
         (log_loop endExp endSig (e0 + int (Suc n div 9)) (int (Suc n mod 9) + 1) (pow10 q) (log_value e0 (Suc n)))
       else Some ([tick_of e0 n], log_value e0 (Suc n)))"
    unfolding loop_condition [OF assms(1,2)] by blast
  show ?case
  proof (cases "int (Suc n) < (endExp - e0) * 9 + endSig - 1")
    case True
    then have T: "Suc n < T" by (simp add: T_def)
    have "k = nat ((endExp - e0) * 9 + endSig - 1) - Suc n" using Suc(2) by simp
    from Suc(1) [OF this q] True step T show ?thesis
      unfolding T_def [symmetric] Let_def by (simp add: upt_conv_Cons)
  next
    case False
    then have "T \<le> Suc n" by (simp add: T_def)
    with False step show ?thesis unfolding T_def [symmetric] Let_def by (simp add: max_absorb1)
  qed
qed

lemma floor_log_bounds:
  assumes "0 < x"
  shows "pow10 \<lfloor>log 10 x\<rfloor> \<le> x" and "x < 10 * pow10 \<lfloor>log 10 x\<rfloor>"
proof -
  define k where "k = \<lfloor>log 10 x\<rfloor>"
  have k: "of_int k \<le> log 10 x" "log 10 x < of_int (k + 1)" unfolding k_def by linarith+
  from k(1) assms show "pow10 \<lfloor>log 10 x\<rfloor> \<le> x" unfolding k_def [symmetric] by (simp add: pow10_def le_log_iff)
  from k(2) assms have "x < pow10 (k + 1)" by (simp add: pow10_def log_less_iff)
  then show "x < 10 * pow10 \<lfloor>log 10 x\<rfloor>" unfolding k_def [symmetric] by (simp add: pow10_add)
qed

text \<open>The value of the first tick only matters for that tick.\<close>

lemma log_loop_first:
  "log_loop endExp endSig e significand precision v =
     map_option (\<lambda>(ts, w). ((v, isMajor v) # tl ts, w)) (log_loop endExp endSig e significand precision v')"
  unfolding log_loop.simps [of endExp endSig e significand precision v] log_loop.simps [of endExp endSig e significand precision v'] Let_def
  by (auto split: bind_splits)

lemma start_index:
  assumes "0 < v" and "e = \<lfloor>log 10 v\<rfloor>" and "k = nat (\<lfloor>v / pow10 e\<rfloor> - 1)"
  shows "k < 9" "\<lfloor>v / pow10 e\<rfloor> = int (k mod 9) + 1" "k div 9 = 0" "log_value e k \<le> v" "v < log_value e (Suc k)"
proof -
  note f = floor_log_bounds [OF assms(1), folded assms(2)]
  have "1 \<le> v / pow10 e" "v / pow10 e < 10" using f by (simp_all add: field_simps)
  then have s: "1 \<le> \<lfloor>v / pow10 e\<rfloor>" "\<lfloor>v / pow10 e\<rfloor> < 10" by (simp_all add: floor_less_iff)
  show k: "k < 9" using s unfolding assms(3) by linarith
  have "\<lfloor>v / pow10 e\<rfloor> = int k + 1" using s(1) unfolding assms(3) by linarith
  with k show sk: "\<lfloor>v / pow10 e\<rfloor> = int (k mod 9) + 1" and "k div 9 = 0" by simp_all
  have "of_int \<lfloor>v / pow10 e\<rfloor> \<le> v / pow10 e" "v / pow10 e < of_int \<lfloor>v / pow10 e\<rfloor> + 1" by simp_all
  then have "(real k + 1) * pow10 e \<le> v" "v < (real k + 2) * pow10 e"
    using k unfolding sk by (simp_all add: field_simps)
  moreover have "log_value e k = (real k + 1) * pow10 e" "log_value e (Suc k) = (real k + 2) * pow10 e"
    using log_value_at [of k e 0] log_value_at [of "Suc k" e 0] k by (simp_all add: add.commute)
  ultimately show "log_value e k \<le> v" "v < log_value e (Suc k)" by simp_all
qed

text \<open>The tick at which the loop stops reaches the largest datum.\<close>

lemma last_reaches:
  assumes "0 < dmax" and "endExp = \<lfloor>log 10 dmax\<rfloor>" and "endSig = \<lceil>dmax / pow10 endExp\<rceil>"
  shows "1 \<le> endSig" "endSig \<le> 10" "dmax \<le> log_value e (nat ((endExp - e) * 9 + endSig - 1))"
proof -
  note f = floor_log_bounds [OF assms(1), folded assms(2)]
  have one: "1 \<le> dmax / pow10 endExp" "dmax / pow10 endExp < 10" using f by (simp_all add: field_simps)
  then show sig: "1 \<le> endSig" "endSig \<le> 10" unfolding assms(3) by linarith+
  have dm: "dmax \<le> of_int endSig * pow10 endExp"
    using pow10_pos [of endExp] unfolding assms(3) by (simp flip: pos_divide_le_eq)
  show "dmax \<le> log_value e (nat ((endExp - e) * 9 + endSig - 1))"
  proof (cases "e \<le> endExp")
    case True
    define a where "a = nat (endExp - e)"
    have T: "nat ((endExp - e) * 9 + endSig - 1) = 9 * a + nat (endSig - 1)" using True sig by (simp add: a_def)
    have "log_value e (nat ((endExp - e) * 9 + endSig - 1)) = real (nat (endSig - 1) + 1) * pow10 (e + int a)"
      unfolding T using sig by (intro log_value_at) simp
    also have "\<dots> = of_int endSig * pow10 endExp" using True sig by (simp add: a_def)
    finally show ?thesis using dm by simp
  next
    case False
    then have "pow10 (endExp + 1) \<le> pow10 e" by (simp add: pow10_def)
    then have "dmax \<le> log_value e 0" using f(2) by (simp add: log_value_def pow10_add)
    also have "\<dots> \<le> log_value e (nat ((endExp - e) * 9 + endSig - 1))" by (rule log_value_mono) simp
    finally show ?thesis .
  qed
qed

text \<open>
  C30 (ticks of a logarithmic axis). For positive data, and positive limits of the user where there are any, the generation ends. The first tick
  is the lower limit of the user, or else the power of ten at or below the smallest datum; the next ones are the following multiples 1 to 9 of powers
  of ten, in strictly increasing order and without a gap, up to one that is at least the largest datum, in place of which the upper limit of the user
  is put where there is one. Of the multiples exactly the powers of ten are major.
\<close>

theorem log_ticks_complete:
  assumes "0 < dmin" and "dmin \<le> dmax" and "\<forall>a. gmin = Some a \<longrightarrow> 0 < a"
    and "v = (case gmin of Some a \<Rightarrow> a | None \<Rightarrow> pow10 \<lfloor>log 10 dmin\<rfloor>)"
  shows "\<exists>e k m. k < m \<and> log_value e k \<le> v \<and> v < log_value e (Suc k) \<and> dmax \<le> log_value e m \<and>
    (gmin = None \<longrightarrow> log_value e k = v \<and> k = 0 \<and> v \<le> dmin \<and> dmin < 10 * v) \<and>
    generateTicks gmin gmax (dmin, dmax) =
      Some ((v, isMajor v) # map (tick_of e) [Suc k..<m] @ [(case gmax of Some b \<Rightarrow> b | None \<Rightarrow> log_value e m, m mod 9 = 0)]) \<and>
    sorted_wrt (<) (v # map (log_value e) [Suc k..<Suc m])"
proof -
  define e where "e = \<lfloor>log 10 v\<rfloor>"
  define k where "k = nat (\<lfloor>v / pow10 e\<rfloor> - 1)"
  define endExp where "endExp = \<lfloor>log 10 dmax\<rfloor>"
  define endSig where "endSig = \<lceil>dmax / pow10 endExp\<rceil>"
  define m where "m = max (Suc k) (nat ((endExp - e) * 9 + endSig - 1))"
  define p where "p = (if e < 0 then \<bar>e\<bar> else 0)"
  have v: "0 < v" using assms(3,4) by (simp split: option.splits)
  note st = start_index [OF v e_def k_def]
  have "0 < dmax" using assms(1,2) by simp
  note en = last_reaches(1,2) [OF this endExp_def endSig_def] last_reaches(3) [OF this endExp_def endSig_def, of e]
  have p: "0 \<le> p" "0 \<le> e + int (k div 9) + p" "(if e < 0 then pow10 \<bar>e\<bar> else 1) = pow10 p" using st(3) by (simp_all add: p_def)
  have km: "k < m" by (simp add: m_def)
  have "log_loop endExp endSig e (int (k mod 9) + 1) (pow10 p) (log_value e k) = Some (map (tick_of e) [k..<m], log_value e m)"
    using log_loop_returns [OF en(1,2) p(1,2), of endExp] st(3) by (simp add: m_def Let_def)
  then have "log_loop endExp endSig e (int (k mod 9) + 1) (pow10 p) v = Some ((v, isMajor v) # map (tick_of e) [Suc k..<m], log_value e m)"
    using km by (subst log_loop_first [of _ _ _ _ _ _ "log_value e k"]) (simp add: upt_conv_Cons)
  then have gen: "generateTicks gmin gmax (dmin, dmax) =
      Some ((v, isMajor v) # map (tick_of e) [Suc k..<m] @ [(case gmax of Some b \<Rightarrow> b | None \<Rightarrow> log_value e m, m mod 9 = 0)])"
    unfolding generateTicks_def Let_def prod.case assms(4) [symmetric] e_def [symmetric] endExp_def [symmetric]
      endSig_def [symmetric] st(2) p(3)
    by (simp add: isMajor_value)
  have top: "dmax \<le> log_value e m" using en(3) log_value_mono [of "nat ((endExp - e) * 9 + endSig - 1)" m e] by (simp add: m_def)
  have less: "log_value e i < log_value e j" if "i < j" for i j
    using lift_Suc_mono_less [of "log_value e", OF log_value_Suc that] .
  have "sorted_wrt (<) (map (log_value e) [Suc k..<Suc m])" by (simp add: sorted_wrt_iff_nth_less less del: upt_Suc)
  moreover have "v < log_value e i" if "Suc k \<le> i" for i using log_value_mono [OF that, of e] st(5) by simp
  ultimately have so: "sorted_wrt (<) (v # map (log_value e) [Suc k..<Suc m])" by (simp del: upt_Suc)
  have none: "log_value e k = v \<and> k = 0 \<and> v \<le> dmin \<and> dmin < 10 * v" if "gmin = None"
  proof -
    have vd: "v = pow10 \<lfloor>log 10 dmin\<rfloor>" using that assms(4) by simp
    then have "e = \<lfloor>log 10 dmin\<rfloor>" by (simp add: e_def pow10_def)
    then have ve: "v = pow10 e" using vd by simp
    then have "k = 0" by (simp add: k_def)
    then show ?thesis using floor_log_bounds [OF assms(1)] ve vd by (simp add: log_value_def)
  qed
  show ?thesis using km st(4,5) top none gen so by (intro exI [of _ e] exI [of _ k] exI [of _ m]) blast
qed

theorem log_ticks_complete_witness:
  "\<exists>e k m. generateTicks (Some (5 / 2)) None (5 / 2, 300) =
     Some ((5 / 2, isMajor (5 / 2)) # map (tick_of e) [Suc k..<m] @ [(log_value e m, m mod 9 = 0)]) \<and> 300 \<le> log_value e m"
  using log_ticks_complete [of "5 / 2" 300 "Some (5 / 2)" "5 / 2" None] by auto

section \<open>Limits and pixels: properties\<close>

lemma exp_of_pos: "0 < v \<Longrightarrow> exp_of v m = pow10 (\<lfloor>log 10 v\<rfloor> + m)"
  by (simp add: exp_of_def)

lemma exp_of_below: "0 < v \<Longrightarrow> 0 < exp_of v (- 1) \<and> exp_of v (- 1) < v"
proof -
  assume v: "0 < v"
  have "pow10 (\<lfloor>log 10 v\<rfloor> + - 1) * 10 = pow10 \<lfloor>log 10 v\<rfloor>" by (simp flip: pow10_add pow10_1)
  with floor_log_bounds(1) [OF v] pow10_pos [of "\<lfloor>log 10 v\<rfloor> + - 1"] show ?thesis
    unfolding exp_of_pos [OF v] by linarith
qed

lemma exp_of_above: "0 < v \<Longrightarrow> v < exp_of v 1"
  using floor_log_bounds(2) [of v] by (simp add: exp_of_pos pow10_add)

text \<open>Limits as \<open>getMinMax\<close> gives them: in order, never negative, positive when user-defined, missing together.\<close>

definition wf_limits :: "bool \<Rightarrow> bool \<Rightarrow> log_axis \<Rightarrow> bool" where
  "wf_limits minDefined maxDefined l \<longleftrightarrow>
     0 \<le> nv (lg_min l) \<and> nv (lg_min l) \<le> nv (lg_max l) \<and> (lg_min l = None \<longleftrightarrow> lg_max l = None) \<and>
     (minDefined \<longrightarrow> 0 < nv (lg_min l)) \<and> (maxDefined \<longrightarrow> 0 < nv (lg_max l))"

text \<open>The limits before the lower one is moved for the sake of zero.\<close>

definition base_limits :: "bool \<Rightarrow> bool \<Rightarrow> real option \<Rightarrow> real option \<Rightarrow> real option \<times> real option" where
  "base_limits minDefined maxDefined mn0 mx0 =
     (let (mn1, mx1) = (if mn0 = mx0 then
                          (if nv mn0 \<le> 0 then (set_limit minDefined mn0 1, set_limit maxDefined mx0 10)
                           else (set_limit minDefined mn0 (exp_of (nv mn0) (- 1)), set_limit maxDefined mx0 (exp_of (nv mx0) 1)))
                        else (mn0, mx0));
          mn2 = (if nv mn1 \<le> 0 then set_limit minDefined mn1 (exp_of (nv mx1) (- 1)) else mn1)
      in (mn2, if nv mx1 \<le> 0 then set_limit maxDefined mx1 (exp_of (nv mn2) 1) else mx1))"

lemma nv_Some: "nv (Some x) = x"
  by (simp add: nv_def)

lemma handle_base:
  "handleTickRangeOptions minDefined maxDefined sug l =
     (let (mn, mx) = base_limits minDefined maxDefined (lg_min l) (lg_max l) in
      l\<lparr>lg_min := (if lg_zero l \<and> lg_min l \<noteq> sug \<and> mn = Some (exp_of (nv (lg_min l)) 0)
                   then set_limit minDefined mn (exp_of (nv mn) (- 1)) else mn),
        lg_max := mx\<rparr>)"
  unfolding handleTickRangeOptions_def base_limits_def Let_def by (simp split: prod.split)

lemma base_limits_ok:
  assumes "wf_limits minDefined maxDefined l"
  shows "\<exists>a b. base_limits minDefined maxDefined (lg_min l) (lg_max l) = (Some a, Some b) \<and> 0 < a \<and>
    (a < b \<or> a = b \<and> minDefined \<and> maxDefined) \<and> nv (lg_max l) \<le> b \<and> (0 < nv (lg_min l) \<longrightarrow> a \<le> nv (lg_min l)) \<and>
    (minDefined \<longrightarrow> lg_min l = Some a) \<and> (maxDefined \<longrightarrow> lg_max l = Some b)"
proof (cases "nv (lg_max l) = 0")
  case True
  with assms have "\<not> minDefined" "\<not> maxDefined" "lg_min l = lg_max l"
    by (auto simp: wf_limits_def nv_def split: option.splits)
  with True show ?thesis by (simp add: base_limits_def set_limit_def nv_def Let_def)
next
  case False
  then obtain x y where xy: "lg_min l = Some x" "lg_max l = Some y" "0 \<le> x" "x \<le> y" "0 < y"
    using assms by (auto simp: wf_limits_def nv_def split: option.splits)
  note y = exp_of_below [OF xy(5)] exp_of_above [OF xy(5)]
  show ?thesis
  proof (cases "x = y")
    case True
    with xy y show ?thesis by (auto simp: base_limits_def set_limit_def nv_def Let_def)
  next
    case F: False
    show ?thesis
    proof (cases "x = 0")
      case True
      with assms xy have "\<not> minDefined" by (auto simp: wf_limits_def nv_def)
      with True xy y F show ?thesis by (simp add: base_limits_def set_limit_def nv_def Let_def)
    qed (use xy y F in \<open>simp add: base_limits_def set_limit_def nv_def Let_def\<close>)
  qed
qed

text \<open>
  Limits of a logarithmic axis. From well-formed limits, missing, zero or equal ones included, the axis gets two positive limits in order around
  the positive data; it keeps a limit that the user has defined; and only two equal limits of the user stay equal.
\<close>

theorem log_limits:
  assumes "wf_limits minDefined maxDefined l"
    and "handleTickRangeOptions minDefined maxDefined suggestedMin l = l'"
  shows "\<exists>a b. lg_min l' = Some a \<and> lg_max l' = Some b \<and> 0 < a \<and>
    (a < b \<or> a = b \<and> minDefined \<and> maxDefined) \<and> nv (lg_max l) \<le> b \<and> (0 < nv (lg_min l) \<longrightarrow> a \<le> nv (lg_min l)) \<and>
    (minDefined \<longrightarrow> lg_min l = Some a) \<and> (maxDefined \<longrightarrow> lg_max l = Some b)"
proof -
  obtain a b where ab: "base_limits minDefined maxDefined (lg_min l) (lg_max l) = (Some a, Some b)" "0 < a"
    "a < b \<or> a = b \<and> minDefined \<and> maxDefined" "nv (lg_max l) \<le> b" "0 < nv (lg_min l) \<longrightarrow> a \<le> nv (lg_min l)"
    "minDefined \<longrightarrow> lg_min l = Some a" "maxDefined \<longrightarrow> lg_max l = Some b"
    using base_limits_ok [OF assms(1)] by blast
  note e = exp_of_below [OF ab(2)]
  have l': "lg_max l' = Some b" "lg_min l' = Some a \<or> \<not> minDefined \<and> lg_min l' = Some (exp_of a (- 1))"
    using assms(2) ab(1) by (auto simp: handle_base nv_Some set_limit_def split: if_splits)
  from l'(2) show ?thesis
  proof
    assume "lg_min l' = Some a"
    with l'(1) ab show ?thesis by blast
  next
    assume m: "\<not> minDefined \<and> lg_min l' = Some (exp_of a (- 1))"
    with ab e have "exp_of a (- 1) < b" "0 < nv (lg_min l) \<longrightarrow> exp_of a (- 1) \<le> nv (lg_min l)" by auto
    with m l'(1) ab e show ?thesis by blast
  qed
qed

theorem log_limits_witness:
  "\<exists>a b. lg_min (handleTickRangeOptions False False None
        \<lparr>lg_min = Some 0, lg_max = Some 70, lg_zero = True, lg_start = None, lg_end = None, lg_startValue = 0, lg_valueRange = 0\<rparr>)
      = Some a \<and> 0 < a \<and> a < b \<and> 70 \<le> b"
  using log_limits [OF _ refl, of False False "\<lparr>lg_min = Some 0, lg_max = Some 70, lg_zero = True, lg_start = None,
      lg_end = None, lg_startValue = 0, lg_valueRange = 0\<rparr>" None]
  by (auto simp: wf_limits_def nv_def)

definition decimal_of :: "log_axis \<Rightarrow> real \<Rightarrow> real" where
  "decimal_of l v = (log 10 v - lg_startValue l) / lg_valueRange l"

definition value_of :: "log_axis \<Rightarrow> real \<Rightarrow> real" where
  "value_of l d = 10 powr (lg_startValue l + d * lg_valueRange l)"

interpretation lo: value_axis "decimal_of l" "value_of l" "\<lambda>v. 0 < v \<and> 0 < lg_valueRange l" for l
  by unfold_locales (simp_all add: decimal_of_def value_of_def divide_right_mono)

text \<open>
  Values of a logarithmic axis on pixels. On a configured axis with positive limits, every value between the limits has a
  pixel between the two ends of the axis, in order of the values, and reading this pixel gives the value back; a value of zero is
  placed at the lower limit.
\<close>

theorem log_values_on_axis:
  assumes "lg_min l = Some a" "lg_max l = Some b" "0 < a" "a < b" and "a \<le> v" "v \<le> b"
    and "configure s0 l = (s, l')" and "drawable s"
  shows "\<exists>p. getPixelForValue ratio s l' (Num (Fin v)) = Fin p \<and> sl_startPixel s \<le> p \<and> p \<le> sl_endPixel s \<and>
    getValueForPixel s l' p = Fin v \<and>
    getPixelForValue ratio s l' (Num (Fin 0)) = getPixelForValue ratio s l' (Num (Fin a))"
proof -
  have l': "lg_min l' = Some a" "lg_startValue l' = log 10 a" "lg_valueRange l' = log 10 b - log 10 a"
    using assms(1,2,7) by (auto simp: configure_def nv_def)
  have r: "0 < lg_valueRange l'" using assms(3,4) by (simp add: l')
  have d: "0 \<le> decimal_of l' v" "decimal_of l' v \<le> 1"
    using assms(3-6) r by (simp_all add: decimal_of_def l')
  have "getPixelForValue ratio s l' (Num (Fin v)) = getPixelForDecimal ratio s (Fin (decimal_of l' v))"
    using assms(3,5) r by (auto simp: getPixelForValue_def Let_def decimal_of_def l')
  moreover have "getPixelForValue ratio s l' (Num (Fin 0)) = getPixelForValue ratio s l' (Num (Fin a))"
    using assms(3) by (simp add: getPixelForValue_def nv_def l')
  moreover have ok: "0 < v \<and> 0 < lg_valueRange l'" using assms(3,5) r by simp
  ultimately show ?thesis
    using lo.on_axis [OF assms(8) ok d, of ratio]
    by (fastforce simp: getValueForPixel_def value_of_def)
qed

theorem log_values_on_axis_witness:
  "\<exists>p. getPixelForValue 1 (scale_configure sample_scale)
      (snd (configure sample_scale \<lparr>lg_min = Some 1, lg_max = Some 1000, lg_zero = False, lg_start = None, lg_end = None,
         lg_startValue = 0, lg_valueRange = 0\<rparr>)) (Num (Fin 50)) = Fin p \<and> 10 \<le> p \<and> p \<le> 110"
  using log_values_on_axis [of "\<lparr>lg_min = Some 1, lg_max = Some 1000, lg_zero = False, lg_start = None, lg_end = None,
         lg_startValue = 0, lg_valueRange = 0\<rparr>" 1 1000 50 sample_scale "scale_configure sample_scale" _ 1]
  by (fastforce simp: configure_def drawable_def scale_configure_def sample_scale_def isHorizontal_def)

end
