(* ===== verification/Decimation.thy ===== *)
theory Decimation
  imports Scale Collections
begin

text \<open>
  The decimation plugin of the charting library (\<^verbatim>\<open>lttbDecimation\<close> to
  \<^verbatim>\<open>plugin_decimation\<close> in \<^verbatim>\<open>chart.js\<close>): the two algorithms that thin out the points
  of a line, and the exchange of the \<open>data\<close> property of a dataset by an accessor while it is thinned out.

  A point is a record with coordinates, which may hold more fields. The caller passes
  a range \<open>start\<close>, \<open>count\<close> of the array of points.
\<close>

record dpoint =
  dp_x :: jsnum
  dp_y :: jsnum

section \<open>Largest triangle three buckets\<close>

definition triangle_area :: "'p dpoint_scheme \<Rightarrow> jsnum \<Rightarrow> jsnum \<Rightarrow> 'p dpoint_scheme \<Rightarrow> jsnum" where
  "triangle_area pA avgX avgY p =
     Fin (1 / 2) * math_abs ((dp_x pA - avgX) * (dp_y p - dp_y pA) - (dp_x pA - dp_x p) * (avgY - dp_y pA))"

text \<open>
  One round of the inner loop over a bucket. The point chosen and its index outlive the bucket: they
  are \<open>None\<close> while no area was larger than \<open>-1\<close> (all areas are \<open>NaN\<close>).
\<close>

definition lttb_pick :: "'p dpoint_scheme list \<Rightarrow> 'p dpoint_scheme \<Rightarrow> jsnum \<Rightarrow> jsnum \<Rightarrow> nat \<Rightarrow>
    jsnum \<times> 'p dpoint_scheme option \<times> nat option \<Rightarrow> jsnum \<times> 'p dpoint_scheme option \<times> nat option" where
  "lttb_pick data pA avgX avgY j st =
     (let (maxArea, maxAreaPoint, nextA) = st; a = triangle_area pA avgX avgY (data ! j)
      in if maxArea < a then (a, Some (data ! j), Some j) else st)"

definition bucket_from :: "nat \<Rightarrow> real \<Rightarrow> nat \<Rightarrow> nat" where
  "bucket_from start bucketWidth k = nat \<lfloor>real k * bucketWidth\<rfloor> + 1 + start"

definition bucket_to :: "nat \<Rightarrow> nat \<Rightarrow> real \<Rightarrow> nat \<Rightarrow> nat" where
  "bucket_to start cnt bucketWidth k = min (nat \<lfloor>real k * bucketWidth\<rfloor> + 1) cnt + start"

definition average :: "('p \<Rightarrow> jsnum) \<Rightarrow> 'p list \<Rightarrow> nat \<Rightarrow> nat \<Rightarrow> jsnum" where
  "average f data from upto' =
     foldl (\<lambda>s j. s + f (data ! j)) 0 [from ..< upto'] / Fin (real_of_int (int upto' - int from))"

record 'p lttb =
  lt_a :: "nat option"
  lt_point :: "'p option"
  lt_nextA :: "nat option"
  lt_out :: "'p option list"

text \<open>
  One round of the outer loop. Reading a point at an undefined index is an exception: the value is
  \<open>None\<close>. What is pushed may be undefined.
\<close>

definition lttb_bucket :: "'p dpoint_scheme list \<Rightarrow> nat \<Rightarrow> nat \<Rightarrow> real \<Rightarrow> nat \<Rightarrow>
    'p dpoint_scheme lttb \<Rightarrow> 'p dpoint_scheme lttb option" where
  "lttb_bucket data start cnt bucketWidth i st =
     (let avgRangeStart = bucket_from start bucketWidth (i + 1);
          avgRangeEnd = bucket_to start cnt bucketWidth (i + 2);
          avgX = average dp_x data avgRangeStart avgRangeEnd;
          avgY = average dp_y data avgRangeStart avgRangeEnd;
          rangeOffs = bucket_from start bucketWidth i;
          rangeTo = bucket_to start cnt bucketWidth (i + 1)
      in case lt_a st of
           None \<Rightarrow> None
         | Some a \<Rightarrow>
             (case fold (lttb_pick data (data ! a) avgX avgY) [rangeOffs ..< rangeTo] (- 1, lt_point st, lt_nextA st) of
                (maxArea, p, n) \<Rightarrow> Some \<lparr>lt_a = n, lt_point = p, lt_nextA = n, lt_out = lt_out st @ [p]\<rparr>))"

fun lttb_loop :: "'p dpoint_scheme list \<Rightarrow> nat \<Rightarrow> nat \<Rightarrow> real \<Rightarrow> nat list \<Rightarrow>
    'p dpoint_scheme lttb \<Rightarrow> 'p dpoint_scheme lttb option" where
  "lttb_loop data start cnt bucketWidth [] st = Some st"
| "lttb_loop data start cnt bucketWidth (i # is) st =
     (case lttb_bucket data start cnt bucketWidth i st of
        None \<Rightarrow> None
      | Some st' \<Rightarrow> lttb_loop data start cnt bucketWidth is st')"

text \<open>
  The loop counts while \<open>i < samples - 2\<close>; with fewer than three samples it never runs, and
  the width of a bucket is not used.
\<close>

definition lttbDecimation :: "'p dpoint_scheme list \<Rightarrow> nat \<Rightarrow> nat \<Rightarrow> real \<Rightarrow> real option \<Rightarrow>
    'p dpoint_scheme option list option" where
  "lttbDecimation data start cnt availableWidth samplesOption =
     (let samples = (case samplesOption of Some s \<Rightarrow> if s \<noteq> 0 then s else availableWidth | None \<Rightarrow> availableWidth)
      in if samples \<ge> real cnt then Some (map Some (take cnt (drop start data)))
         else
           let bucketWidth = (real cnt - 2) / (samples - 2);
               first = \<lparr>lt_a = Some start, lt_point = None, lt_nextA = None, lt_out = [arr_get data (int start)]\<rparr>
           in map_option (\<lambda>st. lt_out st @ [arr_get data (int start + int cnt - 1)])
                (lttb_loop data start cnt bucketWidth [0 ..< nat \<lceil>samples - 2\<rceil>] first))"

section \<open>Minimum and maximum of each pixel\<close>

record 'p minmax =
  mm_avgX :: jsnum
  mm_countX :: nat
  mm_prevX :: "int option"
  mm_minIndex :: "nat option"
  mm_maxIndex :: "nat option"
  mm_startIndex :: "nat option"
  mm_minY :: jsnum
  mm_maxY :: jsnum
  mm_out :: "'p list"

definition pixel_column :: "jsnum \<Rightarrow> jsnum \<Rightarrow> jsnum \<Rightarrow> 'p dpoint_scheme \<Rightarrow> int" where
  "pixel_column xMin dx availableWidth point = toInt32 ((dp_x point - xMin) / dx * availableWidth)"

text \<open>The extreme points of the column that ends before point \<open>i\<close>, with the average coordinate.\<close>

definition flush_column :: "'p dpoint_scheme list \<Rightarrow> nat \<Rightarrow> 'p dpoint_scheme minmax \<Rightarrow> 'p dpoint_scheme list" where
  "flush_column data i st =
     (case (mm_minIndex st, mm_maxIndex st) of
        (Some mn, Some mx) \<Rightarrow>
          (let intermediateIndex1 = min mn mx; intermediateIndex2 = max mn mx;
               keep = (\<lambda>k. Some k \<noteq> mm_startIndex st \<and> int k \<noteq> int i - 1)
           in (if keep intermediateIndex1 then [(data ! intermediateIndex1)\<lparr>dp_x := mm_avgX st\<rparr>] else []) @
              (if keep intermediateIndex2 then [(data ! intermediateIndex2)\<lparr>dp_x := mm_avgX st\<rparr>] else []))
      | _ \<Rightarrow> [])"

definition minmax_step :: "'p dpoint_scheme list \<Rightarrow> jsnum \<Rightarrow> jsnum \<Rightarrow> jsnum \<Rightarrow> nat \<Rightarrow>
    'p dpoint_scheme minmax \<Rightarrow> 'p dpoint_scheme minmax" where
  "minmax_step data xMin dx availableWidth i st =
     (let point = data ! i; y = dp_y point; truncX = pixel_column xMin dx availableWidth point
      in if Some truncX = mm_prevX st then
           let st1 = (if y < mm_minY st then st\<lparr>mm_minY := y, mm_minIndex := Some i\<rparr>
                      else if mm_maxY st < y then st\<lparr>mm_maxY := y, mm_maxIndex := Some i\<rparr> else st)
           in st1\<lparr>mm_avgX := (Fin (real (mm_countX st)) * mm_avgX st + dp_x point) / Fin (real (mm_countX st + 1)),
                  mm_countX := mm_countX st + 1\<rparr>
         else
           st\<lparr>mm_out := mm_out st @ flush_column data i st @
                (if 0 < i \<and> Some (i - 1) \<noteq> mm_startIndex st then [data ! (i - 1)] else []) @ [point],
              mm_prevX := Some truncX, mm_countX := 0, mm_minY := y, mm_maxY := y,
              mm_minIndex := Some i, mm_maxIndex := Some i, mm_startIndex := Some i\<rparr>)"

definition minmax_start :: "'p dpoint_scheme minmax" where
  "minmax_start = \<lparr>mm_avgX = 0, mm_countX = 0, mm_prevX = None, mm_minIndex = None, mm_maxIndex = None,
     mm_startIndex = None, mm_minY = NaN, mm_maxY = NaN, mm_out = []\<rparr>"

definition minMaxDecimation :: "'p dpoint_scheme list \<Rightarrow> nat \<Rightarrow> nat \<Rightarrow> real \<Rightarrow> 'p dpoint_scheme list" where
  "minMaxDecimation data start cnt availableWidth =
     (let xMin = dp_x (data ! start); xMax = dp_x (data ! (start + cnt - 1)); dx = xMax - xMin
      in mm_out (fold (minmax_step data xMin dx (Fin availableWidth)) [start ..< start + cnt] minmax_start))"

section \<open>The accessor of a dataset\<close>

text \<open>
  The property \<open>data\<close> of a dataset is a plain one, with its value and whether it is
  writable, or an accessor on the fields \<open>_decimated\<close> (read) and \<open>_data\<close> (written).
\<close>

datatype 'p data_prop = Plain "'p list" bool | Accessor

record 'p dset =
  ds_data :: "'p data_prop"
  ds__data :: "'p list option"
  ds__decimated :: "'p option list option"

datatype dec_error = TypeError | Unsupported string

text \<open>Reading \<open>dataset.data\<close>: \<open>None\<close> is undefined.\<close>

definition read_data :: "'p dset \<Rightarrow> 'p option list option" where
  "read_data d = (case ds_data d of Plain v _ \<Rightarrow> Some (map Some v) | Accessor \<Rightarrow> ds__decimated d)"

text \<open>
  The assignment \<open>dataset.data = v\<close> by the user of the library. It has no effect on a
  property that is not writable.
\<close>

definition assign_data :: "'p list \<Rightarrow> 'p dset \<Rightarrow> 'p dset" where
  "assign_data v d =
     (case ds_data d of
        Plain _ w \<Rightarrow> if w then d\<lparr>ds_data := Plain v True\<rparr> else d
      | Accessor \<Rightarrow> d\<lparr>ds__data := Some v\<rparr>)"

text \<open>
  \<open>Object.defineProperty\<close> with a value only: the attribute \<open>writable\<close> is kept when
  the property has a value already, and is false when the property was an accessor.
\<close>

definition cleanDecimatedDataset :: "'p dset \<Rightarrow> 'p dset" where
  "cleanDecimatedDataset d =
     (if ds__decimated d \<noteq> None then
        (let v = the (ds__data d); w = (case ds_data d of Plain _ w \<Rightarrow> w | Accessor \<Rightarrow> False)
         in d\<lparr>ds__decimated := None, ds__data := None, ds_data := Plain v w\<rparr>)
      else d)"

definition cleanDecimatedData :: "'p dset list \<Rightarrow> 'p dset list" where
  "cleanDecimatedData datasets = map cleanDecimatedDataset datasets"

definition getStartAndCountOfVisiblePointsSimplified :: "user_bounds \<Rightarrow> 'p dpoint_scheme list \<Rightarrow> jsnum \<times> jsnum" where
  "getStartAndCountOfVisiblePointsSimplified ub points =
     (let pointCount = Fin (real (length points));
          lookup = (\<lambda>v. lookup_with (length points) (\<lambda>i. dp_x (points ! nat i) < v));
          start = (if ub_minDefined ub
                   then limitValue (Fin (of_int (fst (lookup (ub_min ub))))) 0 (pointCount - 1) else 0);
          cnt = (if ub_maxDefined ub
                 then limitValue (Fin (of_int (snd (lookup (ub_max ub)) + 1))) start pointCount - start
                 else pointCount - start)
      in (start, cnt))"

text \<open>What the plugin reads of a dataset besides its data, and its options.\<close>

record decimation_meta =
  dm_resolvedIndexAxis :: string
  dm_type :: string
  dm_scaleType :: string
  dm_bounds :: user_bounds

record decimation_options =
  do_enabled :: bool
  do_algorithm :: string
  do_samples :: "real option"
  do_threshold :: "real option"

definition run_algorithm :: "decimation_options \<Rightarrow> real \<Rightarrow> 'p dpoint_scheme list \<Rightarrow> nat \<Rightarrow> nat \<Rightarrow>
    dec_error + 'p dpoint_scheme option list" where
  "run_algorithm opts availableWidth data start cnt =
     (if do_algorithm opts = ''lttb'' then
        (case lttbDecimation data start cnt availableWidth (do_samples opts) of
           None \<Rightarrow> Inl TypeError | Some r \<Rightarrow> Inr r)
      else if do_algorithm opts = ''min-max'' then Inr (map Some (minMaxDecimation data start cnt availableWidth))
      else Inl (Unsupported (do_algorithm opts)))"

fun num_index :: "jsnum \<Rightarrow> nat" where
  "num_index (Fin r) = nat \<lfloor>r\<rfloor>"
| "num_index x = 0"

text \<open>
  The body of the loop over the datasets, with the exception that it throws, if any. The start and
  the number of points are whole numbers.
\<close>

definition decimate_dataset :: "decimation_options \<Rightarrow> bool \<Rightarrow> real \<Rightarrow> decimation_meta \<Rightarrow>
    'p dpoint_scheme dset \<Rightarrow> 'p dpoint_scheme dset \<times> dec_error option" where
  "decimate_dataset opts parsing availableWidth m d =
     (if dm_resolvedIndexAxis m = ''y'' \<or> dm_type m \<noteq> ''line'' \<or>
         (dm_scaleType m \<noteq> ''linear'' \<and> dm_scaleType m \<noteq> ''time'') \<or> parsing then (d, None)
      else
        (case (ds__data d, ds_data d) of
           (None, Accessor) \<Rightarrow> (d, Some TypeError)
         | (h, p) \<Rightarrow>
             (let data = (case h of Some v \<Rightarrow> v | None \<Rightarrow> (case p of Plain v _ \<Rightarrow> v | Accessor \<Rightarrow> []));
                  (start, cnt) = getStartAndCountOfVisiblePointsSimplified (dm_bounds m) data;
                  threshold = (case do_threshold opts of
                                 Some t \<Rightarrow> if t \<noteq> 0 then t else 4 * availableWidth
                               | None \<Rightarrow> 4 * availableWidth)
              in if cnt \<le> Fin threshold then (cleanDecimatedDataset d, None)
                 else
                   let d1 = (if h = None then d\<lparr>ds__data := Some data, ds_data := Accessor\<rparr> else d)
                   in (case run_algorithm opts availableWidth data (num_index start) (num_index cnt) of
                         Inl err \<Rightarrow> (d1, Some err)
                       | Inr r \<Rightarrow> (d1\<lparr>ds__decimated := Some r\<rparr>, None)))))"

fun decimate_all :: "decimation_options \<Rightarrow> bool \<Rightarrow> real \<Rightarrow> (decimation_meta \<times> 'p dpoint_scheme dset) list \<Rightarrow>
    'p dpoint_scheme dset list \<times> dec_error option" where
  "decimate_all opts parsing availableWidth [] = ([], None)"
| "decimate_all opts parsing availableWidth ((m, d) # mds) =
     (case decimate_dataset opts parsing availableWidth m d of
        (d', Some err) \<Rightarrow> (d' # map snd mds, Some err)
      | (d', None) \<Rightarrow>
          (let (ds, err) = decimate_all opts parsing availableWidth mds in (d' # ds, err)))"

definition beforeElementsUpdate :: "decimation_options \<Rightarrow> bool \<Rightarrow> real \<Rightarrow>
    (decimation_meta \<times> 'p dpoint_scheme dset) list \<Rightarrow> 'p dpoint_scheme dset list \<times> dec_error option" where
  "beforeElementsUpdate opts parsing chartWidth mds =
     (if \<not> do_enabled opts then (cleanDecimatedData (map snd mds), None)
      else decimate_all opts parsing chartWidth mds)"

definition destroy :: "'p dset list \<Rightarrow> 'p dset list" where
  "destroy datasets = cleanDecimatedData datasets"

section \<open>Lemmas on the buckets\<close>

definition finite_point :: "'p dpoint_scheme \<Rightarrow> bool" where
  "finite_point p \<longleftrightarrow> is_finite (dp_x p) \<and> is_finite (dp_y p)"

lemma foldl_finite:
  assumes "\<And>j. j \<in> set js \<Longrightarrow> is_finite (f j)" and "is_finite z"
  shows "is_finite (foldl (\<lambda>s j. s + f j) z js)"
  using assms
proof (induction js arbitrary: z)
  case (Cons j js)
  from Cons.prems obtain a b where "z = Fin a" "f j = Fin b" by (fastforce simp: is_finite_iff)
  then have "is_finite (z + f j)" by simp
  with Cons show ?case by simp
qed simp

lemma average_finite:
  assumes "list_all finite_point data" and "upto' \<le> length data" and "from < upto'"
  shows "is_finite (average dp_x data from upto')" and "is_finite (average dp_y data from upto')"
proof -
  have p: "finite_point (data ! j)" if "j \<in> set [from ..< upto']" for j
    using that assms by (auto simp: list_all_length)
  have "is_finite (foldl (\<lambda>s j. s + dp_x (data ! j)) 0 [from ..< upto'])"
    and "is_finite (foldl (\<lambda>s j. s + dp_y (data ! j)) 0 [from ..< upto'])"
    by (rule foldl_finite; use p in \<open>simp add: finite_point_def\<close>)+
  then show "is_finite (average dp_x data from upto')" and "is_finite (average dp_y data from upto')"
    using assms(3) by (auto simp: average_def is_finite_iff)
qed

lemma triangle_area_finite:
  assumes "finite_point pA" and "finite_point p" and "is_finite ax" and "is_finite ay"
  shows "- 1 < triangle_area pA ax ay p"
  using assms by (auto simp: triangle_area_def finite_point_def is_finite_iff intro: order.strict_trans2)

lemma fold_pick_in:
  assumes "j \<in> J" and "set js \<subseteq> J"
  shows "\<exists>m k. fold (lttb_pick data pA ax ay) js (m0, Some (data ! j), Some j) = (m, Some (data ! k), Some k) \<and> k \<in> J"
  using assms
proof (induction js arbitrary: j m0)
  case (Cons i js)
  show ?case
  proof (cases "m0 < triangle_area pA ax ay (data ! i)")
    case True
    with Cons show ?thesis by (simp add: lttb_pick_def Let_def)
  next
    case False
    with Cons show ?thesis by (simp add: lttb_pick_def Let_def)
  qed
qed simp

lemma fold_pick:
  assumes "list_all finite_point data" and "finite_point pA" and "is_finite ax" and "is_finite ay"
    and "from < upto'" and "upto' \<le> length data"
  shows "\<exists>m k. fold (lttb_pick data pA ax ay) [from ..< upto'] (- 1, p0, n0) = (m, Some (data ! k), Some k) \<and>
    from \<le> k \<and> k < upto'"
proof -
  from assms have "- 1 < triangle_area pA ax ay (data ! from)"
    by (intro triangle_area_finite) (auto simp: list_all_length)
  then have "fold (lttb_pick data pA ax ay) [from ..< upto'] (- 1, p0, n0) =
      fold (lttb_pick data pA ax ay) [Suc from ..< upto']
        (triangle_area pA ax ay (data ! from), Some (data ! from), Some from)"
    using assms(5) by (simp add: upt_conv_Cons lttb_pick_def)
  with fold_pick_in [of "from" "{from ..< upto'}" "[Suc from ..< upto']"] assms(5) show ?thesis
    by fastforce
qed

text \<open>With a width of at least one, buckets follow each other and none is empty.\<close>

lemma bucket_from_less:
  assumes "1 \<le> bw"
  shows "bucket_from start bw k < bucket_from start bw (Suc k)"
proof -
  have "real k * bw + 1 \<le> real (Suc k) * bw" using assms by (simp add: algebra_simps)
  then have "\<lfloor>real k * bw\<rfloor> + 1 \<le> \<lfloor>real (Suc k) * bw\<rfloor>" by linarith
  moreover have "0 \<le> \<lfloor>real k * bw\<rfloor>" using assms by simp
  ultimately show ?thesis unfolding bucket_from_def by linarith
qed

lemma bucket_from_mono:
  assumes "1 \<le> bw" and "k \<le> l"
  shows "bucket_from start bw k \<le> bucket_from start bw l"
  using assms(2) bucket_from_less [OF assms(1)]
  by (induction l rule: dec_induct) (simp, meson less_imp_le order.trans)

lemma bucket_bounds:
  assumes "3 \<le> n" and "n < cnt" and bw: "bw = (real cnt - 2) / (real n - 2)" and "k \<le> n - 2"
  shows "1 \<le> bw" and "bucket_from start bw k \<le> start + cnt - 1"
    and "bucket_to start cnt bw k = bucket_from start bw k"
    and "bucket_from start bw k < bucket_to start cnt bw (Suc k)"
proof -
  have n2: "0 < real n - 2" using assms(1) by linarith
  show one: "1 \<le> bw" using assms n2 by (simp add: bw)
  have "real k * bw \<le> (real n - 2) * bw"
    by (rule mult_right_mono) (use assms one in \<open>auto simp: of_nat_diff\<close>)
  also have "\<dots> = real cnt - 2" using n2 by (simp add: bw)
  finally have le: "\<lfloor>real k * bw\<rfloor> \<le> int cnt - 2" by linarith
  then show b: "bucket_from start bw k \<le> start + cnt - 1"
    using assms(1,2) by (simp add: bucket_from_def)
  from le show "bucket_to start cnt bw k = bucket_from start bw k"
    using assms(1,2) by (simp add: bucket_from_def bucket_to_def min_def)
  have "bucket_to start cnt bw (Suc k) = min (bucket_from start bw (Suc k)) (start + cnt)"
    by (simp add: bucket_from_def bucket_to_def min_def)
  then show "bucket_from start bw k < bucket_to start cnt bw (Suc k)"
    using bucket_from_less [OF one, of start k] b assms(2) by simp
qed

lemma bucket_to_length: "start + cnt \<le> length data \<Longrightarrow> bucket_to start cnt bw k \<le> length data"
  by (simp add: bucket_to_def)

lemma lttb_bucket_picks:
  assumes "start + cnt \<le> length data" and "list_all finite_point data" and "3 \<le> n" and "n < cnt"
    and bw: "bw = (real cnt - 2) / (real n - 2)" and "i < n - 2"
    and "lt_a st = Some a" and "a < start + cnt"
  shows "\<exists>j p. lttb_bucket data start cnt bw i st =
      Some \<lparr>lt_a = Some j, lt_point = p, lt_nextA = Some j, lt_out = lt_out st @ [Some (data ! j)]\<rparr> \<and>
    bucket_from start bw i \<le> j \<and> j < bucket_from start bw (Suc i)"
proof -
  let ?ax = "average dp_x data (bucket_from start bw (i + 1)) (bucket_to start cnt bw (i + 2))"
    and ?ay = "average dp_y data (bucket_from start bw (i + 1)) (bucket_to start cnt bw (i + 2))"
  note b = bucket_bounds [OF assms(3,4) bw]
  have avg: "is_finite ?ax" "is_finite ?ay"
    using average_finite [OF assms(2) bucket_to_length [OF assms(1), of bw "i + 2"]]
      b(4) [of "i + 1" start] assms(6) by simp_all
  have "finite_point (data ! a)" using assms(1,2,8) by (simp add: list_all_length)
  from fold_pick [OF assms(2) this avg, of "bucket_from start bw i" "bucket_to start cnt bw (Suc i)"]
    bucket_to_length [OF assms(1)] b(4) [of i start] assms(6)
  obtain m k where "fold (lttb_pick data (data ! a) ?ax ?ay)
      [bucket_from start bw i ..< bucket_to start cnt bw (Suc i)] (- 1, lt_point st, lt_nextA st) =
      (m, Some (data ! k), Some k)" and "bucket_from start bw i \<le> k" and "k < bucket_to start cnt bw (Suc i)"
    by fastforce
  then show ?thesis
    using assms(6,7) b(3) [of "Suc i" start] by (auto simp: lttb_bucket_def Let_def)
qed

lemma lttb_loop_picks:
  assumes "start + cnt \<le> length data" and "list_all finite_point data" and "3 \<le> n" and "n < cnt"
    and bw: "bw = (real cnt - 2) / (real n - 2)"
    and "m = n - 2 - i" and "i \<le> n - 2" and "lt_a st = Some a" and "a < start + cnt"
  shows "\<exists>js st'. lttb_loop data start cnt bw [i ..< n - 2] st = Some st' \<and>
    lt_out st' = lt_out st @ map (\<lambda>j. Some (data ! j)) js \<and> length js = m \<and> sorted_wrt (<) js \<and>
    (\<forall>j \<in> set js. bucket_from start bw i \<le> j \<and> j < bucket_from start bw (n - 2))"
  using assms(6-)
proof (induction m arbitrary: i st a)
  case (Suc m)
  note b = bucket_bounds [OF assms(3,4) bw]
  have i: "i < n - 2" using Suc.prems by simp
  obtain j p where j: "lttb_bucket data start cnt bw i st =
      Some \<lparr>lt_a = Some j, lt_point = p, lt_nextA = Some j, lt_out = lt_out st @ [Some (data ! j)]\<rparr>"
    and jb: "bucket_from start bw i \<le> j" "j < bucket_from start bw (Suc i)"
    using lttb_bucket_picks [OF assms(1-5) i Suc.prems(3,4)] by blast
  let ?st = "\<lparr>lt_a = Some j, lt_point = p, lt_nextA = Some j, lt_out = lt_out st @ [Some (data ! j)]\<rparr>"
  have jc: "j < start + cnt" using jb(2) b(2) [of "Suc i" start] i assms(4) by simp
  have m: "m = n - 2 - Suc i" "Suc i \<le> n - 2" using Suc.prems(1,2) by simp_all
  have a: "lt_a ?st = Some j" by simp
  obtain js st' where l: "lttb_loop data start cnt bw [Suc i ..< n - 2] ?st = Some st'"
    "lt_out st' = lt_out ?st @ map (\<lambda>j. Some (data ! j)) js" "length js = m" "sorted_wrt (<) js"
    "\<forall>j \<in> set js. bucket_from start bw (Suc i) \<le> j \<and> j < bucket_from start bw (n - 2)"
    using Suc.IH [OF m a jc] by blast
  have mono: "bucket_from start bw (Suc i) \<le> bucket_from start bw (n - 2)"
    using bucket_from_mono [OF b(1) [of 0]] i by simp
  have "sorted_wrt (<) (j # js)" using l(4,5) jb(2) by auto
  moreover have "\<forall>k \<in> set (j # js). bucket_from start bw i \<le> k \<and> k < bucket_from start bw (n - 2)"
    using l(5) jb mono by auto
  moreover have "lttb_loop data start cnt bw [i ..< n - 2] st = Some st'"
    using j l(1) i by (simp add: upt_conv_Cons)
  ultimately show ?case using l(2,3)
    by (intro exI [of _ "j # js"] exI [of _ st']) simp
qed auto

text \<open>
  C9 (the samples of LTTB). With finite coordinates and at least two samples, fewer than the points of the range,
  the algorithm ends without an exception and returns exactly the number of samples asked for: points of
  the range at increasing indices, the first one and the last one among them.
\<close>

theorem lttb_samples:
  assumes "start + cnt \<le> length data" and "list_all finite_point data" and "2 \<le> n" and "n < cnt"
    and "samples = Some (real n) \<or> samples = None \<and> width = real n"
  shows "\<exists>js. lttbDecimation data start cnt width samples = Some (map (\<lambda>j. Some (data ! j)) js) \<and>
    length js = n \<and> sorted_wrt (<) js \<and> hd js = start \<and> last js = start + cnt - 1"
proof -
  let ?bw = "(real cnt - 2) / (real n - 2)"
  let ?st = "\<lparr>lt_a = Some start, lt_point = None, lt_nextA = None, lt_out = [arr_get data (int start)]\<rparr>"
  have up: "nat \<lceil>real n - 2\<rceil> = n - 2" using assms(3) by linarith
  have eq: "lttbDecimation data start cnt width samples =
      map_option (\<lambda>st. lt_out st @ [arr_get data (int start + int cnt - 1)])
        (lttb_loop data start cnt ?bw [0 ..< n - 2] ?st)"
    using assms(3-5) up by (auto simp: lttbDecimation_def Let_def)
  have ends: "arr_get data (int start) = Some (data ! start)"
    "arr_get data (int start + int cnt - 1) = Some (data ! (start + cnt - 1))"
    using assms(1,4) by (auto simp: arr_get_def nat_diff_distrib nat_add_distrib)
  show ?thesis
  proof (cases "n = 2")
    case True
    with assms(4) show ?thesis
      by (intro exI [of _ "[start, start + cnt - 1]"]) (simp add: eq ends)
  next
    case False
    with assms(3) have n3: "3 \<le> n" by simp
    note b = bucket_bounds [OF n3 assms(4) refl]
    obtain js st' where l: "lttb_loop data start cnt ?bw [0 ..< n - 2] ?st = Some st'"
      "lt_out st' = lt_out ?st @ map (\<lambda>j. Some (data ! j)) js" "length js = n - 2" "sorted_wrt (<) js"
      and jb: "\<forall>j \<in> set js. bucket_from start ?bw 0 \<le> j \<and> j < bucket_from start ?bw (n - 2)"
      using lttb_loop_picks [OF assms(1,2) n3 assms(4) refl refl, of 0 ?st start] assms(4) by auto
    have "\<forall>j \<in> set js. start < j \<and> j < start + cnt - 1"
      using jb b(2) [of "n - 2" start] by (auto simp: bucket_from_def)
    then have "sorted_wrt (<) (start # js @ [start + cnt - 1])"
      using l(4) assms(3,4) by (auto simp: sorted_wrt_append)
    with l n3 show ?thesis
      by (intro exI [of _ "start # js @ [start + cnt - 1]"]) (simp add: eq ends)
  qed
qed

theorem lttb_samples_witness:
  "\<exists>js. lttbDecimation [\<lparr>dp_x = 0, dp_y = 1\<rparr>, \<lparr>dp_x = 1, dp_y = 5\<rparr>, \<lparr>dp_x = 2, dp_y = 2\<rparr>, \<lparr>dp_x = 3, dp_y = 0\<rparr>] 0 4 100 (Some 3) =
       Some (map (\<lambda>j. Some ([\<lparr>dp_x = 0, dp_y = 1\<rparr>, \<lparr>dp_x = 1, dp_y = 5\<rparr>, \<lparr>dp_x = 2, dp_y = 2\<rparr>, \<lparr>dp_x = 3, dp_y = 0\<rparr>] ! j)) js) \<and>
     length js = 3 \<and> sorted_wrt (<) js \<and> hd js = 0 \<and> last js = 3"
  using lttb_samples [of 0 4 "[\<lparr>dp_x = 0, dp_y = 1\<rparr>, \<lparr>dp_x = 1, dp_y = 5\<rparr>, \<lparr>dp_x = 2, dp_y = 2\<rparr>, \<lparr>dp_x = 3, dp_y = 0\<rparr>]"
      3 "Some 3" 100]
  by (simp add: finite_point_def)

section \<open>Lemmas on columns\<close>

abbreviation xv :: "'p dpoint_scheme list \<Rightarrow> nat \<Rightarrow> real" where
  "xv data i \<equiv> num_val (dp_x (data ! i))"

abbreviation yv :: "'p dpoint_scheme list \<Rightarrow> nat \<Rightarrow> real" where
  "yv data i \<equiv> num_val (dp_y (data ! i))"

text \<open>
  The data of a linear or time axis in increasing order, a range with different ends, and a whole
  number of pixels.
\<close>

definition thinnable :: "'p dpoint_scheme list \<Rightarrow> nat \<Rightarrow> nat \<Rightarrow> nat \<Rightarrow> bool" where
  "thinnable data start cnt pixels \<longleftrightarrow>
     list_all finite_point data \<and> sorted (map (\<lambda>p. num_val (dp_x p)) data) \<and> 0 < cnt \<and>
     start + cnt \<le> length data \<and> xv data start < xv data (start + cnt - 1) \<and> pixels < 2 ^ 31"

text \<open>The column of a coordinate in the range.\<close>

definition column_of :: "'p dpoint_scheme list \<Rightarrow> nat \<Rightarrow> nat \<Rightarrow> nat \<Rightarrow> real \<Rightarrow> int" where
  "column_of data start cnt pixels x =
     \<lfloor>(x - xv data start) / (xv data (start + cnt - 1) - xv data start) * real pixels\<rfloor>"

text \<open>The column that the loop computes for a point, and the step of the loop, for a range of the data.\<close>

definition column_fn :: "'p dpoint_scheme list \<Rightarrow> nat \<Rightarrow> nat \<Rightarrow> nat \<Rightarrow> 'p dpoint_scheme \<Rightarrow> int" where
  "column_fn data start cnt pixels =
     pixel_column (dp_x (data ! start)) (dp_x (data ! (start + cnt - 1)) - dp_x (data ! start)) (Fin (real pixels))"

definition range_step :: "'p dpoint_scheme list \<Rightarrow> nat \<Rightarrow> nat \<Rightarrow> nat \<Rightarrow> nat \<Rightarrow>
    'p dpoint_scheme minmax \<Rightarrow> 'p dpoint_scheme minmax" where
  "range_step data start cnt pixels =
     minmax_step data (dp_x (data ! start)) (dp_x (data ! (start + cnt - 1)) - dp_x (data ! start)) (Fin (real pixels))"

lemma thinnable_point:
  assumes "thinnable data start cnt pixels" and "i < start + cnt"
  shows "dp_x (data ! i) = Fin (xv data i)" and "dp_y (data ! i) = Fin (yv data i)"
proof -
  have "finite_point (data ! i)" using assms by (auto simp: thinnable_def list_all_length)
  then show "dp_x (data ! i) = Fin (xv data i)" and "dp_y (data ! i) = Fin (yv data i)"
    by (auto simp: finite_point_def is_finite_iff)
qed

lemma thinnable_le:
  assumes "thinnable data start cnt pixels" and "i < start + cnt" and "j < start + cnt"
  shows "dp_y (data ! i) \<le> dp_y (data ! j) \<longleftrightarrow> yv data i \<le> yv data j"
  by (rule num_val_le; subst thinnable_point(2) [OF assms(1)]; use assms in simp)

lemma thinnable_mono:
  assumes "thinnable data start cnt pixels" and "i \<le> j" and "j < start + cnt"
  shows "xv data i \<le> xv data j"
proof -
  have "map (\<lambda>p. num_val (dp_x p)) data ! i \<le> map (\<lambda>p. num_val (dp_x p)) data ! j"
    using assms by (intro sorted_nth_mono) (auto simp: thinnable_def)
  then show ?thesis using assms by (simp add: thinnable_def)
qed

lemma column_of_mono:
  assumes "thinnable data start cnt pixels" and "x \<le> y"
  shows "column_of data start cnt pixels x \<le> column_of data start cnt pixels y"
  using assms unfolding column_of_def thinnable_def
  by (intro floor_mono mult_right_mono divide_right_mono) auto

lemma column_of_bounds:
  assumes th: "thinnable data start cnt pixels" and "xv data start \<le> x" and "x \<le> xv data (start + cnt - 1)"
  shows "0 \<le> column_of data start cnt pixels x" and "column_of data start cnt pixels x \<le> int pixels"
proof -
  have "column_of data start cnt pixels (xv data start) = 0" by (simp add: column_of_def)
  then show "0 \<le> column_of data start cnt pixels x" using column_of_mono [OF th assms(2)] by simp
  have "column_of data start cnt pixels (xv data (start + cnt - 1)) = int pixels"
    using th by (simp add: column_of_def thinnable_def)
  then show "column_of data start cnt pixels x \<le> int pixels" using column_of_mono [OF th assms(3)] by simp
qed

lemma pixel_column_eq:
  assumes th: "thinnable data start cnt pixels" and "dp_x p = Fin x"
    and "xv data start \<le> x" and "x \<le> xv data (start + cnt - 1)"
  shows "column_fn data start cnt pixels p = column_of data start cnt pixels x"
proof -
  let ?r = "(x - xv data start) / (xv data (start + cnt - 1) - xv data start) * real pixels"
  have c: "0 < cnt" and d: "xv data start < xv data (start + cnt - 1)" and w: "pixels < 2 ^ 31"
    using th by (simp_all add: thinnable_def)
  have w': "int pixels < 2 ^ 31" using w by simp
  have s: "dp_x (data ! start) = Fin (xv data start)"
    "dp_x (data ! (start + cnt - 1)) = Fin (xv data (start + cnt - 1))"
    using thinnable_point(1) [OF th] c by simp_all
  have "0 \<le> ?r" using assms(3) d by simp
  then have t: "trunc_real ?r = column_of data start cnt pixels x"
    by (simp add: trunc_real_def column_of_def)
  have "toInt32 (Fin ?r) = trunc_real ?r"
    by (rule toInt32_small; unfold t; use column_of_bounds [OF th assms(3,4)] w' in linarith)
  moreover have "column_fn data start cnt pixels p = toInt32 (Fin ?r)"
    unfolding column_fn_def pixel_column_def by (subst s, subst s, subst s) (use d in \<open>simp add: assms(2)\<close>)
  ultimately show ?thesis using t by simp
qed

lemma column_point:
  assumes th: "thinnable data start cnt pixels" and "start \<le> i" and "i < start + cnt"
  shows "column_fn data start cnt pixels (data ! i) = column_of data start cnt pixels (xv data i)"
  using assms thinnable_mono [OF th, of start i] thinnable_mono [OF th, of i "start + cnt - 1"]
  by (intro pixel_column_eq [OF th] thinnable_point(1) [OF th]) auto

text \<open>A point is covered when the output has points of its column on both sides of its value.\<close>

definition covered :: "'p dpoint_scheme list \<Rightarrow> nat \<Rightarrow> nat \<Rightarrow> nat \<Rightarrow> 'p dpoint_scheme list \<Rightarrow> nat \<Rightarrow> bool" where
  "covered data start cnt pixels out i \<longleftrightarrow>
     (\<exists>p \<in> set out. \<exists>q \<in> set out. dp_y p \<le> dp_y (data ! i) \<and> dp_y (data ! i) \<le> dp_y q \<and>
        column_fn data start cnt pixels p = column_fn data start cnt pixels (data ! i) \<and>
        column_fn data start cnt pixels q = column_fn data start cnt pixels (data ! i))"

lemma covered_append: "covered data start cnt pixels out i \<Longrightarrow> covered data start cnt pixels (out @ rest) i"
  unfolding covered_def by fastforce

text \<open>What the loop knows before point \<open>i\<close>: the current column starts at \<open>s\<close>.\<close>

definition column_state :: "'p dpoint_scheme list \<Rightarrow> nat \<Rightarrow> nat \<Rightarrow> nat \<Rightarrow> nat \<Rightarrow> nat \<Rightarrow> 'p dpoint_scheme minmax \<Rightarrow> bool" where
  "column_state data start cnt pixels i s st \<longleftrightarrow>
     s < i \<and> mm_startIndex st = Some s \<and>
     mm_prevX st = Some (column_fn data start cnt pixels (data ! s)) \<and>
     (\<forall>j. s \<le> j \<and> j < i \<longrightarrow> column_fn data start cnt pixels (data ! j) = column_fn data start cnt pixels (data ! s)) \<and>
     mm_countX st = i - 1 - s \<and>
     (\<exists>v. mm_avgX st = Fin v \<and> (s < i - 1 \<longrightarrow> xv data s \<le> v \<and> v \<le> xv data (i - 1))) \<and>
     (\<exists>a. mm_minIndex st = Some a \<and> s \<le> a \<and> a < i \<and> mm_minY st = Fin (yv data a) \<and>
        (\<forall>j. s \<le> j \<and> j < i \<longrightarrow> yv data a \<le> yv data j)) \<and>
     (\<exists>b. mm_maxIndex st = Some b \<and> s \<le> b \<and> b < i \<and> mm_maxY st = Fin (yv data b) \<and>
        (\<forall>j. s \<le> j \<and> j < i \<longrightarrow> yv data j \<le> yv data b)) \<and>
     data ! s \<in> set (mm_out st)"

lemma minmax_step_same:
  assumes "mm_prevX st = Some (column_fn data start cnt pixels (data ! i))" and "dp_x (data ! i) = Fin x"
    and "dp_y (data ! i) = Fin y" and "mm_minY st = Fin lo" and "mm_maxY st = Fin hi" and "lo \<le> hi"
    and "mm_minIndex st = Some a" and "mm_maxIndex st = Some b" and "mm_avgX st = Fin v"
  shows "range_step data start cnt pixels i st = st\<lparr>mm_minY := Fin (if y < lo then y else lo),
      mm_minIndex := Some (if y < lo then i else a), mm_maxY := Fin (if hi < y then y else hi),
      mm_maxIndex := Some (if hi < y then i else b),
      mm_avgX := Fin ((real (mm_countX st) * v + x) / (real (mm_countX st) + 1)), mm_countX := mm_countX st + 1\<rparr>"
proof (cases st)
  case (fields avgX countX prevX minIndex maxIndex startIndex minY maxY out)
  show ?thesis using assms unfolding fields 
    by (simp add: range_step_def column_fn_def minmax_step_def Let_def add.commute)
qed

lemma column_state_same:
  assumes th: "thinnable data start cnt pixels" and st: "column_state data start cnt pixels i s st"
    and "start \<le> s" and i: "i < start + cnt"
    and same: "column_fn data start cnt pixels (data ! i) = column_fn data start cnt pixels (data ! s)"
  defines "st' \<equiv> range_step data start cnt pixels i st"
  shows "column_state data start cnt pixels (Suc i) s st' \<and> mm_out st' = mm_out st"
proof -
  note p = thinnable_point [OF th i]
  obtain v a b where v: "mm_avgX st = Fin v" "s < i - 1 \<Longrightarrow> xv data s \<le> v \<and> v \<le> xv data (i - 1)"
    and a: "mm_minIndex st = Some a" "s \<le> a" "a < i" "mm_minY st = Fin (yv data a)" "\<forall>j. s \<le> j \<and> j < i \<longrightarrow> yv data a \<le> yv data j"
    and b: "mm_maxIndex st = Some b" "s \<le> b" "b < i" "mm_maxY st = Fin (yv data b)" "\<forall>j. s \<le> j \<and> j < i \<longrightarrow> yv data j \<le> yv data b"
    and rest: "s < i" "mm_startIndex st = Some s" "mm_prevX st = Some (column_fn data start cnt pixels (data ! s))"
      "\<forall>j. s \<le> j \<and> j < i \<longrightarrow> column_fn data start cnt pixels (data ! j) = column_fn data start cnt pixels (data ! s)"
      "mm_countX st = i - 1 - s" "data ! s \<in> set (mm_out st)"
    using st unfolding column_state_def by blast
  have ab: "yv data a \<le> yv data b" using a b by blast
  define v' where "v' = (real (i - 1 - s) * v + xv data i) / (real (i - 1 - s) + 1)"
  have v': "xv data s \<le> v' \<and> v' \<le> xv data i"
    unfolding v'_def
    by (rule average_between [where hi = "xv data (i - 1)"])
      (use v(2) rest(1) i thinnable_mono [OF th] in \<open>auto simp: less_diff_conv\<close>)
  have prev: "mm_prevX st = Some (column_fn data start cnt pixels (data ! i))" using same rest(3) by simp
  have inc: "mm_countX st + 1 = i - s" using rest(1,5) by simp
  have st': "st' = st\<lparr>mm_minY := Fin (if yv data i < yv data a then yv data i else yv data a),
      mm_minIndex := Some (if yv data i < yv data a then i else a),
      mm_maxY := Fin (if yv data b < yv data i then yv data i else yv data b),
      mm_maxIndex := Some (if yv data b < yv data i then i else b),
      mm_avgX := Fin v', mm_countX := i - s\<rparr>"
    unfolding st'_def v'_def minmax_step_same [OF prev p a(4) b(4) ab a(1) b(1) v(1)] inc
    by (simp only: rest(5))
  have eq: "mm_out st' = mm_out st" "mm_startIndex st' = Some s" "mm_prevX st' = mm_prevX st"
    "mm_countX st' = i - s" "mm_avgX st' = Fin v'"
    "mm_minIndex st' = Some (if yv data i < yv data a then i else a)"
    "mm_minY st' = Fin (if yv data i < yv data a then yv data i else yv data a)"
    "mm_maxIndex st' = Some (if yv data b < yv data i then i else b)"
    "mm_maxY st' = Fin (if yv data b < yv data i then yv data i else yv data b)"
    by (simp_all add: st' rest(2))
  have all: "\<forall>j. s \<le> j \<and> j < Suc i \<longrightarrow>
      column_fn data start cnt pixels (data ! j) = column_fn data start cnt pixels (data ! s)"
    using rest(4) same less_Suc_eq by blast
  have lo: "\<exists>k. Some (if yv data i < yv data a then i else a) = Some k \<and> s \<le> k \<and> k < Suc i \<and>
      Fin (if yv data i < yv data a then yv data i else yv data a) = Fin (yv data k) \<and>
      (\<forall>j. s \<le> j \<and> j < Suc i \<longrightarrow> yv data k \<le> yv data j)"
    using a(2,3,5) rest(1) by (auto simp: less_Suc_eq intro: order.trans less_imp_le)
  have hi: "\<exists>k. Some (if yv data b < yv data i then i else b) = Some k \<and> s \<le> k \<and> k < Suc i \<and>
      Fin (if yv data b < yv data i then yv data i else yv data b) = Fin (yv data k) \<and>
      (\<forall>j. s \<le> j \<and> j < Suc i \<longrightarrow> yv data j \<le> yv data k)"
    using b(2,3,5) rest(1) by (auto simp: less_Suc_eq intro: order.trans less_imp_le)
  show ?thesis
    unfolding column_state_def eq
    by (intro conjI all lo hi) (use rest(1,3,6) v' in simp_all)
qed

lemma minmax_step_new:
  assumes "mm_prevX st \<noteq> Some (column_fn data start cnt pixels (data ! i))"
  shows "range_step data start cnt pixels i st = st\<lparr>mm_out := mm_out st @ flush_column data i st @
      (if 0 < i \<and> Some (i - 1) \<noteq> mm_startIndex st then [data ! (i - 1)] else []) @ [data ! i],
    mm_prevX := Some (column_fn data start cnt pixels (data ! i)), mm_countX := 0, mm_minY := dp_y (data ! i),
    mm_maxY := dp_y (data ! i), mm_minIndex := Some i, mm_maxIndex := Some i, mm_startIndex := Some i\<rparr>"
  using assms by (simp add: range_step_def column_fn_def minmax_step_def Let_def)

lemma minmax_start_simps [simp]:
  "mm_avgX minmax_start = Fin 0" "mm_prevX minmax_start = None" "mm_startIndex minmax_start = None"
  "mm_out minmax_start = []" "flush_column data i minmax_start = []"
  by (simp_all add: minmax_start_def flush_column_def)

lemma length_flush_column: "length (flush_column data i st) \<le> 2"
  by (simp add: flush_column_def Let_def split: option.splits)

lemma flush_column_extreme:
  assumes "mm_minIndex st = Some a" and "mm_maxIndex st = Some b" and "mm_startIndex st = Some s"
    and "k = a \<or> k = b" and "k \<noteq> s" and "k \<noteq> i - 1" and "k < i"
  shows "(data ! k)\<lparr>dp_x := mm_avgX st\<rparr> \<in> set (flush_column data i st)"
  using assms by (cases "a \<le> b") (auto simp: flush_column_def Let_def min_def max_def)

lemma column_state_opened:
  assumes "thinnable data start cnt pixels" and "i < start + cnt" and "is_finite (mm_avgX st)"
    and "mm_prevX st = Some (column_fn data start cnt pixels (data ! i))" and "mm_countX st = 0"
    and "mm_minY st = dp_y (data ! i)" and "mm_maxY st = dp_y (data ! i)" and "mm_minIndex st = Some i"
    and "mm_maxIndex st = Some i" and "mm_startIndex st = Some i" and "data ! i \<in> set (mm_out st)"
  shows "column_state data start cnt pixels (Suc i) i st"
proof -
  from assms(3) obtain v where "mm_avgX st = Fin v" by (auto simp: is_finite_iff)
  then show ?thesis
    unfolding column_state_def using assms(4-) thinnable_point(2) [OF assms(1,2)]
    by (auto simp: le_less_Suc_eq)
qed

lemma extreme_in_output:
  assumes th: "thinnable data start cnt pixels" and st: "column_state data start cnt pixels i s st"
    and "start \<le> s" and i: "i < start + cnt"
    and "k = the (mm_minIndex st) \<or> k = the (mm_maxIndex st)"
    and out: "out = mm_out st @ flush_column data i st @
      (if 0 < i \<and> Some (i - 1) \<noteq> mm_startIndex st then [data ! (i - 1)] else []) @ [data ! i]"
  shows "\<exists>p \<in> set out. dp_y p = dp_y (data ! k) \<and>
    column_fn data start cnt pixels p = column_fn data start cnt pixels (data ! s)"
proof -
  let ?col = "column_fn data start cnt pixels"
  obtain a b where a: "mm_minIndex st = Some a" "s \<le> a" "a < i" and b: "mm_maxIndex st = Some b" "s \<le> b" "b < i"
    and rest: "s < i" "mm_startIndex st = Some s"
      "\<forall>j. s \<le> j \<and> j < i \<longrightarrow> ?col (data ! j) = ?col (data ! s)" "data ! s \<in> set (mm_out st)"
    using st unfolding column_state_def by blast
  from assms(5) a b have k: "k = a \<or> k = b" "s \<le> k" "k < i" by auto
  consider "k = s" | "k = i - 1" "k \<noteq> s" | "k \<noteq> s" "k \<noteq> i - 1" by blast
  then show ?thesis
  proof cases
    case 1
    with rest(4) show ?thesis by (auto simp: out)
  next
    case 2
    then have "data ! k \<in> set out" using rest(1,2) by (auto simp: out)
    with rest(3) k show ?thesis by blast
  next
    case 3
    let ?p = "(data ! k)\<lparr>dp_x := mm_avgX st\<rparr>"
    have si: "s < i - 1" using 3 k by simp
    then obtain v where v: "mm_avgX st = Fin v" "xv data s \<le> v" "v \<le> xv data (i - 1)"
      using st unfolding column_state_def by blast
    have bs: "xv data start \<le> xv data s" "xv data (i - 1) \<le> xv data (start + cnt - 1)"
      using thinnable_mono [OF th] assms(3) i si by simp_all
    have "dp_x ?p = Fin v" using v(1) by simp
    then have "?col ?p = column_of data start cnt pixels v"
      by (rule pixel_column_eq [OF th]) (use v(2,3) bs in linarith)+
    moreover have "?col (data ! s) = column_of data start cnt pixels (xv data s)"
      "?col (data ! (i - 1)) = column_of data start cnt pixels (xv data (i - 1))"
      by (rule column_point [OF th]; use assms(3) i si in simp)+
    moreover have "s \<le> i - 1" "i - 1 < i" using si by simp_all
    then have "?col (data ! (i - 1)) = ?col (data ! s)" using rest(3) by blast
    ultimately have "?col ?p = ?col (data ! s)"
      using column_of_mono [OF th v(2)] column_of_mono [OF th v(3)] by simp
    moreover have "?p \<in> set out"
      using flush_column_extreme [OF a(1) b(1) rest(2) k(1) 3 k(3)] by (simp add: out)
    moreover have "dp_y ?p = dp_y (data ! k)" by simp
    ultimately show ?thesis by blast
  qed
qed

lemma column_state_next:
  assumes th: "thinnable data start cnt pixels" and st: "column_state data start cnt pixels i s st"
    and "start \<le> s" and i: "i < start + cnt"
    and new: "column_fn data start cnt pixels (data ! i) \<noteq> column_fn data start cnt pixels (data ! s)"
  defines "st' \<equiv> range_step data start cnt pixels i st"
  shows "column_state data start cnt pixels (Suc i) i st'" and "\<exists>ps. mm_out st' = mm_out st @ ps \<and> length ps \<le> 4"
    and "\<And>j. s \<le> j \<Longrightarrow> j < i \<Longrightarrow> covered data start cnt pixels (mm_out st') j"
proof -
  let ?col = "column_fn data start cnt pixels"
  have prev: "mm_prevX st \<noteq> Some (?col (data ! i))" and avg: "is_finite (mm_avgX st)"
  proof -
    have "mm_prevX st = Some (?col (data ! s))" and "\<exists>v. mm_avgX st = Fin v"
      using st unfolding column_state_def by blast+
    with new show "mm_prevX st \<noteq> Some (?col (data ! i))" and "is_finite (mm_avgX st)"
      by (simp_all add: is_finite_iff)
  qed
  note eq = minmax_step_new [OF prev, folded st'_def]
  show "column_state data start cnt pixels (Suc i) i st'"
    by (rule column_state_opened [OF th i]) (simp_all add: eq avg)
  show "\<exists>ps. mm_out st' = mm_out st @ ps \<and> length ps \<le> 4"
    using length_flush_column [of data i st] by (auto simp: eq)
  have out: "mm_out st' = mm_out st @ flush_column data i st @
      (if 0 < i \<and> Some (i - 1) \<noteq> mm_startIndex st then [data ! (i - 1)] else []) @ [data ! i]"
    by (simp add: eq)
  show "covered data start cnt pixels (mm_out st') j" if j: "s \<le> j" "j < i" for j
  proof -
    obtain a b where a: "mm_minIndex st = Some a" "a < i" "\<forall>j. s \<le> j \<and> j < i \<longrightarrow> yv data a \<le> yv data j"
      and b: "mm_maxIndex st = Some b" "b < i" "\<forall>j. s \<le> j \<and> j < i \<longrightarrow> yv data j \<le> yv data b"
      and cs: "\<forall>j. s \<le> j \<and> j < i \<longrightarrow> ?col (data ! j) = ?col (data ! s)"
      using st unfolding column_state_def by blast
    have ea: "\<exists>p \<in> set (mm_out st'). dp_y p = dp_y (data ! a) \<and> ?col p = ?col (data ! s)"
      and eb: "\<exists>p \<in> set (mm_out st'). dp_y p = dp_y (data ! b) \<and> ?col p = ?col (data ! s)"
      by (rule extreme_in_output [OF th st assms(3) i _ out]; simp add: a(1) b(1))+
    have ab: "dp_y (data ! a) \<le> dp_y (data ! j)" "dp_y (data ! j) \<le> dp_y (data ! b)"
      using a(2,3) b(2,3) i j by (simp_all add: thinnable_le [OF th])
    have "?col (data ! j) = ?col (data ! s)" using cs j by blast
    with ea eb ab show ?thesis unfolding covered_def by metis
  qed
qed

lemma minmax_fold:
  assumes th: "thinnable data start cnt pixels" and "0 < k" and "k \<le> cnt"
  shows "\<exists>s st. fold (range_step data start cnt pixels) [start ..< start + k] minmax_start = st \<and> start \<le> s \<and>
    column_state data start cnt pixels (start + k) s st \<and>
    (\<forall>j. start \<le> j \<and> j < s \<longrightarrow> covered data start cnt pixels (mm_out st) j) \<and>
    int (length (mm_out st)) \<le> 4 * column_fn data start cnt pixels (data ! s) + 2"
  using assms(2,3)
proof (induction k)
  case (Suc k)
  let ?step = "range_step data start cnt pixels"
  let ?col = "column_fn data start cnt pixels"
  have up: "[start ..< start + Suc k] = [start ..< start + k] @ [start + k]" by simp
  show ?case
  proof (cases "k = 0")
    case True
    have eq: "?step start minmax_start = minmax_start\<lparr>mm_out := (if 0 < start then [data ! (start - 1)] else []) @ [data ! start],
        mm_prevX := Some (?col (data ! start)), mm_countX := 0, mm_minY := dp_y (data ! start),
        mm_maxY := dp_y (data ! start), mm_minIndex := Some start, mm_maxIndex := Some start, mm_startIndex := Some start\<rparr>"
      by (subst minmax_step_new) simp_all
    have st: "column_state data start cnt pixels (Suc start) start (?step start minmax_start)"
      by (rule column_state_opened [OF th]) (use th in \<open>simp_all add: eq thinnable_def\<close>)
    have "0 \<le> ?col (data ! start)"
      using column_point [OF th, of start] column_of_bounds(1) [OF th, of "xv data start"] th
      by (simp add: thinnable_def)
    then have "int (length (mm_out (?step start minmax_start))) \<le> 4 * ?col (data ! start) + 2"
      unfolding eq by (cases "0 < start") simp_all
    with st show ?thesis
      by (intro exI [of _ start] exI [of _ "?step start minmax_start"]) (auto simp: True)
  next
    case False
    with Suc obtain s st where ih: "fold ?step [start ..< start + k] minmax_start = st" "start \<le> s"
        "column_state data start cnt pixels (start + k) s st"
        "\<forall>j. start \<le> j \<and> j < s \<longrightarrow> covered data start cnt pixels (mm_out st) j"
        "int (length (mm_out st)) \<le> 4 * ?col (data ! s) + 2"
      by auto
    have i: "start + k < start + cnt" using Suc.prems by simp
    have f: "fold ?step [start ..< start + Suc k] minmax_start = ?step (start + k) st"
      unfolding up fold_append comp_apply ih(1) by simp
    have s: "s < start + k" using ih(3) by (simp add: column_state_def)
    show ?thesis
    proof (cases "?col (data ! (start + k)) = ?col (data ! s)")
      case True
      from column_state_same [OF th ih(3,2) i this] ih show ?thesis unfolding f by auto
    next
      case False
      note n = column_state_next [OF th ih(3,2) i False]
      obtain ps where ps: "mm_out (?step (start + k) st) = mm_out st @ ps" "length ps \<le> 4" using n(2) by blast
      have cov: "\<forall>j. start \<le> j \<and> j < start + k \<longrightarrow> covered data start cnt pixels (mm_out (?step (start + k) st)) j"
        using n(3) ih(4) covered_append [of data start cnt pixels "mm_out st"] unfolding ps(1) by (meson not_le_imp_less)
      have "?col (data ! s) \<le> ?col (data ! (start + k))"
        using column_point [OF th] thinnable_mono [OF th, of s "start + k"] ih(2) s i column_of_mono [OF th] by simp
      with False have "?col (data ! s) + 1 \<le> ?col (data ! (start + k))" by simp
      then have "int (length (mm_out (?step (start + k) st))) \<le> 4 * ?col (data ! (start + k)) + 2"
        using ih(5) ps(2) unfolding ps(1) by simp
      with n(1) cov show ?thesis unfolding f
        by (intro exI [of _ "start + k"] exI [of _ "?step (start + k) st"]) simp
    qed
  qed
qed simp

text \<open>
  C10 (the envelope of thinned data). For finite data in increasing order over a positive number of pixels, each point of the range before its
  last coordinate has, in the thinned data, points of its own pixel column at or below and at or above its
  value; and at most four points for each pixel, and two more, remain.
\<close>

theorem minmax_envelope:
  assumes "list_all finite_point data" and "sorted (map (\<lambda>p. num_val (dp_x p)) data)" and "0 < cnt"
    and "start + cnt \<le> length data" and "dp_x (data ! start) < dp_x (data ! (start + cnt - 1))" and "0 < pixels \<and> pixels < 2 ^ 31"
  shows "length (minMaxDecimation data start cnt (real pixels)) \<le> 4 * pixels + 2 \<and>
    (\<forall>i. start \<le> i \<and> i < start + cnt \<and> dp_x (data ! i) < dp_x (data ! (start + cnt - 1)) \<longrightarrow>
      covered data start cnt pixels (minMaxDecimation data start cnt (real pixels)) i)"
proof -
  have fp: "is_finite (dp_x (data ! i))" if "i < start + cnt" for i
  proof -
    have "finite_point (data ! i)" using assms(1,4) that by (auto simp: list_all_length)
    then show ?thesis by (simp add: finite_point_def)
  qed
  have "xv data start < xv data (start + cnt - 1)"
    using assms(3,5) fp [of start] fp [of "start + cnt - 1"]
    by (simp add: num_val_less)
  with assms have th: "thinnable data start cnt pixels" unfolding thinnable_def by blast
  let ?col = "column_fn data start cnt pixels"
  obtain s st where m: "minMaxDecimation data start cnt (real pixels) = mm_out st" "start \<le> s"
    "column_state data start cnt pixels (start + cnt) s st"
    "\<forall>j. start \<le> j \<and> j < s \<longrightarrow> covered data start cnt pixels (mm_out st) j"
    "int (length (mm_out st)) \<le> 4 * ?col (data ! s) + 2"
    using minmax_fold [OF th assms(3) order.refl] by (auto simp: minMaxDecimation_def range_step_def Let_def)
  have s: "s < start + cnt" using m(3) by (simp add: column_state_def)
  have last: "?col (data ! (start + cnt - 1)) = int pixels"
    using column_point [OF th, of "start + cnt - 1"] assms(3) th by (simp add: column_of_def thinnable_def)
  have col_s: "?col (data ! s) = int pixels"
    using m(3) s assms(3) unfolding last [symmetric] column_state_def by (metis Suc_pred' add_gr_0 less_Suc_eq_le order.refl not_less_eq)
  have "length (mm_out st) \<le> 4 * pixels + 2" using m(5) col_s by simp
  moreover have "covered data start cnt pixels (mm_out st) i"
    if i: "start \<le> i" "i < start + cnt" "dp_x (data ! i) < dp_x (data ! (start + cnt - 1))" for i
  proof (cases "i < s")
    case True
    with m(4) i show ?thesis by blast
  next
    case False
    have lt: "xv data i < xv data (start + cnt - 1)" using i(3) fp [OF i(2)] fp [of "start + cnt - 1"] assms(3)
      by (simp add: num_val_less)
    have "column_of data start cnt pixels (xv data i) = int pixels"
      using column_point [OF th i(1,2)] m(3) col_s False i(2) by (simp add: column_state_def)
    moreover from lt th have one: "(xv data i - xv data start) / (xv data (start + cnt - 1) - xv data start) < 1"
      by (simp add: thinnable_def)
    have "(xv data i - xv data start) / (xv data (start + cnt - 1) - xv data start) * real pixels < real pixels"
      using mult_strict_right_mono [OF one, of "real pixels"] assms(6) by (simp only: mult_1 of_nat_0_less_iff)
    ultimately have False unfolding column_of_def by linarith
    then show ?thesis ..
  qed
  ultimately show ?thesis by (simp add: m(1))
qed

theorem minmax_envelope_witness:
  "length (minMaxDecimation [\<lparr>dp_x = 0, dp_y = 1\<rparr>, \<lparr>dp_x = 1, dp_y = 5\<rparr>, \<lparr>dp_x = 4, dp_y = 2\<rparr>] 0 3 (real 2)) \<le> 10 \<and>
   covered [\<lparr>dp_x = 0, dp_y = 1\<rparr>, \<lparr>dp_x = 1, dp_y = 5\<rparr>, \<lparr>dp_x = 4, dp_y = 2\<rparr>] 0 3 2
     (minMaxDecimation [\<lparr>dp_x = 0, dp_y = 1\<rparr>, \<lparr>dp_x = 1, dp_y = 5\<rparr>, \<lparr>dp_x = 4, dp_y = 2\<rparr>] 0 3 (real 2)) 1"
proof -
  let ?d = "[\<lparr>dp_x = 0, dp_y = 1\<rparr>, \<lparr>dp_x = 1, dp_y = 5\<rparr>, \<lparr>dp_x = 4, dp_y = 2\<rparr>]"
  have "length (minMaxDecimation ?d 0 3 (real 2)) \<le> 4 * 2 + 2 \<and>
    (\<forall>i. 0 \<le> i \<and> i < 0 + 3 \<and> dp_x (?d ! i) < dp_x (?d ! (0 + 3 - 1)) \<longrightarrow>
      covered ?d 0 3 2 (minMaxDecimation ?d 0 3 (real 2)) i)"
    by (rule minmax_envelope) (simp_all add: finite_point_def)
  moreover have "dp_x (?d ! 1) < dp_x (?d ! (0 + 3 - 1))" by simp
  ultimately show ?thesis by (simp del: of_nat_numeral)
qed

section \<open>Lemmas on the accessor\<close>

text \<open>
  The data that the user gave, and what holds of a dataset between updates: the property is an accessor
  exactly while the data is kept aside, and thinned data exists only then.
\<close>

definition original :: "'p dset \<Rightarrow> 'p list" where
  "original d = (case ds__data d of Some v \<Rightarrow> v | None \<Rightarrow> (case ds_data d of Plain v _ \<Rightarrow> v | Accessor \<Rightarrow> []))"

definition dset_ok :: "'p dset \<Rightarrow> bool" where
  "dset_ok d \<longleftrightarrow> (ds_data d = Accessor \<longleftrightarrow> ds__data d \<noteq> None) \<and> (ds__decimated d \<noteq> None \<longrightarrow> ds_data d = Accessor)"

lemma clean_ok:
  assumes "dset_ok d"
  shows "dset_ok (cleanDecimatedDataset d)" and "original (cleanDecimatedDataset d) = original d"
    and "read_data d \<noteq> None \<Longrightarrow> read_data (cleanDecimatedDataset d) = Some (map Some (original d))"
  using assms by (auto simp: dset_ok_def cleanDecimatedDataset_def original_def read_data_def Let_def
      split: data_prop.splits option.splits)

lemma decimate_dataset_ok:
  assumes "dset_ok d" and "decimate_dataset opts parsing w m d = (d', err)"
  shows "dset_ok d' \<and> original d' = original d \<and> (err = None \<longrightarrow> read_data d \<noteq> None \<longrightarrow> read_data d' \<noteq> None)"
proof (cases "(dm_resolvedIndexAxis m = ''y'' \<or> dm_type m \<noteq> ''line'' \<or>
    (dm_scaleType m \<noteq> ''linear'' \<and> dm_scaleType m \<noteq> ''time'') \<or> parsing)")
  case True
  with assms show ?thesis unfolding decimate_dataset_def if_P [OF True] by simp
next
  case False
  let ?r = "getStartAndCountOfVisiblePointsSimplified (dm_bounds m) (original d)"
  let ?t = "case do_threshold opts of Some t \<Rightarrow> if t \<noteq> 0 then t else 4 * w | None \<Rightarrow> 4 * w"
  let ?alg = "run_algorithm opts w (original d) (num_index (fst ?r)) (num_index (snd ?r))"
  let ?d1 = "if ds__data d = None then d\<lparr>ds__data := Some (original d), ds_data := Accessor\<rparr> else d"
  have eq: "decimate_dataset opts parsing w m d =
    (if snd ?r \<le> Fin ?t then (cleanDecimatedDataset d, None)
     else (case ?alg of Inl e \<Rightarrow> (?d1, Some e) | Inr r \<Rightarrow> (?d1\<lparr>ds__decimated := Some r\<rparr>, None)))"
    unfolding decimate_dataset_def if_not_P [OF False] using assms(1)
    by (cases "ds__data d"; cases "ds_data d") (simp_all add: original_def dset_ok_def Let_def split_beta split: sum.splits)
  have d1: "dset_ok ?d1 \<and> original ?d1 = original d" "dset_ok (?d1\<lparr>ds__decimated := Some r\<rparr>)"
    "original (?d1\<lparr>ds__decimated := Some r\<rparr>) = original d" "read_data (?d1\<lparr>ds__decimated := Some r\<rparr>) \<noteq> None" for r
    using assms(1) by (auto simp: dset_ok_def original_def read_data_def)
  show ?thesis
  proof (cases "snd ?r \<le> Fin ?t")
    case True
    with assms(2) eq clean_ok [OF assms(1)] show ?thesis by auto
  next
    case False
    with assms(2) eq have "(case ?alg of Inl e \<Rightarrow> (?d1, Some e) | Inr r \<Rightarrow> (?d1\<lparr>ds__decimated := Some r\<rparr>, None)) = (d', err)"
      by simp
    then show ?thesis using d1 by (cases ?alg) auto
  qed
qed

lemma decimate_all_ok:
  assumes "list_all dset_ok (map snd mds)" and "decimate_all opts parsing w mds = (ds', err)"
  shows "list_all dset_ok ds' \<and> map original ds' = map (\<lambda>md. original (snd md)) mds \<and>
    (err = None \<longrightarrow> (\<forall>md \<in> set mds. read_data (snd md) \<noteq> None) \<longrightarrow> (\<forall>d \<in> set ds'. read_data d \<noteq> None))"
  using assms
proof (induction mds arbitrary: ds')
  case (Cons md mds)
  obtain m d where md: "md = (m, d)" by (cases md)
  obtain d' e where d': "decimate_dataset opts parsing w m d = (d', e)" by fastforce
  have ok: "dset_ok d" using Cons.prems(1) by (simp add: md)
  note d_ok = decimate_dataset_ok [OF ok d']
  show ?case
  proof (cases e)
    case (Some x)
    with Cons.prems d' d_ok show ?thesis by (auto simp: md)
  next
    case None
    obtain ds e' where r: "decimate_all opts parsing w mds = (ds, e')" by fastforce
    with Cons.prems d' None have "ds' = d' # ds" "e' = err" by (auto simp: md)
    with Cons.IH [of ds] Cons.prems(1) r d_ok None show ?thesis by (auto simp: md)
  qed
qed simp

text \<open>
  C11 (the original data). Whatever the options, the types and the bounds, an update of the plugin keeps the data that the user gave
  to each dataset, with the property and its accessor in agreement; and if the update throws no exception, every dataset
  still has data to show, and destroying the chart gives every dataset its original data. After an exception, which an unknown algorithm causes, the data are
  kept but not given back, see \<^verbatim>\<open>unknown_algorithm_loses_data\<close>.
\<close>

theorem decimation_keeps_data:
  assumes "list_all dset_ok (map snd mds)" and "beforeElementsUpdate opts parsing w mds = (ds', err)"
    and "\<forall>md \<in> set mds. read_data (snd md) \<noteq> None"
  shows "list_all dset_ok ds' \<and> map original ds' = map (\<lambda>md. original (snd md)) mds \<and>
    (err = None \<longrightarrow> (\<forall>d \<in> set ds'. read_data d \<noteq> None) \<and>
      map read_data (destroy ds') = map (\<lambda>md. Some (map Some (original (snd md)))) mds)"
proof -
  have r: "list_all dset_ok ds' \<and> map original ds' = map (\<lambda>md. original (snd md)) mds \<and>
    (err = None \<longrightarrow> (\<forall>d \<in> set ds'. read_data d \<noteq> None))"
  proof (cases "do_enabled opts")
    case True
    with decimate_all_ok [OF assms(1)] assms(2,3) show ?thesis by (simp add: beforeElementsUpdate_def)
  next
    case False
    with assms(2) have "ds' = map cleanDecimatedDataset (map snd mds)" by (simp add: beforeElementsUpdate_def cleanDecimatedData_def)
    then show ?thesis using assms(1,3)
      by (fastforce simp: list_all_iff clean_ok)
  qed
  have "map read_data (destroy ds') = map (\<lambda>d. Some (map Some (original d))) ds'" if "err = None"
    using r that
    by (simp add: destroy_def cleanDecimatedData_def list_all_iff clean_ok(3) del: not_None_eq)
  moreover have "map (\<lambda>d. Some (map Some (original d))) ds' = map (\<lambda>v. Some (map Some v)) (map original ds')"
    by simp
  ultimately show ?thesis using r by (simp add: comp_def)
qed

theorem decimation_keeps_data_witness:
  "\<exists>ds' err. beforeElementsUpdate \<lparr>do_enabled = True, do_algorithm = ''min-max'', do_samples = None, do_threshold = Some 1\<rparr>
       False 100 [(\<lparr>dm_resolvedIndexAxis = ''x'', dm_type = ''line'', dm_scaleType = ''linear'',
         dm_bounds = \<lparr>ub_min = 0, ub_max = 0, ub_minDefined = False, ub_maxDefined = False\<rparr>\<rparr>,
         \<lparr>ds_data = Plain [\<lparr>dp_x = 0, dp_y = 1\<rparr>, \<lparr>dp_x = 1, dp_y = 5\<rparr>] True, ds__data = None, ds__decimated = None\<rparr>)] = (ds', err) \<and>
     map original ds' = [[\<lparr>dp_x = 0, dp_y = 1\<rparr>, \<lparr>dp_x = 1, dp_y = 5\<rparr>]]"
proof -
  let ?o = "\<lparr>do_enabled = True, do_algorithm = ''min-max'', do_samples = None, do_threshold = Some 1\<rparr>"
  let ?m = "\<lparr>dm_resolvedIndexAxis = ''x'', dm_type = ''line'', dm_scaleType = ''linear'',
      dm_bounds = \<lparr>ub_min = 0, ub_max = 0, ub_minDefined = False, ub_maxDefined = False\<rparr>\<rparr>"
  let ?d = "\<lparr>ds_data = Plain [\<lparr>dp_x = 0, dp_y = 1\<rparr>, \<lparr>dp_x = 1, dp_y = 5\<rparr>] True, ds__data = None, ds__decimated = None\<rparr>"
  obtain ds' err where r: "beforeElementsUpdate ?o False 100 [(?m, ?d)] = (ds', err)" by fastforce
  have "map original ds' = [original ?d]"
    using decimation_keeps_data [OF _ r] by (simp add: dset_ok_def read_data_def)
  with r show ?thesis by (simp add: original_def)
qed

text \<open>
  After thinning ends, the property holds the original data again but is not writable: assigning other
  data to the dataset has no effect.
\<close>

lemma thinned_data_not_assignable:
  "\<exists>d. cleanDecimatedDataset \<lparr>ds_data = Accessor, ds__data = Some old, ds__decimated = Some thin\<rparr> = d \<and>
     read_data d = Some (map Some old) \<and> assign_data v d = d"
  by (simp add: cleanDecimatedDataset_def read_data_def assign_data_def)

text \<open>
  An unknown algorithm throws after the property was replaced: the dataset has no data, and cleaning
  does not bring it back.
\<close>

lemma unknown_algorithm_loses_data:
  assumes "ds__data d = None" and "ds_data d = Plain v w" and "ds__decimated d = None"
    and "do_algorithm opts \<noteq> ''lttb''" and "do_algorithm opts \<noteq> ''min-max''"
    and "decimate_dataset opts parsing cw m d = (d', err)" and "err \<noteq> None"
  shows "err = Some (Unsupported (do_algorithm opts)) \<and> read_data d' = None \<and> read_data (cleanDecimatedDataset d') = None"
  using assms(6,7) unfolding decimate_dataset_def
  by (auto simp: assms(1-5) run_algorithm_def read_data_def cleanDecimatedDataset_def Let_def split: if_splits prod.splits)

end
