(* ===== verification/Dataset_Stacks.thy ===== *)
theory Dataset_Stacks
  imports Scale Linear_Scale
begin

text \<open>
  What the controllers of datasets share (\<open>scaleClip\<close> to \<open>clearStacks\<close> and the ranges of
  \<open>DatasetController\<close> in \<^verbatim>\<open>chart.js\<close>): clipping, stacks of values, the range of the values
  of a dataset on an axis.

  A parsed item has a value for each axis and refers, for an axis with stacking, to a stack. Stacks are
  objects that the items of several datasets share, so they live in a store: the address of a
  stack is the generation of \<open>chart._stacks\<close> (the chart may delete it and start again), its key
  and the value on the index axis.
\<close>

section \<open>Clipping\<close>

text \<open>The options of a scale; \<open>None\<close> is a missing scale, whose options are empty.\<close>

record clip_options =
  co_reverse :: bool
  co_min :: jsval
  co_max :: jsval

definition scaleClip :: "clip_options option \<Rightarrow> jsval \<Rightarrow> jsval \<times> jsval" where
  "scaleClip scale allowedOverflow =
     (let opts = (case scale of Some c \<Rightarrow> c | None \<Rightarrow> \<lparr>co_reverse = False, co_min = Undefined, co_max = Undefined\<rparr>);
          mn = (if co_min opts = Undefined then allowedOverflow else Num 0);
          mx = (if co_max opts = Undefined then allowedOverflow else Num 0)
      in (if co_reverse opts then mx else mn, if co_reverse opts then mn else mx))"

definition defaultClip :: "clip_options option \<Rightarrow> clip_options option \<Rightarrow> jsval \<Rightarrow> jsval" where
  "defaultClip xScale yScale allowedOverflow =
     (if allowedOverflow = Bool False then Bool False
      else
        let (xs, xe) = scaleClip xScale allowedOverflow; (ys, ye) = scaleClip yScale allowedOverflow
        in Obj [(''top'', ye), (''right'', xe), (''bottom'', ys), (''left'', xs)])"

record clip =
  cl_top :: jsval
  cl_right :: jsval
  cl_bottom :: jsval
  cl_left :: jsval
  cl_disabled :: bool

definition toClip :: "jsval \<Rightarrow> clip" where
  "toClip v =
     (let side = (\<lambda>k. if isObject v then js_get v k else v)
      in \<lparr>cl_top = side ''top'', cl_right = side ''right'', cl_bottom = side ''bottom'',
          cl_left = side ''left'', cl_disabled = (v = Bool False)\<rparr>)"

section \<open>Stacks\<close>

datatype addr = Addr nat string jsval

text \<open>The values of a stack by dataset; \<open>Undefined\<close> where a dataset has none.\<close>

record stack_obj =
  so_values :: "nat \<Rightarrow> jsval"
  so_top :: "nat option"
  so_bottom :: "nat option"

definition empty_stack :: stack_obj where
  "empty_stack = \<lparr>so_values = (\<lambda>_. Undefined), so_top = None, so_bottom = None\<rparr>"

type_synonym store = "addr \<rightharpoonup> stack_obj"

record item =
  it_val :: "string \<Rightarrow> jsval"
  it_stacks :: "string \<Rightarrow> addr option"

text \<open>\<open>Math.sign\<close> on numbers.\<close>

fun math_sign :: "jsnum \<Rightarrow> jsnum" where
  "math_sign (Fin a) = Fin (sgn a)"
| "math_sign PInf = Fin 1"
| "math_sign NInf = Fin (- 1)"
| "math_sign NaN = NaN"

text \<open>The loop of \<open>applyStack\<close> over the keys; adding to a value that is not a number converts it.\<close>

fun apply_loop :: "(nat \<Rightarrow> jsval) \<Rightarrow> nat \<Rightarrow> bool \<Rightarrow> bool \<Rightarrow> nat list \<Rightarrow> jsval \<Rightarrow> jsval" where
  "apply_loop vals dsIndex singleMode allOption [] v = v"
| "apply_loop vals dsIndex singleMode allOption (datasetIndex # keys) v =
     (if datasetIndex = dsIndex then
        (if allOption then apply_loop vals dsIndex singleMode allOption keys v else v)
      else
        let otherValue = vals datasetIndex;
            v' = (if isNumberFinite otherValue \<and>
                     (singleMode \<or> v = Num 0 \<or> num_eq (math_sign (to_num v)) (math_sign (to_num otherValue)))
                  then Num (to_num v + to_num otherValue) else v)
        in apply_loop vals dsIndex singleMode allOption keys v')"

definition applyStack :: "nat list \<Rightarrow> (nat \<Rightarrow> jsval) \<Rightarrow> jsval \<Rightarrow> nat \<Rightarrow> bool \<Rightarrow> bool \<Rightarrow> jsval" where
  "applyStack keys vals v dsIndex singleMode allOption =
     (if v = Null then Undefined else apply_loop vals dsIndex singleMode allOption keys v)"

definition convertObjectDataToArray :: "props \<Rightarrow> jsval list" where
  "convertObjectDataToArray data = map (\<lambda>k. Obj [(''x'', Str k), (''y'', prop_get data k)]) (own_keys data)"

definition isStacked :: "jsval option \<Rightarrow> jsval \<Rightarrow> jsval" where
  "isStacked stackedOption metaStack =
     (let stacked = (case stackedOption of Some s \<Rightarrow> s | None \<Rightarrow> Undefined)
      in if truthy stacked then stacked else Bool (stacked = Undefined \<and> metaStack \<noteq> Undefined))"

definition getStackKey :: "string \<Rightarrow> string \<Rightarrow> string \<Rightarrow> string \<Rightarrow> string" where
  "getStackKey indexScaleId valueScaleId metaStack metaType =
     indexScaleId @ ''.'' @ valueScaleId @ ''.'' @ (if metaStack \<noteq> [] then metaStack else metaType)"

definition getUserBounds :: "user_bounds \<Rightarrow> jsnum \<times> jsnum" where
  "getUserBounds ub = (if ub_minDefined ub then ub_min ub else NInf, if ub_maxDefined ub then ub_max ub else PInf)"

definition getOrCreateStack :: "nat \<Rightarrow> string \<Rightarrow> jsval \<Rightarrow> store \<Rightarrow> addr \<times> store" where
  "getOrCreateStack gen stackKey indexValue h =
     (let a = Addr gen stackKey indexValue
      in (a, case h a of Some _ \<Rightarrow> h | None \<Rightarrow> h(a \<mapsto> empty_stack)))"

text \<open>The visible datasets of the axis and type are given by their indices, in order.\<close>

definition getLastIndexInStack :: "stack_obj \<Rightarrow> nat list \<Rightarrow> bool \<Rightarrow> nat option" where
  "getLastIndexInStack stack metas isPositive =
     find (\<lambda>i. let v = to_num (so_values stack i) in isPositive \<and> 0 < v \<or> \<not> isPositive \<and> v < 0) (rev metas)"

definition update_stack :: "nat list \<Rightarrow> nat \<Rightarrow> jsval \<Rightarrow> stack_obj \<Rightarrow> stack_obj" where
  "update_stack metas datasetIndex v stack =
     (let s1 = stack\<lparr>so_values := (so_values stack)(datasetIndex := v)\<rparr>
      in s1\<lparr>so_top := getLastIndexInStack s1 metas True, so_bottom := getLastIndexInStack s1 metas False\<rparr>)"

record stack_params =
  sp_gen :: nat
  sp_key :: string
  sp_iAxis :: string
  sp_vAxis :: string
  sp_index :: nat
  sp_metas :: "nat list"

fun updateStacks :: "stack_params \<Rightarrow> item list \<Rightarrow> store \<Rightarrow> item list \<times> store" where
  "updateStacks sp [] h = ([], h)"
| "updateStacks sp (it # parsed) h =
     (let (a, h1) = getOrCreateStack (sp_gen sp) (sp_key sp) (it_val it (sp_iAxis sp)) h;
          h2 = h1(a \<mapsto> update_stack (sp_metas sp) (sp_index sp) (it_val it (sp_vAxis sp)) (the (h1 a)));
          it' = it\<lparr>it_stacks := (it_stacks it)(sp_vAxis sp := Some a)\<rparr>;
          (its, h3) = updateStacks sp parsed h2
      in (it' # its, h3))"

text \<open>The loop of \<open>clearStacks\<close>: it returns at the first item without a value of the dataset.\<close>

fun clear_loop :: "nat \<Rightarrow> string \<Rightarrow> item list \<Rightarrow> store \<Rightarrow> store" where
  "clear_loop datasetIndex axis [] h = h"
| "clear_loop datasetIndex axis (it # items) h =
     (case it_stacks it axis of
        None \<Rightarrow> h
      | Some a \<Rightarrow>
          (case h a of
             None \<Rightarrow> h
           | Some s \<Rightarrow>
               if so_values s datasetIndex = Undefined then h
               else clear_loop datasetIndex axis items
                      (h(a \<mapsto> s\<lparr>so_values := (so_values s)(datasetIndex := Undefined)\<rparr>))))"

definition clearStacks :: "nat \<Rightarrow> string option \<Rightarrow> item list \<Rightarrow> store \<Rightarrow> store" where
  "clearStacks datasetIndex axis items h =
     (case axis of None \<Rightarrow> h | Some ax \<Rightarrow> clear_loop datasetIndex ax items h)"

section \<open>Ranges\<close>

text \<open>
  A range is read on one axis of a dataset: \<open>rp_keys\<close> are the visible datasets in order when the
  values are stacked.
\<close>

record range_params =
  rp_axis :: string
  rp_otherAxis :: string
  rp_index :: nat
  rp_keys :: "nat list option"
  rp_store :: store
  rp_other :: user_bounds

definition createStack :: "bool \<Rightarrow> bool \<Rightarrow> jsval \<Rightarrow> nat list \<Rightarrow> nat list option" where
  "createStack canStack hidden stacked visibleKeys =
     (if canStack \<and> \<not> hidden \<and> truthy stacked then Some visibleKeys else None)"

definition range_value :: "range_params \<Rightarrow> item \<Rightarrow> jsnum" where
  "range_value rp it =
     (let parsedValue = it_val it (rp_axis rp)
      in case (rp_keys rp, it_stacks it (rp_axis rp)) of
           (Some keys, Some a) \<Rightarrow>
             to_num (applyStack keys (so_values (the (rp_store rp a))) parsedValue (rp_index rp) False False)
         | _ \<Rightarrow> if parsedValue = Null then NaN else to_num parsedValue)"

definition updateRangeFromParsed :: "range_params \<Rightarrow> item \<Rightarrow> jsnum \<times> jsnum \<Rightarrow> jsnum \<times> jsnum" where
  "updateRangeFromParsed rp it rng =
     (let v = range_value rp it in (math_min (fst rng) v, math_max (snd rng) v))"

definition skip_item :: "range_params \<Rightarrow> item \<Rightarrow> bool" where
  "skip_item rp it =
     (let (otherMin, otherMax) = getUserBounds (rp_other rp); otherValue = to_num (it_val it (rp_otherAxis rp))
      in \<not> isNumberFinite (it_val it (rp_axis rp)) \<or> otherValue < otherMin \<or> otherMax < otherValue)"

fun range_loop :: "range_params \<Rightarrow> bool \<Rightarrow> item list \<Rightarrow> jsnum \<times> jsnum \<Rightarrow> jsnum \<times> jsnum" where
  "range_loop rp once [] rng = rng"
| "range_loop rp once (it # items) rng =
     (if skip_item rp it then range_loop rp once items rng
      else
        let r = updateRangeFromParsed rp it rng
        in if once then r else range_loop rp once items r)"

definition getMinMax :: "range_params \<Rightarrow> bool \<Rightarrow> item list \<Rightarrow> jsnum \<times> jsnum" where
  "getMinMax rp sortedItems parsed =
     (let rng = range_loop rp sortedItems parsed (PInf, NInf)
      in if sortedItems then range_loop rp True (rev parsed) rng else rng)"

definition getAllParsedValues :: "string \<Rightarrow> item list \<Rightarrow> jsnum list" where
  "getAllParsedValues axis parsed =
     map (\<lambda>it. to_num (it_val it axis)) (filter (\<lambda>it. isNumberFinite (it_val it axis)) parsed)"

section \<open>Stacked values: lemmas\<close>

text \<open>The sum of the finite values of one sign among some datasets.\<close>

definition same_sign_sum :: "(nat \<Rightarrow> jsval) \<Rightarrow> real \<Rightarrow> nat list \<Rightarrow> real" where
  "same_sign_sum vals s keys =
     sum_list (map (\<lambda>k. case vals k of Num (Fin y) \<Rightarrow> if sgn y = s then y else 0 | _ \<Rightarrow> 0) keys)"

lemma same_sign_sum_append: "same_sign_sum vals s (as @ bs) = same_sign_sum vals s as + same_sign_sum vals s bs"
  by (simp add: same_sign_sum_def)

lemma same_sign_sum_sgn: "0 \<le> same_sign_sum vals 1 keys" "same_sign_sum vals (- 1) keys \<le> 0"
proof -
  show "0 \<le> same_sign_sum vals 1 keys"
    unfolding same_sign_sum_def
    by (intro sum_list_nonneg) (auto simp: sgn_if split: jsval.splits jsnum.splits if_splits)
  show "same_sign_sum vals (- 1) keys \<le> 0"
    unfolding same_sign_sum_def
    by (intro sum_list_nonpos) (auto simp: sgn_if split: jsval.splits jsnum.splits if_splits)
qed

lemma apply_loop_sum:
  assumes "x \<noteq> 0"
  shows "apply_loop vals ds False False keys (Num (Fin x)) =
    Num (Fin (x + same_sign_sum vals (sgn x) (takeWhile (\<lambda>k. k \<noteq> ds) keys)))"
  using assms
proof (induction keys arbitrary: x)
  case (Cons k keys)
  show ?case
  proof (cases "k \<noteq> ds \<and> (\<exists>y. vals k = Num (Fin y) \<and> sgn y = sgn x)")
    case True
    then obtain y where y: "k \<noteq> ds" "vals k = Num (Fin y)" "sgn y = sgn x" by blast
    then have s: "sgn (x + y) = sgn x" "x + y \<noteq> 0" using Cons.prems by (auto simp: sgn_if split: if_splits)
    have "apply_loop vals ds False False (k # keys) (Num (Fin x)) = apply_loop vals ds False False keys (Num (Fin (x + y)))"
      using y by simp
    also have "\<dots> = Num (Fin (x + y + same_sign_sum vals (sgn (x + y)) (takeWhile (\<lambda>k. k \<noteq> ds) keys)))"
      by (rule Cons.IH [OF s(2)])
    also have "\<dots> = Num (Fin (x + same_sign_sum vals (sgn x) (takeWhile (\<lambda>k. k \<noteq> ds) (k # keys))))"
      using y s(1) by (simp add: same_sign_sum_def)
    finally show ?thesis .
  next
    case False
    then have "k = ds \<or> (k \<noteq> ds \<and> apply_loop vals ds False False (k # keys) (Num (Fin x)) =
        apply_loop vals ds False False keys (Num (Fin x)) \<and>
        same_sign_sum vals (sgn x) (k # takeWhile (\<lambda>k. k \<noteq> ds) keys) = same_sign_sum vals (sgn x) (takeWhile (\<lambda>k. k \<noteq> ds) keys))"
      using Cons.prems by (auto simp: same_sign_sum_def is_finite_iff split: jsval.splits jsnum.splits)
    then show ?thesis
    proof
      assume "k = ds"
      then show ?thesis by (simp add: same_sign_sum_def)
    next
      assume *: "k \<noteq> ds \<and> apply_loop vals ds False False (k # keys) (Num (Fin x)) =
        apply_loop vals ds False False keys (Num (Fin x)) \<and>
        same_sign_sum vals (sgn x) (k # takeWhile (\<lambda>k. k \<noteq> ds) keys) = same_sign_sum vals (sgn x) (takeWhile (\<lambda>k. k \<noteq> ds) keys)"
      with Cons.IH [OF Cons.prems] show ?thesis by (simp only: takeWhile.simps if_True simp_thms)
    qed
  qed
qed (simp add: same_sign_sum_def)

lemma takeWhile_before:
  assumes "distinct keys" and "keys = as @ i # bs @ j # cs"
  shows "takeWhile (\<lambda>k. k \<noteq> i) keys = as" and "takeWhile (\<lambda>k. k \<noteq> j) keys = as @ i # bs"
proof -
  have as: "\<And>k. k \<in> set as \<Longrightarrow> k \<noteq> i" "\<And>k. k \<in> set (as @ i # bs) \<Longrightarrow> k \<noteq> j" using assms by auto
  show "takeWhile (\<lambda>k. k \<noteq> i) keys = as"
    unfolding assms(2) by (subst takeWhile_append2) (use as(1) in auto)
  have "takeWhile (\<lambda>k. k \<noteq> j) ((as @ i # bs) @ j # cs) = as @ i # bs"
    by (subst takeWhile_append2) (use as(2) in auto)
  then show "takeWhile (\<lambda>k. k \<noteq> j) keys = as @ i # bs" unfolding assms(2) by simp
qed

text \<open>
  C28 (stacked values do not overlap). In the usual mode, in which values of different signs are stacked apart (the option \<open>stacked\<close> is not \<^verbatim>\<open>single\<close>),
  of two visible datasets whose values at a position have the same sign and are not 0, the later one starts, in the
  direction of its sign, where or beyond where the earlier one ends: the stacked value less the value
  itself is at least the earlier stacked value, and all lie on the side of their sign.
\<close>

theorem stacked_values_abut:
  assumes "distinct keys" and "keys = as @ i # bs @ j # cs"
    and "vals i = Num (Fin x)" and "vals j = Num (Fin y)" and "x \<noteq> 0" and "sgn x = sgn y"
  shows "\<exists>a b. applyStack keys vals (vals i) i False False = Num (Fin a) \<and>
    applyStack keys vals (vals j) j False False = Num (Fin b) \<and>
    \<bar>a\<bar> \<le> \<bar>b - y\<bar> \<and> \<bar>b - y\<bar> < \<bar>b\<bar> \<and> sgn a = sgn x \<and> sgn (b - y) = sgn x \<and> sgn b = sgn x"
proof -
  note tw = takeWhile_before [OF assms(1,2)]
  let ?A = "same_sign_sum vals (sgn x) as" and ?B = "same_sign_sum vals (sgn x) bs"
  have y0: "y \<noteq> 0" using assms(5,6) by (auto simp: sgn_if split: if_splits)
  have a: "applyStack keys vals (vals i) i False False = Num (Fin (x + ?A))"
    using apply_loop_sum [OF assms(5), of vals i keys] tw by (simp add: applyStack_def assms(3))
  have "same_sign_sum vals (sgn y) (as @ i # bs) = ?A + x + ?B"
    using assms(3,6) by (simp add: same_sign_sum_def)
  then have b: "applyStack keys vals (vals j) j False False = Num (Fin (y + (?A + x + ?B)))"
    using apply_loop_sum [OF y0, of vals j keys] tw by (simp add: applyStack_def assms(4))
  have "0 < x \<and> 0 < y \<and> 0 \<le> ?A \<and> 0 \<le> ?B \<or> x < 0 \<and> y < 0 \<and> ?A \<le> 0 \<and> ?B \<le> 0"
    using same_sign_sum_sgn [of vals as] same_sign_sum_sgn [of vals bs] assms(5,6)
    by (cases "0 < x"; cases "0 < y") (auto simp: sgn_if split: if_splits)
  with a b show ?thesis by (intro exI conjI) (assumption | auto simp: sgn_if)+
qed

theorem stacked_values_abut_witness:
  "\<exists>a b. applyStack [3, 1, 2] (\<lambda>d. if d = 1 then Num 4 else if d = 2 then Num 5 else Num (- 7)) (Num 4) 1 False False = Num (Fin a) \<and>
     applyStack [3, 1, 2] (\<lambda>d. if d = 1 then Num 4 else if d = 2 then Num 5 else Num (- 7)) (Num 5) 2 False False = Num (Fin b) \<and>
     \<bar>a\<bar> \<le> \<bar>b - 5\<bar>"
  using stacked_values_abut [of "[3, 1, 2]" "[3]" 1 "[]" 2 "[]"
      "\<lambda>d. if d = 1 then Num 4 else if d = 2 then Num 5 else Num (- 7)" 4 5] by auto

section \<open>Updating and clearing stacks: lemmas\<close>

definition item_addr :: "stack_params \<Rightarrow> item \<Rightarrow> addr" where
  "item_addr sp it = Addr (sp_gen sp) (sp_key sp) (it_val it (sp_iAxis sp))"

definition stack_value :: "store \<Rightarrow> addr \<Rightarrow> nat \<Rightarrow> jsval" where
  "stack_value h a d = (case h a of None \<Rightarrow> Undefined | Some s \<Rightarrow> so_values s d)"

lemma getOrCreateStack_value:
  assumes "getOrCreateStack gen key i h = (a, h1)"
  shows "a = Addr gen key i" and "stack_value h1 = stack_value h" and "h1 a \<noteq> None"
    and "\<And>b. b \<noteq> a \<Longrightarrow> h1 b = h b"
proof -
  have e: "a = Addr gen key i" "h1 = (case h a of Some _ \<Rightarrow> h | None \<Rightarrow> h(a \<mapsto> empty_stack))"
    using assms by (auto simp: getOrCreateStack_def Let_def)
  show "a = Addr gen key i" by (rule e(1))
  show "stack_value h1 = stack_value h"
    unfolding e(2) by (rule ext) (simp add: stack_value_def empty_stack_def fun_eq_iff split: option.splits)
  show "h1 a \<noteq> None" and "\<And>b. b \<noteq> a \<Longrightarrow> h1 b = h b" by (simp_all add: e(2) split: option.splits)
qed

lemma updateStacks_props:
  assumes "updateStacks sp parsed h = (its, h')" and "distinct (map (item_addr sp) parsed)"
  shows "its = map (\<lambda>it. it\<lparr>it_stacks := (it_stacks it)(sp_vAxis sp := Some (item_addr sp it))\<rparr>) parsed \<and>
    (\<forall>it \<in> set parsed. h' (item_addr sp it) \<noteq> None \<and>
       stack_value h' (item_addr sp it) = (stack_value h (item_addr sp it))(sp_index sp := it_val it (sp_vAxis sp))) \<and>
    (\<forall>a. a \<notin> item_addr sp ` set parsed \<longrightarrow> h' a = h a)"
  using assms
proof (induction parsed arbitrary: h its h')
  case (Cons it parsed)
  obtain a h1 where g: "getOrCreateStack (sp_gen sp) (sp_key sp) (it_val it (sp_iAxis sp)) h = (a, h1)" by fastforce
  note gp = getOrCreateStack_value [OF g]
  have a: "a = item_addr sp it" by (simp add: gp(1) item_addr_def)
  define s2 where "s2 = update_stack (sp_metas sp) (sp_index sp) (it_val it (sp_vAxis sp)) (the (h1 a))"
  obtain its2 h3 where u: "updateStacks sp parsed (h1(a \<mapsto> s2)) = (its2, h3)" by fastforce
  have res: "its = it\<lparr>it_stacks := (it_stacks it)(sp_vAxis sp := Some a)\<rparr> # its2" "h' = h3"
    using Cons.prems(1) by (simp_all add: g u [unfolded s2_def])
  have nin: "a \<notin> item_addr sp ` set parsed" using Cons.prems(2) by (auto simp: a)
  have d2: "distinct (map (item_addr sp) parsed)" using Cons.prems(2) by simp
  note ih = Cons.IH [OF u d2]
  have h3a: "h3 a = Some s2" using ih nin by (metis fun_upd_same)
  have "so_values (the (h1 a)) = stack_value h1 a" using gp(3) by (auto simp: stack_value_def fun_eq_iff)
  then have s2: "so_values s2 = (stack_value h a)(sp_index sp := it_val it (sp_vAxis sp))"
    by (simp add: s2_def update_stack_def Let_def gp(2))
  have "stack_value h3 (item_addr sp k) = (stack_value h (item_addr sp k))(sp_index sp := it_val k (sp_vAxis sp))"
    if "k \<in> set parsed" for k
  proof -
    have "item_addr sp k \<noteq> a" using that nin by auto
    then have "stack_value (h1(a \<mapsto> s2)) (item_addr sp k) = stack_value h (item_addr sp k)"
      using gp(2) by (simp add: stack_value_def fun_eq_iff)
    then show ?thesis using ih that by metis
  qed
  moreover have "stack_value h3 a = (stack_value h a)(sp_index sp := it_val it (sp_vAxis sp))"
    using h3a s2 by (simp add: stack_value_def fun_eq_iff)
  moreover have "h3 b = h b" if "b \<notin> insert a (item_addr sp ` set parsed)" for b
  proof -
    have "h3 b = (h1(a \<mapsto> s2)) b" using ih that by blast
    then show ?thesis using that gp(4) by simp
  qed
  ultimately show ?case
    using ih h3a by (simp add: res a fun_upd_def)
qed simp

lemma clear_loop_props:
  assumes "\<forall>it \<in> set items. \<exists>a. it_stacks it axis = Some a \<and> stack_value h a d \<noteq> Undefined"
    and "distinct (map (\<lambda>it. the (it_stacks it axis)) items)"
  shows "stack_value (clear_loop d axis items h) a k =
    (if k = d \<and> a \<in> (\<lambda>it. the (it_stacks it axis)) ` set items then Undefined else stack_value h a k)"
  using assms
proof (induction items arbitrary: h)
  case (Cons it items)
  then obtain b where b: "it_stacks it axis = Some b" "stack_value h b d \<noteq> Undefined" by auto
  then obtain s where s: "h b = Some s" "so_values s d \<noteq> Undefined"
    by (auto simp: stack_value_def split: option.splits)
  let ?h = "h(b \<mapsto> s\<lparr>so_values := (so_values s)(d := Undefined)\<rparr>)"
  have v: "stack_value ?h c j = (if c = b \<and> j = d then Undefined else stack_value h c j)" for c j
    using s by (simp add: stack_value_def)
  have nin: "b \<notin> (\<lambda>it. the (it_stacks it axis)) ` set items" using Cons.prems(2) b by auto
  have "\<forall>it \<in> set items. \<exists>a. it_stacks it axis = Some a \<and> stack_value ?h a d \<noteq> Undefined"
  proof
    fix k assume k: "k \<in> set items"
    then obtain c where c: "it_stacks k axis = Some c" "stack_value h c d \<noteq> Undefined" using Cons.prems(1) by auto
    with nin k have "c \<noteq> b" by (metis imageI option.sel)
    with c v show "\<exists>a. it_stacks k axis = Some a \<and> stack_value ?h a d \<noteq> Undefined" by auto
  qed
  from Cons.IH [OF this] Cons.prems(2) have "distinct (map (\<lambda>it. the (it_stacks it axis)) items) \<Longrightarrow> stack_value (clear_loop d axis items ?h) a k =
      (if k = d \<and> a \<in> (\<lambda>it. the (it_stacks it axis)) ` set items then Undefined else stack_value ?h a k)"
    by blast
  with Cons.prems(2) have "stack_value (clear_loop d axis items ?h) a k =
      (if k = d \<and> a \<in> (\<lambda>it. the (it_stacks it axis)) ` set items then Undefined else stack_value ?h a k)"
    by (metis (no_types, lifting) distinct.simps(2) list.simps(9))
  then show ?case using b s v by auto
qed simp

text \<open>
  Updating and clearing stacks. After a dataset whose items have distinct positions and defined values enters its stacks, each stack holds its
  value there; clearing takes exactly these values out again, so that every stack has the values that the
  other datasets had before.
\<close>

theorem stacks_cleared:
  assumes "updateStacks sp parsed h = (its, h')" and "distinct (map (\<lambda>it. it_val it (sp_iAxis sp)) parsed)"
    and "\<forall>it \<in> set parsed. it_val it (sp_vAxis sp) \<noteq> Undefined"
    and "h'' = clearStacks (sp_index sp) (Some (sp_vAxis sp)) its h'"
  shows "(\<forall>it \<in> set parsed. stack_value h' (item_addr sp it) (sp_index sp) = it_val it (sp_vAxis sp) \<and>
      stack_value h'' (item_addr sp it) (sp_index sp) = Undefined) \<and>
    (\<forall>a k. k \<noteq> sp_index sp \<or> a \<notin> item_addr sp ` set parsed \<longrightarrow>
      stack_value h' a k = stack_value h a k \<and> stack_value h'' a k = stack_value h a k)"
proof -
  have "map (item_addr sp) parsed = map (\<lambda>v. Addr (sp_gen sp) (sp_key sp) v) (map (\<lambda>it. it_val it (sp_iAxis sp)) parsed)"
    by (simp add: item_addr_def)
  then have d: "distinct (map (item_addr sp) parsed)"
    using assms(2) by (simp only: distinct_map) (auto simp: inj_on_def)
  note u = updateStacks_props [OF assms(1) d]
  have its: "its = map (\<lambda>it. it\<lparr>it_stacks := (it_stacks it)(sp_vAxis sp := Some (item_addr sp it))\<rparr>) parsed" using u by blast
  have addr: "(\<lambda>it. the (it_stacks it (sp_vAxis sp))) ` set its = item_addr sp ` set parsed"
    "map (\<lambda>it. the (it_stacks it (sp_vAxis sp))) its = map (item_addr sp) parsed"
    by (simp_all add: its image_image comp_def)
  have ok: "\<forall>it \<in> set its. \<exists>a. it_stacks it (sp_vAxis sp) = Some a \<and> stack_value h' a (sp_index sp) \<noteq> Undefined"
    using u assms(3) by (auto simp: its)
  have c: "stack_value h'' a k = (if k = sp_index sp \<and> a \<in> item_addr sp ` set parsed then Undefined else stack_value h' a k)" for a k
    using clear_loop_props [OF ok, of a k] d unfolding addr by (simp add: assms(4) clearStacks_def)
  have out: "stack_value h' a k = stack_value h a k" if "k \<noteq> sp_index sp \<or> a \<notin> item_addr sp ` set parsed" for a k
  proof (cases "a \<in> item_addr sp ` set parsed")
    case True
    with u that show ?thesis by auto
  next
    case False
    with u have "h' a = h a" by blast
    then show ?thesis by (simp add: stack_value_def)
  qed
  show ?thesis using u c out by auto
qed

theorem stacks_cleared_witness:
  "\<exists>its h'. updateStacks \<lparr>sp_gen = 0, sp_key = ''k'', sp_iAxis = ''x'', sp_vAxis = ''y'', sp_index = 0, sp_metas = [0]\<rparr>
       [\<lparr>it_val = (\<lambda>_. Num 1), it_stacks = (\<lambda>_. None)\<rparr>] Map.empty = (its, h') \<and>
     stack_value h' (Addr 0 ''k'' (Num 1)) 0 = Num 1 \<and>
     stack_value (clearStacks 0 (Some ''y'') its h') (Addr 0 ''k'' (Num 1)) 0 = Undefined"
proof -
  let ?sp = "\<lparr>sp_gen = 0, sp_key = ''k'', sp_iAxis = ''x'', sp_vAxis = ''y'', sp_index = 0, sp_metas = [0]\<rparr>"
  let ?it = "\<lparr>it_val = (\<lambda>_. Num 1), it_stacks = (\<lambda>_. None)\<rparr>"
  obtain its h' where u: "updateStacks ?sp [?it] Map.empty = (its, h')" by fastforce
  from stacks_cleared [OF u] u show ?thesis by (auto simp: item_addr_def)
qed

section \<open>Ranges: lemmas\<close>

definition extend_range :: "real \<Rightarrow> jsnum \<times> jsnum \<Rightarrow> jsnum \<times> jsnum" where
  "extend_range v r = (math_min (fst r) (Fin v), math_max (snd r) (Fin v))"

lemma range_loop_all:
  assumes "\<And>it. it \<in> set items \<Longrightarrow> \<not> skip_item rp it \<Longrightarrow> range_value rp it = Fin (f it)"
  shows "range_loop rp False items r = fold extend_range (map f (filter (\<lambda>it. \<not> skip_item rp it) items)) r"
  using assms by (induction items arbitrary: r) (auto simp: updateRangeFromParsed_def extend_range_def Let_def)

lemma range_loop_once:
  assumes "\<And>it. it \<in> set items \<Longrightarrow> \<not> skip_item rp it \<Longrightarrow> range_value rp it = Fin (f it)"
  shows "range_loop rp True items r =
    (case filter (\<lambda>it. \<not> skip_item rp it) items of [] \<Rightarrow> r | it # _ \<Rightarrow> extend_range (f it) r)"
  using assms by (induction items arbitrary: r) (auto simp: updateRangeFromParsed_def extend_range_def Let_def)

lemma fold_extend_range: "fold extend_range vs (Fin a, Fin b) = (Fin (fold min vs a), Fin (fold max vs b))"
  by (induction vs arbitrary: a b) (simp_all add: extend_range_def min.commute max.commute)

lemma fold_min_max_sorted:
  fixes a :: real
  assumes "sorted (a # vs)"
  shows "fold min vs a = a" and "fold max vs a = last (a # vs)"
proof -
  show "fold min vs a = a" using assms by (induction vs) (simp_all add: min_absorb2)
  show "fold max vs a = last (a # vs)" using assms
    by (induction vs arbitrary: a) (auto simp: max_absorb1)
qed

lemma fold_min_max_bounds:
  fixes a :: real
  shows "fold min vs a \<le> a" and "v \<in> set vs \<Longrightarrow> fold min vs a \<le> v"
    and "a \<le> fold max vs a" and "v \<in> set vs \<Longrightarrow> v \<le> fold max vs a"
proof -
  have lo: "fold min vs a \<le> a" and hi: "a \<le> fold max vs a" for vs and a :: real
    by (induction vs arbitrary: a) (simp_all, (meson min.boundedE max.boundedE order.trans)+)
  show "fold min vs a \<le> a" and "a \<le> fold max vs a" by (rule lo hi)+
  show "fold min vs a \<le> v" if "v \<in> set vs"
    using that by (induction vs arbitrary: a) (auto intro: order.trans [OF lo])
  show "v \<le> fold max vs a" if "v \<in> set vs"
    using that by (induction vs arbitrary: a) (auto intro: order.trans [OF _ hi])
qed

text \<open>A range over increasing values is the first and the last of them.\<close>

lemma fold_extend_sorted:
  assumes "sorted (v # vs)"
  shows "fold extend_range (v # vs) (PInf, NInf) = extend_range (last (v # vs)) (extend_range v (PInf, NInf))"
proof -
  have "v \<le> last (v # vs)" using assms by (cases vs) auto
  then show ?thesis
    using fold_min_max_sorted [OF assms] fold_extend_range [of vs v v]
    by (simp add: extend_range_def math_min_def math_max_def min_def max_def)
qed

text \<open>The values of an axis that is not stacked.\<close>

definition plain_axis :: "range_params \<Rightarrow> item list \<Rightarrow> bool" where
  "plain_axis rp items \<longleftrightarrow> rp_keys rp = None \<or> (\<forall>it \<in> set items. it_stacks it (rp_axis rp) = None)"

definition axis_val :: "range_params \<Rightarrow> item \<Rightarrow> real" where
  "axis_val rp it = num_val (to_num (it_val it (rp_axis rp)))"

lemma range_value_plain:
  assumes "plain_axis rp items" and "it \<in> set items" and "isNumberFinite (it_val it (rp_axis rp))"
  shows "range_value rp it = Fin (axis_val rp it)"
proof -
  obtain x where x: "it_val it (rp_axis rp) = Num (Fin x)"
    using assms(3) by (cases "it_val it (rp_axis rp)") (auto simp: is_finite_iff)
  then show ?thesis
    using assms(1,2) by (auto simp: range_value_def plain_axis_def axis_val_def Let_def split: option.splits)
qed

lemma range_value_unskipped:
  assumes "plain_axis rp items" and "it \<in> set items" and "\<not> skip_item rp it"
  shows "range_value rp it = Fin (axis_val rp it)"
  using range_value_plain [OF assms(1,2)] assms(3) by (auto simp: skip_item_def Let_def split: prod.splits)

lemma sorted_filter_map: "sorted (map f xs) \<Longrightarrow> sorted (map f (filter P xs))"
  by (induction xs) (auto simp: )

lemma sorted_range_is_full_range:
  assumes "plain_axis rp parsed" and "sorted (map (axis_val rp) parsed)"
  shows "Dataset_Stacks.getMinMax rp True parsed = Dataset_Stacks.getMinMax rp False parsed"
proof -
  let ?vs = "filter (\<lambda>it. \<not> skip_item rp it) parsed"
  have v: "range_value rp it = Fin (axis_val rp it)" if "it \<in> set parsed" "\<not> skip_item rp it" for it
    by (rule range_value_unskipped [OF assms(1) that])
  have slow: "Dataset_Stacks.getMinMax rp False parsed = fold extend_range (map (axis_val rp) ?vs) (PInf, NInf)"
    unfolding Dataset_Stacks.getMinMax_def using range_loop_all [of parsed rp "axis_val rp"] v by simp
  have fast: "Dataset_Stacks.getMinMax rp True parsed =
      (case rev ?vs of [] \<Rightarrow> (case ?vs of [] \<Rightarrow> (PInf, NInf) | it # _ \<Rightarrow> extend_range (axis_val rp it) (PInf, NInf))
       | z # _ \<Rightarrow> extend_range (axis_val rp z) (case ?vs of [] \<Rightarrow> (PInf, NInf) | it # _ \<Rightarrow> extend_range (axis_val rp it) (PInf, NInf)))"
  proof -
    have "range_loop rp True parsed (PInf, NInf) =
        (case ?vs of [] \<Rightarrow> (PInf, NInf) | it # _ \<Rightarrow> extend_range (axis_val rp it) (PInf, NInf))"
      by (rule range_loop_once) (use v in simp)
    moreover have "range_loop rp True (rev parsed) r =
        (case rev ?vs of [] \<Rightarrow> r | it # _ \<Rightarrow> extend_range (axis_val rp it) r)" for r
      unfolding rev_filter by (rule range_loop_once) (use v in simp)
    ultimately show ?thesis by (simp add: Dataset_Stacks.getMinMax_def Let_def)
  qed
  show ?thesis
  proof (cases ?vs)
    case Nil
    then show ?thesis by (simp add: slow fast)
  next
    case (Cons it its)
    have "sorted (map (axis_val rp) ?vs)" by (rule sorted_filter_map [OF assms(2)])
    then have s: "sorted (axis_val rp it # map (axis_val rp) its)" by (simp add: Cons)
    obtain z zs where z: "rev ?vs = z # zs" using Cons by (cases "rev ?vs") auto
    then have "last ?vs = z" by (metis last_rev list.sel(1) rev_rev_ident hd_rev)
    then have "last (axis_val rp it # map (axis_val rp) its) = axis_val rp z"
      unfolding Cons by (metis last_map list.distinct(1) list.simps(9))
    then show ?thesis using fold_extend_sorted [OF s] z by (simp add: slow fast Cons)
  qed
qed

lemma range_covers_items:
  assumes "plain_axis rp parsed" and "it \<in> set parsed" and "\<not> skip_item rp it"
    and "Dataset_Stacks.getMinMax rp False parsed = (lo, hi)"
  shows "lo \<le> to_num (it_val it (rp_axis rp)) \<and> to_num (it_val it (rp_axis rp)) \<le> hi"
proof -
  let ?vs = "map (axis_val rp) (filter (\<lambda>it. \<not> skip_item rp it) parsed)"
  have "fold extend_range ?vs (PInf, NInf) = (lo, hi)"
    using range_loop_all [of parsed rp "axis_val rp"] range_value_unskipped [OF assms(1)] assms(4)
    by (simp add: Dataset_Stacks.getMinMax_def)
  moreover have "axis_val rp it \<in> set ?vs" using assms(2,3) by auto
  ultimately have "lo \<le> Fin (axis_val rp it) \<and> Fin (axis_val rp it) \<le> hi"
    by (cases ?vs) (auto simp: extend_range_def fold_extend_range math_min_def math_max_def fold_min_max_bounds)
  moreover have "to_num (it_val it (rp_axis rp)) = Fin (axis_val rp it)"
    using assms(3) by (cases "it_val it (rp_axis rp)") (auto simp: skip_item_def Let_def axis_val_def is_finite_iff split: prod.splits)
  ultimately show ?thesis by simp
qed

text \<open>
  Clearing returns at the first item whose stack has no value of the dataset. Items at the same position
  share a stack, so a repeated position leaves the values at the positions after it.
\<close>

lemma clear_stops_at_repeated_position:
  "\<exists>its h. updateStacks \<lparr>sp_gen = 0, sp_key = ''k'', sp_iAxis = ''x'', sp_vAxis = ''y'', sp_index = 0, sp_metas = [0]\<rparr>
      (map (\<lambda>x. \<lparr>it_val = (\<lambda>_. Undefined)(''x'' := Num (Fin x), ''y'' := Num 1), it_stacks = (\<lambda>_. None)\<rparr>) [0, 0, 1]) Map.empty = (its, h) \<and>
    stack_value (clearStacks 0 (Some ''y'') its h) (Addr 0 ''k'' (Num 0)) 0 = Undefined \<and>
    stack_value (clearStacks 0 (Some ''y'') its h) (Addr 0 ''k'' (Num 1)) 0 = Num 1"
  by (simp add: getOrCreateStack_def Let_def update_stack_def empty_stack_def clearStacks_def stack_value_def)

end
