(* ===== verification/Dataset_Controller.thy ===== *)
theory Dataset_Controller
  imports Dataset_Stacks Collections Linear_Scale
begin

text \<open>
  The data and the elements of a dataset (class \<open>DatasetController\<close> in \<^verbatim>\<open>chart.js\<close>, from
  \<open>updateIndex\<close> to \<open>parse\<close> and from \<open>_resyncElements\<close> to \<open>_onDataUnshift\<close>).

  The controller listens to its array of data. While data is parsed, each change of the array is queued and
  replayed on the elements at the next update, after which the items are parsed again.

  Arrays may have holes, so the entries of elements and items are options. An element is
  an identity. A property with a negative name that an insertion at a negative position writes
  is not represented, nor is the exception when stacks of a hole are cleared. The initial state
  of new elements is set by the controllers of the chart types.
\<close>

section \<open>State\<close>

datatype sync = InsertElements int int | RemoveElements int nat

text \<open>
  What does not change during an update: the parsers of the axes, which may change their axes (state
  \<open>'s\<close>: labels that are added, a zero that is seen), and the parameters of stacking.
\<close>

record 's config =
  cf_iAxis :: string
  cf_vAxis :: string
  cf_iParse :: "jsval \<Rightarrow> int \<Rightarrow> 's \<Rightarrow> jsval \<times> 's"
  cf_vParse :: "jsval \<Rightarrow> int \<Rightarrow> 's \<Rightarrow> jsval \<times> 's"
  cf_xParse :: "jsval \<Rightarrow> int \<Rightarrow> 's \<Rightarrow> jsval \<times> 's"
  cf_yParse :: "jsval \<Rightarrow> int \<Rightarrow> 's \<Rightarrow> jsval \<times> 's"
  cf_labels :: "'s \<Rightarrow> jsval list"
  cf_singleScale :: bool
  cf_xAxisKey :: string
  cf_yAxisKey :: string
  cf_parsing :: bool
  cf_stackKey :: "string option \<Rightarrow> string"
  cf_metas :: "nat list"

record 's ctl =
  dc_axes :: 's
  dc_index :: nat
  dc_data :: "jsval list"
  dc_syncList :: "sync list"
  dc_elements :: "nat option list"
  dc_nextElement :: nat
  dc_parsed :: "item option list"
  dc_sorted :: bool
  dc_stacked :: jsval
  dc_stack :: "string option"
  dc_gen :: nat
  dc_store :: store
  dc_dataChanges :: "(nat \<times> sync) list"

definition stack_params_of :: "'s config \<Rightarrow> 's ctl \<Rightarrow> stack_params" where
  "stack_params_of cf c =
     \<lparr>sp_gen = dc_gen c, sp_key = cf_stackKey cf (dc_stack c), sp_iAxis = cf_iAxis cf, sp_vAxis = cf_vAxis cf,
      sp_index = dc_index c, sp_metas = cf_metas cf\<rparr>"

section \<open>Arrays with holes\<close>

text \<open>Reading and writing an entry; writing beyond the end leaves holes.\<close>

definition get_at :: "'a option list \<Rightarrow> int \<Rightarrow> 'a option" where
  "get_at arr i = (case arr_get arr i of Some v \<Rightarrow> v | None \<Rightarrow> None)"

definition put_at :: "int \<Rightarrow> 'a \<Rightarrow> 'a option list \<Rightarrow> 'a option list" where
  "put_at i v arr =
     (if i < 0 then arr else (arr @ replicate (Suc (nat i) - length arr) None)[nat i := Some v])"

text \<open>
  The closure \<open>move\<close>: the length grows by \<open>count\<close>, then the entries from \<open>start\<close> on move up; the
  loop goes downwards, so that it reads each entry before it is written. A negative count (see
  \<open>handler_calls\<close>) cuts the array first and then copies the missing entry behind the end down to
  \<open>start + count\<close>; it throws when the length would be negative.
\<close>

definition move :: "int \<Rightarrow> int \<Rightarrow> 'a option list \<Rightarrow> 'a option list option" where
  "move start cnt arr =
     (let n = int (length arr) + cnt
      in if n < 0 then None
         else Some (map (\<lambda>i. if start + cnt \<le> int i then (if 0 \<le> cnt then get_at arr (int i - cnt) else None)
                               else get_at arr (int i)) [0 ..< nat n]))"

text \<open>
  \<open>Array.prototype.splice\<close>: a negative start counts from the end, both numbers are limited.
  The result is the array and the entries removed.
\<close>

definition splice_start :: "int \<Rightarrow> nat \<Rightarrow> nat" where
  "splice_start start n = (if start < 0 then nat (max 0 (int n + start)) else min (nat start) n)"

definition arr_splice :: "int \<Rightarrow> nat \<Rightarrow> 'a list \<Rightarrow> 'a list \<Rightarrow> 'a list \<times> 'a list" where
  "arr_splice start cnt items xs =
     (let s = splice_start start (length xs); k = min cnt (length xs - s)
      in (take s xs @ items @ drop (s + k) xs, take k (drop s xs)))"

section \<open>Parsing\<close>

definition no_stacks :: "string \<Rightarrow> addr option" where
  "no_stacks = (\<lambda>_. None)"

text \<open>
  The three parsers go through \<open>count\<close> entries from \<open>start\<close>. Reading a component of a
  missing entry throws, as does a negative number of entries: the result is \<open>None\<close>. When both axes are one, the second value overwrites the
  first, as the property has one name.
\<close>

fun parsePrimitiveData :: "'s config \<Rightarrow> jsval list \<Rightarrow> int list \<Rightarrow> 's \<Rightarrow> item list \<times> 's" where
  "parsePrimitiveData cf data [] s = ([], s)"
| "parsePrimitiveData cf data (index # js) s =
     (let labels = cf_labels cf s;
          label = (case arr_get labels index of Some v \<Rightarrow> v | None \<Rightarrow> Undefined);
          datum = (case arr_get data index of Some v \<Rightarrow> v | None \<Rightarrow> Undefined);
          (i, s1) = (if cf_singleScale cf then (Bool True, s) else cf_iParse cf label index s);
          (v, s2) = cf_vParse cf datum index s1;
          it = \<lparr>it_val = (\<lambda>_. Undefined)(cf_iAxis cf := i, cf_vAxis cf := v), it_stacks = no_stacks\<rparr>;
          (its, s3) = parsePrimitiveData cf data js s2
      in (it # its, s3))"

fun parseArrayData :: "'s config \<Rightarrow> jsval list \<Rightarrow> int list \<Rightarrow> 's \<Rightarrow> (item list \<times> 's) option" where
  "parseArrayData cf data [] s = Some ([], s)"
| "parseArrayData cf data (index # js) s =
     (case arr_get data index of
        None \<Rightarrow> None
      | Some Null \<Rightarrow> None
      | Some Undefined \<Rightarrow> None
      | Some datum \<Rightarrow>
          (let (x, s1) = cf_xParse cf (js_get datum ''0'') index s;
               (y, s2) = cf_yParse cf (js_get datum ''1'') index s1;
               it = \<lparr>it_val = (\<lambda>_. Undefined)(''x'' := x, ''y'' := y), it_stacks = no_stacks\<rparr>
           in map_option (\<lambda>(its, s3). (it # its, s3)) (parseArrayData cf data js s2)))"

fun parseObjectData :: "'s config \<Rightarrow> jsval list \<Rightarrow> int list \<Rightarrow> 's \<Rightarrow> item list \<times> 's" where
  "parseObjectData cf data [] s = ([], s)"
| "parseObjectData cf data (index # js) s =
     (let datum = (case arr_get data index of Some v \<Rightarrow> v | None \<Rightarrow> Undefined);
          (x, s1) = cf_xParse cf (resolveObjectKey datum (cf_xAxisKey cf)) index s;
          (y, s2) = cf_yParse cf (resolveObjectKey datum (cf_yAxisKey cf)) index s1;
          it = \<lparr>it_val = (\<lambda>_. Undefined)(''x'' := x, ''y'' := y), it_stacks = no_stacks\<rparr>;
          (its, s3) = parseObjectData cf data js s2
      in (it # its, s3))"

text \<open>The operator \<open><\<close> on parsed values, and the test that stops an order.\<close>

definition isNotInOrderComparedToPrev :: "string \<Rightarrow> item option \<Rightarrow> item \<Rightarrow> bool" where
  "isNotInOrderComparedToPrev iAxis prev cur \<longleftrightarrow>
     it_val cur iAxis = Null \<or>
     (case prev of None \<Rightarrow> False | Some p \<Rightarrow> to_num (it_val cur iAxis) < to_num (it_val p iAxis))"

fun sorted_loop :: "string \<Rightarrow> item list \<Rightarrow> bool \<Rightarrow> item option \<Rightarrow> bool" where
  "sorted_loop iAxis [] sorted0 prev = sorted0"
| "sorted_loop iAxis (cur # items) sorted0 prev =
     (if sorted0 then sorted_loop iAxis items (\<not> isNotInOrderComparedToPrev iAxis prev cur) (Some cur)
      else False)"

fun put_all :: "int \<Rightarrow> 'a list \<Rightarrow> 'a option list \<Rightarrow> 'a option list" where
  "put_all i [] arr = arr"
| "put_all i (v # vs) arr = put_all (i + 1) vs (put_at i v arr)"

text \<open>With parsing turned off, the items are the user's own objects.\<close>

definition own_item :: "jsval \<Rightarrow> item" where
  "own_item d = \<lparr>it_val = js_get d, it_stacks = no_stacks\<rparr>"

definition parse_items :: "'s config \<Rightarrow> jsval list \<Rightarrow> int \<Rightarrow> int \<Rightarrow> 's \<Rightarrow> (item list \<times> 's) option" where
  "parse_items cf data start cnt s =
     (let first = (case arr_get data start of Some v \<Rightarrow> v | None \<Rightarrow> Undefined); js = [start .. start + cnt - 1]
      in if cnt < 0 then None
         else if isArray first then parseArrayData cf data js s
         else if isObject first then Some (parseObjectData cf data js s)
         else Some (parsePrimitiveData cf data js s))"

definition stack_if :: "'s config \<Rightarrow> 's ctl \<Rightarrow> item list \<Rightarrow> item list \<times> store" where
  "stack_if cf c items =
     (if truthy (dc_stacked c) then updateStacks (stack_params_of cf c) items (dc_store c) else (items, dc_store c))"

definition parse :: "'s config \<Rightarrow> int \<Rightarrow> int \<Rightarrow> 's ctl \<Rightarrow> 's ctl option" where
  "parse cf start cnt c =
     (if \<not> cf_parsing cf then
        (let (items, h) = stack_if cf c (map own_item (dc_data c))
         in Some (c\<lparr>dc_parsed := map Some items, dc_sorted := True, dc_store := h\<rparr>))
      else
        (let sorted0 = (if start = 0 \<and> cnt = int (length (dc_data c)) then True else dc_sorted c);
             prev = (if 0 < start then get_at (dc_parsed c) (start - 1) else None)
         in case parse_items cf (dc_data c) start cnt (dc_axes c) of
              None \<Rightarrow> None
            | Some (items, s) \<Rightarrow>
                (let (items', h) = stack_if cf c items
                 in Some (c\<lparr>dc_axes := s, dc_parsed := put_all start items' (dc_parsed c),
                            dc_sorted := sorted_loop (cf_iAxis cf) items sorted0 prev, dc_store := h\<rparr>))))"

section \<open>Elements\<close>

definition insertElements :: "'s config \<Rightarrow> int \<Rightarrow> int \<Rightarrow> 's ctl \<Rightarrow> 's ctl option" where
  "insertElements cf start cnt c =
     (case (move start cnt (dc_elements c), if cf_parsing cf then move start cnt (dc_parsed c) else Some (dc_parsed c)) of
        (Some moved, Some parsed) \<Rightarrow>
          parse cf start cnt
            (c\<lparr>dc_elements := fold (\<lambda>i. put_at i (dc_nextElement c + nat (i - start))) [start .. start + cnt - 1] moved,
               dc_nextElement := dc_nextElement c + nat cnt, dc_parsed := parsed\<rparr>)
      | _ \<Rightarrow> None)"

definition removed_items :: "item option list \<Rightarrow> item list" where
  "removed_items xs = map the (filter (\<lambda>x. x \<noteq> None) xs)"

definition removeElements :: "'s config \<Rightarrow> int \<Rightarrow> nat \<Rightarrow> 's ctl \<Rightarrow> 's ctl" where
  "removeElements cf start cnt c =
     (let c1 = (if cf_parsing cf then
                  (let (parsed, removed) = arr_splice start cnt [] (dc_parsed c)
                   in c\<lparr>dc_parsed := parsed,
                        dc_store := (if truthy (dc_stacked c)
                                     then clearStacks (dc_index c) (Some (cf_vAxis cf)) (removed_items removed) (dc_store c)
                                     else dc_store c)\<rparr>)
                else c)
      in c1\<lparr>dc_elements := fst (arr_splice start cnt [] (dc_elements c1))\<rparr>)"

fun run_sync :: "'s config \<Rightarrow> sync \<Rightarrow> 's ctl \<Rightarrow> 's ctl option" where
  "run_sync cf (InsertElements start cnt) c = insertElements cf start cnt c"
| "run_sync cf (RemoveElements start cnt) c = Some (removeElements cf start cnt c)"

fun run_syncs :: "'s config \<Rightarrow> sync list \<Rightarrow> 's ctl \<Rightarrow> 's ctl option" where
  "run_syncs cf [] c = Some c"
| "run_syncs cf (x # xs) c = (case run_sync cf x c of None \<Rightarrow> None | Some c' \<Rightarrow> run_syncs cf xs c')"

definition resyncElements :: "'s config \<Rightarrow> 's ctl \<Rightarrow> 's ctl option" where
  "resyncElements cf c =
     (case run_syncs cf (dc_syncList c) c of
        None \<Rightarrow> None
      | Some c0 \<Rightarrow>
          (let c1 = c0\<lparr>dc_syncList := []\<rparr>;
               numMeta = length (dc_elements c1); numData = length (dc_data c1); cnt = int (min numData numMeta)
           in case (if 0 < cnt then parse cf 0 cnt c1 else Some c1) of
                None \<Rightarrow> None
              | Some c2 \<Rightarrow>
                  if numData > numMeta then insertElements cf (int numMeta) (int numData - int numMeta) c2
                  else if numData < numMeta then Some (removeElements cf (int numData) (numMeta - numData) c2)
                  else Some c2))"

section \<open>Changes of the data\<close>

text \<open>
  The calls of the array's methods, with what they do to the data and which handler they call. A
  call of \<open>splice\<close> with one argument removes everything from the start on; the handler then takes
  \<open>arguments.length - 2\<close>, that is \<open>- 1\<close>, for the number of insertions.
\<close>

datatype 'a array_op = Push "'a list" | Pop | Shift | Unshift "'a list" | Splice int "(nat \<times> 'a list) option"

fun apply_op :: "'a array_op \<Rightarrow> 'a list \<Rightarrow> 'a list" where
  "apply_op (Push vs) xs = xs @ vs"
| "apply_op Pop xs = butlast xs"
| "apply_op Shift xs = tl xs"
| "apply_op (Unshift vs) xs = vs @ xs"
| "apply_op (Splice start cnt) xs =
     (case cnt of
        Some (k, vs) \<Rightarrow> fst (arr_splice start k vs xs)
      | None \<Rightarrow> fst (arr_splice start (length xs) [] xs))"

definition sync_step :: "'s config \<Rightarrow> sync \<Rightarrow> 's ctl \<Rightarrow> 's ctl option" where
  "sync_step cf x c =
     map_option (\<lambda>c'. c'\<lparr>dc_dataChanges := dc_dataChanges c' @ [(dc_index c', x)]\<rparr>)
       (if cf_parsing cf then Some (c\<lparr>dc_syncList := dc_syncList c @ [x]\<rparr>) else run_sync cf x c)"

text \<open>The handlers, called after the array has changed.\<close>

fun handler_calls :: "'a array_op \<Rightarrow> 'a list \<Rightarrow> nat \<Rightarrow> sync list" where
  "handler_calls (Push vs) newData numMeta = [InsertElements (int (length newData) - int (length vs)) (int (length vs))]"
| "handler_calls Pop newData numMeta = [RemoveElements (int numMeta - 1) 1]"
| "handler_calls Shift newData numMeta = [RemoveElements 0 1]"
| "handler_calls (Unshift vs) newData numMeta = [InsertElements 0 (int (length vs))]"
| "handler_calls (Splice start cnt) newData numMeta =
     (case cnt of
        None \<Rightarrow> [InsertElements start (- 1)]
      | Some (k, vs) \<Rightarrow>
          (if k \<noteq> 0 then [RemoveElements start k] else []) @
          (if vs \<noteq> [] then [InsertElements start (int (length vs))] else []))"

fun sync_steps :: "'s config \<Rightarrow> sync list \<Rightarrow> 's ctl \<Rightarrow> 's ctl option" where
  "sync_steps cf [] c = Some c"
| "sync_steps cf (x # xs) c = (case sync_step cf x c of None \<Rightarrow> None | Some c' \<Rightarrow> sync_steps cf xs c')"

definition data_op :: "'s config \<Rightarrow> jsval array_op \<Rightarrow> 's ctl \<Rightarrow> 's ctl option" where
  "data_op cf op c =
     (let newData = apply_op op (dc_data c)
      in sync_steps cf (handler_calls op newData (length (dc_elements c))) (c\<lparr>dc_data := newData\<rparr>))"

fun data_ops :: "'s config \<Rightarrow> jsval array_op list \<Rightarrow> 's ctl \<Rightarrow> 's ctl option" where
  "data_ops cf [] c = Some c"
| "data_ops cf (op # ops) c = (case data_op cf op c of None \<Rightarrow> None | Some c' \<Rightarrow> data_ops cf ops c')"

section \<open>Updates of the controller\<close>

definition clear_all :: "'s config \<Rightarrow> 's ctl \<Rightarrow> 's ctl" where
  "clear_all cf c =
     c\<lparr>dc_store := clearStacks (dc_index c) (Some (cf_vAxis cf)) (removed_items (dc_parsed c)) (dc_store c)\<rparr>"

definition updateIndex :: "'s config \<Rightarrow> nat \<Rightarrow> 's ctl \<Rightarrow> 's ctl" where
  "updateIndex cf datasetIndex c =
     (if dc_index c \<noteq> datasetIndex then clear_all cf c else c)\<lparr>dc_index := datasetIndex\<rparr>"

definition destroy :: "'s config \<Rightarrow> 's ctl \<Rightarrow> 's ctl" where
  "destroy cf c = (if truthy (dc_stacked c) then clear_all cf c else c)"

text \<open>Another array of data takes the place of the one that was there.\<close>

definition replace_data :: "'s config \<Rightarrow> jsval list \<Rightarrow> 's ctl \<Rightarrow> 's ctl" where
  "replace_data cf newData c =
     (clear_all cf c)\<lparr>dc_parsed := [], dc_syncList := [], dc_data := newData\<rparr>"

definition restack :: "'s config \<Rightarrow> 's ctl \<Rightarrow> 's ctl" where
  "restack cf c =
     (let (items, h) = updateStacks (stack_params_of cf c) (removed_items (dc_parsed c)) (dc_store c)
      in c\<lparr>dc_parsed := map Some items, dc_store := h\<rparr>)"

definition buildOrUpdateElements :: "'s config \<Rightarrow> jsval option \<Rightarrow> string option \<Rightarrow> 's ctl \<Rightarrow> 's ctl option" where
  "buildOrUpdateElements cf stackedOption datasetStack c =
     (let oldStacked = dc_stacked c;
          meta = (case dc_stack c of Some k \<Rightarrow> Str k | None \<Rightarrow> Undefined);
          c1 = c\<lparr>dc_stacked := isStacked stackedOption meta\<rparr>;
          stackChanged = (dc_stack c1 \<noteq> datasetStack);
          c2 = (if stackChanged then (clear_all cf c1)\<lparr>dc_stack := datasetStack\<rparr> else c1)
      in map_option (\<lambda>c3. if stackChanged \<or> oldStacked \<noteq> dc_stacked c3 then restack cf c3 else c3)
           (resyncElements cf c2))"

section \<open>Lengths\<close>

lemma length_move: "move start cnt arr = Some arr' \<Longrightarrow> length arr' = nat (int (length arr) + cnt)"
  by (auto simp: move_def Let_def split: if_splits)

lemma move_nonneg: "0 \<le> cnt \<Longrightarrow> \<exists>arr'. move start cnt arr = Some arr'"
  by (simp add: move_def Let_def)

lemma length_put_at: "length (put_at i v arr) = (if i < 0 then length arr else max (length arr) (Suc (nat i)))"
  by (simp add: put_at_def max_def)

lemma length_fold_put_at:
  "length (fold (\<lambda>i. put_at i (f i)) [s .. e - 1] arr) = (if s < e \<and> 0 < e then max (length arr) (nat e) else length arr)"
proof (induction "nat (e - s)" arbitrary: s arr)
  case (Suc n)
  then have se: "s < e" by simp
  have "length (fold (\<lambda>i. put_at i (f i)) [s + 1 .. e - 1] (put_at s (f s) arr)) =
      (if s + 1 < e \<and> 0 < e then max (length (put_at s (f s) arr)) (nat e) else length (put_at s (f s) arr))"
    by (rule Suc.hyps) (use Suc.hyps(2) in simp)
  moreover have "0 \<le> s \<Longrightarrow> Suc (nat s) \<le> nat e" using se by linarith
  ultimately show ?case using se
    by (cases "s + 1 < e") (auto simp: upto_rec1 length_put_at max_def split: if_splits)
qed simp

lemma length_put_all:
  "length (put_all s vs arr) =
    (if vs \<noteq> [] \<and> 0 < s + int (length vs) then max (length arr) (nat (s + int (length vs))) else length arr)"
  by (induction s vs arr rule: put_all.induct) (auto simp: length_put_at max_def)

lemma length_arr_splice:
  "length xs = length ys \<Longrightarrow> length (fst (arr_splice start cnt [] xs)) = length (fst (arr_splice start cnt [] ys))"
  by (simp add: arr_splice_def Let_def)

section \<open>Parsing with parsers that keep their axes\<close>

definition pure_parser :: "(jsval \<Rightarrow> int \<Rightarrow> 's \<Rightarrow> jsval \<times> 's) \<Rightarrow> (jsval \<Rightarrow> int \<Rightarrow> jsval) \<Rightarrow> bool" where
  "pure_parser p f \<longleftrightarrow> (\<forall>v i s. p v i s = (f v i, s))"

definition pure_config :: "'s config \<Rightarrow> (jsval \<Rightarrow> int \<Rightarrow> jsval) \<Rightarrow> (jsval \<Rightarrow> int \<Rightarrow> jsval) \<Rightarrow> bool" where
  "pure_config cf fx fy \<longleftrightarrow> cf_parsing cf \<and> pure_parser (cf_xParse cf) fx \<and> pure_parser (cf_yParse cf) fy \<and>
     (\<exists>fi fv. pure_parser (cf_iParse cf) fi \<and> pure_parser (cf_vParse cf) fv)"

definition object_values :: "'s config \<Rightarrow> (jsval \<Rightarrow> int \<Rightarrow> jsval) \<Rightarrow> (jsval \<Rightarrow> int \<Rightarrow> jsval) \<Rightarrow> jsval list \<Rightarrow> int \<Rightarrow>
    string \<Rightarrow> jsval" where
  "object_values cf fx fy data i =
     (\<lambda>_. Undefined)(''x'' := fx (resolveObjectKey (data ! nat i) (cf_xAxisKey cf)) i,
                     ''y'' := fy (resolveObjectKey (data ! nat i) (cf_yAxisKey cf)) i)"

lemma parseObjectData_pure:
  assumes "pure_config cf fx fy" and "\<forall>i \<in> set js. 0 \<le> i \<and> i < int (length data)"
  shows "parseObjectData cf data js s =
    (map (\<lambda>j. \<lparr>it_val = object_values cf fx fy data j, it_stacks = no_stacks\<rparr>) js, s)"
  using assms(2)
proof (induction js)
  case (Cons j js)
  then have "arr_get data j = Some (data ! nat j)" by (simp add: arr_get_def nat_less_iff)
  with Cons assms(1) show ?case
    by (simp add: pure_config_def pure_parser_def object_values_def Let_def fun_upd_def)
qed simp

lemma parseObjectData_length:
  assumes "pure_config cf fx fy"
  shows "\<exists>items. parseObjectData cf data js s = (items, s) \<and> length items = length js"
  using assms by (induction js) (auto simp: pure_config_def pure_parser_def Let_def)

lemma parsePrimitiveData_length:
  assumes "pure_config cf fx fy"
  shows "\<exists>items. parsePrimitiveData cf data js s = (items, s) \<and> length items = length js"
  using assms by (induction js) (auto simp: pure_config_def pure_parser_def Let_def)

lemma parse_items_pure:
  assumes "pure_config cf fx fy" and "list_all isObject data" and "0 \<le> cnt"
  shows "\<exists>items. parse_items cf data start cnt s = Some (items, s) \<and> length items = nat cnt \<and>
    (0 \<le> start \<and> start + cnt \<le> int (length data) \<longrightarrow>
      map it_val items = map (object_values cf fx fy data) [start .. start + cnt - 1])"
proof (cases "arr_get data start")
  case None
  obtain items where "parsePrimitiveData cf data [start .. start + cnt - 1] s = (items, s)" "length items = nat cnt"
    using parsePrimitiveData_length [OF assms(1)] by fastforce
  moreover have "cnt = 0" if "0 \<le> start \<and> start + cnt \<le> int (length data)"
    using None that assms(3) by (auto simp: arr_get_def nat_less_iff split: if_splits)
  ultimately show ?thesis using None assms(3) by (auto simp: parse_items_def)
next
  case (Some d)
  then have d: "isObject d" "\<not> isArray d"
    using assms(2) by (auto simp: arr_get_def list_all_length isObject_iff split: if_splits)
  show ?thesis
  proof (cases "0 \<le> start \<and> start + cnt \<le> int (length data)")
    case True
    then have "\<forall>i \<in> set [start .. start + cnt - 1]. 0 \<le> i \<and> i < int (length data)" by auto
    from parseObjectData_pure [OF assms(1) this, of s] show ?thesis
      using Some d assms(3) by (simp add: parse_items_def Let_def comp_def)
  next
    case False
    obtain items where "parseObjectData cf data [start .. start + cnt - 1] s = (items, s)" "length items = nat cnt"
      using parseObjectData_length [OF assms(1)] by fastforce
    then show ?thesis using Some d assms(3) False by (auto simp: parse_items_def)
  qed
qed

lemma it_val_updateStacks: "map it_val (fst (updateStacks sp items h)) = map it_val items"
  by (induction items arbitrary: h) (auto simp: Let_def split_beta)

lemma it_val_stack_if: "map it_val (fst (stack_if cf c items)) = map it_val items"
  by (simp add: stack_if_def it_val_updateStacks)

lemma parse_pure:
  assumes "pure_config cf fx fy" and "list_all isObject (dc_data c)" and "0 \<le> cnt"
  shows "\<exists>items items' h. parse cf start cnt c =
      Some (c\<lparr>dc_parsed := put_all start items' (dc_parsed c), dc_store := h,
        dc_sorted := sorted_loop (cf_iAxis cf) items (if start = 0 \<and> cnt = int (length (dc_data c)) then True else dc_sorted c)
          (if 0 < start then get_at (dc_parsed c) (start - 1) else None)\<rparr>) \<and>
    map it_val items' = map it_val items \<and> length items = nat cnt \<and>
    (0 \<le> start \<and> start + cnt \<le> int (length (dc_data c)) \<longrightarrow>
      map it_val items = map (object_values cf fx fy (dc_data c)) [start .. start + cnt - 1])"
proof -
  obtain items where i: "parse_items cf (dc_data c) start cnt (dc_axes c) = Some (items, dc_axes c)" "length items = nat cnt"
    "0 \<le> start \<and> start + cnt \<le> int (length (dc_data c)) \<longrightarrow>
      map it_val items = map (object_values cf fx fy (dc_data c)) [start .. start + cnt - 1]"
    using parse_items_pure [OF assms] by blast
  obtain items' h where s: "stack_if cf c items = (items', h)" by fastforce
  have "map it_val items' = map it_val items" using it_val_stack_if [of cf c items] s by simp
  moreover have "cf_parsing cf" using assms(1) by (simp add: pure_config_def)
  ultimately show ?thesis using i s
    by (intro exI [of _ items] exI [of _ items'] exI [of _ h]) (simp add: parse_def)
qed

text \<open>What replaying the queue keeps.\<close>

lemma run_sync_ok:
  assumes "pure_config cf fx fy" and "list_all isObject (dc_data c)" and "length (dc_parsed c) = length (dc_elements c)"
    and "case x of InsertElements s k \<Rightarrow> 0 \<le> k | RemoveElements s k \<Rightarrow> True"
  shows "\<exists>c'. run_sync cf x c = Some c' \<and> dc_data c' = dc_data c \<and> length (dc_parsed c') = length (dc_elements c')"
proof (cases x)
  case (InsertElements start cnt)
  have cnt: "0 \<le> cnt" using assms(4) InsertElements by simp
  have p: "cf_parsing cf" using assms(1) by (simp add: pure_config_def)
  obtain moved parsed where m: "move start cnt (dc_elements c) = Some moved" "move start cnt (dc_parsed c) = Some parsed"
    using move_nonneg [OF cnt] by meson
  have len: "length parsed = length moved" using length_move [OF m(1)] length_move [OF m(2)] assms(3) by simp
  let ?c = "c\<lparr>dc_elements := fold (\<lambda>i. put_at i (dc_nextElement c + nat (i - start))) [start .. start + cnt - 1] moved,
      dc_nextElement := dc_nextElement c + nat cnt, dc_parsed := parsed\<rparr>"
  have obj: "list_all isObject (dc_data ?c)" using assms(2) by simp
  obtain items items' h where i: "parse cf start cnt ?c =
      Some (?c\<lparr>dc_parsed := put_all start items' (dc_parsed ?c), dc_store := h,
        dc_sorted := sorted_loop (cf_iAxis cf) items (if start = 0 \<and> cnt = int (length (dc_data ?c)) then True else dc_sorted ?c)
          (if 0 < start then get_at (dc_parsed ?c) (start - 1) else None)\<rparr>)"
      "map it_val items' = map it_val items" "length items = nat cnt"
    using parse_pure [OF assms(1) obj cnt] by blast
  have "length items' = nat cnt" using i(2,3) by (metis length_map)
  then have "length (put_all start items' parsed) =
      length (fold (\<lambda>i. put_at i (dc_nextElement c + nat (i - start))) [start .. start + cnt - 1] moved)"
    using cnt len by (auto simp: length_put_all length_fold_put_at)
  then show ?thesis using i(1) m p by (simp add: InsertElements insertElements_def)
next
  case (RemoveElements start cnt)
  then show ?thesis
    using assms(1,3) length_arr_splice [OF assms(3)]
    by (simp add: removeElements_def pure_config_def Let_def split_beta)
qed

lemma run_syncs_ok:
  assumes "pure_config cf fx fy" and "list_all isObject (dc_data c)" and "length (dc_parsed c) = length (dc_elements c)"
    and "\<forall>x \<in> set xs. case x of InsertElements s k \<Rightarrow> 0 \<le> k | RemoveElements s k \<Rightarrow> True"
  shows "\<exists>c'. run_syncs cf xs c = Some c' \<and> dc_data c' = dc_data c \<and> length (dc_parsed c') = length (dc_elements c')"
  using assms(2-)
proof (induction xs arbitrary: c)
  case (Cons x xs)
  have x: "case x of InsertElements s k \<Rightarrow> 0 \<le> k | RemoveElements s k \<Rightarrow> True" using Cons.prems(3) by simp
  obtain c1 where c1: "run_sync cf x c = Some c1" "dc_data c1 = dc_data c" "length (dc_parsed c1) = length (dc_elements c1)"
    using run_sync_ok [OF assms(1) Cons.prems(1,2) x] by blast
  have "\<exists>c'. run_syncs cf xs c1 = Some c' \<and> dc_data c' = dc_data c1 \<and> length (dc_parsed c') = length (dc_elements c')"
    by (rule Cons.IH) (use Cons.prems c1 in auto)
  with c1 show ?case by auto
qed simp

fun in_order :: "jsval option \<Rightarrow> jsval list \<Rightarrow> bool" where
  "in_order prev [] = True"
| "in_order prev (v # vs) =
     (v \<noteq> Null \<and> (case prev of None \<Rightarrow> True | Some p \<Rightarrow> \<not> to_num v < to_num p) \<and> in_order (Some v) vs)"


lemma sorted_loop_iff:
  "sorted_loop ax items sorted0 prev \<longleftrightarrow>
    sorted0 \<and> in_order (map_option (\<lambda>p. it_val p ax) prev) (map (\<lambda>it. it_val it ax) items)"
  by (induction ax items sorted0 prev rule: sorted_loop.induct)
    (auto simp: isNotInOrderComparedToPrev_def split: option.splits)

lemma put_all_eq:
  assumes "s + length vs \<le> length arr"
  shows "put_all (int s) vs arr = take s arr @ map Some vs @ drop (s + length vs) arr"
  using assms
proof (induction vs arbitrary: s arr)
  case (Cons v vs)
  have p: "put_at (int s) v arr = arr[s := Some v]" using Cons.prems by (simp add: put_at_def)
  have "put_all (int s) (v # vs) arr = put_all (int (Suc s)) vs (arr[s := Some v])" by (simp add: p add.commute)
  also have "\<dots> = take (Suc s) (arr[s := Some v]) @ map Some vs @ drop (Suc s + length vs) (arr[s := Some v])"
    by (rule Cons.IH) (use Cons.prems in simp)
  also have "\<dots> = take s arr @ map Some (v # vs) @ drop (s + length (v # vs)) arr"
    using Cons.prems by (simp add: take_Suc_conv_app_nth)
  finally show ?case .
qed simp


text \<open>The values of the items of a range of the data, and of one axis.\<close>

abbreviation values_between :: "'s config \<Rightarrow> (jsval \<Rightarrow> int \<Rightarrow> jsval) \<Rightarrow> (jsval \<Rightarrow> int \<Rightarrow> jsval) \<Rightarrow> jsval list \<Rightarrow> int \<Rightarrow> int \<Rightarrow>
    (string \<Rightarrow> jsval) list" where
  "values_between cf fx fy data i j \<equiv> map (object_values cf fx fy data) [i .. j - 1]"

definition parsed_upto :: "'s config \<Rightarrow> (jsval \<Rightarrow> int \<Rightarrow> jsval) \<Rightarrow> (jsval \<Rightarrow> int \<Rightarrow> jsval) \<Rightarrow> nat \<Rightarrow> 's ctl \<Rightarrow> bool" where
  "parsed_upto cf fx fy n c \<longleftrightarrow>
     map (map_option it_val) (take n (dc_parsed c)) = map Some (values_between cf fx fy (dc_data c) 0 (int n)) \<and>
     (dc_sorted c \<and> 0 < n \<longrightarrow>
       in_order None (map (\<lambda>v. v (cf_iAxis cf)) (values_between cf fx fy (dc_data c) 0 (int n))))"

lemma map_it_val_eq:
  assumes "map it_val items' = map it_val items" and "map it_val items = vs"
  shows "map (map_option it_val) (map Some items') = map Some vs" and "map (\<lambda>it. it_val it ax) items = map (\<lambda>v. v ax) vs"
proof -
  have "map (map_option it_val) (map Some items') = map Some (map it_val items')" by simp
  then show "map (map_option it_val) (map Some items') = map Some vs" using assms by simp
  show "map (\<lambda>it. it_val it ax) items = map (\<lambda>v. v ax) vs" using assms(2) by (auto simp: comp_def)
qed

lemma parse_front:
  assumes "pure_config cf fx fy" and "list_all isObject (dc_data c)" and "n \<le> length (dc_data c)"
    and "n \<le> length (dc_parsed c)" and "0 < n"
  shows "\<exists>c'. parse cf 0 (int n) c = Some c' \<and> dc_data c' = dc_data c \<and> dc_elements c' = dc_elements c \<and>
    dc_syncList c' = dc_syncList c \<and> length (dc_parsed c') = length (dc_parsed c) \<and> parsed_upto cf fx fy n c'"
proof -
  obtain items items' h where p: "parse cf 0 (int n) c =
      Some (c\<lparr>dc_parsed := put_all 0 items' (dc_parsed c), dc_store := h,
        dc_sorted := sorted_loop (cf_iAxis cf) items (if (0::int) = 0 \<and> int n = int (length (dc_data c)) then True else dc_sorted c)
          (if (0::int) < 0 then get_at (dc_parsed c) (0 - 1) else None)\<rparr>)"
    "map it_val items' = map it_val items" "length items = n"
    "map it_val items = values_between cf fx fy (dc_data c) 0 (int n)"
    using parse_pure [OF assms(1,2), of "int n" 0] assms(3) by auto
  have len: "length items' = n" using p(2,3) by (metis length_map)
  have q: "put_all 0 items' (dc_parsed c) = map Some items' @ drop n (dc_parsed c)"
    using put_all_eq [of 0 items' "dc_parsed c"] assms(4) len by simp
  note m = map_it_val_eq [OF p(2,4)]
  show ?thesis
    unfolding p(1) q using assms(4) len m(1) m(2) [of "cf_iAxis cf"]
    by (simp add: parsed_upto_def sorted_loop_iff del: map_map)
qed



section \<open>Elements follow their data\<close>

text \<open>The elements and the next identity, as one entry of the queue changes them.\<close>

fun elements_sync :: "sync \<Rightarrow> nat option list \<times> nat \<Rightarrow> nat option list \<times> nat" where
  "elements_sync (InsertElements s k) (es, n) =
     (fold (\<lambda>i. put_at i (n + nat (i - s))) [s .. s + k - 1] (the (move s k es)), n + nat k)"
| "elements_sync (RemoveElements s k) (es, n) = (fst (arr_splice s k [] es), n)"

lemma parse_keeps: "parse cf s k c = Some c' \<Longrightarrow> dc_elements c' = dc_elements c \<and> dc_nextElement c' = dc_nextElement c"
  by (auto simp: parse_def Let_def split_beta split: if_splits option.splits)

lemma run_sync_elements:
  assumes "run_sync cf x c = Some c'"
  shows "(dc_elements c', dc_nextElement c') = elements_sync x (dc_elements c, dc_nextElement c)"
proof (cases x)
  case (InsertElements s k)
  with assms show ?thesis
    by (auto simp: insertElements_def dest!: parse_keeps split: option.splits if_splits)
next
  case (RemoveElements s k)
  with assms show ?thesis by (auto simp: removeElements_def Let_def split_beta)
qed

lemma run_syncs_elements:
  assumes "run_syncs cf xs c = Some c'"
  shows "(dc_elements c', dc_nextElement c') = fold elements_sync xs (dc_elements c, dc_nextElement c)"
  using assms
proof (induction xs arbitrary: c)
  case (Cons x xs)
  then obtain c1 where "run_sync cf x c = Some c1" "run_syncs cf xs c1 = Some c'" by (auto split: option.splits)
  with Cons.IH run_sync_elements show ?case by (metis fold_simps(2))
qed simp

lemma fold_put_at_put_all:
  "fold (\<lambda>i. put_at i (f i)) [s .. s + int k - 1] arr = put_all s (map f [s .. s + int k - 1]) arr"
proof (induction k arbitrary: s arr)
  case (Suc k)
  have up: "[s .. s + int (Suc k) - 1] = s # [s + 1 .. (s + 1) + int k - 1]" by (simp add: upto_rec1)
  show ?case unfolding up using Suc.IH [of "s + 1"] by simp
qed simp

lemma insert_in_range:
  assumes "s \<le> length es"
  shows "elements_sync (InsertElements (int s) (int k)) (es, n) = (take s es @ map Some [n ..< n + k] @ drop s es, n + k)"
proof -
  obtain m where m: "move (int s) (int k) es = Some m" using move_nonneg [of "int k"] by (metis of_nat_0_le_iff)
  have len: "length m = length es + k" using length_move [OF m] by simp
  have tk: "take s m = take s es"
    using m assms by (intro nth_equalityI) (auto simp: len move_def Let_def get_at_def)
  have dr: "drop (s + k) m = drop s es"
    using m assms by (intro nth_equalityI) (auto simp: len move_def Let_def get_at_def arr_get_def nat_diff_distrib nat_add_distrib)
  have vs: "map (\<lambda>i. n + nat (i - int s)) [int s .. int s + int k - 1] = [n ..< n + k]"
    by (rule nth_equalityI) simp_all
  have "fold (\<lambda>i. put_at i (n + nat (i - int s))) [int s .. int s + int k - 1] m = put_all (int s) [n ..< n + k] m"
    unfolding fold_put_at_put_all vs ..
  also have "\<dots> = take s es @ map Some [n ..< n + k] @ drop s es"
    using put_all_eq [of s "[n ..< n + k]" m] assms tk dr len by simp
  finally show ?thesis using m by simp
qed

lemma arr_splice_nat: "s \<le> length xs \<Longrightarrow> fst (arr_splice (int s) k vs xs) = take s xs @ vs @ drop (s + k) xs"
  by (simp add: arr_splice_def splice_start_def Let_def min_def)

text \<open>The calls in range: no \<open>pop\<close>, and a \<open>splice\<close> with a start in the array and a number.\<close>

fun in_range :: "'a array_op \<Rightarrow> 'a list \<Rightarrow> bool" where
  "in_range Pop xs = False"
| "in_range (Splice start cnt) xs = (0 \<le> start \<and> start \<le> int (length xs) \<and> cnt \<noteq> None)"
| "in_range op xs = True"

fun ops_in_range :: "'a array_op list \<Rightarrow> 'a list \<Rightarrow> bool" where
  "ops_in_range [] xs = True"
| "ops_in_range (op # ops) xs = (in_range op xs \<and> ops_in_range ops (apply_op op xs))"

text \<open>The same call on data paired with elements: new data comes with new elements.\<close>

definition with_new :: "nat \<Rightarrow> 'a list \<Rightarrow> ('a \<times> nat option) list" where
  "with_new n vs = zip vs (map Some [n ..< n + length vs])"

fun paired_op :: "nat \<Rightarrow> 'a array_op \<Rightarrow> ('a \<times> nat option) array_op \<times> nat" where
  "paired_op n (Push vs) = (Push (with_new n vs), n + length vs)"
| "paired_op n Pop = (Pop, n)"
| "paired_op n Shift = (Shift, n)"
| "paired_op n (Unshift vs) = (Unshift (with_new n vs), n + length vs)"
| "paired_op n (Splice start None) = (Splice start None, n)"
| "paired_op n (Splice start (Some (k, vs))) = (Splice start (Some (k, with_new n vs)), n + length vs)"

fun paired_ops :: "nat \<Rightarrow> 'a array_op list \<Rightarrow> ('a \<times> nat option) list \<Rightarrow> ('a \<times> nat option) list" where
  "paired_ops n [] ps = ps"
| "paired_ops n (op # ops) ps = paired_ops (snd (paired_op n op)) ops (apply_op (fst (paired_op n op)) ps)"

lemma zip_split:
  assumes "length xs = length es" and "s \<le> length xs"
  shows "zip (take s xs @ vs @ drop t xs) (take s es @ map Some [n ..< n + length vs] @ drop t es) =
    take s (zip xs es) @ with_new n vs @ drop t (zip xs es)"
  using assms by (simp add: with_new_def take_zip drop_zip)

lemma op_elements:
  assumes "length xs = length es" and "in_range op xs"
  shows "\<exists>es'. fold elements_sync (handler_calls op (apply_op op xs) m) (es, n) = (es', snd (paired_op n op)) \<and>
    zip (apply_op op xs) es' = apply_op (fst (paired_op n op)) (zip xs es) \<and> length (apply_op op xs) = length es'"
proof (cases op)
  case (Push vs)
  then show ?thesis
    using insert_in_range [of "length xs" es "length vs" n] assms(1) zip_split [of xs es "length xs" vs "length xs" n] by simp
next
  case (Unshift vs)
  then show ?thesis
    using insert_in_range [of 0 es "length vs" n] assms(1) zip_split [of xs es 0 vs 0 n] by simp
next
  case Shift
  have "fst (arr_splice 0 1 [] es) = tl es" using arr_splice_nat [of 0 es 1 "[]"] by (simp add: drop_Suc)
  then show ?thesis using Shift assms(1) by (cases xs; cases es) auto
next
  case Pop
  with assms(2) show ?thesis by simp
next
  case (Splice start cnt)
  with assms(2) have st: "0 \<le> start" "start \<le> int (length xs)" "cnt \<noteq> None" by simp_all
  then obtain s k vs where s: "start = int s" "cnt = Some (k, vs)" by (metis nonneg_int_cases not_None_eq surj_pair)
  then have s3: "s \<le> length xs" using st(2) by simp
  have xs': "apply_op op xs = take s xs @ vs @ drop (s + k) xs"
    using arr_splice_nat [OF s3, of k vs] by (simp add: Splice s)
  have ps': "apply_op (fst (paired_op n op)) (zip xs es) = take s (zip xs es) @ with_new n vs @ drop (s + k) (zip xs es)"
    using arr_splice_nat [of s "zip xs es" k "with_new n vs"] s3 assms(1) by (simp add: Splice s)
  let ?es = "if k \<noteq> 0 then take s es @ drop (s + k) es else es"
  have rem: "fst (arr_splice (int s) k [] es) = take s es @ drop (s + k) es"
    using arr_splice_nat [of s es k "[]"] s3 assms(1) by simp
  have ls: "s \<le> length ?es" "take s ?es = take s es" "drop s ?es = drop (s + k) es" using s3 assms(1) by auto
  have "fold elements_sync (handler_calls op (apply_op op xs) m) (es, n) =
      (take s es @ map Some [n ..< n + length vs] @ drop (s + k) es, n + length vs)"
    using insert_in_range [OF ls(1), of "length vs" n] ls(2,3) rem s3 assms(1)
    by (cases "vs = []"; cases "k = 0") (simp_all add: Splice s)
  moreover have "snd (paired_op n op) = n + length vs" by (simp add: Splice s)
  moreover have "length (take s xs @ vs @ drop (s + k) xs) =
      length (take s es @ map Some [n ..< n + length vs] @ drop (s + k) es)" using assms(1) by simp
  ultimately show ?thesis
    using zip_split [OF assms(1) s3, of vs "s + k" n] unfolding xs' ps' by metis
qed

fun queue_of :: "'a array_op list \<Rightarrow> 'a list \<Rightarrow> nat \<Rightarrow> sync list" where
  "queue_of [] xs m = []"
| "queue_of (op # ops) xs m = handler_calls op (apply_op op xs) m @ queue_of ops (apply_op op xs) m"

lemma ops_elements:
  assumes "length xs = length es" and "ops_in_range ops xs"
  shows "\<exists>es' n'. fold elements_sync (queue_of ops xs m) (es, n) = (es', n') \<and>
    zip (fold apply_op ops xs) es' = paired_ops n ops (zip xs es) \<and> length (fold apply_op ops xs) = length es'"
  using assms
proof (induction ops arbitrary: xs es n)
  case (Cons op ops)
  obtain es1 where e: "fold elements_sync (handler_calls op (apply_op op xs) m) (es, n) = (es1, snd (paired_op n op))"
    "zip (apply_op op xs) es1 = apply_op (fst (paired_op n op)) (zip xs es)" "length (apply_op op xs) = length es1"
    using op_elements [OF Cons.prems(1)] Cons.prems(2) by (metis ops_in_range.simps(2))
  with Cons.IH [OF e(3), of "snd (paired_op n op)"] Cons.prems(2) show ?case by auto
qed simp

lemma sync_steps_queued:
  assumes "cf_parsing cf"
  shows "\<exists>c'. sync_steps cf xs c = Some c' \<and> dc_syncList c' = dc_syncList c @ xs \<and> dc_data c' = dc_data c \<and>
    dc_elements c' = dc_elements c \<and> dc_nextElement c' = dc_nextElement c \<and> dc_parsed c' = dc_parsed c"
proof (induction xs arbitrary: c)
  case (Cons x xs)
  let ?c = "c\<lparr>dc_syncList := dc_syncList c @ [x], dc_dataChanges := dc_dataChanges c @ [(dc_index c, x)]\<rparr>"
  from Cons.IH [of ?c] show ?case using assms by (simp add: sync_step_def)
qed simp

lemma data_ops_queued:
  assumes "cf_parsing cf"
  shows "\<exists>c'. data_ops cf ops c = Some c' \<and> dc_data c' = fold apply_op ops (dc_data c) \<and>
    dc_syncList c' = dc_syncList c @ queue_of ops (dc_data c) (length (dc_elements c)) \<and>
    dc_elements c' = dc_elements c \<and> dc_nextElement c' = dc_nextElement c \<and> dc_parsed c' = dc_parsed c"
proof (induction ops arbitrary: c)
  case (Cons op ops)
  obtain c1 where c1: "data_op cf op c = Some c1" "dc_data c1 = apply_op op (dc_data c)"
    "dc_syncList c1 = dc_syncList c @ handler_calls op (apply_op op (dc_data c)) (length (dc_elements c))"
    "dc_elements c1 = dc_elements c" "dc_nextElement c1 = dc_nextElement c" "dc_parsed c1 = dc_parsed c"
    using sync_steps_queued [OF assms, of "handler_calls op (apply_op op (dc_data c)) (length (dc_elements c))"
      "c\<lparr>dc_data := apply_op op (dc_data c)\<rparr>"]
    by (auto simp: data_op_def Let_def)
  with Cons.IH [of c1] show ?case by auto
qed simp

lemma handler_calls_nonneg:
  "in_range op xs \<Longrightarrow> \<forall>x \<in> set (handler_calls op ys m). case x of InsertElements s k \<Rightarrow> 0 \<le> k | RemoveElements s k \<Rightarrow> True"
  by (cases op) auto

lemma queue_of_nonneg:
  "ops_in_range ops xs \<Longrightarrow> \<forall>x \<in> set (queue_of ops xs m). case x of InsertElements s k \<Rightarrow> 0 \<le> k | RemoveElements s k \<Rightarrow> True"
  using handler_calls_nonneg by (induction ops arbitrary: xs) (fastforce split: sync.splits)+

text \<open>
  C8 (elements follow their data). Take a dataset that is in step: its queue is empty, and it has one element and one item for each datum. For any sequence of pushes, shifts,
  unshifts and splices (with a start in the array and a number of removals, not \<open>splice(start)\<close>) that leaves data of objects, parsed by parsers that keep their axes,
  the next update replays the same calls on the elements: every datum that stays keeps
  its element, and every new datum gets a new one.
\<close>

theorem elements_follow_data:
  assumes "pure_config cf fx fy" and "dc_syncList c = []" and "length (dc_elements c) = length (dc_data c)"
    and "length (dc_parsed c) = length (dc_data c)" and "ops_in_range ops (dc_data c)"
    and "list_all isObject (fold apply_op ops (dc_data c))"
  shows "\<exists>c1 c2. data_ops cf ops c = Some c1 \<and> resyncElements cf c1 = Some c2 \<and>
    length (dc_elements c2) = length (dc_data c2) \<and> dc_data c2 = fold apply_op ops (dc_data c) \<and>
    zip (dc_data c2) (dc_elements c2) = paired_ops (dc_nextElement c) ops (zip (dc_data c) (dc_elements c))"
proof -
  have pr: "cf_parsing cf" using assms(1) by (simp add: pure_config_def)
  obtain c1 where c1: "data_ops cf ops c = Some c1" "dc_data c1 = fold apply_op ops (dc_data c)"
    "dc_syncList c1 = queue_of ops (dc_data c) (length (dc_elements c))"
    "dc_elements c1 = dc_elements c" "dc_nextElement c1 = dc_nextElement c" "dc_parsed c1 = dc_parsed c"
    using data_ops_queued [OF pr, of ops c] assms(2) by auto
  have obj: "list_all isObject (dc_data c1)" using assms(6) c1(2) by simp
  have pe: "length (dc_parsed c1) = length (dc_elements c1)" using assms(3,4) c1 by simp
  have q: "\<forall>x \<in> set (dc_syncList c1). case x of InsertElements s k \<Rightarrow> 0 \<le> k | RemoveElements s k \<Rightarrow> True"
    unfolding c1(3) by (rule queue_of_nonneg [OF assms(5)])
  obtain d where d: "run_syncs cf (dc_syncList c1) c1 = Some d" "dc_data d = dc_data c1"
    "length (dc_parsed d) = length (dc_elements d)"
    using run_syncs_ok [OF assms(1) obj pe q] by blast
  obtain es n where e: "fold elements_sync (queue_of ops (dc_data c) (length (dc_elements c))) (dc_elements c, dc_nextElement c) = (es, n)"
    "zip (fold apply_op ops (dc_data c)) es = paired_ops (dc_nextElement c) ops (zip (dc_data c) (dc_elements c))"
    "length (fold apply_op ops (dc_data c)) = length es"
    using ops_elements [OF assms(3) [symmetric] assms(5)] by blast
  have es: "dc_elements d = es" using run_syncs_elements [OF d(1)] e(1) c1 by simp
  let ?d = "d\<lparr>dc_syncList := []\<rparr>"
  have len: "length (dc_elements ?d) = length (dc_data ?d)" using es e(3) c1(2) d(2) by simp
  have "\<exists>c2. resyncElements cf c1 = Some c2 \<and> dc_elements c2 = es \<and> dc_data c2 = dc_data c1"
  proof (cases "dc_data c1 = []")
    case True
    then show ?thesis using d len es by (auto simp: resyncElements_def Let_def)
  next
    case False
    have "list_all isObject (dc_data ?d)" "length (dc_data ?d) \<le> length (dc_data ?d)" "length (dc_data ?d) \<le> length (dc_parsed ?d)"
      "0 < length (dc_data ?d)" using obj d len False by auto
    from parse_front [OF assms(1) this] obtain c2 where "parse cf 0 (int (length (dc_data ?d))) ?d = Some c2"
      "dc_data c2 = dc_data ?d" "dc_elements c2 = dc_elements ?d" by blast
    then show ?thesis using d len es False by (auto simp: resyncElements_def Let_def)
  qed
  then show ?thesis using c1(1,2) e(2,3) by auto
qed

section \<open>Calls that go wrong\<close>

text \<open>A call of \<open>splice\<close> with one argument makes the next update throw.\<close>

lemma insert_negative_throws:
  assumes "cf_parsing cf"
  shows "insertElements cf start (- 1) c = None"
proof -
  have "parse cf start (- 1) d = None" for d using assms by (simp add: parse_def parse_items_def)
  then show ?thesis by (simp add: insertElements_def split: option.split)
qed

text \<open>
  Splice with one argument. A controller that parses as the base class does, and has nothing else to replay, throws at the next update after a call of \<open>splice\<close> with a start
  only, as the handler counts the insertions as minus one.
\<close>

lemma splice_one_argument_throws:
  "resyncElements (cf\<lparr>cf_parsing := True\<rparr>)
     (the (data_op (cf\<lparr>cf_parsing := True\<rparr>) (Splice start None) (c\<lparr>dc_syncList := []\<rparr>))) = None"
proof -
  let ?cf = "cf\<lparr>cf_parsing := True\<rparr>"
  have "dc_syncList (the (data_op ?cf (Splice start None) (c\<lparr>dc_syncList := []\<rparr>))) = [InsertElements start (- 1)]"
    by (simp add: data_op_def sync_step_def)
  then show ?thesis by (simp add: resyncElements_def insert_negative_throws)
qed

text \<open>A controller with linear axes, for the examples.\<close>

definition linear_config :: "unit config" where
  "linear_config = \<lparr>cf_iAxis = ''x'', cf_vAxis = ''y'', cf_iParse = (\<lambda>v i s. (Linear_Scale.parse v, s)),
     cf_vParse = (\<lambda>v i s. (Linear_Scale.parse v, s)), cf_xParse = (\<lambda>v i s. (Linear_Scale.parse v, s)),
     cf_yParse = (\<lambda>v i s. (Linear_Scale.parse v, s)), cf_labels = (\<lambda>_. []), cf_singleScale = False,
     cf_xAxisKey = ''x'', cf_yAxisKey = ''y'', cf_parsing = True, cf_stackKey = (\<lambda>_. ''''), cf_metas = [0]\<rparr>"

definition point :: "real \<Rightarrow> real \<Rightarrow> jsval" where
  "point x y = Obj [(''x'', Num (Fin x)), (''y'', Num (Fin y))]"

definition synced :: "jsval list \<Rightarrow> unit ctl" where
  "synced data = \<lparr>dc_axes = (), dc_index = 0, dc_data = data, dc_syncList = [],
     dc_elements = map Some [0 ..< length data], dc_nextElement = length data,
     dc_parsed = map (\<lambda>d. Some (own_item d)) data, dc_sorted = True, dc_stacked = Bool False, dc_stack = None,
     dc_gen = 0, dc_store = Map.empty, dc_dataChanges = []\<rparr>"

lemma linear_config_pure: "pure_config linear_config (\<lambda>v i. Linear_Scale.parse v) (\<lambda>v i. Linear_Scale.parse v)"
  by (auto simp: linear_config_def pure_config_def pure_parser_def)

text \<open>
  Pop after push. The handler of \<open>pop\<close> takes the number of elements before the queue is replayed: after a push
  and a pop the datum that stayed has lost its element and got the one of the datum that went.
\<close>

lemma pop_removes_other_element:
  "\<exists>c1 c2. data_ops linear_config [Push [point 1 1], Pop] (synced [point 0 0]) = Some c1 \<and>
     resyncElements linear_config c1 = Some c2 \<and> dc_data c2 = [point 0 0] \<and>
     dc_elements (synced [point 0 0]) = [Some 0] \<and> dc_elements c2 = [Some 1]"
proof -
  obtain c1 where c1: "data_ops linear_config [Push [point 1 1], Pop] (synced [point 0 0]) = Some c1"
    "dc_data c1 = [point 0 0]" "dc_syncList c1 = [InsertElements 1 1, RemoveElements 0 1]"
    "dc_elements c1 = [Some 0]" "dc_nextElement c1 = 1" "length (dc_parsed c1) = 1"
    using data_ops_queued [of linear_config "[Push [point 1 1], Pop]" "synced [point 0 0]"]
    by (auto simp: synced_def linear_config_def)
  have obj: "list_all isObject (dc_data c1)" by (simp add: c1 point_def)
  have q: "\<forall>x \<in> set (dc_syncList c1). case x of InsertElements s k \<Rightarrow> 0 \<le> k | RemoveElements s k \<Rightarrow> True"
    by (simp add: c1)
  have pe: "length (dc_parsed c1) = length (dc_elements c1)" by (simp add: c1)
  obtain d where d: "run_syncs linear_config (dc_syncList c1) c1 = Some d" "dc_data d = dc_data c1"
    "length (dc_parsed d) = length (dc_elements d)"
    using run_syncs_ok [OF linear_config_pure obj pe q] by blast
  have es: "dc_elements d = [Some 1]"
    using run_syncs_elements [OF d(1)]
    by (simp add: c1 move_def get_at_def arr_get_def put_at_def arr_splice_def splice_start_def numeral_2_eq_2)
  have "list_all isObject (dc_data (d\<lparr>dc_syncList := []\<rparr>))" using obj d by simp
  from parse_front [OF linear_config_pure this, of 1] obtain c2 where
    "parse linear_config 0 1 (d\<lparr>dc_syncList := []\<rparr>) = Some c2" "dc_data c2 = dc_data d" "dc_elements c2 = dc_elements d"
    using d es by (auto simp: c1)
  then have "resyncElements linear_config c1 = Some c2" using d es by (simp add: resyncElements_def c1 Let_def)
  with c1(1,2) show ?thesis using \<open>dc_elements c2 = dc_elements d\<close> \<open>dc_data c2 = dc_data d\<close> d(2) es
    by (simp add: synced_def)
qed

text \<open>Pairs that are added together before another is removed are read beyond the end of the data.\<close>

lemma push_shift_pairs_throws:
  "\<exists>c1. data_ops linear_config [Push [Arr [Num 1, Num 1], Arr [Num 2, Num 2]], Shift] (synced [Arr [Num 0, Num 0]]) = Some c1 \<and>
     resyncElements linear_config c1 = None"
proof -
  obtain c1 where c1: "data_ops linear_config [Push [Arr [Num 1, Num 1], Arr [Num 2, Num 2]], Shift] (synced [Arr [Num 0, Num 0]]) = Some c1"
    "dc_data c1 = [Arr [Num 1, Num 1], Arr [Num 2, Num 2]]" "dc_syncList c1 = [InsertElements 1 2, RemoveElements 0 1]"
    using data_ops_queued [of linear_config "[Push [Arr [Num 1, Num 1], Arr [Num 2, Num 2]], Shift]" "synced [Arr [Num 0, Num 0]]"]
    by (auto simp: synced_def linear_config_def)
  have "parse_items linear_config (dc_data c1) 1 2 s = None" for s
    by (simp add: c1 parse_items_def arr_get_def upto_rec1)
  then have "parse linear_config 1 2 d = None" if "dc_data d = dc_data c1" for d
    using that by (simp add: parse_def linear_config_def)
  then have "insertElements linear_config 1 2 c1 = None"
    by (simp add: insertElements_def split: option.split)
  with c1 show ?thesis by (simp add: resyncElements_def)
qed

section \<open>The order of the items and their range\<close>

lemma in_order_sorted:
  assumes "in_order prev vs" and "\<forall>v \<in> set vs. isNumberFinite v"
    and "\<forall>p. prev = Some p \<longrightarrow> isNumberFinite p"
  shows "sorted (map (\<lambda>v. num_val (to_num v)) vs) \<and>
    (\<forall>p v. prev = Some p \<longrightarrow> v \<in> set vs \<longrightarrow> num_val (to_num p) \<le> num_val (to_num v))"
  using assms
proof (induction prev vs rule: in_order.induct)
  case (2 prev v vs)
  have fin: "is_finite (to_num w)" if "isNumberFinite w" for w using that by (cases w) auto
  have ih: "sorted (map (\<lambda>v. num_val (to_num v)) vs)" "\<forall>w \<in> set vs. num_val (to_num v) \<le> num_val (to_num w)"
    using 2 by auto
  have "num_val (to_num p) \<le> num_val (to_num v)" if "prev = Some p" for p
    using that 2 num_val_less [OF fin fin, of v p] by auto
  with ih show ?case by (auto intro: order.trans)
qed simp

text \<open>
  The range of sorted items. When parsing found the items in order on an axis and their values are finite numbers, the range computed from
  the first and the last item within bounds alone is the range over all items.
\<close>

theorem sorted_dataset_range:
  assumes "sorted_loop (rp_axis rp) items True None" and "\<forall>it \<in> set items. isNumberFinite (it_val it (rp_axis rp))"
    and "plain_axis rp items"
  shows "Dataset_Stacks.getMinMax rp True items = Dataset_Stacks.getMinMax rp False items"
proof -
  have "in_order None (map (\<lambda>it. it_val it (rp_axis rp)) items)"
    using assms(1) by (simp add: sorted_loop_iff)
  from in_order_sorted [OF this] assms(2)
  have "sorted (map (axis_val rp) items)" by (simp add: axis_val_def [abs_def] comp_def)
  with assms(3) show ?thesis by (rule sorted_range_is_full_range)
qed

text \<open>
  The test lets values pass that are not numbers, and these hide that the values after them are smaller:
  with texts among the data that are no numbers the order is taken for granted and the range is too small.
\<close>

lemma text_hides_disorder:
  defines "items \<equiv> map (\<lambda>v. \<lparr>it_val = (\<lambda>_. Undefined)(''x'' := Linear_Scale.parse v), it_stacks = no_stacks\<rparr>)
      [Num 5, Str ''a'', Num 1, Num 9, Str ''a'', Num 3]"
    and "rp \<equiv> \<lparr>rp_axis = ''x'', rp_otherAxis = ''x'', rp_index = 0, rp_keys = None, rp_store = Map.empty,
      rp_other = \<lparr>ub_min = 0, ub_max = 0, ub_minDefined = False, ub_maxDefined = False\<rparr>\<rparr>"
  shows "sorted_loop ''x'' items True None \<and> Dataset_Stacks.getMinMax rp True items = (3, 5) \<and>
    Dataset_Stacks.getMinMax rp False items = (1, 9)"
proof -
  have a: "Linear_Scale.parse (Str ''a'') = Num NaN" by code_simp
  have n: "Linear_Scale.parse (Num (Fin x)) = Num (Fin x)" for x by (simp add: Linear_Scale.parse_def)
  show ?thesis
    by (simp add: items_def rp_def a n isNotInOrderComparedToPrev_def Dataset_Stacks.getMinMax_def
      skip_item_def updateRangeFromParsed_def range_value_def Dataset_Stacks.getUserBounds_def Let_def math_min_def math_max_def)
qed

section \<open>Examples\<close>


theorem elements_follow_data_witness:
  "\<exists>c1 c2. data_ops linear_config [Push [point 2 2], Shift] (synced [point 0 0, point 1 1]) = Some c1 \<and>
     resyncElements linear_config c1 = Some c2 \<and> dc_data c2 = [point 1 1, point 2 2] \<and> dc_elements c2 = [Some 1, Some 2]"
proof -
  obtain c1 c2 where c: "data_ops linear_config [Push [point 2 2], Shift] (synced [point 0 0, point 1 1]) = Some c1"
    "resyncElements linear_config c1 = Some c2" "length (dc_elements c2) = length (dc_data c2)"
    "dc_data c2 = [point 1 1, point 2 2]"
    "zip (dc_data c2) (dc_elements c2) = [(point 1 1, Some 1), (point 2 2, Some 2)]"
    using elements_follow_data [OF linear_config_pure, of "synced [point 0 0, point 1 1]" "[Push [point 2 2], Shift]"]
    by (auto simp: synced_def point_def with_new_def numeral_2_eq_2)
  have "dc_elements c2 = map snd (zip (dc_data c2) (dc_elements c2))" using c(3) by simp
  with c show ?thesis by auto
qed

theorem sorted_dataset_range_witness:
  "Dataset_Stacks.getMinMax \<lparr>rp_axis = ''x'', rp_otherAxis = ''y'', rp_index = 0, rp_keys = None, rp_store = Map.empty,
      rp_other = \<lparr>ub_min = 0, ub_max = 0, ub_minDefined = False, ub_maxDefined = False\<rparr>\<rparr> True
      (map own_item [point 1 4, point 3 0, point 3 2]) =
   Dataset_Stacks.getMinMax \<lparr>rp_axis = ''x'', rp_otherAxis = ''y'', rp_index = 0, rp_keys = None, rp_store = Map.empty,
      rp_other = \<lparr>ub_min = 0, ub_max = 0, ub_minDefined = False, ub_maxDefined = False\<rparr>\<rparr> False
      (map own_item [point 1 4, point 3 0, point 3 2])"
  by (rule sorted_dataset_range)
    (simp_all add: own_item_def point_def prop_get_def isNotInOrderComparedToPrev_def plain_axis_def)

end
