(* ===== verification/Line_Element.thy ===== *)
theory Line_Element
  imports Segments Canvas Easing
begin

text \<open>
  Lines (\<^verbatim>\<open>chart.js\<close>, \<open>lineTo\<close> to the class \<open>LineElement\<close>): the path along a
  segment, with its fast version that merges the points of one column of pixels, the path of a
  line with its cache, and interpolation on a line.

  A path is the list of commands issued. Points have finite coordinates. The styles of
  segments and the updating of control points are not represented (see \<open>Splines\<close>).
\<close>

record line_pt = line_point +
  lp_cp1 :: "real \<times> real"
  lp_cp2 :: "real \<times> real"

abbreviation pt_pos :: "line_pt \<Rightarrow> real \<times> real" where
  "pt_pos p \<equiv> (pt_x p, pt_y p)"

record line_options =
  lo_stepped :: "string option"
  lo_tension :: real
  lo_monotone :: bool
  lo_borderDash :: "real list"
  lo_borderWidth :: real
  lo_segment :: bool

section \<open>Line methods\<close>

text \<open>The three functions that continue a path from the previous point, if any, to the next.\<close>

datatype line_method = Stepped string | Bezier | Straight

definition getLineMethod :: "line_options \<Rightarrow> line_method" where
  "getLineMethod opts =
     (case lo_stepped opts of
        Some mode \<Rightarrow> Stepped mode
      | None \<Rightarrow> if lo_tension opts \<noteq> 0 \<or> lo_monotone opts then Bezier else Straight)"

definition bez_of :: "line_pt \<Rightarrow> bez_point" where
  "bez_of p = \<lparr>bz_pos = pt_pos p, bz_cp1 = lp_cp1 p, bz_cp2 = lp_cp2 p\<rparr>"

fun line_cmds :: "line_method \<Rightarrow> line_pt option \<Rightarrow> line_pt \<Rightarrow> bool \<Rightarrow> cmd list" where
  "line_cmds (Stepped mode) prev point rvs = steppedLineTo (map_option pt_pos prev) (pt_pos point) rvs mode"
| "line_cmds Bezier prev point rvs = bezierCurveTo (map_option bez_of prev) (bez_of point) rvs"
| "line_cmds Straight prev point rvs = [LineTo (pt_x point) (pt_y point)]"

section \<open>The points of a segment\<close>

record path_params =
  pp_start :: "int option"
  pp_end :: "int option"
  pp_move :: bool
  pp_reverse :: bool

record path_vars =
  pv_count :: int
  pv_start :: int
  pv_loop :: bool
  pv_ilen :: int

definition pathVars :: "line_pt list \<Rightarrow> segment \<Rightarrow> path_params \<Rightarrow> path_vars" where
  "pathVars points segm params =
     (let cnt = int (length points);
          paramsStart = (case pp_start params of Some s \<Rightarrow> s | None \<Rightarrow> 0);
          paramsEnd = (case pp_end params of Some e \<Rightarrow> e | None \<Rightarrow> cnt - 1);
          segmentStart = int (seg_start segm); segmentEnd = int (seg_end segm);
          start = max paramsStart segmentStart;
          end' = min paramsEnd segmentEnd;
          outside = (paramsStart < segmentStart \<and> paramsEnd < segmentStart \<or>
                     paramsStart > segmentEnd \<and> paramsEnd > segmentEnd)
      in \<lparr>pv_count = cnt, pv_start = start, pv_loop = seg_loop segm,
          pv_ilen = (if end' < start \<and> \<not> outside then cnt + end' - start else end' - start)\<rparr>)"

text \<open>
  The point at a position. The remainder of a negative number is negative, so a negative position,
  which occurs before a reversed segment outside of the range, reads an undefined point.
\<close>

definition point_at :: "line_pt list \<Rightarrow> int \<Rightarrow> line_pt option" where
  "point_at points k = (if k < 0 then None else arr_get points (k mod int (length points)))"

definition segment_position :: "path_vars \<Rightarrow> bool \<Rightarrow> int \<Rightarrow> int" where
  "segment_position pv rvs i = pv_start pv + (if rvs then pv_ilen pv - i else i)"

definition visited :: "line_pt list \<Rightarrow> path_vars \<Rightarrow> bool \<Rightarrow> line_pt list" where
  "visited points pv rvs = map (\<lambda>i. the (point_at points (segment_position pv rvs i))) [0 .. pv_ilen pv]"

section \<open>The path along a segment\<close>

fun path_loop :: "line_method \<Rightarrow> bool \<Rightarrow> line_pt list \<Rightarrow> bool \<Rightarrow> line_pt option \<Rightarrow> cmd list \<times> line_pt option" where
  "path_loop meth rvs [] move prev = ([], prev)"
| "path_loop meth rvs (point # ps) move prev =
     (if pt_skip point then path_loop meth rvs ps move prev
      else
        let here = (if move then [MoveTo (pt_x point) (pt_y point)] else line_cmds meth prev point rvs);
            (cmds, last') = path_loop meth rvs ps False (Some point)
        in (here @ cmds, last'))"

definition pathSegment :: "line_options \<Rightarrow> line_pt list \<Rightarrow> segment \<Rightarrow> path_params \<Rightarrow> cmd list \<times> bool" where
  "pathSegment opts points segm params =
     (let pv = pathVars points segm params;
          meth = getLineMethod opts;
          (cmds, prev) = path_loop meth (pp_reverse params) (visited points pv (pp_reverse params)) (pp_move params) None;
          closing = (if pv_loop pv
                     then line_cmds meth prev
                            (the (point_at points (pv_start pv + (if pp_reverse params then pv_ilen pv else 0))))
                            (pp_reverse params)
                     else [])
      in (cmds @ closing, pv_loop pv))"

text \<open>
  The state of the fast version: the average of the column, the number of points in it, the column,
  the extreme values (\<open>None\<close> before the first point) and the last value.
\<close>

record fast_state =
  fs_avgX :: real
  fs_countX :: nat
  fs_prevX :: "int option"
  fs_minY :: "real option"
  fs_maxY :: "real option"
  fs_lastY :: "real option"

definition drawX :: "fast_state \<Rightarrow> cmd list" where
  "drawX st =
     (case (fs_minY st, fs_maxY st, fs_lastY st) of
        (Some lo, Some hi, Some l) \<Rightarrow>
          if lo \<noteq> hi then [LineTo (fs_avgX st) hi, LineTo (fs_avgX st) lo, LineTo (fs_avgX st) l] else []
      | _ \<Rightarrow> [])"

definition fast_step :: "line_pt \<Rightarrow> fast_state \<Rightarrow> cmd list \<times> fast_state" where
  "fast_step point st =
     (if pt_skip point then ([], st)
      else
        let x = pt_x point; y = pt_y point; truncX = toInt32 (Fin x)
        in if Some truncX = fs_prevX st then
             ([], st\<lparr>fs_minY := (if y < the (fs_minY st) then Some y else fs_minY st),
                     fs_maxY := (if y < the (fs_minY st) then fs_maxY st
                                 else if the (fs_maxY st) < y then Some y else fs_maxY st),
                     fs_avgX := (real (fs_countX st) * fs_avgX st + x) / real (fs_countX st + 1),
                     fs_countX := fs_countX st + 1, fs_lastY := Some y\<rparr>)
           else
             (drawX st @ [LineTo x y],
              st\<lparr>fs_prevX := Some truncX, fs_countX := 0, fs_minY := Some y, fs_maxY := Some y, fs_lastY := Some y\<rparr>))"

fun fast_loop :: "line_pt list \<Rightarrow> fast_state \<Rightarrow> cmd list" where
  "fast_loop [] st = drawX st"
| "fast_loop (p # ps) st = (let (cmds, st') = fast_step p st in cmds @ fast_loop ps st')"

definition fast_start :: fast_state where
  "fast_start = \<lparr>fs_avgX = 0, fs_countX = 0, fs_prevX = None, fs_minY = None, fs_maxY = None, fs_lastY = None\<rparr>"

text \<open>The result is \<open>None\<close> when the first point is undefined.\<close>

definition fastPathSegment :: "line_pt list \<Rightarrow> segment \<Rightarrow> path_params \<Rightarrow> cmd list option" where
  "fastPathSegment points segm params =
     (let pv = pathVars points segm params;
          rest = fast_loop (visited points pv (pp_reverse params)) fast_start
      in if pp_move params then
           map_option (\<lambda>p. MoveTo (pt_x p) (pt_y p) # rest)
             (point_at points (segment_position pv (pp_reverse params) 0))
         else Some rest)"

section \<open>The element\<close>

record line_element =
  le_options :: line_options
  le_points :: "line_pt list"
  le_loop :: bool
  le_fullLoop :: bool
  le_decimated :: bool
  le_animated :: bool
  le_spanGaps :: span_gaps
  le_path :: "cmd list option"
  le_segments :: "segment list option"
  le_pointsUpdated :: bool

definition useFastPath :: "line_element \<Rightarrow> bool" where
  "useFastPath l \<longleftrightarrow> \<not> le_decimated l \<and> \<not> le_loop l \<and> lo_tension (le_options l) = 0 \<and> \<not> lo_monotone (le_options l) \<and>
     lo_stepped (le_options l) = None \<and> lo_borderDash (le_options l) = []"

text \<open>A segment method returns its commands and whether the path is to be closed.\<close>

definition getSegmentMethod :: "line_element \<Rightarrow> segment \<Rightarrow> path_params \<Rightarrow> (cmd list \<times> bool) option" where
  "getSegmentMethod l segm params =
     (if useFastPath l then map_option (\<lambda>cmds. (cmds, False)) (fastPathSegment (le_points l) segm params)
      else Some (pathSegment (le_options l) (le_points l) segm params))"

definition set_points :: "line_pt list \<Rightarrow> line_element \<Rightarrow> line_element" where
  "set_points points l = l\<lparr>le_points := points, le_segments := None, le_path := None, le_pointsUpdated := False\<rparr>"

definition segments :: "line_element \<Rightarrow> segment list \<times> line_element" where
  "segments l =
     (case le_segments l of
        Some s \<Rightarrow> (s, l)
      | None \<Rightarrow>
          (let s = computeSegments (map line_point.truncate (le_points l)) (le_spanGaps l) (le_loop l) (le_fullLoop l)
           in (s, l\<lparr>le_segments := Some s\<rparr>)))"

definition first :: "line_element \<Rightarrow> line_pt option" where
  "first l = (case fst (segments l) of [] \<Rightarrow> None | s # _ \<Rightarrow> arr_get (le_points l) (int (seg_start s)))"

definition last_point :: "line_element \<Rightarrow> line_pt option" where
  "last_point l =
     (let s = fst (segments l) in if s = [] then None else arr_get (le_points l) (int (seg_end (last s))))"

definition path_range :: "line_element \<Rightarrow> nat \<Rightarrow> nat \<Rightarrow> path_params" where
  "path_range l start cnt =
     \<lparr>pp_start = Some (int start), pp_end = Some (int start + int cnt - 1), pp_move = True, pp_reverse = False\<rparr>"

fun segments_path :: "line_element \<Rightarrow> path_params \<Rightarrow> segment list \<Rightarrow> bool \<Rightarrow> (cmd list \<times> bool) option" where
  "segments_path l params [] loop = Some ([], loop)"
| "segments_path l params (s # ss) loop =
     (case getSegmentMethod l s params of
        None \<Rightarrow> None
      | Some (cmds, cl) \<Rightarrow>
          map_option (\<lambda>(rest, r). (cmds @ rest, r)) (segments_path l params ss (loop \<and> cl)))"

definition path :: "nat \<Rightarrow> nat \<Rightarrow> line_element \<Rightarrow> (cmd list \<times> bool) option" where
  "path start count0 l =
     (let cnt = (if count0 \<noteq> 0 then count0 else length (le_points l) - start)
      in segments_path l (path_range l start cnt) (fst (segments l)) (le_loop l))"

definition strokePathWithCache :: "nat \<Rightarrow> nat \<Rightarrow> line_element \<Rightarrow> (cmd list \<times> line_element) option" where
  "strokePathWithCache start cnt l =
     (case le_path l of
        Some p \<Rightarrow> Some (p @ [StrokePath], l)
      | None \<Rightarrow>
          map_option (\<lambda>(cmds, cl).
              let p = cmds @ (if cl then [ClosePath] else [])
              in (p @ [StrokePath], (snd (segments l))\<lparr>le_path := Some p\<rparr>))
            (path start cnt l))"

fun stroke_segments :: "line_element \<Rightarrow> path_params \<Rightarrow> segment list \<Rightarrow> cmd list option" where
  "stroke_segments l params [] = Some []"
| "stroke_segments l params (s # ss) =
     (case getSegmentMethod l s params of
        None \<Rightarrow> None
      | Some (cmds, cl) \<Rightarrow>
          map_option (\<lambda>rest. [BeginPath] @ cmds @ (if cl then [ClosePath] else []) @ [StrokePath] @ rest)
            (stroke_segments l params ss))"

definition strokePathDirect :: "nat \<Rightarrow> nat \<Rightarrow> line_element \<Rightarrow> (cmd list \<times> line_element) option" where
  "strokePathDirect start cnt l =
     map_option (\<lambda>cmds. (cmds, snd (segments l)))
       (stroke_segments l (path_range l start cnt) (fst (segments l)))"

definition draw :: "bool \<Rightarrow> nat \<Rightarrow> nat \<Rightarrow> line_element \<Rightarrow> (cmd list \<times> line_element) option" where
  "draw usePath2D start cnt l =
     map_option (\<lambda>(cmds, l'). (cmds, if le_animated l' then l'\<lparr>le_pointsUpdated := False, le_path := None\<rparr> else l'))
       (if le_points l \<noteq> [] \<and> lo_borderWidth (le_options l) \<noteq> 0 then
          map_option (\<lambda>(cmds, l'). ([Save] @ cmds @ [Restore], l'))
            (if usePath2D \<and> \<not> lo_segment (le_options l) then strokePathWithCache start cnt l
             else strokePathDirect start cnt l)
        else Some ([], l))"

text \<open>
  The points on the line where a coordinate has a given value, one for each part of the line
  there. A part of one point gives the point itself.
\<close>

definition interpolation_of :: "line_options \<Rightarrow> line_pt \<Rightarrow> line_pt \<Rightarrow> real \<Rightarrow> real \<times> real" where
  "interpolation_of opts p1 p2 t =
     (case lo_stepped opts of
        Some mode \<Rightarrow> steppedInterpolation (pt_pos p1) (pt_pos p2) t mode
      | None \<Rightarrow>
          if lo_tension opts \<noteq> 0 \<or> lo_monotone opts
          then bezierInterpolation
                 \<lparr>cp_x = pt_x p1, cp_y = pt_y p1, cp1 = lp_cp1 p1, cp2 = lp_cp2 p1\<rparr>
                 \<lparr>cp_x = pt_x p2, cp_y = pt_y p2, cp1 = lp_cp1 p2, cp2 = lp_cp2 p2\<rparr> t
          else pointInLine (pt_pos p1) (pt_pos p2) t)"

definition interpolate :: "bool \<Rightarrow> real \<Rightarrow> line_element \<Rightarrow> (real \<times> real) list" where
  "interpolate alongX v l =
     (let coord = (\<lambda>p. if alongX then pt_x p else pt_y p);
          parts = boundSegments (fst (segments l)) (map line_point.truncate (le_points l))
                    (Some \<lparr>b_property = (if alongX then XProp else YProp), b_start = v, b_end = v\<rparr>)
      in map (\<lambda>s.
           let p1 = le_points l ! seg_start s; p2 = le_points l ! seg_end s
           in if seg_start s = seg_end s then pt_pos p1
              else
                let t = \<bar>(v - coord p1) / (coord p2 - coord p1)\<bar>; r = interpolation_of (le_options l) p1 p2 t
                in if alongX then (v, snd r) else (fst r, v)) parts)"

section \<open>The fast path: lemmas\<close>

fun vertices :: "cmd list \<Rightarrow> (real \<times> real) list" where
  "vertices [] = []"
| "vertices (MoveTo x y # cs) = (x, y) # vertices cs"
| "vertices (LineTo x y # cs) = (x, y) # vertices cs"
| "vertices (c # cs) = vertices cs"

lemma vertices_append: "vertices (as @ bs) = vertices as @ vertices bs"
  by (induction as rule: vertices.induct) auto

abbreviation on_screen :: "line_pt \<Rightarrow> bool" where
  "on_screen p \<equiv> 0 \<le> pt_x p \<and> pt_x p < 2 ^ 31"

definition fast_inv :: "int \<Rightarrow> real \<Rightarrow> real \<Rightarrow> real \<Rightarrow> fast_state \<Rightarrow> bool" where
  "fast_inv c lo hi y0 st \<longleftrightarrow>
     0 \<le> c \<and> fs_prevX st = Some c \<and> fs_minY st = Some lo \<and> fs_maxY st = Some hi \<and> lo \<le> y0 \<and> y0 \<le> hi \<and>
     (\<exists>l. fs_lastY st = Some l \<and> lo \<le> l \<and> l \<le> hi) \<and>
     (if fs_countX st = 0 then lo = hi else real_of_int c \<le> fs_avgX st \<and> fs_avgX st < real_of_int c + 1)"

lemma column_floor: "on_screen p \<Longrightarrow> toInt32 (Fin (pt_x p)) = \<lfloor>pt_x p\<rfloor>"
  by (subst toInt32_small) (auto simp: trunc_real_def le_floor_iff floor_less_iff)

lemma average_column:
  assumes "0 < n \<Longrightarrow> real_of_int c \<le> a \<and> a < real_of_int c + 1" and "\<lfloor>x\<rfloor> = c"
  shows "real_of_int c \<le> (real n * a + x) / (real n + 1)" and "(real n * a + x) / (real n + 1) < real_of_int c + 1"
proof -
  have x: "real_of_int c \<le> x" "x < real_of_int c + 1" using assms(2) by linarith+
  show "real_of_int c \<le> (real n * a + x) / (real n + 1)"
    using average_between [of n "real_of_int c" a "max a x" x "max a x"] assms(1) x by auto
  have "(real n * a + x) / (real n + 1) \<le> max a x" if "0 < n"
    using average_between [of n "min a x" a "max a x" x "max a x"] by auto
  then show "(real n * a + x) / (real n + 1) < real_of_int c + 1"
    using assms(1) x by (cases "n = 0") fastforce+
qed

lemma fast_step_same:
  assumes "fast_inv c lo hi y0 st" and "\<not> pt_skip p" and "on_screen p" and "\<lfloor>pt_x p\<rfloor> = c"
  shows "\<exists>st'. fast_step p st = ([], st') \<and> fast_inv c (min lo (pt_y p)) (max hi (pt_y p)) y0 st' \<and> fs_lastY st' = Some (pt_y p)"
proof -
  have avg: "real_of_int c \<le> (real (fs_countX st) * fs_avgX st + pt_x p) / (real (fs_countX st) + 1)"
    "(real (fs_countX st) * fs_avgX st + pt_x p) / (real (fs_countX st) + 1) < real_of_int c + 1"
    by (rule average_column; use assms(1,4) in \<open>simp add: fast_inv_def split: if_splits\<close>)+
  show ?thesis
    using assms column_floor [OF assms(3)] avg
    by (auto simp: fast_step_def fast_inv_def Let_def min_def max_def add.commute)
qed

lemma drawX_vertices:
  assumes "fast_inv c lo hi y0 st"
  shows "\<forall>v \<in> set (vertices (drawX st)). \<lfloor>fst v\<rfloor> = c \<and> (snd v = lo \<or> snd v = hi \<or> Some (snd v) = fs_lastY st)"
    and "\<lfloor>x0\<rfloor> = c \<Longrightarrow> \<exists>a \<in> insert (x0, y0) (set (vertices (drawX st))). \<lfloor>fst a\<rfloor> = c \<and> snd a = lo"
    and "\<lfloor>x0\<rfloor> = c \<Longrightarrow> \<exists>b \<in> insert (x0, y0) (set (vertices (drawX st))). \<lfloor>fst b\<rfloor> = c \<and> snd b = hi"
proof -
  obtain l where l: "fs_minY st = Some lo" "fs_maxY st = Some hi" "fs_lastY st = Some l"
    using assms by (auto simp: fast_inv_def)
  have col: "\<lfloor>fs_avgX st\<rfloor> = c" if "lo \<noteq> hi"
    using assms that by (auto simp: fast_inv_def floor_eq_iff split: if_splits)
  have eq: "y0 = lo" if "lo = hi" using assms that by (auto simp: fast_inv_def)
  show "\<forall>v \<in> set (vertices (drawX st)). \<lfloor>fst v\<rfloor> = c \<and> (snd v = lo \<or> snd v = hi \<or> Some (snd v) = fs_lastY st)"
    using col l by (auto simp: drawX_def)
  show "\<exists>a \<in> insert (x0, y0) (set (vertices (drawX st))). \<lfloor>fst a\<rfloor> = c \<and> snd a = lo" if "\<lfloor>x0\<rfloor> = c"
    using col l eq that by (cases "lo = hi") (auto simp: drawX_def)
  show "\<exists>b \<in> insert (x0, y0) (set (vertices (drawX st))). \<lfloor>fst b\<rfloor> = c \<and> snd b = hi" if "\<lfloor>x0\<rfloor> = c"
    using col l eq that by (cases "lo = hi") (auto simp: drawX_def)
qed

text \<open>Vertices that bracket a value in a column.\<close>

definition brackets :: "(real \<times> real) set \<Rightarrow> int \<Rightarrow> real \<Rightarrow> bool" where
  "brackets V c y \<longleftrightarrow> (\<exists>a \<in> V. \<exists>b \<in> V. \<lfloor>fst a\<rfloor> = c \<and> \<lfloor>fst b\<rfloor> = c \<and> snd a \<le> y \<and> y \<le> snd b)"

lemma brackets_mono: "brackets V c y \<Longrightarrow> V \<subseteq> W \<Longrightarrow> brackets W c y"
  unfolding brackets_def by blast

lemma fast_loop_brackets:
  assumes "\<forall>p \<in> set ps. on_screen p" and "fast_inv c lo hi y0 st" and "\<lfloor>x0\<rfloor> = c" and "lo \<le> y" and "y \<le> hi"
  shows "brackets (insert (x0, y0) (set (vertices (fast_loop ps st)))) c y \<and>
    (\<forall>p \<in> set ps. \<not> pt_skip p \<longrightarrow> brackets (insert (x0, y0) (set (vertices (fast_loop ps st)))) \<lfloor>pt_x p\<rfloor> (pt_y p))"
  using assms
proof (induction ps arbitrary: c lo hi y0 st x0 y)
  case Nil
  obtain a b where "a \<in> insert (x0, y0) (set (vertices (drawX st)))" "\<lfloor>fst a\<rfloor> = c" "snd a = lo"
    "b \<in> insert (x0, y0) (set (vertices (drawX st)))" "\<lfloor>fst b\<rfloor> = c" "snd b = hi"
    using drawX_vertices(2,3) [OF Nil(2,3)] by metis
  then show ?case using Nil(4,5) unfolding brackets_def by auto
next
  case (Cons p ps)
  show ?case
  proof (cases "pt_skip p")
    case True
    then have "fast_loop (p # ps) st = fast_loop ps st" by (simp add: fast_step_def)
    with Cons True show ?thesis by simp
  next
    case False
    note unskipped = this
    have os: "on_screen p" using Cons.prems(1) by simp
    show ?thesis
    proof (cases "\<lfloor>pt_x p\<rfloor> = c")
      case True
      obtain st' where s: "fast_step p st = ([], st')" "fast_inv c (min lo (pt_y p)) (max hi (pt_y p)) y0 st'"
        using fast_step_same [OF Cons.prems(2) False os True] by blast
      have "brackets (insert (x0, y0) (set (vertices (fast_loop ps st')))) c z \<and>
          (\<forall>p \<in> set ps. \<not> pt_skip p \<longrightarrow> brackets (insert (x0, y0) (set (vertices (fast_loop ps st')))) \<lfloor>pt_x p\<rfloor> (pt_y p))"
        if "z = y \<or> z = pt_y p" for z
        by (rule Cons.IH [OF _ s(2)]) (use Cons.prems that in auto)
      with True s(1) show ?thesis by auto
    next
      case other: False
      let ?st = "st\<lparr>fs_prevX := Some \<lfloor>pt_x p\<rfloor>, fs_countX := 0, fs_minY := Some (pt_y p), fs_maxY := Some (pt_y p), fs_lastY := Some (pt_y p)\<rparr>"
      have step: "fast_step p st = (drawX st @ [LineTo (pt_x p) (pt_y p)], ?st)"
        using unskipped other Cons.prems(2) column_floor [OF os] by (simp add: fast_step_def fast_inv_def Let_def)
      have inv: "fast_inv \<lfloor>pt_x p\<rfloor> (pt_y p) (pt_y p) (pt_y p) ?st" using os by (simp add: fast_inv_def)
      let ?V = "set (vertices (fast_loop (p # ps) st))"
      have V: "?V = set (vertices (drawX st)) \<union> insert (pt_x p, pt_y p) (set (vertices (fast_loop ps ?st)))"
        by (simp add: step vertices_append)
      have ih: "brackets (insert (pt_x p, pt_y p) (set (vertices (fast_loop ps ?st)))) \<lfloor>pt_x p\<rfloor> (pt_y p) \<and>
          (\<forall>q \<in> set ps. \<not> pt_skip q \<longrightarrow> brackets (insert (pt_x p, pt_y p) (set (vertices (fast_loop ps ?st)))) \<lfloor>pt_x q\<rfloor> (pt_y q))"
        by (rule Cons.IH [OF _ inv]) (use Cons.prems in auto)
      have sub: "insert (pt_x p, pt_y p) (set (vertices (fast_loop ps ?st))) \<subseteq> insert (x0, y0) ?V" unfolding V by blast
      obtain a b where "a \<in> insert (x0, y0) ?V" "\<lfloor>fst a\<rfloor> = c" "snd a = lo" "b \<in> insert (x0, y0) ?V" "\<lfloor>fst b\<rfloor> = c" "snd b = hi"
        using drawX_vertices(2,3) [OF Cons.prems(2,3)] unfolding V by blast
      then have "brackets (insert (x0, y0) ?V) c y" using Cons.prems(4,5) unfolding brackets_def by auto
      moreover have "\<forall>q \<in> set (p # ps). \<not> pt_skip q \<longrightarrow> brackets (insert (x0, y0) ?V) \<lfloor>pt_x q\<rfloor> (pt_y q)"
        using ih brackets_mono [OF _ sub] by auto
      ultimately show ?thesis by blast
    qed
  qed
qed

lemma fast_loop_values:
  assumes "\<forall>p \<in> set ps. on_screen p" and "fast_inv c lo hi y0 st" and "v \<in> set (vertices (fast_loop ps st))"
  shows "\<lfloor>fst v\<rfloor> = c \<and> (snd v = lo \<or> snd v = hi \<or> Some (snd v) = fs_lastY st) \<or>
    (\<exists>p \<in> set ps. \<not> pt_skip p \<and> \<lfloor>pt_x p\<rfloor> = \<lfloor>fst v\<rfloor> \<and> pt_y p = snd v)"
  using assms
proof (induction ps arbitrary: c lo hi y0 st)
  case Nil
  then show ?case using drawX_vertices(1) [OF Nil(2)] by simp
next
  case (Cons p ps)
  show ?case
  proof (cases "pt_skip p")
    case True
    then have "fast_loop (p # ps) st = fast_loop ps st" by (simp add: fast_step_def)
    with Cons True show ?thesis by auto
  next
    case False
    note unskipped = this
    have os: "on_screen p" using Cons.prems(1) by simp
    show ?thesis
    proof (cases "\<lfloor>pt_x p\<rfloor> = c")
      case True
      obtain st' where s: "fast_step p st = ([], st')" "fast_inv c (min lo (pt_y p)) (max hi (pt_y p)) y0 st'" "fs_lastY st' = Some (pt_y p)"
        using fast_step_same [OF Cons.prems(2) False os True] by blast
      have "\<lfloor>fst v\<rfloor> = c \<and> (snd v = min lo (pt_y p) \<or> snd v = max hi (pt_y p) \<or> Some (snd v) = fs_lastY st') \<or>
          (\<exists>p \<in> set ps. \<not> pt_skip p \<and> \<lfloor>pt_x p\<rfloor> = \<lfloor>fst v\<rfloor> \<and> pt_y p = snd v)"
        by (rule Cons.IH [OF _ s(2)]) (use Cons.prems s(1) in auto)
      with True unskipped s(3) show ?thesis by (auto simp: min_def max_def split: if_splits)
    next
      case other: False
      let ?st = "st\<lparr>fs_prevX := Some \<lfloor>pt_x p\<rfloor>, fs_countX := 0, fs_minY := Some (pt_y p), fs_maxY := Some (pt_y p), fs_lastY := Some (pt_y p)\<rparr>"
      have step: "fast_step p st = (drawX st @ [LineTo (pt_x p) (pt_y p)], ?st)"
        using unskipped other Cons.prems(2) column_floor [OF os] by (simp add: fast_step_def fast_inv_def Let_def)
      have inv: "fast_inv \<lfloor>pt_x p\<rfloor> (pt_y p) (pt_y p) (pt_y p) ?st" using os by (simp add: fast_inv_def)
      consider "v \<in> set (vertices (drawX st))" | "v = (pt_x p, pt_y p)" | "v \<in> set (vertices (fast_loop ps ?st))"
        using Cons.prems(3) by (auto simp: step vertices_append)
      then show ?thesis
      proof cases
        case 1
        then show ?thesis using drawX_vertices(1) [OF Cons.prems(2)] by blast
      next
        case 2
        then show ?thesis using unskipped by auto
      next
        case 3
        have "\<lfloor>fst v\<rfloor> = \<lfloor>pt_x p\<rfloor> \<and> (snd v = pt_y p \<or> snd v = pt_y p \<or> Some (snd v) = fs_lastY ?st) \<or>
            (\<exists>p \<in> set ps. \<not> pt_skip p \<and> \<lfloor>pt_x p\<rfloor> = \<lfloor>fst v\<rfloor> \<and> pt_y p = snd v)"
          by (rule Cons.IH [OF _ inv 3]) (use Cons.prems in auto)
        then show ?thesis using unskipped by auto
      qed
    qed
  qed
qed

lemma straight_vertices:
  "set (vertices (fst (path_loop Straight rvs ps move prev))) = {(pt_x p, pt_y p) |p. p \<in> set ps \<and> \<not> pt_skip p}"
  by (induction ps arbitrary: move prev) (auto simp: Let_def split_beta)

text \<open>The loop of the fast path, for points on the canvas, against the loop of the full path.\<close>

lemma fast_loop_extent:
  assumes "\<forall>p \<in> set ps. on_screen p"
    and "S = set (vertices (fst (path_loop Straight rvs ps move prev)))" and "F = set (vertices (fast_loop ps fast_start))"
  shows "(\<forall>(x, y) \<in> S. brackets F \<lfloor>x\<rfloor> y) \<and> (\<forall>(x, y) \<in> F. \<exists>(x', y') \<in> S. \<lfloor>x'\<rfloor> = \<lfloor>x\<rfloor> \<and> y' = y)"
proof -
  have S: "S = {(pt_x p, pt_y p) |p. p \<in> set ps \<and> \<not> pt_skip p}" by (simp add: assms(2) straight_vertices)
  have "(\<forall>p \<in> set ps. \<not> pt_skip p \<longrightarrow> brackets (set (vertices (fast_loop ps fast_start))) \<lfloor>pt_x p\<rfloor> (pt_y p)) \<and>
    (\<forall>v \<in> set (vertices (fast_loop ps fast_start)). \<exists>p \<in> set ps. \<not> pt_skip p \<and> \<lfloor>pt_x p\<rfloor> = \<lfloor>fst v\<rfloor> \<and> pt_y p = snd v)"
    using assms(1)
  proof (induction ps)
    case Nil
    then show ?case by (simp add: drawX_def fast_start_def)
  next
    case (Cons p ps)
    show ?case
    proof (cases "pt_skip p")
      case True
      then have "fast_loop (p # ps) fast_start = fast_loop ps fast_start" by (simp add: fast_step_def)
      with Cons True show ?thesis by auto
    next
      case False
      let ?st = "fast_start\<lparr>fs_prevX := Some \<lfloor>pt_x p\<rfloor>, fs_countX := 0, fs_minY := Some (pt_y p), fs_maxY := Some (pt_y p), fs_lastY := Some (pt_y p)\<rparr>"
      have os: "on_screen p" using Cons.prems by simp
      have step: "fast_step p fast_start = ([LineTo (pt_x p) (pt_y p)], ?st)"
        using False column_floor [OF os] by (simp add: fast_step_def fast_start_def drawX_def Let_def)
      have inv: "fast_inv \<lfloor>pt_x p\<rfloor> (pt_y p) (pt_y p) (pt_y p) ?st" using os by (simp add: fast_inv_def)
      have V: "set (vertices (fast_loop (p # ps) fast_start)) = insert (pt_x p, pt_y p) (set (vertices (fast_loop ps ?st)))"
        by (simp add: step)
      have os': "\<forall>p \<in> set ps. on_screen p" using Cons.prems by simp
      have "\<exists>q \<in> set (p # ps). \<not> pt_skip q \<and> \<lfloor>pt_x q\<rfloor> = \<lfloor>fst v\<rfloor> \<and> pt_y q = snd v"
        if "v \<in> set (vertices (fast_loop ps ?st))" for v
        using fast_loop_values [OF os' inv that] False by auto
      then show ?thesis
        unfolding V using fast_loop_brackets [OF os' inv refl, of "pt_y p"] False by auto
    qed
  qed
  then show ?thesis by (auto simp: S assms(3)) fastforce
qed

text \<open>
  C29 (the fast path of a line looks like the full path). A straight line that is not closed is drawn by \<open>fastPathSegment\<close>, which merges the points of one pixel
  column. When the horizontal positions of its points are from 0 to the largest 32-bit number, the segment is not empty, and a path that starts with it starts at a point
  that is not skipped, each vertex of the path that \<open>pathSegment\<close> would draw lies, in its
  own pixel column, between two vertices of the fast path, and each vertex of the fast path has the
  column and the height of a vertex of the full path: the fast path reaches exactly as high and as low
  in every column.
\<close>

theorem fast_path_extent:
  assumes "pv = pathVars points segm params" and "vs = visited points pv (pp_reverse params)" and "0 \<le> pv_ilen pv" and "\<not> seg_loop segm"
    and "getLineMethod opts = Straight" and "\<forall>p \<in> set vs. on_screen p" and "pp_move params \<longrightarrow> \<not> pt_skip (hd vs)"
    and "fastPathSegment points segm params = Some cmds"
    and "S = set (vertices (fst (pathSegment opts points segm params)))" and "F = set (vertices cmds)"
  shows "(\<forall>(x, y) \<in> S. brackets F \<lfloor>x\<rfloor> y) \<and> (\<forall>(x, y) \<in> F. \<exists>(x', y') \<in> S. \<lfloor>x'\<rfloor> = \<lfloor>x\<rfloor> \<and> y' = y)"
proof -
  have l: "\<not> pv_loop pv" using assms(4) by (simp add: assms(1) pathVars_def Let_def)
  have S: "S = set (vertices (fst (path_loop Straight (pp_reverse params) vs (pp_move params) None)))"
    using l by (simp add: assms(9) pathSegment_def assms(1,2,5) Let_def split_beta)
  define F0 where "F0 = set (vertices (fast_loop vs fast_start))"
  from fast_loop_extent [OF assms(6) S F0_def]
  have e: "\<forall>(x, y) \<in> S. brackets F0 \<lfloor>x\<rfloor> y" "\<forall>(x, y) \<in> F0. \<exists>(x', y') \<in> S. \<lfloor>x'\<rfloor> = \<lfloor>x\<rfloor> \<and> y' = y" by blast+
  have vs: "hd vs = the (point_at points (segment_position pv (pp_reverse params) 0))" "hd vs \<in> set vs"
    using assms(3) by (simp_all add: assms(2) visited_def upto_rec1)
  have F: "F = F0 \<or> F = insert (pt_x (hd vs), pt_y (hd vs)) F0 \<and> pp_move params"
    using assms(8) vs(1) by (auto simp: assms(10) fastPathSegment_def F0_def assms(1,2) Let_def split: if_splits)
  then have sub: "F0 \<subseteq> F" by blast
  have "(pt_x (hd vs), pt_y (hd vs)) \<in> S" if "pp_move params"
    using assms(7) vs(2) that unfolding S straight_vertices by blast
  then have new: "v \<in> F \<Longrightarrow> v \<in> F0 \<or> v \<in> S" for v using F by blast
  have "brackets F \<lfloor>x\<rfloor> y" if "(x, y) \<in> S" for x y using e(1) that brackets_mono [OF _ sub] by blast
  moreover have "\<exists>(x', y') \<in> S. \<lfloor>x'\<rfloor> = \<lfloor>x\<rfloor> \<and> y' = y" if "(x, y) \<in> F" for x y
    using new [OF that] e(2) by blast
  ultimately show ?thesis by blast
qed

text \<open>A line through three points, two of them in one column.\<close>

definition three_points :: "line_pt list" where
  "three_points = map (\<lambda>(x, y). \<lparr>pt_skip = False, pt_stop = False, pt_x = x, pt_y = y, pt_angle = 0, lp_cp1 = (0, 0), lp_cp2 = (0, 0)\<rparr>)
     [(0, 3), (1/2, 7), (2, 5)]"

theorem fast_path_extent_witness:
  "\<exists>cmds. fastPathSegment three_points \<lparr>seg_start = 0, seg_end = 2, seg_loop = False\<rparr>
       \<lparr>pp_start = None, pp_end = None, pp_move = True, pp_reverse = False\<rparr> = Some cmds \<and> brackets (set (vertices cmds)) 0 7"
proof -
  let ?seg = "\<lparr>seg_start = 0, seg_end = 2, seg_loop = False\<rparr>" and ?pp = "\<lparr>pp_start = None, pp_end = None, pp_move = True, pp_reverse = False\<rparr>"
  let ?opts = "\<lparr>lo_stepped = None, lo_tension = 0, lo_monotone = False, lo_borderDash = [], lo_borderWidth = 1, lo_segment = False\<rparr>"
  have pv: "pathVars three_points ?seg ?pp = \<lparr>pv_count = 3, pv_start = 0, pv_loop = False, pv_ilen = 2\<rparr>"
    by (simp add: pathVars_def three_points_def Let_def)
  have up: "[0..2] = [0, 1, 2 :: int]" by (simp add: upto_rec1)
  have vs: "visited three_points (pathVars three_points ?seg ?pp) (pp_reverse ?pp) = three_points"
    unfolding visited_def pv by (simp add: segment_position_def point_at_def arr_get_def three_points_def up)
  obtain cmds where c: "fastPathSegment three_points ?seg ?pp = Some cmds"
    unfolding fastPathSegment_def pv Let_def by (simp add: point_at_def segment_position_def arr_get_def three_points_def)
  have on: "\<forall>p \<in> set three_points. on_screen p" and first: "\<not> pt_skip (hd three_points)" by (simp_all add: three_points_def)
  let ?S = "set (vertices (fst (pathSegment ?opts three_points ?seg ?pp)))"
  have m: "getLineMethod ?opts = Straight" by (simp add: getLineMethod_def)
  have "\<exists>p \<in> set three_points. pt_x p = 1/2 \<and> pt_y p = 7 \<and> \<not> pt_skip p" by (simp add: three_points_def)
  moreover have "?S = {(pt_x p, pt_y p) |p. p \<in> set three_points \<and> \<not> pt_skip p}"
    unfolding pathSegment_def Let_def m using vs by (simp add: pv split_beta straight_vertices)
  ultimately have "(1/2, 7) \<in> ?S" by force
  moreover have "\<forall>(x, y) \<in> ?S. brackets (set (vertices cmds)) \<lfloor>x\<rfloor> y"
    using fast_path_extent [OF refl vs [symmetric] _ _ m on _ c refl refl] first pv by simp
  ultimately have "brackets (set (vertices cmds)) \<lfloor>1/2 :: real\<rfloor> 7" by blast
  with c show ?thesis by simp
qed

end
