(* ===== verification/Elements.thy ===== *)
theory Elements
  imports Canvas Math_Helpers Options
begin

text \<open>
  The elements of the charts (\<^verbatim>\<open>chart.js\<close>: class \<open>Element\<close>, arcs, points and bars): where an
  element is, the positions that belong to it, and how it is drawn. Lines are in \<open>Line_Element\<close>.

  The animated properties of an element are finite pixels and angles. The attributes of the
  canvas that are colours are not represented except where a command sets them.
\<close>

section \<open>Elements\<close>

text \<open>The options an element reads, as they are after resolution.\<close>

record point_el =
  pe_radius :: real
  pe_hitRadius :: real
  pe_hoverRadius :: real
  pe_borderWidth :: real
  pe_style :: point_options
  pe_borderColor :: string
  pe_backgroundColor :: string

record skipped =
  sk_top :: bool
  sk_right :: bool
  sk_bottom :: bool
  sk_left :: bool

record bar_el =
  be_horizontal :: bool
  be_skip :: skipped
  be_enableBorderRadius :: bool
  be_borderWidth :: jsval
  be_borderRadius :: jsval
  be_inflateAmount :: real
  be_borderColor :: string
  be_backgroundColor :: string

record arc_el =
  ae_circumferenceSet :: bool
  ae_offset :: real
  ae_spacing :: real
  ae_borderRadius :: jsval
  ae_borderWidth :: real
  ae_inner :: bool
  ae_borderJoinStyle :: "string option"
  ae_borderColor :: string
  ae_backgroundColor :: string

datatype shape = Point point_el | Bar bar_el | Arc arc_el

text \<open>
  The properties by name, and \<open>$animations\<close>: the final value of each animated property and
  whether its animation is active. The circumference of an arc may be undefined.
\<close>

record elem =
  el_prop :: "string \<Rightarrow> real"
  el_anims :: "(string \<Rightarrow> (real \<times> bool) option) option"
  el_skip :: bool
  el_shape :: shape

definition getProps :: "elem \<Rightarrow> bool \<Rightarrow> string \<Rightarrow> real" where
  "getProps e final =
     (case el_anims e of
        None \<Rightarrow> el_prop e
      | Some anims \<Rightarrow>
          if \<not> final then el_prop e
          else (\<lambda>p. case anims p of Some (to, True) \<Rightarrow> to | _ \<Rightarrow> el_prop e p))"

section \<open>Points\<close>

definition point_inRange :: "elem \<Rightarrow> point_el \<Rightarrow> real \<Rightarrow> real \<Rightarrow> bool \<Rightarrow> bool" where
  "point_inRange e p mouseX mouseY final \<longleftrightarrow>
     (mouseX - getProps e final ''x'') ^ 2 + (mouseY - getProps e final ''y'') ^ 2 < (pe_hitRadius p + pe_radius p) ^ 2"

definition inRange_axis :: "elem \<Rightarrow> point_el \<Rightarrow> real \<Rightarrow> string \<Rightarrow> bool \<Rightarrow> bool" where
  "inRange_axis e p pos axis final \<longleftrightarrow> \<bar>pos - getProps e final axis\<bar> < pe_radius p + pe_hitRadius p"

definition point_size :: "point_el \<Rightarrow> real" where
  "point_size p =
     (let radius = max (pe_radius p) (if pe_radius p \<noteq> 0 then pe_hoverRadius p else 0);
          borderWidth = (if radius \<noteq> 0 then pe_borderWidth p else 0)
      in (radius + borderWidth) * 2)"

definition point_draw :: "elem \<Rightarrow> point_el \<Rightarrow> rect_area option \<Rightarrow> cmd list" where
  "point_draw e p area =
     (let x = el_prop e ''x''; y = el_prop e ''y''
      in if el_skip e \<or> pe_radius p < 1 / 10 \<or> \<not> isPointInArea (Some (x, y)) area (Some (point_size p / 2)) then []
         else [SetStrokeStyle (pe_borderColor p), SetLineWidth (pe_borderWidth p), SetFillStyle (pe_backgroundColor p)] @
              drawPoint (pe_style p) x y)"

section \<open>Bars\<close>

definition getBarBounds :: "elem \<Rightarrow> bool \<Rightarrow> bool \<Rightarrow> rect_area" where
  "getBarBounds e horizontal final =
     (let x = getProps e final ''x''; y = getProps e final ''y''; base = getProps e final ''base'';
          w = getProps e final ''width''; h = getProps e final ''height''
      in if horizontal then \<lparr>ra_left = min x base, ra_top = y - h / 2, ra_right = max x base, ra_bottom = y + h / 2\<rparr>
         else \<lparr>ra_left = x - w / 2, ra_top = min y base, ra_right = x + w / 2, ra_bottom = max y base\<rparr>)"

definition skipOrLimit :: "bool \<Rightarrow> jsnum \<Rightarrow> jsnum \<Rightarrow> jsnum \<Rightarrow> jsnum" where
  "skipOrLimit skip v mn mx = (if skip then 0 else limitValue v mn mx)"

record border_width =
  bw_t :: jsnum
  bw_r :: jsnum
  bw_b :: jsnum
  bw_l :: jsnum

definition parseBorderWidth :: "bar_el \<Rightarrow> jsnum \<Rightarrow> jsnum \<Rightarrow> border_width" where
  "parseBorderWidth b maxW maxH =
     (let o' = toTRBL (be_borderWidth b); skip = be_skip b
      in \<lparr>bw_t = skipOrLimit (sk_top skip) (side o' ''top'') 0 maxH,
          bw_r = skipOrLimit (sk_right skip) (side o' ''right'') 0 maxW,
          bw_b = skipOrLimit (sk_bottom skip) (side o' ''bottom'') 0 maxH,
          bw_l = skipOrLimit (sk_left skip) (side o' ''left'') 0 maxW\<rparr>)"

record corners =
  co_topLeft :: jsnum
  co_topRight :: jsnum
  co_bottomLeft :: jsnum
  co_bottomRight :: jsnum

definition parseBorderRadius :: "bar_el \<Rightarrow> jsnum \<Rightarrow> jsnum \<Rightarrow> corners" where
  "parseBorderRadius b maxW maxH =
     (let o' = toTRBLCorners (be_borderRadius b); maxR = math_min maxW maxH; skip = be_skip b;
          off = \<not> (be_enableBorderRadius b \<or> isObject (be_borderRadius b))
      in \<lparr>co_topLeft = skipOrLimit (off \<or> sk_top skip \<or> sk_left skip) (side o' ''topLeft'') 0 maxR,
          co_topRight = skipOrLimit (off \<or> sk_top skip \<or> sk_right skip) (side o' ''topRight'') 0 maxR,
          co_bottomLeft = skipOrLimit (off \<or> sk_bottom skip \<or> sk_left skip) (side o' ''bottomLeft'') 0 maxR,
          co_bottomRight = skipOrLimit (off \<or> sk_bottom skip \<or> sk_right skip) (side o' ''bottomRight'') 0 maxR\<rparr>)"

record bar_rect =
  br_x :: jsnum
  br_y :: jsnum
  br_w :: jsnum
  br_h :: jsnum
  br_radius :: corners

definition boundingRects :: "elem \<Rightarrow> bar_el \<Rightarrow> bar_rect \<times> bar_rect" where
  "boundingRects e b =
     (let bounds = getBarBounds e (be_horizontal b) False;
          w = Fin (ra_right bounds - ra_left bounds); h = Fin (ra_bottom bounds - ra_top bounds);
          border = parseBorderWidth b (w / 2) (h / 2); radius = parseBorderRadius b (w / 2) (h / 2)
      in (\<lparr>br_x = Fin (ra_left bounds), br_y = Fin (ra_top bounds), br_w = w, br_h = h, br_radius = radius\<rparr>,
          \<lparr>br_x = Fin (ra_left bounds) + bw_l border, br_y = Fin (ra_top bounds) + bw_t border,
           br_w = w - bw_l border - bw_r border, br_h = h - bw_t border - bw_b border,
           br_radius =
             \<lparr>co_topLeft = math_max 0 (co_topLeft radius - math_max (bw_t border) (bw_l border)),
              co_topRight = math_max 0 (co_topRight radius - math_max (bw_t border) (bw_r border)),
              co_bottomLeft = math_max 0 (co_bottomLeft radius - math_max (bw_b border) (bw_l border)),
              co_bottomRight = math_max 0 (co_bottomRight radius - math_max (bw_b border) (bw_r border))\<rparr>\<rparr>))"

text \<open>A missing coordinate (\<open>null\<close>) is not tested.\<close>

definition bar_inRange :: "elem \<Rightarrow> bar_el \<Rightarrow> real option \<Rightarrow> real option \<Rightarrow> bool \<Rightarrow> bool" where
  "bar_inRange e b x y final =
     (let bounds = getBarBounds e (be_horizontal b) final
      in (x \<noteq> None \<or> y \<noteq> None) \<and>
         (case x of None \<Rightarrow> True | Some v \<Rightarrow> isBetween v (ra_left bounds) (ra_right bounds) (1 / 1000000)) \<and>
         (case y of None \<Rightarrow> True | Some v \<Rightarrow> isBetween v (ra_top bounds) (ra_bottom bounds) (1 / 1000000)))"

definition hasRadius :: "corners \<Rightarrow> bool" where
  "hasRadius r \<longleftrightarrow> truthy (Num (co_topLeft r)) \<or> truthy (Num (co_topRight r)) \<or>
     truthy (Num (co_bottomLeft r)) \<or> truthy (Num (co_bottomRight r))"

definition inflateRect :: "bar_rect \<Rightarrow> jsnum \<Rightarrow> bar_rect option \<Rightarrow> bar_rect" where
  "inflateRect rect amount refRect =
     (let differs = (\<lambda>f. case refRect of None \<Rightarrow> True | Some r \<Rightarrow> f rect \<noteq> f r);
          x = (if differs br_x then - amount else 0);
          y = (if differs br_y then - amount else 0);
          w = (if differs (\<lambda>r. br_x r + br_w r) then amount else 0) - x;
          h = (if differs (\<lambda>r. br_y r + br_h r) then amount else 0) - y
      in rect\<lparr>br_x := br_x rect + x, br_y := br_y rect + y, br_w := br_w rect + w, br_h := br_h rect + h\<rparr>)"

text \<open>All numbers of a rectangle are finite (\<open>boundingRects_finite\<close>).\<close>

definition addRectPath :: "bool \<Rightarrow> bar_rect \<Rightarrow> cmd list" where
  "addRectPath rounded r =
     (let x = num_val (br_x r); y = num_val (br_y r); w = num_val (br_w r); h = num_val (br_h r); c = br_radius r
      in if rounded then
           addRoundedRectPath x y w h
             \<lparr>cr_topLeft = num_val (co_topLeft c), cr_topRight = num_val (co_topRight c),
              cr_bottomLeft = num_val (co_bottomLeft c), cr_bottomRight = num_val (co_bottomRight c)\<rparr>
         else [RectTo x y w h])"

definition bar_draw :: "elem \<Rightarrow> bar_el \<Rightarrow> cmd list" where
  "bar_draw e b =
     (let (outer, inner) = boundingRects e b; rounded = hasRadius (br_radius outer); amount = Fin (be_inflateAmount b)
      in [Save] @
         (if br_w outer \<noteq> br_w inner \<or> br_h outer \<noteq> br_h inner then
            [BeginPath] @ addRectPath rounded (inflateRect outer amount (Some inner)) @ [ClipPath] @
            addRectPath rounded (inflateRect inner (- amount) (Some outer)) @
            [SetFillStyle (be_borderColor b), FillEvenOdd]
          else []) @
         [BeginPath] @ addRectPath rounded (inflateRect inner amount None) @
         [SetFillStyle (be_backgroundColor b), FillPath, Restore])"

section \<open>Arcs\<close>

text \<open>\<open>Math.atan2\<close>; zeros have no sign here.\<close>

definition atan2 :: "real \<Rightarrow> real \<Rightarrow> real" where
  "atan2 y x =
     (if 0 < x then arctan (y / x)
      else if x < 0 then (if 0 \<le> y then arctan (y / x) + pi else arctan (y / x) - pi)
      else if 0 < y then pi / 2
      else if y < 0 then - (pi / 2)
      else 0)"

definition getAngleFromPoint :: "real \<times> real \<Rightarrow> real \<times> real \<Rightarrow> real \<times> real" where
  "getAngleFromPoint centrePoint anglePoint =
     (let dx = fst anglePoint - fst centrePoint; dy = snd anglePoint - snd centrePoint;
          angle = atan2 dy dx
      in (if angle < - (pi / 2) then angle + TAU else angle, sqrt (dx * dx + dy * dy)))"

definition arc_inRange :: "elem \<Rightarrow> arc_el \<Rightarrow> real \<Rightarrow> real \<Rightarrow> bool \<Rightarrow> bool" where
  "arc_inRange e a chartX chartY final =
     (let p = getProps e final;
          (angle, distance) = getAngleFromPoint (p ''x'', p ''y'') (chartX, chartY);
          rAdjust = ae_spacing a / 2;
          circumference = (if ae_circumferenceSet a then p ''circumference'' else p ''endAngle'' - p ''startAngle'')
      in (circumference \<ge> TAU \<or> angleBetween angle (p ''startAngle'') (p ''endAngle'') False) \<and>
         isBetween distance (p ''innerRadius'' + rAdjust) (p ''outerRadius'' + rAdjust) (1 / 1000000))"

definition arc_center :: "elem \<Rightarrow> arc_el \<Rightarrow> bool \<Rightarrow> real \<times> real" where
  "arc_center e a final =
     (let p = getProps e final;
          halfAngle = (p ''startAngle'' + p ''endAngle'') / 2;
          halfRadius = (p ''innerRadius'' + p ''outerRadius'' + ae_spacing a + ae_offset a) / 2
      in (p ''x'' + cos halfAngle * halfRadius, p ''y'' + sin halfAngle * halfRadius))"

section \<open>Drawing arcs\<close>

text \<open>
  The path of an arc divides by radii that may be zero, so its numbers may be infinite or
  \<open>NaN\<close>; the canvas ignores a command with such a number.
\<close>

fun num_fun :: "(real \<Rightarrow> real) \<Rightarrow> jsnum \<Rightarrow> jsnum" where
  "num_fun f (Fin a) = Fin (f a)"
| "num_fun f _ = NaN"

definition arc_cmd :: "jsnum \<Rightarrow> jsnum \<Rightarrow> jsnum \<Rightarrow> jsnum \<Rightarrow> jsnum \<Rightarrow> bool \<Rightarrow> cmd list" where
  "arc_cmd x y r a b ccw =
     (if list_all is_finite [x, y, r, a, b]
      then [ArcTo (num_val x) (num_val y) (num_val r) (num_val a) (num_val b) ccw] else [])"

definition line_cmd :: "jsnum \<times> jsnum \<Rightarrow> cmd list" where
  "line_cmd p = (if is_finite (fst p) \<and> is_finite (snd p) then [LineTo (num_val (fst p)) (num_val (snd p))] else [])"

definition rThetaToXY :: "jsnum \<Rightarrow> jsnum \<Rightarrow> jsnum \<Rightarrow> jsnum \<Rightarrow> jsnum \<times> jsnum" where
  "rThetaToXY r theta x y = (x + r * num_fun cos theta, y + r * num_fun sin theta)"

record arc_corners =
  ac_outerStart :: jsnum
  ac_outerEnd :: jsnum
  ac_innerStart :: jsnum
  ac_innerEnd :: jsnum

definition toRadiusCorners :: "jsval \<Rightarrow> (string \<times> jsnum) list" where
  "toRadiusCorners v = readValueToProps v [''outerStart'', ''outerEnd'', ''innerStart'', ''innerEnd'']"

definition parseArcBorderRadius :: "arc_el \<Rightarrow> jsnum \<Rightarrow> jsnum \<Rightarrow> jsnum \<Rightarrow> arc_corners" where
  "parseArcBorderRadius a innerRadius outerRadius angleDelta =
     (let o' = toRadiusCorners (ae_borderRadius a);
          halfThickness = (outerRadius - innerRadius) / 2;
          innerLimit = math_min halfThickness (angleDelta * innerRadius / 2);
          computeOuterLimit = (\<lambda>v.
            let outerArcLimit = (outerRadius - math_min halfThickness v) * angleDelta / 2
            in limitValue v 0 (math_min halfThickness outerArcLimit))
      in \<lparr>ac_outerStart = computeOuterLimit (side o' ''outerStart''),
          ac_outerEnd = computeOuterLimit (side o' ''outerEnd''),
          ac_innerStart = limitValue (side o' ''innerStart'') 0 innerLimit,
          ac_innerEnd = limitValue (side o' ''innerEnd'') 0 innerLimit\<rparr>)"

text \<open>The part of the angle that the spacing takes at one end.\<close>

definition spacing_offset :: "jsnum \<Rightarrow> jsnum \<Rightarrow> jsnum \<Rightarrow> jsnum \<Rightarrow> jsnum" where
  "spacing_offset innerR outerRadius spacing alpha =
     (if truthy (Num spacing) then
        let noSpacingInnerRadius = (if 0 < innerR then innerR - spacing else 0);
            noSpacingOuterRadius = (if 0 < outerRadius then outerRadius - spacing else 0);
            avNogSpacingRadius = (noSpacingInnerRadius + noSpacingOuterRadius) / 2;
            adjustedAngle = (if avNogSpacingRadius \<noteq> 0
                             then (alpha * avNogSpacingRadius) / (avNogSpacingRadius + spacing) else alpha)
        in (alpha - adjustedAngle) / 2
      else 0)"

definition pathArc :: "elem \<Rightarrow> arc_el \<Rightarrow> real \<Rightarrow> jsnum \<Rightarrow> jsnum \<Rightarrow> jsnum \<Rightarrow> cmd list" where
  "pathArc e a pixelMargin offset spacing endA =
     (let p = (\<lambda>k. Fin (el_prop e k)); x = p ''x''; y = p ''y''; start = p ''startAngle''; innerR = p ''innerRadius'';
          outerRadius = math_max (p ''outerRadius'' + spacing + offset - Fin pixelMargin) 0;
          innerRadius = (if 0 < innerR then innerR + spacing + offset + Fin pixelMargin else 0);
          alpha = endA - start;
          spacingOffset = spacing_offset innerR outerRadius spacing alpha;
          beta = math_max (Fin (1 / 1000)) (alpha * outerRadius - offset / Fin pi) / outerRadius;
          angleOffset = (alpha - beta) / 2;
          startAngle = start + angleOffset + spacingOffset;
          endAngle = endA - angleOffset - spacingOffset;
          c = parseArcBorderRadius a innerRadius outerRadius (endAngle - startAngle);
          outerStart = ac_outerStart c; outerEnd = ac_outerEnd c; innerStart = ac_innerStart c; innerEnd = ac_innerEnd c;
          outerStartAdjustedRadius = outerRadius - outerStart;
          outerEndAdjustedRadius = outerRadius - outerEnd;
          outerStartAdjustedAngle = startAngle + outerStart / outerStartAdjustedRadius;
          outerEndAdjustedAngle = endAngle - outerEnd / outerEndAdjustedRadius;
          innerStartAdjustedRadius = innerRadius + innerStart;
          innerEndAdjustedRadius = innerRadius + innerEnd;
          innerStartAdjustedAngle = startAngle + innerStart / innerStartAdjustedRadius;
          innerEndAdjustedAngle = endAngle - innerEnd / innerEndAdjustedRadius;
          halfPi = Fin (pi / 2);
          corner = (\<lambda>r adjRadius adjAngle from to.
            if 0 < r then let (cx, cy) = rThetaToXY adjRadius adjAngle x y in arc_cmd cx cy r from to False else [])
      in [BeginPath] @
         arc_cmd x y outerRadius outerStartAdjustedAngle outerEndAdjustedAngle False @
         corner outerEnd outerEndAdjustedRadius outerEndAdjustedAngle outerEndAdjustedAngle (endAngle + halfPi) @
         line_cmd (rThetaToXY innerEndAdjustedRadius endAngle x y) @
         corner innerEnd innerEndAdjustedRadius innerEndAdjustedAngle (endAngle + halfPi) (innerEndAdjustedAngle + Fin pi) @
         arc_cmd x y innerRadius (endAngle - innerEnd / innerRadius) (startAngle + innerStart / innerRadius) True @
         corner innerStart innerStartAdjustedRadius innerStartAdjustedAngle (innerStartAdjustedAngle + Fin pi) (startAngle - halfPi) @
         line_cmd (rThetaToXY outerStartAdjustedRadius startAngle x y) @
         corner outerStart outerStartAdjustedRadius outerStartAdjustedAngle (startAngle - halfPi) outerStartAdjustedAngle @
         [ClosePath])"

definition clipArc :: "elem \<Rightarrow> real \<Rightarrow> jsnum \<Rightarrow> cmd list" where
  "clipArc e pixelMargin endAngle =
     (let p = (\<lambda>k. Fin (el_prop e k)); margin = Fin pixelMargin; halfPi = Fin (pi / 2);
          outerMargin = margin / p ''outerRadius''; innerMargin = margin / p ''innerRadius''
      in [BeginPath] @
         arc_cmd (p ''x'') (p ''y'') (p ''outerRadius'') (p ''startAngle'' - outerMargin) (endAngle + outerMargin) False @
         (if margin < p ''innerRadius'' then
            arc_cmd (p ''x'') (p ''y'') (p ''innerRadius'') (endAngle + innerMargin) (p ''startAngle'' - innerMargin) True
          else arc_cmd (p ''x'') (p ''y'') margin (endAngle + halfPi) (p ''startAngle'' - halfPi) False) @
         [ClosePath, ClipPath])"

definition drawArc :: "elem \<Rightarrow> arc_el \<Rightarrow> real \<Rightarrow> nat \<Rightarrow> jsnum \<Rightarrow> jsnum \<Rightarrow> cmd list \<times> jsnum" where
  "drawArc e a pixelMargin fullCircles offset spacing =
     (let start = el_prop e ''startAngle''; circumference = el_prop e ''circumference'';
          endAngle = (if fullCircles \<noteq> 0 \<and> ae_circumferenceSet a then
                        Fin (start + real_rem circumference TAU + (if real_rem circumference TAU = 0 then TAU else 0))
                      else Fin (el_prop e ''endAngle''))
      in ((if fullCircles \<noteq> 0 then pathArc e a pixelMargin offset spacing (Fin (start + TAU)) @ replicate fullCircles FillPath
           else []) @
          pathArc e a pixelMargin offset spacing endAngle @ [FillPath], endAngle))"

definition drawFullCircleBorders :: "elem \<Rightarrow> real \<Rightarrow> nat \<Rightarrow> bool \<Rightarrow> cmd list" where
  "drawFullCircleBorders e pixelMargin fullCircles inner =
     (let p = (\<lambda>k. Fin (el_prop e k)); start = el_prop e ''startAngle'';
          outerRadius = math_max (p ''outerRadius'' - Fin pixelMargin) 0;
          innerRadius = p ''innerRadius'' + Fin pixelMargin
      in (if inner then clipArc e pixelMargin (Fin (start + TAU)) else []) @
         [BeginPath] @ arc_cmd (p ''x'') (p ''y'') innerRadius (Fin (start + TAU)) (Fin start) True @
         replicate fullCircles StrokePath @
         [BeginPath] @ arc_cmd (p ''x'') (p ''y'') outerRadius (Fin start) (Fin (start + TAU)) False @
         replicate fullCircles StrokePath)"

definition drawBorder :: "elem \<Rightarrow> arc_el \<Rightarrow> real \<Rightarrow> nat \<Rightarrow> jsnum \<Rightarrow> jsnum \<Rightarrow> jsnum \<Rightarrow> cmd list" where
  "drawBorder e a pixelMargin fullCircles offset spacing endAngle =
     (let inner = ae_inner a; join = (case ae_borderJoinStyle a of Some j \<Rightarrow> j | None \<Rightarrow> [])
      in if ae_borderWidth a = 0 then []
         else [SetLineWidth (if inner then ae_borderWidth a * 2 else ae_borderWidth a),
               SetLineJoin (if join \<noteq> [] then join else if inner then ''round'' else ''bevel'')] @
              (if fullCircles \<noteq> 0 then drawFullCircleBorders e pixelMargin fullCircles inner else []) @
              (if inner then clipArc e pixelMargin endAngle else []) @
              pathArc e a pixelMargin offset spacing endAngle @ [StrokePath])"

definition arc_draw :: "elem \<Rightarrow> arc_el \<Rightarrow> cmd list" where
  "arc_draw e a =
     (let offset = ae_offset a / 2; spacing = ae_spacing a / 2;
          pixelMargin = (if ae_inner a then 33 / 100 else 0);
          circumference = (if ae_circumferenceSet a then Some (el_prop e ''circumference'') else None);
          fullCircles = (case circumference of Some c \<Rightarrow> if TAU < c then nat \<lfloor>c / TAU\<rfloor> else 0 | None \<Rightarrow> 0)
      in if circumference = Some 0 \<or> el_prop e ''innerRadius'' < 0 \<or> el_prop e ''outerRadius'' < 0 then []
         else
           let halfAngle = (el_prop e ''startAngle'' + el_prop e ''endAngle'') / 2;
               wide = (case circumference of Some c \<Rightarrow> pi \<le> c | None \<Rightarrow> False);
               radiusOffset = (if offset \<noteq> 0 then (if wide then offset else offset / 2) else 0);
               (cmds, endAngle) = drawArc e a pixelMargin fullCircles (Fin radiusOffset) (Fin spacing)
           in [Save] @
              (if offset \<noteq> 0 then [Translate (cos halfAngle * (offset / 2)) (sin halfAngle * (offset / 2))] else []) @
              [SetFillStyle (ae_backgroundColor a), SetStrokeStyle (ae_borderColor a)] @ cmds @
              drawBorder e a pixelMargin fullCircles (Fin radiusOffset) (Fin spacing) endAngle @ [Restore])"

section \<open>The operations of elements\<close>

definition inRange :: "elem \<Rightarrow> real \<Rightarrow> real \<Rightarrow> bool \<Rightarrow> bool" where
  "inRange e x y final =
     (case el_shape e of
        Point p \<Rightarrow> point_inRange e p x y final
      | Bar b \<Rightarrow> bar_inRange e b (Some x) (Some y) final
      | Arc a \<Rightarrow> arc_inRange e a x y final)"

text \<open>Arcs have no \<open>inXRange\<close> and \<open>inYRange\<close>: calling them throws.\<close>

definition inAxisRange :: "elem \<Rightarrow> bool \<Rightarrow> real \<Rightarrow> bool \<Rightarrow> bool option" where
  "inAxisRange e isX v final =
     (case el_shape e of
        Point p \<Rightarrow> Some (inRange_axis e p v (if isX then ''x'' else ''y'') final)
      | Bar b \<Rightarrow> Some (if isX then bar_inRange e b (Some v) None final else bar_inRange e b None (Some v) final)
      | Arc a \<Rightarrow> None)"

definition getCenterPoint :: "elem \<Rightarrow> bool \<Rightarrow> real \<times> real" where
  "getCenterPoint e final =
     (let p = getProps e final
      in case el_shape e of
           Point _ \<Rightarrow> (p ''x'', p ''y'')
         | Bar b \<Rightarrow>
             (if be_horizontal b then (p ''x'' + p ''base'') / 2 else p ''x'',
              if be_horizontal b then p ''y'' else (p ''y'' + p ''base'') / 2)
         | Arc a \<Rightarrow> arc_center e a final)"

text \<open>\<open>None\<close>: the element has no method \<open>getRange\<close>.\<close>

definition getRange :: "elem \<Rightarrow> string \<Rightarrow> real option" where
  "getRange e axis =
     (case el_shape e of
        Point p \<Rightarrow> Some (pe_radius p + pe_hitRadius p)
      | Bar b \<Rightarrow> Some (if axis = ''x'' then el_prop e ''width'' / 2 else el_prop e ''height'' / 2)
      | Arc a \<Rightarrow> None)"

definition tooltipPosition :: "elem \<Rightarrow> bool \<Rightarrow> real \<times> real" where
  "tooltipPosition e final =
     (case el_shape e of
        Arc a \<Rightarrow> arc_center e a final
      | _ \<Rightarrow> (getProps e final ''x'', getProps e final ''y''))"

definition elem_draw :: "elem \<Rightarrow> rect_area option \<Rightarrow> cmd list" where
  "elem_draw e area =
     (case el_shape e of Point p \<Rightarrow> point_draw e p area | Bar b \<Rightarrow> bar_draw e b | Arc a \<Rightarrow> arc_draw e a)"

section \<open>Drawing: lemmas\<close>

lemma toTRBL_not_NaN: "side (toTRBL v) k \<noteq> NaN \<or> k \<notin> {''top'', ''right'', ''bottom'', ''left''}"
  by (auto simp: toTRBL_def readValueToPropsObj_def side_def numberOrZero_not_NaN)

lemma limitValue_bounds:
  assumes "v \<noteq> NaN" and "0 \<le> m"
  shows "\<exists>r. limitValue v 0 (Fin m) = Fin r \<and> 0 \<le> r \<and> r \<le> m"
  using assms by (cases v) (auto simp: limitValue_def math_max_def math_min_def)

lemma skipOrLimit_bounds:
  assumes "v \<noteq> NaN" and "0 \<le> m"
  shows "\<exists>r. skipOrLimit s v 0 (Fin m) = Fin r \<and> 0 \<le> r \<and> r \<le> m"
  using limitValue_bounds [OF assms] assms(2) by (auto simp: skipOrLimit_def)

definition corners_within :: "real \<Rightarrow> corners \<Rightarrow> bool" where
  "corners_within m c \<longleftrightarrow> (\<forall>f \<in> {co_topLeft, co_topRight, co_bottomLeft, co_bottomRight}. \<exists>r. f c = Fin r \<and> 0 \<le> r \<and> r \<le> m)"

lemma parseBorderWidth_bounds:
  assumes "0 \<le> w" and "0 \<le> h"
  shows "\<exists>t r b l. parseBorderWidth bar (Fin w) (Fin h) = \<lparr>bw_t = Fin t, bw_r = Fin r, bw_b = Fin b, bw_l = Fin l\<rparr> \<and>
    0 \<le> t \<and> t \<le> h \<and> 0 \<le> r \<and> r \<le> w \<and> 0 \<le> b \<and> b \<le> h \<and> 0 \<le> l \<and> l \<le> w"
proof -
  have n: "side (toTRBL (be_borderWidth bar)) k \<noteq> NaN" if "k \<in> {''top'', ''right'', ''bottom'', ''left''}" for k
    using toTRBL_not_NaN [of "be_borderWidth bar" k] that by blast
  obtain t r b l where "skipOrLimit (sk_top (be_skip bar)) (side (toTRBL (be_borderWidth bar)) ''top'') 0 (Fin h) = Fin t" "0 \<le> t" "t \<le> h"
    "skipOrLimit (sk_right (be_skip bar)) (side (toTRBL (be_borderWidth bar)) ''right'') 0 (Fin w) = Fin r" "0 \<le> r" "r \<le> w"
    "skipOrLimit (sk_bottom (be_skip bar)) (side (toTRBL (be_borderWidth bar)) ''bottom'') 0 (Fin h) = Fin b" "0 \<le> b" "b \<le> h"
    "skipOrLimit (sk_left (be_skip bar)) (side (toTRBL (be_borderWidth bar)) ''left'') 0 (Fin w) = Fin l" "0 \<le> l" "l \<le> w"
    using skipOrLimit_bounds [OF n assms(2)] skipOrLimit_bounds [OF n assms(1)] by (metis insertCI)
  then show ?thesis by (simp add: parseBorderWidth_def)
qed

lemma parseBorderRadius_bounds:
  assumes "0 \<le> w" and "0 \<le> h"
  shows "corners_within (min w h) (parseBorderRadius bar (Fin w) (Fin h))"
proof -
  have n: "side (toTRBLCorners (be_borderRadius bar)) k \<noteq> NaN" if "k \<in> {''topLeft'', ''topRight'', ''bottomLeft'', ''bottomRight''}" for k
    using that by (auto simp: toTRBLCorners_def readValueToProps_def side_def numberOrZero_not_NaN)
  have m: "0 \<le> min w h" using assms by simp
  have "\<exists>r. skipOrLimit s (side (toTRBLCorners (be_borderRadius bar)) k) 0 (Fin (min w h)) = Fin r \<and> 0 \<le> r \<and> r \<le> min w h"
    if "k \<in> {''topLeft'', ''topRight'', ''bottomLeft'', ''bottomRight''}" for s k
    using skipOrLimit_bounds [OF n [OF that] m] .
  moreover have "math_min (Fin w) (Fin h) = Fin (min w h)" by simp
  ultimately show ?thesis unfolding corners_within_def parseBorderRadius_def Let_def by simp
qed

text \<open>Corners of a rectangle: adjacent ones do not overlap.\<close>

definition corners_fit :: "real \<Rightarrow> real \<Rightarrow> corners \<Rightarrow> bool" where
  "corners_fit w h c \<longleftrightarrow>
     (\<exists>tl tr bl br. c = \<lparr>co_topLeft = Fin tl, co_topRight = Fin tr, co_bottomLeft = Fin bl, co_bottomRight = Fin br\<rparr> \<and>
       0 \<le> tl \<and> 0 \<le> tr \<and> 0 \<le> bl \<and> 0 \<le> br \<and> tl + tr \<le> w \<and> bl + br \<le> w \<and> tl + bl \<le> h \<and> tr + br \<le> h)"

text \<open>An element whose properties all have one value, for the examples.\<close>

definition plain_elem :: "shape \<Rightarrow> (string \<Rightarrow> real) \<Rightarrow> elem" where
  "plain_elem sh p = \<lparr>el_prop = p, el_anims = None, el_skip = False, el_shape = sh\<rparr>"

lemma getProps_plain [simp]: "getProps (plain_elem sh p) final = p"
  by (simp add: getProps_def plain_elem_def)

definition example_bar :: bar_el where
  "example_bar = \<lparr>be_horizontal = False, be_skip = \<lparr>sk_top = False, sk_right = False, sk_bottom = True, sk_left = False\<rparr>,
     be_enableBorderRadius = True, be_borderWidth = Num 2, be_borderRadius = Num 100, be_inflateAmount = 0,
     be_borderColor = ''red'', be_backgroundColor = ''blue''\<rparr>"

text \<open>
  C27 (the rectangles of a bar). Whatever borders and radii its options ask for, the rectangle inside the border of a bar lies within its
  outer rectangle, its sides are not negative, and in both rectangles adjacent rounded corners do not overlap.
\<close>

theorem bar_inner_rect:
  assumes "boundingRects e b = (outer, inner)" and "0 \<le> el_prop e (if be_horizontal b then ''height'' else ''width'')"
  shows "\<exists>ox oy ow oh ix iy iw ih.
    (br_x outer, br_y outer, br_w outer, br_h outer) = (Fin ox, Fin oy, Fin ow, Fin oh) \<and>
    (br_x inner, br_y inner, br_w inner, br_h inner) = (Fin ix, Fin iy, Fin iw, Fin ih) \<and>
    ox \<le> ix \<and> oy \<le> iy \<and> 0 \<le> iw \<and> 0 \<le> ih \<and> ix + iw \<le> ox + ow \<and> iy + ih \<le> oy + oh \<and>
    corners_fit ow oh (br_radius outer) \<and> corners_fit iw ih (br_radius inner)"
proof -
  let ?B = "getBarBounds e (be_horizontal b) False"
  define w where "w = ra_right ?B - ra_left ?B"
  define h where "h = ra_bottom ?B - ra_top ?B"
  have wh: "0 \<le> w" "0 \<le> h"
    using assms(2) by (auto simp: w_def h_def getBarBounds_def getProps_def Let_def min_def max_def split: option.splits)
  obtain t r bo l where bw: "parseBorderWidth b (Fin (w / 2)) (Fin (h / 2)) = \<lparr>bw_t = Fin t, bw_r = Fin r, bw_b = Fin bo, bw_l = Fin l\<rparr>"
    "0 \<le> t" "t \<le> h / 2" "0 \<le> r" "r \<le> w / 2" "0 \<le> bo" "bo \<le> h / 2" "0 \<le> l" "l \<le> w / 2"
    using parseBorderWidth_bounds [of "w / 2" "h / 2" b] wh by auto
  have "corners_within (min (w / 2) (h / 2)) (parseBorderRadius b (Fin (w / 2)) (Fin (h / 2)))"
    using parseBorderRadius_bounds [of "w / 2" "h / 2" b] wh by simp
  then obtain tl tr bl br where c: "parseBorderRadius b (Fin (w / 2)) (Fin (h / 2)) =
      \<lparr>co_topLeft = Fin tl, co_topRight = Fin tr, co_bottomLeft = Fin bl, co_bottomRight = Fin br\<rparr>"
    "0 \<le> tl" "tl \<le> w / 2" "tl \<le> h / 2" "0 \<le> tr" "tr \<le> w / 2" "tr \<le> h / 2"
    "0 \<le> bl" "bl \<le> w / 2" "bl \<le> h / 2" "0 \<le> br" "br \<le> w / 2" "br \<le> h / 2"
    unfolding corners_within_def by (cases "parseBorderRadius b (Fin (w / 2)) (Fin (h / 2))") auto
  have "corners_fit w h (parseBorderRadius b (Fin (w / 2)) (Fin (h / 2)))"
    using c by (simp add: corners_fit_def)
  moreover have "corners_fit (w - l - r) (h - t - bo)
      \<lparr>co_topLeft = Fin (max 0 (tl - max t l)), co_topRight = Fin (max 0 (tr - max t r)),
       co_bottomLeft = Fin (max 0 (bl - max bo l)), co_bottomRight = Fin (max 0 (br - max bo r))\<rparr>"
    unfolding corners_fit_def using bw(2-) c(2-) by simp (intro conjI; linarith)
  ultimately show ?thesis
    using assms(1) bw wh
    by (auto simp: boundingRects_def Let_def c(1) w_def [symmetric] h_def [symmetric])
qed

theorem bar_inner_rect_witness:
  "\<exists>outer inner iw ih. boundingRects (plain_elem (Bar example_bar) (\<lambda>k. if k = ''width'' then 10 else 5)) example_bar = (outer, inner) \<and>
     br_w inner = Fin iw \<and> br_h inner = Fin ih \<and> 0 \<le> iw \<and> corners_fit iw ih (br_radius inner)"
proof -
  let ?e = "plain_elem (Bar example_bar) (\<lambda>k. if k = ''width'' then 10 else 5)"
  obtain outer inner where r: "boundingRects ?e example_bar = (outer, inner)" by (cases "boundingRects ?e example_bar")
  have "0 \<le> el_prop ?e (if be_horizontal example_bar then ''height'' else ''width'')" by (simp add: plain_elem_def)
  from bar_inner_rect [OF r this] r show ?thesis by (auto simp: prod_eq_iff)
qed

section \<open>Angles: lemmas\<close>

lemma normalizeAngle_unique:
  assumes "a = b + of_int k * TAU" and "0 \<le> b" and "b < TAU"
  shows "normalizeAngle a = b"
proof -
  obtain l :: int where l: "normalizeAngle a = a + of_int l * TAU" using normalizeAngle_congruent by blast
  have "normalizeAngle a - b = of_int (k + l) * TAU" using l assms(1) by (simp add: algebra_simps)
  moreover have "\<bar>normalizeAngle a - b\<bar> < TAU" using normalizeAngle_range [of a] assms(2,3) by linarith
  ultimately have "\<bar>of_int (k + l) * TAU\<bar> < TAU" by simp
  then have "\<bar>of_int (k + l) :: real\<bar> * TAU < 1 * TAU" using TAU_pos by (simp add: abs_mult)
  then have "\<bar>of_int (k + l) :: real\<bar> < 1" using TAU_pos by (simp only: mult_less_cancel_right_pos)
  then have "k + l = 0" by linarith
  with \<open>normalizeAngle a - b = of_int (k + l) * TAU\<close> show ?thesis by simp
qed

lemma normalizeAngle_shift: "normalizeAngle (a + of_int k * TAU) = normalizeAngle a"
proof -
  obtain l :: int where "normalizeAngle a = a + of_int l * TAU" using normalizeAngle_congruent by blast
  then have "a + of_int k * TAU = normalizeAngle a + of_int (k - l) * TAU" by (simp add: algebra_simps)
  then show ?thesis using normalizeAngle_unique normalizeAngle_range [of a] by blast
qed

lemma normalizeAngle_diff: "normalizeAngle (normalizeAngle a - normalizeAngle b) = normalizeAngle (a - b)"
proof -
  obtain k l :: int where "normalizeAngle a = a + of_int k * TAU" "normalizeAngle b = b + of_int l * TAU"
    using normalizeAngle_congruent by blast
  then have "normalizeAngle a - normalizeAngle b = (a - b) + of_int (k - l) * TAU" by (simp add: algebra_simps)
  then show ?thesis by (simp only: normalizeAngle_shift)
qed

lemma normalizeAngle_small: "0 \<le> a \<Longrightarrow> a < TAU \<Longrightarrow> normalizeAngle a = a"
  using normalizeAngle_unique [of a a 0] by simp

lemma normalizeAngle_negative: "- TAU \<le> a \<Longrightarrow> a < 0 \<Longrightarrow> normalizeAngle a = a + TAU"
  using normalizeAngle_unique [of a "a + TAU" "- 1"] by simp

lemma normalizeAngle_eq_iff: "\<bar>a - b\<bar> < TAU \<Longrightarrow> normalizeAngle a = normalizeAngle b \<longleftrightarrow> a = b"
proof
  assume d: "\<bar>a - b\<bar> < TAU" and eq: "normalizeAngle a = normalizeAngle b"
  obtain k l :: int where "normalizeAngle a = a + of_int k * TAU" "normalizeAngle b = b + of_int l * TAU"
    using normalizeAngle_congruent by blast
  with eq have "a = b + of_int (l - k) * TAU" by (simp add: algebra_simps)
  with d have "normalizeAngle (a - b) = normalizeAngle 0" using normalizeAngle_shift [of 0 "l - k"] by simp
  then have z: "normalizeAngle (a - b) = 0" using normalizeAngle_small [of 0] by simp
  show "a = b"
  proof (cases "0 \<le> a - b")
    case True
    then show ?thesis using z d normalizeAngle_small [of "a - b"] by simp
  next
    case False
    then show ?thesis using z d normalizeAngle_negative [of "a - b"] by simp
  qed
qed simp

lemma angleBetween_iff:
  assumes "s \<le> e" and "e < s + TAU" and "s \<le> t" and "t < s + TAU"
  shows "angleBetween (t + of_int k * TAU) s e False \<longleftrightarrow> t \<le> e"
proof (cases "t = s \<or> t = e")
  case True
  then show ?thesis using assms by (auto simp: angleBetween_def Let_def normalizeAngle_shift)
next
  case False
  then have ne: "normalizeAngle t \<noteq> normalizeAngle s" "normalizeAngle t \<noteq> normalizeAngle e"
    using normalizeAngle_eq_iff [of t s] normalizeAngle_eq_iff [of t e] assms by auto
  have 1: "normalizeAngle (s - t) = s - t + TAU" "normalizeAngle (t - s) = t - s"
    using False assms normalizeAngle_negative [of "s - t"] normalizeAngle_small [of "t - s"] by auto
  show ?thesis
  proof (cases "t \<le> e")
    case True
    then have "normalizeAngle (e - t) = e - t" "normalizeAngle (t - e) = t - e + TAU"
      using False assms normalizeAngle_small [of "e - t"] normalizeAngle_negative [of "t - e"] by auto
    with 1 True assms(2) show ?thesis
      by (simp add: angleBetween_def Let_def normalizeAngle_shift normalizeAngle_diff)
  next
    case False
    then have "normalizeAngle (t - e) = t - e" using assms normalizeAngle_small [of "t - e"] by auto
    with 1 False ne assms(1) show ?thesis
      by (simp add: angleBetween_def Let_def normalizeAngle_shift normalizeAngle_diff)
  qed
qed

lemma atan2_polar:
  assumes "0 < R"
  shows "\<exists>k :: int. atan2 (R * sin t) (R * cos t) = t + of_int k * TAU"
proof -
  let ?a = "atan2 (R * sin t) (R * cos t)"
  have q: "1 / sqrt (1 + (sin t / cos t) ^ 2) = \<bar>cos t\<bar>" if "cos t \<noteq> 0"
  proof -
    have "1 + (sin t / cos t) ^ 2 = 1 / (cos t) ^ 2"
      using that sin_cos_squared_add [of t] by (simp add: power_divide field_simps)
    then show ?thesis by (simp add: real_sqrt_divide)
  qed
  have "cos ?a = cos t \<and> sin ?a = sin t"
  proof (cases "cos t = 0")
    case True
    then have "sin t = 1 \<or> sin t = - 1" using sin_cos_squared_add [of t] by (simp add: power2_eq_1_iff)
    then show ?thesis using True assms by (auto simp: atan2_def)
  next
    case False
    have c: "cos (arctan (sin t / cos t)) = \<bar>cos t\<bar>" using q [OF False] by (simp add: cos_arctan)
    have "sin (arctan (sin t / cos t)) = (sin t / cos t) * (1 / sqrt (1 + (sin t / cos t) ^ 2))" by (simp add: sin_arctan)
    then have s: "sin (arctan (sin t / cos t)) = sin t * (\<bar>cos t\<bar> / cos t)" using q [OF False] by simp
    have r: "R * sin t / (R * cos t) = sin t / cos t" using assms by simp
    show ?thesis
    proof (cases "0 < cos t")
      case True
      then show ?thesis using assms c s r by (simp add: atan2_def)
    next
      case neg: False
      then have "cos t < 0" using False by simp
      moreover from this have "R * cos t < 0" using assms by (simp add: mult_pos_neg)
      ultimately show ?thesis using c s r by (auto simp: atan2_def)
    qed
  qed
  then obtain n :: int where "?a = t + 2 * pi * of_int n" using sin_cos_eq_iff by metis
  then show ?thesis by (intro exI [of _ n]) (simp add: TAU_def algebra_simps)
qed

lemma getAngleFromPoint_polar:
  assumes "0 < R"
  shows "\<exists>k :: int. getAngleFromPoint (x, y) (x + cos t * R, y + sin t * R) = (t + of_int k * TAU, R)"
proof -
  obtain k :: int where k: "atan2 (R * sin t) (R * cos t) = t + of_int k * TAU" using atan2_polar [OF assms] by blast
  have "cos t * R * (cos t * R) + sin t * R * (sin t * R) = R * R * ((sin t) ^ 2 + (cos t) ^ 2)" by algebra
  then have d: "sqrt (cos t * R * (cos t * R) + sin t * R * (sin t * R)) = R" using assms by simp
  have "getAngleFromPoint (x, y) (x + cos t * R, y + sin t * R) =
      (if t + of_int k * TAU < - (pi / 2) then t + of_int (k + 1) * TAU else t + of_int k * TAU, R)"
    using k d by (simp add: getAngleFromPoint_def Let_def mult.commute algebra_simps)
  then show ?thesis by (metis)
qed

text \<open>
  The positions of an arc. A position given by an angle from the start of an arc and a distance from its centre is in range exactly when the
  angle does not pass the end and the distance is between the radii, moved by half the spacing.
\<close>

theorem arc_hit_exact:
  assumes "s = getProps e final ''startAngle''" and "f = getProps e final ''endAngle''" and "s \<le> f" and "f < s + TAU"
    and "\<not> ae_circumferenceSet a" and "s \<le> t" and "t < s + TAU" and "0 < R"
  shows "arc_inRange e a (getProps e final ''x'' + cos t * R) (getProps e final ''y'' + sin t * R) final \<longleftrightarrow>
    t \<le> f \<and> isBetween R (getProps e final ''innerRadius'' + ae_spacing a / 2)
      (getProps e final ''outerRadius'' + ae_spacing a / 2) (1 / 1000000)"
proof -
  obtain k :: int where k: "getAngleFromPoint (getProps e final ''x'', getProps e final ''y'')
      (getProps e final ''x'' + cos t * R, getProps e final ''y'' + sin t * R) = (t + of_int k * TAU, R)"
    using getAngleFromPoint_polar [OF assms(8)] by blast
  have "angleBetween (t + of_int k * TAU) s f False \<longleftrightarrow> t \<le> f"
    using angleBetween_iff [OF assms(3,4,6,7)] .
  then show ?thesis using k assms(1-5) by (auto simp: arc_inRange_def Let_def)
qed

theorem arc_hit_exact_witness:
  "\<exists>a. arc_inRange (plain_elem (Arc a) (\<lambda>k. if k = ''endAngle'' then 2 else if k = ''outerRadius'' then 9 else 0)) a
      (0 + cos 1 * 4) (0 + sin 1 * 4) False \<and>
    \<not> arc_inRange (plain_elem (Arc a) (\<lambda>k. if k = ''endAngle'' then 2 else if k = ''outerRadius'' then 9 else 0)) a
      (0 + cos 3 * 4) (0 + sin 3 * 4) False"
proof -
  let ?a = "\<lparr>ae_circumferenceSet = False, ae_offset = 0, ae_spacing = 0, ae_borderRadius = Num 0, ae_borderWidth = 2,
    ae_inner = False, ae_borderJoinStyle = None, ae_borderColor = ''red'', ae_backgroundColor = ''blue''\<rparr>"
  let ?e = "plain_elem (Arc ?a) (\<lambda>k. if k = ''endAngle'' then 2 else if k = ''outerRadius'' then 9 else 0)"
  have T: "4 \<le> TAU" using pi_ge_two by (simp add: TAU_def)
  show ?thesis
    using arc_hit_exact [of 0 ?e False 2 ?a 1 4] arc_hit_exact [of 0 ?e False 2 ?a 3 4] T
    by (intro exI [of _ ?a]) (simp add: getProps_plain isBetween_def)
qed

lemma flat_arc: "list_all flat (arc_cmd x y r a b ccw)" by (simp add: arc_cmd_def flat_def)
lemma flat_line: "list_all flat (line_cmd p)" by (simp add: line_cmd_def flat_def)

lemma flat_pathArc: "list_all flat (pathArc e a m off sp f)"
  unfolding pathArc_def Let_def by (simp add: flat_arc flat_line split_beta flat_def)

lemma flat_clipArc: "list_all flat (clipArc e m f)"
  unfolding clipArc_def Let_def by (simp add: flat_arc) (simp add: flat_def)

lemma flat_replicate: "flat c \<Longrightarrow> list_all flat (replicate n c)"
  by (induction n) auto

lemma flat_drawArc: "list_all flat (fst (drawArc e a m n off sp))"
  unfolding drawArc_def Let_def by (simp add: flat_pathArc flat_replicate flat_def)

lemma flat_drawBorder: "list_all flat (drawBorder e a m n off sp f)"
  unfolding drawBorder_def drawFullCircleBorders_def Let_def
  by (auto simp: flat_pathArc flat_clipArc flat_arc) (auto simp: flat_def intro: flat_replicate)

lemma drawPoint_depth: "depth d (drawPoint opts x y @ cs) = depth d cs"
proof -
  have "list_all flat (point_path style rad rotated radius x y)" for style rad rotated radius
    by (simp add: point_path_def rounded_rect_def rect_rot_def cross_lines_def Let_def flat_def)
  then have "depth d (point_path style rad rotated radius x y @ ds) = depth d ds" for style rad rotated radius ds
    by (rule depth_flat)
  then show ?thesis by (simp add: drawPoint_def Let_def split: option.splits point_style.splits)
qed

lemma flat_addRectPath: "list_all flat (addRectPath b r)"
  by (simp add: addRectPath_def addRoundedRectPath_def Let_def flat_def)


text \<open>
  Drawing an element. Whatever the shape of an element and its options, drawing it restores every canvas state that it saves.
\<close>

theorem elem_draw_balanced: "depth d (elem_draw e area @ cs) = depth d cs"
proof (cases "el_shape e")
  case (Point p)
  then show ?thesis by (simp add: elem_draw_def point_draw_def Let_def drawPoint_depth)
next
  case (Bar b)
  note f = depth_flat [OF flat_addRectPath]
  show ?thesis by (simp add: elem_draw_def Bar bar_draw_def Let_def split_beta f)
next
  case (Arc a)
  note f = depth_flat [OF flat_drawArc] depth_flat [OF flat_drawBorder]
  show ?thesis by (simp add: elem_draw_def Arc arc_draw_def Let_def split_beta f)
qed

end
