(* ===== verification/Interaction.thy ===== *)
theory Interaction
  imports Elements Collections
begin

text \<open>
  Finding the elements at a position (\<^verbatim>\<open>chart.js\<close>, \<open>evaluateAllVisibleItems\<close> to the
  object \<open>Interaction\<close>). The items of a dataset are searched by bisection when they are in the order of
  the axis.

  The position of the event in the chart is given; it is computed from the browser's event. A handler is called with an element, its
  dataset and its index; the calls are represented by the list of these items.
\<close>

section \<open>Items\<close>

text \<open>The visible datasets in drawing order; the axis is that of the index scale, if there is one.\<close>

record metaset =
  ms_index :: nat
  ms_data :: "elem list"
  ms_sorted :: bool
  ms_iAxis :: "string option"
  ms_reversePixels :: bool
  ms_shared :: bool

record view =
  cv_metasets :: "metaset list"
  cv_chartArea :: "rect_area option"
  cv_minPadding :: "real option"

record hit_item =
  im_element :: elem
  im_dataset :: nat
  im_index :: nat

text \<open>The items of a dataset with indices from \<open>lo\<close> to \<open>hi\<close> that are not skipped.\<close>

definition items_between :: "metaset \<Rightarrow> int \<Rightarrow> int \<Rightarrow> hit_item list" where
  "items_between m lo hi =
     map (\<lambda>j. \<lparr>im_element = ms_data m ! nat j, im_dataset = ms_index m, im_index = nat j\<rparr>)
       (filter (\<lambda>j. \<not> el_skip (ms_data m ! nat j)) [lo .. hi])"

definition evaluateAllVisibleItems :: "view \<Rightarrow> hit_item list" where
  "evaluateAllVisibleItems c = concat (map (\<lambda>m. items_between m 0 (int (length (ms_data m)) - 1)) (cv_metasets c))"

definition binarySearch :: "metaset \<Rightarrow> string \<Rightarrow> real \<Rightarrow> bool \<Rightarrow> int \<times> int" where
  "binarySearch m axis v intersect =
     (let whole = (0, int (length (ms_data m)) - 1);
          lookup = (if ms_reversePixels m then rlookupByKey else lookupByKey) (ms_data m) (\<lambda>e. el_prop e axis)
      in if ms_iAxis m = Some axis \<and> axis \<noteq> ''r'' \<and> ms_sorted m \<and> ms_data m \<noteq> [] then
           if \<not> intersect then lookup v
           else if ms_shared m then
             (case getRange (hd (ms_data m)) axis of
                Some r \<Rightarrow> if r \<noteq> 0 then (fst (lookup (v - r)), snd (lookup (v + r))) else whole
              | None \<Rightarrow> whole)
           else whole
         else whole)"

definition coord :: "string \<Rightarrow> real \<times> real \<Rightarrow> real" where
  "coord axis position = (if axis = ''x'' then fst position else snd position)"

definition optimizedEvaluateItems :: "view \<Rightarrow> string \<Rightarrow> real \<times> real \<Rightarrow> bool \<Rightarrow> hit_item list" where
  "optimizedEvaluateItems c axis position intersect =
     concat (map (\<lambda>m. case binarySearch m axis (coord axis position) intersect of (lo, hi) \<Rightarrow> items_between m lo hi)
       (cv_metasets c))"

definition getDistanceMetricForAxis :: "string \<Rightarrow> real \<times> real \<Rightarrow> real \<times> real \<Rightarrow> real" where
  "getDistanceMetricForAxis axis pt1 pt2 =
     (let deltaX = (if CHR ''x'' \<in> set axis then \<bar>fst pt1 - fst pt2\<bar> else 0);
          deltaY = (if CHR ''y'' \<in> set axis then \<bar>snd pt1 - snd pt2\<bar> else 0)
      in sqrt (deltaX ^ 2 + deltaY ^ 2))"

definition in_view :: "view \<Rightarrow> real \<times> real \<Rightarrow> bool" where
  "in_view c p = isPointInArea (Some p) (cv_chartArea c) (cv_minPadding c)"

section \<open>Searches\<close>

definition getIntersectItems :: "view \<Rightarrow> real \<times> real \<Rightarrow> string \<Rightarrow> bool \<Rightarrow> hit_item list" where
  "getIntersectItems c position axis final =
     (if \<not> in_view c position then []
      else filter (\<lambda>it. inRange (im_element it) (fst position) (snd position) final)
             (optimizedEvaluateItems c axis position True))"

text \<open>Elements on a radial axis are arcs or have their angles among their properties.\<close>

definition getNearestRadialItems :: "view \<Rightarrow> real \<times> real \<Rightarrow> string \<Rightarrow> bool \<Rightarrow> hit_item list" where
  "getNearestRadialItems c position axis final =
     filter (\<lambda>it.
         let p = getProps (im_element it) final; e = im_element it;
             (angle, distance) = getAngleFromPoint (el_prop e ''x'', el_prop e ''y'') position
         in angleBetween angle (p ''startAngle'') (p ''endAngle'') False)
       (optimizedEvaluateItems c axis position False)"

text \<open>One call of the handler that keeps the nearest items and their distance.\<close>

definition nearest_step :: "view \<Rightarrow> real \<times> real \<Rightarrow> string \<Rightarrow> bool \<Rightarrow> bool \<Rightarrow> hit_item \<Rightarrow> hit_item list \<times> jsnum \<Rightarrow> hit_item list \<times> jsnum" where
  "nearest_step c position axis intersect final it st =
     (let hit = inRange (im_element it) (fst position) (snd position) final;
          center = getCenterPoint (im_element it) final;
          distance = Fin (getDistanceMetricForAxis axis position center)
      in if intersect \<and> \<not> hit then st
         else if \<not> in_view c center \<and> \<not> hit then st
         else if distance < snd st then ([it], distance)
         else if distance = snd st then (fst st @ [it], snd st)
         else st)"

definition getNearestCartesianItems :: "view \<Rightarrow> real \<times> real \<Rightarrow> string \<Rightarrow> bool \<Rightarrow> bool \<Rightarrow> hit_item list" where
  "getNearestCartesianItems c position axis intersect final =
     fst (fold (nearest_step c position axis intersect final) (optimizedEvaluateItems c axis position False) ([], PInf))"

definition getNearestItems :: "view \<Rightarrow> real \<times> real \<Rightarrow> string \<Rightarrow> bool \<Rightarrow> bool \<Rightarrow> hit_item list" where
  "getNearestItems c position axis intersect final =
     (if \<not> in_view c position then []
      else if axis = ''r'' \<and> \<not> intersect then getNearestRadialItems c position axis final
      else getNearestCartesianItems c position axis intersect final)"

text \<open>An arc among the items makes the call throw: the result is \<open>None\<close>.\<close>

definition getAxisItems :: "view \<Rightarrow> real \<times> real \<Rightarrow> string \<Rightarrow> bool \<Rightarrow> bool \<Rightarrow> hit_item list option" where
  "getAxisItems c position axis intersect final =
     (let its = evaluateAllVisibleItems c;
          test = (\<lambda>it. inAxisRange (im_element it) (axis = ''x'') (coord axis position) final)
      in if list_ex (\<lambda>it. test it = None) its then None
         else
           let intersectsItem = list_ex (\<lambda>it. inRange (im_element it) (fst position) (snd position) final) its
           in if intersect \<and> \<not> intersectsItem then Some []
              else Some (filter (\<lambda>it. test it = Some True) its))"

section \<open>Modes\<close>

text \<open>The options of an interaction; a missing axis is \<open>None\<close>.\<close>

record interaction =
  io_axis :: "string option"
  io_intersect :: bool

definition axis_or :: "string \<Rightarrow> interaction \<Rightarrow> string" where
  "axis_or d opts = (case io_axis opts of Some a \<Rightarrow> if a \<noteq> [] then a else d | None \<Rightarrow> d)"

definition items_at :: "view \<Rightarrow> real \<times> real \<Rightarrow> string \<Rightarrow> interaction \<Rightarrow> bool \<Rightarrow> hit_item list" where
  "items_at c position axis opts final =
     (if io_intersect opts then getIntersectItems c position axis final
      else getNearestItems c position axis False final)"

definition index_mode :: "view \<Rightarrow> real \<times> real \<Rightarrow> interaction \<Rightarrow> bool \<Rightarrow> hit_item list" where
  "index_mode c position opts final =
     (case items_at c position (axis_or ''x'' opts) opts final of
        [] \<Rightarrow> []
      | it # _ \<Rightarrow>
          concat (map (\<lambda>m.
              if im_index it < length (ms_data m) \<and> \<not> el_skip (ms_data m ! im_index it)
              then [\<lparr>im_element = ms_data m ! im_index it, im_dataset = ms_index m, im_index = im_index it\<rparr>]
              else [])
            (cv_metasets c)))"

definition dataset_mode :: "view \<Rightarrow> real \<times> real \<Rightarrow> interaction \<Rightarrow> bool \<Rightarrow> hit_item list" where
  "dataset_mode c position opts final =
     (case items_at c position (axis_or ''xy'' opts) opts final of
        [] \<Rightarrow> []
      | it # _ \<Rightarrow>
          (case find (\<lambda>m. ms_index m = im_dataset it) (cv_metasets c) of
             None \<Rightarrow> []
           | Some m \<Rightarrow>
               map (\<lambda>i. \<lparr>im_element = ms_data m ! i, im_dataset = im_dataset it, im_index = i\<rparr>)
                 [0 ..< length (ms_data m)]))"

definition point_mode :: "view \<Rightarrow> real \<times> real \<Rightarrow> interaction \<Rightarrow> bool \<Rightarrow> hit_item list" where
  "point_mode c position opts final = getIntersectItems c position (axis_or ''xy'' opts) final"

definition nearest_mode :: "view \<Rightarrow> real \<times> real \<Rightarrow> interaction \<Rightarrow> bool \<Rightarrow> hit_item list" where
  "nearest_mode c position opts final =
     getNearestItems c position (axis_or ''xy'' opts) (io_intersect opts) final"

definition x_mode :: "view \<Rightarrow> real \<times> real \<Rightarrow> interaction \<Rightarrow> bool \<Rightarrow> hit_item list option" where
  "x_mode c position opts final = getAxisItems c position ''x'' (io_intersect opts) final"

definition y_mode :: "view \<Rightarrow> real \<times> real \<Rightarrow> interaction \<Rightarrow> bool \<Rightarrow> hit_item list option" where
  "y_mode c position opts final = getAxisItems c position ''y'' (io_intersect opts) final"

section \<open>Bisection: lemmas\<close>

lemma lookup_loop_ends:
  "lo0 \<le> hi0 \<Longrightarrow> lookup_loop cmp lo0 hi0 = (lo, hi) \<Longrightarrow>
   lo0 \<le> lo \<and> lo \<le> hi \<and> hi \<le> hi0 \<and> hi \<le> lo + 1 \<and> (lo = lo0 \<or> cmp lo) \<and> (hi = hi0 \<or> \<not> cmp hi)"
proof (induction cmp lo0 hi0 rule: lookup_loop.induct)
  case (1 cmp lo0 hi0)
  show ?case
  proof (cases "hi0 - lo0 > 1")
    case True
    let ?mid = "(lo0 + hi0) div 2"
    have m: "lo0 \<le> ?mid" "?mid \<le> hi0" using True by auto
    show ?thesis
    proof (cases "cmp ?mid")
      case c: True
      then have "lookup_loop cmp ?mid hi0 = (lo, hi)" using 1(4) True by (subst (asm) lookup_loop.simps) (simp add: Let_def)
      from 1(1) [OF True refl c m(2) this] m c show ?thesis by auto
    next
      case c: False
      then have "lookup_loop cmp lo0 ?mid = (lo, hi)" using 1(4) True by (subst (asm) lookup_loop.simps) (simp add: Let_def)
      from 1(2) [OF True refl c m(1) this] m c show ?thesis by auto
    qed
  next
    case False
    then show ?thesis using 1(3,4) by (subst (asm) lookup_loop.simps) auto
  qed
qed

text \<open>
  The elements of a dataset are in the order of the axis: strictly or not, upwards or, with the pixels of the
  scale reversed, downwards.
\<close>

definition in_axis_order :: "bool \<Rightarrow> string \<Rightarrow> metaset \<Rightarrow> bool" where
  "in_axis_order strict axis m \<longleftrightarrow>
     (let keys = map (\<lambda>e. el_prop e axis) (ms_data m); ks = (if ms_reversePixels m then rev keys else keys)
      in sorted_wrt (if strict then (<) else (\<le>)) ks)"

definition lookup_of :: "metaset \<Rightarrow> string \<Rightarrow> real \<Rightarrow> int \<times> int" where
  "lookup_of m axis v = (if ms_reversePixels m then rlookupByKey else lookupByKey) (ms_data m) (\<lambda>e. el_prop e axis) v"

lemma lookup_of_ends:
  assumes "lookup_of m axis v = (lo, hi)" and "ms_data m \<noteq> []"
  defines "key \<equiv> \<lambda>i. el_prop (ms_data m ! nat i) axis"
  shows "0 \<le> lo \<and> lo \<le> hi \<and> hi < int (length (ms_data m)) \<and>
    (lo = 0 \<or> (if ms_reversePixels m then v \<le> key lo else key lo < v)) \<and>
    (hi = int (length (ms_data m)) - 1 \<or> (if ms_reversePixels m then key hi < v else v \<le> key hi))"
proof -
  have "0 \<le> int (length (ms_data m)) - 1" using assms(2) by (cases "ms_data m") auto
  from lookup_loop_ends [OF this] assms(1) show ?thesis
    by (fastforce simp: lookup_of_def lookupByKey_def rlookupByKey_def lookup_with_def key_def not_less not_le split: if_splits)
qed

lemma in_axis_order_nth:
  assumes "in_axis_order strict axis m" and "i < j" and "j < length (ms_data m)"
  shows "(if ms_reversePixels m then el_prop (ms_data m ! j) axis else el_prop (ms_data m ! i) axis) \<le>
      (if ms_reversePixels m then el_prop (ms_data m ! i) axis else el_prop (ms_data m ! j) axis)"
    and "strict \<Longrightarrow> (if ms_reversePixels m then el_prop (ms_data m ! j) axis else el_prop (ms_data m ! i) axis) <
      (if ms_reversePixels m then el_prop (ms_data m ! i) axis else el_prop (ms_data m ! j) axis)"
proof -
  let ?R = "if strict then (<) else (\<le>) :: real \<Rightarrow> real \<Rightarrow> bool"
  have "?R (if ms_reversePixels m then el_prop (ms_data m ! j) axis else el_prop (ms_data m ! i) axis)
      (if ms_reversePixels m then el_prop (ms_data m ! i) axis else el_prop (ms_data m ! j) axis)"
  proof (cases "ms_reversePixels m")
    case True
    then have s: "sorted_wrt ?R (rev (map (\<lambda>e. el_prop e axis) (ms_data m)))"
      using assms(1) by (simp add: in_axis_order_def Let_def)
    then have "sorted_wrt (\<lambda>x y. ?R y x) (map (\<lambda>e. el_prop e axis) (ms_data m))" by (simp only: sorted_wrt_rev)
    then show ?thesis using assms(2,3) True by (simp add: sorted_wrt_map sorted_wrt_iff_nth_less)
  next
    case False
    then have "sorted_wrt ?R (map (\<lambda>e. el_prop e axis) (ms_data m))" using assms(1) by (simp add: in_axis_order_def Let_def)
    then show ?thesis using assms(2,3) False by (simp add: sorted_wrt_map sorted_wrt_iff_nth_less)
  qed
  then show "(if ms_reversePixels m then el_prop (ms_data m ! j) axis else el_prop (ms_data m ! i) axis) \<le>
      (if ms_reversePixels m then el_prop (ms_data m ! i) axis else el_prop (ms_data m ! j) axis)"
    and "strict \<Longrightarrow> (if ms_reversePixels m then el_prop (ms_data m ! j) axis else el_prop (ms_data m ! i) axis) <
      (if ms_reversePixels m then el_prop (ms_data m ! i) axis else el_prop (ms_data m ! j) axis)"
    by (auto split: if_splits)
qed

lemma filter_upto_sub:
  assumes "0 \<le> lo" and "hi < n" and "\<And>j. 0 \<le> j \<Longrightarrow> j < n \<Longrightarrow> Q j \<Longrightarrow> lo \<le> j \<and> j \<le> hi"
  shows "filter Q [0 .. n - 1] = filter Q [lo .. hi]"
proof (rule sorted_distinct_set_unique)
  show "set (filter Q [0 .. n - 1]) = set (filter Q [lo .. hi])" using assms by auto
qed (auto intro: sorted_wrt_filter)

lemma items_between_filter:
  assumes "0 \<le> lo" and "hi < int (length (ms_data m))"
    and "\<And>j. j < length (ms_data m) \<Longrightarrow> \<not> el_skip (ms_data m ! j) \<Longrightarrow>
      P \<lparr>im_element = ms_data m ! j, im_dataset = ms_index m, im_index = j\<rparr> \<Longrightarrow> lo \<le> int j \<and> int j \<le> hi"
  shows "filter P (items_between m lo hi) = filter P (items_between m 0 (int (length (ms_data m)) - 1))"
proof -
  let ?it = "\<lambda>j. \<lparr>im_element = ms_data m ! nat j, im_dataset = ms_index m, im_index = nat j\<rparr>"
  let ?Q = "\<lambda>j. \<not> el_skip (ms_data m ! nat j) \<and> P (?it j)"
  have "filter ?Q [0 .. int (length (ms_data m)) - 1] = filter ?Q [lo .. hi]"
  proof (rule filter_upto_sub)
    fix j :: int
    assume "0 \<le> j" "j < int (length (ms_data m))" "?Q j"
    with assms(3) [of "nat j"] show "lo \<le> j \<and> j \<le> hi" by simp
  qed (rule assms)+
  then show ?thesis by (simp add: items_between_def filter_map comp_def conj_commute)
qed

section \<open>Intersecting elements: lemmas\<close>




lemma binarySearch_whole:
  assumes "\<not> (ms_iAxis m = Some axis \<and> ms_sorted m \<and> ms_data m \<noteq> [] \<and> (intersect \<longrightarrow> ms_shared m))"
  shows "binarySearch m axis v intersect = (0, int (length (ms_data m)) - 1)"
proof (cases "ms_iAxis m = Some axis \<and> axis \<noteq> ''r'' \<and> ms_sorted m \<and> ms_data m \<noteq> []")
  case True
  then have "intersect" "\<not> ms_shared m" using assms by blast+
  then show ?thesis using True by (simp add: binarySearch_def Let_def)
next
  case False
  then show ?thesis unfolding binarySearch_def Let_def by (simp only: if_False)
qed



section \<open>Nearest elements: lemmas\<close>

definition counted :: "view \<Rightarrow> real \<times> real \<Rightarrow> bool \<Rightarrow> bool \<Rightarrow> hit_item \<Rightarrow> bool" where
  "counted c pos intersect final it \<longleftrightarrow>
     (let hit = inRange (im_element it) (fst pos) (snd pos) final
      in \<not> (intersect \<and> \<not> hit) \<and> \<not> (\<not> in_view c (getCenterPoint (im_element it) final) \<and> \<not> hit))"

definition item_distance :: "real \<times> real \<Rightarrow> string \<Rightarrow> bool \<Rightarrow> hit_item \<Rightarrow> real" where
  "item_distance pos axis final it = getDistanceMetricForAxis axis pos (getCenterPoint (im_element it) final)"

text \<open>The items at the least distance.\<close>

definition least_by :: "('a \<Rightarrow> real) \<Rightarrow> 'a list \<Rightarrow> 'a list" where
  "least_by d xs = filter (\<lambda>x. \<forall>y \<in> set xs. d x \<le> d y) xs"

lemma least_by_snoc:
  "least_by d (xs @ [x]) =
     (if \<exists>y \<in> set xs. d y < d x then least_by d xs
      else if \<forall>y \<in> set xs. d x < d y then [x] else least_by d xs @ [x])"
proof -
  consider (more) "\<exists>y \<in> set xs. d y < d x" | (less) "\<forall>y \<in> set xs. d x < d y" | (same) "\<forall>y \<in> set xs. d x \<le> d y" "\<exists>y \<in> set xs. d x = d y"
    by force
  then show ?thesis
  proof cases
    case more
    then obtain y where y: "y \<in> set xs" "d y < d x" by blast
    have "filter (\<lambda>u. d u \<le> d x \<and> (\<forall>v \<in> set xs. d u \<le> d v)) xs = filter (\<lambda>u. \<forall>v \<in> set xs. d u \<le> d v) xs"
      using y by (intro filter_cong) force+
    moreover have "\<not> (\<forall>v \<in> set xs. d x \<le> d v)" using y by force
    ultimately show ?thesis using more by (simp add: least_by_def conj_commute)
  next
    case less
    then have "filter (\<lambda>u. d u \<le> d x \<and> (\<forall>v \<in> set xs. d u \<le> d v)) xs = []" by (force simp: filter_empty_conv)
    moreover have "\<forall>v \<in> set xs. d x \<le> d v" "\<not> (\<exists>y \<in> set xs. d y < d x)" using less by force+
    ultimately show ?thesis using less by (simp add: least_by_def)
  next
    case same
    then obtain y where y: "y \<in> set xs" "d x = d y" by blast
    have "filter (\<lambda>u. d u \<le> d x \<and> (\<forall>v \<in> set xs. d u \<le> d v)) xs = filter (\<lambda>u. \<forall>v \<in> set xs. d u \<le> d v) xs"
      using y by (intro filter_cong) force+
    moreover have "\<not> (\<exists>y \<in> set xs. d y < d x)" "\<not> (\<forall>y \<in> set xs. d x < d y)" using same by force+
    ultimately show ?thesis using same(1) by (auto simp: least_by_def)
  qed
qed

lemma fold_nearest:
  assumes d_def: "d = item_distance pos axis final"
  shows "fst (fold (nearest_step c pos axis intersect final) its ([], PInf)) = least_by d (filter (counted c pos intersect final) its) \<and>
    (snd (fold (nearest_step c pos axis intersect final) its ([], PInf)) =
      (if filter (counted c pos intersect final) its = [] then PInf
       else Fin (Min (d ` set (filter (counted c pos intersect final) its)))))"
proof (induction its rule: rev_induct)
  case Nil
  then show ?case by (simp add: least_by_def)
next
  case (snoc it its)
  let ?xs = "filter (counted c pos intersect final) its"
  let ?st = "fold (nearest_step c pos axis intersect final) its ([], PInf)"
  show ?case
  proof (cases "counted c pos intersect final it")
    case False
    then have "nearest_step c pos axis intersect final it ?st = ?st"
      by (auto simp: nearest_step_def counted_def Let_def)
    with snoc False show ?thesis by simp
  next
    case True
    then have step: "nearest_step c pos axis intersect final it ?st =
        (if Fin (d it) < snd ?st then ([it], Fin (d it))
         else if Fin (d it) = snd ?st then (fst ?st @ [it], snd ?st) else ?st)"
      by (auto simp: nearest_step_def counted_def Let_def d_def item_distance_def)
    show ?thesis
    proof (cases "?xs = []")
      case True
      with snoc step \<open>counted c pos intersect final it\<close> show ?thesis by (simp add: least_by_def)
    next
      case ne: False
      define m where "m = Min (d ` set ?xs)"
      have st: "fst ?st = least_by d ?xs" "snd ?st = Fin m" using snoc ne by (simp_all add: m_def)
      have m1: "\<forall>y \<in> set ?xs. m \<le> d y" by (simp add: m_def)
      have "m \<in> d ` set ?xs" unfolding m_def using ne by (intro Min_in) (simp_all only: finite_imageI finite_set image_is_empty set_empty, simp)
      then obtain z where z: "z \<in> set ?xs" "d z = m" by blast
      have a: "(\<exists>y \<in> set ?xs. d y < d it) \<longleftrightarrow> m < d it" using m1 z by force
      have b: "(\<forall>y \<in> set ?xs. d it < d y) \<longleftrightarrow> d it < m" using m1 z by force
      have mn: "Min (d ` set (?xs @ [it])) = min (d it) m"
      proof -
        have "d ` set ?xs \<noteq> {}" using ne by (simp only: image_is_empty set_empty simp_thms)
        then show ?thesis unfolding m_def set_append list.set image_Un image_insert image_empty Un_insert_right Un_empty_right
          by (intro Min_insert) simp_all
      qed
      have f: "filter (counted c pos intersect final) (its @ [it]) = ?xs @ [it]" using True by simp
      show ?thesis
        unfolding f fold_append comp_def fold.simps id_apply step least_by_snoc a b mn
        using st by (auto simp: min_def)
    qed
  qed
qed

text \<open>Items far from the position may be left out of a search for the least distance.\<close>

lemma least_by_concat:
  assumes "\<And>m. m \<in> set ms \<Longrightarrow> set (f m) \<subseteq> set (g m)"
    and "\<And>m x. m \<in> set ms \<Longrightarrow> x \<in> set (g m) \<Longrightarrow> x \<notin> set (f m) \<Longrightarrow> \<exists>y \<in> set (f m). d y < d x"
    and "\<And>m P. m \<in> set ms \<Longrightarrow> \<forall>x \<in> set (g m). P x \<longrightarrow> x \<in> set (f m) \<Longrightarrow> filter P (g m) = filter P (f m)"
  shows "least_by d (concat (map f ms)) = least_by d (concat (map g ms))"
proof -
  let ?F = "set (concat (map f ms))" and ?G = "set (concat (map g ms))"
  have sub: "?F \<subseteq> ?G" using assms(1) by fastforce
  have near: "\<exists>y \<in> ?F. d y \<le> d x" if x: "x \<in> ?G" for x
  proof -
    obtain m where m: "m \<in> set ms" "x \<in> set (g m)" using x by auto
    show ?thesis
    proof (cases "x \<in> set (f m)")
      case True
      then show ?thesis using m by auto
    next
      case False
      then obtain y where "y \<in> set (f m)" "d y < d x" using assms(2) m by blast
      then show ?thesis using m(1) by (intro bexI [of _ y]) auto
    qed
  qed
  have eq: "(\<forall>y \<in> ?F. d x \<le> d y) \<longleftrightarrow> (\<forall>y \<in> ?G. d x \<le> d y)" for x
    using sub near by (meson order_trans subsetD)
  let ?P = "\<lambda>x. \<forall>y \<in> ?G. d x \<le> d y"
  have "filter ?P (g m) = filter ?P (f m)" if m: "m \<in> set ms" for m
  proof (rule assms(3) [OF m], intro ballI impI)
    fix x
    assume x: "x \<in> set (g m)" "?P x"
    show "x \<in> set (f m)"
    proof (rule ccontr)
      assume "x \<notin> set (f m)"
      then obtain y where "y \<in> set (f m)" "d y < d x" using assms(2) [OF m x(1)] by blast
      moreover from this m have "y \<in> ?G" using sub by auto
      ultimately show False using x(2) by force
    qed
  qed
  then have "concat (map (\<lambda>m. filter ?P (f m)) ms) = concat (map (\<lambda>m. filter ?P (g m)) ms)"
    by (intro arg_cong [where f = concat] map_cong refl) simp
  then show ?thesis
    unfolding least_by_def eq by (simp only: filter_concat map_map comp_def)
qed

definition spread_points :: "view \<Rightarrow> string \<Rightarrow> bool \<Rightarrow> metaset \<Rightarrow> bool" where
  "spread_points c axis final m \<longleftrightarrow> in_axis_order True axis m \<and>
     (\<forall>e \<in> set (ms_data m). (\<exists>p. el_shape e = Point p) \<and> getProps e final = el_prop e \<and> \<not> el_skip e \<and>
        in_view c (getCenterPoint e final))"

lemma items_between_set:
  "it \<in> set (items_between m lo hi) \<longleftrightarrow>
    (\<exists>j. lo \<le> j \<and> j \<le> hi \<and> \<not> el_skip (ms_data m ! nat j) \<and>
       it = \<lparr>im_element = ms_data m ! nat j, im_dataset = ms_index m, im_index = nat j\<rparr>)"
  by (auto simp: items_between_def)

lemma item_distance_point:
  assumes "el_shape e = Point p" and "getProps e final = el_prop e" and "axis = ''x'' \<or> axis = ''y''"
  shows "item_distance pos axis final \<lparr>im_element = e, im_dataset = d, im_index = j\<rparr> = \<bar>coord axis pos - el_prop e axis\<bar>"
  using assms by (auto simp: item_distance_def getCenterPoint_def getDistanceMetricForAxis_def coord_def Let_def)

lemma nearest_bracket:
  assumes "axis = ''x'' \<or> axis = ''y''" and "spread_points c axis final m" and "ms_data m \<noteq> []"
    and "lookup_of m axis (coord axis pos) = (lo, hi)"
  defines "F \<equiv> filter (counted c pos False final) (items_between m lo hi)"
    and "G \<equiv> filter (counted c pos False final) (items_between m 0 (int (length (ms_data m)) - 1))"
  shows "set F \<subseteq> set G"
    and "it \<in> set G \<Longrightarrow> it \<notin> set F \<Longrightarrow> \<exists>y \<in> set F. item_distance pos axis final y < item_distance pos axis final it"
    and "\<forall>x \<in> set G. P x \<longrightarrow> x \<in> set F \<Longrightarrow> filter P G = filter P F"
proof -
  let ?n = "int (length (ms_data m))" and ?v = "coord axis pos"
  let ?it = "\<lambda>j. \<lparr>im_element = ms_data m ! nat j, im_dataset = ms_index m, im_index = nat j\<rparr>"
  let ?key = "\<lambda>j. el_prop (ms_data m ! nat j) axis"
  note e = lookup_of_ends [OF assms(4,3)]
  have ord: "in_axis_order True axis m" using assms(2) by (simp add: spread_points_def)
  have el: "(\<exists>p. el_shape (ms_data m ! nat j) = Point p) \<and> getProps (ms_data m ! nat j) final = el_prop (ms_data m ! nat j) \<and>
      \<not> el_skip (ms_data m ! nat j) \<and> counted c pos False final (?it j)" if "0 \<le> j" "j < ?n" for j
  proof -
    have "ms_data m ! nat j \<in> set (ms_data m)" using that by simp
    then show ?thesis using assms(2) by (auto simp: spread_points_def counted_def Let_def)
  qed
  have dist: "item_distance pos axis final (?it j) = \<bar>?v - ?key j\<bar>" if "0 \<le> j" "j < ?n" for j
    using el [OF that] item_distance_point [OF _ _ assms(1)] by blast
  have inF: "?it j \<in> set F" if "lo \<le> j" "j \<le> hi" for j
  proof -
    have r: "0 \<le> j" "j < ?n" using that e by linarith+
    have "?it j \<in> set (items_between m lo hi)"
      unfolding items_between_set using that el [OF r] by (intro exI [of _ j]) simp
    then show ?thesis using el [OF r] by (simp add: F_def)
  qed
  have "x \<in> set (items_between m 0 (?n - 1))" if "x \<in> set (items_between m lo hi)" for x
  proof -
    obtain j where "lo \<le> j" "j \<le> hi" "\<not> el_skip (ms_data m ! nat j)" "x = ?it j"
      using \<open>x \<in> _\<close> unfolding items_between_set by blast
    moreover from this have "0 \<le> j" "j \<le> ?n - 1" using e by linarith+
    ultimately show ?thesis unfolding items_between_set by blast
  qed
  then show "set F \<subseteq> set G" by (auto simp: F_def G_def)
  show "\<exists>y \<in> set F. item_distance pos axis final y < item_distance pos axis final it" if "it \<in> set G" "it \<notin> set F"
  proof -
    from that(1) have "it \<in> set (items_between m 0 (?n - 1))" by (simp add: G_def)
    then obtain j where j: "0 \<le> j" "j \<le> ?n - 1" "it = ?it j" unfolding items_between_set by blast
    have out: "\<not> (lo \<le> j \<and> j \<le> hi)" using that(2) inF [of j] j(3) by blast
    have jn: "j < ?n" using j by simp
    show ?thesis
    proof (cases "j < lo")
      case True
      have "if ms_reversePixels m then ?v \<le> ?key lo \<and> ?key lo < ?key j else ?key lo < ?v \<and> ?key j < ?key lo"
        using e True j in_axis_order_nth(2) [OF ord, of "nat j" "nat lo"] by (auto split: if_splits)
      then have "\<bar>?v - ?key lo\<bar> < \<bar>?v - ?key j\<bar>" by (auto split: if_splits)
      moreover have "?it lo \<in> set F" using inF e by simp
      ultimately show ?thesis using dist [of lo] dist [OF j(1) jn] e j(3) by (intro bexI [of _ "?it lo"]) auto
    next
      case False
      then have h: "hi < j" using out by simp
      have "if ms_reversePixels m then ?key hi < ?v \<and> ?key j < ?key hi else ?v \<le> ?key hi \<and> ?key hi < ?key j"
        using e h j in_axis_order_nth(2) [OF ord, of "nat hi" "nat j"] by (auto split: if_splits)
      then have "\<bar>?v - ?key hi\<bar> < \<bar>?v - ?key j\<bar>" by (auto split: if_splits)
      moreover have "?it hi \<in> set F" using inF e by simp
      ultimately show ?thesis using dist [of hi] dist [OF j(1) jn] e j(3) by (intro bexI [of _ "?it hi"]) auto
    qed
  qed
  show "filter P G = filter P F" if *: "\<forall>x \<in> set G. P x \<longrightarrow> x \<in> set F"
  proof -
    let ?Q = "\<lambda>x. counted c pos False final x \<and> P x"
    have "filter ?Q (items_between m lo hi) = filter ?Q (items_between m 0 (?n - 1))"
    proof (rule items_between_filter)
      show "0 \<le> lo" "hi < ?n" using e by auto
      fix j
      assume j: "j < length (ms_data m)" "\<not> el_skip (ms_data m ! j)"
        "?Q \<lparr>im_element = ms_data m ! j, im_dataset = ms_index m, im_index = j\<rparr>"
      have "?it (int j) \<in> set (items_between m 0 (?n - 1))"
        unfolding items_between_set using j(1,2) by (intro exI [of _ "int j"]) simp
      with j(3) have "?it (int j) \<in> set G" by (simp add: G_def)
      with * j(3) have "?it (int j) \<in> set F" by simp
      then have "?it (int j) \<in> set (items_between m lo hi)" by (simp add: F_def)
      then obtain i where i: "lo \<le> i" "i \<le> hi" "?it (int j) = ?it i" unfolding items_between_set by blast
      then have "j = nat i" by simp
      then show "lo \<le> int j \<and> int j \<le> hi" using i e by simp
    qed
    then show ?thesis by (simp add: F_def G_def conj_commute)
  qed
qed

text \<open>
  C14 (nearest elements, without the option \<open>intersect\<close>). Along the axis x or y, for a position in the chart area, and where the datasets that are bisected hold visible points
  at distinct positions in order, the items found with \<open>intersect\<close> off are
  exactly those at the least distance among all visible elements. With \<open>intersect\<close> on this fails, see \<^verbatim>\<open>nearest_intersect_misses\<close>.
\<close>

theorem nearest_items_least:
  assumes "axis = ''x'' \<or> axis = ''y''" and "in_view c pos"
    and "\<forall>m \<in> set (cv_metasets c). ms_iAxis m = Some axis \<and> ms_sorted m \<longrightarrow> spread_points c axis final m"
  shows "getNearestItems c pos axis False final =
    least_by (item_distance pos axis final) (filter (counted c pos False final) (evaluateAllVisibleItems c))"
proof -
  let ?C = "counted c pos False final"
  define f where "f m = (case binarySearch m axis (coord axis pos) False of (lo, hi) \<Rightarrow> filter ?C (items_between m lo hi))" for m
  define g where "g m = filter ?C (items_between m 0 (int (length (ms_data m)) - 1))" for m
  have f: "f m = g m \<or> (\<exists>lo hi. lookup_of m axis (coord axis pos) = (lo, hi) \<and> f m = filter ?C (items_between m lo hi) \<and>
      spread_points c axis final m \<and> ms_data m \<noteq> [])" if m: "m \<in> set (cv_metasets c)" for m
  proof (cases "ms_iAxis m = Some axis \<and> ms_sorted m \<and> ms_data m \<noteq> []")
    case False
    then show ?thesis using binarySearch_whole [of m axis False] by (auto simp: f_def g_def)
  next
    case True
    then have "binarySearch m axis (coord axis pos) False = lookup_of m axis (coord axis pos)"
      using assms(1) by (auto simp: binarySearch_def lookup_of_def Let_def)
    then show ?thesis using True assms(3) m by (cases "lookup_of m axis (coord axis pos)") (auto simp: f_def)
  qed
  have eq: "least_by d (concat (map f (cv_metasets c))) = least_by d (concat (map g (cv_metasets c)))"
    if d: "d = item_distance pos axis final" for d
  proof (rule least_by_concat)
    fix m
    assume m: "m \<in> set (cv_metasets c)"
    consider (same) "f m = g m" | (cut) lo hi where "lookup_of m axis (coord axis pos) = (lo, hi)"
      "f m = filter ?C (items_between m lo hi)" "spread_points c axis final m" "ms_data m \<noteq> []"
      using f [OF m] by blast
    note cases = this
    note br = nearest_bracket [OF assms(1)]
    show "set (f m) \<subseteq> set (g m)"
      by (cases rule: cases) (use br(1) in \<open>auto simp: g_def\<close>)
    show "\<exists>y \<in> set (f m). d y < d x" if "x \<in> set (g m)" "x \<notin> set (f m)" for x
      by (cases rule: cases) (use br(2) that d in \<open>auto simp: g_def\<close>)
    show "filter P (g m) = filter P (f m)" if "\<forall>x \<in> set (g m). P x \<longrightarrow> x \<in> set (f m)" for P
      by (cases rule: cases) (use br(3) that in \<open>auto simp: g_def\<close>)
  qed
  have "filter ?C (optimizedEvaluateItems c axis pos False) = concat (map f (cv_metasets c))"
    unfolding optimizedEvaluateItems_def f_def filter_concat map_map comp_def
    by (intro arg_cong [where f = concat] map_cong refl) (simp split: prod.split)
  moreover have "filter ?C (evaluateAllVisibleItems c) = concat (map g (cv_metasets c))"
    unfolding evaluateAllVisibleItems_def g_def filter_concat map_map comp_def ..
  ultimately show ?thesis
    using assms(1,2) eq fold_nearest [of _ pos axis final c False] by (auto simp: getNearestItems_def getNearestCartesianItems_def)
qed

section \<open>Examples\<close>

definition dot :: "real \<Rightarrow> real \<Rightarrow> elem" where
  "dot x y = plain_elem (Point \<lparr>pe_radius = 4, pe_hitRadius = 1, pe_hoverRadius = 4, pe_borderWidth = 1,
     pe_style = \<lparr>po_style = Style ''circle'', po_rotation = None, po_radius = Some 4, po_borderWidth = 1\<rparr>,
     pe_borderColor = ''red'', pe_backgroundColor = ''red''\<rparr>) (\<lambda>k. if k = ''x'' then x else y)"

definition one_metaset :: "bool \<Rightarrow> elem list \<Rightarrow> metaset" where
  "one_metaset reversed es = \<lparr>ms_index = 0, ms_data = es, ms_sorted = True, ms_iAxis = Some ''x'',
     ms_reversePixels = reversed, ms_shared = True\<rparr>"

lemma one_metaset_fields [simp]:
  "ms_index (one_metaset b es) = 0" "ms_data (one_metaset b es) = es" "ms_sorted (one_metaset b es)"
  "ms_iAxis (one_metaset b es) = Some ''x''" "ms_reversePixels (one_metaset b es) = b" "ms_shared (one_metaset b es)"
  by (simp_all add: one_metaset_def)

definition one_dataset :: "bool \<Rightarrow> elem list \<Rightarrow> view" where
  "one_dataset reversed es =
     \<lparr>cv_metasets = [one_metaset reversed es],
      cv_chartArea = Some \<lparr>ra_left = 0, ra_top = 0, ra_right = 100, ra_bottom = 100\<rparr>, cv_minPadding = None\<rparr>"

lemma cv_metasets_one [simp]: "cv_metasets (one_dataset b es) = [one_metaset b es]"
  by (simp add: one_dataset_def)

lemma el_prop_dot [simp]:
  "el_prop (dot x y) k = (if k = ''x'' then x else y)" "getProps (dot x y) final = el_prop (dot x y)"
  "\<not> el_skip (dot x y)" "\<exists>p. el_shape (dot x y) = Point p"
  by (simp_all add: dot_def plain_elem_def getProps_def)

lemma getCenterPoint_dot [simp]: "getCenterPoint (dot x y) final = (x, y)"
  by (simp add: getCenterPoint_def dot_def plain_elem_def getProps_def)

lemma inRange_dot [simp]: "inRange (dot x y) a b final \<longleftrightarrow> (a - x) ^ 2 + (b - y) ^ 2 < 25"
  by (simp add: inRange_def point_inRange_def dot_def plain_elem_def getProps_def)

lemma getRange_dot [simp]: "getRange (dot x y) axis = Some 5"
  by (simp add: getRange_def dot_def plain_elem_def)

lemma in_view_one [simp]:
  "in_view (one_dataset b es) (x, y) \<longleftrightarrow> - (1 / 2) < x \<and> x < 100 + 1 / 2 \<and> - (1 / 2) < y \<and> y < 100 + 1 / 2"
  by (simp add: in_view_def one_dataset_def isPointInArea_def Let_def)


theorem nearest_items_least_witness:
  "\<exists>c. getNearestItems c (14, 0) ''x'' False False =
      least_by (item_distance (14, 0) ''x'' False) (filter (counted c (14, 0) False False) (evaluateAllVisibleItems c)) \<and>
    map ms_data (cv_metasets c) = [[dot 10 50, dot 20 50, dot 40 50]]"
proof -
  let ?c = "one_dataset False [dot 10 50, dot 20 50, dot 40 50]"
  have "spread_points ?c ''x'' False (one_metaset False [dot 10 50, dot 20 50, dot 40 50])"
    by (simp add: spread_points_def in_axis_order_def)
  then have "spread_points ?c ''x'' False m" if "m \<in> set (cv_metasets ?c)" for m
    using that by simp
  moreover have "in_view ?c (14, 0)" by simp
  ultimately have "getNearestItems ?c (14, 0) ''x'' False False =
      least_by (item_distance (14, 0) ''x'' False) (filter (counted ?c (14, 0) False False) (evaluateAllVisibleItems ?c))"
    using nearest_items_least [of "''x''" ?c "(14, 0)" False] by blast
  moreover have "map ms_data (cv_metasets ?c) = [[dot 10 50, dot 20 50, dot 40 50]]" by simp
  ultimately show ?thesis by (intro exI [of _ ?c] conjI)
qed

text \<open>
  On a reversed axis the two searches for the ends of the range return its ends in the other order: two points that both contain
  the position are not found.
\<close>

lemma reversed_intersect_misses:
  "getIntersectItems (one_dataset True [dot 30 50, dot 12 50, dot 10 50, dot 0 50]) (11, 50) ''x'' False = [] \<and>
   inRange (dot 12 50) 11 50 False \<and> inRange (dot 10 50) 11 50 False"
proof -
  have "binarySearch (one_metaset True [dot 30 50, dot 12 50, dot 10 50, dot 0 50]) ''x'' 11 True = (2, 1)"
    by (simp add: binarySearch_def rlookupByKey_def lookup_with_def lookup_loop.simps Let_def)
  then show ?thesis
    by (simp add: getIntersectItems_def optimizedEvaluateItems_def coord_def items_between_def)
qed

text \<open>
  Only the two neighbours of the position are considered: when both are skipped, no item is found although there are others.
\<close>

lemma skipped_neighbours_hide:
  "getNearestItems (one_dataset False [dot 0 50, (dot 10 50)\<lparr>el_skip := True\<rparr>, (dot 20 50)\<lparr>el_skip := True\<rparr>, dot 30 50])
     (15, 50) ''x'' False False = [] \<and>
   length (evaluateAllVisibleItems (one_dataset False
     [dot 0 50, (dot 10 50)\<lparr>el_skip := True\<rparr>, (dot 20 50)\<lparr>el_skip := True\<rparr>, dot 30 50])) = 2"
proof -
  have s: "el_prop (e\<lparr>el_skip := True\<rparr>) = el_prop e" for e by simp
  have "binarySearch (one_metaset False [dot 0 50, (dot 10 50)\<lparr>el_skip := True\<rparr>, (dot 20 50)\<lparr>el_skip := True\<rparr>, dot 30 50]) ''x'' 15 False = (1, 2)"
    by (simp add: binarySearch_def lookupByKey_def lookup_with_def lookup_loop.simps Let_def)
  then show ?thesis
    by (simp add: getNearestItems_def getNearestCartesianItems_def optimizedEvaluateItems_def 
      coord_def items_between_def evaluateAllVisibleItems_def upto_rec1)
qed

text \<open>
  The bisection for the nearest element ignores that elements must contain the position: a point that does is not found when
  other points are nearer along the axis.
\<close>

lemma nearest_intersect_misses:
  "getNearestItems (one_dataset False [dot 0 50, dot 1 90, dot 3 90, dot 30 50]) (2, 50) ''x'' True False = [] \<and>
   inRange (dot 0 50) 2 50 False"
proof -
  have "binarySearch (one_metaset False [dot 0 50, dot 1 90, dot 3 90, dot 30 50]) ''x'' 2 False = (1, 2)"
    by (simp add: binarySearch_def lookupByKey_def lookup_with_def lookup_loop.simps Let_def)
  then show ?thesis
    by (simp add: getNearestItems_def getNearestCartesianItems_def optimizedEvaluateItems_def 
      coord_def items_between_def upto_rec1 nearest_step_def Let_def)
qed

end
