(* ===== verification/Chart_Metasets.thy ===== *)
theory Chart_Metasets
  imports Dataset_Controller "HOL-Library.AList"
begin

text \<open>
  The records that a chart keeps for its datasets (class \<open>Chart\<close> in \<^verbatim>\<open>chart.js\<close>): finding or making the
  record of a dataset, replacing controllers when the list of datasets changes, visibility, and the
  hidden indices with their movement when data is inserted or removed.

  A dataset of the user is an identity with the fields that are read. The array of records may have
  holes; a record belongs to a dataset, or to \<open>undefined\<close> when it was asked for an index without one. A
  controller is an identity with its class and index; what it does is in \<open>Dataset_Controller\<close>.
\<close>

section \<open>State\<close>

record user_dataset =
  ud_id :: nat
  ud_type :: "string option"
  ud_order :: "real option"
  ud_hidden :: bool
  ud_indexAxis :: "string option"

record controller =
  ct_id :: nat
  ct_class :: string
  ct_index :: nat

record meta =
  mt_dataset :: "nat option"
  mt_type :: "string option"
  mt_controller :: "controller option"
  mt_hidden :: "bool option"
  mt_order :: real
  mt_index :: nat
  mt_indexAxis :: "string option"
  mt_visible :: bool

record chart =
  ch_datasets :: "user_dataset list"
  ch_type :: string
  ch_metasets :: "meta option list"
  ch_sorted :: "meta list"
  ch_stacks :: bool
  ch_nextController :: nat
  ch_destroyed :: "nat list"

section \<open>Records of datasets\<close>

text \<open>
  \<open>getDatasetMeta\<close> takes the last record of the dataset, or adds one. The result is the position of
  the record in the array.
\<close>

definition dataset_at :: "chart \<Rightarrow> nat \<Rightarrow> nat option" where
  "dataset_at c i = (if i < length (ch_datasets c) then Some (ud_id (ch_datasets c ! i)) else None)"

definition is_meta_of :: "nat option \<Rightarrow> meta option \<Rightarrow> bool" where
  "is_meta_of d x = (case x of Some m \<Rightarrow> mt_dataset m = d | None \<Rightarrow> False)"

definition find_meta :: "nat option \<Rightarrow> meta option list \<Rightarrow> nat option" where
  "find_meta d ms = find (\<lambda>p. is_meta_of d (ms ! p)) (rev [0 ..< length ms])"

definition new_meta :: "chart \<Rightarrow> nat \<Rightarrow> meta" where
  "new_meta c i =
     \<lparr>mt_dataset = dataset_at c i, mt_type = None, mt_controller = None, mt_hidden = None,
      mt_order = (if i < length (ch_datasets c)
                  then (case ud_order (ch_datasets c ! i) of Some r \<Rightarrow> r | None \<Rightarrow> 0) else 0),
      mt_index = i, mt_indexAxis = None, mt_visible = False\<rparr>"

definition getDatasetMeta :: "nat \<Rightarrow> chart \<Rightarrow> nat \<times> chart" where
  "getDatasetMeta i c =
     (case find_meta (dataset_at c i) (ch_metasets c) of
        Some p \<Rightarrow> (p, c)
      | None \<Rightarrow> (length (ch_metasets c), c\<lparr>ch_metasets := ch_metasets c @ [Some (new_meta c i)]\<rparr>))"

definition meta_at :: "chart \<Rightarrow> nat \<Rightarrow> meta" where
  "meta_at c p = the (ch_metasets c ! p)"

definition put_meta :: "nat \<Rightarrow> meta \<Rightarrow> chart \<Rightarrow> chart" where
  "put_meta p m c = c\<lparr>ch_metasets := (ch_metasets c)[p := Some m]\<rparr>"

text \<open>
  \<open>_destroyDatasetMeta\<close> takes a position of the array of records, as the source does, and leaves a hole.
\<close>

definition destroyDatasetMeta :: "nat \<Rightarrow> chart \<Rightarrow> chart" where
  "destroyDatasetMeta p c =
     (if p < length (ch_metasets c) then
        c\<lparr>ch_destroyed := ch_destroyed c @
            (case ch_metasets c ! p of
               Some m \<Rightarrow> (case mt_controller m of Some k \<Rightarrow> [ct_id k] | None \<Rightarrow> [])
             | None \<Rightarrow> []),
          ch_metasets := (ch_metasets c)[p := None]\<rparr>
      else c)"

definition isDatasetVisible :: "nat \<Rightarrow> chart \<Rightarrow> bool \<times> chart" where
  "isDatasetVisible i c =
     (if i < length (ch_datasets c) then
        (let (p, c') = getDatasetMeta i c
         in (case mt_hidden (meta_at c' p) of Some h \<Rightarrow> \<not> h | None \<Rightarrow> \<not> ud_hidden (ch_datasets c ! i), c'))
      else (False, c))"

definition setDatasetVisibility :: "nat \<Rightarrow> bool \<Rightarrow> chart \<Rightarrow> chart" where
  "setDatasetVisibility i visible c =
     (let (p, c') = getDatasetMeta i c in put_meta p ((meta_at c' p)\<lparr>mt_hidden := Some (\<not> visible)\<rparr>) c')"

section \<open>Controllers\<close>

definition referenced :: "chart \<Rightarrow> meta \<Rightarrow> bool" where
  "referenced c m = list_ex (\<lambda>d. mt_dataset m = Some (ud_id d)) (ch_datasets c)"

definition removeUnreferencedMetasets :: "chart \<Rightarrow> chart" where
  "removeUnreferencedMetasets c =
     (let c0 = (if length (ch_metasets c) > length (ch_datasets c) then c\<lparr>ch_stacks := False\<rparr> else c)
      in fold (\<lambda>p c. case ch_metasets c ! p of
                 Some m \<Rightarrow> if referenced c m then c else destroyDatasetMeta p c
               | None \<Rightarrow> c)
           [0 ..< length (ch_metasets c0)] c0)"

text \<open>Texts that are missing or empty give way to the next.\<close>

fun first_text :: "string option list \<Rightarrow> string" where
  "first_text [] = []"
| "first_text (Some (x # xs) # ts) = x # xs"
| "first_text (t # ts) = first_text ts"

definition getIndexAxis :: "(string \<Rightarrow> string option) \<Rightarrow> (string \<Rightarrow> string option) \<Rightarrow> string option \<Rightarrow> string \<Rightarrow> string" where
  "getIndexAxis datasetDefaults datasetOptions optionsIndexAxis ty =
     first_text [datasetOptions ty, optionsIndexAxis, datasetDefaults ty, Some ''x'']"

text \<open>What the registry and the options know: the types that are registered, and the index axis of a type.\<close>

record types_known =
  tk_registered :: "string \<Rightarrow> bool"
  tk_indexAxis :: "string \<Rightarrow> string"

definition type_of :: "chart \<Rightarrow> user_dataset \<Rightarrow> string" where
  "type_of c d = first_text [ud_type d, Some (ch_type c)]"

text \<open>
  The round of the loop of \<open>buildOrUpdateControllers\<close> for a dataset. A type that is not registered throws: the
  result is \<open>None\<close>.
\<close>

definition update_controller :: "types_known \<Rightarrow> nat \<Rightarrow> chart \<times> nat list \<Rightarrow> (chart \<times> nat list) option" where
  "update_controller tk i st =
     (let (c, new) = st; d = ch_datasets c ! i; ty = type_of c d;
          (p0, c0) = getDatasetMeta i c;
          (p, c1) = (case mt_type (meta_at c0 p0) of
                       Some (t # ts) \<Rightarrow> if t # ts \<noteq> ty then getDatasetMeta i (destroyDatasetMeta i c0) else (p0, c0)
                     | _ \<Rightarrow> (p0, c0));
          m1 = (meta_at c1 p)\<lparr>mt_type := Some ty,
                 mt_indexAxis := Some (first_text [ud_indexAxis d, Some (tk_indexAxis tk ty)]),
                 mt_order := (case ud_order d of Some r \<Rightarrow> r | None \<Rightarrow> 0), mt_index := i\<rparr>;
          (visible, c2) = isDatasetVisible i (put_meta p m1 c1);
          m2 = m1\<lparr>mt_visible := visible\<rparr>
      in case mt_controller m2 of
           Some k \<Rightarrow> Some (put_meta p (m2\<lparr>mt_controller := Some (k\<lparr>ct_index := i\<rparr>)\<rparr>) c2, new)
         | None \<Rightarrow>
             if \<not> tk_registered tk ty then None
             else
               let k = \<lparr>ct_id = ch_nextController c2, ct_class = ty, ct_index = i\<rparr>
               in Some ((put_meta p (m2\<lparr>mt_controller := Some k\<rparr>) c2)\<lparr>ch_nextController := ch_nextController c2 + 1\<rparr>,
                        new @ [ct_id k]))"

fun update_controllers :: "types_known \<Rightarrow> nat list \<Rightarrow> chart \<times> nat list \<Rightarrow> (chart \<times> nat list) option" where
  "update_controllers tk [] st = Some st"
| "update_controllers tk (i # js) st =
     (case update_controller tk i st of None \<Rightarrow> None | Some st' \<Rightarrow> update_controllers tk js st')"

definition present :: "meta option list \<Rightarrow> meta list" where
  "present ms = map the (filter (\<lambda>x. x \<noteq> None) ms)"

text \<open>
  Sorting moves holes to the end. The comparison by order and then by index is a stable sort by order of what is
  sorted by index.
\<close>

definition updateMetasets :: "chart \<Rightarrow> chart" where
  "updateMetasets c =
     (let numData = length (ch_datasets c); numMeta = length (ch_metasets c); ms = present (ch_metasets c);
          c1 = c\<lparr>ch_metasets := map Some (sort_key mt_index ms) @ replicate (numMeta - length ms) None\<rparr>;
          c2 = (if numMeta > numData then
                  (let c' = fold destroyDatasetMeta [numData ..< numMeta] c1
                   in c'\<lparr>ch_metasets := take numData (ch_metasets c')\<rparr>)
                else c1)
      in c2\<lparr>ch_sorted := sort_key mt_order (sort_key mt_index (present (ch_metasets c2)))\<rparr>)"

definition buildOrUpdateControllers :: "types_known \<Rightarrow> chart \<Rightarrow> (chart \<times> nat list) option" where
  "buildOrUpdateControllers tk c =
     map_option (\<lambda>(c', new). (updateMetasets c', new))
       (update_controllers tk [0 ..< length (ch_datasets c)] (removeUnreferencedMetasets c, []))"

definition getSortedDatasetMetas :: "bool \<Rightarrow> chart \<Rightarrow> meta list" where
  "getSortedDatasetMetas filterVisible c = filter (\<lambda>m. \<not> filterVisible \<or> mt_visible m) (ch_sorted c)"

definition getSortedDatasetIndices :: "chart \<Rightarrow> bool \<Rightarrow> nat list" where
  "getSortedDatasetIndices c filterVisible = map mt_index (getSortedDatasetMetas filterVisible c)"

definition getVisibleDatasetCount :: "chart \<Rightarrow> nat" where
  "getVisibleDatasetCount c = length (getSortedDatasetMetas True c)"

section \<open>Hidden indices\<close>

text \<open>
  The object \<open>_hiddenIndices\<close>: its keys that are not negative are listed in ascending order, before the others.
\<close>

type_synonym hidden = "(int \<times> bool) list"

definition object_keys :: "hidden \<Rightarrow> int list" where
  "object_keys obj =
     (let ks = remdups (map fst obj) in sort (filter (\<lambda>k. 0 \<le> k) ks) @ filter (\<lambda>k. k < 0) ks)"

definition move_key :: "int \<Rightarrow> int \<Rightarrow> int \<Rightarrow> hidden \<Rightarrow> hidden" where
  "move_key start mv k obj =
     (if start \<le> k then
        (case map_of obj k of
           None \<Rightarrow> obj
         | Some v \<Rightarrow>
             let obj' = AList.delete k obj
             in if 0 < mv \<or> start < k then AList.update (k + mv) v obj' else obj')
      else obj)"

definition moveNumericKeys :: "int \<Rightarrow> int \<Rightarrow> hidden \<Rightarrow> hidden" where
  "moveNumericKeys start mv obj = fold (move_key start mv) (object_keys obj) obj"

definition toggleDataVisibility :: "int \<Rightarrow> hidden \<Rightarrow> hidden" where
  "toggleDataVisibility i obj = AList.update i (case map_of obj i of Some v \<Rightarrow> \<not> v | None \<Rightarrow> True) obj"

definition getDataVisibility :: "hidden \<Rightarrow> int \<Rightarrow> bool" where
  "getDataVisibility obj i = (case map_of obj i of Some v \<Rightarrow> \<not> v | None \<Rightarrow> True)"

text \<open>The changes of a dataset, each with its number, as the set that is compared.\<close>

definition change_set :: "(nat \<times> sync) list \<Rightarrow> nat \<Rightarrow> (nat \<times> sync) list" where
  "change_set changes idx = enumerate 0 (map snd (filter (\<lambda>x. fst x = idx) changes))"

definition getUniformDataChanges :: "nat \<Rightarrow> (nat \<times> sync) list \<Rightarrow> sync list" where
  "getUniformDataChanges datasetCount changes =
     (if list_all (\<lambda>i. setsEqual (change_set changes 0) (change_set changes i)) [1 ..< datasetCount]
      then map snd (change_set changes 0) else [])"

fun apply_change :: "sync \<Rightarrow> hidden \<Rightarrow> hidden" where
  "apply_change (InsertElements start cnt) obj = moveNumericKeys start cnt obj"
| "apply_change (RemoveElements start cnt) obj = moveNumericKeys start (- int cnt) obj"

text \<open>The changes are forgotten in any case.\<close>

definition updateHiddenIndices :: "nat \<Rightarrow> (nat \<times> sync) list \<Rightarrow> hidden \<Rightarrow> (nat \<times> sync) list \<times> hidden" where
  "updateHiddenIndices datasetCount changes obj =
     ([], fold apply_change (getUniformDataChanges datasetCount changes) obj)"

section \<open>Hidden indices: lemmas\<close>

lemma map_of_move_key:
  "map_of (move_key start mv k obj) =
     (if start \<le> k \<and> k \<in> dom (map_of obj) then
        (if 0 < mv \<or> start < k then (map_of obj)(k := None, k + mv := map_of obj k) else (map_of obj)(k := None))
      else map_of obj)"
  by (auto simp: move_key_def Let_def AList.update_conv' AList.delete_conv' domIff split: option.splits)

lemma fold_remove_one:
  assumes "sorted_wrt (<) ks" and "\<forall>k \<in> set ks. k \<in> dom (map_of obj)"
  shows "map_of (fold (move_key start (- 1)) ks obj) i =
    (if i + 1 \<in> set ks \<and> start \<le> i then map_of obj (i + 1)
     else if i \<in> set ks \<and> start \<le> i then None else map_of obj i)"
  using assms
proof (induction ks arbitrary: obj)
  case (Cons k ks)
  let ?o = "move_key start (- 1) k obj"
  have d: "\<forall>j \<in> set ks. j \<in> dom (map_of ?o)"
    using Cons.prems by (fastforce simp: map_of_move_key domIff)
  have s: "sorted_wrt (<) ks" using Cons.prems by simp
  have k: "k \<in> dom (map_of obj)" using Cons.prems by simp
  have gt: "k \<notin> set ks" "k - 1 \<notin> set ks" using Cons.prems by force+
  show ?case
    using Cons.IH [OF s d] gt k by (cases "start \<le> k") (auto simp: map_of_move_key add.commute)
qed simp

lemma fold_insert:
  assumes "sorted_wrt (<) ks" and "\<forall>k \<in> set ks. k \<in> dom (map_of obj)" and "0 < n"
    and "\<forall>k \<in> set ks. start \<le> k \<longrightarrow> k + n \<notin> set ks"
  shows "map_of (fold (move_key start n) ks obj) i =
    (if i - n \<in> set ks \<and> start \<le> i - n then map_of obj (i - n)
     else if i \<in> set ks \<and> start \<le> i then None else map_of obj i)"
  using assms
proof (induction ks arbitrary: obj)
  case (Cons k ks)
  let ?o = "move_key start n k obj"
  have d: "\<forall>j \<in> set ks. j \<in> dom (map_of ?o)"
    using Cons.prems by (fastforce simp: map_of_move_key domIff)
  have s: "sorted_wrt (<) ks" and a: "\<forall>k \<in> set ks. start \<le> k \<longrightarrow> k + n \<notin> set ks" using Cons.prems by auto
  have k: "k \<in> dom (map_of obj)" using Cons.prems by simp
  have gt: "k \<notin> set ks" "start \<le> k \<Longrightarrow> k + n \<notin> set ks" "k - n \<notin> set ks" using Cons.prems by force+
  show ?case
    using Cons.IH [OF s d assms(3) a] gt k assms(3) by (cases "start \<le> k") (auto simp: map_of_move_key add.commute)
qed simp

lemma object_keys_nonneg:
  assumes "\<forall>k \<in> dom (map_of obj). 0 \<le> k"
  shows "sorted_wrt (<) (object_keys obj)" and "set (object_keys obj) = dom (map_of obj)"
proof -
  have n: "filter (\<lambda>k. k < 0) (remdups (map fst obj)) = []" "filter (\<lambda>k. 0 \<le> k) (remdups (map fst obj)) = remdups (map fst obj)"
    using assms by (force simp: filter_empty_conv filter_id_conv dom_map_of_conv_image_fst)+
  show "sorted_wrt (<) (object_keys obj)"
    unfolding object_keys_def Let_def n by (simp add: strict_sorted_iff)
  show "set (object_keys obj) = dom (map_of obj)"
    unfolding object_keys_def Let_def n by (simp add: dom_map_of_conv_image_fst)
qed

text \<open>
  Hidden indices follow their data. When one item is removed, or items are inserted and no two hidden items behind are as far apart as their
  number, every item that stays is as visible as before, at its new index.
\<close>

theorem hidden_follow_data:
  assumes "\<forall>k \<in> dom (map_of obj). 0 \<le> k" and "0 \<le> start" and "0 < n"
    and "\<forall>k \<in> dom (map_of obj). start \<le> k \<longrightarrow> k + int n \<notin> dom (map_of obj)"
  shows "getDataVisibility (apply_change (RemoveElements start 1) obj) i =
      getDataVisibility obj (if i < start then i else i + 1) \<and>
    (i < start \<or> start + int n \<le> i \<longrightarrow>
      getDataVisibility (apply_change (InsertElements start (int n)) obj) i =
      getDataVisibility obj (if i < start then i else i - int n)) \<and>
    (start \<le> i \<and> i < start + int n \<longrightarrow> getDataVisibility (apply_change (InsertElements start (int n)) obj) i)"
proof -
  note ks = object_keys_nonneg [OF assms(1)]
  have in_dom: "\<forall>k \<in> set (object_keys obj). k \<in> dom (map_of obj)" using ks(2) by simp
  have out: "map_of obj j = None" if "j \<notin> set (object_keys obj)" for j using that ks(2) by (simp add: domIff)
  have r: "map_of (apply_change (RemoveElements start 1) obj) i = map_of obj (if i < start then i else i + 1)"
    using fold_remove_one [OF ks(1) in_dom, of start i] out by (simp add: moveNumericKeys_def)
  have a: "\<forall>k \<in> set (object_keys obj). start \<le> k \<longrightarrow> k + int n \<notin> set (object_keys obj)"
    using assms(4) ks(2) by simp
  have ins: "map_of (apply_change (InsertElements start (int n)) obj) i =
      (if start \<le> i - int n then map_of obj (i - int n) else if start \<le> i then None else map_of obj i)"
    using fold_insert [OF ks(1) in_dom _ a, of i] assms(3) out by (auto simp: moveNumericKeys_def)
  show ?thesis using r ins assms(3) unfolding getDataVisibility_def by auto
qed

theorem hidden_follow_data_witness:
  "getDataVisibility (apply_change (RemoveElements 1 1) [(0, True), (2, True)]) 1 = False \<and>
   getDataVisibility (apply_change (InsertElements 1 1) [(0, True), (2, True)]) 3 = False"
proof -
  have d: "\<forall>k \<in> dom (map_of [(0 :: int, True), (2, True)]). 0 \<le> k" by (auto split: if_splits)
  have a: "\<forall>k \<in> dom (map_of [(0 :: int, True), (2, True)]). 1 \<le> k \<longrightarrow> k + int 1 \<notin> dom (map_of [(0, True), (2, True)])"
    by (auto split: if_splits)
  show ?thesis
    using hidden_follow_data [OF d _ _ a, of 1] hidden_follow_data [OF d _ _ a, of 3] by (simp add: getDataVisibility_def)
qed

text \<open>
  Where these conditions fail, so does the code: of two neighbours that are hidden, one is shown after an insertion before them, and
  removing two items with the second one hidden hides an item before them.
\<close>

lemma hidden_neighbours_lost:
  "getDataVisibility (apply_change (InsertElements 0 1) [(0, True), (1, True)]) 1 \<and>
   \<not> getDataVisibility [(0, True), (1, True)] 0"
  by (simp add: moveNumericKeys_def object_keys_def move_key_def getDataVisibility_def)

lemma removed_hidden_moves:
  "\<not> getDataVisibility (apply_change (RemoveElements 2 2) [(3, True)]) 1 \<and> getDataVisibility [(3, True)] 1"
  by (simp add: moveNumericKeys_def object_keys_def move_key_def getDataVisibility_def)

section \<open>The records by dataset: lemmas\<close>

definition metas_of :: "meta option list \<Rightarrow> nat option \<Rightarrow> meta option" where
  "metas_of ms = map_of (map (\<lambda>m. (mt_dataset m, m)) (present ms))"

definition one_each :: "meta option list \<Rightarrow> bool" where
  "one_each ms \<longleftrightarrow> distinct (map mt_dataset (present ms))"

lemma present_append [simp]: "present (as @ bs) = present as @ present bs"
  by (simp add: present_def)

lemma present_Cons [simp]: "present (Some m # ms) = m # present ms" "present (None # ms) = present ms" "present [] = []"
  by (simp_all add: present_def)

lemma set_present [simp]: "m \<in> set (present ms) \<longleftrightarrow> Some m \<in> set ms"
  by (force simp: present_def)

lemma metas_of_iff: "one_each ms \<Longrightarrow> metas_of ms d = Some m \<longleftrightarrow> Some m \<in> set ms \<and> mt_dataset m = d"
  by (force simp: metas_of_def one_each_def comp_def)

lemma metas_of_None: "metas_of ms d = None \<longleftrightarrow> (\<forall>m. Some m \<in> set ms \<longrightarrow> mt_dataset m \<noteq> d)"
  by (force simp: metas_of_def map_of_eq_None_iff)

lemma find_meta_Some:
  assumes "find_meta d ms = Some p" and "one_each ms"
  shows "p < length ms \<and> (\<exists>m. ms ! p = Some m \<and> metas_of ms d = Some m)"
proof -
  have "p < length ms" "is_meta_of d (ms ! p)"
    using assms(1) by (auto simp: find_meta_def find_Some_iff rev_nth)
  then obtain m where "ms ! p = Some m" "mt_dataset m = d" by (auto simp: is_meta_of_def split: option.splits)
  with \<open>p < length ms\<close> metas_of_iff [OF assms(2), of d m] show ?thesis by (metis nth_mem)
qed

lemma find_meta_None: "find_meta d ms = None \<longleftrightarrow> metas_of ms d = None"
  by (force simp: find_meta_def find_None_iff metas_of_None is_meta_of_def in_set_conv_nth split: option.splits)

lemma metas_of_add:
  assumes "one_each ms" and "metas_of ms (mt_dataset m) = None"
  shows "one_each (ms @ [Some m]) \<and> metas_of (ms @ [Some m]) = (metas_of ms)(mt_dataset m \<mapsto> m)"
proof
  show "one_each (ms @ [Some m])" using assms by (auto simp: one_each_def metas_of_None)
  show "metas_of (ms @ [Some m]) = (metas_of ms)(mt_dataset m \<mapsto> m)"
    using assms(2) by (auto simp: metas_of_def fun_eq_iff map_add_def split: option.splits)
qed

lemma metas_of_put:
  assumes "one_each ms" and "p < length ms" and "ms ! p = Some m" and "mt_dataset m' = mt_dataset m"
  shows "one_each (ms[p := Some m']) \<and> metas_of (ms[p := Some m']) = (metas_of ms)(mt_dataset m \<mapsto> m')"
proof -
  let ?a = "take p ms" and ?b = "drop (Suc p) ms"
  have ms: "ms = ?a @ Some m # ?b" using assms(2,3) by (metis id_take_nth_drop)
  have ms': "ms[p := Some m'] = ?a @ Some m' # ?b" using assms(2) by (simp add: upd_conv_take_nth_drop)
  have o: "one_each (?a @ Some m # ?b)" using assms(1) ms by simp
  show ?thesis
  proof
    show "one_each (ms[p := Some m'])" unfolding ms' using o assms(4) by (simp add: one_each_def)
    have "mt_dataset m \<notin> mt_dataset ` set (present ?a)" using o by (auto simp: one_each_def)
    then have n: "map_of (map (\<lambda>m. (mt_dataset m, m)) (present ?a)) (mt_dataset m) = None"
      by (auto simp: map_of_eq_None_iff)
    have "metas_of (?a @ Some m' # ?b) = (metas_of (?a @ Some m # ?b))(mt_dataset m \<mapsto> m')"
      using n assms(4) by (auto simp: metas_of_def fun_eq_iff map_add_def split: option.splits)
    then show "metas_of (ms[p := Some m']) = (metas_of ms)(mt_dataset m \<mapsto> m')" using ms ms' by simp
  qed
qed

lemma getDatasetMeta_known:
  assumes "one_each (ch_metasets c)" and "metas_of (ch_metasets c) (dataset_at c i) = Some m"
  shows "\<exists>p. getDatasetMeta i c = (p, c) \<and> p < length (ch_metasets c) \<and> ch_metasets c ! p = Some m"
proof -
  obtain p where p: "find_meta (dataset_at c i) (ch_metasets c) = Some p"
    using assms(2) find_meta_None [of "dataset_at c i" "ch_metasets c"] by fastforce
  from find_meta_Some [OF p assms(1)] p assms(2) show ?thesis by (auto simp: getDatasetMeta_def)
qed

lemma getDatasetMeta_new:
  assumes "one_each (ch_metasets c)" and "metas_of (ch_metasets c) (dataset_at c i) = None"
  shows "getDatasetMeta i c = (length (ch_metasets c), c\<lparr>ch_metasets := ch_metasets c @ [Some (new_meta c i)]\<rparr>)"
  using assms(2) find_meta_None [of "dataset_at c i" "ch_metasets c"] by (simp add: getDatasetMeta_def)

text \<open>The record of a dataset after its round of the loop.\<close>

definition settled :: "chart \<Rightarrow> types_known \<Rightarrow> nat \<Rightarrow> meta option \<Rightarrow> meta \<Rightarrow> bool" where
  "settled c tk i old m \<longleftrightarrow>
     (let ty = type_of c (ch_datasets c ! i)
      in mt_dataset m = dataset_at c i \<and> mt_index m = i \<and> mt_type m = Some ty \<and>
         (\<exists>k. mt_controller m = Some k \<and> ct_index k = i \<and>
            (case old of
               Some m0 \<Rightarrow> (case mt_controller m0 of Some k0 \<Rightarrow> ct_id k = ct_id k0 \<and> ct_class k = ct_class k0 | None \<Rightarrow> ct_class k = ty)
             | None \<Rightarrow> ct_class k = ty)) \<and>
         mt_hidden m = (case old of Some m0 \<Rightarrow> mt_hidden m0 | None \<Rightarrow> None))"

lemma update_controller_settles:
  assumes "one_each (ch_metasets c)" and "i < length (ch_datasets c)" and "tk_registered tk (type_of c (ch_datasets c ! i))"
    and "\<And>m t ts. metas_of (ch_metasets c) (dataset_at c i) = Some m \<Longrightarrow> mt_type m = Some (t # ts) \<Longrightarrow>
      t # ts = type_of c (ch_datasets c ! i)"
  shows "\<exists>c' new' m. update_controller tk i (c, new) = Some (c', new') \<and> one_each (ch_metasets c') \<and>
    ch_datasets c' = ch_datasets c \<and> ch_type c' = ch_type c \<and>
    metas_of (ch_metasets c') = (metas_of (ch_metasets c))(dataset_at c i \<mapsto> m) \<and>
    settled c tk i (metas_of (ch_metasets c) (dataset_at c i)) m"
proof -
  let ?ty = "type_of c (ch_datasets c ! i)" and ?d = "dataset_at c i" and ?u = "ch_datasets c ! i"
  define m0 where "m0 = (case metas_of (ch_metasets c) ?d of Some m \<Rightarrow> m | None \<Rightarrow> new_meta c i)"
  obtain p c0 where g: "getDatasetMeta i c = (p, c0)" "one_each (ch_metasets c0)" "p < length (ch_metasets c0)"
    "ch_metasets c0 ! p = Some m0" "mt_dataset m0 = ?d" "ch_datasets c0 = ch_datasets c" "ch_type c0 = ch_type c"
    "metas_of (ch_metasets c0) = (metas_of (ch_metasets c))(?d \<mapsto> m0)"
  proof (cases "metas_of (ch_metasets c) ?d")
    case None
    have n: "mt_dataset (new_meta c i) = ?d" by (simp add: new_meta_def)
    show ?thesis
      by (rule that [of "length (ch_metasets c)" "c\<lparr>ch_metasets := ch_metasets c @ [Some (new_meta c i)]\<rparr>"])
        (use getDatasetMeta_new [OF assms(1) None] metas_of_add [OF assms(1), of "new_meta c i"] None n in \<open>simp_all add: m0_def\<close>)
  next
    case (Some m)
    obtain p where p: "getDatasetMeta i c = (p, c)" "p < length (ch_metasets c)" "ch_metasets c ! p = Some m"
      using getDatasetMeta_known [OF assms(1) Some] by blast
    have "mt_dataset m = ?d" using Some metas_of_iff [OF assms(1)] by blast
    with p Some assms(1) show ?thesis by (intro that [of p c]) (auto simp: m0_def fun_upd_idem)
  qed
  have at: "meta_at c0 p = m0" using g(4) by (simp add: meta_at_def)
  have same: "(case mt_type m0 of Some (t # ts) \<Rightarrow> if t # ts \<noteq> ?ty then getDatasetMeta i (destroyDatasetMeta i c0) else (p, c0)
      | _ \<Rightarrow> (p, c0)) = (p, c0)"
  proof (cases "metas_of (ch_metasets c) ?d")
    case None
    then show ?thesis by (simp add: m0_def new_meta_def)
  next
    case (Some m)
    with assms(4) show ?thesis by (auto simp: m0_def split: option.splits list.splits)
  qed
  define m1 where "m1 = m0\<lparr>mt_type := Some ?ty, mt_indexAxis := Some (first_text [ud_indexAxis ?u, Some (tk_indexAxis tk ?ty)]),
    mt_order := (case ud_order ?u of Some r \<Rightarrow> r | None \<Rightarrow> 0), mt_index := i\<rparr>"
  define c1 where "c1 = put_meta p m1 c0"
  have m1: "mt_dataset m1 = ?d" using g(5) by (simp add: m1_def)
  have p1: "one_each (ch_metasets c1)" "metas_of (ch_metasets c1) = (metas_of (ch_metasets c))(?d \<mapsto> m1)"
    "p < length (ch_metasets c1)" "ch_metasets c1 ! p = Some m1" "ch_datasets c1 = ch_datasets c" "ch_type c1 = ch_type c"
    using metas_of_put [OF g(2,3,4), of m1] g m1 by (simp_all add: c1_def put_meta_def)
  have d1: "dataset_at c1 i = ?d" using p1(5) by (simp add: dataset_at_def)
  obtain q where q: "getDatasetMeta i c1 = (q, c1)" using getDatasetMeta_known [OF p1(1), of i m1] p1(2) d1 by auto
  have "snd (isDatasetVisible i c1) = c1" using q by (simp add: isDatasetVisible_def)
  then obtain v where v: "isDatasetVisible i c1 = (v, c1)" by (metis prod.collapse)
  define m2 where "m2 = m1\<lparr>mt_visible := v\<rparr>"
  have put: "one_each (ch_metasets (put_meta p m c1)) \<and> metas_of (ch_metasets (put_meta p m c1)) = (metas_of (ch_metasets c))(?d \<mapsto> m)"
    if "mt_dataset m = ?d" for m
    using metas_of_put [OF p1(1,3,4), of m] that m1 p1(2) by (simp add: put_meta_def)
  have keep: "ch_datasets (put_meta p m c1) = ch_datasets c" "ch_type (put_meta p m c1) = ch_type c" for m
    using p1 by (simp_all add: put_meta_def)
  let ?r = "update_controller tk i (c, new)"
  have r: "?r = (case mt_controller m2 of
      Some k \<Rightarrow> Some (put_meta p (m2\<lparr>mt_controller := Some (k\<lparr>ct_index := i\<rparr>)\<rparr>) c1, new)
    | None \<Rightarrow> Some ((put_meta p (m2\<lparr>mt_controller := Some \<lparr>ct_id = ch_nextController c1, ct_class = ?ty, ct_index = i\<rparr>\<rparr>) c1)
        \<lparr>ch_nextController := ch_nextController c1 + 1\<rparr>, new @ [ch_nextController c1]))"
    using assms(3) unfolding update_controller_def
    by (cases "mt_controller m2") (simp_all add: g(1) at same v [unfolded c1_def m1_def] m2_def m1_def c1_def Let_def)
  have hid: "mt_hidden m0 = (case metas_of (ch_metasets c) ?d of Some m0 \<Rightarrow> mt_hidden m0 | None \<Rightarrow> None)"
    by (simp add: m0_def new_meta_def split: option.split)
  show ?thesis
  proof (cases "mt_controller m0")
    case None
    let ?k = "\<lparr>ct_id = ch_nextController c1, ct_class = ?ty, ct_index = i\<rparr>" and ?m = "m2\<lparr>mt_controller := Some \<lparr>ct_id = ch_nextController c1, ct_class = ?ty, ct_index = i\<rparr>\<rparr>"
    have "mt_controller m2 = None" using None by (simp add: m2_def m1_def)
    moreover have "settled c tk i (metas_of (ch_metasets c) ?d) ?m"
      using None hid g(5) by (auto simp: settled_def m2_def m1_def m0_def Let_def split: option.splits)
    moreover have "mt_dataset ?m = ?d" using m1 by (simp add: m2_def)
    ultimately show ?thesis using r put [of ?m] keep [of ?m] by auto
  next
    case (Some k)
    let ?m = "m2\<lparr>mt_controller := Some (k\<lparr>ct_index := i\<rparr>)\<rparr>"
    have "mt_controller m2 = Some k" using Some by (simp add: m2_def m1_def)
    moreover have "settled c tk i (metas_of (ch_metasets c) ?d) ?m"
      using Some hid g(5) by (auto simp: settled_def m2_def m1_def m0_def new_meta_def Let_def split: option.splits)
    moreover have "mt_dataset ?m = ?d" using m1 by (simp add: m2_def)
    ultimately show ?thesis using r put [of ?m] keep [of ?m] by auto
  qed
qed


definition ids :: "chart \<Rightarrow> nat list" where
  "ids c = map ud_id (ch_datasets c)"

lemma dataset_at_ids: "i < length (ch_datasets c) \<Longrightarrow> dataset_at c i = Some (ids c ! i)"
  by (simp add: dataset_at_def ids_def)

lemma settled_cong:
  "ch_datasets c' = ch_datasets c \<Longrightarrow> ch_type c' = ch_type c \<Longrightarrow> settled c' tk i old m = settled c tk i old m"
  by (simp add: settled_def type_of_def dataset_at_def)

lemma update_controllers_settle:
  assumes "one_each (ch_metasets c)" and "distinct (ids c)" and "distinct js" and "\<forall>i \<in> set js. i < length (ch_datasets c)"
    and "\<forall>i \<in> set js. tk_registered tk (type_of c (ch_datasets c ! i)) \<and>
      (\<forall>m t ts. metas_of (ch_metasets c) (dataset_at c i) = Some m \<longrightarrow> mt_type m = Some (t # ts) \<longrightarrow>
        t # ts = type_of c (ch_datasets c ! i))"
  shows "\<exists>c' new'. update_controllers tk js (c, new) = Some (c', new') \<and> one_each (ch_metasets c') \<and>
    ch_datasets c' = ch_datasets c \<and> ch_type c' = ch_type c \<and>
    (\<forall>i \<in> set js. \<exists>m. metas_of (ch_metasets c') (dataset_at c i) = Some m \<and>
      settled c tk i (metas_of (ch_metasets c) (dataset_at c i)) m) \<and>
    (\<forall>d. d \<notin> dataset_at c ` set js \<longrightarrow> metas_of (ch_metasets c') d = metas_of (ch_metasets c) d)"
  using assms
proof (induction js arbitrary: c new)
  case (Cons j js)
  have j: "j < length (ch_datasets c)" "tk_registered tk (type_of c (ch_datasets c ! j))" using Cons.prems by auto
  have ty: "t # ts = type_of c (ch_datasets c ! j)"
    if "metas_of (ch_metasets c) (dataset_at c j) = Some m" "mt_type m = Some (t # ts)" for m t ts
    using Cons.prems(5) that by auto
  have "\<exists>c' new' m. update_controller tk j (c, new) = Some (c', new') \<and> one_each (ch_metasets c') \<and>
      ch_datasets c' = ch_datasets c \<and> ch_type c' = ch_type c \<and>
      metas_of (ch_metasets c') = (metas_of (ch_metasets c))(dataset_at c j \<mapsto> m) \<and>
      settled c tk j (metas_of (ch_metasets c) (dataset_at c j)) m"
    by (rule update_controller_settles [OF Cons.prems(1) j]) (rule ty)
  then obtain c1 new1 m where 1: "update_controller tk j (c, new) = Some (c1, new1)" "one_each (ch_metasets c1)"
    "ch_datasets c1 = ch_datasets c" "ch_type c1 = ch_type c"
    "metas_of (ch_metasets c1) = (metas_of (ch_metasets c))(dataset_at c j \<mapsto> m)"
    "settled c tk j (metas_of (ch_metasets c) (dataset_at c j)) m"
    by blast
  have at: "dataset_at c1 i = dataset_at c i" and tyo: "type_of c1 d = type_of c d" and ids: "ids c1 = ids c" for i d
    using 1(3,4) by (simp_all add: dataset_at_def type_of_def ids_def)
  have ne: "dataset_at c i \<noteq> dataset_at c j" if "i \<in> set js" for i
  proof -
    have "i < length (ids c)" "j < length (ids c)" "i \<noteq> j" using that Cons.prems(3,4) j(1) by (auto simp: ids_def)
    then have "ids c ! i \<noteq> ids c ! j" using nth_eq_iff_index_eq [OF Cons.prems(2)] by blast
    then show ?thesis using that Cons.prems(4) j(1) by (simp add: dataset_at_ids)
  qed
  have prem: "\<forall>i \<in> set js. tk_registered tk (type_of c1 (ch_datasets c1 ! i)) \<and>
      (\<forall>m t ts. metas_of (ch_metasets c1) (dataset_at c1 i) = Some m \<longrightarrow> mt_type m = Some (t # ts) \<longrightarrow>
        t # ts = type_of c1 (ch_datasets c1 ! i))"
    using Cons.prems(5) ne 1(3,5) at tyo by simp
  obtain c' new' where 2: "update_controllers tk js (c1, new1) = Some (c', new')" "one_each (ch_metasets c')"
    "ch_datasets c' = ch_datasets c1" "ch_type c' = ch_type c1"
    "\<forall>i \<in> set js. \<exists>m. metas_of (ch_metasets c') (dataset_at c1 i) = Some m \<and>
      settled c1 tk i (metas_of (ch_metasets c1) (dataset_at c1 i)) m"
    "\<forall>d. d \<notin> dataset_at c1 ` set js \<longrightarrow> metas_of (ch_metasets c') d = metas_of (ch_metasets c1) d"
    using Cons.IH [OF 1(2) _ _ _ prem, of new1] Cons.prems(2-4) 1(3) ids by auto
  have st: "settled c1 tk i old m = settled c tk i old m" for i old m using settled_cong 1(3,4) by blast
  show ?case
  proof (intro exI conjI)
    show "update_controllers tk (j # js) (c, new) = Some (c', new')" using 1(1) 2(1) by simp
    show "\<forall>i \<in> set (j # js). \<exists>m. metas_of (ch_metasets c') (dataset_at c i) = Some m \<and>
        settled c tk i (metas_of (ch_metasets c) (dataset_at c i)) m"
    proof
      fix i
      assume "i \<in> set (j # js)"
      then consider "i = j" | "i \<in> set js" by auto
      then show "\<exists>m. metas_of (ch_metasets c') (dataset_at c i) = Some m \<and>
          settled c tk i (metas_of (ch_metasets c) (dataset_at c i)) m"
      proof cases
        case 1
        have "dataset_at c j \<notin> dataset_at c ` set js" using ne by (metis imageE)
        then show ?thesis using 1 2(6) \<open>metas_of (ch_metasets c1) = _\<close> \<open>settled c tk j _ m\<close> at by simp
      next
        case 2
        then show ?thesis using \<open>\<forall>i \<in> set js. \<exists>m. _\<close> ne [OF 2] at st \<open>metas_of (ch_metasets c1) = _\<close> by auto
      qed
    qed
    show "\<forall>d. d \<notin> dataset_at c ` set (j # js) \<longrightarrow> metas_of (ch_metasets c') d = metas_of (ch_metasets c) d"
      using 2(6) at 1(5) by auto
  qed (use 1 2 in auto)
qed auto

lemma removeUnreferenced_list:
  "\<exists>st des. removeUnreferencedMetasets c =
     c\<lparr>ch_metasets := map (\<lambda>x. case x of Some m \<Rightarrow> if referenced c m then Some m else None | None \<Rightarrow> None) (ch_metasets c),
       ch_stacks := st, ch_destroyed := des\<rparr>"
proof -
  let ?f = "\<lambda>x. case x of Some m \<Rightarrow> if referenced c m then Some m else None | None \<Rightarrow> None"
  let ?step = "\<lambda>p c. case ch_metasets c ! p of Some m \<Rightarrow> if referenced c m then c else destroyDatasetMeta p c | None \<Rightarrow> c"
  define c0 where "c0 = (if length (ch_metasets c) > length (ch_datasets c) then c\<lparr>ch_stacks := False\<rparr> else c)"
  have ref: "referenced (c\<lparr>ch_metasets := ms, ch_stacks := st, ch_destroyed := des\<rparr>) = referenced c" for ms st des
    by (simp add: referenced_def [abs_def])
  have "k \<le> length (ch_metasets c) \<Longrightarrow> \<exists>st des. fold ?step [0 ..< k] c0 =
      c\<lparr>ch_metasets := map ?f (take k (ch_metasets c)) @ drop k (ch_metasets c), ch_stacks := st, ch_destroyed := des\<rparr>" for k
  proof (induction k)
    case 0
    show ?case
      by (intro exI [of _ "ch_stacks c0"] exI [of _ "ch_destroyed c"]) (simp add: c0_def)
  next
    case (Suc k)
    then obtain st des where ih: "fold ?step [0 ..< k] c0 =
        c\<lparr>ch_metasets := map ?f (take k (ch_metasets c)) @ drop k (ch_metasets c), ch_stacks := st, ch_destroyed := des\<rparr>" by auto
    have k: "k < length (ch_metasets c)" using Suc by simp
    let ?ms = "map ?f (take k (ch_metasets c)) @ drop k (ch_metasets c)"
    have at: "?ms ! k = ch_metasets c ! k" "length ?ms = length (ch_metasets c)" using k by (simp_all add: nth_append)
    have upd: "?ms[k := ?f (ch_metasets c ! k)] = map ?f (take (Suc k) (ch_metasets c)) @ drop (Suc k) (ch_metasets c)"
      using k by (intro nth_equalityI) (auto simp: nth_append nth_list_update less_Suc_eq)
    have keep: "?ms[k := ch_metasets c ! k] = ?ms" using at by (metis list_update_id)
    show ?case
    proof (cases "ch_metasets c ! k")
      case None
      then show ?thesis using ih upd keep at by auto
    next
      case (Some m)
      show ?thesis
      proof (cases "referenced c m")
        case True
        then show ?thesis using ih upd keep at Some ref by auto
      next
        case False
        let ?des = "des @ (case mt_controller m of Some k \<Rightarrow> [ct_id k] | None \<Rightarrow> [])"
        have "?ms[k := None] = map ?f (take (Suc k) (ch_metasets c)) @ drop (Suc k) (ch_metasets c)"
          using upd Some False by simp
        then have "fold ?step [0 ..< Suc k] c0 = c\<lparr>ch_metasets := map ?f (take (Suc k) (ch_metasets c)) @ drop (Suc k) (ch_metasets c),
            ch_stacks := st, ch_destroyed := ?des\<rparr>"
          using ih at Some ref k False by (simp add: destroyDatasetMeta_def)
        then show ?thesis by blast
      qed
    qed
  qed
  from this [of "length (ch_metasets c)"]
  have "\<exists>st des. fold ?step [0 ..< length (ch_metasets c)] c0 =
      c\<lparr>ch_metasets := map ?f (ch_metasets c), ch_stacks := st, ch_destroyed := des\<rparr>" by simp
  moreover have "removeUnreferencedMetasets c = fold ?step [0 ..< length (ch_metasets c0)] c0"
    unfolding removeUnreferencedMetasets_def Let_def c0_def ..
  moreover have "length (ch_metasets c0) = length (ch_metasets c)" by (simp add: c0_def)
  ultimately show ?thesis by simp
qed

lemma present_removed: "present (map (\<lambda>x. case x of Some m \<Rightarrow> if P m then Some m else None | None \<Rightarrow> None) ms) = filter P (present ms)"
  by (induction ms) (auto split: option.splits)

lemma metas_of_removed:
  assumes "one_each (ch_metasets c)"
  shows "one_each (ch_metasets (removeUnreferencedMetasets c)) \<and>
    metas_of (ch_metasets (removeUnreferencedMetasets c)) d =
      (if d \<in> Some ` set (ids c) then metas_of (ch_metasets c) d else None)"
proof -
  let ?R = "ch_metasets (removeUnreferencedMetasets c)"
  have p: "present ?R = filter (referenced c) (present (ch_metasets c))"
    using removeUnreferenced_list [of c] present_removed [of "referenced c"] by auto
  have o: "one_each ?R" using assms by (auto simp: one_each_def p distinct_map inj_on_def)
  have m: "Some m \<in> set ?R \<longleftrightarrow> Some m \<in> set (ch_metasets c) \<and> mt_dataset m \<in> Some ` set (ids c)" for m
    using arg_cong [OF p, of "\<lambda>xs. m \<in> set xs"] by (auto simp: referenced_def list_ex_iff ids_def)
  have "metas_of ?R d = Some x \<longleftrightarrow> (if d \<in> Some ` set (ids c) then metas_of (ch_metasets c) d else None) = Some x" for x
    using metas_of_iff [OF o, of d x] metas_of_iff [OF assms, of d x] m [of x] by auto
  then have "metas_of ?R d = (if d \<in> Some ` set (ids c) then metas_of (ch_metasets c) d else None)"
    by (metis not_Some_eq)
  with o show ?thesis by blast
qed

text \<open>With a record for each dataset and its index in it, sorting restores the order of the datasets.\<close>

lemma updateMetasets_ordered:
  assumes "one_each (ch_metasets c)" and "distinct (ids c)" and "n = length (ch_datasets c)"
    and "\<forall>i < n. \<exists>m. metas_of (ch_metasets c) (dataset_at c i) = Some m \<and> mt_index m = i"
    and "\<forall>d. d \<notin> dataset_at c ` {..<n} \<longrightarrow> metas_of (ch_metasets c) d = None"
  shows "ch_metasets (updateMetasets c) = map (\<lambda>i. metas_of (ch_metasets c) (dataset_at c i)) [0 ..< n] \<and>
    map mt_index (ch_sorted (updateMetasets c)) = sort_key (\<lambda>i. mt_order (the (metas_of (ch_metasets c) (dataset_at c i)))) [0 ..< n]"
proof -
  let ?P = "present (ch_metasets c)" and ?M = "\<lambda>i. the (metas_of (ch_metasets c) (dataset_at c i))"
  have M: "metas_of (ch_metasets c) (dataset_at c i) = Some (?M i)" "mt_index (?M i) = i" if "i < n" for i
    using assms(4) that by fastforce+
  have setP: "set ?P = ?M ` {..<n}"
  proof (intro equalityI subsetI)
    fix m
    assume "m \<in> set ?P"
    then have "metas_of (ch_metasets c) (mt_dataset m) = Some m" using metas_of_iff [OF assms(1)] by auto
    moreover from this have "mt_dataset m \<in> dataset_at c ` {..<n}" using assms(5) by fastforce
    ultimately show "m \<in> ?M ` {..<n}" by force
  next
    fix m
    assume "m \<in> ?M ` {..<n}"
    then show "m \<in> set ?P" using M(1) metas_of_iff [OF assms(1)] by fastforce
  qed
  have inj: "inj_on mt_index (set ?P)" unfolding setP by (auto simp: inj_on_def M(2))
  have dP: "distinct ?P" using assms(1) by (simp add: one_each_def distinct_map)
  have idx: "mt_index ` set ?P = {..<n}" unfolding setP by (force simp: M(2))
  let ?S = "sort_key mt_index ?P"
  have mi: "map mt_index ?S = [0 ..< n]"
    by (rule sorted_distinct_set_unique) (use inj dP idx in \<open>auto simp: distinct_map\<close>)
  have S: "?S = map ?M [0 ..< n]"
  proof (rule nth_equalityI)
    show l: "length ?S = length (map ?M [0 ..< n])" using arg_cong [OF mi, of length] by simp
    fix i
    assume i: "i < length ?S"
    then have "mt_index (?S ! i) = i" using mi l by (metis length_map nth_map nth_upt add_0 diff_zero length_upt)
    moreover have "?S ! i \<in> ?M ` {..<n}" using i setP by (metis nth_mem set_sort)
    ultimately show "?S ! i = map ?M [0 ..< n] ! i" using i l M(2) by auto
  qed
  have lS: "length ?P = n" using arg_cong [OF S, of length] by simp
  have leP: "length ?P \<le> length (ch_metasets c)" by (simp add: present_def)
  define c1 where "c1 = c\<lparr>ch_metasets := map Some ?S @ replicate (length (ch_metasets c) - length ?P) None\<rparr>"
  have destroys: "take n (ch_metasets (fold destroyDatasetMeta js c')) = take n (ch_metasets c')"
    if "\<forall>j \<in> set js. n \<le> j" for js c'
    using that
  proof (induction js arbitrary: c')
    case (Cons j js)
    then show ?case by (simp add: destroyDatasetMeta_def)
  qed simp
  have t: "take n (ch_metasets c1) = map Some ?S" using lS by (simp add: c1_def)
  have l1: "length (ch_metasets c1) = length (ch_metasets c)" using leP by (simp add: c1_def)
  let ?c2 = "if length (ch_metasets c) > length (ch_datasets c) then
      (let c' = fold destroyDatasetMeta [length (ch_datasets c) ..< length (ch_metasets c)] c1
       in c'\<lparr>ch_metasets := take (length (ch_datasets c)) (ch_metasets c')\<rparr>) else c1"
  have c2: "ch_metasets ?c2 = map Some ?S"
  proof (cases "length (ch_metasets c) > length (ch_datasets c)")
    case True
    then show ?thesis
      using destroys [of "[n ..< length (ch_metasets c)]" c1] t assms(3) by (simp add: Let_def)
  next
    case False
    then show ?thesis using t l1 leP lS assms(3) by simp
  qed
  have u: "updateMetasets c = ?c2\<lparr>ch_sorted := sort_key mt_order (sort_key mt_index (present (ch_metasets ?c2)))\<rparr>"
    unfolding updateMetasets_def Let_def c1_def by simp
  have pS: "present (map Some xs) = xs" for xs :: "meta list" by (induction xs) auto
  have e1: "map mt_index (sort_key mt_order (sort_key mt_index ?S)) = sort_key (\<lambda>i. mt_order (?M i)) [0 ..< n]"
  proof -
    have "sort_key mt_index ?S = ?S" by (rule sort_key_id_if_sorted) (rule sorted_sort_key)
    moreover have "map mt_index (sort_key mt_order (map ?M [0 ..< n])) = sort_key (\<lambda>i. mt_order (?M i)) [0 ..< n]"
    proof -
      have ins: "insort_key mt_order (?M i) (map ?M xs) = map ?M (insort_key (\<lambda>i. mt_order (?M i)) i xs)"
        if "\<forall>j \<in> set (i # xs). j < n" for i xs
        using that by (induction xs) (auto simp: M(2))
      have "sort_key mt_order (map ?M xs) = map ?M (sort_key (\<lambda>i. mt_order (?M i)) xs)" if "\<forall>j \<in> set xs. j < n" for xs
        using that
      proof (induction xs)
        case (Cons i xs)
        then show ?case using ins [of i "sort_key (\<lambda>i. mt_order (?M i)) xs"] by simp
      qed simp
      then have "sort_key mt_order (map ?M [0 ..< n]) = map ?M (sort_key (\<lambda>i. mt_order (?M i)) [0 ..< n])" by simp
      moreover have "map mt_index (map ?M ys) = ys" if "\<forall>j \<in> set ys. j < n" for ys
        using that M(2) by (induction ys) auto
      ultimately show ?thesis by simp
    qed
    ultimately show ?thesis using S by simp
  qed
  have e2: "map Some ?S = map (\<lambda>i. metas_of (ch_metasets c) (dataset_at c i)) [0 ..< n]"
    using S M(1) by simp
  have e3: "map mt_index (sort_key mt_order (sort_key mt_index (present (map Some ?S)))) = sort_key (\<lambda>i. mt_order (?M i)) [0 ..< n]"
    unfolding pS by (rule e1)
  obtain d where "updateMetasets c = d\<lparr>ch_sorted := sort_key mt_order (sort_key mt_index (present (ch_metasets d)))\<rparr>"
    "ch_metasets d = map Some ?S" using u c2 by blast
  with e2 e3 show ?thesis by simp
qed

text \<open>
  C12 (records after an update). When the datasets are distinct, their types registered and no dataset changes its type (for a change of type see
  \<^verbatim>\<open>type_change_keeps_controller\<close>), the update makes the array of records follow the
  datasets: one record for each, in their order, with its index and type; a dataset that had a controller keeps it and
  its hidden state, whatever was added, removed or reordered, and every new one gets a controller of its type.
\<close>

theorem records_follow_datasets:
  assumes "one_each (ch_metasets c)" and "distinct (ids c)" and "n = length (ch_datasets c)"
    and "\<forall>d \<in> set (ch_datasets c). tk_registered tk (type_of c d)"
    and "\<forall>i < n. \<forall>m t ts. metas_of (ch_metasets c) (dataset_at c i) = Some m \<longrightarrow> mt_type m = Some (t # ts) \<longrightarrow>
      t # ts = type_of c (ch_datasets c ! i)"
  shows "\<exists>c' new. buildOrUpdateControllers tk c = Some (c', new) \<and> ch_datasets c' = ch_datasets c \<and>
    one_each (ch_metasets c') \<and> length (ch_metasets c') = n \<and>
    (\<forall>i < n. \<exists>m. ch_metasets c' ! i = Some m \<and> settled c tk i (metas_of (ch_metasets c) (dataset_at c i)) m) \<and>
    distinct (map mt_index (ch_sorted c')) \<and> set (map mt_index (ch_sorted c')) = {..<n}"
proof -
  define r where "r = removeUnreferencedMetasets c"
  obtain st des where "r = c\<lparr>ch_metasets := map (\<lambda>x. case x of Some m \<Rightarrow> if referenced c m then Some m else None | None \<Rightarrow> None) (ch_metasets c),
       ch_stacks := st, ch_destroyed := des\<rparr>"
    using removeUnreferenced_list unfolding r_def by blast
  then have rd: "ch_datasets r = ch_datasets c" "ch_type r = ch_type c" by simp_all
  have at: "dataset_at r i = dataset_at c i" and ty: "type_of r d = type_of c d" and idr: "ids r = ids c" for i d
    using rd by (simp_all add: dataset_at_def type_of_def ids_def)
  note rem = metas_of_removed [OF assms(1), folded r_def]
  have in_ids: "dataset_at c i \<in> Some ` set (ids c)" if "i < n" for i
    using that assms(3) by (simp add: dataset_at_ids ids_def)
  have rm: "metas_of (ch_metasets r) (dataset_at c i) = metas_of (ch_metasets c) (dataset_at c i)" if "i < n" for i
    using rem in_ids [OF that] by simp
  have o: "one_each (ch_metasets r)" using rem by blast
  have js: "\<forall>i \<in> set [0 ..< n]. i < length (ch_datasets r)" using assms(3) rd by simp
  have pre: "\<forall>i \<in> set [0 ..< n]. tk_registered tk (type_of r (ch_datasets r ! i)) \<and>
      (\<forall>m t ts. metas_of (ch_metasets r) (dataset_at r i) = Some m \<longrightarrow> mt_type m = Some (t # ts) \<longrightarrow>
        t # ts = type_of r (ch_datasets r ! i))"
    using assms(3-5) rd at ty rm by simp
  have dr: "distinct (ids r)" using assms(2) idr by simp
  obtain u new where u: "update_controllers tk [0 ..< n] (r, []) = Some (u, new)" "one_each (ch_metasets u)"
    "ch_datasets u = ch_datasets r" "ch_type u = ch_type r"
    "\<forall>i \<in> set [0 ..< n]. \<exists>m. metas_of (ch_metasets u) (dataset_at r i) = Some m \<and>
      settled r tk i (metas_of (ch_metasets r) (dataset_at r i)) m"
    "\<forall>d. d \<notin> dataset_at r ` set [0 ..< n] \<longrightarrow> metas_of (ch_metasets u) d = metas_of (ch_metasets r) d"
    using update_controllers_settle [OF o dr distinct_upt js pre, of "[]"] by blast
  have du: "ch_datasets u = ch_datasets c" using u(3) rd(1) by simp
  have atu: "dataset_at u i = dataset_at c i" and idu: "ids u = ids c" for i
    using du by (simp_all add: dataset_at_def ids_def)
  have st: "settled r tk i old m = settled c tk i old m" for i old m using settled_cong rd by blast
  have each: "\<forall>i < n. \<exists>m. metas_of (ch_metasets u) (dataset_at u i) = Some m \<and> mt_index m = i \<and>
      settled c tk i (metas_of (ch_metasets c) (dataset_at c i)) m"
  proof (intro allI impI)
    fix i
    assume i: "i < n"
    then have "i \<in> set [0 ..< n]" by simp
    then obtain m where m: "metas_of (ch_metasets u) (dataset_at r i) = Some m"
      "settled r tk i (metas_of (ch_metasets r) (dataset_at r i)) m" using u(5) by blast
    then have "settled c tk i (metas_of (ch_metasets c) (dataset_at c i)) m" using st at rm [OF i] by simp
    moreover from this have "mt_index m = i" by (simp add: settled_def Let_def)
    ultimately show "\<exists>m. metas_of (ch_metasets u) (dataset_at u i) = Some m \<and> mt_index m = i \<and>
      settled c tk i (metas_of (ch_metasets c) (dataset_at c i)) m" using m(1) at atu by auto
  qed
  have none: "\<forall>d. d \<notin> dataset_at u ` {..<n} \<longrightarrow> metas_of (ch_metasets u) d = None"
  proof (intro allI impI)
    fix d
    assume d: "d \<notin> dataset_at u ` {..<n}"
    have "Some ` set (ids c) = dataset_at c ` {..<n}"
      using assms(3) by (auto simp: dataset_at_ids in_set_conv_nth ids_def image_iff Bex_def) (metis dataset_at_def)+
    then have "metas_of (ch_metasets r) d = None" using rem [of d] d atu by auto
    moreover have "d \<notin> dataset_at r ` set [0 ..< n]" using d atu at by auto
    ultimately show "metas_of (ch_metasets u) d = None" using u(6) by simp
  qed
  have dis: "distinct (ids u)" and nu: "n = length (ch_datasets u)" using assms(2,3) idu du by simp_all
  have ei: "\<forall>i < n. \<exists>m. metas_of (ch_metasets u) (dataset_at u i) = Some m \<and> mt_index m = i" using each by blast
  note fin = updateMetasets_ordered [OF u(2) dis nu ei none]
  define c' where "c' = updateMetasets u"
  have b: "buildOrUpdateControllers tk c = Some (c', new)"
    using u(1) assms(3) by (simp add: buildOrUpdateControllers_def r_def c'_def)
  have ms: "ch_metasets c' = map (\<lambda>i. metas_of (ch_metasets u) (dataset_at u i)) [0 ..< n]"
    and so: "map mt_index (ch_sorted c') = sort_key (\<lambda>i. mt_order (the (metas_of (ch_metasets u) (dataset_at u i)))) [0 ..< n]"
    using fin by (simp_all add: c'_def)
  have dc: "ch_datasets (fold destroyDatasetMeta js d) = ch_datasets d" for js d
    by (induction js arbitrary: d) (auto simp: destroyDatasetMeta_def)
  have "ch_datasets c' = ch_datasets c" using du by (simp add: c'_def updateMetasets_def Let_def dc)
  moreover have "one_each (ch_metasets c')"
  proof -
    have p: "present (map f ks) = map (\<lambda>i. the (f i)) ks" if "\<forall>i \<in> set ks. f i \<noteq> None" for f :: "nat \<Rightarrow> meta option" and ks
      using that by (induction ks) auto
    have "mt_dataset (the (metas_of (ch_metasets u) (dataset_at u i))) = Some (ids c ! i)" if i: "i < n" for i
    proof -
      obtain m where "metas_of (ch_metasets u) (dataset_at u i) = Some m" using each i by blast
      moreover from this have "mt_dataset m = dataset_at u i" using metas_of_iff [OF u(2)] by blast
      ultimately show ?thesis using atu [of i] dataset_at_ids [of i c] i assms(3) by simp
    qed
    then have "map mt_dataset (present (ch_metasets c')) = map (\<lambda>i. Some (ids c ! i)) [0 ..< n]"
      unfolding ms using each by (subst p) auto
    moreover have "distinct (map (\<lambda>i. Some (ids c ! i)) [0 ..< n])"
      using nth_eq_iff_index_eq [OF assms(2)] assms(3) by (auto simp: distinct_map inj_on_def ids_def simp del: nth_map)
    ultimately show ?thesis by (simp add: one_each_def)
  qed
  moreover have "\<forall>i < n. \<exists>m. ch_metasets c' ! i = Some m \<and> settled c tk i (metas_of (ch_metasets c) (dataset_at c i)) m"
    using each by (auto simp: ms)
  moreover have "set (map mt_index (ch_sorted c')) = {..<n}" "distinct (map mt_index (ch_sorted c'))"
    unfolding so by auto
  moreover have "length (ch_metasets c') = n" by (simp add: ms)
  ultimately show ?thesis using b by blast
qed

text \<open>A chart whose datasets are identities of one type, with the records given.\<close>

definition example_chart :: "(nat \<times> string) list \<Rightarrow> meta option list \<Rightarrow> chart" where
  "example_chart ds ms =
     \<lparr>ch_datasets = map (\<lambda>(d, ty). \<lparr>ud_id = d, ud_type = Some ty, ud_order = None, ud_hidden = False, ud_indexAxis = None\<rparr>) ds,
      ch_type = ''line'', ch_metasets = ms, ch_sorted = [], ch_stacks = False, ch_nextController = 10, ch_destroyed = []\<rparr>"

definition example_meta :: "nat \<Rightarrow> nat \<Rightarrow> string \<Rightarrow> meta" where
  "example_meta d i ty =
     \<lparr>mt_dataset = Some d, mt_type = Some ty, mt_controller = Some \<lparr>ct_id = d, ct_class = ty, ct_index = i\<rparr>, mt_hidden = None,
      mt_order = 0, mt_index = i, mt_indexAxis = Some ''x'', mt_visible = True\<rparr>"

definition all_types :: types_known where
  "all_types = \<lparr>tk_registered = (\<lambda>_. True), tk_indexAxis = (\<lambda>_. ''x'')\<rparr>"

theorem records_follow_datasets_witness:
  "\<exists>c' new m0 m1. buildOrUpdateControllers all_types
      (example_chart [(2, ''line''), (5, ''bar'')] [Some (example_meta 1 0 ''line''), Some (example_meta 2 1 ''line'')]) = Some (c', new) \<and>
    ch_metasets c' = [Some m0, Some m1] \<and> map_option ct_id (mt_controller m0) = Some 2 \<and>
    map_option ct_class (mt_controller m1) = Some ''bar''"
proof -
  let ?c = "example_chart [(2, ''line''), (5, ''bar'')] [Some (example_meta 1 0 ''line''), Some (example_meta 2 1 ''line'')]"
  have m: "ch_metasets ?c = [Some (example_meta 1 0 ''line''), Some (example_meta 2 1 ''line'')]"
    and d: "dataset_at ?c 0 = Some 2" "dataset_at ?c 1 = Some 5" "length (ch_datasets ?c) = 2" "ids ?c = [2, 5]"
      "type_of ?c (ch_datasets ?c ! 0) = ''line''" "type_of ?c (ch_datasets ?c ! 1) = ''bar''"
    by (simp_all add: example_chart_def dataset_at_def ids_def type_of_def)
  have l: "metas_of (ch_metasets ?c) (Some 2) = Some (example_meta 2 1 ''line'')" "metas_of (ch_metasets ?c) (Some 5) = None"
    unfolding m by (simp_all add: metas_of_def example_meta_def)
  have o: "one_each (ch_metasets ?c)" unfolding m by (simp add: one_each_def example_meta_def)
  have dis: "distinct (ids ?c)" unfolding d(4) by simp
  have reg: "\<forall>d \<in> set (ch_datasets ?c). tk_registered all_types (type_of ?c d)" by (simp add: all_types_def)
  have ty: "\<forall>i < 2. \<forall>m t ts. metas_of (ch_metasets ?c) (dataset_at ?c i) = Some m \<longrightarrow> mt_type m = Some (t # ts) \<longrightarrow>
      t # ts = type_of ?c (ch_datasets ?c ! i)"
    using d l by (auto simp: less_2_cases_iff example_meta_def)
  obtain c' new where r: "buildOrUpdateControllers all_types ?c = Some (c', new)" "length (ch_metasets c') = 2"
    "\<forall>i < 2. \<exists>m. ch_metasets c' ! i = Some m \<and> settled ?c all_types i (metas_of (ch_metasets ?c) (dataset_at ?c i)) m"
    using records_follow_datasets [OF o dis _ reg ty] d(3) by (auto simp del: all_simps)
  obtain m0 m1 where s: "ch_metasets c' ! 0 = Some m0" "settled ?c all_types 0 (metas_of (ch_metasets ?c) (dataset_at ?c 0)) m0"
    "ch_metasets c' ! 1 = Some m1" "settled ?c all_types 1 (metas_of (ch_metasets ?c) (dataset_at ?c 1)) m1"
    using r(3) by (metis one_less_numeral_iff semiring_norm(76) zero_less_numeral)
  have "ch_metasets c' = [Some m0, Some m1]"
    using r(2) s(1,3) by (intro nth_equalityI) (auto simp: less_Suc_eq numeral_2_eq_2)
  moreover have "map_option ct_id (mt_controller m0) = Some 2" "map_option ct_class (mt_controller m1) = Some ''bar''"
    using s(2,4) d l by (auto simp: settled_def example_meta_def Let_def)
  ultimately show ?thesis using r(1) by blast
qed

text \<open>
  The type of a dataset. When a dataset changes its type in an update in which another one before it is removed, the wrong position of the
  array is cleared, so it keeps the controller of its old type.
\<close>

lemma type_change_keeps_controller:
  "map_option (\<lambda>(c', new). map (map_option (\<lambda>m. (mt_type m, map_option ct_class (mt_controller m)))) (ch_metasets c'))
     (buildOrUpdateControllers all_types
       (example_chart [(2, ''bar'')] [Some (example_meta 1 0 ''line''), Some (example_meta 2 1 ''line'')])) =
   Some [Some (Some ''bar'', Some ''line'')]"
  by code_simp

end
