(* ===== verification/Chart_Events.thy ===== *)
theory Chart_Events
  imports Core_Helpers Canvas
begin

text \<open>
  Events, drawing order and listeners of a chart (class \<open>Chart\<close> in \<^verbatim>\<open>chart.js\<close>, from \<open>bindEvents\<close> to
  \<open>_getActiveElements\<close>, and \<open>draw\<close>), with the listeners of the platform (\<open>DomPlatform\<close>) and the two functions that delay calls
  (\<open>throttled\<close>, \<open>debounce\<close>).

  Which items are at an event is a parameter (see \<open>Interaction\<close>), as are the answers of
  plugins.
\<close>

section \<open>Delayed calls\<close>

text \<open>A throttled function: whether a frame is requested, and the arguments of the last call.\<close>

record 'a throttle =
  th_ticking :: bool
  th_args :: "'a option"

definition throttle_start :: "'a throttle" where
  "throttle_start = \<lparr>th_ticking = False, th_args = None\<rparr>"

text \<open>A call; the second component tells whether a frame is requested. Then the frame, with the arguments that it passes on.\<close>

definition throttle_call :: "'a \<Rightarrow> 'a throttle \<Rightarrow> 'a throttle \<times> bool" where
  "throttle_call args t = (t\<lparr>th_args := Some args, th_ticking := True\<rparr>, \<not> th_ticking t)"

definition throttle_frame :: "'a throttle \<Rightarrow> 'a throttle \<times> 'a option" where
  "throttle_frame t = (t\<lparr>th_ticking := False\<rparr>, th_args t)"

text \<open>
  A debounced function. With a delay the timer passes one argument, the array of arguments; without, the arguments are spread.
\<close>

datatype 'a passed = Spread "'a list" | AsArray "'a list"

definition debounce_call :: "nat \<Rightarrow> 'a list \<Rightarrow> 'a passed option \<Rightarrow> 'a passed option \<times> 'a passed option" where
  "debounce_call delay args timer = (if delay \<noteq> 0 then (Some (AsArray args), None) else (timer, Some (Spread args)))"

section \<open>Events and hover styles\<close>

text \<open>
  An item is a dataset, an index and the element found there (which may be missing); elements have an identity of their own, and move with
  their data when the chart is updated. \<open>hs_styled\<close> holds the elements whose flag \<open>active\<close> is set, \<open>hs_datasetStyled\<close> those of whole datasets.
\<close>

record event =
  em_type :: string
  em_pos :: "real \<times> real"

record item =
  im_dataset :: nat
  im_index :: nat
  im_element :: "nat option"

record hover_state =
  hs_active :: "item list"
  hs_lastEvent :: "event option"
  hs_styled :: "nat set"
  hs_datasetStyled :: "nat set"

text \<open>
  What the chart shows: the mode of hovering (empty when it is turned off), the datasets with a controller, their elements
  (\<open>meta.data\<close>) and the elements of whole datasets (\<open>meta.dataset\<close>).
\<close>

record view =
  vw_mode :: string
  vw_controller :: "nat \<Rightarrow> bool"
  vw_element :: "nat \<Rightarrow> nat \<Rightarrow> nat option"
  vw_datasetElement :: "nat \<Rightarrow> nat option"

definition isClickEvent :: "event \<Rightarrow> bool" where
  "isClickEvent e \<longleftrightarrow> em_type e \<in> {''mouseup'', ''click'', ''contextmenu''}"

definition determineLastEvent :: "event \<Rightarrow> event option \<Rightarrow> bool \<Rightarrow> bool \<Rightarrow> event option" where
  "determineLastEvent e lastEvent inChartArea isClick =
     (if \<not> inChartArea \<or> em_type e = ''mouseout'' then None else if isClick then lastEvent else Some e)"

text \<open>Setting a style on a missing element throws, which is \<open>None\<close>.\<close>

definition setStyle :: "bool \<Rightarrow> nat \<Rightarrow> hover_state \<Rightarrow> hover_state" where
  "setStyle enabled e s = s\<lparr>hs_styled := (if enabled then insert e (hs_styled s) else hs_styled s - {e})\<rparr>"

definition setDatasetStyle :: "bool \<Rightarrow> nat option \<Rightarrow> hover_state \<Rightarrow> hover_state" where
  "setDatasetStyle enabled element s =
     (case element of
        None \<Rightarrow> s
      | Some e \<Rightarrow> s\<lparr>hs_datasetStyled := (if enabled then insert e (hs_datasetStyled s) else hs_datasetStyled s - {e})\<rparr>)"

primrec style_items :: "view \<Rightarrow> bool \<Rightarrow> item list \<Rightarrow> hover_state \<Rightarrow> hover_state option" where
  "style_items view enabled [] s = Some s"
| "style_items view enabled (item # items) s =
     (if \<not> vw_controller view (im_dataset item) then style_items view enabled items s
      else case im_element item of None \<Rightarrow> None | Some e \<Rightarrow> style_items view enabled items (setStyle enabled e s))"

definition updateHoverStyle :: "view \<Rightarrow> item list \<Rightarrow> bool \<Rightarrow> hover_state \<Rightarrow> hover_state option" where
  "updateHoverStyle view items enabled s =
     (if vw_mode view = ''dataset'' then
        if \<not> vw_controller view (im_dataset (hd items)) then None
        else style_items view enabled items (setDatasetStyle enabled (vw_datasetElement view (im_dataset (hd items))) s)
      else style_items view enabled items s)"

definition key :: "item \<Rightarrow> nat \<times> nat" where
  "key item = (im_dataset item, im_index item)"

definition diff :: "item list \<Rightarrow> item list \<Rightarrow> item list" where
  "diff a b = filter (\<lambda>x. key x \<notin> key ` set b) a"

definition updateHoverStyles :: "view \<Rightarrow> item list \<Rightarrow> item list \<Rightarrow> bool \<Rightarrow> hover_state \<Rightarrow> hover_state option" where
  "updateHoverStyles view active lastActive replay s =
     (let deactivated = diff lastActive active;
          activated = (if replay then active else diff active lastActive)
      in Option.bind (if deactivated \<noteq> [] then updateHoverStyle view deactivated False s else Some s)
           (\<lambda>s1. if activated \<noteq> [] \<and> vw_mode view \<noteq> [] then updateHoverStyle view activated True s1 else Some s1))"

definition getActiveElements :: "(event \<Rightarrow> bool \<Rightarrow> item list) \<Rightarrow> event \<Rightarrow> item list \<Rightarrow> bool \<Rightarrow> bool \<Rightarrow> item list" where
  "getActiveElements hits e lastActive inChartArea useFinalPosition =
     (if em_type e = ''mouseout'' then [] else if \<not> inChartArea then lastActive else hits e useFinalPosition)"

definition items_equal :: "item list \<Rightarrow> item list \<Rightarrow> bool" where
  "items_equal a b = elementsEqual (Some (map key a)) (Some (map key b))"

text \<open>The calls of the user's functions.\<close>

datatype user_call = OnHover "item list" | OnClick "item list"

definition handleEvent :: "view \<Rightarrow> (event \<Rightarrow> bool \<Rightarrow> item list) \<Rightarrow> event \<Rightarrow> bool \<Rightarrow> bool \<Rightarrow> hover_state \<Rightarrow>
    (bool \<times> hover_state \<times> user_call list) option" where
  "handleEvent view hits e replay inChartArea s =
     (let lastActive = hs_active s;
          active = getActiveElements hits e lastActive inChartArea replay;
          isClick = isClickEvent e;
          lastEvent = determineLastEvent e (hs_lastEvent s) inChartArea isClick;
          calls = (if inChartArea then [OnHover active] @ (if isClick then [OnClick active] else []) else []);
          changed = \<not> items_equal active lastActive
      in map_option (\<lambda>s1. (changed, s1\<lparr>hs_lastEvent := lastEvent\<rparr>, calls))
           (if changed \<or> replay then updateHoverStyles view active lastActive replay (s\<lparr>hs_active := active\<rparr>) else Some s))"

text \<open>
  \<open>_eventHandler\<close>: a plugin may refuse the event, or ask for a new drawing. The result tells whether the
  chart is rendered.
\<close>

definition eventHandler :: "view \<Rightarrow> (event \<Rightarrow> bool \<Rightarrow> item list) \<Rightarrow> bool \<Rightarrow> bool \<Rightarrow> rect_area option \<Rightarrow> real option \<Rightarrow>
    event \<Rightarrow> bool \<Rightarrow> hover_state \<Rightarrow> (bool \<times> hover_state \<times> user_call list) option" where
  "eventHandler view hits accepted argsChanged area minPadding e replay s =
     (if \<not> accepted then Some (False, s, [])
      else map_option (\<lambda>(changed, s', calls). (changed \<or> argsChanged, s', calls))
             (handleEvent view hits e replay (isPointInArea (Some (em_pos e)) area minPadding) s))"

definition found_item :: "view \<Rightarrow> nat \<times> nat \<Rightarrow> item" where
  "found_item view k = \<lparr>im_dataset = fst k, im_index = snd k, im_element = vw_element view (fst k) (snd k)\<rparr>"

definition setActiveElements :: "view \<Rightarrow> (nat \<times> nat) list \<Rightarrow> hover_state \<Rightarrow> hover_state option" where
  "setActiveElements view activeElements s =
     (let lastActive = hs_active s; active = map (found_item view) activeElements
      in if \<not> items_equal active lastActive
         then updateHoverStyles view active lastActive False (s\<lparr>hs_active := active, hs_lastEvent := None\<rparr>)
         else Some s)"

text \<open>The end of \<open>update\<close>: the last event is replayed, or the styles are set again.\<close>

definition after_update :: "view \<Rightarrow> (event \<Rightarrow> bool \<Rightarrow> item list) \<Rightarrow> bool \<Rightarrow> rect_area option \<Rightarrow> real option \<Rightarrow>
    hover_state \<Rightarrow> hover_state option" where
  "after_update view hits accepted area minPadding s =
     (case hs_lastEvent s of
        Some e \<Rightarrow> map_option (\<lambda>(changed, s', calls). s') (eventHandler view hits accepted False area minPadding e True s)
      | None \<Rightarrow> if hs_active s \<noteq> [] then updateHoverStyles view (hs_active s) (hs_active s) True s else Some s)"

section \<open>Drawing order\<close>

record layer =
  ly_z :: real
  ly_idx :: nat
  ly_box :: nat

text \<open>The comparison by level and then by position in the list is a stable sort.\<close>

definition number_layers :: "layer list \<Rightarrow> layer list" where
  "number_layers layers = map2 (\<lambda>i l. l\<lparr>ly_idx := i\<rparr>) [0 ..< length layers] layers"

definition sort_layers :: "layer list \<Rightarrow> layer list" where
  "sort_layers layers = sort_key ly_z (sort_key ly_idx layers)"

datatype drawn = Clear | Layer layer | Dataset nat

text \<open>The datasets are drawn from the last to the first, each if its plugins allow it.\<close>

definition drawDatasets :: "(string \<Rightarrow> nat option \<Rightarrow> bool) \<Rightarrow> nat list \<Rightarrow> drawn list" where
  "drawDatasets notify visible =
     (if \<not> notify ''beforeDatasetsDraw'' None then []
      else map Dataset (filter (\<lambda>i. notify ''beforeDatasetDraw'' (Some i)) (rev visible)))"

definition draw :: "(string \<Rightarrow> nat option \<Rightarrow> bool) \<Rightarrow> real \<Rightarrow> real \<Rightarrow> layer list \<Rightarrow> nat list \<Rightarrow> drawn list" where
  "draw notify width height layers visible =
     [Clear] @
     (if width \<le> 0 \<or> height \<le> 0 \<or> \<not> notify ''beforeDraw'' None then []
      else map Layer (takeWhile (\<lambda>l. ly_z l \<le> 0) layers) @ drawDatasets notify visible @
           map Layer (dropWhile (\<lambda>l. ly_z l \<le> 0) layers))"

section \<open>Listeners\<close>

text \<open>
  The listeners of a chart by type of event, what the platform has connected for each type
  (\<open>$proxies\<close>, with an identity for each connection), and the connections that are live in the browser. The listeners
  for a responsive chart are in an object of their own; each binding makes a new one, which its functions \<open>attached\<close> and
  \<open>detached\<close> keep. \<open>ls_closure\<close> gives the object that the function behind a connection keeps, if it is one of these.
\<close>

datatype action = Resize | StopChart | ResizeToZero

record listening =
  ls_attached :: bool
  ls_listeners :: "string list"
  ls_responsive :: "nat option"
  ls_objects :: "nat \<Rightarrow> string list"
  ls_nextObject :: nat
  ls_proxies :: "string \<Rightarrow> nat option"
  ls_closure :: "nat \<Rightarrow> nat option"
  ls_live :: "nat set"
  ls_next :: nat
  ls_actions :: "action list"

definition removeEventListener :: "string \<Rightarrow> listening \<Rightarrow> listening" where
  "removeEventListener ty s =
     (case ls_proxies s ty of
        None \<Rightarrow> s
      | Some p \<Rightarrow> s\<lparr>ls_live := ls_live s - {p}, ls_proxies := (ls_proxies s)(ty := None)\<rparr>)"

text \<open>An observer of the size needs a container; without one nothing is connected. \<open>keeps\<close> is the object of the function connected.\<close>

definition addEventListener :: "bool \<Rightarrow> string \<Rightarrow> nat option \<Rightarrow> listening \<Rightarrow> listening" where
  "addEventListener hasContainer ty keeps s =
     (let s1 = removeEventListener ty s
      in if ty = ''resize'' \<and> \<not> hasContainer then s1
         else s1\<lparr>ls_proxies := (ls_proxies s1)(ty := Some (ls_next s1)), ls_live := insert (ls_next s1) (ls_live s1),
                ls_closure := (ls_closure s1)(ls_next s1 := keeps), ls_next := ls_next s1 + 1\<rparr>)"

definition set_key :: "string \<Rightarrow> string list \<Rightarrow> string list" where
  "set_key k ks = (if k \<in> set ks then ks else ks @ [k])"

definition add_responsive :: "nat \<Rightarrow> bool \<Rightarrow> string \<Rightarrow> listening \<Rightarrow> listening" where
  "add_responsive ob hasContainer ty s =
     (let s1 = addEventListener hasContainer ty (Some ob) s
      in s1\<lparr>ls_objects := (ls_objects s1)(ob := set_key ty (ls_objects s1 ob))\<rparr>)"

definition remove_responsive :: "nat \<Rightarrow> string \<Rightarrow> listening \<Rightarrow> listening" where
  "remove_responsive ob ty s =
     (if ty \<in> set (ls_objects s ob)
      then (removeEventListener ty s)\<lparr>ls_objects := (ls_objects s)(ob := filter (\<lambda>k. k \<noteq> ty) (ls_objects s ob))\<rparr>
      else s)"

text \<open>
  \<open>attached\<close> resizes the chart in between: \<open>resize\<close> is what this does to the listeners, see \<open>resize_effect\<close>.
\<close>

definition attached :: "(listening \<Rightarrow> listening) \<Rightarrow> nat \<Rightarrow> bool \<Rightarrow> listening \<Rightarrow> listening" where
  "attached resize ob hasContainer s =
     (let s1 = (remove_responsive ob ''attach'' s)\<lparr>ls_attached := True\<rparr>;
          s2 = resize (s1\<lparr>ls_actions := ls_actions s1 @ [Resize]\<rparr>)
      in add_responsive ob hasContainer ''detach'' (add_responsive ob hasContainer ''resize'' s2))"

definition detached :: "nat \<Rightarrow> bool \<Rightarrow> listening \<Rightarrow> listening" where
  "detached ob hasContainer s =
     (let s1 = remove_responsive ob ''resize'' (s\<lparr>ls_attached := False\<rparr>);
          s2 = s1\<lparr>ls_actions := ls_actions s1 @ [StopChart, ResizeToZero]\<rparr>
      in add_responsive ob hasContainer ''attach'' s2)"

definition bindUserEvents :: "bool \<Rightarrow> string list \<Rightarrow> listening \<Rightarrow> listening" where
  "bindUserEvents hasContainer events s =
     fold (\<lambda>ty s. let s1 = addEventListener hasContainer ty None s in s1\<lparr>ls_listeners := set_key ty (ls_listeners s1)\<rparr>) events s"

text \<open>The object of the listeners, a new one if there is none.\<close>

definition responsive_object :: "listening \<Rightarrow> nat \<times> listening" where
  "responsive_object s =
     (case ls_responsive s of
        Some ob \<Rightarrow> (ob, s)
      | None \<Rightarrow> (ls_nextObject s, s\<lparr>ls_responsive := Some (ls_nextObject s), ls_objects := (ls_objects s)(ls_nextObject s := []),
                   ls_nextObject := ls_nextObject s + 1\<rparr>))"

definition bindResponsiveEvents :: "(listening \<Rightarrow> listening) \<Rightarrow> bool \<Rightarrow> bool \<Rightarrow> listening \<Rightarrow> listening" where
  "bindResponsiveEvents resize isAttached hasContainer s =
     (let (ob, s1) = responsive_object s
      in if isAttached then attached resize ob hasContainer s1 else detached ob hasContainer s1)"

definition bindEvents :: "(listening \<Rightarrow> listening) \<Rightarrow> bool \<Rightarrow> bool \<Rightarrow> bool \<Rightarrow> string list \<Rightarrow> listening \<Rightarrow> listening" where
  "bindEvents resize responsive isAttached hasContainer events s =
     (let s1 = bindUserEvents hasContainer events s
      in if responsive then bindResponsiveEvents resize isAttached hasContainer s1 else s1\<lparr>ls_attached := True\<rparr>)"

definition unbindEvents :: "listening \<Rightarrow> listening" where
  "unbindEvents s =
     (let s1 = (fold removeEventListener (ls_listeners s) s)\<lparr>ls_listeners := []\<rparr>;
          s2 = fold removeEventListener (case ls_responsive s1 of Some ob \<Rightarrow> ls_objects s1 ob | None \<Rightarrow> []) s1
      in s2\<lparr>ls_responsive := None\<rparr>)"

definition checkEventBindings :: "(listening \<Rightarrow> listening) \<Rightarrow> bool \<Rightarrow> bool \<Rightarrow> bool \<Rightarrow> string list \<Rightarrow> listening \<Rightarrow> listening" where
  "checkEventBindings resize responsive isAttached hasContainer events s =
     (if \<not> setsEqual (remdups (ls_listeners s)) (remdups events) \<or> (ls_responsive s \<noteq> None) \<noteq> responsive
      then bindEvents resize responsive isAttached hasContainer events (unbindEvents s) else s)"

text \<open>
  What resizing does to the listeners: nothing while the animator runs, when the size is the same, or with a delay; else the chart is updated
  at once, with the options of that time, which checks the bindings, and binding them again may resize again.
\<close>

datatype resized = Unchanged | Updated bool bool bool "string list" resized

primrec resize_effect :: "resized \<Rightarrow> listening \<Rightarrow> listening" where
  "resize_effect Unchanged s = s"
| "resize_effect (Updated responsive isAttached hasContainer events r) s =
     checkEventBindings (resize_effect r) responsive isAttached hasContainer events s"

section \<open>Hover styles: lemmas\<close>

text \<open>An item as the chart shows it, and a view in which no two places share an element and hovering is turned on.\<close>

definition fits :: "view \<Rightarrow> item \<Rightarrow> bool" where
  "fits view item \<longleftrightarrow> vw_controller view (im_dataset item) \<and> im_element item \<noteq> None \<and>
     im_element item = vw_element view (im_dataset item) (im_index item)"

definition hovering :: "view \<Rightarrow> bool" where
  "hovering view \<longleftrightarrow> vw_mode view \<noteq> [] \<and>
     (\<forall>d i d' i'. vw_element view d i \<noteq> None \<longrightarrow> vw_element view d i = vw_element view d' i' \<longrightarrow> d = d' \<and> i = i')"

definition elements :: "item list \<Rightarrow> nat set" where
  "elements items = (\<lambda>x. the (im_element x)) ` set items"

lemma fits_key: "fits view x \<Longrightarrow> fits view y \<Longrightarrow> key x = key y \<longleftrightarrow> x = y"
  by (cases x; cases y) (auto simp: fits_def key_def)

lemma fits_element:
  assumes "hovering view" and "fits view x" and "fits view y"
  shows "the (im_element x) = the (im_element y) \<longleftrightarrow> x = y"
proof
  assume e: "the (im_element x) = the (im_element y)"
  have "im_element x \<noteq> None" "im_element y \<noteq> None" using assms(2,3) unfolding fits_def by blast+
  with e have "im_element x = im_element y" by (metis option.expand)
  then have "im_dataset x = im_dataset y \<and> im_index x = im_index y"
    using assms unfolding fits_def hovering_def by metis
  then show "x = y" using fits_key [OF assms(2,3)] by (simp add: key_def)
qed simp

lemma style_items_fit:
  assumes "\<forall>x \<in> set items. fits view x"
  shows "\<exists>s'. style_items view enabled items s = Some s' \<and> hs_active s' = hs_active s \<and>
    hs_styled s' = (if enabled then hs_styled s \<union> elements items else hs_styled s - elements items)"
  using assms
proof (induction items arbitrary: s)
  case (Cons x items)
  then obtain e where e: "im_element x = Some e" "vw_controller view (im_dataset x)" by (auto simp: fits_def)
  from Cons obtain s' where s': "style_items view enabled items (setStyle enabled e s) = Some s'"
    "hs_active s' = hs_active s" "hs_styled s' = (if enabled then hs_styled (setStyle enabled e s) \<union> elements items
       else hs_styled (setStyle enabled e s) - elements items)"
    by (fastforce simp: setStyle_def)
  then show ?case using e by (auto simp: elements_def setStyle_def)
qed (simp add: elements_def)

lemma updateHoverStyle_fit:
  assumes "\<forall>x \<in> set items. fits view x" and "items \<noteq> []"
  shows "\<exists>s'. updateHoverStyle view items enabled s = Some s' \<and> hs_active s' = hs_active s \<and>
    hs_styled s' = (if enabled then hs_styled s \<union> elements items else hs_styled s - elements items)"
proof -
  have "vw_controller view (im_dataset (hd items))" using assms by (auto simp: fits_def)
  then show ?thesis
    using style_items_fit [OF assms(1), of enabled s]
      style_items_fit [OF assms(1), of enabled "setDatasetStyle enabled (vw_datasetElement view (im_dataset (hd items))) s"]
    by (auto simp: updateHoverStyle_def setDatasetStyle_def split: option.splits)
qed

lemma elements_diff:
  assumes "hovering view" and "\<forall>x \<in> set active \<union> set lastActive. fits view x"
  shows "elements lastActive - elements (diff lastActive active) = elements lastActive \<inter> elements active"
    and "elements lastActive \<inter> elements active \<union> elements (diff active lastActive) = elements active"
proof -
  let ?e = "\<lambda>x. the (im_element x)"
  have k: "key x \<in> key ` set ys \<longleftrightarrow> x \<in> set ys" if "fits view x" "\<forall>y \<in> set ys. fits view y" for x ys
    using that fits_key [OF that(1)] by (auto simp: image_iff)
  have el: "?e x \<in> elements ys \<longleftrightarrow> x \<in> set ys" if "fits view x" "\<forall>y \<in> set ys. fits view y" for x ys
    using that fits_element [OF assms(1) that(1)] by (auto simp: elements_def image_iff)
  have d: "elements (diff xs ys) = {?e x | x. x \<in> set xs \<and> x \<notin> set ys}"
    if "\<forall>x \<in> set xs \<union> set ys. fits view x" for xs ys
    using that k by (auto simp: elements_def diff_def)
  have m: "elements xs = {?e x | x. x \<in> set xs}" for xs by (auto simp: elements_def)
  have f: "\<forall>x \<in> set lastActive. fits view x" "\<forall>x \<in> set active. fits view x" using assms(2) by auto
  have i: "?e x = ?e y \<longleftrightarrow> x = y" if "x \<in> set lastActive \<union> set active" "y \<in> set lastActive \<union> set active" for x y
    using fits_element [OF assms(1)] that f by blast
  have d1: "elements (diff lastActive active) = {?e x | x. x \<in> set lastActive \<and> x \<notin> set active}" by (rule d) (use f in blast)
  have d2: "elements (diff active lastActive) = {?e x | x. x \<in> set active \<and> x \<notin> set lastActive}" by (rule d) (use f in blast)
  show "elements lastActive - elements (diff lastActive active) = elements lastActive \<inter> elements active"
    unfolding d1 unfolding m using i by blast
  show "elements lastActive \<inter> elements active \<union> elements (diff active lastActive) = elements active"
    unfolding d2 unfolding m using i by blast
qed

lemma updateHoverStyles_fit:
  assumes "hovering view" and "\<forall>x \<in> set active \<union> set lastActive. fits view x" and "hs_styled s = elements lastActive"
  shows "\<exists>s'. updateHoverStyles view active lastActive replay s = Some s' \<and> hs_active s' = hs_active s \<and> hs_styled s' = elements active"
proof -
  let ?de = "diff lastActive active" and ?ac = "if replay then active else diff active lastActive"
  have f: "\<forall>x \<in> set ?de. fits view x" "\<forall>x \<in> set ?ac. fits view x" using assms(2) by (auto simp: diff_def)
  have none: "elements [] = {}" by (simp add: elements_def)
  obtain s1 where s1: "(if ?de \<noteq> [] then updateHoverStyle view ?de False s else Some s) = Some s1" "hs_active s1 = hs_active s"
    "hs_styled s1 = elements lastActive - elements ?de"
    using updateHoverStyle_fit [OF f(1), of False s] assms(3) none by (cases "?de = []") auto
  obtain s2 where s2: "(if ?ac \<noteq> [] then updateHoverStyle view ?ac True s1 else Some s1) = Some s2" "hs_active s2 = hs_active s1"
    "hs_styled s2 = hs_styled s1 \<union> elements ?ac"
    using updateHoverStyle_fit [OF f(2), of True s1] none by (cases "?ac = []") auto
  have "hs_styled s2 = elements active"
    using s2(3) s1(3) elements_diff [OF assms(1,2)] by (cases replay) auto
  moreover have "vw_mode view \<noteq> []" using assms(1) by (simp add: hovering_def)
  ultimately show ?thesis using s1(1,2) s2(1,2) by (auto simp: updateHoverStyles_def Let_def)
qed

text \<open>
  The states of a chart after events, calls by the user and updates. The items found are elements that the chart shows, and an update leaves
  the active items where they are: it neither inserts nor removes data before them.
\<close>

inductive hover_run :: "view \<Rightarrow> hover_state \<Rightarrow> bool" where
  hover_start: "hovering view \<Longrightarrow> hover_run view \<lparr>hs_active = [], hs_lastEvent = None, hs_styled = {}, hs_datasetStyled = {}\<rparr>"
| hover_event: "hover_run view s \<Longrightarrow> \<forall>e final. \<forall>x \<in> set (hits e final). fits view x \<Longrightarrow>
    eventHandler view hits accepted argsChanged area minPadding e replay s = Some (b, s', calls) \<Longrightarrow> hover_run view s'"
| hover_set: "hover_run view s \<Longrightarrow> \<forall>k \<in> set active. fits view (found_item view k) \<Longrightarrow>
    setActiveElements view active s = Some s' \<Longrightarrow> hover_run view s'"
| hover_update: "hover_run view s \<Longrightarrow> hovering view' \<Longrightarrow> \<forall>x \<in> set (hs_active s). fits view' x \<Longrightarrow>
    \<forall>e final. \<forall>x \<in> set (hits e final). fits view' x \<Longrightarrow>
    after_update view' hits accepted area minPadding s = Some s' \<Longrightarrow> hover_run view' s'"

definition styled_ok :: "view \<Rightarrow> hover_state \<Rightarrow> bool" where
  "styled_ok view s \<longleftrightarrow> hovering view \<and> (\<forall>x \<in> set (hs_active s). fits view x) \<and> hs_styled s = elements (hs_active s)"

lemma eventHandler_ok:
  assumes "styled_ok view s" and "\<forall>e final. \<forall>x \<in> set (hits e final). fits view x"
  shows "\<exists>b s' calls. eventHandler view hits accepted argsChanged area minPadding e replay s = Some (b, s', calls) \<and> styled_ok view s'"
proof (cases accepted)
  case True
  define inArea where "inArea = isPointInArea (Some (em_pos e)) area minPadding"
  let ?a = "getActiveElements hits e (hs_active s) inArea replay"
  have f: "\<forall>x \<in> set ?a. fits view x" using assms by (auto simp: getActiveElements_def styled_ok_def)
  have "\<exists>s'. updateHoverStyles view ?a (hs_active s) replay (s\<lparr>hs_active := ?a\<rparr>) = Some s' \<and> hs_active s' = ?a \<and> hs_styled s' = elements ?a"
    using updateHoverStyles_fit [of view ?a "hs_active s" "s\<lparr>hs_active := ?a\<rparr>" replay] assms(1) f by (auto simp: styled_ok_def)
  then obtain s1 where s1: "updateHoverStyles view ?a (hs_active s) replay (s\<lparr>hs_active := ?a\<rparr>) = Some s1" "hs_active s1 = ?a" "hs_styled s1 = elements ?a"
    by blast
  then have "styled_ok view (s1\<lparr>hs_lastEvent := l\<rparr>)" for l using f assms(1) by (simp add: styled_ok_def)
  moreover have "styled_ok view (s\<lparr>hs_lastEvent := l\<rparr>)" for l using assms(1) by (simp add: styled_ok_def)
  ultimately obtain s2 where s2: "(if \<not> items_equal ?a (hs_active s) \<or> replay
        then updateHoverStyles view ?a (hs_active s) replay (s\<lparr>hs_active := ?a\<rparr>) else Some s) = Some s2"
      "\<And>l. styled_ok view (s2\<lparr>hs_lastEvent := l\<rparr>)"
    using s1(1) by (cases "\<not> items_equal ?a (hs_active s) \<or> replay") auto
  then have "eventHandler view hits accepted argsChanged area minPadding e replay s =
      Some (\<not> items_equal ?a (hs_active s) \<or> argsChanged,
        s2\<lparr>hs_lastEvent := determineLastEvent e (hs_lastEvent s) inArea (isClickEvent e)\<rparr>,
        if inArea then [OnHover ?a] @ (if isClickEvent e then [OnClick ?a] else []) else [])"
    using True by (simp only: eventHandler_def handleEvent_def inArea_def [symmetric] Let_def) simp
  with s2(2) show ?thesis by blast
next
  case False
  with assms(1) show ?thesis by (auto simp: eventHandler_def)
qed

lemma setActiveElements_ok:
  assumes "styled_ok view s" and "\<forall>k \<in> set active. fits view (found_item view k)"
  shows "\<exists>s'. setActiveElements view active s = Some s' \<and> styled_ok view s'"
proof (cases "items_equal (map (found_item view) active) (hs_active s)")
  case True
  with assms(1) show ?thesis by (simp add: setActiveElements_def)
next
  case False
  let ?a = "map (found_item view) active"
  have f: "\<forall>x \<in> set ?a. fits view x" using assms(2) by simp
  obtain s' where "updateHoverStyles view ?a (hs_active s) False (s\<lparr>hs_active := ?a, hs_lastEvent := None\<rparr>) = Some s'"
    "hs_active s' = ?a" "hs_styled s' = elements ?a"
    using updateHoverStyles_fit [of view ?a "hs_active s" "s\<lparr>hs_active := ?a, hs_lastEvent := None\<rparr>" False] assms(1) f
    by (auto simp: styled_ok_def)
  with False f assms(1) show ?thesis by (simp add: setActiveElements_def styled_ok_def Let_def)
qed

lemma after_update_ok:
  assumes "styled_ok view s" and "\<forall>e final. \<forall>x \<in> set (hits e final). fits view x"
  shows "\<exists>s'. after_update view hits accepted area minPadding s = Some s' \<and> styled_ok view s'"
proof (cases "hs_lastEvent s")
  case None
  with assms(1) updateHoverStyles_fit [of view "hs_active s" "hs_active s" s True] show ?thesis
    by (auto simp: after_update_def styled_ok_def)
next
  case (Some e)
  with eventHandler_ok [OF assms, of accepted False area minPadding e True] show ?thesis by (auto simp: after_update_def)
qed

lemma hover_run_ok: "hover_run view s \<Longrightarrow> styled_ok view s"
proof (induction rule: hover_run.induct)
  case (hover_start view)
  then show ?case by (simp add: styled_ok_def elements_def)
next
  case (hover_event view s hits accepted argsChanged area minPadding e replay b s' calls)
  from eventHandler_ok [OF hover_event.IH hover_event.hyps(2)] hover_event.hyps(3) show ?case by (metis option.inject prod.inject)
next
  case (hover_set view s active s')
  from setActiveElements_ok [OF hover_set.IH hover_set.hyps(2)] hover_set.hyps(3) show ?case by auto
next
  case (hover_update view s view' hits accepted area minPadding s')
  have "styled_ok view' s" using hover_update.IH hover_update.hyps(2,3) by (simp add: styled_ok_def)
  from after_update_ok [OF this hover_update.hyps(4), of accepted area minPadding] hover_update.hyps(5) show ?case by auto
qed

text \<open>
  C13 (hover styles). While hovering is turned on, whatever events arrive, whatever the plugins answer and whatever is set active by hand, and after every
  update that leaves the active items at their places, exactly the elements of the active items are drawn in their hover style, and no event makes the
  chart throw. An update that moves the active items to other places is different, see \<^verbatim>\<open>shifted_hover_stays\<close>.
\<close>

theorem hover_follows_active:
  assumes "hover_run view s"
  shows "hs_styled s = {e. \<exists>x \<in> set (hs_active s). im_element x = Some e} \<and>
    (\<forall>x \<in> set (hs_active s). im_element x = vw_element view (im_dataset x) (im_index x)) \<and>
    ((\<forall>e final. \<forall>x \<in> set (hits e final). fits view x) \<longrightarrow>
      eventHandler view hits accepted argsChanged area minPadding e replay s \<noteq> None)"
proof -
  note ok = hover_run_ok [OF assms]
  have "elements (hs_active s) = {e. \<exists>x \<in> set (hs_active s). im_element x = Some e}"
  proof (intro subset_antisym subsetI)
    fix e
    assume "e \<in> elements (hs_active s)"
    then obtain x where x: "x \<in> set (hs_active s)" "e = the (im_element x)" by (auto simp: elements_def)
    from x(1) ok have "im_element x \<noteq> None" unfolding styled_ok_def fits_def by blast
    then have "im_element x = Some e" unfolding x(2) by (rule option.collapse [symmetric])
    with x show "e \<in> {e. \<exists>x \<in> set (hs_active s). im_element x = Some e}" by blast
  next
    fix e
    assume "e \<in> {e. \<exists>x \<in> set (hs_active s). im_element x = Some e}"
    then obtain x where "x \<in> set (hs_active s)" "im_element x = Some e" by blast
    then show "e \<in> elements (hs_active s)" by (auto simp: elements_def intro!: image_eqI [of _ _ x])
  qed
  moreover have "hs_styled s = elements (hs_active s)" "\<forall>x \<in> set (hs_active s). im_element x = vw_element view (im_dataset x) (im_index x)"
    using ok unfolding styled_ok_def fits_def by blast+
  moreover have "eventHandler view hits accepted argsChanged area minPadding e replay s \<noteq> None"
    if "\<forall>e final. \<forall>x \<in> set (hits e final). fits view x"
    using eventHandler_ok [OF ok that, of accepted argsChanged area minPadding e replay] by (metis option.distinct(1))
  ultimately show ?thesis by simp
qed

definition sample_view :: view where
  "sample_view = \<lparr>vw_mode = ''nearest'', vw_controller = (\<lambda>d. d = 0), vw_element = (\<lambda>d i. if d = 0 \<and> i < 5 then Some (10 + i) else None),
     vw_datasetElement = (\<lambda>d. None)\<rparr>"

definition no_hover :: hover_state where
  "no_hover = \<lparr>hs_active = [], hs_lastEvent = None, hs_styled = {}, hs_datasetStyled = {}\<rparr>"

theorem hover_follows_active_witness:
  "\<exists>s. hover_run sample_view s \<and> map key (hs_active s) = [(0, 3)] \<and> hs_styled s = {13}"
proof -
  have h: "hovering sample_view" by (simp add: hovering_def sample_view_def)
  have f: "\<forall>k \<in> set [(0, 3)]. fits sample_view (found_item sample_view k)" by (simp add: fits_def found_item_def sample_view_def)
  let ?x = "found_item sample_view (0, 3)"
  have x: "im_element ?x = Some 13" "im_dataset ?x = 0" "key ?x = (0, 3)" "vw_controller sample_view 0" "vw_mode sample_view = ''nearest''"
    by (simp_all add: found_item_def sample_view_def key_def)
  define s where "s = no_hover\<lparr>hs_active := [?x], hs_styled := {13}\<rparr>"
  have "updateHoverStyles sample_view [?x] [] False (no_hover\<lparr>hs_active := [?x]\<rparr>) = Some s"
    by (simp add: updateHoverStyles_def diff_def updateHoverStyle_def x setStyle_def s_def no_hover_def)
  moreover have "items_equal [?x] [] = False" by (simp add: items_equal_def)
  ultimately have s: "setActiveElements sample_view [(0, 3)] no_hover = Some s" "map key (hs_active s) = [(0, 3)]" "hs_active s = [?x]"
    by (simp_all add: setActiveElements_def no_hover_def s_def x)
  have r: "hover_run sample_view s"
    by (rule hover_set [OF hover_start [OF h] f]) (use s(1) in \<open>simp add: no_hover_def\<close>)
  from hover_follows_active [OF r] s(3) x(1) have "hs_styled s = {e. Some (13 :: nat) = Some e}" by auto
  then have "hs_styled s = {13}" by auto
  with r s(2) show ?thesis by (intro exI [of _ s] conjI)
qed

text \<open>
  After the first datum of a dataset is removed the elements of the others move: the active item at place 3 is another element now, which
  gets the style, but the element that had it keeps it, as items are compared by their places only.
\<close>

definition shifted_view :: view where
  "shifted_view = sample_view\<lparr>vw_element := (\<lambda>d i. if d = 0 \<and> i < 4 then Some (11 + i) else None)\<rparr>"

lemma shifted_hover_stays:
  "after_update shifted_view (\<lambda>e final. [found_item shifted_view (0, 3)]) True None None
     \<lparr>hs_active = [found_item sample_view (0, 3)], hs_lastEvent = Some \<lparr>em_type = ''mousemove'', em_pos = p\<rparr>,
      hs_styled = {13}, hs_datasetStyled = {}\<rparr> =
   Some \<lparr>hs_active = [found_item shifted_view (0, 3)], hs_lastEvent = Some \<lparr>em_type = ''mousemove'', em_pos = p\<rparr>,
      hs_styled = {14, 13}, hs_datasetStyled = {}\<rparr>"
proof -
  let ?e = "\<lparr>em_type = ''mousemove'', em_pos = p\<rparr>"
  let ?a = "[found_item shifted_view (0, 3)]" and ?l = "[found_item sample_view (0, 3)]"
  have v: "vw_mode shifted_view = ''nearest''" "vw_controller shifted_view 0" "im_element (found_item shifted_view (0, 3)) = Some 14"
    by (simp_all add: shifted_view_def sample_view_def found_item_def)
  have d: "diff ?l ?a = []" by (simp add: diff_def key_def found_item_def)
  have "im_dataset (found_item shifted_view (0, 3)) = 0" by (simp add: found_item_def)
  then have u: "updateHoverStyles shifted_view ?a ?l True s = Some (setStyle True 14 s)" for s
    using v by (simp add: updateHoverStyles_def d updateHoverStyle_def)
  have i: "items_equal ?a ?l" by (simp add: items_equal_def key_def found_item_def)
  have g: "getActiveElements (\<lambda>e final. ?a) ?e ?l True True = ?a" by (simp add: getActiveElements_def)
  show ?thesis
    by (simp add: after_update_def eventHandler_def handleEvent_def isPointInArea_def g u i setStyle_def isClickEvent_def
        determineLastEvent_def Let_def)
qed

section \<open>Drawing order: lemmas\<close>

lemma sorted_split_at:
  fixes f :: "'a \<Rightarrow> real"
  assumes "sorted (map f xs)"
  shows "takeWhile (\<lambda>x. f x \<le> a) xs = filter (\<lambda>x. f x \<le> a) xs \<and> dropWhile (\<lambda>x. f x \<le> a) xs = filter (\<lambda>x. a < f x) xs"
  using assms
proof (induction xs)
  case (Cons x xs)
  show ?case
  proof (cases "f x \<le> a")
    case True
    with Cons show ?thesis by simp
  next
    case False
    with Cons.prems have "\<forall>y \<in> set xs. a < f y" by auto
    then have "filter (\<lambda>y. f y \<le> a) xs = []" "filter (\<lambda>y. a < f y) xs = xs"
      by (auto simp: filter_empty_conv filter_id_conv not_le)
    with False show ?thesis by simp
  qed
qed simp

lemma sort_key_idx_numbered: "sort_key ly_idx (number_layers ls) = number_layers ls"
proof (rule sort_key_id_if_sorted)
  have "map ly_idx (number_layers ls) = [0 ..< length ls]"
    by (rule nth_equalityI) (simp_all add: number_layers_def)
  then show "sorted (map ly_idx (number_layers ls))" by simp
qed

text \<open>
  The order of drawing. When no plugin refuses, the layers of the boxes at levels up to zero are drawn in the order of their levels, then the datasets from the last
  to the first, then the other layers; layers of one level stay in the order of the boxes.
\<close>

theorem draw_in_layers:
  assumes "\<forall>h i. notify h i" and "0 < w" and "0 < h" and "s = sort_layers (number_layers ls)"
  shows "draw notify w h s visible =
      Clear # map Layer (filter (\<lambda>l. ly_z l \<le> 0) s) @ map Dataset (rev visible) @ map Layer (filter (\<lambda>l. 0 < ly_z l) s) \<and>
    sorted (map ly_z s) \<and> (\<forall>z. filter (\<lambda>l. ly_z l = z) s = filter (\<lambda>l. ly_z l = z) (number_layers ls))"
proof -
  have s: "s = sort_key ly_z (number_layers ls)" by (simp add: assms(4) sort_layers_def sort_key_idx_numbered)
  then have so: "sorted (map ly_z s)" by simp
  have "filter (\<lambda>l. ly_z l = z) s = filter (\<lambda>l. ly_z l = z) (number_layers ls)" for z
    by (simp add: s sort_key_stable)
  with so sorted_split_at [OF so, of 0] show ?thesis using assms(1-3) by (simp add: draw_def drawDatasets_def)
qed

theorem draw_in_layers_witness:
  "draw (\<lambda>_ _. True) 10 10
     (sort_layers (number_layers [\<lparr>ly_z = 1, ly_idx = 0, ly_box = 0\<rparr>, \<lparr>ly_z = 0, ly_idx = 0, ly_box = 1\<rparr>])) [0, 1] =
   [Clear, Layer \<lparr>ly_z = 0, ly_idx = 1, ly_box = 1\<rparr>, Dataset 1, Dataset 0, Layer \<lparr>ly_z = 1, ly_idx = 0, ly_box = 0\<rparr>]"
  using draw_in_layers [of "\<lambda>_ _. True" 10 10 _ "[\<lparr>ly_z = 1, ly_idx = 0, ly_box = 0\<rparr>, \<lparr>ly_z = 0, ly_idx = 0, ly_box = 1\<rparr>]" "[0, 1]"]
  by (simp add: sort_layers_def number_layers_def upt_rec)

section \<open>Listeners: lemmas\<close>

text \<open>Every live connection is the one of its type, and no two types share one.\<close>

definition connected :: "listening \<Rightarrow> bool" where
  "connected s \<longleftrightarrow> ls_live s = ran (ls_proxies s) \<and> (\<forall>p \<in> ls_live s. p < ls_next s) \<and>
     inj_on (ls_proxies s) (dom (ls_proxies s))"

text \<open>The types that the chart knows of; the functions behind the connections keep the object that the chart has.\<close>

definition known_types :: "listening \<Rightarrow> string set" where
  "known_types s = set (ls_listeners s) \<union> (case ls_responsive s of Some ob \<Rightarrow> set (ls_objects s ob) | None \<Rightarrow> {})"

definition own_closures :: "listening \<Rightarrow> bool" where
  "own_closures s \<longleftrightarrow> (\<forall>ty p ob. ls_proxies s ty = Some p \<longrightarrow> ls_closure s p = Some ob \<longrightarrow> ls_responsive s = Some ob)"

definition tidy :: "listening \<Rightarrow> bool" where
  "tidy s \<longleftrightarrow> connected s \<and> dom (ls_proxies s) \<subseteq> known_types s \<and> own_closures s"

lemma connected_remove:
  assumes "connected s"
  shows "connected (removeEventListener ty s) \<and> ls_proxies (removeEventListener ty s) = (ls_proxies s)(ty := None)"
proof (cases "ls_proxies s ty")
  case None
  then show ?thesis using assms by (auto simp: removeEventListener_def fun_upd_idem)
next
  case (Some p)
  have only: "k = ty" if "ls_proxies s k = Some p" for k
    using assms Some that unfolding connected_def by (metis domI inj_onD)
  have "ran (ls_proxies s) - {p} = ran ((ls_proxies s)(ty := None))"
  proof (intro subset_antisym subsetI)
    fix x
    assume "x \<in> ran (ls_proxies s) - {p}"
    then obtain k where k: "ls_proxies s k = Some x" "x \<noteq> p" by (auto simp only: ran_def mem_Collect_eq Diff_iff singleton_iff)
    then have "k \<noteq> ty" using Some by auto
    then have "((ls_proxies s)(ty := None)) k = Some x" using k(1) by simp
    then show "x \<in> ran ((ls_proxies s)(ty := None))" by (rule ranI)
  next
    fix x
    assume "x \<in> ran ((ls_proxies s)(ty := None))"
    then obtain k where "((ls_proxies s)(ty := None)) k = Some x" by (auto simp only: ran_def mem_Collect_eq)
    then have k: "ls_proxies s k = Some x" "k \<noteq> ty" by (simp_all split: if_splits)
    then have "x \<noteq> p" using only by blast
    with k(1) show "x \<in> ran (ls_proxies s) - {p}" by (simp add: ranI)
  qed
  moreover have "inj_on ((ls_proxies s)(ty := None)) (dom ((ls_proxies s)(ty := None)))"
    using assms by (auto simp: connected_def inj_on_def)
  ultimately show ?thesis using assms Some by (auto simp: removeEventListener_def connected_def)
qed

lemma remove_keeps [simp]:
  "ls_objects (removeEventListener ty s) = ls_objects s" "ls_closure (removeEventListener ty s) = ls_closure s"
  "ls_listeners (removeEventListener ty s) = ls_listeners s" "ls_responsive (removeEventListener ty s) = ls_responsive s"
  "ls_next (removeEventListener ty s) = ls_next s"
  by (simp_all add: removeEventListener_def split: option.split)

lemma connected_add:
  assumes "connected s"
  shows "connected (addEventListener hc ty keeps s) \<and> dom (ls_proxies (addEventListener hc ty keeps s)) \<subseteq> insert ty (dom (ls_proxies s)) \<and>
    ls_listeners (addEventListener hc ty keeps s) = ls_listeners s \<and> ls_responsive (addEventListener hc ty keeps s) = ls_responsive s \<and>
    ls_objects (addEventListener hc ty keeps s) = ls_objects s"
proof -
  let ?r = "removeEventListener ty s"
  have r: "connected ?r" "ls_proxies ?r = (ls_proxies s)(ty := None)" using connected_remove [OF assms] by auto
  let ?n = "ls_next ?r"
  have new: "?n \<notin> ran (ls_proxies ?r)" using r(1) by (auto simp: connected_def)
  have free: "ls_proxies ?r ty = None" by (simp add: r)
  have "insert ?n (ls_live ?r) = ran ((ls_proxies ?r)(ty := Some ?n))"
    using r(1) ran_map_upd [of "ls_proxies ?r" ty ?n, OF free] by (simp add: connected_def)
  moreover have "\<forall>p \<in> insert ?n (ls_live ?r). p < ?n + 1" using r(1) by (auto simp: connected_def less_Suc_eq)
  moreover have "inj_on ((ls_proxies ?r)(ty := Some ?n)) (dom ((ls_proxies ?r)(ty := Some ?n)))"
  proof (rule inj_onI)
    fix x y
    assume xy: "x \<in> dom ((ls_proxies ?r)(ty := Some ?n))" "y \<in> dom ((ls_proxies ?r)(ty := Some ?n))"
      "((ls_proxies ?r)(ty := Some ?n)) x = ((ls_proxies ?r)(ty := Some ?n)) y"
    have "ls_proxies ?r z \<noteq> Some ?n" for z using new by (auto simp: ran_def)
    moreover have "inj_on (ls_proxies ?r) (dom (ls_proxies ?r))" using r(1) by (simp add: connected_def)
    ultimately show "x = y" using xy by (auto split: if_splits) (metis domI inj_onD)
  qed
  ultimately have "connected (?r\<lparr>ls_proxies := (ls_proxies ?r)(ty := Some ?n), ls_live := insert ?n (ls_live ?r),
      ls_closure := (ls_closure ?r)(?n := keeps), ls_next := ?n + 1\<rparr>)"
    by (simp add: connected_def)
  then show ?thesis using r by (auto simp: addEventListener_def Let_def)
qed

lemma known_types_update [simp]:
  "known_types (s\<lparr>ls_attached := b\<rparr>) = known_types s" "known_types (s\<lparr>ls_actions := as\<rparr>) = known_types s"
  "connected (s\<lparr>ls_attached := b\<rparr>) = connected s" "connected (s\<lparr>ls_actions := as\<rparr>) = connected s"
  "connected (s\<lparr>ls_listeners := ls\<rparr>) = connected s" "connected (s\<lparr>ls_responsive := ks\<rparr>) = connected s"
  "connected (s\<lparr>ls_objects := os\<rparr>) = connected s" "connected (s\<lparr>ls_nextObject := n\<rparr>) = connected s"
  "own_closures (s\<lparr>ls_attached := b\<rparr>) = own_closures s" "own_closures (s\<lparr>ls_actions := as\<rparr>) = own_closures s"
  "own_closures (s\<lparr>ls_listeners := ls\<rparr>) = own_closures s" "own_closures (s\<lparr>ls_objects := os\<rparr>) = own_closures s"
  "own_closures (s\<lparr>ls_nextObject := n\<rparr>) = own_closures s"
  by (simp_all add: known_types_def connected_def own_closures_def cong: option.case_cong)

lemma set_set_key [simp]: "set (set_key k ks) = insert k (set ks)"
  by (auto simp: set_key_def)

lemma own_closures_remove:
  assumes "own_closures s"
  shows "own_closures (removeEventListener ty s)"
  using assms by (auto simp: own_closures_def removeEventListener_def split: option.splits if_splits)

lemma own_closures_add:
  assumes "connected s" and "own_closures s" and "keeps = None \<or> keeps = ls_responsive s"
  shows "own_closures (addEventListener hc ty keeps s)"
proof -
  have r: "own_closures (removeEventListener ty s)" by (rule own_closures_remove [OF assms(2)])
  have c: "connected (removeEventListener ty s)" using connected_remove [OF assms(1)] by blast
  have "p \<noteq> ls_next (removeEventListener ty s)" if "ls_proxies (removeEventListener ty s) k = Some p" for k p
    using c that unfolding connected_def by (metis less_irrefl ranI)
  with r assms(3) show ?thesis
    unfolding own_closures_def addEventListener_def Let_def by (auto simp del: remove_keeps simp: remove_keeps(4) split: if_splits)
qed

lemma tidy_add_responsive:
  assumes "tidy s" and "ls_responsive s = Some ob"
  shows "tidy (add_responsive ob hc ty s) \<and> ls_responsive (add_responsive ob hc ty s) = Some ob"
proof -
  let ?a = "addEventListener hc ty (Some ob) s"
  have c: "connected ?a" "dom (ls_proxies ?a) \<subseteq> insert ty (dom (ls_proxies s))" "ls_listeners ?a = ls_listeners s"
    "ls_responsive ?a = Some ob" "ls_objects ?a = ls_objects s"
    using connected_add [of s hc ty "Some ob"] assms by (auto simp: tidy_def)
  have o: "own_closures ?a" using own_closures_add assms by (simp add: tidy_def)
  have "known_types (add_responsive ob hc ty s) = insert ty (known_types s)"
    using c assms(2) by (simp add: add_responsive_def known_types_def Let_def)
  moreover have "dom (ls_proxies s) \<subseteq> known_types s" using assms(1) by (simp add: tidy_def)
  moreover have "ls_proxies (add_responsive ob hc ty s) = ls_proxies ?a" "connected (add_responsive ob hc ty s)"
    "own_closures (add_responsive ob hc ty s)"
    using c o by (simp_all add: add_responsive_def Let_def)
  ultimately have "tidy (add_responsive ob hc ty s)" using c(2) unfolding tidy_def by (metis insert_mono order_trans)
  then show ?thesis using c by (simp add: add_responsive_def Let_def)
qed

lemma tidy_remove_responsive:
  assumes "tidy s" and "ls_responsive s = Some ob"
  shows "tidy (remove_responsive ob ty s) \<and> ls_responsive (remove_responsive ob ty s) = Some ob"
  using assms connected_remove [of s ty] own_closures_remove [of s ty]
  by (auto simp: tidy_def remove_responsive_def known_types_def)

lemma tidy_attached:
  assumes "tidy s" and "ls_responsive s = Some ob" and quiet: "\<And>s'. ls_listeners s' = ls_listeners s \<Longrightarrow> ls_responsive s' = Some ob \<Longrightarrow> f s' = s'"
  shows "tidy (attached f ob hc s)"
proof -
  let ?s1 = "remove_responsive ob ''attach'' s"
  let ?s2 = "?s1\<lparr>ls_attached := True, ls_actions := ls_actions ?s1 @ [Resize]\<rparr>"
  have 1: "tidy ?s1" "ls_responsive ?s1 = Some ob" using tidy_remove_responsive [OF assms(1,2)] by auto
  have l: "ls_listeners ?s1 = ls_listeners s" by (simp add: remove_responsive_def)
  have 2: "tidy ?s2" "ls_responsive ?s2 = Some ob" using 1 by (simp_all add: tidy_def known_types_def)
  have "f ?s2 = ?s2" using l 2 by (intro quiet) simp_all
  then have a: "attached f ob hc s = add_responsive ob hc ''detach'' (add_responsive ob hc ''resize'' ?s2)"
    by (simp add: attached_def Let_def)
  show ?thesis unfolding a using tidy_add_responsive [OF 2] tidy_add_responsive by blast
qed

lemma tidy_detached:
  assumes "tidy s" and "ls_responsive s = Some ob"
  shows "tidy (detached ob hc s)"
proof -
  have "tidy (s\<lparr>ls_attached := False\<rparr>)" "ls_responsive (s\<lparr>ls_attached := False\<rparr>) = Some ob" using assms by (simp_all add: tidy_def)
  from tidy_remove_responsive [OF this, of "''resize''"]
  have 1: "tidy (remove_responsive ob ''resize'' (s\<lparr>ls_attached := False\<rparr>))"
    "ls_responsive (remove_responsive ob ''resize'' (s\<lparr>ls_attached := False\<rparr>)) = Some ob" by blast+
  let ?s1 = "remove_responsive ob ''resize'' (s\<lparr>ls_attached := False\<rparr>)"
  have 2: "tidy (?s1\<lparr>ls_actions := ls_actions ?s1 @ [StopChart, ResizeToZero]\<rparr>)"
    "ls_responsive (?s1\<lparr>ls_actions := ls_actions ?s1 @ [StopChart, ResizeToZero]\<rparr>) = Some ob" using 1 by (simp_all add: tidy_def known_types_def)
  from tidy_add_responsive [OF 2, of hc "''attach''"] show ?thesis by (simp add: detached_def Let_def)
qed

lemma tidy_bindUserEvents:
  "tidy s \<Longrightarrow> tidy (bindUserEvents hc events s) \<and> set (ls_listeners (bindUserEvents hc events s)) = set (ls_listeners s) \<union> set events \<and>
    ls_responsive (bindUserEvents hc events s) = ls_responsive s"
proof (induction events arbitrary: s)
  case (Cons ty events)
  let ?s = "addEventListener hc ty None s"
  let ?t = "?s\<lparr>ls_listeners := set_key ty (ls_listeners ?s)\<rparr>"
  have c: "connected ?s" "dom (ls_proxies ?s) \<subseteq> insert ty (dom (ls_proxies s))" "ls_listeners ?s = ls_listeners s"
    "ls_responsive ?s = ls_responsive s" "ls_objects ?s = ls_objects s"
    using connected_add [of s hc ty None] Cons.prems by (auto simp: tidy_def)
  have "own_closures ?t" using own_closures_add [of s None] Cons.prems by (simp add: tidy_def)
  moreover have "known_types ?t = insert ty (known_types s)" using c by (simp add: known_types_def cong: option.case_cong)
  moreover have "dom (ls_proxies s) \<subseteq> known_types s" using Cons.prems by (simp add: tidy_def)
  moreover have "connected ?t" using c(1) by simp
  moreover have "ls_proxies ?t = ls_proxies ?s" by simp
  ultimately have "tidy ?t" using c(2) unfolding tidy_def by (metis insert_mono order_trans)
  from Cons.IH [OF this] c show ?case by (auto simp: bindUserEvents_def Let_def)
qed (simp add: bindUserEvents_def)

text \<open>
  An update within a resize that finds the options with which the events are bound: the same types of events, and as responsive as before.
\<close>

fun quiet :: "bool \<Rightarrow> string set \<Rightarrow> resized \<Rightarrow> bool" where
  "quiet responsive types Unchanged \<longleftrightarrow> True"
| "quiet responsive types (Updated responsive' isAttached hasContainer events r) \<longleftrightarrow> responsive' = responsive \<and> set events = types"

lemma setsEqual_remdups: "set xs = set ys \<Longrightarrow> setsEqual (remdups xs) (remdups ys)"
  by (simp add: setsEqual_iff)

lemma quiet_resize:
  assumes "quiet True types r" and "set (ls_listeners s) = types" and "ls_responsive s \<noteq> None"
  shows "resize_effect r s = s"
  using assms by (cases r) (simp_all add: checkEventBindings_def setsEqual_remdups)

lemma tidy_bindEvents:
  assumes "tidy s" and "quiet responsive (set (ls_listeners s) \<union> set events) r"
  shows "tidy (bindEvents (resize_effect r) responsive att hc events s)"
proof -
  let ?u = "bindUserEvents hc events s"
  have u: "tidy ?u" "set (ls_listeners ?u) = set (ls_listeners s) \<union> set events" using tidy_bindUserEvents [OF assms(1)] by auto
  show ?thesis
  proof (cases responsive)
    case True
    obtain ob t where o: "responsive_object ?u = (ob, t)" by fastforce
    have t: "tidy t" "ls_responsive t = Some ob" "ls_listeners t = ls_listeners ?u"
      using o u(1) by (cases "ls_responsive ?u"; force simp: responsive_object_def tidy_def known_types_def own_closures_def)+
    have "resize_effect r s' = s'" if "ls_listeners s' = ls_listeners t" "ls_responsive s' = Some ob" for s'
      using assms(2) True u(2) t(3) that by (intro quiet_resize) auto
    then have "tidy (attached (resize_effect r) ob hc t)" by (rule tidy_attached [OF t(1,2)])
    with tidy_detached [OF t(1,2)] True o show ?thesis by (simp add: bindEvents_def bindResponsiveEvents_def Let_def)
  next
    case False
    with u show ?thesis by (simp add: bindEvents_def tidy_def Let_def)
  qed
qed

lemma fold_remove:
  assumes "connected s"
  shows "connected (fold removeEventListener tys s) \<and>
    dom (ls_proxies (fold removeEventListener tys s)) = dom (ls_proxies s) - set tys \<and>
    ls_listeners (fold removeEventListener tys s) = ls_listeners s \<and> ls_responsive (fold removeEventListener tys s) = ls_responsive s \<and>
    ls_objects (fold removeEventListener tys s) = ls_objects s"
  using assms
proof (induction tys arbitrary: s)
  case (Cons ty tys)
  have r: "connected (removeEventListener ty s)" "dom (ls_proxies (removeEventListener ty s)) = dom (ls_proxies s) - {ty}"
    using connected_remove [OF Cons.prems, of ty] by (simp_all only: dom_fun_upd) auto
  have "dom (ls_proxies s) - {ty} - set tys = dom (ls_proxies s) - set (ty # tys)" by auto
  with Cons.IH [OF r(1)] r(2) show ?case by simp
qed simp

lemma unbind_releases:
  assumes "tidy s"
  shows "tidy (unbindEvents s) \<and> ls_live (unbindEvents s) = {} \<and> ls_listeners (unbindEvents s) = []"
proof -
  have c: "connected s" and d: "dom (ls_proxies s) \<subseteq> known_types s" using assms by (simp_all add: tidy_def)
  define s1 where "s1 = (fold removeEventListener (ls_listeners s) s)\<lparr>ls_listeners := []\<rparr>"
  have 1: "connected s1" "dom (ls_proxies s1) = dom (ls_proxies s) - set (ls_listeners s)" "ls_responsive s1 = ls_responsive s"
    "ls_objects s1 = ls_objects s" "ls_listeners s1 = []"
    using fold_remove [OF c, of "ls_listeners s"] by (simp_all add: s1_def)
  define ks where "ks = (case ls_responsive s1 of Some ob \<Rightarrow> ls_objects s1 ob | None \<Rightarrow> [])"
  have 2: "connected (fold removeEventListener ks s1)" "dom (ls_proxies (fold removeEventListener ks s1)) = {}"
    "ls_listeners (fold removeEventListener ks s1) = []"
    using fold_remove [OF 1(1), of ks] 1(2-5) d by (auto simp: known_types_def ks_def split: option.splits)
  have u: "unbindEvents s = (fold removeEventListener ks s1)\<lparr>ls_responsive := None\<rparr>"
    unfolding unbindEvents_def s1_def ks_def Let_def ..
  have "ls_live (unbindEvents s) = {}" using 2 by (simp add: u connected_def)
  then show ?thesis using 2 by (simp add: u tidy_def own_closures_def)
qed

text \<open>
  The runs of a chart: it binds its events, its canvas is attached and detached, which the observers report to the functions behind them, an update checks
  the bindings, and the chart unbinds them. Resizing may update the chart in between; the options that this update finds are those of the last
  update or binding.
\<close>

inductive listening_run :: "listening \<Rightarrow> bool" where
  run_start: "listening_run \<lparr>ls_attached = False, ls_listeners = [], ls_responsive = None, ls_objects = (\<lambda>_. []), ls_nextObject = 0,
    ls_proxies = Map.empty, ls_closure = Map.empty, ls_live = {}, ls_next = 0, ls_actions = []\<rparr>"
| run_bind: "listening_run s \<Longrightarrow> quiet responsive (set (ls_listeners s) \<union> set events) r \<Longrightarrow>
    listening_run (bindEvents (resize_effect r) responsive att hc events s)"
| run_check: "listening_run s \<Longrightarrow> quiet responsive (set events) r \<Longrightarrow>
    listening_run (checkEventBindings (resize_effect r) responsive att hc events s)"
| run_attached: "listening_run s \<Longrightarrow> ls_proxies s ''attach'' = Some p \<Longrightarrow> ls_closure s p = Some ob \<Longrightarrow>
    quiet True (set (ls_listeners s)) r \<Longrightarrow> listening_run (attached (resize_effect r) ob hc s)"
| run_detached: "listening_run s \<Longrightarrow> ls_proxies s ''detach'' = Some p \<Longrightarrow> ls_closure s p = Some ob \<Longrightarrow>
    listening_run (detached ob hc s)"
| run_unbind: "listening_run s \<Longrightarrow> listening_run (unbindEvents s)"

lemma listening_run_tidy: "listening_run s \<Longrightarrow> tidy s"
proof (induction rule: listening_run.induct)
  case run_start
  show ?case by (simp add: tidy_def connected_def own_closures_def)
next
  case (run_bind s responsive events r att hc)
  then show ?case by (simp add: tidy_bindEvents)
next
  case (run_check s responsive events r att hc)
  then show ?case using tidy_bindEvents [of "unbindEvents s"] unbind_releases by (simp add: checkEventBindings_def)
next
  case (run_attached s p ob r hc)
  have ob: "ls_responsive s = Some ob" using run_attached unfolding tidy_def own_closures_def by blast
  show ?case
  proof (rule tidy_attached [OF run_attached.IH ob])
    show "resize_effect r s' = s'" if "ls_listeners s' = ls_listeners s" "ls_responsive s' = Some ob" for s'
      using quiet_resize [OF run_attached.hyps(4)] that by simp
  qed
next
  case (run_detached s p ob hc)
  have "ls_responsive s = Some ob" using run_detached unfolding tidy_def own_closures_def by blast
  with run_detached.IH show ?case by (rule tidy_detached)
next
  case (run_unbind s)
  then show ?case using unbind_releases by blast
qed

text \<open>
  C23 (connections). However a chart is bound, attached, detached and updated, it has at most one connection with the browser for each type of event, and
  unbinding releases every one of them. Attaching may update the chart; the condition is that the options for events and responsiveness have
  not changed since the last binding or update when this happens, else \<^verbatim>\<open>late_options_leak\<close> applies.
\<close>

theorem connections_released:
  assumes "listening_run s"
  shows "ls_live s = ran (ls_proxies s) \<and> inj_on (ls_proxies s) (dom (ls_proxies s)) \<and> ls_live (unbindEvents s) = {}"
  using listening_run_tidy [OF assms] unbind_releases [OF listening_run_tidy [OF assms], THEN conjunct2] by (simp add: tidy_def connected_def)

definition unbound :: listening where
  "unbound = \<lparr>ls_attached = False, ls_listeners = [], ls_responsive = None, ls_objects = (\<lambda>_. []), ls_nextObject = 0,
     ls_proxies = Map.empty, ls_closure = Map.empty, ls_live = {}, ls_next = 0, ls_actions = []\<rparr>"

text \<open>A responsive chart outside the document.\<close>

definition waiting :: listening where
  "waiting = bindEvents (resize_effect Unchanged) True False True [''click''] unbound"

lemmas listener_defs = bindEvents_def bindUserEvents_def bindResponsiveEvents_def responsive_object_def attached_def detached_def
  add_responsive_def remove_responsive_def addEventListener_def removeEventListener_def set_key_def

lemma waiting_fields:
  "waiting = \<lparr>ls_attached = False, ls_listeners = [''click''], ls_responsive = Some 0, ls_objects = (\<lambda>_. [])(0 := [''attach'']),
     ls_nextObject = 1, ls_proxies = [''click'' \<mapsto> 0, ''attach'' \<mapsto> 1], ls_closure = Map.empty(0 := None, 1 := Some 0),
     ls_live = {1, 0}, ls_next = 2, ls_actions = [StopChart, ResizeToZero]\<rparr>"
  by (simp add: waiting_def unbound_def listener_defs Let_def)

theorem connections_released_witness:
  "\<exists>s. listening_run s \<and> ls_live s = {0, 2, 3} \<and> ls_live (unbindEvents s) = {}"
proof -
  let ?r = "Updated True True True [''click''] Unchanged"
  have "listening_run waiting" unfolding waiting_def unbound_def by (rule run_bind [OF run_start]) simp
  then have r: "listening_run (attached (resize_effect ?r) 0 True waiting)" by (rule run_attached) (simp_all add: waiting_fields)
  have "attached (resize_effect ?r) 0 True waiting = attached (\<lambda>s. s) 0 True waiting"
    using quiet_resize [of "{''click''}" ?r] by (simp add: attached_def waiting_fields remove_responsive_def Let_def)
  also have "ls_live \<dots> = {0, 2, 3}" by (auto simp: waiting_fields listener_defs Let_def)
  finally have "ls_live (attached (resize_effect ?r) 0 True waiting) = {0, 2, 3}" .
  with connections_released [OF r] r show ?thesis by blast
qed

text \<open>
  When the option \<open>events\<close> was changed without an update before the canvas is attached, the update within \<open>attached\<close> binds anew, and \<open>attached\<close>
  goes on with the listeners of the object that was dropped; after the next detachment the observer that waits for the canvas is known to
  that object alone, and unbinding leaves it connected.
\<close>

definition rebound :: listening where
  "rebound = \<lparr>ls_attached = True, ls_listeners = [''keyup''], ls_responsive = Some 1,
     ls_objects = (\<lambda>_. [])(1 := [''resize'', ''detach'']), ls_nextObject = 2,
     ls_proxies = [''keyup'' \<mapsto> 2, ''resize'' \<mapsto> 3, ''detach'' \<mapsto> 4],
     ls_closure = Map.empty(0 := None, 1 := Some 0, 2 := None, 3 := Some 1, 4 := Some 1),
     ls_live = {2, 3, 4}, ls_next = 5, ls_actions = [StopChart, ResizeToZero, Resize, Resize]\<rparr>"

lemma late_options_rebind:
  "resize_effect (Updated True True True [''keyup''] Unchanged)
     ((remove_responsive 0 ''attach'' waiting)\<lparr>ls_attached := True, ls_actions := [StopChart, ResizeToZero, Resize]\<rparr>) = rebound"
proof -
  let ?s = "(remove_responsive 0 ''attach'' waiting)\<lparr>ls_attached := True, ls_actions := [StopChart, ResizeToZero, Resize]\<rparr>"
  have s: "?s = \<lparr>ls_attached = True, ls_listeners = [''click''], ls_responsive = Some 0, ls_objects = (\<lambda>_. []),
     ls_nextObject = 1, ls_proxies = [''click'' \<mapsto> 0], ls_closure = Map.empty(0 := None, 1 := Some 0),
     ls_live = {0}, ls_next = 2, ls_actions = [StopChart, ResizeToZero, Resize]\<rparr>"
    by (auto simp: waiting_fields remove_responsive_def removeEventListener_def)
  have u: "unbindEvents ?s = \<lparr>ls_attached = True, ls_listeners = [], ls_responsive = None, ls_objects = (\<lambda>_. []),
     ls_nextObject = 1, ls_proxies = Map.empty, ls_closure = Map.empty(0 := None, 1 := Some 0),
     ls_live = {}, ls_next = 2, ls_actions = [StopChart, ResizeToZero, Resize]\<rparr>" (is "_ = ?u")
    unfolding s by (simp add: unbindEvents_def removeEventListener_def)
  have "\<not> setsEqual (remdups [''click'']) (remdups [''keyup''])" by (simp add: setsEqual_iff)
  then have c: "resize_effect (Updated True True True [''keyup''] Unchanged) ?s = bindEvents (resize_effect Unchanged) True True True [''keyup''] (unbindEvents ?s)"
    using s by (simp add: checkEventBindings_def)
  have b: "bindUserEvents True [''keyup''] ?u = ?u\<lparr>ls_listeners := [''keyup''], ls_proxies := [''keyup'' \<mapsto> 2],
      ls_closure := Map.empty(0 := None, 1 := Some 0, 2 := None), ls_live := {2}, ls_next := 3\<rparr>" (is "_ = ?b")
    by (simp add: bindUserEvents_def addEventListener_def removeEventListener_def set_key_def)
  have o: "responsive_object ?b = (1, ?b\<lparr>ls_responsive := Some 1, ls_nextObject := 2\<rparr>)" (is "_ = (1, ?o)")
    by (simp add: responsive_object_def fun_upd_idem)
  have a1: "add_responsive 1 True ''resize'' (?o\<lparr>ls_attached := True, ls_actions := ls_actions ?o @ [Resize]\<rparr>) =
      ?o\<lparr>ls_actions := [StopChart, ResizeToZero, Resize, Resize], ls_proxies := [''keyup'' \<mapsto> 2, ''resize'' \<mapsto> 3],
         ls_closure := Map.empty(0 := None, 1 := Some 0, 2 := None, 3 := Some 1), ls_live := {2, 3}, ls_next := 4,
         ls_objects := (\<lambda>_. [])(1 := [''resize''])\<rparr>" (is "_ = ?a")
    by (simp add: add_responsive_def addEventListener_def removeEventListener_def set_key_def insert_commute)
  have a2: "add_responsive 1 True ''detach'' ?a = rebound"
    by (simp add: add_responsive_def addEventListener_def removeEventListener_def set_key_def rebound_def insert_commute)
  have "attached (resize_effect Unchanged) 1 True ?o = add_responsive 1 True ''detach''
      (add_responsive 1 True ''resize'' (?o\<lparr>ls_attached := True, ls_actions := ls_actions ?o @ [Resize]\<rparr>))"
    by (simp add: attached_def remove_responsive_def)
  then have "attached (resize_effect Unchanged) 1 True ?o = rebound" by (simp only: a1 a2)
  then show ?thesis unfolding c u bindEvents_def bindResponsiveEvents_def b o Let_def by simp
qed

lemma late_options_leak:
  defines "s1 \<equiv> attached (resize_effect (Updated True True True [''keyup''] Unchanged)) 0 True waiting"
  shows "map_option (ls_closure s1) (ls_proxies s1 ''detach'') = Some (Some 0) \<and> ls_live (unbindEvents (detached 0 True s1)) = {7}"
proof -
  have "ls_actions (remove_responsive 0 ''attach'' waiting) @ [Resize] = [StopChart, ResizeToZero, Resize]"
    by (simp add: waiting_fields remove_responsive_def removeEventListener_def)
  then have "s1 = add_responsive 0 True ''detach'' (add_responsive 0 True ''resize'' rebound)"
    using late_options_rebind by (simp add: s1_def attached_def Let_def)
  then have s1: "s1 = rebound\<lparr>ls_objects := (\<lambda>_. [])(1 := [''resize'', ''detach''], 0 := [''resize'', ''detach'']),
      ls_proxies := [''keyup'' \<mapsto> 2, ''resize'' \<mapsto> 5, ''detach'' \<mapsto> 6],
      ls_closure := Map.empty(0 := None, 1 := Some 0, 2 := None, 3 := Some 1, 4 := Some 1, 5 := Some 0, 6 := Some 0),
      ls_live := {2, 5, 6}, ls_next := 7\<rparr>"
    by (auto simp: rebound_def add_responsive_def addEventListener_def removeEventListener_def set_key_def)
  have "ls_live (detached 0 True s1) = {2, 6, 7}" "ls_listeners (detached 0 True s1) = [''keyup'']"
    "ls_responsive (detached 0 True s1) = Some 1" "ls_objects (detached 0 True s1) 1 = [''resize'', ''detach'']"
    "ls_proxies (detached 0 True s1) = [''keyup'' \<mapsto> 2, ''detach'' \<mapsto> 6, ''attach'' \<mapsto> 7]"
    by (auto simp: s1 rebound_def detached_def remove_responsive_def add_responsive_def addEventListener_def removeEventListener_def)
  then have "ls_live (unbindEvents (detached 0 True s1)) = {7}"
    by (auto simp: unbindEvents_def removeEventListener_def)
  then show ?thesis by (simp add: s1)
qed

text \<open>A throttled function requests a frame only while none is pending, and passes on the arguments of the last call.\<close>

lemma throttle_latest:
  "throttle_call a t = (t', b) \<Longrightarrow> th_ticking t' \<and> b = (\<not> th_ticking t) \<and> snd (throttle_frame t') = Some a"
  by (auto simp: throttle_call_def throttle_frame_def)

end
