(* ===== verification/Bar_Controller.thy ===== *)
theory Bar_Controller
  imports Dataset_Controller Elements
begin

text \<open>
  The controller of bar datasets (class \<open>BarController\<close> in \<^verbatim>\<open>chart.js\<close> with its helpers, from
  \<open>getAllScaleValues\<close> on): parsing of pairs into floating bars, the places of the bars along the index axis,
  their ends on the value axis, and the edges without a border.

  A scale is represented by what the controller asks of it: pixels of values, and some numbers. Options are those
  after resolution; the sharing of options between bars is not represented.
\<close>

section \<open>Parsing\<close>

text \<open>The property \<open>_custom\<close> of an item parsed from a pair.\<close>

record float_bar =
  fb_barStart :: jsnum
  fb_barEnd :: jsnum
  fb_start :: jsval
  fb_end :: jsval
  fb_min :: jsnum
  fb_max :: jsnum

record bar_item =
  bi_item :: item
  bi_custom :: "float_bar option"

definition float_bar_of :: "jsval \<Rightarrow> jsval \<Rightarrow> float_bar" where
  "float_bar_of startValue endValue =
     (let mn = math_min (to_num startValue) (to_num endValue); mx = math_max (to_num startValue) (to_num endValue);
          swapped = math_abs mx < math_abs mn
      in \<lparr>fb_barStart = (if swapped then mx else mn), fb_barEnd = (if swapped then mn else mx),
          fb_start = startValue, fb_end = endValue, fb_min = mn, fb_max = mx\<rparr>)"

definition parseFloatBar :: "(jsval \<Rightarrow> int \<Rightarrow> 's \<Rightarrow> jsval \<times> 's) \<Rightarrow> jsval \<Rightarrow> int \<Rightarrow> 's \<Rightarrow> (jsval \<times> float_bar) \<times> 's" where
  "parseFloatBar vParse entry i s =
     (let (startValue, s1) = vParse (js_get entry ''0'') i s; (endValue, s2) = vParse (js_get entry ''1'') i s1;
          c = float_bar_of startValue endValue
      in ((Num (fb_barEnd c), c), s2))"

text \<open>The value of an item on the value axis, and its \<open>_custom\<close>.\<close>

definition parseValue :: "(jsval \<Rightarrow> int \<Rightarrow> 's \<Rightarrow> jsval \<times> 's) \<Rightarrow> jsval \<Rightarrow> int \<Rightarrow> 's \<Rightarrow> (jsval \<times> float_bar option) \<times> 's" where
  "parseValue vParse entry i s =
     (if isArray entry then (let ((v, c), s') = parseFloatBar vParse entry i s in ((v, Some c), s'))
      else (let (v, s') = vParse entry i s in ((v, None), s')))"

fun parseArrayOrPrimitive :: "'s config \<Rightarrow> jsval list \<Rightarrow> int list \<Rightarrow> 's \<Rightarrow> bar_item list \<times> 's" where
  "parseArrayOrPrimitive cf data [] s = ([], s)"
| "parseArrayOrPrimitive cf data (i # js) s =
     (let labels = cf_labels cf s;
          label = (case arr_get labels i of Some v \<Rightarrow> v | None \<Rightarrow> Undefined);
          entry = (case arr_get data i of Some v \<Rightarrow> v | None \<Rightarrow> Undefined);
          (x, s1) = (if cf_singleScale cf then (Bool True, s) else cf_iParse cf label i s);
          ((v, custom), s2) = parseValue (cf_vParse cf) entry i s1;
          it = \<lparr>bi_item = \<lparr>it_val = (\<lambda>_. Undefined)(cf_iAxis cf := x, cf_vAxis cf := v), it_stacks = no_stacks\<rparr>, bi_custom = custom\<rparr>;
          (its, s3) = parseArrayOrPrimitive cf data js s2
      in (it # its, s3))"

fun parseBarObjects :: "'s config \<Rightarrow> jsval list \<Rightarrow> int list \<Rightarrow> 's \<Rightarrow> bar_item list \<times> 's" where
  "parseBarObjects cf data [] s = ([], s)"
| "parseBarObjects cf data (i # js) s =
     (let obj = (case arr_get data i of Some v \<Rightarrow> v | None \<Rightarrow> Undefined);
          iAxisKey = (if cf_iAxis cf = ''x'' then cf_xAxisKey cf else cf_yAxisKey cf);
          vAxisKey = (if cf_vAxis cf = ''x'' then cf_xAxisKey cf else cf_yAxisKey cf);
          (x, s1) = cf_iParse cf (resolveObjectKey obj iAxisKey) i s;
          ((v, custom), s2) = parseValue (cf_vParse cf) (resolveObjectKey obj vAxisKey) i s1;
          it = \<lparr>bi_item = \<lparr>it_val = (\<lambda>_. Undefined)(cf_iAxis cf := x, cf_vAxis cf := v), it_stacks = no_stacks\<rparr>, bi_custom = custom\<rparr>;
          (its, s3) = parseBarObjects cf data js s2
      in (it # its, s3))"

definition updateRangeFromParsedBar :: "range_params \<Rightarrow> bool \<Rightarrow> bar_item \<Rightarrow> jsnum \<times> jsnum \<Rightarrow> jsnum \<times> jsnum" where
  "updateRangeFromParsedBar rp onValueScale it rng =
     (let r = updateRangeFromParsed rp (bi_item it) rng
      in case bi_custom it of
           Some c \<Rightarrow> if onValueScale then (math_min (fst r) (fb_min c), math_max (snd r) (fb_max c)) else r
         | None \<Rightarrow> r)"

section \<open>The ruler\<close>

text \<open>All values of the visible bar datasets on the index axis.\<close>

definition getAllScaleValues :: "string \<Rightarrow> item list list \<Rightarrow> jsnum list" where
  "getAllScaleValues axis parsed = arrayUnique (sort_key num_val (concat (map (getAllParsedValues axis) parsed)))"

text \<open>
  A round of \<open>updateMinAndPrev\<close>: the values at the limits of 16 bit integers are left out, and a
  difference of zero leaves the minimum.
\<close>

definition updateMinAndPrev :: "jsnum \<Rightarrow> jsnum \<times> jsnum option \<Rightarrow> jsnum \<times> jsnum option" where
  "updateMinAndPrev cur st =
     (if num_eq cur 32767 \<or> num_eq cur (- 32768) then st
      else
        (case snd st of
           None \<Rightarrow> fst st
         | Some prev \<Rightarrow>
             let d = math_abs (cur - prev) in math_min (fst st) (if truthy (Num d) then d else fst st),
         Some cur))"

definition computeMinSampleSize :: "jsnum \<Rightarrow> jsnum list \<Rightarrow> jsnum list \<Rightarrow> jsnum" where
  "computeMinSampleSize scaleLength valuePixels tickPixels =
     (let mn = fst (fold updateMinAndPrev valuePixels (scaleLength, None))
      in fst (fold updateMinAndPrev tickPixels (mn, None)))"

text \<open>\<open>barThickness\<close>: missing, \<open>'flex'\<close>, or a number.\<close>

datatype thickness = Automatic | Flex | Thick real

record bar_options =
  bo_barThickness :: thickness
  bo_categoryPercentage :: real
  bo_barPercentage :: real
  bo_maxBarThickness :: "real option"
  bo_grouped :: bool
  bo_skipNull :: bool
  bo_base :: "jsnum option"
  bo_minBarLength :: jsnum

record ruler =
  rl_min :: jsnum
  rl_pixels :: "jsnum list"
  rl_start :: jsnum
  rl_end :: jsnum
  rl_stackCount :: nat
  rl_grouped :: bool
  rl_ratio :: real

text \<open>The place of a category at an index: the size of a part, the ratio of bars, and the start.\<close>

definition computeFitCategoryTraits :: "nat \<Rightarrow> ruler \<Rightarrow> bar_options \<Rightarrow> nat \<Rightarrow> jsnum \<times> real \<times> jsnum" where
  "computeFitCategoryTraits index r opts stackCount =
     (let n = Fin (of_nat stackCount);
          (sz, ratio) =
            (case bo_barThickness opts of
               Automatic \<Rightarrow> (rl_min r * Fin (bo_categoryPercentage opts), bo_barPercentage opts)
             | Thick t \<Rightarrow> (Fin t * n, 1)
             | Flex \<Rightarrow> (NaN, 1))
      in (sz / n, ratio, rl_pixels r ! index - sz / 2))"

definition computeFlexCategoryTraits :: "nat \<Rightarrow> ruler \<Rightarrow> bar_options \<Rightarrow> nat \<Rightarrow> jsnum \<times> real \<times> jsnum" where
  "computeFlexCategoryTraits index r opts stackCount =
     (let pixels = rl_pixels r; cur = pixels ! index; percent = Fin (bo_categoryPercentage opts);
          next = (if index < length pixels - 1 then Some (pixels ! (index + 1)) else None);
          prev = (if 0 < index then pixels ! (index - 1)
                  else cur - (case next of None \<Rightarrow> rl_end r - rl_start r | Some n \<Rightarrow> n - cur));
          next' = (case next of Some n \<Rightarrow> n | None \<Rightarrow> cur + cur - prev);
          start = cur - (cur - math_min prev next') / 2 * percent;
          sz = math_abs (next' - prev) / 2 * percent
      in (sz / Fin (of_nat stackCount), bo_barPercentage opts, start))"

section \<open>Stacks\<close>

text \<open>
  A visible bar dataset of the index axis: \<open>None\<close> is an undefined stack. With an index of data the value of each dataset at
  it is read; a dataset without an item there makes the call throw (result \<open>None\<close>).
\<close>

record bar_meta =
  bm_index :: nat
  bm_stack :: "string option"
  bm_grouped :: bool
  bm_values :: "jsval list"

fun stacks_loop :: "jsval \<Rightarrow> nat option \<Rightarrow> nat option \<Rightarrow> bar_meta list \<Rightarrow> string option list \<Rightarrow> string option list option" where
  "stacks_loop stacked upTo dataIndex [] stacks = Some stacks"
| "stacks_loop stacked upTo dataIndex (m # ms) stacks =
     (let stacks' = (if stacked = Bool False \<or> bm_stack m \<notin> set stacks \<or> stacked = Undefined \<and> bm_stack m = None
                     then stacks @ [bm_stack m] else stacks);
          counted = (if upTo = Some (bm_index m) then Some stacks' else stacks_loop stacked upTo dataIndex ms stacks');
          ignored = stacks_loop stacked upTo dataIndex ms stacks
      in if \<not> bm_grouped m then ignored
         else
           case dataIndex of
             None \<Rightarrow> counted
           | Some j \<Rightarrow>
               if j < length (bm_values m) then
                 if isNullOrUndef (bm_values m ! j) \<or> is_nan (to_num (bm_values m ! j)) then ignored else counted
               else None)"

definition getStacks :: "jsval \<Rightarrow> bar_meta list \<Rightarrow> nat option \<Rightarrow> nat option \<Rightarrow> string option list option" where
  "getStacks stacked metasets upTo dataIndex =
     map_option (\<lambda>stacks. if stacks = [] then [None] else stacks) (stacks_loop stacked upTo dataIndex metasets [])"

definition getStackCount :: "jsval \<Rightarrow> bar_meta list \<Rightarrow> nat option \<Rightarrow> nat option" where
  "getStackCount stacked metasets dataIndex = map_option length (getStacks stacked metasets None dataIndex)"

definition getStackIndex :: "jsval \<Rightarrow> bar_meta list \<Rightarrow> nat \<Rightarrow> string option \<Rightarrow> nat option \<Rightarrow> nat option" where
  "getStackIndex stacked metasets datasetIndex name dataIndex =
     map_option (\<lambda>stacks.
         if name \<noteq> None \<and> name \<in> set stacks then length (takeWhile (\<lambda>s. s \<noteq> name) stacks) else length stacks - 1)
       (getStacks stacked metasets (Some datasetIndex) dataIndex)"

section \<open>Places on the index axis\<close>

record index_scale =
  ix_pixel :: "jsval \<Rightarrow> jsnum"
  ix_ticks :: "jsnum list"
  ix_length :: jsnum
  ix_start :: jsnum
  ix_end :: jsnum
  ix_stacked :: jsval

definition getRuler :: "bar_options \<Rightarrow> index_scale \<Rightarrow> bar_meta list \<Rightarrow> jsnum list \<Rightarrow> jsval list \<Rightarrow> ruler" where
  "getRuler opts sc metasets allValues ownValues =
     (let sample = computeMinSampleSize (ix_length sc) (map (\<lambda>v. ix_pixel sc (Num v)) allValues) (ix_ticks sc)
      in \<lparr>rl_min = (case bo_barThickness opts of Automatic \<Rightarrow> sample | Flex \<Rightarrow> NaN | Thick t \<Rightarrow> if t = 0 then sample else Fin t),
          rl_pixels = map (ix_pixel sc) ownValues, rl_start = ix_start sc, rl_end = ix_end sc,
          rl_stackCount = the (getStackCount (ix_stacked sc) metasets None), rl_grouped = bo_grouped opts,
          rl_ratio = (if bo_barThickness opts \<in> {Automatic, Thick 0} then bo_categoryPercentage opts * bo_barPercentage opts
                      else 1)\<rparr>)"

record bar_place =
  bp_base :: jsnum
  bp_head :: jsnum
  bp_center :: jsnum
  bp_size :: jsnum

text \<open>\<open>own\<close> is the value of the item, used when bars are not grouped.\<close>

definition bar_place_at :: "jsnum \<Rightarrow> jsnum \<Rightarrow> bar_place" where
  "bar_place_at center sz = \<lparr>bp_base = center - sz / 2, bp_head = center + sz / 2, bp_center = center, bp_size = sz\<rparr>"

definition calculateBarIndexPixels :: "bar_options \<Rightarrow> index_scale \<Rightarrow> bar_meta list \<Rightarrow> nat \<Rightarrow> string option \<Rightarrow> nat \<Rightarrow> jsval \<Rightarrow> ruler \<Rightarrow>
    bar_place option" where
  "calculateBarIndexPixels opts sc metasets datasetIndex stack index own r =
     (let maxBarThickness = (case bo_maxBarThickness opts of Some t \<Rightarrow> Fin t | None \<Rightarrow> PInf);
          dataIndex = (if bo_skipNull opts then Some index else None)
      in if rl_grouped r then
           (case (if bo_skipNull opts then getStackCount (ix_stacked sc) metasets (Some index) else Some (rl_stackCount r),
                  getStackIndex (ix_stacked sc) metasets datasetIndex stack dataIndex) of
              (Some stackCount, Some stackIndex) \<Rightarrow>
                let (chunk, ratio, start) =
                      (if bo_barThickness opts = Flex then computeFlexCategoryTraits index r opts stackCount
                       else computeFitCategoryTraits index r opts stackCount)
                in Some (bar_place_at (start + chunk * Fin (of_nat stackIndex) + chunk / 2)
                     (math_min maxBarThickness (chunk * Fin ratio)))
            | _ \<Rightarrow> None)
         else Some (bar_place_at (ix_pixel sc own) (math_min maxBarThickness (rl_min r * Fin (rl_ratio r)))))"

section \<open>Ends on the value axis\<close>

record value_scale =
  vs_pixel :: "jsnum \<Rightarrow> jsnum"
  vs_lineWidth :: "jsnum \<Rightarrow> real"
  vs_horizontal :: bool
  vs_min :: jsnum

definition barSign :: "jsnum \<Rightarrow> value_scale \<Rightarrow> jsnum \<Rightarrow> jsnum" where
  "barSign sz vs actualBase =
     (if \<not> num_eq sz 0 then math_sign sz
      else Fin ((if vs_horizontal vs then 1 else - 1) * (if actualBase \<le> vs_min vs then 1 else - 1)))"

text \<open>Stacking: the visible datasets, the values of the stack, the own dataset and the mode.\<close>

record bar_stacking =
  bs_keys :: "nat list"
  bs_values :: "nat \<Rightarrow> jsval"
  bs_index :: nat
  bs_single :: bool

text \<open>The value where a bar starts and its length, and the value compared with the base.\<close>

definition bar_extent :: "bar_stacking option \<Rightarrow> jsnum \<Rightarrow> float_bar option \<Rightarrow> jsnum \<times> jsnum \<times> jsnum" where
  "bar_extent stacking v custom =
     (let (start, len) =
            (case stacking of
               None \<Rightarrow> (0, v)
             | Some st \<Rightarrow>
                 let l = to_num (applyStack (bs_keys st) (bs_values st) (Num v) (bs_index st) (bs_single st) False)
                 in if num_eq l v then (0, l) else (l - v, v))
      in case custom of
           None \<Rightarrow> (v, start, len)
         | Some c \<Rightarrow>
             let bar = fb_barStart c;
                 start' = (if \<not> num_eq bar 0 \<and> \<not> num_eq (math_sign bar) (math_sign (fb_barEnd c)) then 0 else start)
             in (bar, start' + bar, fb_barEnd c - fb_barStart c))"

text \<open>
  The base, head and size of a bar that must not be shorter than the least length; then the base and size of a bar that must not cover the
  grid line of its base.
\<close>

definition lengthen :: "value_scale \<Rightarrow> jsnum \<Rightarrow> jsnum \<Rightarrow> jsnum \<Rightarrow> jsnum \<Rightarrow> jsnum \<Rightarrow> jsnum \<times> jsnum \<times> jsnum" where
  "lengthen vs minBarLength actualBase v base head =
     (let sz = head - base
      in if math_abs sz < minBarLength then
           let sz' = barSign sz vs actualBase * minBarLength; base' = (if num_eq v actualBase then base - sz' / 2 else base)
           in (base', base' + sz', sz')
         else (base, head, sz))"

definition off_grid :: "value_scale \<Rightarrow> jsnum \<Rightarrow> jsnum \<Rightarrow> jsnum \<Rightarrow> jsnum \<times> jsnum" where
  "off_grid vs actualBase base sz =
     (if num_eq base (vs_pixel vs actualBase) then
        let halfGrid = math_sign sz * Fin (vs_lineWidth vs actualBase) / 2 in (base + halfGrid, sz - halfGrid)
      else (base, sz))"

definition calculateBarValuePixels :: "bar_options \<Rightarrow> value_scale \<Rightarrow> bool \<Rightarrow> bar_stacking option \<Rightarrow> jsnum \<Rightarrow> float_bar option \<Rightarrow>
    bar_place" where
  "calculateBarValuePixels opts vs visible stacking v custom =
     (let actualBase = (case bo_base opts of Some b \<Rightarrow> if truthy (Num b) then b else 0 | None \<Rightarrow> 0);
          (v', start, len) = bar_extent stacking v custom;
          startValue = (case bo_base opts of Some b \<Rightarrow> if custom = None then b else start | None \<Rightarrow> start);
          base = vs_pixel vs startValue;
          head = (if visible then vs_pixel vs (start + len) else base);
          (base1, head1, size1) = lengthen vs (bo_minBarLength opts) actualBase v' base head;
          (base2, size2) = off_grid vs actualBase base1 size1
      in \<lparr>bp_base = base2, bp_head = head1, bp_center = head1 + size2 / 2, bp_size = size2\<rparr>)"

section \<open>Edges without a border\<close>

record border_props =
  bd_start :: string
  bd_end :: string
  bd_reverse :: bool
  bd_top :: string
  bd_bottom :: string

definition borderProps :: "bool \<Rightarrow> jsnum \<Rightarrow> jsnum \<Rightarrow> jsnum \<Rightarrow> border_props" where
  "borderProps horizontal base x y =
     (let reverse = (if horizontal then x < base else base < y)
      in \<lparr>bd_start = (if horizontal then ''left'' else ''bottom''), bd_end = (if horizontal then ''right'' else ''top''),
          bd_reverse = reverse, bd_top = (if reverse then ''end'' else ''start''),
          bd_bottom = (if reverse then ''start'' else ''end'')\<rparr>)"

definition swap :: "string \<Rightarrow> string \<Rightarrow> string \<Rightarrow> string" where
  "swap orig v1 v2 = (if orig = v1 then v2 else if orig = v2 then v1 else orig)"

definition startEnd :: "string \<Rightarrow> string \<Rightarrow> string \<Rightarrow> string" where
  "startEnd v start end' = (if v = ''start'' then start else if v = ''end'' then end' else v)"

definition parseEdge :: "string \<Rightarrow> string \<Rightarrow> string \<Rightarrow> bool \<Rightarrow> string" where
  "parseEdge edge a b reverse = (if reverse then startEnd (swap edge a b) b a else startEnd edge a b)"

text \<open>
  The edges that are skipped, and whether the radius of corners is enabled. The stack is given by the last dataset with a
  positive value and the last with a negative one; a missing one counts as 0, as in the source.
\<close>

definition setBorderSkipped :: "bool \<Rightarrow> jsnum \<Rightarrow> jsnum \<Rightarrow> jsnum \<Rightarrow> string option \<Rightarrow> (nat option \<times> nat option) option \<Rightarrow> nat \<Rightarrow> bool \<Rightarrow>
    string list \<times> bool" where
  "setBorderSkipped horizontal base x y borderSkipped stack index enabled =
     (let p = borderProps horizontal base x y; edge_of = (\<lambda>e. parseEdge e (bd_start p) (bd_end p) (bd_reverse p));
          index_or_0 = (\<lambda>i. case i of Some j \<Rightarrow> j | None \<Rightarrow> 0)
      in case borderSkipped of
           None \<Rightarrow> ([], enabled)
         | Some edge \<Rightarrow>
             if edge = [] then ([], enabled)
             else
               (case stack of
                  Some (tp, bottom) \<Rightarrow>
                    if edge = ''middle'' then
                      if index_or_0 tp = index then ([edge_of (bd_top p)], True)
                      else if index_or_0 bottom = index then ([edge_of (bd_bottom p)], True)
                      else ([edge_of (bd_bottom p), edge_of (bd_top p)], True)
                    else ([edge_of edge], enabled)
                | None \<Rightarrow> ([edge_of edge], enabled)))"

text \<open>\<open>None\<close>: the amount is chosen automatically.\<close>

definition setInflateAmount :: "real option \<Rightarrow> real \<Rightarrow> real" where
  "setInflateAmount inflateAmount ratio =
     (case inflateAmount of None \<Rightarrow> if ratio = 1 then 33 / 100 else 0 | Some a \<Rightarrow> a)"

section \<open>Updating the bars\<close>

record bar_props =
  bq_base :: jsnum
  bq_x :: jsnum
  bq_y :: jsnum
  bq_width :: jsnum
  bq_height :: jsnum
  bq_enableBorderRadius :: bool
  bq_borderSkipped :: "string list"
  bq_inflateAmount :: real

text \<open>
  A round of the loop of \<open>updateElements\<close>. When the element is reset, or has no value, it gets no length.
\<close>

definition update_bar :: "bar_options \<Rightarrow> index_scale \<Rightarrow> value_scale \<Rightarrow> bar_meta list \<Rightarrow> nat \<Rightarrow> string option \<Rightarrow> ruler \<Rightarrow> jsnum \<Rightarrow>
    string option \<Rightarrow> real option \<Rightarrow> bool \<Rightarrow> bool \<Rightarrow> nat \<Rightarrow> jsval \<Rightarrow> jsval \<Rightarrow> float_bar option \<Rightarrow>
    (nat option \<times> nat option) option \<Rightarrow> bar_stacking option \<Rightarrow> bar_props option" where
  "update_bar opts sc vs metasets datasetIndex stackName r basePixel borderSkipped inflate reset visible index own v custom stack stacking =
     (let vp = (if reset \<or> isNullOrUndef v
                then \<lparr>bp_base = basePixel, bp_head = basePixel, bp_center = NaN, bp_size = NaN\<rparr>
                else calculateBarValuePixels opts vs visible stacking (to_num v) custom);
          horizontal = vs_horizontal vs
      in case calculateBarIndexPixels opts sc metasets datasetIndex stackName index own r of
           None \<Rightarrow> None
         | Some ip \<Rightarrow>
             let x = (if horizontal then bp_head vp else bp_center ip); y = (if horizontal then bp_center ip else bp_head vp);
                 enabled = (case stack of
                              None \<Rightarrow> True
                            | Some (tp, bottom) \<Rightarrow> custom \<noteq> None \<or> Some datasetIndex = tp \<or> Some datasetIndex = bottom);
                 (skip, radius) = setBorderSkipped horizontal (bp_base vp) x y borderSkipped stack datasetIndex enabled
             in Some \<lparr>bq_base = bp_base vp, bq_x = x, bq_y = y,
                   bq_width = (if horizontal then math_abs (bp_size vp) else bp_size ip),
                   bq_height = (if horizontal then bp_size ip else math_abs (bp_size vp)),
                   bq_enableBorderRadius = radius, bq_borderSkipped = skip,
                   bq_inflateAmount = setInflateAmount inflate (rl_ratio r)\<rparr>)"

text \<open>Bars whose value is \<open>null\<close> are not drawn.\<close>

definition draw_bars :: "(jsval \<times> elem \<times> bar_el) list \<Rightarrow> cmd list" where
  "draw_bars bars = concat (map (\<lambda>(v, e, b). if v = Null then [] else bar_draw e b) bars)"

section \<open>The smallest distance: lemmas\<close>

lemma updateMinAndPrev_Fin:
  assumes "\<bar>p\<bar> < 32767" and "0 < m"
  shows "updateMinAndPrev (Fin p) (Fin m, prev) =
    (case prev of None \<Rightarrow> Fin m
     | Some (Fin q) \<Rightarrow> Fin (if p = q then m else min m \<bar>p - q\<bar>)
     | Some q \<Rightarrow> fst (updateMinAndPrev (Fin p) (Fin m, prev)), Some (Fin p))"
  using assms by (auto simp: updateMinAndPrev_def Let_def split: option.splits jsnum.splits)

text \<open>The smallest distance does not exceed the distance of neighbours.\<close>

fun gaps :: "real list \<Rightarrow> real set" where
  "gaps (p # q # ps) = insert \<bar>q - p\<bar> (gaps (q # ps))"
| "gaps _ = {}"

lemma fold_sample:
  assumes "\<forall>p \<in> set (q # ps). \<bar>p\<bar> < 32767" and "0 < m"
  shows "\<exists>m'. fold updateMinAndPrev (map Fin ps) (Fin m, Some (Fin q)) = (Fin m', Some (Fin (last (q # ps)))) \<and>
    0 < m' \<and> m' \<le> m \<and> (\<forall>d \<in> gaps (q # ps). d = 0 \<or> m' \<le> d)"
  using assms
proof (induction ps arbitrary: q m)
  case (Cons p ps)
  let ?m = "if p = q then m else min m \<bar>p - q\<bar>"
  have m: "0 < ?m" "?m \<le> m" "\<bar>p - q\<bar> = 0 \<or> ?m \<le> \<bar>p - q\<bar>" using Cons.prems(2) by auto
  have "updateMinAndPrev (Fin p) (Fin m, Some (Fin q)) = (Fin ?m, Some (Fin p))"
    using updateMinAndPrev_Fin [of p m "Some (Fin q)"] Cons.prems by simp
  moreover obtain m' where "fold updateMinAndPrev (map Fin ps) (Fin ?m, Some (Fin p)) = (Fin m', Some (Fin (last (p # ps))))"
    "0 < m'" "m' \<le> ?m" "\<forall>d \<in> gaps (p # ps). d = 0 \<or> m' \<le> d"
    using Cons.IH [of p ?m] Cons.prems(1) m(1) by auto
  ultimately show ?case using m by (intro exI [of _ m']) auto
qed simp

lemma fold_sample_start:
  assumes "\<forall>p \<in> set ps. \<bar>p\<bar> < 32767" and "0 < m"
  shows "\<exists>m' prev. fold updateMinAndPrev (map Fin ps) (Fin m, None) = (Fin m', prev) \<and> 0 < m' \<and> m' \<le> m \<and>
    (\<forall>d \<in> gaps ps. d = 0 \<or> m' \<le> d)"
proof (cases ps)
  case (Cons p qs)
  have "updateMinAndPrev (Fin p) (Fin m, None) = (Fin m, Some (Fin p))"
    using updateMinAndPrev_Fin [of p m None] assms Cons by simp
  with fold_sample [of p qs m] assms Cons show ?thesis by auto
qed (use assms in auto)

lemma fold_ticks:
  assumes "0 < m" and "\<forall>x. prev = Some x \<longrightarrow> (\<exists>q. x = Fin q)"
  shows "\<exists>m' prev'. fold updateMinAndPrev (map Fin ts) (Fin m, prev) = (Fin m', prev') \<and> 0 < m' \<and> m' \<le> m"
  using assms
proof (induction ts arbitrary: m prev)
  case (Cons t ts)
  have "\<exists>m' prev'. updateMinAndPrev (Fin t) (Fin m, prev) = (Fin m', prev') \<and> 0 < m' \<and> m' \<le> m \<and>
      (\<forall>x. prev' = Some x \<longrightarrow> (\<exists>q. x = Fin q))"
    using Cons.prems by (auto simp: updateMinAndPrev_def Let_def split: option.splits)
  then obtain m' prev' where s: "updateMinAndPrev (Fin t) (Fin m, prev) = (Fin m', prev')" "0 < m'" "m' \<le> m"
    "\<forall>x. prev' = Some x \<longrightarrow> (\<exists>q. x = Fin q)" by blast
  from Cons.IH [OF s(2,4)] s show ?case by force
qed auto

lemma gaps_sorted:
  assumes "sorted ps" and "p \<in> set ps" and "q \<in> set ps" and "p < q"
  shows "\<exists>d \<in> gaps ps. 0 < d \<and> d \<le> q - p"
  using assms
proof (induction ps rule: gaps.induct)
  case (1 a b ps)
  show ?case
  proof (cases "p \<in> set (b # ps) \<and> q \<in> set (b # ps)")
    case True
    then show ?thesis using 1 by auto
  next
    case False
    have "q \<noteq> a" using 1(2,3,5) by auto
    then have q: "q \<in> set (b # ps)" using 1(4) by auto
    then have pa: "p = a" using False 1(3) by auto
    have ab: "a \<le> b" "b \<le> q" using 1(2) q by auto
    show ?thesis
    proof (cases "a = b")
      case True
      then have "p \<in> set (b # ps)" using pa by simp
      then show ?thesis using 1 q by auto
    next
      case False
      then show ?thesis using ab pa by (intro bexI [of _ "\<bar>b - a\<bar>"]) auto
    qed
  qed
qed auto

lemma gaps_rev_sorted:
  assumes "sorted (rev ps)" and "p \<in> set ps" and "q \<in> set ps" and "p < q"
  shows "\<exists>d \<in> gaps ps. 0 < d \<and> d \<le> q - p"
  using assms
proof (induction ps rule: gaps.induct)
  case (1 a b ps)
  have so: "sorted (rev (b # ps))" "b \<le> a" "\<forall>x \<in> set ps. x \<le> b" using 1(2) by (auto simp: sorted_append)
  show ?case
  proof (cases "p \<in> set (b # ps) \<and> q \<in> set (b # ps)")
    case True
    then show ?thesis using 1(1) [OF so(1)] 1(5) by auto
  next
    case False
    have "p \<noteq> a" using so 1(4,5) by auto
    then have p: "p \<in> set (b # ps)" using 1(3) by auto
    then have qa: "q = a" using False 1(4) by auto
    have "p \<le> b" using p so(3) by auto
    show ?thesis
    proof (cases "a = b")
      case True
      then have "q \<in> set (b # ps)" using qa by simp
      then show ?thesis using 1(1) [OF so(1)] 1(5) p by auto
    next
      case False
      then show ?thesis using so(2) qa \<open>p \<le> b\<close> by (intro bexI [of _ "\<bar>b - a\<bar>"]) auto
    qed
  qed
qed auto

lemma computeMinSampleSize_least:
  assumes "sorted ps \<or> sorted (rev ps)" and "\<forall>p \<in> set ps. \<bar>p\<bar> < 32767" and "0 < len"
  shows "\<exists>m. computeMinSampleSize (Fin len) (map Fin ps) (map Fin ts) = Fin m \<and> 0 < m \<and>
    (\<forall>p \<in> set ps. \<forall>q \<in> set ps. p \<noteq> q \<longrightarrow> m \<le> \<bar>p - q\<bar>)"
proof -
  obtain m1 prev where 1: "fold updateMinAndPrev (map Fin ps) (Fin len, None) = (Fin m1, prev)" "0 < m1"
    "\<forall>d \<in> gaps ps. d = 0 \<or> m1 \<le> d" using fold_sample_start [OF assms(2,3)] by blast
  obtain m prev' where 2: "fold updateMinAndPrev (map Fin ts) (Fin m1, None) = (Fin m, prev')" "0 < m" "m \<le> m1"
    using fold_ticks [OF 1(2), of None] by blast
  have "m \<le> q - p" if "p \<in> set ps" "q \<in> set ps" "p < q" for p q
    using gaps_sorted [of ps p q] gaps_rev_sorted [of ps p q] assms(1) that 1(3) 2(3) by fastforce
  then have "m \<le> \<bar>p - q\<bar>" if "p \<in> set ps" "q \<in> set ps" "p \<noteq> q" for p q
    using that by (cases "p < q") (auto simp: abs_if not_less)
  with 1(1) 2 show ?thesis by (simp add: computeMinSampleSize_def)
qed

section \<open>Stacks: lemmas\<close>

lemma stacks_loop_prefix:
  "stacks_loop stacked upTo None ms stacks = Some a \<Longrightarrow>
   \<exists>b. stacks_loop stacked None None ms stacks = Some b \<and> length a \<le> length b \<and> length stacks \<le> length a"
proof (induction ms arbitrary: stacks)
  case (Cons m ms)
  let ?s = "if stacked = Bool False \<or> bm_stack m \<notin> set stacks \<or> stacked = Undefined \<and> bm_stack m = None
    then stacks @ [bm_stack m] else stacks"
  have total: "\<exists>b. stacks_loop stacked None None ms x = Some b \<and> length x \<le> length b" for x
  proof (induction ms arbitrary: x)
    case (Cons n ns)
    show ?case
      using Cons.IH [of x] Cons.IH [of "x @ [bm_stack n]"] by (auto simp: Let_def)
  qed simp
  show ?case
    using Cons.IH [of stacks] Cons.IH [of ?s] Cons.prems total [of ?s] by (auto simp: Let_def split: if_splits)
qed simp

lemma getStackIndex_less:
  assumes "getStackIndex stacked ms d name None = Some i"
  shows "\<exists>n. getStackCount stacked ms None = Some n \<and> i < n"
proof -
  obtain a where a: "stacks_loop stacked (Some d) None ms [] = Some a"
    using assms by (auto simp: getStackIndex_def getStacks_def)
  obtain b where b: "stacks_loop stacked None None ms [] = Some b" "length a \<le> length b"
    using stacks_loop_prefix [OF a] by blast
  let ?a = "if a = [] then [None] else a" and ?b = "if b = [] then [None] else b"
  have "length ?a \<le> length ?b" "?a \<noteq> []" using b(2) by (auto simp: Suc_le_eq)
  moreover have "i < length ?a"
  proof -
    have "length (takeWhile (\<lambda>s. s \<noteq> name) xs) < length xs" if "name \<in> set xs" for xs :: "string option list"
      using that by (induction xs) auto
    then show ?thesis using assms a by (auto simp: getStackIndex_def getStacks_def split: if_splits)
  qed
  ultimately show ?thesis using b(1) by (auto simp: getStackCount_def getStacks_def)
qed

section \<open>Places\<close>

text \<open>The pixels of the values rise or fall with the values and are not at the limits of the canvas.\<close>

definition ordered_scale :: "index_scale \<Rightarrow> jsnum list \<Rightarrow> bool" where
  "ordered_scale sc allValues \<longleftrightarrow>
     (\<exists>ps ts len. map (\<lambda>v. ix_pixel sc (Num v)) allValues = map Fin ps \<and> (sorted ps \<or> sorted (rev ps)) \<and>
        (\<forall>p \<in> set ps. \<bar>p\<bar> < 32767) \<and> ix_ticks sc = map Fin ts \<and> ix_length sc = Fin len \<and> 0 < len)"

lemma ordered_scale_min:
  assumes "ordered_scale sc allValues" and "bo_barThickness opts = Automatic"
  shows "\<exists>m. 0 < m \<and> (\<forall>own. rl_min (getRuler opts sc ms allValues own) = Fin m) \<and>
    (\<forall>u \<in> set allValues. \<exists>p. ix_pixel sc (Num u) = Fin p) \<and>
    (\<forall>u \<in> set allValues. \<forall>v \<in> set allValues. \<forall>p q. ix_pixel sc (Num u) = Fin p \<longrightarrow> ix_pixel sc (Num v) = Fin q \<longrightarrow>
      p \<noteq> q \<longrightarrow> m \<le> \<bar>p - q\<bar>)"
proof -
  obtain ps ts len where s: "map (\<lambda>v. ix_pixel sc (Num v)) allValues = map Fin ps" "sorted ps \<or> sorted (rev ps)"
    "\<forall>p \<in> set ps. \<bar>p\<bar> < 32767" "ix_ticks sc = map Fin ts" "ix_length sc = Fin len" "0 < len"
    using assms(1) unfolding ordered_scale_def by blast
  obtain m where m: "computeMinSampleSize (Fin len) (map Fin ps) (map Fin ts) = Fin m" "0 < m"
    "\<forall>p \<in> set ps. \<forall>q \<in> set ps. p \<noteq> q \<longrightarrow> m \<le> \<bar>p - q\<bar>" using computeMinSampleSize_least [OF s(2,3,6)] by blast
  have px: "\<exists>p \<in> set ps. ix_pixel sc (Num u) = Fin p" if "u \<in> set allValues" for u
  proof -
    have "ix_pixel sc (Num u) \<in> set (map (\<lambda>v. ix_pixel sc (Num v)) allValues)" using that by auto
    then show ?thesis unfolding s(1) by auto
  qed
  have "rl_min (getRuler opts sc ms allValues own) = Fin m" for own
    using s m(1) assms(2) by (simp add: getRuler_def Let_def)
  moreover have "m \<le> \<bar>p - q\<bar>" if "u \<in> set allValues" "v \<in> set allValues" "ix_pixel sc (Num u) = Fin p"
    "ix_pixel sc (Num v) = Fin q" "p \<noteq> q" for u v p q
    using px [OF that(1)] px [OF that(2)] that m(3) by auto
  ultimately show ?thesis using m(2) px by blast
qed

text \<open>The place of a bar in the category of its index, in numbers.\<close>

lemma grouped_place:
  assumes "bo_barThickness opts = Automatic" and "bo_grouped opts" and "\<not> bo_skipNull opts"
    and "\<forall>t. bo_maxBarThickness opts = Some t \<longrightarrow> 0 \<le> t" and "0 \<le> bo_categoryPercentage opts" and "0 \<le> bo_barPercentage opts"
    and "bo_barPercentage opts \<le> 1" and "r = getRuler opts sc ms allValues own" and "rl_min r = Fin m" and "0 < m"
    and "i < length own" and "ix_pixel sc (own ! i) = Fin p"
    and "calculateBarIndexPixels opts sc ms d name i v r = Some b"
  shows "\<exists>n k z. getStackCount (ix_stacked sc) ms None = Some n \<and> getStackIndex (ix_stacked sc) ms d name None = Some k \<and> k < n \<and>
    (let chunk = m * bo_categoryPercentage opts / of_nat n
     in b = bar_place_at (Fin (p - m * bo_categoryPercentage opts / 2 + chunk * of_nat k + chunk / 2)) (Fin z) \<and> 0 \<le> z \<and> z \<le> chunk)"
proof -
  obtain k where k: "getStackIndex (ix_stacked sc) ms d name None = Some k"
    using assms(2,3,8,13) by (auto simp: calculateBarIndexPixels_def getRuler_def Let_def split: option.splits)
  obtain n where n: "getStackCount (ix_stacked sc) ms None = Some n" "k < n" using getStackIndex_less [OF k] by blast
  let ?c = "m * bo_categoryPercentage opts / of_nat n"
  have c: "0 \<le> ?c" using assms(5,10) by simp
  let ?z = "case bo_maxBarThickness opts of Some t \<Rightarrow> min t (?c * bo_barPercentage opts) | None \<Rightarrow> ?c * bo_barPercentage opts"
  have "?c * bo_barPercentage opts \<le> ?c" using mult_left_mono [OF assms(7) c] by simp
  moreover have "0 \<le> ?c * bo_barPercentage opts" using c assms(6) by (rule mult_nonneg_nonneg)
  ultimately have z: "0 \<le> ?z" "?z \<le> ?c" using assms(4) by (auto split: option.split)
  have r: "rl_grouped r" "rl_stackCount r = n" "rl_pixels r ! i = Fin p" using assms(2,8,11,12) n(1) by (simp_all add: getRuler_def Let_def)
  have "b = bar_place_at (Fin (p - m * bo_categoryPercentage opts / 2 + ?c * of_nat k + ?c / 2)) (Fin ?z)"
    using assms(1,3,9,13) r k n
    by (cases "bo_maxBarThickness opts") (simp_all add: calculateBarIndexPixels_def computeFitCategoryTraits_def Let_def)
  with k n z show ?thesis unfolding Let_def by blast
qed

text \<open>
  C16 (bars side by side). Two bars at different values, or at one value in different stacks, do not overlap, whatever limit there is on
  their thickness. Both have the same options: the thickness is computed (\<open>barThickness\<close> is not set), the bars of the datasets are grouped and those of missing
  values not skipped, and the two percentages are from 0 to 1; the values on the axis have pixels in order.
\<close>

theorem bars_apart:
  assumes "ordered_scale sc allValues" and "bo_barThickness opts = Automatic" and "bo_grouped opts" and "\<not> bo_skipNull opts"
    and "\<forall>t. bo_maxBarThickness opts = Some t \<longrightarrow> 0 \<le> t" and "0 \<le> bo_categoryPercentage opts" and "bo_categoryPercentage opts \<le> 1"
    and "0 \<le> bo_barPercentage opts" and "bo_barPercentage opts \<le> 1"
    and "i1 < length own1" and "own1 ! i1 = Num u1" and "u1 \<in> set allValues"
    and "i2 < length own2" and "own2 ! i2 = Num u2" and "u2 \<in> set allValues"
    and "calculateBarIndexPixels opts sc ms d1 name1 i1 v1 (getRuler opts sc ms allValues own1) = Some b1"
    and "calculateBarIndexPixels opts sc ms d2 name2 i2 v2 (getRuler opts sc ms allValues own2) = Some b2"
    and "ix_pixel sc (Num u1) \<noteq> ix_pixel sc (Num u2) \<or>
      getStackIndex (ix_stacked sc) ms d1 name1 None \<noteq> getStackIndex (ix_stacked sc) ms d2 name2 None"
  shows "\<exists>c1 z1 c2 z2. b1 = bar_place_at (Fin c1) (Fin z1) \<and> b2 = bar_place_at (Fin c2) (Fin z2) \<and>
    0 \<le> z1 \<and> 0 \<le> z2 \<and> (z1 + z2) / 2 \<le> \<bar>c1 - c2\<bar>"
proof -
  obtain m where m: "0 < m" "\<And>own. rl_min (getRuler opts sc ms allValues own) = Fin m"
    "\<forall>u \<in> set allValues. \<exists>p. ix_pixel sc (Num u) = Fin p"
    "\<forall>u \<in> set allValues. \<forall>v \<in> set allValues. \<forall>p q. ix_pixel sc (Num u) = Fin p \<longrightarrow> ix_pixel sc (Num v) = Fin q \<longrightarrow>
      p \<noteq> q \<longrightarrow> m \<le> \<bar>p - q\<bar>" using ordered_scale_min [OF assms(1,2)] by blast
  obtain p q where pq: "ix_pixel sc (Num u1) = Fin p" "ix_pixel sc (Num u2) = Fin q" using m(3) assms(12,15) by blast
  let ?w = "m * bo_categoryPercentage opts"
  have w: "0 \<le> ?w" "?w \<le> m" using m(1) assms(6,7) by (simp_all add: mult_left_le)
  obtain n k1 z1 where 1: "getStackCount (ix_stacked sc) ms None = Some n" "getStackIndex (ix_stacked sc) ms d1 name1 None = Some k1"
    "k1 < n" "b1 = bar_place_at (Fin (p - ?w / 2 + ?w / of_nat n * of_nat k1 + ?w / of_nat n / 2)) (Fin z1)" "0 \<le> z1" "z1 \<le> ?w / of_nat n"
    using grouped_place [OF assms(2-5,6,8,9) refl m(2,1) assms(10) _ assms(16)] pq(1) assms(11) unfolding Let_def by auto
  obtain k2 z2 where 2: "getStackIndex (ix_stacked sc) ms d2 name2 None = Some k2"
    "k2 < n" "b2 = bar_place_at (Fin (q - ?w / 2 + ?w / of_nat n * of_nat k2 + ?w / of_nat n / 2)) (Fin z2)" "0 \<le> z2" "z2 \<le> ?w / of_nat n"
    using grouped_place [OF assms(2-5,6,8,9) refl m(2,1) assms(13) _ assms(17)] pq(2) assms(14) 1(1) unfolding Let_def by auto
  define ch where "ch = ?w / of_nat n"
  have n0: "0 < real n" using 1(3) by simp
  have ch: "0 \<le> ch" "ch * real n = ?w" using w(1) n0 by (simp_all add: ch_def)
  define t where "t = real k1 - real k2"
  have t: "\<bar>t\<bar> \<le> real n - 1" using 1(3) 2(2) by (auto simp: t_def abs_le_iff)
  have "(z1 + z2) / 2 \<le> ch" using 1(6) [folded ch_def] 2(5) [folded ch_def] by (simp add: field_simps)
  moreover have "ch \<le> \<bar>(p - q) + ch * t\<bar>"
  proof (cases "p = q")
    case True
    then have "k1 \<noteq> k2" using assms(18) pq 1(2) 2(1) by auto
    then have "1 \<le> \<bar>t\<bar>" by (auto simp: t_def abs_if)
    then have "ch * 1 \<le> ch * \<bar>t\<bar>" using ch(1) by (rule mult_left_mono)
    then show ?thesis using True ch(1) by (simp add: abs_mult)
  next
    case False
    then have "?w \<le> \<bar>p - q\<bar>" using m(4) assms(12,15) pq w(2) by fastforce
    moreover have "\<bar>ch * t\<bar> \<le> ch * (real n - 1)" using ch(1) t by (simp add: abs_mult mult_left_mono)
    moreover have "ch * (real n - 1) = ?w - ch" using ch(2) by (simp add: algebra_simps)
    ultimately show ?thesis by linarith
  qed
  moreover have "(p - ?w / 2 + ch * of_nat k1 + ch / 2) - (q - ?w / 2 + ch * of_nat k2 + ch / 2) = (p - q) + ch * t"
    by (simp add: t_def algebra_simps)
  ultimately have "(z1 + z2) / 2 \<le> \<bar>(p - ?w / 2 + ch * of_nat k1 + ch / 2) - (q - ?w / 2 + ch * of_nat k2 + ch / 2)\<bar>"
    by (metis order_trans)
  then show ?thesis using 1(4,5) 2(3,4) unfolding ch_def by blast
qed

text \<open>The index scale of the example: the pixels are ten times the values.\<close>

definition tens :: index_scale where
  "tens = \<lparr>ix_pixel = (\<lambda>v. to_num v * 10), ix_ticks = [Fin 0, Fin 20], ix_length = Fin 20, ix_start = Fin 0, ix_end = Fin 20,
     ix_stacked = Undefined\<rparr>"

definition bar_defaults :: bar_options where
  "bar_defaults = \<lparr>bo_barThickness = Automatic, bo_categoryPercentage = 8 / 10, bo_barPercentage = 9 / 10, bo_maxBarThickness = None,
     bo_grouped = True, bo_skipNull = False, bo_base = None, bo_minBarLength = NaN\<rparr>"

definition two_metas :: "bar_meta list" where
  "two_metas = [\<lparr>bm_index = 0, bm_stack = None, bm_grouped = True, bm_values = []\<rparr>,
     \<lparr>bm_index = 1, bm_stack = None, bm_grouped = True, bm_values = []\<rparr>]"

theorem bars_apart_witness:
  "\<exists>b1 b2 c1 z1 c2 z2.
     calculateBarIndexPixels bar_defaults tens two_metas 0 None 1 Undefined (getRuler bar_defaults tens two_metas [0, 1] [Num 0, Num 1]) = Some b1 \<and>
     calculateBarIndexPixels bar_defaults tens two_metas 1 None 1 Undefined (getRuler bar_defaults tens two_metas [0, 1] [Num 0, Num 1]) = Some b2 \<and>
     b1 = bar_place_at (Fin c1) (Fin z1) \<and> b2 = bar_place_at (Fin c2) (Fin z2) \<and> (z1 + z2) / 2 \<le> \<bar>c1 - c2\<bar>"
proof -
  have o: "ordered_scale tens [0, 1]"
    unfolding ordered_scale_def tens_def
    by (rule exI [of _ "[0, 10]"], rule exI [of _ "[0, 20]"], rule exI [of _ 20]) simp
  have k: "getStackIndex Undefined two_metas 0 None None = Some 0" "getStackIndex Undefined two_metas 1 None None = Some 1"
    "getStackCount Undefined two_metas None = Some 2"
    by (simp_all add: getStackIndex_def getStackCount_def getStacks_def two_metas_def)
  let ?r = "getRuler bar_defaults tens two_metas [0, 1] [Num 0, Num 1]"
  have u: "ix_stacked tens = Undefined" "bo_grouped bar_defaults" "\<not> bo_skipNull bar_defaults" "rl_grouped ?r"
    by (simp_all add: tens_def bar_defaults_def getRuler_def Let_def)
  have "\<exists>b. calculateBarIndexPixels bar_defaults tens two_metas 0 None 1 Undefined ?r = Some b"
    "\<exists>b. calculateBarIndexPixels bar_defaults tens two_metas 1 None 1 Undefined ?r = Some b"
    using k u by (simp_all add: calculateBarIndexPixels_def Let_def split_beta)
  then obtain b1 b2 where b: "calculateBarIndexPixels bar_defaults tens two_metas 0 None 1 Undefined ?r = Some b1"
    "calculateBarIndexPixels bar_defaults tens two_metas 1 None 1 Undefined ?r = Some b2" by blast
  from bars_apart [OF o _ _ _ _ _ _ _ _ _ _ _ _ _ _ b, of 1 1] show ?thesis
    using b k u by (auto simp: bar_defaults_def)
qed

section \<open>Ends\<close>

lemma lengthen_Fin:
  assumes "0 \<le> m"
  shows "\<exists>b1 z1. lengthen vs (Fin m) (Fin a) v (Fin b) (Fin h) = (Fin b1, Fin (b1 + z1), Fin z1) \<and> m \<le> \<bar>z1\<bar> \<and>
    (m \<le> \<bar>h - b\<bar> \<longrightarrow> b1 = b \<and> z1 = h - b)"
proof (cases "\<bar>h - b\<bar> < m")
  case True
  obtain sg where sg: "barSign (Fin (h - b)) vs (Fin a) = Fin sg" "\<bar>sg\<bar> = 1"
    by (cases "h = b") (auto simp: barSign_def abs_sgn_eq abs_mult)
  then have "m \<le> \<bar>sg * m\<bar>" using assms by (simp add: abs_mult)
  moreover have "lengthen vs (Fin m) (Fin a) v (Fin b) (Fin h) =
      (let b1 = (if num_eq v (Fin a) then b - sg * m / 2 else b) in (Fin b1, Fin (b1 + sg * m), Fin (sg * m)))"
    using True sg(1) by (simp add: lengthen_def Let_def)
  ultimately show ?thesis using True unfolding Let_def by fastforce
next
  case False
  then show ?thesis by (simp add: lengthen_def)
qed

lemma off_grid_Fin:
  assumes "\<forall>x. vs_pixel vs (Fin x) = Fin (f x)" and "0 \<le> vs_lineWidth vs (Fin a)"
  shows "\<exists>b2 z2. off_grid vs (Fin a) (Fin b) (Fin z) = (Fin b2, Fin z2) \<and> b2 + z2 = b + z \<and>
    \<bar>b2 - b\<bar> \<le> vs_lineWidth vs (Fin a) / 2 \<and> \<bar>z\<bar> - vs_lineWidth vs (Fin a) / 2 \<le> \<bar>z2\<bar> \<and>
    (b \<noteq> f a \<longrightarrow> b2 = b)"
proof -
  define g where "g = sgn z * vs_lineWidth vs (Fin a) / 2"
  have g: "\<bar>g\<bar> \<le> vs_lineWidth vs (Fin a) / 2" using assms(2) by (auto simp: g_def abs_mult abs_sgn_eq)
  have "off_grid vs (Fin a) (Fin b) (Fin z) = (if b = f a then (Fin (b + g), Fin (z - g)) else (Fin b, Fin z))"
    using assms(1) by (simp add: off_grid_def g_def)
  then show ?thesis using g assms(2) by (auto simp: abs_if split: if_splits)
qed

text \<open>
  C17 (the ends of a bar). The head of a bar is its base moved by its size; a bar is never shorter than the least length less half a grid line; and when
  its values are at least the least length apart, the head is at the pixel of the end of its value, and the base at that of its start, or half a grid line from it when it
  stands on the line of the base. The least length is 0 where the option \<open>minBarLength\<close> is missing; the base is the option \<open>base\<close>, a number, or else 0. The axis
  gives every number a finite pixel, and the width of its lines is not negative.
\<close>

theorem bar_ends:
  assumes "\<forall>x. vs_pixel vs (Fin x) = Fin (f x)" and "bar_extent stacking v custom = (v', Fin s, Fin l)"
    and "bo_base opts = None \<and> a = 0 \<and> st = s \<or> bo_base opts = Some (Fin a) \<and> st = (if custom = None then a else s)"
    and "bo_minBarLength opts = Fin m \<and> 0 \<le> m \<or> bo_minBarLength opts = NaN \<and> m = 0" and "0 \<le> vs_lineWidth vs (Fin a)"
  shows "\<exists>base sz. calculateBarValuePixels opts vs visible stacking v custom =
      \<lparr>bp_base = Fin base, bp_head = Fin (base + sz), bp_center = Fin (base + sz + sz / 2), bp_size = Fin sz\<rparr> \<and>
    m - vs_lineWidth vs (Fin a) / 2 \<le> \<bar>sz\<bar> \<and>
    (visible \<and> m \<le> \<bar>f (s + l) - f st\<bar> \<longrightarrow> base + sz = f (s + l) \<and> \<bar>base - f st\<bar> \<le> vs_lineWidth vs (Fin a) / 2 \<and>
      (f st \<noteq> f a \<longrightarrow> base = f st))"
proof -
  define h where "h = (if visible then f (s + l) else f st)"
  have m: "0 \<le> m" using assms(4) by auto
  obtain b1 z1 where 1: "lengthen vs (bo_minBarLength opts) (Fin a) v' (Fin (f st)) (Fin h) = (Fin b1, Fin (b1 + z1), Fin z1)" "m \<le> \<bar>z1\<bar>"
    "m \<le> \<bar>h - f st\<bar> \<longrightarrow> b1 = f st \<and> z1 = h - f st"
  proof (cases "bo_minBarLength opts = NaN")
    case True
    then have "m = 0" using assms(4) by auto
    moreover have "lengthen vs NaN (Fin a) v' (Fin (f st)) (Fin h) = (Fin (f st), Fin h, Fin (h - f st))" by (simp add: lengthen_def)
    ultimately show thesis using that [of "f st" "h - f st"] True by simp
  next
    case False
    with assms(4) lengthen_Fin [OF m, of vs a v' "f st" h] that show thesis by auto
  qed
  obtain b2 z2 where 2: "off_grid vs (Fin a) (Fin b1) (Fin z1) = (Fin b2, Fin z2)" "b2 + z2 = b1 + z1"
    "\<bar>b2 - b1\<bar> \<le> vs_lineWidth vs (Fin a) / 2" "\<bar>z1\<bar> - vs_lineWidth vs (Fin a) / 2 \<le> \<bar>z2\<bar>" "b1 \<noteq> f a \<longrightarrow> b2 = b1"
    using off_grid_Fin [OF assms(1,5)] by blast
  have h: "(if visible then vs_pixel vs (Fin s + Fin l) else Fin (f st)) = Fin h" using assms(1) by (simp add: h_def)
  have base: "(case bo_base opts of Some b \<Rightarrow> if truthy (Num b) then b else 0 | None \<Rightarrow> 0) = Fin a"
    "(case bo_base opts of Some b \<Rightarrow> if custom = None then b else Fin s | None \<Rightarrow> Fin s) = Fin st"
    using assms(3) by (auto simp: zero_jsnum_def)
  have "calculateBarValuePixels opts vs visible stacking v custom =
      \<lparr>bp_base = Fin b2, bp_head = Fin (b2 + z2), bp_center = Fin (b2 + z2 + z2 / 2), bp_size = Fin z2\<rparr>"
    unfolding calculateBarValuePixels_def assms(2) prod.case Let_def base assms(1) [rule_format] h 1(1) 2(1) 2(2) by simp
  moreover have "m - vs_lineWidth vs (Fin a) / 2 \<le> \<bar>z2\<bar>" using 1(2) 2(4) by linarith
  moreover have "b2 + z2 = f (s + l) \<and> \<bar>b2 - f st\<bar> \<le> vs_lineWidth vs (Fin a) / 2 \<and> (f st \<noteq> f a \<longrightarrow> b2 = f st)"
    if "visible" "m \<le> \<bar>f (s + l) - f st\<bar>"
    using 1(3) 2(2,3,5) that by (simp add: h_def)
  ultimately show ?thesis by blast
qed

definition up_scale :: value_scale where
  "up_scale = \<lparr>vs_pixel = (\<lambda>v. 100 - v * 10), vs_lineWidth = (\<lambda>_. 1), vs_horizontal = False, vs_min = Fin 0\<rparr>"

theorem bar_ends_witness:
  "\<exists>base sz. calculateBarValuePixels bar_defaults up_scale True None (Fin 5) None =
      \<lparr>bp_base = Fin base, bp_head = Fin (base + sz), bp_center = Fin (base + sz + sz / 2), bp_size = Fin sz\<rparr> \<and>
    base + sz = 50 \<and> \<bar>base - 100\<bar> \<le> 1 / 2"
  using bar_ends [of up_scale "\<lambda>a. 100 - a * 10" None "Fin 5" None "Fin 5" 0 5 bar_defaults 0 0 0 True]
  by (auto simp: up_scale_def bar_extent_def bar_defaults_def)

text \<open>
  Floating bars. A bar parsed from two numbers, outside stacks, reaches from the one nearer to zero to the other one, and its range is that
  of the two numbers.
\<close>

lemma float_bar_extent:
  "\<exists>s l. bar_extent None v (Some (float_bar_of (Num (Fin a)) (Num (Fin b)))) = (Fin s, Fin s, Fin l) \<and> {s, s + l} = {a, b} \<and>
    \<bar>s\<bar> \<le> \<bar>s + l\<bar> \<and>
    fb_min (float_bar_of (Num (Fin a)) (Num (Fin b))) = Fin (min a b) \<and> fb_max (float_bar_of (Num (Fin a)) (Num (Fin b))) = Fin (max a b)"
  by (auto simp: bar_extent_def float_bar_of_def Let_def min_def max_def)

section \<open>Edges\<close>

text \<open>The coordinate of an edge.\<close>

definition edge_at :: "rect_area \<Rightarrow> string \<Rightarrow> real" where
  "edge_at a e = (if e = ''left'' then ra_left a else if e = ''right'' then ra_right a else if e = ''top'' then ra_top a else ra_bottom a)"

text \<open>
  C18 (the edge without a border). With the option \<open>start\<close> exactly one edge of a bar has no border, the one at its base, and with \<open>end\<close> the one at its
  head, whatever the direction of the bar, upwards, downwards or sideways.
\<close>

theorem skipped_edge_at_base:
  assumes "b = (if edge = ''start'' then el_prop e ''base'' else if be_horizontal bar then el_prop e ''x'' else el_prop e ''y'')"
    and "edge = ''start'' \<or> edge = ''end''"
  shows "\<exists>k. k \<in> (if be_horizontal bar then {''left'', ''right''} else {''top'', ''bottom''}) \<and>
    setBorderSkipped (be_horizontal bar) (Fin (el_prop e ''base'')) (Fin (el_prop e ''x'')) (Fin (el_prop e ''y'')) (Some edge) stack i r =
      ([k], r) \<and> edge_at (getBarBounds e (be_horizontal bar) False) k = b"
proof -
  let ?B = "el_prop e ''base''" and ?X = "el_prop e ''x''" and ?Y = "el_prop e ''y''"
  let ?p = "borderProps (be_horizontal bar) (Fin ?B) (Fin ?X) (Fin ?Y)"
  let ?k = "parseEdge edge (bd_start ?p) (bd_end ?p) (bd_reverse ?p)"
  have "setBorderSkipped (be_horizontal bar) (Fin ?B) (Fin ?X) (Fin ?Y) (Some edge) stack i r = ([?k], r)"
    using assms(2) by (auto simp: setBorderSkipped_def Let_def split: option.split)
  moreover have "?k \<in> (if be_horizontal bar then {''left'', ''right''} else {''top'', ''bottom''}) \<and>
      edge_at (getBarBounds e (be_horizontal bar) False) ?k = b"
  proof (cases "be_horizontal bar")
    case True
    then show ?thesis using assms
      by (cases "?X < ?B") (auto simp: borderProps_def parseEdge_def swap_def startEnd_def edge_at_def getBarBounds_def getProps_def
          Let_def split: option.split)
  next
    case False
    then show ?thesis using assms
      by (cases "?B < ?Y") (auto simp: borderProps_def parseEdge_def swap_def startEnd_def edge_at_def getBarBounds_def getProps_def
          Let_def split: option.split)
  qed
  ultimately show ?thesis by blast
qed

theorem skipped_edge_at_base_witness:
  "\<exists>e. setBorderSkipped (be_horizontal example_bar) (Fin (el_prop e ''base'')) (Fin (el_prop e ''x'')) (Fin (el_prop e ''y'')) (Some ''start'')
      None 0 True = ([''bottom''], True) \<and> edge_at (getBarBounds e (be_horizontal example_bar) False) ''bottom'' = 100"
proof -
  let ?e = "plain_elem (Bar example_bar) ((\<lambda>_. 50)(''base'' := 100))"
  have p: "el_prop ?e ''base'' = 100" by (simp add: plain_elem_def)
  have s: "setBorderSkipped (be_horizontal example_bar) (Fin (el_prop ?e ''base'')) (Fin (el_prop ?e ''x'')) (Fin (el_prop ?e ''y''))
      (Some ''start'') None 0 True = ([''bottom''], True)"
    by (simp add: setBorderSkipped_def borderProps_def parseEdge_def swap_def startEnd_def example_bar_def plain_elem_def Let_def)
  from skipped_edge_at_base [OF refl, where e = ?e and bar = example_bar and edge = "''start''" and stack = None and i = 0 and r = True] s p show ?thesis by (intro exI [of _ ?e]) auto
qed

section \<open>Places where the code fails\<close>

text \<open>
  Without grouping, the thickness \<open>flex\<close> gives bars of no size: the ruler holds the text and the product with it is not a number.
\<close>

lemma flex_ungrouped_no_size:
  assumes "bo_barThickness opts = Flex" and "\<not> bo_grouped opts"
  shows "\<exists>b. calculateBarIndexPixels opts sc ms d name i v (getRuler opts sc ms allValues own) = Some b \<and> bp_size b = NaN"
proof -
  have "NaN * Fin x = NaN" for x by (simp add: times_jsnum_def)
  then show ?thesis using assms
    by (simp add: calculateBarIndexPixels_def getRuler_def bar_place_at_def math_min_def Let_def)
qed

text \<open>With \<open>skipNull\<close> a visible dataset that is shorter than another one makes the update throw.\<close>

lemma skip_null_short_dataset_throws:
  assumes "bo_skipNull opts" and "bo_grouped opts" and "ms = [\<lparr>bm_index = 0, bm_stack = None, bm_grouped = True, bm_values = [Num 1, Num 2]\<rparr>,
      \<lparr>bm_index = 1, bm_stack = None, bm_grouped = True, bm_values = [Num 3]\<rparr>]"
  shows "calculateBarIndexPixels opts sc ms 0 None 1 v (getRuler opts sc ms allValues own) = None"
  using assms by (simp add: calculateBarIndexPixels_def getRuler_def getStackCount_def getStacks_def Let_def)

text \<open>
  With the option \<open>middle\<close> a missing last dataset counts as dataset 0: the lowest bar of the first stack loses one border, the lowest bar of another
  stack two.
\<close>

lemma middle_depends_on_index:
  "setBorderSkipped False 100 50 80 (Some ''middle'') (Some (Some 1, None)) 0 False = ([''top''], True) \<and>
   setBorderSkipped False 100 50 80 (Some ''middle'') (Some (Some 3, None)) 2 False = ([''top'', ''bottom''], True)"
  by (simp add: setBorderSkipped_def borderProps_def parseEdge_def swap_def startEnd_def)

end
