(* ===== verification/Ring_Controllers.thy ===== *)
theory Ring_Controllers
  imports Elements JS_Strings Scale
begin

text \<open>
  The controllers of doughnut, pie and polar area charts (\<^verbatim>\<open>chart.js\<close>, \<open>getRatioAndOffset\<close>,
  classes \<open>DoughnutController\<close> and \<open>PolarAreaController\<close>): the angles of the arcs, the place of
  the circle in the chart area and the radii of the rings.

  The options of arcs are those after resolution. Angles are finite; radii may be infinite, as the size of the area is divided by the
  width of the part of the circle that is shown.
\<close>

section \<open>The place of the circle\<close>

record ratio_offset =
  ro_ratioX :: jsnum
  ro_ratioY :: jsnum
  ro_offsetX :: jsnum
  ro_offsetY :: jsnum

text \<open>The closures \<open>calcMax\<close> and \<open>calcMin\<close>; the cutout is not a number when an area without size is divided by.\<close>

definition calc_max :: "real \<Rightarrow> real \<Rightarrow> jsnum \<Rightarrow> real \<Rightarrow> jsnum \<Rightarrow> jsnum \<Rightarrow> jsnum" where
  "calc_max startAngle endAngle cutout angle a b =
     (if angleBetween angle startAngle endAngle True then 1
      else math_max (math_max a (a * cutout)) (math_max b (b * cutout)))"

definition calc_min :: "real \<Rightarrow> real \<Rightarrow> jsnum \<Rightarrow> real \<Rightarrow> jsnum \<Rightarrow> jsnum \<Rightarrow> jsnum" where
  "calc_min startAngle endAngle cutout angle a b =
     (if angleBetween angle startAngle endAngle True then - 1
      else math_min (math_min a (a * cutout)) (math_min b (b * cutout)))"

definition getRatioAndOffset :: "real \<Rightarrow> real \<Rightarrow> jsnum \<Rightarrow> ratio_offset" where
  "getRatioAndOffset rotation circumference cutout =
     (if circumference < TAU then
        let startAngle = rotation; endAngle = startAngle + circumference;
            startX = Fin (cos startAngle); startY = Fin (sin startAngle); endX = Fin (cos endAngle); endY = Fin (sin endAngle);
            maxX = calc_max startAngle endAngle cutout 0 startX endX;
            maxY = calc_max startAngle endAngle cutout (pi / 2) startY endY;
            minX = calc_min startAngle endAngle cutout pi startX endX;
            minY = calc_min startAngle endAngle cutout (pi + pi / 2) startY endY
        in \<lparr>ro_ratioX = (maxX - minX) / 2, ro_ratioY = (maxY - minY) / 2,
            ro_offsetX = - (maxX + minX) / 2, ro_offsetY = - (maxY + minY) / 2\<rparr>
      else \<lparr>ro_ratioX = 1, ro_ratioY = 1, ro_offsetX = 0, ro_offsetY = 0\<rparr>)"

section \<open>Rings\<close>

text \<open>A dataset of a doughnut: angles in degrees, and the weight of its ring.\<close>

record ring =
  rg_visible :: bool
  rg_rotation :: real
  rg_circumference :: real
  rg_weight :: "real option"

definition getRotation :: "ring \<Rightarrow> real" where
  "getRotation d = toRadians (rg_rotation d - 90)"

definition getCircumference :: "ring \<Rightarrow> real" where
  "getCircumference d = toRadians (rg_circumference d)"

definition getRotationExtents :: "ring list \<Rightarrow> real \<times> real" where
  "getRotationExtents datasets =
     (let (mn, mx) = fold (\<lambda>d (mn, mx). (min mn (getRotation d), max mx (getRotation d + getCircumference d)))
                       (filter rg_visible datasets) (TAU, - TAU)
      in (mn, mx - mn))"

definition getRingWeight :: "ring list \<Rightarrow> nat \<Rightarrow> real" where
  "getRingWeight datasets i = max (case rg_weight (datasets ! i) of Some w \<Rightarrow> w | None \<Rightarrow> 1) 0"

definition getRingWeightOffset :: "ring list \<Rightarrow> nat \<Rightarrow> real" where
  "getRingWeightOffset datasets datasetIndex =
     fold (\<lambda>i acc. if rg_visible (datasets ! i) then acc + getRingWeight datasets i else acc) [0 ..< datasetIndex] 0"

definition getVisibleDatasetWeightTotal :: "ring list \<Rightarrow> real" where
  "getVisibleDatasetWeightTotal datasets =
     (let w = getRingWeightOffset datasets (length datasets) in if w \<noteq> 0 then w else 1)"

text \<open>The options of an arc that take space.\<close>

record arc_space =
  as_inner :: bool
  as_borderWidth :: real
  as_hoverBorderWidth :: real
  as_offset :: real
  as_hoverOffset :: real

definition getMaxBorderWidth :: "arc_space list \<Rightarrow> real" where
  "getMaxBorderWidth arcs =
     fold (\<lambda>a mx. if as_inner a then mx else max (max mx (as_borderWidth a)) (as_hoverBorderWidth a)) arcs 0"

definition getMaxOffset :: "arc_space list \<Rightarrow> real" where
  "getMaxOffset arcs = fold (\<lambda>a mx. max (max mx (as_offset a)) (as_hoverOffset a)) arcs 0"

section \<open>Values and angles\<close>

text \<open>The parsed values: numbers, or the data as they are when parsing is off.\<close>

definition parse_slices :: "bool \<Rightarrow> string \<Rightarrow> jsval list \<Rightarrow> nat \<Rightarrow> nat \<Rightarrow> jsval list \<Rightarrow> jsval list" where
  "parse_slices parsing key data start cnt parsed =
     (if \<not> parsing then data
      else
        let datum = (\<lambda>i. if i < length data then data ! i else Undefined);
            getter = (\<lambda>i. Num (to_num (if isObject (datum start) then resolveObjectKey (datum i) key else datum i)))
        in map (\<lambda>i. if start \<le> i \<and> i < start + cnt then getter i
                     else if i < length parsed then parsed ! i else Undefined)
             [0 ..< max (length parsed) (start + cnt)])"

record slice =
  sc_parsed :: jsval
  sc_visible :: bool
  sc_hidden :: bool

definition calculateTotal :: "slice list \<Rightarrow> real" where
  "calculateTotal slices =
     fold (\<lambda>s acc.
         if sc_parsed s \<noteq> Null \<and> \<not> is_nan (to_num (sc_parsed s)) \<and> sc_visible s \<and> \<not> sc_hidden s
         then acc + \<bar>num_val (to_num (sc_parsed s))\<bar> else acc) slices 0"

definition calculateCircumference :: "real \<Rightarrow> jsnum \<Rightarrow> real" where
  "calculateCircumference tot v = (if 0 < tot \<and> \<not> is_nan v then TAU * (\<bar>num_val v\<bar> / tot) else 0)"

text \<open>\<open>hideAll\<close>: the chart is reset and its rotation is animated.\<close>

definition slice_circumference :: "ring \<Rightarrow> real \<Rightarrow> bool \<Rightarrow> slice \<Rightarrow> real" where
  "slice_circumference d tot hideAll s =
     (if hideAll \<or> \<not> sc_visible s \<or> sc_parsed s = Null \<or> sc_hidden s then 0
      else calculateCircumference tot (to_num (sc_parsed s) * Fin (getCircumference d) / Fin TAU))"

record ring_arc =
  ra_startAngle :: real
  ra_endAngle :: real
  ra_circumference :: real

fun arcs_loop :: "ring \<Rightarrow> real \<Rightarrow> bool \<Rightarrow> real \<Rightarrow> slice list \<Rightarrow> ring_arc list" where
  "arcs_loop d tot hideAll startAngle [] = []"
| "arcs_loop d tot hideAll startAngle (s # slices) =
     (let c = slice_circumference d tot hideAll s
      in \<lparr>ra_startAngle = startAngle, ra_endAngle = startAngle + c, ra_circumference = c\<rparr> #
         arcs_loop d tot hideAll (startAngle + c) slices)"

text \<open>The arcs from index \<open>start\<close> on; the angles of those before are summed first.\<close>

definition doughnut_arcs :: "ring \<Rightarrow> real \<Rightarrow> bool \<Rightarrow> nat \<Rightarrow> slice list \<Rightarrow> ring_arc list" where
  "doughnut_arcs d tot hideAll start slices =
     (let startAngle = fold (\<lambda>s acc. acc + slice_circumference d tot hideAll s) (take start slices) (getRotation d)
      in arcs_loop d tot hideAll startAngle (drop start slices))"

section \<open>Updating a doughnut\<close>

record doughnut =
  dn_outerRadius :: jsnum
  dn_innerRadius :: jsnum
  dn_offsetX :: jsnum
  dn_offsetY :: jsnum
  dn_total :: real

text \<open>\<open>w\<close> and \<open>h\<close> are the size of the chart area, \<open>first\<close> the arcs of the first visible dataset.\<close>

definition update_doughnut :: "ring list \<Rightarrow> nat \<Rightarrow> real \<Rightarrow> real \<Rightarrow> arc_space list \<Rightarrow> arc_space list \<Rightarrow> real \<Rightarrow> jsval \<Rightarrow> jsval \<Rightarrow>
    slice list \<Rightarrow> doughnut" where
  "update_doughnut datasets index w h first arcs spacingOption cutoutOption radiusOption slices =
     (let spacing = getMaxBorderWidth first + getMaxOffset arcs + spacingOption;
          maxSize = max ((min w h - spacing) / 2) 0;
          cutout = math_min (toPercentage cutoutOption (Fin maxSize)) 1;
          chartWeight = getRingWeight datasets index;
          (rotation, circumference) = getRotationExtents datasets;
          ro = getRatioAndOffset rotation circumference cutout;
          maxWidth = Fin (w - spacing) / ro_ratioX ro;
          maxHeight = Fin (h - spacing) / ro_ratioY ro;
          maxRadius = math_max (math_min maxWidth maxHeight / 2) 0;
          outerRadius = toDimension radiusOption maxRadius;
          innerRadius = math_max (outerRadius * cutout) 0;
          radiusLength = (outerRadius - innerRadius) / Fin (getVisibleDatasetWeightTotal datasets);
          outer = outerRadius - radiusLength * Fin (getRingWeightOffset datasets index)
      in \<lparr>dn_outerRadius = outer, dn_innerRadius = math_max (outer - radiusLength * Fin chartWeight) 0,
          dn_offsetX = ro_offsetX ro * outerRadius, dn_offsetY = ro_offsetY ro * outerRadius,
          dn_total = calculateTotal slices\<rparr>)"

text \<open>The properties of an arc of a doughnut.\<close>

record placed_arc =
  pa_x :: jsnum
  pa_y :: jsnum
  pa_outerRadius :: jsnum
  pa_innerRadius :: jsnum
  pa_arc :: ring_arc

definition update_doughnut_elements :: "rect_area \<Rightarrow> doughnut \<Rightarrow> ring \<Rightarrow> bool \<Rightarrow> bool \<Rightarrow> bool \<Rightarrow> nat \<Rightarrow> slice list \<Rightarrow>
    placed_arc list" where
  "update_doughnut_elements area dn d reset animateScale animateRotate start slices =
     (let centerX = Fin ((ra_left area + ra_right area) / 2); centerY = Fin ((ra_top area + ra_bottom area) / 2);
          scaled = reset \<and> animateScale
      in map (\<lambda>a. \<lparr>pa_x = centerX + dn_offsetX dn, pa_y = centerY + dn_offsetY dn,
                    pa_outerRadius = (if scaled then 0 else dn_outerRadius dn),
                    pa_innerRadius = (if scaled then 0 else dn_innerRadius dn), pa_arc = a\<rparr>)
           (doughnut_arcs d (dn_total dn) (reset \<and> animateRotate) start slices))"

section \<open>Polar area charts\<close>

text \<open>An element: its datum, visibility, and the option \<open>angle\<close> in degrees (0 when it has none).\<close>

record polar_item =
  po_datum :: jsval
  po_visible :: bool
  po_angle :: real

text \<open>The radii of a polar area chart; the cutout is a percentage, 0 when there is none.\<close>

definition updateRadius :: "rect_area \<Rightarrow> real \<Rightarrow> nat \<Rightarrow> nat \<Rightarrow> jsnum \<times> jsnum" where
  "updateRadius area cutoutPercentage visibleCount index =
     (let minSize = min (ra_right area - ra_left area) (ra_bottom area - ra_top area);
          outerRadius = max (minSize / 2) 0;
          innerRadius = max (if cutoutPercentage \<noteq> 0 then (outerRadius / 100) * cutoutPercentage else 1) 0;
          radiusLength = Fin (outerRadius - innerRadius) / Fin (of_nat visibleCount);
          outer = Fin outerRadius - radiusLength * Fin (of_nat index)
      in (outer, outer - radiusLength))"

definition countVisibleElements :: "polar_item list \<Rightarrow> nat" where
  "countVisibleElements items = length (filter (\<lambda>it. \<not> is_nan (to_num (po_datum it)) \<and> po_visible it) items)"

definition computeAngle :: "real \<Rightarrow> polar_item \<Rightarrow> real" where
  "computeAngle defaultAngle it =
     (if po_visible it then toRadians (if po_angle it \<noteq> 0 then po_angle it else defaultAngle) else 0)"

record polar_arc =
  pl_startAngle :: real
  pl_endAngle :: real
  pl_outerRadius :: jsnum

fun polar_loop :: "(jsval \<Rightarrow> jsnum) \<Rightarrow> real \<Rightarrow> real \<Rightarrow> bool \<Rightarrow> bool \<Rightarrow> real \<Rightarrow> polar_item list \<Rightarrow> polar_arc list" where
  "polar_loop distance defaultAngle datasetStartAngle resetScale resetRotate angle [] = []"
| "polar_loop distance defaultAngle datasetStartAngle resetScale resetRotate angle (it # items) =
     (let endAngle = angle + computeAngle defaultAngle it;
          outerRadius = (if resetScale then 0 else if po_visible it then distance (po_datum it) else 0)
      in \<lparr>pl_startAngle = (if resetRotate then datasetStartAngle else angle),
          pl_endAngle = (if resetRotate then datasetStartAngle else endAngle), pl_outerRadius = outerRadius\<rparr> #
         polar_loop distance defaultAngle datasetStartAngle resetScale resetRotate endAngle items)"

text \<open>
  The arcs of a polar area chart; \<open>indexAngle\<close> is the angle of the scale at index 0. When no visible
  element holds a number, the source has an infinite default angle; this case is not represented.
\<close>

definition polar_arcs :: "(jsval \<Rightarrow> jsnum) \<Rightarrow> real \<Rightarrow> bool \<Rightarrow> bool \<Rightarrow> bool \<Rightarrow> nat \<Rightarrow> polar_item list \<Rightarrow> polar_arc list" where
  "polar_arcs distance indexAngle reset animateScale animateRotate start items =
     (let datasetStartAngle = indexAngle - pi / 2; defaultAngle = 360 / real (countVisibleElements items);
          angle = fold (\<lambda>it acc. acc + computeAngle defaultAngle it) (take start items) datasetStartAngle
      in polar_loop distance defaultAngle datasetStartAngle (reset \<and> animateScale) (reset \<and> animateRotate) angle (drop start items))"

section \<open>Angles of a doughnut: lemmas\<close>

text \<open>The share of a slice in the visible values.\<close>

definition share :: "slice \<Rightarrow> real" where
  "share s = (if sc_parsed s \<noteq> Null \<and> \<not> is_nan (to_num (sc_parsed s)) \<and> sc_visible s \<and> \<not> sc_hidden s
     then \<bar>num_val (to_num (sc_parsed s))\<bar> else 0)"

definition finite_slice :: "slice \<Rightarrow> bool" where
  "finite_slice s \<longleftrightarrow> sc_parsed s = Null \<or> is_nan (to_num (sc_parsed s)) \<or> is_finite (to_num (sc_parsed s))"

lemma calculateTotal_sum: "calculateTotal slices = sum_list (map share slices)"
proof -
  have f: "(\<lambda>s acc. if sc_parsed s \<noteq> Null \<and> \<not> is_nan (to_num (sc_parsed s)) \<and> sc_visible s \<and> \<not> sc_hidden s
      then acc + \<bar>num_val (to_num (sc_parsed s))\<bar> else acc) = (\<lambda>s acc. acc + share s)"
    by (intro ext) (auto simp: share_def)
  have "fold (\<lambda>s acc. acc + share s) xs acc = acc + sum_list (map share xs)" for xs and acc :: real
    by (induction xs arbitrary: acc) simp_all
  then show ?thesis unfolding calculateTotal_def f by simp
qed

lemma share_nonneg [simp]: "0 \<le> share s"
  by (simp add: share_def)

lemma slice_circumference_share:
  assumes "finite_slice s" and "0 \<le> getCircumference d" and "0 < tot"
  shows "slice_circumference d tot False s = getCircumference d * share s / tot"
proof (cases "sc_visible s \<and> sc_parsed s \<noteq> Null \<and> \<not> sc_hidden s")
  case False
  then show ?thesis by (auto simp: slice_circumference_def share_def)
next
  case True
  show ?thesis
  proof (cases "to_num (sc_parsed s)")
    case (Fin x)
    have "\<bar>x * getCircumference d / TAU\<bar> = \<bar>x\<bar> * getCircumference d / TAU" using assms(2) by (simp add: abs_mult TAU_def)
    then have "TAU * (\<bar>x * getCircumference d / TAU\<bar> / tot) = getCircumference d * \<bar>x\<bar> / tot"
      using pi_neq_zero by (simp add: TAU_def)
    moreover have "Fin a / Fin TAU = Fin (a / TAU)" for a using TAU_pos by (intro Fin_div_nz) (simp add: TAU_def)
    ultimately show ?thesis using True Fin assms(3) by (simp add: slice_circumference_def calculateCircumference_def share_def)
  next
    case NaN
    have "NaN * Fin a = NaN" "NaN / Fin b = NaN" for a b by (simp_all add: times_jsnum_def divide_jsnum_def)
    then show ?thesis using True NaN by (simp add: slice_circumference_def calculateCircumference_def share_def)
  qed (use True assms(1) in \<open>simp_all add: finite_slice_def\<close>)
qed

text \<open>Arcs that follow each other without gap from one angle to another.\<close>

fun chained :: "real \<Rightarrow> ring_arc list \<Rightarrow> real \<Rightarrow> bool" where
  "chained a [] b \<longleftrightarrow> a = b"
| "chained a (r # rs) b \<longleftrightarrow> ra_startAngle r = a \<and> ra_startAngle r \<le> ra_endAngle r \<and> chained (ra_endAngle r) rs b"

lemma arcs_loop_chained:
  assumes "\<forall>s \<in> set slices. finite_slice s" and "0 \<le> getCircumference d" and "0 < tot"
  shows "chained a (arcs_loop d tot False a slices) (a + getCircumference d * sum_list (map share slices) / tot) \<and>
    map ra_circumference (arcs_loop d tot False a slices) = map (\<lambda>s. getCircumference d * share s / tot) slices"
  using assms(1)
proof (induction slices arbitrary: a)
  case (Cons s slices)
  have c: "slice_circumference d tot False s = getCircumference d * share s / tot"
    using slice_circumference_share assms(2,3) Cons.prems by simp
  have "0 \<le> getCircumference d * share s / tot" using assms(2,3) by simp
  moreover have "a + getCircumference d * (share s + sum_list (map share slices)) / tot =
      a + getCircumference d * share s / tot + getCircumference d * sum_list (map share slices) / tot"
    by (simp add: add_divide_distrib distrib_left)
  ultimately show ?case using Cons.IH [of "a + getCircumference d * share s / tot"] Cons.prems c by (simp add: Let_def add.assoc)
qed simp

text \<open>
  C20 (the arcs of a doughnut). When some visible value is not zero, the arcs follow each other without gap from the rotation of the dataset over exactly
  its circumference, and each has the share of its value; hidden and missing values have none.
\<close>

theorem doughnut_partition:
  assumes "\<forall>s \<in> set slices. finite_slice s" and "0 \<le> rg_circumference d" and "0 < calculateTotal slices"
  shows "chained (getRotation d) (doughnut_arcs d (calculateTotal slices) False 0 slices) (getRotation d + getCircumference d) \<and>
    map ra_circumference (doughnut_arcs d (calculateTotal slices) False 0 slices) =
      map (\<lambda>s. getCircumference d * share s / calculateTotal slices) slices"
proof -
  have "0 \<le> getCircumference d" using assms(2) by (simp add: getCircumference_def toRadians_def)
  from arcs_loop_chained [OF assms(1) this assms(3), of "getRotation d"] show ?thesis
    using assms(3) by (simp add: doughnut_arcs_def calculateTotal_sum)
qed

definition full_ring :: ring where
  "full_ring = \<lparr>rg_visible = True, rg_rotation = 0, rg_circumference = 360, rg_weight = None\<rparr>"

theorem doughnut_partition_witness:
  "map ra_circumference (doughnut_arcs full_ring 4 False 0
     [\<lparr>sc_parsed = Num 1, sc_visible = True, sc_hidden = False\<rparr>, \<lparr>sc_parsed = Num 5, sc_visible = False, sc_hidden = False\<rparr>,
      \<lparr>sc_parsed = Num 3, sc_visible = True, sc_hidden = False\<rparr>]) = [pi / 2, 0, 3 * pi / 2]"
proof -
  let ?s = "[\<lparr>sc_parsed = Num 1, sc_visible = True, sc_hidden = False\<rparr>, \<lparr>sc_parsed = Num 5, sc_visible = False, sc_hidden = False\<rparr>,
      \<lparr>sc_parsed = Num 3, sc_visible = True, sc_hidden = False\<rparr>]"
  have t: "calculateTotal ?s = 4" by (simp add: calculateTotal_def)
  have "\<forall>s \<in> set ?s. finite_slice s" by (simp add: finite_slice_def)
  from doughnut_partition [OF this, of full_ring] t show ?thesis
    by (simp add: full_ring_def getCircumference_def toRadians_def share_def)
qed

section \<open>Rings: lemmas\<close>

lemma getRingWeightOffset_Suc:
  "getRingWeightOffset ds (Suc i) = getRingWeightOffset ds i + (if rg_visible (ds ! i) then getRingWeight ds i else 0)"
  by (simp add: getRingWeightOffset_def)

lemma getRingWeight_nonneg: "0 \<le> getRingWeight ds i"
  by (simp add: getRingWeight_def)

lemma getRingWeightOffset_mono: "i \<le> j \<Longrightarrow> getRingWeightOffset ds i \<le> getRingWeightOffset ds j"
proof (induction rule: dec_induct)
  case (step n)
  then show ?case using getRingWeight_nonneg [of ds n] by (simp add: getRingWeightOffset_Suc)
qed simp

lemma finite_minuend: "X - Y = Fin r \<Longrightarrow> \<exists>x. X = Fin x"
  by (cases X; cases Y) (simp_all add: minus_jsnum_def)

text \<open>
  C21 (the rings of a doughnut). The rings of the visible datasets follow each other from the outside to the inside without gap or overlap, in the space
  between the outer radius and the cutout: a ring ends where the next one begins, and none goes beyond the cutout. Each dataset has arcs and options of its own;
  the condition is that their cutout and radius are the same, and that the largest offset of their arcs and their spacing make the same sum. Otherwise
  every dataset has another idea of the outer radius, see \<^verbatim>\<open>offset_rings_overlap\<close>.
\<close>

theorem rings_follow:
  assumes "dn = (\<lambda>i. update_doughnut ds i w h fa (arcs i) (sp i) (cutout i) (rad i) (slices i))" and "dn_outerRadius (dn 0) = Fin R"
    and "toPercentage (cutout 0) (Fin (max ((min w h - (getMaxBorderWidth fa + getMaxOffset (arcs 0) + sp 0)) / 2) 0)) = Fin c" and "0 \<le> c"
    and "0 \<le> R" and "i < length ds" and "rg_visible (ds ! i)"
    and "\<forall>i. cutout i = cutout 0 \<and> rad i = rad 0 \<and> getMaxOffset (arcs i) + sp i = getMaxOffset (arcs 0) + sp 0"
  shows "\<exists>ro ri. dn_outerRadius (dn i) = Fin ro \<and> dn_innerRadius (dn i) = Fin ri \<and> R * min c 1 \<le> ri \<and> ri \<le> ro \<and> ro \<le> R \<and>
    (\<forall>j. i < j \<longrightarrow> (\<forall>k. i < k \<and> k < j \<longrightarrow> \<not> rg_visible (ds ! k)) \<longrightarrow> dn_outerRadius (dn j) = Fin ri)"
proof -
  define off where "off = getRingWeightOffset ds"
  define W where "W = getVisibleDatasetWeightTotal ds"
  have same_space: "getMaxBorderWidth fa + getMaxOffset (arcs i) + sp i = getMaxBorderWidth fa + getMaxOffset (arcs 0) + sp 0"
    "cutout i = cutout 0" "rad i = rad 0" for i
    using assms(8) by (simp_all add: add.assoc)
  have dn: "dn i = update_doughnut ds i w h fa (arcs 0) (sp 0) (cutout 0) (rad 0) (slices i)" for i
    unfolding assms(1) update_doughnut_def same_space [of i] Let_def ..
  obtain X where X: "\<And>i. dn_outerRadius (dn i) = X - (X - math_max (X * Fin (min c 1)) 0) / Fin W * Fin (off i)"
    "\<And>i. dn_innerRadius (dn i) = math_max (dn_outerRadius (dn i) -
      (X - math_max (X * Fin (min c 1)) 0) / Fin W * Fin (getRingWeight ds i)) 0"
    using assms(3) unfolding dn update_doughnut_def by (simp add: Let_def split_beta off_def W_def)
  have "\<exists>x. X = Fin x"
    using X(1) [of 0] assms(2) finite_minuend by metis
  then obtain x where x: "X = Fin x" by blast
  have off0: "off 0 = 0" by (simp add: off_def getRingWeightOffset_def)
  have offn: "off (length ds) \<le> W" "0 < W"
    using getRingWeightOffset_mono [of 0 "length ds" ds] off0
    by (auto simp: W_def getVisibleDatasetWeightTotal_def off_def Let_def)
  define L where "L = (x - max (x * min c 1) 0) / W"
  have o: "dn_outerRadius (dn j) = Fin (x - L * off j)" for j
    using X(1) [of j] offn(2) by (simp add: x L_def)
  then have xR: "x = R" using assms(2) off0 by simp
  have cut: "0 \<le> R * min c 1" "R * min c 1 \<le> R" using assms(4,5) by (auto simp: mult_left_le)
  have L: "0 \<le> L" "L * W = R - R * min c 1" using cut offn(2) by (simp_all add: L_def xR)
  have nxt: "off (Suc i) = off i + getRingWeight ds i" using assms(7) by (simp add: off_def getRingWeightOffset_Suc)
  have "off (Suc i) \<le> W" using getRingWeightOffset_mono [of "Suc i" "length ds" ds] assms(6) offn(1) by (simp add: off_def)
  then have "L * off (Suc i) \<le> L * W" using L(1) by (rule mult_left_mono)
  then have low: "R * min c 1 \<le> R - L * off (Suc i)" using L(2) by linarith
  have i: "dn_innerRadius (dn i) = Fin (R - L * off (Suc i))"
  proof -
    have "dn_innerRadius (dn i) = Fin (max (R - L * off i - L * getRingWeight ds i) 0)"
      using X(2) [of i] o [of i] offn(2) by (simp add: x L_def xR)
    moreover have "R - L * off i - L * getRingWeight ds i = R - L * off (Suc i)" by (simp add: nxt distrib_left)
    ultimately show ?thesis using low cut(1) by simp
  qed
  have "off j = off (Suc i)" if "Suc i \<le> j" "\<forall>k. i < k \<and> k < j \<longrightarrow> \<not> rg_visible (ds ! k)" for j
    using that
  proof (induction rule: dec_induct)
    case (step n)
    then show ?case by (simp add: off_def getRingWeightOffset_Suc)
  qed simp
  note same = this
  have follow: "\<forall>j. i < j \<longrightarrow> (\<forall>k. i < k \<and> k < j \<longrightarrow> \<not> rg_visible (ds ! k)) \<longrightarrow> dn_outerRadius (dn j) = Fin (R - L * off (Suc i))"
  proof (intro allI impI)
    fix j
    assume "i < j" "\<forall>k. i < k \<and> k < j \<longrightarrow> \<not> rg_visible (ds ! k)"
    then have "off j = off (Suc i)" by (intro same) auto
    then show "dn_outerRadius (dn j) = Fin (R - L * off (Suc i))" using o [of j] xR by simp
  qed
  have "0 \<le> L * off i" "0 \<le> L * getRingWeight ds i"
    using L(1) getRingWeightOffset_mono [of 0 i ds] off0 getRingWeight_nonneg by (simp_all add: off_def)
  then have "R - L * off (Suc i) \<le> R - L * off i" "R - L * off i \<le> R" by (simp_all add: nxt distrib_left)
  moreover have "dn_outerRadius (dn i) = Fin (R - L * off i)" using o [of i] by (simp add: xR)
  ultimately show ?thesis using i low follow by blast
qed

theorem rings_follow_witness:
  "dn_outerRadius (update_doughnut [full_ring, full_ring] 1 100 100 [] [] 0 (Num 25) (Num 50) []) =
   dn_innerRadius (update_doughnut [full_ring, full_ring] 0 100 100 [] [] 0 (Num 25) (Num 50) [])"
proof -
  let ?d = "\<lambda>i. update_doughnut [full_ring, full_ring] i 100 100 [] [] 0 (Num 25) (Num 50) []"
  have "dn_outerRadius (?d 0) = Fin 50"
    by (simp add: update_doughnut_def getMaxBorderWidth_def getMaxOffset_def getVisibleDatasetWeightTotal_def
        getRingWeightOffset_def getRingWeight_def full_ring_def Let_def split_beta)
  from rings_follow [where dn = ?d and arcs = "\<lambda>_. []" and sp = "\<lambda>_. 0" and cutout = "\<lambda>_. Num 25" and rad = "\<lambda>_. Num 50" and slices = "\<lambda>_. []",
      OF refl this, of "1 / 2" 0] show ?thesis
    by (auto simp: getMaxBorderWidth_def getMaxOffset_def full_ring_def)
qed

text \<open>A smaller radius of the first dataset alone: the ring of the second one begins at 25, further out than the first one ends.\<close>

lemma offset_rings_overlap:
  "dn_outerRadius (update_doughnut [full_ring, full_ring] 1 100 100 [] [] 0 (Num 0) (Num 50) []) = Fin 25 \<and>
   dn_innerRadius (update_doughnut [full_ring, full_ring] 0 100 100 [] [] 0 (Num 0) (Num 40) []) = Fin 20"
  by (simp add: update_doughnut_def getMaxBorderWidth_def getMaxOffset_def getVisibleDatasetWeightTotal_def
      getRingWeightOffset_def getRingWeight_def full_ring_def Let_def split_beta)

section \<open>The place of the circle: lemmas\<close>

lemma angleBetween_full:
  assumes "0 \<le> c" and "c < TAU" and "s \<le> t" and "t < s + TAU"
  shows "angleBetween (t + of_int k * TAU) s (s + c) True \<longleftrightarrow> t \<le> s + c \<or> c = 0"
proof -
  have "normalizeAngle s = normalizeAngle (s + c) \<longleftrightarrow> c = 0" using normalizeAngle_eq_iff [of s "s + c"] assms by simp
  moreover have "angleBetween (t + of_int k * TAU) s (s + c) True \<longleftrightarrow>
      angleBetween (t + of_int k * TAU) s (s + c) False \<or> normalizeAngle s = normalizeAngle (s + c)"
    by (auto simp: angleBetween_def Let_def)
  ultimately show ?thesis using angleBetween_iff [of s "s + c" t k] assms by auto
qed

text \<open>Between two angles within a turn the cosine is at most that of one of them.\<close>

lemma cos_between:
  assumes "0 \<le> a" and "a \<le> t" and "t \<le> b" and "b \<le> 2 * pi"
  shows "cos t \<le> max (cos a) (cos b)"
proof (cases "t \<le> pi")
  case True
  then have "cos t \<le> cos a" using assms by (intro cos_monotone_0_pi_le) auto
  then show ?thesis by simp
next
  case False
  then have "cos (2 * pi - t) \<le> cos (2 * pi - b)" using assms by (intro cos_monotone_0_pi_le) auto
  then show ?thesis by (simp add: cos_diff)
qed

text \<open>The furthest point of a part of the circle in a direction.\<close>

lemma direction_bound:
  assumes "0 \<le> c" and "c < TAU" and "s \<le> t" and "t \<le> s + c"
  shows "cos (t - phi) \<le> (if angleBetween phi s (s + c) True then 1 else max (cos (s - phi)) (cos (s + c - phi)))"
proof (cases "angleBetween phi s (s + c) True")
  case False
  define k where "k = \<lfloor>(phi - s) / TAU\<rfloor>"
  define q where "q = phi - of_int k * TAU"
  have "of_int k * TAU \<le> phi - s" "phi - s < (of_int k + 1) * TAU"
    using TAU_pos by (simp_all add: k_def pos_le_divide_eq [symmetric] pos_divide_less_eq [symmetric] del: TAU_pos)
  then have q: "s \<le> q" "q < s + TAU" by (simp_all add: q_def algebra_simps)
  have "phi = q + of_int k * TAU" by (simp add: q_def)
  then have out: "s + c < q" using False angleBetween_full [OF assms(1,2) q, of k] by auto
  define r where "r = q - TAU"
  have per: "cos (x - phi) = cos (x - r)" for x
  proof -
    have e: "x - r = (x - phi) + 2 * pi * of_int (k + 1)" by (simp add: r_def q_def TAU_def algebra_simps)
    show ?thesis unfolding e cos_add cos_int_2pin sin_int_2pin by simp
  qed
  have "cos (t - r) \<le> max (cos (s - r)) (cos (s + c - r))"
    using q out assms by (intro cos_between) (simp_all add: r_def TAU_def)
  then show ?thesis using False by (simp add: per)
qed simp

lemma scaled_bound:
  fixes a m :: real
  assumes "a \<le> m" and "c \<le> p" and "p \<le> 1" and "0 \<le> c"
  shows "p * a \<le> max m (m * c)"
proof (cases "0 \<le> a")
  case True
  then have "p * a \<le> 1 * a" using assms(3) by (intro mult_right_mono) auto
  then show ?thesis using assms(1) by simp
next
  case False
  then have "p * a \<le> c * a" using assms(2) by (intro mult_right_mono_neg) auto
  also have "c * a \<le> c * m" using assms(1,4) by (intro mult_left_mono) auto
  finally show ?thesis by (simp add: mult.commute)
qed

lemma calc_max_bound:
  assumes "0 \<le> c" and "c < TAU" and "s \<le> t" and "t \<le> s + c" and "0 \<le> cu" and "cu \<le> p" and "p \<le> 1"
  shows "\<exists>m. calc_max s (s + c) (Fin cu) phi (Fin (cos (s - phi))) (Fin (cos (s + c - phi))) = Fin m \<and> p * cos (t - phi) \<le> m"
proof (cases "angleBetween phi s (s + c) True")
  case True
  have "p * cos (t - phi) \<le> 1 * 1" using assms(5-7) by (metis cos_le_one mult_left_le mult_right_le_one_le mult_mono' order_trans
      mult.right_neutral mult_left_mono)
  then show ?thesis using True by (simp add: calc_max_def)
next
  case False
  let ?a = "cos (s - phi)" and ?b = "cos (s + c - phi)"
  have "cos (t - phi) \<le> max ?a ?b" using direction_bound [OF assms(1-4), of phi] False by simp
  from scaled_bound [OF this assms(6,7,5)] have "p * cos (t - phi) \<le> max (max ?a (?a * cu)) (max ?b (?b * cu))"
    using assms(5) by (auto simp: max_def split: if_splits)
  then show ?thesis using False by (simp add: calc_max_def)
qed

lemma calc_min_calc_max: "calc_min s e cu phi (Fin (- a)) (Fin (- b)) = - calc_max s e cu phi (Fin a) (Fin b)" if "cu = Fin u"
  using that by (simp add: calc_min_def calc_max_def minus_max_eq_min)

text \<open>
  C22 (the part of the circle that is shown). Every point of a doughnut of outer radius 1 between the two angles and outside the cutout, moved by the offsets, lies within
  the ratios on both sides of the centre, so the doughnut fits its area.
\<close>

theorem doughnut_fits:
  assumes "ro = getRatioAndOffset s c (Fin cu)" and "0 \<le> c" and "0 \<le> cu" and "s \<le> t" and "t \<le> s + c" and "cu \<le> p" and "p \<le> 1"
  shows "\<exists>rx ry ox oy. ro = \<lparr>ro_ratioX = Fin rx, ro_ratioY = Fin ry, ro_offsetX = Fin ox, ro_offsetY = Fin oy\<rparr> \<and>
    \<bar>p * cos t + ox\<bar> \<le> rx \<and> \<bar>p * sin t + oy\<bar> \<le> ry"
proof (cases "c < TAU")
  case False
  have "\<bar>p * cos t\<bar> \<le> 1" "\<bar>p * sin t\<bar> \<le> 1" using assms(3,6,7) by (simp_all add: abs_mult mult_le_one)
  then show ?thesis using False by (simp add: assms(1) getRatioAndOffset_def)
next
  case True
  note b = calc_max_bound [OF assms(2) True assms(4,5,3,6,7)]
  have shift: "cos (x - pi / 2) = sin x" "cos (x - pi) = - cos x" "cos (x - (pi + pi / 2)) = - sin x" for x
  proof -
    have "cos (y - pi / 2) = sin y" for y by (simp add: cos_diff)
    then have "cos (x - pi - pi / 2) = sin (x - pi)" .
    also have "\<dots> = - sin x" by (simp add: sin_diff)
    finally show "cos (x - (pi + pi / 2)) = - sin x" by (simp only: diff_diff_eq)
  qed (simp_all add: cos_diff)
  obtain mx where mx: "calc_max s (s + c) (Fin cu) 0 (Fin (cos s)) (Fin (cos (s + c))) = Fin mx" "p * cos t \<le> mx"
    using b [of 0] by auto
  obtain my where my: "calc_max s (s + c) (Fin cu) (pi / 2) (Fin (sin s)) (Fin (sin (s + c))) = Fin my" "p * sin t \<le> my"
    using b [of "pi / 2"] by (auto simp: shift)
  obtain nx where nx: "calc_max s (s + c) (Fin cu) pi (Fin (- cos s)) (Fin (- cos (s + c))) = Fin nx" "- (p * cos t) \<le> nx"
    using b [of pi] by (auto simp: shift)
  obtain ny where ny: "calc_max s (s + c) (Fin cu) (pi + pi / 2) (Fin (- sin s)) (Fin (- sin (s + c))) = Fin ny" "- (p * sin t) \<le> ny"
    using b [of "pi + pi / 2"] unfolding shift by auto
  have "calc_min s (s + c) (Fin cu) pi (Fin (cos s)) (Fin (cos (s + c))) = Fin (- nx)"
    "calc_min s (s + c) (Fin cu) (pi + pi / 2) (Fin (sin s)) (Fin (sin (s + c))) = Fin (- ny)"
    using calc_min_calc_max [OF refl, of s "s + c" cu pi "- cos s" "- cos (s + c)"] nx(1)
      calc_min_calc_max [OF refl, of s "s + c" cu "pi + pi / 2" "- sin s" "- sin (s + c)"] ny(1) by simp_all
  then have "ro = \<lparr>ro_ratioX = Fin ((mx + nx) / 2), ro_ratioY = Fin ((my + ny) / 2), ro_offsetX = Fin (- (mx - nx) / 2),
      ro_offsetY = Fin (- (my - ny) / 2)\<rparr>"
    using True mx(1) my(1) unfolding assms(1) getRatioAndOffset_def Let_def by simp
  moreover have "\<bar>p * cos t + - (mx - nx) / 2\<bar> \<le> (mx + nx) / 2" "\<bar>p * sin t + - (my - ny) / 2\<bar> \<le> (my + ny) / 2"
    using mx(2) my(2) nx(2) ny(2) by (simp_all add: abs_le_iff field_simps)
  ultimately show ?thesis by blast
qed

theorem doughnut_fits_witness:
  "\<exists>rx ry ox oy. getRatioAndOffset 0 pi (Fin (1 / 2)) =
      \<lparr>ro_ratioX = Fin rx, ro_ratioY = Fin ry, ro_offsetX = Fin ox, ro_offsetY = Fin oy\<rparr> \<and> \<bar>1 + oy\<bar> \<le> ry"
  using doughnut_fits [OF refl, of pi "1 / 2" 0 "pi / 2" 1] by (auto simp del: One_nat_def)

section \<open>Polar area charts: lemmas\<close>

lemma polar_loop_end:
  "items \<noteq> [] \<Longrightarrow> pl_endAngle (last (polar_loop f da ds rs False a items)) = a + sum_list (map (computeAngle da) items)"
proof (induction items arbitrary: a)
  case (Cons it items)
  have e: "polar_loop f da ds rs False x items = [] \<longleftrightarrow> items = []" for x by (cases items) (simp_all add: Let_def)
  show ?case using Cons.IH [of "a + computeAngle da it"] by (cases "items = []") (simp_all add: e Let_def add.assoc)
qed simp

text \<open>
  The arcs of a polar area chart. When all data are numbers and no arc has an angle of its own, the arcs of the visible elements take equal parts of
  the full turn.
\<close>

theorem polar_full_turn:
  assumes "\<forall>it \<in> set items. \<not> is_nan (to_num (po_datum it)) \<and> po_angle it = 0" and "countVisibleElements items \<noteq> 0"
  shows "pl_endAngle (last (polar_arcs f i0 False sc rt 0 items)) = i0 - pi / 2 + TAU"
proof -
  let ?n = "countVisibleElements items"
  have n: "?n = length (filter po_visible items)"
    unfolding countVisibleElements_def using assms(1) by (metis (mono_tags, lifting) filter_cong)
  have "sum_list (map (computeAngle da) its) = real (length (filter po_visible its)) * toRadians da"
    if "\<forall>it \<in> set its. po_angle it = 0" for its da
    using that by (induction its) (simp_all add: computeAngle_def algebra_simps)
  then have "sum_list (map (computeAngle (360 / real ?n)) items) = real ?n * toRadians (360 / real ?n)" using assms(1) n by simp
  also have "\<dots> = TAU" using assms(2) by (simp add: toRadians_def TAU_def)
  finally have s: "sum_list (map (computeAngle (360 / real ?n)) items) = TAU" .
  have "items \<noteq> []" using assms(2) by (auto simp: countVisibleElements_def)
  from polar_loop_end [OF this] s show ?thesis by (simp add: polar_arcs_def Let_def)
qed

theorem polar_full_turn_witness:
  "pl_endAngle (last (polar_arcs to_num 0 False False False 0
     [\<lparr>po_datum = Num 3, po_visible = True, po_angle = 0\<rparr>, \<lparr>po_datum = Num 4, po_visible = True, po_angle = 0\<rparr>])) = 3 * pi / 2"
  using polar_full_turn [of "[\<lparr>po_datum = Num 3, po_visible = True, po_angle = 0\<rparr>, \<lparr>po_datum = Num 4, po_visible = True, po_angle = 0\<rparr>]"
      to_num 0 False False]
  by (simp add: countVisibleElements_def TAU_def)

text \<open>
  A visible element whose datum is not a number is not counted, but gets an angle: with three data of which one is missing, the arcs take one turn and a half.
\<close>

lemma polar_missing_overlaps:
  "pl_endAngle (last (polar_arcs to_num 0 False False False 0
     [\<lparr>po_datum = Num 3, po_visible = True, po_angle = 0\<rparr>, \<lparr>po_datum = Undefined, po_visible = True, po_angle = 0\<rparr>,
      \<lparr>po_datum = Num 4, po_visible = True, po_angle = 0\<rparr>])) = - (pi / 2) + 3 * pi"
  by (simp add: polar_arcs_def countVisibleElements_def computeAngle_def toRadians_def Let_def)

end
