(* ===== verification/Line_Controllers.thy ===== *)
theory Line_Controllers
  imports Dataset_Controller Interaction
begin

text \<open>
  The controllers of line, scatter, bubble and radar charts (classes \<open>LineController\<close>, \<open>BubbleController\<close> and
  \<open>RadarController\<close> in \<^verbatim>\<open>chart.js\<close>): the points that are drawn, their places, which of them are
  skipped or end a segment, and the radii of bubbles.

  A scale is represented by its pixels of values, options are those after resolution. Scatter charts use the controller of line charts as it is.
\<close>

section \<open>Points of a line\<close>

text \<open>The scales of a dataset; the pixel of an item may depend on its index.\<close>

record line_scales =
  ls_iAxis :: string
  ls_vAxis :: string
  ls_iPixel :: "jsval \<Rightarrow> nat \<Rightarrow> jsnum"
  ls_vPixel :: "jsval \<Rightarrow> nat \<Rightarrow> jsnum"
  ls_basePixel :: jsnum

record line_point =
  lp_i :: jsnum
  lp_v :: jsnum
  lp_skip :: bool
  lp_stop :: bool

text \<open>
  A round of the loop of \<open>updateElements\<close>. \<open>spanGaps\<close> is the greatest gap when it is a number; \<open>stack\<close> gives the value to show for an item when
  the values are stacked.
\<close>

definition update_line_point :: "line_scales \<Rightarrow> real option \<Rightarrow> (item \<Rightarrow> jsval) option \<Rightarrow> bool \<Rightarrow> item list \<Rightarrow> nat \<Rightarrow> line_point" where
  "update_line_point sc spanGaps stack reset parsed i =
     (let it = parsed ! i; v = it_val it (ls_vAxis sc); x = it_val it (ls_iAxis sc);
          maxGapLength = (case spanGaps of Some g \<Rightarrow> Fin g | None \<Rightarrow> PInf);
          nullData = isNullOrUndef v;
          iPixel = ls_iPixel sc x i;
          vPixel = (if reset \<or> nullData then ls_basePixel sc
                    else ls_vPixel sc (case stack of Some f \<Rightarrow> f it | None \<Rightarrow> v) i)
      in \<lparr>lp_i = iPixel, lp_v = vPixel, lp_skip = is_nan iPixel \<or> is_nan vPixel \<or> nullData,
          lp_stop = 0 < i \<and> maxGapLength < to_num x - to_num (it_val (parsed ! (i - 1)) (ls_iAxis sc))\<rparr>)"

definition update_line_points :: "line_scales \<Rightarrow> real option \<Rightarrow> (item \<Rightarrow> jsval) option \<Rightarrow> bool \<Rightarrow> item list \<Rightarrow> nat \<Rightarrow> nat \<Rightarrow> line_point list" where
  "update_line_points sc spanGaps stack reset parsed start cnt =
     map (update_line_point sc spanGaps stack reset parsed) [start ..< start + cnt]"

text \<open>
  The visible part of a line. The keys are the positions of the items and of the points, \<open>pix\<close> is the pixel of a limit that the user has set.
\<close>

definition getStartAndCountOfVisiblePoints :: "bool \<Rightarrow> real list \<Rightarrow> real list \<Rightarrow> user_bounds \<Rightarrow> (real \<Rightarrow> real) \<Rightarrow> bool \<Rightarrow> int \<times> int" where
  "getStartAndCountOfVisiblePoints isSorted parsed points ub pix animationsDisabled =
     (let pointCount = int (length points); mn = num_val (ub_min ub); mx = num_val (ub_max ub)
      in if \<not> isSorted then (0, pointCount)
         else
           let start = (if ub_minDefined ub then
                          max 0 (min (pointCount - 1)
                            (min (fst (lookupByKey parsed id mn))
                               (if animationsDisabled then pointCount else fst (lookupByKey points id (pix mn)))))
                        else 0);
               cnt = (if ub_maxDefined ub then
                        max start (min pointCount
                          (max (snd (lookupByKey parsed id mx) + 1)
                             (if animationsDisabled then 0 else snd (lookupByKey points id (pix mx)) + 1))) - start
                      else pointCount - start)
           in (start, cnt))"

record scale_ranges =
  sr_xmin :: jsnum
  sr_xmax :: jsnum
  sr_ymin :: jsnum
  sr_ymax :: jsnum

text \<open>Whether the ranges differ from those of the last update, and the ranges that are kept.\<close>

definition scaleRangesChanged :: "scale_ranges option \<Rightarrow> scale_ranges \<Rightarrow> bool \<times> scale_ranges option" where
  "scaleRangesChanged previous new =
     (case previous of
        None \<Rightarrow> (True, Some new)
      | Some r \<Rightarrow>
          (\<not> num_eq (sr_xmin r) (sr_xmin new) \<or> \<not> num_eq (sr_xmax r) (sr_xmax new) \<or> \<not> num_eq (sr_ymin r) (sr_ymin new) \<or>
           \<not> num_eq (sr_ymax r) (sr_ymax new), Some new))"

text \<open>The part that is drawn, and the points that are updated: all of them when a range has changed.\<close>

definition update_line :: "line_scales \<Rightarrow> real option \<Rightarrow> (item \<Rightarrow> jsval) option \<Rightarrow> bool \<Rightarrow> item list \<Rightarrow> int \<times> int \<Rightarrow> scale_ranges option \<Rightarrow>
    scale_ranges \<Rightarrow> (int \<times> int) \<times> line_point list \<times> scale_ranges option" where
  "update_line sc spanGaps stack reset parsed visible previous new =
     (let (changed, kept) = scaleRangesChanged previous new;
          (start, cnt) = (if changed then (0, int (length parsed)) else visible)
      in (visible, update_line_points sc spanGaps stack reset parsed (nat start) (nat cnt), kept))"

text \<open>The overflow of a line: its border and the sizes of its first and last points.\<close>

definition line_max_overflow :: "real \<Rightarrow> real list \<Rightarrow> real" where
  "line_max_overflow border pointSizes =
     (if pointSizes = [] then border else max border (max (hd pointSizes) (last pointSizes)) / 2)"

section \<open>Bubbles\<close>

text \<open>A parsed bubble: the item and the radius it was given (\<open>_custom\<close>).\<close>

record bubble =
  bb_item :: item
  bb_custom :: jsval

definition bubbles :: "(nat \<Rightarrow> jsval) \<Rightarrow> item list \<Rightarrow> bubble list" where
  "bubbles custom parsed = map2 (\<lambda>i it. \<lparr>bb_item = it, bb_custom = custom i\<rparr>) [0 ..< length parsed] parsed"

text \<open>\<open>radius i\<close> is the option of the item at index \<open>i\<close> before its own radius is known.\<close>

definition parseBubblePrimitives :: "'s config \<Rightarrow> (nat \<Rightarrow> jsval) \<Rightarrow> jsval list \<Rightarrow> nat \<Rightarrow> nat \<Rightarrow> 's \<Rightarrow> bubble list \<times> 's" where
  "parseBubblePrimitives cf radius data start cnt s =
     (let (its, s') = parsePrimitiveData cf data (map int [start ..< start + cnt]) s
      in (bubbles (\<lambda>i. radius (i + start)) its, s'))"

definition parseBubbleArrays :: "'s config \<Rightarrow> (nat \<Rightarrow> jsval) \<Rightarrow> jsval list \<Rightarrow> nat \<Rightarrow> nat \<Rightarrow> 's \<Rightarrow> (bubble list \<times> 's) option" where
  "parseBubbleArrays cf radius data start cnt s =
     map_option (\<lambda>(its, s'). (bubbles (\<lambda>i. valueOrDefault (js_get (data ! (start + i)) ''2'') (radius (i + start))) its, s'))
       (parseArrayData cf data (map int [start ..< start + cnt]) s)"

text \<open>The radius of an object: its property \<open>r\<close> when it is truthy, as a number; otherwise what that property is.\<close>

definition object_radius :: "jsval \<Rightarrow> jsval" where
  "object_radius item =
     (if \<not> truthy item then item else if \<not> truthy (js_get item ''r'') then js_get item ''r'' else Num (to_num (js_get item ''r'')))"

definition parseBubbleObjects :: "'s config \<Rightarrow> (nat \<Rightarrow> jsval) \<Rightarrow> jsval list \<Rightarrow> nat \<Rightarrow> nat \<Rightarrow> 's \<Rightarrow> bubble list \<times> 's" where
  "parseBubbleObjects cf radius data start cnt s =
     (let (its, s') = parseObjectData cf data (map int [start ..< start + cnt]) s;
          datum = (\<lambda>i. if i < length data then data ! i else Undefined)
      in (bubbles (\<lambda>i. valueOrDefault (object_radius (datum (start + i))) (radius (i + start))) its, s'))"

text \<open>The radius that is drawn, when the own radius is no text: an active bubble is larger by its option, another one has its own radius.\<close>

definition bubble_radius :: "jsval option \<Rightarrow> real \<Rightarrow> bool \<Rightarrow> jsnum" where
  "bubble_radius custom radius active =
     (if active then Fin radius else 0) +
     to_num (valueOrDefault (case custom of Some c \<Rightarrow> c | None \<Rightarrow> Undefined) (Num (Fin radius)))"

text \<open>The overflow of bubbles, half the largest size; \<open>None\<close> stands for \<open>false\<close>.\<close>

definition bubble_max_overflow :: "real list \<Rightarrow> real option" where
  "bubble_max_overflow sizes = (let mx = fold (\<lambda>sz mx. max mx (sz / 2)) (rev sizes) 0 in if 0 < mx then Some mx else None)"

definition update_bubble :: "line_scales \<Rightarrow> (real \<Rightarrow> jsnum) \<Rightarrow> bool \<Rightarrow> item list \<Rightarrow> nat \<Rightarrow> jsnum \<times> jsnum \<times> bool" where
  "update_bubble sc iPixelForDecimal reset parsed i =
     (let iPixel = (if reset then iPixelForDecimal (1 / 2) else ls_iPixel sc (it_val (parsed ! i) (ls_iAxis sc)) i);
          vPixel = (if reset then ls_basePixel sc else ls_vPixel sc (it_val (parsed ! i) (ls_vAxis sc)) i)
      in (iPixel, vPixel, is_nan iPixel \<or> is_nan vPixel))"

section \<open>Radar charts\<close>

record radar_point =
  rp_x :: jsnum
  rp_y :: jsnum
  rp_angle :: real
  rp_skip :: bool

definition update_radar_point :: "(nat \<Rightarrow> jsval \<Rightarrow> (jsnum \<times> jsnum) \<times> real) \<Rightarrow> real \<times> real \<Rightarrow> bool \<Rightarrow> jsval list \<Rightarrow> nat \<Rightarrow> radar_point" where
  "update_radar_point position center reset data i =
     (let ((px, py), angle) = position i (if i < length data then data ! i else Undefined);
          x = (if reset then Fin (fst center) else px); y = (if reset then Fin (snd center) else py)
      in \<lparr>rp_x = x, rp_y = y, rp_angle = angle, rp_skip = is_nan x \<or> is_nan y\<rparr>)"

text \<open>The line of a radar chart is closed, and goes over the closing point when there is a point for each label.\<close>

definition radar_loops :: "nat \<Rightarrow> nat \<Rightarrow> bool \<times> bool" where
  "radar_loops labels points = (True, labels = points)"

section \<open>Visible points: lemmas\<close>

lemma lookup_ends:
  assumes "parsed \<noteq> []" and "lookupByKey parsed id v = (lo, hi)"
  shows "0 \<le> lo \<and> hi \<le> int (length parsed) - 1 \<and> lo \<le> hi \<and> (lo = 0 \<or> parsed ! nat lo < v) \<and>
    (hi = int (length parsed) - 1 \<or> v \<le> parsed ! nat hi)"
  using lookup_loop_ends [of 0 "int (length parsed) - 1" "\<lambda>i. parsed ! nat i < v" lo hi] assms
  by (cases parsed) (auto simp: lookupByKey_def lookup_with_def not_less)

lemma before_visible:
  assumes "sorted parsed" and "i < length parsed" and "mn \<le> parsed ! i" and "lookupByKey parsed id mn = (lo, hi)"
  shows "lo \<le> max 0 (int i - 1)"
proof (rule ccontr)
  assume "\<not> lo \<le> max 0 (int i - 1)"
  then have "int i \<le> lo" "0 < lo" by auto
  moreover have "lo = 0 \<or> parsed ! nat lo < mn" "lo < int (length parsed)"
    using lookup_ends [of parsed mn lo hi] assms(2,4) by (cases parsed; auto)+
  ultimately have "parsed ! i \<le> parsed ! nat lo" "parsed ! nat lo < mn"
    using assms(1,2) by (auto intro!: sorted_nth_mono simp: nat_less_iff)
  then show False using assms(3) by linarith
qed

lemma after_visible:
  assumes "sorted parsed" and "i < length parsed" and "parsed ! i < mx" and "lookupByKey parsed id mx = (lo, hi)"
  shows "min (int i + 1) (int (length parsed) - 1) \<le> hi"
proof (rule ccontr)
  assume a: "\<not> min (int i + 1) (int (length parsed) - 1) \<le> hi"
  have h: "0 \<le> hi" "hi = int (length parsed) - 1 \<or> mx \<le> parsed ! nat hi"
    using lookup_ends [of parsed mx lo hi] assms(2,4) by (cases parsed; auto)+
  then have "mx \<le> parsed ! nat hi" "nat hi \<le> i" using a by auto
  then show False using sorted_nth_mono [OF assms(1), of "nat hi" i] assms(2,3) by linarith
qed

lemma limited_start:
  fixes a l x b :: int
  assumes "l \<le> max 0 b" and "0 \<le> a"
  shows "0 \<le> max 0 (min a (min l x)) \<and> max 0 (min a (min l x)) \<le> max 0 b \<and> max 0 (min a (min l x)) \<le> a"
  using assms by linarith

lemma limited_end:
  fixes a h x b s :: int
  assumes "b \<le> h" and "b < a" and "s \<le> a"
  shows "b < max s (min a (max (h + 1) x)) \<and> max s (min a (max (h + 1) x)) \<le> a"
  using assms by linarith

text \<open>
  C19 (the visible part of a line). A point between the limits of the user is drawn together with its neighbours on both sides, so the line runs on to the edges of the chart; nothing
  beyond the points is asked for.
\<close>

theorem visible_points_drawn:
  assumes "getStartAndCountOfVisiblePoints isSorted parsed points ub pix still = (start, cnt)" and "isSorted \<longrightarrow> sorted parsed"
    and "length points = length parsed" and "i < length parsed"
    and "ub_minDefined ub \<longrightarrow> num_val (ub_min ub) \<le> parsed ! i" and "ub_maxDefined ub \<longrightarrow> parsed ! i < num_val (ub_max ub)"
  shows "0 \<le> start \<and> start \<le> max 0 (int i - 1) \<and> min (int i + 1) (int (length parsed) - 1) < start + cnt \<and>
    start + cnt \<le> int (length parsed)"
proof (cases isSorted)
  case False
  then show ?thesis using assms(1,3,4) by (simp add: getStartAndCountOfVisiblePoints_def)
next
  case True
  note so = assms(2) [rule_format, OF True]
  obtain l1 h1 l2 h2 where l: "lookupByKey parsed id (num_val (ub_min ub)) = (l1, h1)" "lookupByKey parsed id (num_val (ub_max ub)) = (l2, h2)"
    by fastforce
  let ?n = "int (length parsed)"
  define S where "S = (if ub_minDefined ub then max 0 (min (?n - 1) (min l1 (if still then ?n
      else fst (lookupByKey points id (pix (num_val (ub_min ub))))))) else 0)"
  define C where "C = (if ub_maxDefined ub then max S (min ?n (max (h2 + 1) (if still then 0
      else snd (lookupByKey points id (pix (num_val (ub_max ub)))) + 1))) else ?n)"
  have e: "getStartAndCountOfVisiblePoints isSorted parsed points ub pix still = (S, C - S)"
    unfolding getStartAndCountOfVisiblePoints_def Let_def assms(3) l fst_conv snd_conv S_def C_def using True by simp
  then have st: "start = S" and ct: "start + cnt = C" using assms(1) by simp_all
  have n: "0 \<le> ?n - 1" using assms(4) by (cases parsed) simp_all
  have s: "0 \<le> start \<and> start \<le> max 0 (int i - 1) \<and> start \<le> ?n - 1"
  proof (cases "ub_minDefined ub")
    case True
    have "l1 \<le> max 0 (int i - 1)" using before_visible [OF so assms(4) _ l(1)] assms(5) True by simp
    from limited_start [OF this n] show ?thesis by (simp only: st S_def True if_True)
  qed (use n st S_def in simp)
  have "min (int i + 1) (?n - 1) < start + cnt \<and> start + cnt \<le> ?n"
  proof (cases "ub_maxDefined ub")
    case True
    have h: "min (int i + 1) (?n - 1) \<le> h2" using after_visible [OF so assms(4) _ l(2)] assms(6) True by simp
    have "min (int i + 1) (?n - 1) < ?n" "start \<le> ?n" using s by linarith+
    from limited_end [OF h this] show ?thesis by (simp only: ct C_def st [symmetric] True if_True)
  qed (use ct C_def in simp)
  with s show ?thesis by blast
qed

theorem visible_points_drawn_witness:
  "\<exists>start cnt. getStartAndCountOfVisiblePoints True [0, 1, 2, 3, 4] [0, 10, 20, 30, 40]
      \<lparr>ub_min = Fin 2, ub_max = Fin 3, ub_minDefined = True, ub_maxDefined = True\<rparr> (\<lambda>v. v * 10) True = (start, cnt) \<and>
    start \<le> 1 \<and> 3 < start + cnt"
proof -
  obtain start cnt where r: "getStartAndCountOfVisiblePoints True [0, 1, 2, 3, 4] [0, 10, 20, 30, 40]
      \<lparr>ub_min = Fin 2, ub_max = Fin 3, ub_minDefined = True, ub_maxDefined = True\<rparr> (\<lambda>v. v * 10) True = (start, cnt)" by fastforce
  from visible_points_drawn [OF r, of 2] r show ?thesis by (intro exI [of _ start] exI [of _ cnt]) auto
qed

text \<open>Of several points at the upper limit only some are drawn, although they are within the limits.\<close>

lemma points_at_limit_left_out:
  "getStartAndCountOfVisiblePoints True [1, 2, 2, 2] [10, 20, 20, 20]
     \<lparr>ub_min = Fin 0, ub_max = Fin 2, ub_minDefined = True, ub_maxDefined = True\<rparr> (\<lambda>v. v * 10) True = (0, 2)"
proof -
  have "lookupByKey [1, 2, 2, 2] id (0 :: real) = (0, 1)" "lookupByKey [1, 2, 2, 2] id (2 :: real) = (0, 1)"
    by (simp_all add: lookupByKey_def lookup_with_def lookup_loop.simps)
  then show ?thesis by (simp add: getStartAndCountOfVisiblePoints_def)
qed

text \<open>
  The points of a line. With numbers on the value axis exactly the items without a value are skipped, and a segment stops exactly where the gap to
  the item before is greater than the one allowed.
\<close>

theorem line_points_skip_and_stop:
  assumes "\<forall>v i. \<not> is_nan (ls_iPixel sc v i) \<and> \<not> is_nan (ls_vPixel sc v i)" and "\<not> is_nan (ls_basePixel sc)"
    and "p = update_line_points sc gap stack reset parsed start cnt" and "k < cnt"
  shows "length p = cnt \<and> (lp_skip (p ! k) \<longleftrightarrow> isNullOrUndef (it_val (parsed ! (start + k)) (ls_vAxis sc))) \<and>
    (lp_stop (p ! k) \<longleftrightarrow> (\<exists>g. gap = Some g \<and> 0 < start + k \<and>
       Fin g < to_num (it_val (parsed ! (start + k)) (ls_iAxis sc)) - to_num (it_val (parsed ! (start + k - 1)) (ls_iAxis sc))))"
proof -
  have "\<not> PInf < x" for x by (cases x) simp_all
  then show ?thesis using assms
    by (auto simp: update_line_points_def update_line_point_def Let_def split: option.splits)
qed

definition plain_scales :: line_scales where
  "plain_scales = \<lparr>ls_iAxis = ''x'', ls_vAxis = ''y'', ls_iPixel = (\<lambda>_ _. Fin 0), ls_vPixel = (\<lambda>_ _. Fin 0), ls_basePixel = Fin 0\<rparr>"

definition xy_item :: "jsval \<Rightarrow> jsval \<Rightarrow> item" where
  "xy_item x y = \<lparr>it_val = (\<lambda>_. Undefined)(''x'' := x, ''y'' := y), it_stacks = no_stacks\<rparr>"

theorem line_points_skip_and_stop_witness:
  "lp_stop (update_line_points plain_scales (Some 2) None False [xy_item (Num 1) (Num 1), xy_item (Num 5) Null] 0 2 ! 1) \<and>
   lp_skip (update_line_points plain_scales (Some 2) None False [xy_item (Num 1) (Num 1), xy_item (Num 5) Null] 0 2 ! 1)"
  using line_points_skip_and_stop [OF _ _ refl, of plain_scales 1 2 "Some 2" None False "[xy_item (Num 1) (Num 1), xy_item (Num 5) Null]" 0]
  by (simp add: plain_scales_def xy_item_def isNullOrUndef_def)

end
