(* ===== verification/Time_Scale.thy ===== *)
theory Time_Scale
  imports Scale Collections
begin

text \<open>
  The time axis and its variant that spaces the data evenly (\<^verbatim>\<open>chart.js\<close>, from \<open>INTERVALS\<close> to
  \<open>TimeSeriesScale\<close>): parsing, limits, units, generation of ticks, offsets, values and pixels, and the
  table of the series.

  The date adapter is a parameter, as the library leaves it abstract and the page supplies one. Times are milliseconds, finite reals;
  labels that cannot be parsed (\<open>null\<close>) are not represented among the timestamps of the labels.
\<close>

section \<open>Units\<close>

record interval =
  iv_common :: bool
  iv_size :: real
  iv_steps :: "real option"

definition INTERVALS :: "(string \<times> interval) list" where
  "INTERVALS =
    [(''millisecond'', \<lparr>iv_common = True, iv_size = 1, iv_steps = Some 1000\<rparr>),
     (''second'', \<lparr>iv_common = True, iv_size = 1000, iv_steps = Some 60\<rparr>),
     (''minute'', \<lparr>iv_common = True, iv_size = 60000, iv_steps = Some 60\<rparr>),
     (''hour'', \<lparr>iv_common = True, iv_size = 3600000, iv_steps = Some 24\<rparr>),
     (''day'', \<lparr>iv_common = True, iv_size = 86400000, iv_steps = Some 30\<rparr>),
     (''week'', \<lparr>iv_common = False, iv_size = 604800000, iv_steps = Some 4\<rparr>),
     (''month'', \<lparr>iv_common = True, iv_size = 2628000000, iv_steps = Some 12\<rparr>),
     (''quarter'', \<lparr>iv_common = False, iv_size = 7884000000, iv_steps = Some 4\<rparr>),
     (''year'', \<lparr>iv_common = True, iv_size = 31540000000, iv_steps = None\<rparr>)]"

definition UNITS :: "string list" where
  "UNITS = map fst INTERVALS"

definition MAX_SAFE_INTEGER :: real where
  "MAX_SAFE_INTEGER = 9007199254740991"

text \<open>The units from the one of a name on; a name that is no unit makes the first round throw (\<open>None\<close>).\<close>

definition units_from :: "string \<Rightarrow> (string \<times> interval) list option" where
  "units_from unit = (if unit \<in> set UNITS then Some (dropWhile (\<lambda>u. fst u \<noteq> unit) INTERVALS) else None)"

fun auto_unit :: "real \<Rightarrow> real \<Rightarrow> jsnum \<Rightarrow> (string \<times> interval) list \<Rightarrow> string" where
  "auto_unit mn mx capacity ((u, iv) # v # us) =
     (let factor = (case iv_steps iv of Some n \<Rightarrow> n | None \<Rightarrow> MAX_SAFE_INTEGER)
      in if iv_common iv \<and> Fin (of_int \<lceil>(mx - mn) / (factor * iv_size iv)\<rceil>) \<le> capacity then u
         else auto_unit mn mx capacity (v # us))"
| "auto_unit mn mx capacity [(u, iv)] = u"
| "auto_unit mn mx capacity [] = last UNITS"

definition determineUnitForAutoTicks :: "string \<Rightarrow> real \<Rightarrow> real \<Rightarrow> jsnum \<Rightarrow> string option" where
  "determineUnitForAutoTicks minUnit mn mx capacity = map_option (auto_unit mn mx capacity) (units_from minUnit)"

text \<open>\<open>isoWeekday\<close> is a boolean or a number.\<close>

datatype weekday = NoWeekday | WeekdayTrue | WeekdayNumber jsnum

fun has_weekday :: "weekday \<Rightarrow> bool" where
  "has_weekday NoWeekday = False"
| "has_weekday WeekdayTrue = True"
| "has_weekday (WeekdayNumber n) = is_finite n"

text \<open>The adapter: parsing, arithmetic and formatting of times. \<open>None\<close> is \<open>null\<close>.\<close>

record adapter =
  ad_parse :: "jsval \<Rightarrow> string option \<Rightarrow> real option"
  ad_startOf :: "real \<Rightarrow> string \<Rightarrow> real"
  ad_startOfWeek :: "real \<Rightarrow> weekday \<Rightarrow> real"
  ad_endOf :: "real \<Rightarrow> string \<Rightarrow> real"
  ad_add :: "real \<Rightarrow> real \<Rightarrow> string \<Rightarrow> real"
  ad_diff :: "real \<Rightarrow> real \<Rightarrow> string \<Rightarrow> real"
  ad_format :: "real \<Rightarrow> string option \<Rightarrow> string"

definition determineUnitForFormatting :: "adapter \<Rightarrow> nat \<Rightarrow> string \<Rightarrow> real \<Rightarrow> real \<Rightarrow> string option" where
  "determineUnitForFormatting ad numTicks minUnit mn mx =
     (let fits = (\<lambda>(u, iv). iv_common iv \<and> real numTicks - 1 \<le> ad_diff ad mx mn u)
      in case units_from minUnit of
           Some us \<Rightarrow> (case find fits (rev us) of Some (u, iv) \<Rightarrow> Some u | None \<Rightarrow> Some minUnit)
         | None \<Rightarrow> (case find fits (rev INTERVALS) of Some (u, iv) \<Rightarrow> Some u | None \<Rightarrow> None))"

definition determineMajorUnit :: "string \<Rightarrow> string option" where
  "determineMajorUnit unit =
     (let later = (case units_from unit of Some us \<Rightarrow> tl us | None \<Rightarrow> INTERVALS)
      in map_option fst (find (\<lambda>u. iv_common (snd u)) later))"

section \<open>Parsing\<close>

datatype parser = NoParser | ParserFunction "jsval \<Rightarrow> jsval" | ParserFormat string

record parse_opts =
  po_parser :: parser
  po_round :: "string option"
  po_isoWeekday :: weekday

definition parse_time :: "adapter \<Rightarrow> parse_opts \<Rightarrow> jsval \<Rightarrow> real option" where
  "parse_time ad opts input =
     (if isNullOrUndef input then None
      else
        let v = (case po_parser opts of ParserFunction f \<Rightarrow> f input | _ \<Rightarrow> input);
            t = (if isNumberFinite v then Some (num_val (to_num v))
                 else ad_parse ad v (case po_parser opts of ParserFormat f \<Rightarrow> Some f | _ \<Rightarrow> None))
        in case (t, po_round opts) of
             (None, _) \<Rightarrow> None
           | (Some x, None) \<Rightarrow> Some x
           | (Some x, Some rnd) \<Rightarrow>
               Some (if rnd = ''week'' \<and> has_weekday (po_isoWeekday opts) then ad_startOfWeek ad x (po_isoWeekday opts)
                     else ad_startOf ad x rnd))"

section \<open>Timestamps\<close>

definition normalize :: "real list \<Rightarrow> real list" where
  "normalize values = arrayUnique (sort values)"

text \<open>The parsed values of the visible datasets; the cache keeps the list when it is not empty.\<close>

definition getDataTimestamps :: "bool \<Rightarrow> real list list \<Rightarrow> real list \<Rightarrow> real list" where
  "getDataTimestamps normalized metas cache =
     (if cache \<noteq> [] then cache
      else if normalized \<and> metas \<noteq> [] then hd metas
      else normalize (concat metas))"

definition getLabelTimestamps :: "bool \<Rightarrow> real list \<Rightarrow> real list \<Rightarrow> real list" where
  "getLabelTimestamps normalized labels cache =
     (if cache \<noteq> [] then cache else if normalized then labels else normalize labels)"

definition getLabelBounds :: "real list \<Rightarrow> jsnum \<times> jsnum" where
  "getLabelBounds arr = (if arr = [] then (PInf, NInf) else (Fin (hd arr), Fin (last arr)))"

section \<open>Limits\<close>

definition applyBounds :: "user_bounds \<Rightarrow> jsnum \<times> jsnum \<Rightarrow> jsnum \<times> jsnum \<Rightarrow> jsnum \<times> jsnum" where
  "applyBounds ub bounds cur =
     (if \<not> ub_minDefined ub \<and> \<not> is_nan (fst bounds) then math_min (fst cur) (fst bounds) else fst cur,
      if \<not> ub_maxDefined ub \<and> \<not> is_nan (snd bounds) then math_max (snd cur) (snd bounds) else snd cur)"

text \<open>
  \<open>ub\<close> are the bounds of the user with infinities where there is none; \<open>dataBounds\<close> is left out when the ticks decide and come from the labels.
  Without finite limits the axis shows the current unit.
\<close>

definition determineDataLimits :: "adapter \<Rightarrow> string \<Rightarrow> real \<Rightarrow> user_bounds \<Rightarrow> jsnum \<times> jsnum \<Rightarrow> (jsnum \<times> jsnum) option \<Rightarrow> real \<times> real" where
  "determineDataLimits ad unit now ub labelBounds dataBounds =
     (let cur0 = (ub_min ub, ub_max ub);
          cur = (if \<not> ub_minDefined ub \<or> \<not> ub_maxDefined ub then
                   (let l1 = applyBounds ub labelBounds cur0
                    in case dataBounds of Some b \<Rightarrow> applyBounds ub b l1 | None \<Rightarrow> l1)
                 else cur0);
          mn = (if is_finite (fst cur) then num_val (fst cur) else ad_startOf ad now unit);
          mx = (if is_finite (snd cur) then num_val (snd cur) else ad_endOf ad now unit + 1)
      in (min mn (mx - 1), max (mn + 1) mx))"

section \<open>Generating ticks\<close>

text \<open>
  The ticks found so far are the keys of an object. With timestamps the nearest one that is not before the time is taken, if there
  is one.
\<close>

definition add_key :: "real \<Rightarrow> real list \<Rightarrow> real list" where
  "add_key t ticks = (if t \<in> set ticks then ticks else ticks @ [t])"

definition addTick :: "real list \<Rightarrow> real \<Rightarrow> real list option \<Rightarrow> real list" where
  "addTick ticks time timestamps =
     (case timestamps of
        None \<Rightarrow> add_key time ticks
      | Some ts \<Rightarrow>
          if ts = [] then ticks
          else let (lo, hi) = lookup ts time in add_key (if time \<le> ts ! nat lo then ts ! nat lo else ts ! nat hi) ticks)"

text \<open>The loop; \<open>None\<close>: it does not end.\<close>

partial_function (option) generate_loop ::
  "(real \<Rightarrow> real) \<Rightarrow> real list option \<Rightarrow> real \<Rightarrow> real \<Rightarrow> nat \<Rightarrow> real list \<Rightarrow> (real \<times> nat \<times> real list) option" where
  "generate_loop step timestamps mx time cnt ticks =
     (if time < mx then generate_loop step timestamps mx (step time) (cnt + 1) (addTick ticks time timestamps)
      else Some (time, cnt, ticks))"

declare generate_loop.simps [code]

record time_opts =
  to_unit :: "string option"
  to_minUnit :: string
  to_stepSize :: real
  to_isoWeekday :: weekday
  to_boundsTicks :: bool

text \<open>\<open>None\<close>: the call does not end; \<open>Inl\<close>: it throws.\<close>

datatype time_error = TooFarApart | NoSuchUnit

type_synonym 'a run = "(time_error + 'a) option"

definition run_bind :: "'a run \<Rightarrow> ('a \<Rightarrow> 'b run) \<Rightarrow> 'b run" where
  "run_bind m f = (case m of None \<Rightarrow> None | Some (Inl e) \<Rightarrow> Some (Inl e) | Some (Inr x) \<Rightarrow> f x)"

definition unit_run :: "string option \<Rightarrow> string run" where
  "unit_run u = Some (case u of None \<Rightarrow> Inl NoSuchUnit | Some x \<Rightarrow> Inr x)"

text \<open>The first tick, and the keys after the loop.\<close>

definition first_tick :: "adapter \<Rightarrow> time_opts \<Rightarrow> string \<Rightarrow> real \<Rightarrow> real" where
  "first_tick ad opts minor mn =
     (let weekday = (if minor = ''week'' then to_isoWeekday opts else NoWeekday)
      in if has_weekday weekday then ad_startOf ad (ad_startOfWeek ad mn weekday) ''day'' else ad_startOf ad mn minor)"

definition last_tick :: "time_opts \<Rightarrow> real list option \<Rightarrow> real \<Rightarrow> real \<times> nat \<times> real list \<Rightarrow> real list" where
  "last_tick opts timestamps mx = (\<lambda>(time, cnt, ticks).
     sort (if time = mx \<or> to_boundsTicks opts \<or> cnt = 1 then addTick ticks time timestamps else ticks))"

text \<open>\<open>timestamps\<close> are those of the data when they are the source of the ticks.\<close>

text \<open>The unit of the ticks: that of the options, or the one that the capacity for the lower limit calls for.\<close>

definition chosen_unit :: "time_opts \<Rightarrow> (real \<Rightarrow> jsnum run) \<Rightarrow> real \<Rightarrow> real \<Rightarrow> string run" where
  "chosen_unit opts capacity mn mx =
     (case to_unit opts of
        Some u \<Rightarrow> Some (Inr u)
      | None \<Rightarrow> run_bind (capacity mn) (\<lambda>c. unit_run (determineUnitForAutoTicks (to_minUnit opts) mn mx c)))"

definition generate :: "adapter \<Rightarrow> time_opts \<Rightarrow> (real \<Rightarrow> jsnum run) \<Rightarrow> real list option \<Rightarrow> real \<Rightarrow> real \<Rightarrow> real list run" where
  "generate ad opts capacity timestamps mn mx =
     run_bind (chosen_unit opts capacity mn mx)
       (\<lambda>minor.
          if 100000 * to_stepSize opts < ad_diff ad mx mn minor then Some (Inl TooFarApart)
          else map_option (\<lambda>r. Inr (last_tick opts timestamps mx r))
                 (generate_loop (\<lambda>t. ad_add ad t (to_stepSize opts) minor) timestamps mx (first_tick ad opts minor mn) 0 []))"

record time_tick =
  tt_value :: real
  tt_major :: bool

text \<open>
  The values from the first on in steps of the major unit up to the last; the loop may not end. Of equal ticks the last one becomes
  major, as the map from values to indices has it.
\<close>

partial_function (option) major_loop :: "(real \<Rightarrow> real) \<Rightarrow> real \<Rightarrow> real \<Rightarrow> real list \<Rightarrow> real list option" where
  "major_loop step lst major acc = (if major \<le> lst then major_loop step lst (step major) (acc @ [major]) else Some acc)"

declare major_loop.simps [code]

definition setMajorTicks :: "adapter \<Rightarrow> real list \<Rightarrow> string \<Rightarrow> time_tick list option" where
  "setMajorTicks ad values majorUnit =
     map_option (\<lambda>majors. map (\<lambda>i. \<lparr>tt_value = values ! i,
           tt_major = (values ! i \<in> set majors \<and> values ! i \<notin> set (drop (Suc i) values))\<rparr>) [0 ..< length values])
       (major_loop (\<lambda>t. ad_add ad t 1 majorUnit) (last values) (ad_startOf ad (hd values) majorUnit) [])"

definition ticksFromTimestamps :: "adapter \<Rightarrow> real list \<Rightarrow> string option \<Rightarrow> time_tick list option" where
  "ticksFromTimestamps ad values majorUnit =
     (case majorUnit of
        Some u \<Rightarrow> if values = [] then Some [] else setMajorTicks ad values u
      | None \<Rightarrow> Some (map (\<lambda>v. \<lparr>tt_value = v, tt_major = False\<rparr>) values))"

section \<open>Values and pixels\<close>

text \<open>The offsets are numbers of JavaScript: on an axis without extent the decimals are infinite or no numbers.\<close>

record time_axis =
  tm_min :: real
  tm_max :: real
  tm_start :: jsnum
  tm_end :: jsnum
  tm_factor :: jsnum

definition getDecimalForValue :: "time_axis \<Rightarrow> real option \<Rightarrow> jsnum" where
  "getDecimalForValue a v = (case v of None \<Rightarrow> NaN | Some x \<Rightarrow> Fin (x - tm_min a) / Fin (tm_max a - tm_min a))"

definition getPixelForValue :: "real \<Rightarrow> scale \<Rightarrow> time_axis \<Rightarrow> real option \<Rightarrow> jsnum" where
  "getPixelForValue ratio s a v =
     getPixelForDecimal ratio s ((tm_start a + getDecimalForValue a v) * tm_factor a)"

definition getValueForPixel :: "scale \<Rightarrow> time_axis \<Rightarrow> jsnum \<Rightarrow> jsnum" where
  "getValueForPixel s a pixel =
     Fin (tm_min a) + (getDecimalForPixel s pixel / tm_factor a - tm_end a) * Fin (tm_max a - tm_min a)"

text \<open>The offsets at both ends; \<open>decimal\<close> is the method \<open>getDecimalForValue\<close> of the axis or of the series.\<close>

definition offset_start :: "jsnum list \<Rightarrow> jsnum" where
  "offset_start ds = (if length ds = 1 then 1 - hd ds else (ds ! 1 - hd ds) / 2)"

definition offset_end :: "jsnum list \<Rightarrow> jsnum" where
  "offset_end ds = (if length ds = 1 then last ds else (last ds - ds ! (length ds - 2)) / 2)"

definition initOffsets :: "(real \<Rightarrow> jsnum) \<Rightarrow> bool \<Rightarrow> real list \<Rightarrow> time_axis \<Rightarrow> time_axis" where
  "initOffsets decimal offset timestamps a =
     (let ds = map decimal timestamps;
          limit = Fin (if length timestamps < 3 then 1 / 2 else 1 / 4);
          start = limitValue (if offset \<and> ds \<noteq> [] then offset_start ds else 0) 0 limit;
          end' = limitValue (if offset \<and> ds \<noteq> [] then offset_end ds else 0) 0 limit
      in a\<lparr>tm_start := start, tm_end := end', tm_factor := 1 / (start + 1 + end')\<rparr>)"

datatype tick_source = FromLabels "real list" | FromData "real list" | FromTime

record build_opts =
  bt_source :: tick_source
  bt_reverse :: bool
  bt_autoSkip :: bool
  bt_major :: bool
  bt_userMin :: "real option"
  bt_userMax :: "real option"

text \<open>A limit of the user that is missing or zero gives way.\<close>

definition or_else :: "real option \<Rightarrow> real \<Rightarrow> real" where
  "or_else u d = (case u of Some x \<Rightarrow> if x \<noteq> 0 then x else d | None \<Rightarrow> d)"

definition tick_timestamps :: "adapter \<Rightarrow> time_opts \<Rightarrow> build_opts \<Rightarrow> (real \<Rightarrow> jsnum run) \<Rightarrow> time_axis \<Rightarrow> real list run" where
  "tick_timestamps ad opts b capacity a =
     (case bt_source b of
        FromLabels ts \<Rightarrow> Some (Inr ts)
      | FromData ts \<Rightarrow> generate ad opts capacity (Some ts) (tm_min a) (tm_max a)
      | FromTime \<Rightarrow> generate ad opts capacity None (tm_min a) (tm_max a))"

definition tick_limits :: "time_opts \<Rightarrow> build_opts \<Rightarrow> real list \<Rightarrow> time_axis \<Rightarrow> time_axis" where
  "tick_limits opts b timestamps a =
     (if to_boundsTicks opts \<and> timestamps \<noteq> []
      then a\<lparr>tm_min := or_else (bt_userMin b) (hd timestamps), tm_max := or_else (bt_userMax b) (last timestamps)\<rparr>
      else a)"

definition tick_unit :: "adapter \<Rightarrow> time_opts \<Rightarrow> build_opts \<Rightarrow> (real \<Rightarrow> jsnum run) \<Rightarrow> nat \<Rightarrow> time_axis \<Rightarrow> string run" where
  "tick_unit ad opts b capacity n a =
     (case to_unit opts of
        Some u \<Rightarrow> Some (Inr u)
      | None \<Rightarrow>
          if bt_autoSkip b
          then run_bind (capacity (tm_min a)) (\<lambda>c. unit_run (determineUnitForAutoTicks (to_minUnit opts) (tm_min a) (tm_max a) c))
          else unit_run (determineUnitForFormatting ad n (to_minUnit opts) (tm_min a) (tm_max a)))"

text \<open>The ticks with the unit, the major unit and the axis; \<open>init\<close> is \<open>initOffsets\<close> of the axis or of the series.\<close>

definition buildTicks :: "adapter \<Rightarrow> time_opts \<Rightarrow> build_opts \<Rightarrow> (real \<Rightarrow> jsnum run) \<Rightarrow> (real list \<Rightarrow> time_axis \<Rightarrow> time_axis) \<Rightarrow> time_axis \<Rightarrow>
    (time_tick list \<times> string \<times> string option \<times> time_axis) run" where
  "buildTicks ad opts b capacity init a =
     run_bind (tick_timestamps ad opts b capacity a) (\<lambda>timestamps.
       let a1 = tick_limits opts b timestamps a;
           ticks = filterBetween timestamps (tm_min a1) (tm_max a1)
       in run_bind (tick_unit ad opts b capacity (length ticks) a1) (\<lambda>unit.
            let majorUnit = (if \<not> bt_major b \<or> unit = ''year'' then None else determineMajorUnit unit)
            in map_option (\<lambda>ts. Inr (ts, unit, majorUnit, init timestamps a1))
                 (ticksFromTimestamps ad (if bt_reverse b then rev ticks else ticks) majorUnit)))"

definition axis_offsets :: "bool \<Rightarrow> real list \<Rightarrow> time_axis \<Rightarrow> time_axis" where
  "axis_offsets offset timestamps a = initOffsets (\<lambda>v. getDecimalForValue a (Some v)) offset timestamps a"

section \<open>Labels\<close>

text \<open>\<open>formats\<close> has the formats by unit, \<open>callback\<close> is the one of the user.\<close>

definition getLabelForValue :: "adapter \<Rightarrow> string option \<Rightarrow> (string \<Rightarrow> string option) \<Rightarrow> real \<Rightarrow> string" where
  "getLabelForValue ad tooltipFormat formats v =
     ad_format ad v (case tooltipFormat of Some f \<Rightarrow> Some f | None \<Rightarrow> formats ''datetime'')"

definition tickFormat :: "adapter \<Rightarrow> (string \<Rightarrow> string option) \<Rightarrow> string \<Rightarrow> string option \<Rightarrow> (string \<Rightarrow> nat \<Rightarrow> string) option \<Rightarrow>
    string option \<Rightarrow> time_tick list \<Rightarrow> real \<Rightarrow> nat \<Rightarrow> string" where
  "tickFormat ad formats unit majorUnit callback format ticks time index =
     (let minorFormat = formats unit;
          majorFormat = (case majorUnit of Some u \<Rightarrow> formats u | None \<Rightarrow> None);
          major = (majorFormat \<noteq> None \<and> index < length ticks \<and> tt_major (ticks ! index));
          label = ad_format ad time (if format \<noteq> None then format else if major then majorFormat else minorFormat)
      in case callback of Some f \<Rightarrow> f label index | None \<Rightarrow> label)"

definition generateTickLabels :: "adapter \<Rightarrow> (string \<Rightarrow> string option) \<Rightarrow> string \<Rightarrow> string option \<Rightarrow> (string \<Rightarrow> nat \<Rightarrow> string) option \<Rightarrow>
    time_tick list \<Rightarrow> string list" where
  "generateTickLabels ad formats unit majorUnit callback ticks =
     map (\<lambda>i. tickFormat ad formats unit majorUnit callback None ticks (tt_value (ticks ! i)) i) [0 ..< length ticks]"

text \<open>\<open>labelWidth\<close> measures a text; the rotations are in degrees.\<close>

definition getLabelSize :: "(string \<Rightarrow> real) \<Rightarrow> real \<Rightarrow> real \<Rightarrow> real \<Rightarrow> scale \<Rightarrow> string \<Rightarrow> real \<times> real" where
  "getLabelSize labelWidth minRotation maxRotation fontSize s label =
     (let w = labelWidth label; angle = toRadians (if isHorizontal s then maxRotation else minRotation)
      in (w * cos angle + fontSize * sin angle, w * sin angle + fontSize * cos angle))"

text \<open>How many labels fit, from the label of an example with the format of the unit of the options.\<close>

definition getLabelCapacity :: "adapter \<Rightarrow> time_opts \<Rightarrow> (string \<Rightarrow> string option) \<Rightarrow> string \<Rightarrow> string option \<Rightarrow>
    (string \<Rightarrow> nat \<Rightarrow> string) option \<Rightarrow> (string \<Rightarrow> real \<times> real) \<Rightarrow> scale \<Rightarrow> real \<Rightarrow> jsnum run" where
  "getLabelCapacity ad opts formats unit majorUnit callback labelSize s exampleTime =
     (let format = (case (case to_unit opts of Some u \<Rightarrow> formats u | None \<Rightarrow> None) of
                      Some f \<Rightarrow> Some f | None \<Rightarrow> formats ''millisecond'')
      in map_option (\<lambda>ticks.
             let (w, h) = labelSize (tickFormat ad formats unit majorUnit callback format ticks exampleTime 0);
                 capacity = math_floor (if isHorizontal s then Fin (sl_width s) / Fin w else Fin (sl_height s) / Fin h) - 1
             in Inr (if 0 < capacity then capacity else 1))
           (ticksFromTimestamps ad [exampleTime] majorUnit))"

section \<open>Series\<close>

record table_entry =
  te_time :: real
  te_pos :: real

definition interpolate :: "table_entry list \<Rightarrow> real \<Rightarrow> bool \<Rightarrow> real" where
  "interpolate table v reverse =
     (let from = (if reverse then te_pos else te_time); to = (if reverse then te_time else te_pos);
          (lo, hi) = (if from (hd table) \<le> v \<and> v \<le> from (last table) then lookupByKey table from v else (0, int (length table) - 1));
          p = table ! nat lo; n = table ! nat hi; span = from n - from p
      in if span \<noteq> 0 then to p + (to n - to p) * (v - from p) / span else to p)"

text \<open>The entries of the timestamps within the limits; one halfway between its neighbours is left out.\<close>

definition table_items :: "real list \<Rightarrow> table_entry list" where
  "table_items items =
     concat (map (\<lambda>i.
         if 0 < i \<and> i < length items - 1 \<and> of_int (round_half_up ((items ! (i + 1) + items ! (i - 1)) / 2)) = items ! i then []
         else [\<lparr>te_time = items ! i, te_pos = real i / (real (length items) - 1)\<rparr>])
       [0 ..< length items])"

definition buildLookupTable :: "real \<Rightarrow> real \<Rightarrow> real list \<Rightarrow> table_entry list" where
  "buildLookupTable mn mx timestamps =
     (let items = filter (\<lambda>t. mn \<le> t \<and> t \<le> mx) timestamps
      in if length items < 2 then [\<lparr>te_time = mn, te_pos = 0\<rparr>, \<lparr>te_time = mx, te_pos = 1\<rparr>] else table_items items)"

definition getTimestampsForTable :: "real list \<Rightarrow> real list \<Rightarrow> real list \<Rightarrow> real list" where
  "getTimestampsForTable data labels cache =
     (if cache \<noteq> [] then cache
      else if data \<noteq> [] \<and> labels \<noteq> [] then normalize (data @ labels)
      else if data \<noteq> [] then data else labels)"

record series =
  se_axis :: time_axis
  se_table :: "table_entry list"
  se_minPos :: real
  se_tableRange :: real

text \<open>
  The methods of the series: decimals, the initialisation (\<open>timestamps\<close> are those of \<open>getTimestampsForTable\<close>), and values of pixels. A
  quotient by an empty range of the table is infinite or no number; the value of such a pixel is not finite, \<open>None\<close>.
\<close>

definition seriesDecimal :: "table_entry list \<Rightarrow> real \<Rightarrow> real \<Rightarrow> real \<Rightarrow> jsnum" where
  "seriesDecimal table minPos tableRange v = Fin (interpolate table v False - minPos) / Fin tableRange"

definition initSeries :: "bool \<Rightarrow> real list \<Rightarrow> time_axis \<Rightarrow> series" where
  "initSeries offset timestamps a =
     (let table = buildLookupTable (tm_min a) (tm_max a) timestamps; minPos = interpolate table (tm_min a) False;
          tableRange = interpolate table (tm_max a) False - minPos
      in \<lparr>se_axis = initOffsets (seriesDecimal table minPos tableRange) offset timestamps a,
          se_table = table, se_minPos = minPos, se_tableRange = tableRange\<rparr>)"

definition seriesPixel :: "real \<Rightarrow> scale \<Rightarrow> series \<Rightarrow> real \<Rightarrow> jsnum" where
  "seriesPixel ratio s se v =
     getPixelForDecimal ratio s
       ((tm_start (se_axis se) + seriesDecimal (se_table se) (se_minPos se) (se_tableRange se) v) * tm_factor (se_axis se))"

definition seriesValue :: "scale \<Rightarrow> series \<Rightarrow> jsnum \<Rightarrow> real option" where
  "seriesValue s se pixel =
     (let decimal = getDecimalForPixel s pixel / tm_factor (se_axis se) - tm_end (se_axis se)
      in case decimal * Fin (se_tableRange se) + Fin (se_minPos se) of
           Fin x \<Rightarrow> Some (interpolate (se_table se) x True)
         | _ \<Rightarrow> None)"

section \<open>Limits: properties\<close>

lemma applied_min:
  assumes "x \<noteq> NaN" "x \<noteq> NInf" "l \<noteq> NInf"
  shows "\<exists>m. math_min (if \<not> is_nan l then math_min x l else x) (Fin p) = Fin m \<and> m \<le> p \<and> (\<forall>z. l = Fin z \<longrightarrow> m \<le> z)"
  using assms by (cases x; cases l) (auto simp: math_min_def)

lemma applied_max:
  assumes "x \<noteq> NaN" "x \<noteq> PInf" "l \<noteq> PInf"
  shows "\<exists>m. math_max (if \<not> is_nan l then math_max x l else x) (Fin p) = Fin m \<and> p \<le> m \<and> (\<forall>z. l = Fin z \<longrightarrow> z \<le> m)"
  using assms by (cases x; cases l) (auto simp: math_max_def)

text \<open>
  Limits of a time axis. Without limits of the user, the axis reaches over the range of the data and that of the labels, and its ends are at least
  a millisecond apart, also when all times are equal.
\<close>

theorem time_limits:
  assumes "determineDataLimits ad unit now ub labelBounds (Some (Fin p, Fin q)) = (a, b)"
    and "\<not> ub_minDefined ub" "\<not> ub_maxDefined ub"
    and "ub_min ub \<noteq> NaN" "ub_min ub \<noteq> NInf" "ub_max ub \<noteq> NaN" "ub_max ub \<noteq> PInf"
    and "fst labelBounds \<noteq> NInf" "snd labelBounds \<noteq> PInf"
  shows "1 \<le> b - a \<and> a \<le> p \<and> q \<le> b \<and> (\<forall>x. fst labelBounds = Fin x \<longrightarrow> a \<le> x) \<and> (\<forall>y. snd labelBounds = Fin y \<longrightarrow> y \<le> b)"
proof -
  obtain m where m: "math_min (if \<not> is_nan (fst labelBounds) then math_min (ub_min ub) (fst labelBounds) else ub_min ub) (Fin p) = Fin m"
      "m \<le> p" "\<forall>z. fst labelBounds = Fin z \<longrightarrow> m \<le> z"
    using applied_min [OF assms(4,5,8)] by blast
  obtain n where n: "math_max (if \<not> is_nan (snd labelBounds) then math_max (ub_max ub) (snd labelBounds) else ub_max ub) (Fin q) = Fin n"
      "q \<le> n" "\<forall>z. snd labelBounds = Fin z \<longrightarrow> z \<le> n"
    using applied_max [OF assms(6,7,9)] by blast
  have "a = min m (n - 1)" "b = max (m + 1) n"
    using assms(1-3) m(1) n(1) by (auto simp: determineDataLimits_def applyBounds_def Let_def)
  then show ?thesis using m(2,3) n(2,3) by (fastforce simp: min_def max_def)
qed

definition sample_adapter :: adapter where
  "sample_adapter = \<lparr>ad_parse = (\<lambda>v f. None), ad_startOf = (\<lambda>t u. of_int (\<lfloor>t / 10\<rfloor> * 10)), ad_startOfWeek = (\<lambda>t w. t), ad_endOf = (\<lambda>t u. t),
     ad_add = (\<lambda>t n u. t + 10 * n), ad_diff = (\<lambda>x y u. (x - y) / 10), ad_format = (\<lambda>t f. [])\<rparr>"

theorem time_limits_witness:
  "determineDataLimits sample_adapter ''day'' 0 \<lparr>ub_min = PInf, ub_max = NInf, ub_minDefined = False, ub_maxDefined = False\<rparr>
     (PInf, NInf) (Some (Fin 5, Fin 5)) = (4, 6)"
proof -
  let ?ub = "\<lparr>ub_min = PInf, ub_max = NInf, ub_minDefined = False, ub_maxDefined = False\<rparr>"
  have e: "determineDataLimits sample_adapter ''day'' 0 ?ub (PInf, NInf) (Some (Fin 5, Fin 5)) = (4, 6)"
    by (simp add: determineDataLimits_def applyBounds_def math_min_def math_max_def)
  show ?thesis using time_limits [OF e] e by simp
qed

section \<open>Ticks: properties\<close>

lemma distinct_add_key [simp]: "distinct ticks \<Longrightarrow> distinct (add_key t ticks)"
  by (simp add: add_key_def)

lemma set_add_key [simp]: "set (add_key t ticks) = insert t (set ticks)"
  by (auto simp: add_key_def)

lemma distinct_addTick [simp]: "distinct ticks \<Longrightarrow> distinct (addTick ticks time timestamps)"
  by (auto simp: addTick_def split: option.splits prod.splits)

lemma addTick_None [simp]: "addTick ticks time None = add_key time ticks"
  by (simp add: addTick_def)

text \<open>
  When every step advances by some amount, the loop ends at or after the limit; with times as ticks, the keys added lie before
  the limit and the first time is among them.
\<close>

lemma generate_loop_ends:
  assumes "0 < d" and adv: "\<forall>t. t + d \<le> step t"
  shows "mx - time \<le> d * real n \<Longrightarrow> \<exists>t c ts. generate_loop step timestamps mx time k ticks = Some (t, c, ts) \<and> mx \<le> t \<and>
    (distinct ticks \<longrightarrow> distinct ts) \<and>
    (timestamps = None \<longrightarrow> set ticks \<subseteq> set ts \<and> (\<forall>x \<in> set ts - set ticks. time \<le> x \<and> x < mx) \<and> (time < mx \<longrightarrow> time \<in> set ts))"
proof (induction n arbitrary: time k ticks)
  case 0
  then show ?case by (simp add: generate_loop.simps)
next
  case (Suc n)
  have st: "time + d \<le> step time" using adv by simp
  then have "mx - step time \<le> d * real n" using Suc.prems by (simp add: algebra_simps)
  from Suc.IH [OF this, of "k + 1" "addTick ticks time timestamps"] obtain t c ts where
    r: "generate_loop step timestamps mx (step time) (k + 1) (addTick ticks time timestamps) = Some (t, c, ts)" "mx \<le> t"
      "distinct (addTick ticks time timestamps) \<longrightarrow> distinct ts"
      "timestamps = None \<longrightarrow> set (addTick ticks time timestamps) \<subseteq> set ts \<and>
        (\<forall>x \<in> set ts - set (addTick ticks time timestamps). step time \<le> x \<and> x < mx)"
    by blast
  show ?case
  proof (cases "time < mx")
    case True
    have "generate_loop step timestamps mx time k ticks = Some (t, c, ts)" using r(1) True by (subst generate_loop.simps) simp
    moreover have "set ticks \<subseteq> set ts \<and> (\<forall>x \<in> set ts - set ticks. time \<le> x \<and> x < mx) \<and> time \<in> set ts" if "timestamps = None"
    proof -
      have "time \<le> x \<and> x < mx" if "x \<in> set ts - set ticks" for x
      proof (cases "x = time")
        case False
        then have "step time \<le> x \<and> x < mx" using r(4) that \<open>timestamps = None\<close> by auto
        then show ?thesis using st assms(1) by linarith
      qed (use True in simp)
      then show ?thesis using r(4) that by auto
    qed
    ultimately show ?thesis using r(2,3) by simp
  qed (simp add: generate_loop.simps)
qed

lemma generate_loop_total:
  assumes "0 < (d :: real)" and "\<forall>t. t + d \<le> step t"
  obtains t c ts where "generate_loop step timestamps mx time 0 [] = Some (t, c, ts)" "mx \<le> t" "distinct ts"
    "timestamps = None \<Longrightarrow> (\<forall>x \<in> set ts. time \<le> x \<and> x < mx) \<and> (time < mx \<longrightarrow> time \<in> set ts)"
proof -
  obtain n where "(mx - time) / d \<le> real n" using real_arch_simple by blast
  then have "mx - time \<le> d * real n" using assms(1) by (simp add: pos_divide_le_eq mult.commute)
  from generate_loop_ends [OF assms this, of timestamps 0 "[]"] that show thesis by auto
qed

lemma last_tick_sorted: "distinct ts \<Longrightarrow> sorted_wrt (<) (last_tick opts timestamps mx (t, c, ts))"
  by (simp add: last_tick_def strict_sorted_iff)

text \<open>
  C26 (generation of ticks). When the capacity is computed, and each step of the adapter in the unit of the ticks advances time by at least some amount, the generation ends: it
  throws, or gives strictly ascending ticks. When the ticks are not taken from the timestamps of the data, the first tick, which is the lower limit put to the start of a week
  or of that unit, is present when it lies below the upper limit, none lies before it, and at most one tick lies at or beyond the limit.
\<close>

theorem generate_ends:
  assumes "capacity mn \<noteq> None" and "0 < d" and "\<forall>u t. chosen_unit opts capacity mn mx = Some (Inr u) \<longrightarrow> t + d \<le> ad_add ad t (to_stepSize opts) u"
  shows "generate ad opts capacity timestamps mn mx \<noteq> None \<and>
    (\<forall>ts. generate ad opts capacity timestamps mn mx = Some (Inr ts) \<longrightarrow> sorted_wrt (<) ts \<and>
       (timestamps = None \<longrightarrow> (\<forall>u first. chosen_unit opts capacity mn mx = Some (Inr u) \<longrightarrow> first = first_tick ad opts u mn \<longrightarrow>
          (first < mx \<longrightarrow> first \<in> set ts) \<and> (\<forall>x \<in> set ts. min first mx \<le> x) \<and> card {x \<in> set ts. mx \<le> x} \<le> 1)))"
proof -
  let ?unit = "chosen_unit opts capacity mn mx"
  have u: "?unit \<noteq> None" using assms(1) by (auto simp: chosen_unit_def run_bind_def unit_run_def split: option.splits sum.splits)
  show ?thesis
  proof (cases "?unit")
    case (Some r)
    show ?thesis
    proof (cases r)
      case (Inl e)
      then show ?thesis using Some by (simp add: generate_def run_bind_def)
    next
      case (Inr minor)
      let ?first = "first_tick ad opts minor mn"
      have "\<forall>t. t + d \<le> ad_add ad t (to_stepSize opts) minor" using assms(3) Some Inr by simp
      from generate_loop_total [OF assms(2) this, of timestamps mx ?first] obtain t c ts where
        l: "generate_loop (\<lambda>t. ad_add ad t (to_stepSize opts) minor) timestamps mx ?first 0 [] = Some (t, c, ts)" "mx \<le> t" "distinct ts"
          "timestamps = None \<Longrightarrow> (\<forall>x \<in> set ts. ?first \<le> x \<and> x < mx) \<and> (?first < mx \<longrightarrow> ?first \<in> set ts)" by metis
      have g: "generate ad opts capacity timestamps mn mx = Some (if 100000 * to_stepSize opts < ad_diff ad mx mn minor then Inl TooFarApart
          else Inr (last_tick opts timestamps mx (t, c, ts)))"
        using Some Inr l(1) by (simp add: generate_def run_bind_def)
      have card: "card {x \<in> set (last_tick opts None mx (t, c, ts)). mx \<le> x} \<le> 1"
        if "\<forall>x \<in> set ts. ?first \<le> x \<and> x < mx"
      proof -
        have "{x \<in> set (last_tick opts None mx (t, c, ts)). mx \<le> x} \<subseteq> {t}"
          using that by (auto simp: last_tick_def addTick_def split: if_splits)
        from card_mono [OF _ this] show ?thesis by simp
      qed
      have mem: "set (last_tick opts None mx (t, c, ts)) \<subseteq> insert t (set ts)" "set ts \<subseteq> set (last_tick opts None mx (t, c, ts))"
        by (auto simp: last_tick_def addTick_def)
      have low: "min ?first mx \<le> x" if "\<forall>x \<in> set ts. ?first \<le> x \<and> x < mx" "x \<in> set (last_tick opts None mx (t, c, ts))" for x
        using mem(1) that l(2) by (cases "x = t") (auto simp: min_le_iff_disj)
      show ?thesis unfolding g
        using last_tick_sorted [OF l(3)] l(4) card mem(2) low
        by (auto simp: Some Inr)
    qed
  qed (use u in simp)
qed

definition sample_opts :: time_opts where
  "sample_opts = \<lparr>to_unit = Some ''day'', to_minUnit = ''day'', to_stepSize = 1, to_isoWeekday = NoWeekday, to_boundsTicks = False\<rparr>"

theorem generate_ends_witness:
  "generate sample_adapter sample_opts (\<lambda>t. Some (Inr 5)) None 3 20 = Some (Inr [0, 10, 20])"
proof -
  have e: "generate sample_adapter sample_opts (\<lambda>t. Some (Inr 5)) None 3 20 = Some (Inr [0, 10, 20])"
    by (simp add: generate_def chosen_unit_def run_bind_def sample_adapter_def sample_opts_def first_tick_def generate_loop.simps addTick_def
      add_key_def last_tick_def)
  have "\<forall>u t. chosen_unit sample_opts (\<lambda>t. Some (Inr 5)) 3 20 = Some (Inr u) \<longrightarrow> t + 10 \<le> ad_add sample_adapter t (to_stepSize sample_opts) u"
    by (simp add: sample_adapter_def sample_opts_def)
  from generate_ends [of "\<lambda>t. Some (Inr 5)" 3 10 sample_opts 20 sample_adapter None, OF _ _ this] e show ?thesis by simp
qed

text \<open>With a step size of zero no time passes; when the difference of the limits is not positive in units, nothing refuses it, and the loop does not end.\<close>

lemma zero_step_loops: "time < mx \<Longrightarrow> generate_loop (\<lambda>t. t) None mx time k ticks = None"
proof -
  have "step = (\<lambda>t. t) \<and> time < mx \<longrightarrow> False" if "generate_loop step ts mx time k ticks = Some r" for step ts r
  proof (rule generate_loop.raw_induct [where P = "\<lambda>step ts mx time k ticks r. step = (\<lambda>t. t) \<and> time < mx \<longrightarrow> False", OF _ that], intro impI)
    fix loop :: "(real \<Rightarrow> real) \<Rightarrow> real list option \<Rightarrow> real \<Rightarrow> real \<Rightarrow> nat \<Rightarrow> real list \<Rightarrow> (real \<times> nat \<times> real list) option"
      and step ts mx time k ticks r
    assume IH: "\<And>step ts mx time k ticks r. loop step ts mx time k ticks = Some r \<Longrightarrow> step = (\<lambda>t. t) \<and> time < mx \<longrightarrow> False"
      and run: "(if time < mx then loop step ts mx (step time) (k + 1) (addTick ticks time ts) else Some (time, k, ticks)) = Some r"
      and c: "step = (\<lambda>t. t) \<and> time < mx"
    from run c have "loop step ts mx time (k + 1) (addTick ticks time ts) = Some r" by simp
    from IH [OF this] c show False by blast
  qed
  moreover assume "time < mx"
  ultimately show ?thesis by (cases "generate_loop (\<lambda>t. t) None mx time k ticks") blast+
qed

section \<open>Pixels: properties\<close>

lemma limit_offset:
  assumes "0 \<le> m"
  shows "\<exists>o'. limitValue (Fin x) 0 (Fin m) = Fin o' \<and> 0 \<le> o' \<and> o' \<le> m"
  using assms by (auto simp: limitValue_Fin)

text \<open>Of finite decimals the offsets are finite, between nothing and half the axis.\<close>

lemma initOffsets_bounds:
  assumes "\<forall>t \<in> set timestamps. \<exists>x. decimal t = Fin x"
  obtains st en where "tm_start (initOffsets decimal offset timestamps a) = Fin st" "tm_end (initOffsets decimal offset timestamps a) = Fin en"
    "0 \<le> st" "st \<le> 1 / 2" "0 \<le> en" "en \<le> 1 / 2" "tm_factor (initOffsets decimal offset timestamps a) = Fin (1 / (st + 1 + en))"
    "offset \<or> st = 0 \<and> en = 0"
proof -
  define f where "f t = num_val (decimal t)" for t
  have ds: "map decimal timestamps = map Fin (map f timestamps)"
    using assms by (auto simp: f_def)
  have fin: "\<exists>x. (if offset \<and> timestamps \<noteq> [] then g (map decimal timestamps) else 0) = Fin x \<and> (offset \<or> x = 0)"
    if "g = offset_start \<or> g = offset_end" for g
  proof (cases "timestamps = []")
    case False
    then have "length timestamps = 1 \<or> 2 \<le> length timestamps" by (cases timestamps; cases "tl timestamps") auto
    moreover have "\<exists>x. u = x * 2" for u :: real by (rule exI [of _ "u / 2"]) simp
    ultimately show ?thesis using that False unfolding ds
      by (auto simp: offset_start_def offset_end_def hd_map last_map)
  qed simp
  define m where "m = (if length timestamps < 3 then 1 / 2 else 1 / 4 :: real)"
  have m: "0 \<le> m" "m \<le> 1 / 2" by (simp_all add: m_def)
  obtain x where x: "(if offset \<and> timestamps \<noteq> [] then offset_start (map decimal timestamps) else 0) = Fin x" "offset \<or> x = 0"
    using fin by blast
  obtain y where y: "(if offset \<and> timestamps \<noteq> [] then offset_end (map decimal timestamps) else 0) = Fin y" "offset \<or> y = 0"
    using fin by blast
  let ?st = "max 0 (min x m)" and ?en = "max 0 (min y m)"
  have e: "initOffsets decimal offset timestamps a = a\<lparr>tm_start := Fin ?st, tm_end := Fin ?en, tm_factor := 1 / (Fin ?st + 1 + Fin ?en)\<rparr>"
    using x(1) y(1) by (simp add: initOffsets_def limitValue_Fin m_def [symmetric])
  have b: "0 \<le> ?st" "?st \<le> 1 / 2" "0 \<le> ?en" "?en \<le> 1 / 2" using m by (auto simp: min_le_iff_disj)
  have pos: "?st + 1 + ?en \<noteq> 0" using b(1,3) by linarith
  have o: "offset \<or> ?st = 0 \<and> ?en = 0" using x(2) y(2) m by auto
  have f: "1 / (Fin ?st + 1 + Fin ?en) = Fin (1 / (?st + 1 + ?en))" using pos by simp
  show thesis using that [of ?st ?en] b o unfolding e f by simp
qed

lemma shared_decimal:
  fixes st en d :: real
  assumes "0 \<le> st" "0 \<le> en" "0 \<le> d" "d \<le> 1"
  shows "0 \<le> (st + d) * (1 / (st + 1 + en))" "(st + d) * (1 / (st + 1 + en)) \<le> 1"
    "(st + d) * (1 / (st + 1 + en)) / (1 / (st + 1 + en)) - en = d + (st - en)"
  using assms by (auto simp: field_simps)

text \<open>
  C25 (values and pixels of a time axis). Every time between the limits lies between the two ends of the axis; reading its pixel gives the time back,
  shifted by the share of the range by which the offsets at both ends differ: the offset of the end is subtracted where that of the start was added.
\<close>

theorem time_pixel_value:
  assumes "a = axis_offsets offset timestamps a0" and "tm_min a0 < tm_max a0" and "drawable s"
    and "tm_min a0 \<le> v" "v \<le> tm_max a0"
  shows "\<exists>st en p. tm_start a = Fin st \<and> tm_end a = Fin en \<and> 0 \<le> st \<and> st \<le> 1 / 2 \<and> 0 \<le> en \<and> en \<le> 1 / 2 \<and>
    getPixelForValue ratio s a (Some v) = Fin p \<and> sl_startPixel s \<le> p \<and> p \<le> sl_endPixel s \<and>
    getValueForPixel s a (Fin p) = Fin (v + (st - en) * (tm_max a - tm_min a)) \<and>
    (\<not> offset \<longrightarrow> getValueForPixel s a (Fin p) = Fin v)"
proof -
  have fin: "\<forall>t \<in> set timestamps. \<exists>x. getDecimalForValue a0 (Some t) = Fin x"
    using assms(2) by (simp add: getDecimalForValue_def)
  obtain st en where o: "tm_start a = Fin st" "tm_end a = Fin en" "0 \<le> st" "st \<le> 1 / 2" "0 \<le> en" "en \<le> 1 / 2"
      "tm_factor a = Fin (1 / (st + 1 + en))" "offset \<or> st = 0 \<and> en = 0"
    using initOffsets_bounds [OF fin, of offset a0] unfolding assms(1) axis_offsets_def by blast
  have lim: "tm_min a = tm_min a0" "tm_max a = tm_max a0"
    by (simp_all add: assms(1) axis_offsets_def initOffsets_def Let_def)
  define r where "r = tm_max a0 - tm_min a0"
  define d where "d = (v - tm_min a0) / r"
  have r: "0 < r" using assms(2) by (simp add: r_def)
  have d: "0 \<le> d" "d \<le> 1" using assms(4,5) r by (auto simp: d_def r_def)
  let ?f = "1 / (st + 1 + en)" and ?x = "(st + d) * (1 / (st + 1 + en))"
  note x = shared_decimal [OF o(3,5) d]
  note p = drawable_pixel [OF assms(3) x(1,2)]
  have px: "getPixelForValue ratio s a (Some v) = Fin (pixel_of s ?x)"
  proof -
    have "(tm_start a + getDecimalForValue a (Some v)) * tm_factor a = Fin ?x"
      using r o(3,5) by (simp add: getDecimalForValue_def lim o(1,7) d_def r_def)
    then show ?thesis by (simp only: getPixelForValue_def p(3))
  qed
  have "getValueForPixel s a (Fin (pixel_of s ?x)) = Fin (tm_min a0 + (?x / ?f - en) * r)"
  proof -
    have "?f \<noteq> 0" using o(3,5) by simp
    then show ?thesis unfolding getValueForPixel_def p(4) o(2,7) lim by (simp add: r_def)
  qed
  also have "tm_min a0 + (?x / ?f - en) * r = v + (st - en) * r"
    unfolding x(3) using r by (simp add: d_def field_simps)
  finally have val: "getValueForPixel s a (Fin (pixel_of s ?x)) = Fin (v + (st - en) * (tm_max a - tm_min a))" by (simp add: r_def lim)
  show ?thesis using o(1-6,8) px p(1,2) val by auto
qed

definition sample_axis :: time_axis where
  "sample_axis = \<lparr>tm_min = 0, tm_max = 8, tm_start = Fin 0, tm_end = Fin 0, tm_factor = Fin 1\<rparr>"

theorem time_pixel_value_witness:
  "\<exists>p. getValueForPixel sample_scale (axis_offsets True [0, 2, 8] sample_axis) (Fin p) = Fin (4 - 1)"
proof -
  have d: "drawable sample_scale" by (simp add: drawable_def sample_scale_def)
  have o: "tm_start (axis_offsets True [0, 2, 8] sample_axis) = Fin (1 / 8)" "tm_end (axis_offsets True [0, 2, 8] sample_axis) = Fin (1 / 4)"
    "tm_max (axis_offsets True [0, 2, 8] sample_axis) = 8" "tm_min (axis_offsets True [0, 2, 8] sample_axis) = 0"
    by (simp_all add: axis_offsets_def initOffsets_def offset_start_def offset_end_def getDecimalForValue_def sample_axis_def limitValue_Fin)
  let ?A = "axis_offsets True [0, 2, 8] sample_axis"
  have "tm_min sample_axis < tm_max sample_axis" "tm_min sample_axis \<le> 4" "4 \<le> tm_max sample_axis" by (simp_all add: sample_axis_def)
  from time_pixel_value [OF refl this(1) d this(2,3), of True "[0, 2, 8]" 1] obtain st en p where
    "tm_start ?A = Fin st" "tm_end ?A = Fin en" "getValueForPixel sample_scale ?A (Fin p) = Fin (4 + (st - en) * (tm_max ?A - tm_min ?A))"
    by blast
  then show ?thesis using o by (intro exI [of _ p]) (simp del: Fin_arith)
qed

section \<open>Series: properties\<close>

definition increasing :: "table_entry list \<Rightarrow> bool" where
  "increasing = sorted_wrt (\<lambda>e f. te_time e < te_time f \<and> te_pos e < te_pos f)"

lemma lookup_loop_apart: "lo < hi \<Longrightarrow> lookup_loop cmp lo hi = (l, h) \<Longrightarrow> l < h"
proof (induction cmp lo hi rule: lookup_loop.induct)
  case (1 cmp lo hi)
  show ?case
  proof (cases "hi - lo > 1")
    case True
    then have "lo < (lo + hi) div 2" and "(lo + hi) div 2 < hi" by auto
    with 1 True show ?thesis
      by (cases "cmp ((lo + hi) div 2)") (simp_all add: lookup_loop.simps [of _ lo hi] Let_def)
  next
    case False
    with 1 show ?thesis by (simp add: lookup_loop.simps [of _ lo hi])
  qed
qed

text \<open>The bracket of a value between the first and the last entry of a table whose keys ascend strictly.\<close>

lemma lookupByKey_bracket:
  assumes "sorted_wrt (\<lambda>e f. key e < key f) table" and "2 \<le> length table" and "key (hd table) \<le> v" "v \<le> key (last table)"
  obtains i where "lookupByKey table key v = (int i, int i + 1)" "Suc i < length table" "i = 0 \<or> key (table ! i) < v"
    "key (table ! i) \<le> v" "v \<le> key (table ! Suc i)"
proof -
  obtain l h where r: "lookupByKey table key v = (l, h)" by (cases "lookupByKey table key v")
  have srt: "sorted (map key table)"
    using assms(1) by (auto simp: sorted_wrt_iff_nth_less sorted_iff_nth_mono_less intro: less_imp_le)
  have run: "lookup_loop (\<lambda>i. key (table ! nat i) < v) 0 (int (length table) - 1) = (l, h)"
    using r by (simp add: lookupByKey_def lookup_with_def)
  have "l < h" using lookup_loop_apart [OF _ run] assms(2) by simp
  moreover have "0 \<le> l \<and> l \<le> h \<and> h - l \<le> 1 \<and> h < int (length table) \<and> (l = 0 \<or> key (table ! nat l) < v) \<and>
      (h = int (length table) - 1 \<or> \<not> key (table ! nat h) < v)"
    using lkKey.loop_bracket [of 0 "int (length table) - 1" "(table, key)" v l h] srt assms(2) run by (cases "table = []") simp_all
  ultimately have b: "0 \<le> l" "h = l + 1" "h < int (length table)" "l = 0 \<or> key (table ! nat l) < v"
      "h = int (length table) - 1 \<or> v \<le> key (table ! nat h)"
    by (simp_all add: not_less)
  have ne: "table \<noteq> []" using assms(2) by auto
  have n: "nat h = Suc (nat l)" using b(1,2) by simp
  show thesis
  proof (rule that [of "nat l"])
    show "key (table ! nat l) \<le> v" using b(1,4) assms(3) ne by (auto simp: hd_conv_nth)
    show "v \<le> key (table ! Suc (nat l))"
    proof (cases "h = int (length table) - 1")
      case True
      then have "Suc (nat l) = length table - 1" using n by linarith
      then show ?thesis using assms(4) ne by (simp add: last_conv_nth)
    qed (use b(5) n in simp)
  qed (use r b n in auto)
qed

lemma increasing_nth:
  assumes "increasing table" "i < j" "j < length table"
  shows "te_time (table ! i) < te_time (table ! j)" "te_pos (table ! i) < te_pos (table ! j)"
  using assms sorted_wrt_nth_less [of _ table i j] by (auto simp: increasing_def)

text \<open>The two directions on the segment between two neighbouring entries.\<close>

lemma segment_inverse:
  fixes s0 s1 t0 t1 v :: real
  assumes "s0 < s1" "t0 < t1" "s0 \<le> v" "v \<le> s1" and w: "w = t0 + (t1 - t0) * (v - s0) / (s1 - s0)"
  shows "t0 \<le> w" "w \<le> t1" "s0 < v \<Longrightarrow> t0 < w" "s0 + (s1 - s0) * (w - t0) / (t1 - t0) = v"
proof -
  define q where "q = (v - s0) / (s1 - s0)"
  have q: "0 \<le> q" "q \<le> 1" "s0 < v \<Longrightarrow> 0 < q" using assms(1,3,4) by (simp_all add: q_def)
  have wq: "w = t0 + (t1 - t0) * q" by (simp add: w q_def)
  show "t0 \<le> w" "s0 < v \<Longrightarrow> t0 < w" using assms(2) q by (simp_all add: wq)
  have "(t1 - t0) * q \<le> (t1 - t0) * 1" using q(2) assms(2) by (intro mult_left_mono) simp_all
  then show "w \<le> t1" unfolding wq by simp
  show "s0 + (s1 - s0) * (w - t0) / (t1 - t0) = v" using assms(1,2) by (simp add: wq q_def)
qed

lemma interpolate_inverse:
  assumes inc: "increasing table" and len: "2 \<le> length table" and v: "te_time (hd table) \<le> v" "v \<le> te_time (last table)"
  shows "te_pos (hd table) \<le> interpolate table v False \<and> interpolate table v False \<le> te_pos (last table) \<and>
    interpolate table (interpolate table v False) True = v"
proof -
  have srt: "sorted_wrt (\<lambda>e f. te_time e < te_time f) table" "sorted_wrt (\<lambda>e f. te_pos e < te_pos f) table"
    using inc by (auto simp: increasing_def sorted_wrt_iff_nth_less)
  have ne: "table \<noteq> []" using len by auto
  obtain i where i: "lookupByKey table te_time v = (int i, int i + 1)" "Suc i < length table" "i = 0 \<or> te_time (table ! i) < v"
      "te_time (table ! i) \<le> v" "v \<le> te_time (table ! Suc i)"
    using lookupByKey_bracket [OF srt(1) len v] by blast
  note step = increasing_nth [OF inc lessI i(2)]
  define w where "w = te_pos (table ! i) + (te_pos (table ! Suc i) - te_pos (table ! i)) * (v - te_time (table ! i)) /
    (te_time (table ! Suc i) - te_time (table ! i))"
  have nat1: "nat (int k + 1) = Suc k" for k by simp
  have fw: "interpolate table v False = w"
    using v step(1) by (simp add: interpolate_def i(1) Let_def w_def nat1)
  note seg = segment_inverse [OF step i(4,5) w_def]
  have ends: "te_pos (hd table) \<le> te_pos (table ! i)" "te_pos (table ! Suc i) \<le> te_pos (last table)"
  proof -
    show "te_pos (hd table) \<le> te_pos (table ! i)"
      using increasing_nth(2) [OF inc, of 0 i] i(2) ne by (cases i) (simp_all add: hd_conv_nth)
    show "te_pos (table ! Suc i) \<le> te_pos (last table)"
    proof (cases "Suc i = length table - 1")
      case False
      then have "Suc i < length table - 1" using i(2) by linarith
      from increasing_nth(2) [OF inc this] ne show ?thesis by (simp add: last_conv_nth)
    qed (use ne in \<open>simp add: last_conv_nth\<close>)
  qed
  have w: "te_pos (hd table) \<le> w" "w \<le> te_pos (last table)" using seg(1,2) ends by linarith+
  obtain j where j: "lookupByKey table te_pos w = (int j, int j + 1)" "Suc j < length table" "j = 0 \<or> te_pos (table ! j) < w"
      "te_pos (table ! j) \<le> w" "w \<le> te_pos (table ! Suc j)"
    using lookupByKey_bracket [OF srt(2) len w] by blast
  have "\<not> j < i"
  proof
    assume "j < i"
    then have "te_pos (table ! Suc j) \<le> te_pos (table ! i)"
      using increasing_nth(2) [OF inc, of "Suc j" i] i(2) by (cases "Suc j = i") auto
    moreover have "te_pos (table ! i) < w" using seg(3) i(3) \<open>j < i\<close> by simp
    ultimately show False using j(5) by linarith
  qed
  moreover have "\<not> i < j"
  proof
    assume "i < j"
    then have "te_pos (table ! Suc i) \<le> te_pos (table ! j)"
      using increasing_nth(2) [OF inc, of "Suc i" j] j(2) by (cases "Suc i = j") auto
    with seg(2) j(3) \<open>i < j\<close> show False by linarith
  qed
  ultimately have "j = i" by simp
  then have "interpolate table w True = v"
    using w step(2) seg(4) j(1) by (simp add: interpolate_def Let_def nat1)
  then show ?thesis using w fw by simp
qed

lemma interpolate_ends:
  assumes inc: "increasing table" and len: "2 \<le> length table"
  shows "interpolate table (te_time (hd table)) False = te_pos (hd table)"
    "interpolate table (te_time (last table)) False = te_pos (last table)"
proof -
  have srt: "sorted_wrt (\<lambda>e f. te_time e < te_time f) table"
    using inc by (auto simp: increasing_def sorted_wrt_iff_nth_less)
  have ne: "table \<noteq> []" using len by auto
  have nat1: "nat (int k + 1) = Suc k" for k by simp
  have hl: "te_time (hd table) < te_time (last table)"
    using increasing_nth(1) [OF inc, of 0 "length table - 1"] len ne by (simp add: hd_conv_nth last_conv_nth)
  obtain i where i: "lookupByKey table te_time (te_time (hd table)) = (int i, int i + 1)" "Suc i < length table"
      "i = 0 \<or> te_time (table ! i) < te_time (hd table)"
    using lookupByKey_bracket [OF srt len] hl by (metis less_imp_le order_refl)
  have "i = 0" using i(2,3) increasing_nth(1) [OF inc, of 0 i] ne by (cases i) (auto simp: hd_conv_nth)
  then show "interpolate table (te_time (hd table)) False = te_pos (hd table)"
    using i(1) hl ne by (simp add: interpolate_def Let_def hd_conv_nth)
  obtain j where j: "lookupByKey table te_time (te_time (last table)) = (int j, int j + 1)" "Suc j < length table"
      "te_time (last table) \<le> te_time (table ! Suc j)"
    using lookupByKey_bracket [OF srt len] hl by (metis less_imp_le order_refl)
  have "\<not> Suc j < length table - 1"
    using j(3) increasing_nth(1) [OF inc, of "Suc j" "length table - 1"] ne by (auto simp: last_conv_nth)
  then have "Suc j = length table - 1" using j(2) by linarith
  then have l: "table ! Suc j = last table" using ne by (simp add: last_conv_nth)
  have "te_time (table ! j) < te_time (last table)" using increasing_nth(1) [OF inc lessI j(2)] by (simp add: l)
  then show "interpolate table (te_time (last table)) False = te_pos (last table)"
    using j(1) hl by (simp add: interpolate_def Let_def nat1 l)
qed

text \<open>The table of strictly ascending timestamps ascends in both columns and reaches from the first to the last of them.\<close>

definition kept :: "real list \<Rightarrow> nat \<Rightarrow> bool" where
  "kept items i \<longleftrightarrow> \<not> (0 < i \<and> i < length items - 1 \<and> of_int (round_half_up ((items ! (i + 1) + items ! (i - 1)) / 2)) = items ! i)"

lemma table_items_map:
  "table_items items = map (\<lambda>i. \<lparr>te_time = items ! i, te_pos = real i / (real (length items) - 1)\<rparr>) (filter (kept items) [0 ..< length items])"
proof -
  have "concat (map (\<lambda>i. if Q i then [] else [f i]) xs) = map f (filter (\<lambda>i. \<not> Q i) xs)" for Q f and xs :: "nat list"
    by (induction xs) auto
  note e = this
  show ?thesis unfolding table_items_def kept_def by (rule e)
qed

lemma kept_ends: "kept items 0" "kept items (length items - 1)"
  by (simp_all add: kept_def)

lemma filter_first_last:
  assumes "P 0" "P (n - 1)" "0 < (n :: nat)"
  shows "hd (filter P [0 ..< n]) = 0" "last (filter P [0 ..< n]) = n - 1" "filter P [0 ..< n] \<noteq> []"
proof -
  show "hd (filter P [0 ..< n]) = 0" using assms by (subst upt_conv_Cons) simp_all
  obtain m where "n = Suc m" using assms(3) by (cases n) auto
  then show "last (filter P [0 ..< n]) = n - 1" using assms by simp
  show "filter P [0 ..< n] \<noteq> []" using assms by (auto simp: filter_empty_conv)
qed

lemma buildLookupTable_increasing:
  assumes srt: "sorted_wrt (<) timestamps" and "mn \<in> set timestamps" "mx \<in> set timestamps" "mn < mx"
    and t: "table = buildLookupTable mn mx timestamps"
  shows "increasing table" "2 \<le> length table" "hd table = \<lparr>te_time = mn, te_pos = 0\<rparr>" "last table = \<lparr>te_time = mx, te_pos = 1\<rparr>"
proof -
  define items where "items = filter (\<lambda>t. mn \<le> t \<and> t \<le> mx) timestamps"
  define n where "n = length items"
  have si: "sorted_wrt (<) items" using srt by (simp add: items_def sorted_wrt_filter)
  have mem: "mn \<in> set items" "mx \<in> set items" "\<forall>x \<in> set items. mn \<le> x \<and> x \<le> mx" using assms(2-4) by (auto simp: items_def)
  have "card {mn, mx} \<le> card (set items)" by (rule card_mono) (use mem in auto)
  then have n: "2 \<le> n" using assms(4) card_length [of items] by (simp add: n_def)
  let ?e = "\<lambda>i. \<lparr>te_time = items ! i, te_pos = real i / (real n - 1)\<rparr>" and ?ix = "filter (kept items) [0 ..< n]"
  have tab: "table = map ?e ?ix"
    using n by (simp add: t buildLookupTable_def items_def [symmetric] n_def table_items_map)
  have srt_ix: "sorted_wrt (<) ?ix" by (intro sorted_wrt_filter) simp
  have step: "te_time (?e i) < te_time (?e j) \<and> te_pos (?e i) < te_pos (?e j)" if "i < j" "j < n" for i j
    using sorted_wrt_nth_less [OF si that(1)] that n by (simp add: n_def divide_strict_right_mono)
  show "increasing table" unfolding increasing_def tab sorted_wrt_map
    by (rule sorted_wrt_mono_rel [OF _ srt_ix]) (use step in auto)
  have k: "kept items 0" "kept items (n - 1)" using kept_ends [of items] by (simp_all only: n_def)
  have n0: "0 < n" using n by linarith
  note fl = filter_first_last [OF k n0]
  have item_ends: "items ! 0 = mn" "items ! (n - 1) = mx"
  proof -
    have "items ! 0 \<le> x" if "x \<in> set items" for x
      using that si sorted_wrt_nth_less [of "(<)" items 0] by (auto simp: in_set_conv_nth) (metis less_imp_le neq0_conv order_refl)
    moreover have "x \<le> items ! (n - 1)" if "x \<in> set items" for x
    proof -
      obtain i where "x = items ! i" "i < n" using \<open>x \<in> set items\<close> by (auto simp: in_set_conv_nth n_def)
      then show ?thesis
      proof (cases "i = n - 1")
        case False
        then have "i < n - 1" "n - 1 < length items" using \<open>i < n\<close> by (simp_all add: n_def)
        then show ?thesis using sorted_wrt_nth_less [OF si, of i "n - 1"] \<open>x = items ! i\<close> by simp
      qed (simp add: \<open>x = items ! i\<close>)
    qed
    ultimately have "items ! 0 \<le> mn" "mx \<le> items ! (n - 1)" using mem by blast+
    moreover have "items ! 0 \<in> set items" "items ! (n - 1) \<in> set items" using n0 by (auto simp: n_def)
    ultimately show "items ! 0 = mn" "items ! (n - 1) = mx" using mem(3) by (meson order_antisym)+
  qed
  show h: "hd table = \<lparr>te_time = mn, te_pos = 0\<rparr>" using fl item_ends by (simp add: tab hd_map)
  show l: "last table = \<lparr>te_time = mx, te_pos = 1\<rparr>" using fl item_ends n by (simp add: tab last_map of_nat_diff)
  have "hd table \<noteq> last table" using h l assms(4) by simp
  then show "2 \<le> length table" using fl(3) by (cases table; cases "tl table") (auto simp: tab)
qed

text \<open>
  C24 (values and pixels of a series). On an axis without offsets whose limits are timestamps of the data, every time between the limits has a
  pixel between the two ends of the axis, and reading the pixel through the table the other way gives the time back.
\<close>

theorem series_roundtrip:
  assumes "sorted_wrt (<) timestamps" and "tm_min a \<in> set timestamps" "tm_max a \<in> set timestamps" "tm_min a < tm_max a"
    and "se = initSeries False timestamps a" and "drawable s" and "tm_min a \<le> v" "v \<le> tm_max a"
  shows "\<exists>p. seriesPixel ratio s se v = Fin p \<and> sl_startPixel s \<le> p \<and> p \<le> sl_endPixel s \<and> seriesValue s se (Fin p) = Some v"
proof -
  define table where "table = buildLookupTable (tm_min a) (tm_max a) timestamps"
  note t = buildLookupTable_increasing [OF assms(1-4) table_def]
  have inv: "te_pos (hd table) \<le> interpolate table u False \<and> interpolate table u False \<le> te_pos (last table) \<and>
      interpolate table (interpolate table u False) True = u" if "tm_min a \<le> u" "u \<le> tm_max a" for u
    by (rule interpolate_inverse [OF t(1,2)]) (use that t(3,4) in simp_all)
  have ends: "interpolate table (tm_min a) False = 0" "interpolate table (tm_max a) False = 1"
    using interpolate_ends [OF t(1,2)] t(3,4) by simp_all
  have inv: "0 \<le> interpolate table v False" "interpolate table v False \<le> 1" "interpolate table (interpolate table v False) True = v"
    using interpolate_inverse [OF t(1,2), of v] t(3,4) assms(7,8) by simp_all
  let ?d = "interpolate table v False"
  have se: "se_table se = table" "se_minPos se = 0" "se_tableRange se = 1"
    by (simp_all add: assms(5) initSeries_def table_def [symmetric] ends Let_def)
  have off: "tm_start (se_axis se) = Fin 0" "tm_end (se_axis se) = Fin 0" "tm_factor (se_axis se) = Fin 1"
    by (simp_all add: assms(5) initSeries_def initOffsets_def Let_def limitValue_Fin)
  note p = drawable_pixel [OF assms(6) inv(1,2)]
  have "seriesPixel ratio s se v = Fin (pixel_of s ?d)"
    by (simp add: seriesPixel_def seriesDecimal_def se off p(3))
  moreover have "seriesValue s se (Fin (pixel_of s ?d)) = Some v"
    by (simp add: seriesValue_def se off p(4) inv(3))
  ultimately show ?thesis using p(1,2) by blast
qed

theorem series_roundtrip_witness:
  "\<exists>p. seriesPixel 1 sample_scale (initSeries False [0, 1, 8] sample_axis) 3 = Fin p \<and>
     seriesValue sample_scale (initSeries False [0, 1, 8] sample_axis) (Fin p) = Some 3"
proof -
  have d: "drawable sample_scale" by (simp add: drawable_def sample_scale_def)
  have a: "sorted_wrt (<) [0, 1, 8 :: real]" "tm_min sample_axis \<in> set [0, 1, 8]" "tm_max sample_axis \<in> set [0, 1, 8]"
    "tm_min sample_axis < tm_max sample_axis" "tm_min sample_axis \<le> 3" "3 \<le> tm_max sample_axis"
    by (simp_all add: sample_axis_def)
  show ?thesis using series_roundtrip [OF a(1-4) refl d a(5,6), of 1] by blast
qed

section \<open>Major ticks: properties\<close>

text \<open>
  On a reversed axis the ticks descend, and the search for major ticks starts from the largest: when the unit that
  contains it begins after the smallest, no tick is major.
\<close>

lemma reversed_no_major:
  assumes "values \<noteq> []" and "last values < ad_startOf ad (hd values) u"
  shows "ticksFromTimestamps ad values (Some u) = Some (map (\<lambda>v. \<lparr>tt_value = v, tt_major = False\<rparr>) values)"
proof -
  have "major_loop (\<lambda>t. ad_add ad t 1 u) (last values) (ad_startOf ad (hd values) u) [] = Some []"
    using assms(2) by (simp add: major_loop.simps)
  moreover have "map (\<lambda>i. f (xs ! i)) [0 ..< length xs] = map f xs" for f :: "real \<Rightarrow> time_tick" and xs
    by (rule nth_equalityI) simp_all
  ultimately show ?thesis using assms(1) by (simp add: ticksFromTimestamps_def setMajorTicks_def)
qed

end
