(* ===== verification/Radial_Scale.thy ===== *)
theory Radial_Scale
  imports Scale_Drawing Linear_Scale
begin

text \<open>
  The radial axis of radar and polar area charts (\<^verbatim>\<open>chart.js\<close>, \<open>getTickBackdropHeight\<close> to
  \<open>RadialLinearScale\<close>): the place of the centre, the room for the labels of the points, distances and positions of
  values, and drawing.

  The options are records of resolved values; those with a context are functions of the index. Positions are numbers of
  JavaScript, as the centre can be infinite or no number; the canvas ignores coordinates that are not finite.
\<close>

section \<open>Options and state\<close>

record point_label_opts =
  pp_padding :: real
  pp_font :: string
  pp_lineHeight :: real
  pp_color :: string
  pp_backdropColor :: "string option"
  pp_backdropPadding :: sides

record radius_style =
  rs_circular :: bool
  rs_color :: string
  rs_width :: real
  rs_dash :: "real list"
  rs_dashOffset :: real

record tick_label_opts =
  to_font :: string
  to_size :: real
  to_lineHeight :: real
  to_color :: string
  to_showBackdrop :: bool
  to_backdropColor :: string
  to_backdropPadding :: sides

record radial_opts =
  rp_display :: bool
  rp_reverse :: bool
  rp_startAngle :: real
  rp_background :: string
  rp_circular :: bool
  rp_tickDisplay :: bool
  rp_tickReverse :: bool
  rp_tickFontSize :: "real option"
  rp_defaultFontSize :: real
  rp_backdropPadding :: sides
  rp_labelDisplay :: bool
  rp_centerLabels :: bool
  rp_gridDisplay :: bool
  rp_angleDisplay :: bool
  rp_label :: "nat \<Rightarrow> point_label_opts"
  rp_grid :: "nat \<Rightarrow> radius_style"
  rp_angleLine :: "nat \<Rightarrow> radius_style"
  rp_tick :: "nat \<Rightarrow> tick_label_opts"

record point_label_item =
  pl_x :: jsnum
  pl_y :: jsnum
  pl_align :: string
  pl_left :: jsnum
  pl_top :: jsnum
  pl_right :: jsnum
  pl_bottom :: jsnum

text \<open>The padding is the same on all sides, as \<open>toPadding\<close> makes it of a number.\<close>

record radial =
  rd_left :: real
  rd_top :: real
  rd_right :: real
  rd_bottom :: real
  rd_maxWidth :: real
  rd_maxHeight :: real
  rd_width :: real
  rd_height :: real
  rd_padding :: real
  rd_xCenter :: jsnum
  rd_yCenter :: jsnum
  rd_drawingArea :: jsnum
  rd_min :: real
  rd_max :: real
  rd_endValue :: real
  rd_pointLabels :: "label list"
  rd_items :: "point_label_item list"

section \<open>Dimensions and limits\<close>

definition getTickBackdropHeight :: "radial_opts \<Rightarrow> real" where
  "getTickBackdropHeight o' =
     (if rp_tickDisplay o' \<and> rp_display o'
      then (case rp_tickFontSize o' of Some f \<Rightarrow> f | None \<Rightarrow> rp_defaultFontSize o') +
           (rp_backdropPadding o' STop + rp_backdropPadding o' SBottom)
      else 0)"

definition setDimensions :: "radial_opts \<Rightarrow> radial \<Rightarrow> radial" where
  "setDimensions o' r =
     (let p = getTickBackdropHeight o' / 2; w = rd_maxWidth r - 2 * p; h = rd_maxHeight r - 2 * p
      in r\<lparr>rd_padding := p, rd_width := w, rd_height := h,
           rd_xCenter := Fin (of_int \<lfloor>rd_left r + w / 2 + p\<rfloor>), rd_yCenter := Fin (of_int \<lfloor>rd_top r + h / 2 + p\<rfloor>),
           rd_drawingArea := Fin (of_int \<lfloor>min w h / 2\<rfloor>)\<rparr>)"

definition determineDataLimits :: "bool \<Rightarrow> user_bounds \<Rightarrow> jsnum \<times> jsnum \<Rightarrow> radial \<Rightarrow> radial" where
  "determineDataLimits beginAtZero ub mm r =
     (let mn = (case fst mm of Fin x \<Rightarrow> x | _ \<Rightarrow> 0); mx = (case snd mm of Fin x \<Rightarrow> x | _ \<Rightarrow> 0);
          (mn', mx') = handleTickRangeOptions beginAtZero (ub_minDefined ub) (ub_maxDefined ub) (mn, mx)
      in r\<lparr>rd_min := mn', rd_max := mx'\<rparr>)"

definition computeTickLimit :: "radial_opts \<Rightarrow> radial \<Rightarrow> jsnum" where
  "computeTickLimit o' r = math_ceil (rd_drawingArea r / Fin (getTickBackdropHeight o'))"

text \<open>The labels of the points: what the callback makes of the visible labels, an empty text where that is nothing.\<close>

definition pointLabels :: "(label \<Rightarrow> nat \<Rightarrow> label) \<Rightarrow> (nat \<Rightarrow> bool) \<Rightarrow> label list \<Rightarrow> label list" where
  "pointLabels callback visible labels =
     map (\<lambda>i. case callback (labels ! i) i of LNone \<Rightarrow> LText [] | l \<Rightarrow> l) (filter visible [0 ..< length labels])"

section \<open>Angles, distances and positions\<close>

definition getIndexAngle :: "radial_opts \<Rightarrow> radial \<Rightarrow> nat \<Rightarrow> real" where
  "getIndexAngle o' r index =
     (let n = length (rd_pointLabels r); angleMultiplier = TAU / (if n = 0 then 1 else real n)
      in normalizeAngle (real index * angleMultiplier + toRadians (rp_startAngle o')))"

text \<open>\<open>None\<close> is a value that is missing.\<close>

definition getDistanceFromCenterForValue :: "radial_opts \<Rightarrow> radial \<Rightarrow> jsnum option \<Rightarrow> jsnum" where
  "getDistanceFromCenterForValue o' r v =
     (case v of
        None \<Rightarrow> NaN
      | Some x \<Rightarrow>
          let scalingFactor = rd_drawingArea r / Fin (rd_max r - rd_min r)
          in if rp_reverse o' then (Fin (rd_max r) - x) * scalingFactor else (x - Fin (rd_min r)) * scalingFactor)"


definition getPointPosition :: "radial_opts \<Rightarrow> radial \<Rightarrow> nat \<Rightarrow> jsnum \<Rightarrow> real \<Rightarrow> jsnum \<times> jsnum \<times> real" where
  "getPointPosition o' r index distanceFromCenter additionalAngle =
     (let angle = getIndexAngle o' r index - pi / 2 + additionalAngle
      in (Fin (cos angle) * distanceFromCenter + rd_xCenter r, Fin (sin angle) * distanceFromCenter + rd_yCenter r, angle))"

definition getPointPositionForValue :: "radial_opts \<Rightarrow> radial \<Rightarrow> nat \<Rightarrow> jsnum option \<Rightarrow> jsnum \<times> jsnum \<times> real" where
  "getPointPositionForValue o' r index v = getPointPosition o' r index (getDistanceFromCenterForValue o' r v) 0"

definition getBasePosition :: "radial_opts \<Rightarrow> radial \<Rightarrow> nat \<Rightarrow> jsnum \<times> jsnum \<times> real" where
  "getBasePosition o' r index = getPointPositionForValue o' r index (Some (getBaseValue (Fin (rd_min r)) (Fin (rd_max r))))"

definition getPointLabelPosition :: "radial \<Rightarrow> nat \<Rightarrow> jsnum \<times> jsnum \<times> jsnum \<times> jsnum" where
  "getPointLabelPosition r index =
     (let it = rd_items r ! index in (pl_left it, pl_top it, pl_right it, pl_bottom it))"

section \<open>Room for the labels\<close>

text \<open>\<open>widths\<close> measures a text in a font; every call has a cache of its own.\<close>

definition measureLabelSize :: "(string \<Rightarrow> string \<Rightarrow> real) \<Rightarrow> string \<Rightarrow> real \<Rightarrow> label \<Rightarrow> real \<times> real" where
  "measureLabelSize widths font lineHeight lb =
     (let ls = (case lb of LArr xs \<Rightarrow> xs | _ \<Rightarrow> [lb])
      in (fst (longestText widths font ls \<lparr>tc_font = None, tc_data = Map.empty, tc_gc = []\<rparr>), real (length ls) * lineHeight))"

definition determineLimits :: "int \<Rightarrow> jsnum \<Rightarrow> real \<Rightarrow> int \<Rightarrow> int \<Rightarrow> jsnum \<times> jsnum" where
  "determineLimits angle pos sz mn mx =
     (if angle = mn \<or> angle = mx then (pos - Fin (sz / 2), pos + Fin (sz / 2))
      else if angle < mn \<or> mx < angle then (pos - Fin sz, pos)
      else (pos, pos + Fin sz))"

record frame =
  fr_l :: jsnum
  fr_r :: jsnum
  fr_t :: jsnum
  fr_b :: jsnum

definition updateLimits :: "frame \<Rightarrow> real \<Rightarrow> jsnum \<times> jsnum \<Rightarrow> jsnum \<times> jsnum \<Rightarrow> frame \<Rightarrow> frame" where
  "updateLimits orig angle h v limits =
     (let s = Fin \<bar>sin angle\<bar>; c = Fin \<bar>cos angle\<bar>;
          l1 = (if fst h < fr_l orig then limits\<lparr>fr_l := math_min (fr_l limits) (fr_l orig - (fr_l orig - fst h) / s)\<rparr>
                else if fr_r orig < snd h then limits\<lparr>fr_r := math_max (fr_r limits) (fr_r orig + (snd h - fr_r orig) / s)\<rparr>
                else limits)
      in if fst v < fr_t orig then l1\<lparr>fr_t := math_min (fr_t l1) (fr_t orig - (fr_t orig - fst v) / c)\<rparr>
         else if fr_b orig < snd v then l1\<lparr>fr_b := math_max (fr_b l1) (fr_b orig + (snd v - fr_b orig) / c)\<rparr>
         else l1)"

definition setCenterPoint :: "jsnum \<Rightarrow> jsnum \<Rightarrow> jsnum \<Rightarrow> jsnum \<Rightarrow> radial \<Rightarrow> radial" where
  "setCenterPoint leftMovement rightMovement topMovement bottomMovement r =
     r\<lparr>rd_xCenter := rd_xCenter r + math_floor ((leftMovement - rightMovement) / 2),
       rd_yCenter := rd_yCenter r + math_floor ((topMovement - bottomMovement) / 2),
       rd_drawingArea := rd_drawingArea r - math_min (rd_drawingArea r / 2)
         (math_max (math_max leftMovement rightMovement) (math_max topMovement bottomMovement))\<rparr>"

definition getTextAlignForAngle :: "int \<Rightarrow> string" where
  "getTextAlignForAngle angle = (if angle = 0 \<or> angle = 180 then ''center'' else if angle < 180 then ''left'' else ''right'')"

definition leftForTextAlign :: "jsnum \<Rightarrow> real \<Rightarrow> string \<Rightarrow> jsnum" where
  "leftForTextAlign x w align = (if align = ''right'' then x - Fin w else if align = ''center'' then x - Fin (w / 2) else x)"

definition yForAngle :: "jsnum \<Rightarrow> real \<Rightarrow> int \<Rightarrow> jsnum" where
  "yForAngle y h angle =
     (if angle = 90 \<or> angle = 270 then y - Fin (h / 2) else if 270 < angle \<or> angle < 90 then y - Fin h else y)"

definition additional_angle :: "radial_opts \<Rightarrow> radial \<Rightarrow> real" where
  "additional_angle o' r = (if rp_centerLabels o' then pi / real (length (rd_pointLabels r)) else 0)"

definition point_label_item :: "radial_opts \<Rightarrow> radial \<Rightarrow> (nat \<Rightarrow> real \<times> real) \<Rightarrow> nat \<Rightarrow> point_label_item" where
  "point_label_item o' r sizes i =
     (let extra = getTickBackdropHeight o' / 2;
          (px, py, pa) = getPointPosition o' r i (rd_drawingArea r + Fin extra + Fin (pp_padding (rp_label o' i))) (additional_angle o' r);
          angle = round_half_up (toDegrees (normalizeAngle (pa + pi / 2)));
          (w, h) = sizes i; y = yForAngle py h angle; align = getTextAlignForAngle angle; left = leftForTextAlign px w align
      in \<lparr>pl_x = px, pl_y = y, pl_align = align, pl_left = left, pl_top = y, pl_right = left + Fin w, pl_bottom = y + Fin h\<rparr>)"

definition buildPointLabelItems :: "radial_opts \<Rightarrow> radial \<Rightarrow> (nat \<Rightarrow> real \<times> real) \<Rightarrow> point_label_item list" where
  "buildPointLabelItems o' r sizes = map (point_label_item o' r sizes) [0 ..< length (rd_pointLabels r)]"

definition point_label_size :: "(string \<Rightarrow> string \<Rightarrow> real) \<Rightarrow> radial_opts \<Rightarrow> radial \<Rightarrow> nat \<Rightarrow> real \<times> real" where
  "point_label_size widths o' r i =
     measureLabelSize widths (pp_font (rp_label o' i)) (pp_lineHeight (rp_label o' i)) (rd_pointLabels r ! i)"

definition orig_frame :: "radial \<Rightarrow> frame" where
  "orig_frame r = \<lparr>fr_l = Fin (rd_left r + rd_padding r), fr_r = Fin (rd_right r - rd_padding r),
     fr_t = Fin (rd_top r + rd_padding r), fr_b = Fin (rd_bottom r - rd_padding r)\<rparr>"

definition fit_label :: "(string \<Rightarrow> string \<Rightarrow> real) \<Rightarrow> radial_opts \<Rightarrow> radial \<Rightarrow> nat \<Rightarrow> frame \<Rightarrow> frame" where
  "fit_label widths o' r i =
     (let (px, py, _) = getPointPosition o' r i (rd_drawingArea r + Fin (pp_padding (rp_label o' i))) (additional_angle o' r);
          (w, h) = point_label_size widths o' r i;
          angleRadians = normalizeAngle (getIndexAngle o' r i + additional_angle o' r);
          angle = round_half_up (toDegrees angleRadians)
      in updateLimits (orig_frame r) angleRadians (determineLimits angle px w 0 180) (determineLimits angle py h 90 270))"

definition fitWithPointLabels :: "(string \<Rightarrow> string \<Rightarrow> real) \<Rightarrow> radial_opts \<Rightarrow> radial \<Rightarrow> radial" where
  "fitWithPointLabels widths o' r =
     (let orig = orig_frame r; limits = fold (fit_label widths o' r) [0 ..< length (rd_pointLabels r)] orig;
          r1 = setCenterPoint (fr_l orig - fr_l limits) (fr_r limits - fr_r orig) (fr_t orig - fr_t limits) (fr_b limits - fr_b orig) r
      in r1\<lparr>rd_items := buildPointLabelItems o' r1 (point_label_size widths o' r)\<rparr>)"

definition radial_fit :: "(string \<Rightarrow> string \<Rightarrow> real) \<Rightarrow> radial_opts \<Rightarrow> radial \<Rightarrow> radial" where
  "radial_fit widths o' r =
     (if rp_display o' \<and> rp_labelDisplay o' then fitWithPointLabels widths o' r else setCenterPoint 0 0 0 0 r)"

section \<open>Drawing\<close>

definition at_point :: "(real \<Rightarrow> real \<Rightarrow> cmd) \<Rightarrow> jsnum \<Rightarrow> jsnum \<Rightarrow> cmd list" where
  "at_point f x y = (case (x, y) of (Fin a, Fin b) \<Rightarrow> [f a b] | _ \<Rightarrow> [])"

definition text_at :: "metrics \<Rightarrow> label \<Rightarrow> jsnum \<Rightarrow> jsnum \<Rightarrow> string \<Rightarrow> real \<Rightarrow> render_opts \<Rightarrow> cmd list" where
  "text_at metrics lb x y font lineHeight opts =
     (case (x, y) of (Fin a, Fin b) \<Rightarrow> renderText metrics (label_lines lb) a b font lineHeight opts
                   | _ \<Rightarrow> renderText metrics [] 0 0 font lineHeight opts)"

definition plain_text :: "string \<Rightarrow> string option \<Rightarrow> string option \<Rightarrow> render_opts" where
  "plain_text color align baseline =
     \<lparr>ro_strokeWidth = None, ro_strokeColor = None, ro_maxWidth = None, ro_translation = None, ro_rotation = None,
      ro_color = Some color, ro_textAlign = align, ro_textBaseline = baseline, ro_strikethrough = False, ro_underline = False,
      ro_decorationWidth = None\<rparr>"

definition draw_point_label :: "metrics \<Rightarrow> radial_opts \<Rightarrow> radial \<Rightarrow> nat \<Rightarrow> cmd list" where
  "draw_point_label metrics o' r i =
     (let po = rp_label o' i; it = rd_items r ! i; pad = pp_backdropPadding po
      in (case pp_backdropColor po of
            Some c \<Rightarrow> set_text SetFillStyle (Some c) @
              (case (pl_right it - pl_left it, pl_bottom it - pl_top it) of
                 (Fin w, Fin h) \<Rightarrow> at_point (\<lambda>x y. FillRect x y (w + (pad SLeft + pad SRight)) (h + (pad STop + pad SBottom)))
                                     (pl_left it - Fin (pad SLeft)) (pl_top it - Fin (pad STop))
               | _ \<Rightarrow> [])
          | None \<Rightarrow> []) @
         text_at metrics (rd_pointLabels r ! i) (pl_x it) (pl_y it + Fin (pp_lineHeight po / 2)) (pp_font po) (pp_lineHeight po)
           (plain_text (pp_color po) (Some (pl_align it)) (Some ''middle'')))"

definition drawPointLabels :: "metrics \<Rightarrow> radial_opts \<Rightarrow> radial \<Rightarrow> nat \<Rightarrow> cmd list" where
  "drawPointLabels metrics o' r labelCount = concat (map (draw_point_label metrics o' r) (rev [0 ..< labelCount]))"

definition pathRadiusLine :: "radial_opts \<Rightarrow> radial \<Rightarrow> jsnum \<Rightarrow> bool \<Rightarrow> nat \<Rightarrow> cmd list" where
  "pathRadiusLine o' r radius circular labelCount =
     (let vertex = (\<lambda>f i. let (x, y, _) = getPointPosition o' r i radius 0 in at_point f x y)
      in if circular
         then (case radius of Fin d \<Rightarrow> at_point (\<lambda>x y. ArcTo x y d 0 TAU False) (rd_xCenter r) (rd_yCenter r) | _ \<Rightarrow> [])
         else vertex MoveTo 0 @ concat (map (vertex LineTo) [1 ..< labelCount]))"

definition drawRadiusLine :: "radial_opts \<Rightarrow> radial \<Rightarrow> radius_style \<Rightarrow> jsnum \<Rightarrow> nat \<Rightarrow> cmd list" where
  "drawRadiusLine o' r st radius labelCount =
     (if (\<not> rs_circular st \<and> labelCount = 0) \<or> rs_color st = [] \<or> rs_width st = 0 \<or> radius < 0 then []
      else [Save, SetStrokeStyle (rs_color st), SetLineWidth (rs_width st), SetLineDash (rs_dash st),
            SetLineDashOffset (rs_dashOffset st), BeginPath] @
           pathRadiusLine o' r radius (rs_circular st) labelCount @ [ClosePath, StrokePath, Restore])"

definition radial_background :: "radial_opts \<Rightarrow> radial \<Rightarrow> cmd list" where
  "radial_background o' r =
     (if rp_background o' = [] then []
      else [Save, BeginPath] @
           pathRadiusLine o' r (getDistanceFromCenterForValue o' r (Some (Fin (rd_endValue r)))) (rp_circular o')
             (length (rd_pointLabels r)) @
           [ClosePath, SetFillStyle (rp_background o'), FillPath, Restore])"

definition draw_angle_line :: "radial_opts \<Rightarrow> radial \<Rightarrow> nat \<Rightarrow> cmd list" where
  "draw_angle_line o' r i =
     (let st = rp_angleLine o' i;
          offset = getDistanceFromCenterForValue o' r (Some (Fin (if rp_tickReverse o' then rd_min r else rd_max r)));
          (x, y, _) = getPointPosition o' r i offset 0
      in if rs_width st = 0 \<or> rs_color st = [] then []
         else [SetLineWidth (rs_width st), SetStrokeStyle (rs_color st), SetLineDash (rs_dash st),
               SetLineDashOffset (rs_dashOffset st), BeginPath] @
              at_point MoveTo (rd_xCenter r) (rd_yCenter r) @ at_point LineTo x y @ [StrokePath])"

definition radial_grid :: "metrics \<Rightarrow> radial_opts \<Rightarrow> slabel list \<Rightarrow> radial \<Rightarrow> cmd list" where
  "radial_grid metrics o' ticks r =
     (let labelCount = length (rd_pointLabels r)
      in (if rp_labelDisplay o' then drawPointLabels metrics o' r labelCount else []) @
         (if rp_gridDisplay o'
          then concat (map (\<lambda>i. drawRadiusLine o' r (rp_grid o' (i - 1))
                              (getDistanceFromCenterForValue o' r (Some (Fin (sk_value (ticks ! i))))) labelCount)
                        [1 ..< length ticks])
          else []) @
         (if rp_angleDisplay o'
          then [Save] @ concat (map (draw_angle_line o' r) (rev [0 ..< labelCount])) @ [Restore]
          else []))"

text \<open>The label of a tick; \<open>widths\<close> measures in the font that was set, a label that is no text as the text it converts to.\<close>

definition draw_tick_label :: "metrics \<Rightarrow> (string \<Rightarrow> label \<Rightarrow> real) \<Rightarrow> radial_opts \<Rightarrow> slabel list \<Rightarrow> radial \<Rightarrow> nat \<Rightarrow> cmd list" where
  "draw_tick_label metrics widths o' ticks r i =
     (if i = 0 \<and> \<not> rp_reverse o' then []
      else
        let t = ticks ! i; ro = rp_tick o' i; pad = to_backdropPadding ro;
            offset = getDistanceFromCenterForValue o' r (Some (Fin (sk_value t)))
        in (if to_showBackdrop ro then
              (let width = widths (to_font ro) (sk_label t)
               in [SetFont (to_font ro), SetFillStyle (to_backdropColor ro)] @
                  at_point (\<lambda>x y. FillRect x y (width + (pad SLeft + pad SRight)) (to_size ro + (pad STop + pad SBottom)))
                    (Fin (- width / 2 - pad SLeft)) (- offset - Fin (to_size ro / 2) - Fin (pad STop)))
            else []) @
           text_at metrics (sk_label t) 0 (- offset) (to_font ro) (to_lineHeight ro) (plain_text (to_color ro) None None))"

definition radial_labels :: "metrics \<Rightarrow> (string \<Rightarrow> label \<Rightarrow> real) \<Rightarrow> radial_opts \<Rightarrow> slabel list \<Rightarrow> radial \<Rightarrow> cmd list" where
  "radial_labels metrics widths o' ticks r =
     (if \<not> rp_tickDisplay o' then []
      else [Save] @ at_point Translate (rd_xCenter r) (rd_yCenter r) @
           [Rotate (getIndexAngle o' r 0), SetTextAlign ''center'', SetTextBaseline ''middle''] @
           concat (map (draw_tick_label metrics widths o' ticks r) [0 ..< length ticks]) @ [Restore])"

section \<open>Positions: properties\<close>

definition placed :: "radial \<Rightarrow> real \<Rightarrow> real \<Rightarrow> real \<Rightarrow> bool" where
  "placed r xc yc area \<longleftrightarrow> rd_xCenter r = Fin xc \<and> rd_yCenter r = Fin yc \<and> rd_drawingArea r = Fin area"

lemma position_on_circle:
  assumes "placed r xc yc area"
  shows "\<exists>x y a. getPointPosition o' r i (Fin d) add = (Fin x, Fin y, a) \<and> x = xc + d * cos a \<and> y = yc + d * sin a \<and>
    (x - xc)\<^sup>2 + (y - yc)\<^sup>2 = d\<^sup>2"
proof -
  define a where "a = getIndexAngle o' r i - pi / 2 + add"
  have "(d * cos a)\<^sup>2 + (d * sin a)\<^sup>2 = d\<^sup>2 * ((sin a)\<^sup>2 + (cos a)\<^sup>2)" by (simp only: power_mult_distrib) algebra
  then show ?thesis using assms
    by (auto simp: getPointPosition_def placed_def a_def [symmetric] Let_def mult.commute)
qed


section \<open>Labels around the chart\<close>

lemma round_half_up_bounds: "round_half_up x = n \<Longrightarrow> of_int n - 1 / 2 \<le> x \<and> x < of_int n + 1 / 2"
  unfolding round_half_up_def by linarith

lemma near_cos:
  assumes "\<bar>t - c\<bar> \<le> e" "e \<le> pi"
  shows "cos e \<le> cos (t - c)"
proof -
  have "cos e \<le> cos \<bar>t - c\<bar>" by (rule cos_monotone_0_pi_le) (use assms in auto)
  then show ?thesis by simp
qed

text \<open>Of the angle in degrees that the placement of a label decides upon, rounded, against the angle itself.\<close>

lemma rounded_angle:
  assumes "round_half_up (toDegrees t) = n"
  shows "(of_int n - 1 / 2) * (pi / 180) \<le> t" "t < (of_int n + 1 / 2) * (pi / 180)"
proof -
  have t: "t = toDegrees t * (pi / 180)" by (simp add: toDegrees_def)
  note b = round_half_up_bounds [OF assms]
  show "(of_int n - 1 / 2) * (pi / 180) \<le> t" by (subst t, rule mult_right_mono) (use b in simp_all)
  show "t < (of_int n + 1 / 2) * (pi / 180)" by (subst t, rule mult_strict_right_mono) (use b in simp_all)
qed

lemma rounded_near:
  assumes "round_half_up (toDegrees t) = n"
  shows "cos (pi / 360) \<le> cos (t - of_int n * (pi / 180))"
proof (rule near_cos)
  define q where "q = pi / 180"
  have "of_int n * q - q / 2 \<le> t" "t < of_int n * q + q / 2"
    using rounded_angle [OF assms] unfolding q_def [symmetric] by (simp_all add: left_diff_distrib distrib_right)
  moreover have "pi / 360 = q / 2" by (simp add: q_def)
  ultimately show "\<bar>t - of_int n * (pi / 180)\<bar> \<le> pi / 360"
    unfolding q_def [symmetric] abs_le_iff by linarith
qed simp

lemma turn_shift:
  fixes k :: int
  shows "cos (a + of_int k * TAU) = cos a" "sin (a + of_int k * TAU) = sin a"
  using cos_int_2pin [of k] sin_int_2pin [of k] by (simp_all add: TAU_def cos_add sin_add mult.commute mult.left_commute)

definition in_box :: "point_label_item \<Rightarrow> real \<Rightarrow> real \<Rightarrow> bool" where
  "in_box it x y \<longleftrightarrow> pl_left it \<le> Fin x \<and> Fin x \<le> pl_right it \<and> pl_top it \<le> Fin y \<and> Fin y \<le> pl_bottom it"

text \<open>The box of a label, from the angle of its point and the distance of the point from the centre.\<close>

lemma box_sides:
  assumes "placed r xc yc area" and "sizes i = (w, h)"
    and t: "t = normalizeAngle (getIndexAngle o' r i - pi / 2 + additional_angle o' r + pi / 2)"
    and R: "R = area + getTickBackdropHeight o' / 2 + pp_padding (rp_label o' i)"
    and n: "n = round_half_up (toDegrees t)" and "in_box (point_label_item o' r sizes i) x y"
  shows "let px = xc + R * sin t; py = yc - R * cos t; left = (if n = 0 \<or> n = 180 then px - w / 2 else if n < 180 then px else px - w);
      top = (if n = 90 \<or> n = 270 then py - h / 2 else if 270 < n \<or> n < 90 then py - h else py)
    in left \<le> x \<and> x \<le> left + w \<and> top \<le> y \<and> y \<le> top + h"
proof -
  define pa where "pa = getIndexAngle o' r i - pi / 2 + additional_angle o' r"
  obtain k :: int where k: "t = pa + pi / 2 + of_int k * TAU"
    using normalizeAngle_congruent [of "pa + pi / 2"] t unfolding pa_def by auto
  have s: "sin t = cos pa" "cos t = - sin pa"
    unfolding k turn_shift by (simp_all add: sin_add cos_add)
  have p: "getPointPosition o' r i (rd_drawingArea r + Fin (getTickBackdropHeight o' / 2) + Fin (pp_padding (rp_label o' i))) (additional_angle o' r)
      = (Fin (xc + R * sin t), Fin (yc - R * cos t), pa)"
    using assms(1) unfolding s by (simp add: getPointPosition_def placed_def R pa_def [symmetric] Let_def mult.commute)
  have it: "point_label_item o' r sizes i = \<lparr>pl_x = Fin (xc + R * sin t), pl_y = yForAngle (Fin (yc - R * cos t)) h n, pl_align = getTextAlignForAngle n,
      pl_left = leftForTextAlign (Fin (xc + R * sin t)) w (getTextAlignForAngle n), pl_top = yForAngle (Fin (yc - R * cos t)) h n,
      pl_right = leftForTextAlign (Fin (xc + R * sin t)) w (getTextAlignForAngle n) + Fin w,
      pl_bottom = yForAngle (Fin (yc - R * cos t)) h n + Fin h\<rparr>"
  proof -
    have nn: "round_half_up (toDegrees (normalizeAngle (pa + pi / 2))) = n" by (simp add: n t pa_def)
    show ?thesis using assms(2) by (simp add: point_label_item_def Let_def p nn del: Fin_arith)
  qed
  show ?thesis using assms(6) unfolding it in_box_def
    by (auto simp: Let_def yForAngle_def leftForTextAlign_def getTextAlignForAngle_def split: if_splits)
qed

text \<open>The quadrant of an angle from its rounded degrees; at the four axes the angle is within half a degree.\<close>

lemma rounded_signs:
  assumes t: "0 \<le> t" "t < 2 * pi" and n: "round_half_up (toDegrees t) = n"
  shows "n < 180 \<Longrightarrow> 0 \<le> sin t" "180 < n \<Longrightarrow> sin t \<le> 0"
    "n < 90 \<or> 270 < n \<Longrightarrow> 0 \<le> cos t" "90 < n \<Longrightarrow> n < 270 \<Longrightarrow> cos t \<le> 0"
proof -
  note ang = rounded_angle [OF n]
  have lo: "(of_int k - 1 / 2) * (pi / 180) \<le> t" if "k \<le> n" for k :: int
    by (rule order_trans [OF mult_right_mono ang(1)]) (use that in simp_all)
  have hi: "t \<le> (of_int k + 1 / 2) * (pi / 180)" if "n \<le> k" for k :: int
    by (rule order_trans [OF less_imp_le [OF ang(2)] mult_right_mono]) (use that in simp_all)
  show "0 \<le> sin t" if "n < 180" using that t(1) hi [of 179] pi_gt_zero by (intro sin_ge_zero) auto
  show "sin t \<le> 0" if "180 < n" using that t(2) lo [of 181] pi_gt_zero by (intro sin_le_zero) auto
  show "0 \<le> cos t" if "n < 90 \<or> 270 < n"
  proof (cases "n < 90")
    case True
    then show ?thesis using t(1) hi [of 89] pi_gt_zero by (intro cos_ge_zero) auto
  next
    case False
    then have "0 \<le> cos (t - 2 * pi)" using that t(2) lo [of 271] pi_gt_zero by (intro cos_ge_zero) auto
    then show ?thesis by (simp add: cos_diff)
  qed
  show "cos t \<le> 0" if "90 < n" "n < 270"
  proof -
    have "0 \<le> cos (t - pi)" using that lo [of 91] hi [of 269] pi_gt_zero by (intro cos_ge_zero) auto
    then show ?thesis by simp
  qed
qed

lemma rounded_axes:
  assumes "round_half_up (toDegrees t) = n"
  shows "n = 0 \<Longrightarrow> cos (pi / 360) \<le> cos t" "n = 90 \<Longrightarrow> cos (pi / 360) \<le> sin t"
    "n = 180 \<Longrightarrow> cos (pi / 360) \<le> - cos t" "n = 270 \<Longrightarrow> cos (pi / 360) \<le> - sin t"
proof -
  note near = rounded_near [OF assms]
  show "n = 0 \<Longrightarrow> cos (pi / 360) \<le> cos t" "n = 180 \<Longrightarrow> cos (pi / 360) \<le> - cos t" using near by auto
  show "cos (pi / 360) \<le> sin t" if "n = 90" using near that by (simp add: cos_diff)
  have "cos (u - pi) = - cos u" for u :: real by simp
  from this [of "t - pi / 2"] have "cos (t - pi / 2 - pi) = - sin t" by (simp only: cos_diff) simp
  moreover have "t - real_of_int 270 * (pi / 180) = t - pi / 2 - pi" by simp
  ultimately show "cos (pi / 360) \<le> - sin t" if "n = 270" using near that by simp
qed

lemma half_degree: "0 \<le> cos (pi / 360)"
  by (rule cos_ge_zero) simp_all

lemma far_on_axis:
  fixes u v z R :: real
  assumes "\<bar>R * z\<bar> \<le> \<bar>u\<bar> \<or> \<bar>R * z\<bar> \<le> \<bar>v\<bar>" "cos (pi / 360) \<le> \<bar>z\<bar>" "0 \<le> R"
  shows "(R * cos (pi / 360))\<^sup>2 \<le> u\<^sup>2 + v\<^sup>2"
proof -
  have "R * cos (pi / 360) \<le> \<bar>R * z\<bar>" using mult_left_mono [OF assms(2,3)] assms(3) by (simp add: abs_mult)
  then have "\<bar>R * cos (pi / 360)\<bar> \<le> \<bar>u\<bar> \<or> \<bar>R * cos (pi / 360)\<bar> \<le> \<bar>v\<bar>" using assms(1,3) half_degree by auto
  then have "(R * cos (pi / 360))\<^sup>2 \<le> u\<^sup>2 \<or> (R * cos (pi / 360))\<^sup>2 \<le> v\<^sup>2" by (simp only: abs_le_square_iff)
  then show ?thesis using zero_le_power2 [of u] zero_le_power2 [of v] by linarith
qed

lemma far_in_quadrant:
  fixes u v t R :: real
  assumes "\<bar>R * sin t\<bar> \<le> \<bar>u\<bar>" "\<bar>R * cos t\<bar> \<le> \<bar>v\<bar>" "0 \<le> R"
  shows "(R * cos (pi / 360))\<^sup>2 \<le> u\<^sup>2 + v\<^sup>2"
proof -
  have "(R * sin t)\<^sup>2 + (R * cos t)\<^sup>2 = R\<^sup>2 * ((sin t)\<^sup>2 + (cos t)\<^sup>2)" by (simp only: power_mult_distrib distrib_left)
  then have "(R * sin t)\<^sup>2 + (R * cos t)\<^sup>2 = R\<^sup>2" by simp
  moreover have "(R * cos (pi / 360))\<^sup>2 \<le> R\<^sup>2"
    by (rule power_mono) (use half_degree assms(3) in \<open>simp_all add: mult_left_le\<close>)
  ultimately show ?thesis using assms(1,2) unfolding abs_le_square_iff by linarith
qed

text \<open>
  C35 (labels of a radial axis). A label belongs to the point at the distance of the drawing area, half the height of a backdrop and the padding from the centre; let this
  distance not be negative and the size of the label neither. Whatever the angle of the point, the box of the label does not enter the circle of this radius, but for the
  share that rounding the angle to degrees costs: every point of the box is at least that
  distance, times the cosine of half a degree, from the centre.
\<close>

theorem labels_outside:
  assumes "placed r xc yc area" and "sizes i = (w, h)" "0 \<le> w" "0 \<le> h"
    and "R = area + getTickBackdropHeight o' / 2 + pp_padding (rp_label o' i)" "0 \<le> R"
    and "in_box (point_label_item o' r sizes i) x y"
  shows "(R * cos (pi / 360))\<^sup>2 \<le> (x - xc)\<^sup>2 + (y - yc)\<^sup>2"
proof -
  define t where "t = normalizeAngle (getIndexAngle o' r i - pi / 2 + additional_angle o' r + pi / 2)"
  define n where "n = round_half_up (toDegrees t)"
  note box = box_sides [OF assms(1,2) t_def assms(5) n_def assms(7), unfolded Let_def]
  have t: "0 \<le> t" "t < 2 * pi" using normalizeAngle_range by (simp_all add: t_def TAU_def)
  note axis = rounded_axes [OF n_def [symmetric]] and sgn = rounded_signs [OF t n_def [symmetric]]
  have pos: "0 \<le> R * u" if "0 \<le> u" for u using that assms(6) by simp
  have neg: "R * u \<le> 0" if "u \<le> 0" for u using that assms(6) by (simp add: mult_nonneg_nonpos)
  consider "n = 0" | "n = 90" | "n = 180" | "n = 270" | "n \<noteq> 0" "n \<noteq> 90" "n \<noteq> 180" "n \<noteq> 270" by blast
  then show ?thesis
  proof cases
    case 1
    then show ?thesis using axis(1) pos [of "cos t"] half_degree box by (intro far_on_axis [of _ "cos t"]) (auto simp: assms(6))
  next
    case 2
    then show ?thesis using axis(2) pos [of "sin t"] half_degree box by (intro far_on_axis [of _ "sin t"]) (auto simp: assms(6))
  next
    case 3
    then show ?thesis using axis(3) neg [of "cos t"] half_degree box by (intro far_on_axis [of _ "cos t"]) (auto simp: assms(6))
  next
    case 4
    then show ?thesis using axis(4) neg [of "sin t"] half_degree box by (intro far_on_axis [of _ "sin t"]) (auto simp: assms(6))
  next
    case 5
    have "\<bar>R * sin t\<bar> \<le> \<bar>x - xc\<bar>"
      using box 5 sgn(1,2) pos [of "sin t"] neg [of "sin t"] by (cases "n < 180") auto
    moreover have "\<bar>R * cos t\<bar> \<le> \<bar>y - yc\<bar>"
      using box 5 sgn(3,4) pos [of "cos t"] neg [of "cos t"] by (cases "270 < n \<or> n < 90") auto
    ultimately show ?thesis using assms(6) by (rule far_in_quadrant)
  qed
qed

section \<open>Room for the labels: properties\<close>

lemma inf_sums [simp]:
  "Fin a - PInf = NInf" "Fin a - NInf = PInf" "Fin a + PInf = PInf" "Fin a + NInf = NInf" "PInf - Fin a = PInf" "NInf - Fin a = NInf"
  by (simp_all add: minus_jsnum_def plus_jsnum_def)

definition finite_pair :: "jsnum \<times> jsnum \<Rightarrow> bool" where
  "finite_pair h \<longleftrightarrow> is_finite (fst h) \<and> is_finite (snd h)"

definition grown :: "frame \<Rightarrow> frame \<Rightarrow> bool" where
  "grown orig limits \<longleftrightarrow> fr_l limits \<le> fr_l orig \<and> fr_r orig \<le> fr_r limits \<and> fr_t limits \<le> fr_t orig \<and> fr_b orig \<le> fr_b limits"

lemma further_out:
  assumes "0 < a" "0 \<le> s"
  shows "x \<le> Fin o' \<Longrightarrow> math_min x (Fin o' - Fin a / Fin s) \<le> Fin o'" "Fin o' \<le> x \<Longrightarrow> Fin o' \<le> math_max x (Fin o' + Fin a / Fin s)"
proof -
  show "math_min x (Fin o' - Fin a / Fin s) \<le> Fin o'" if "x \<le> Fin o'"
    using that assms by (cases x; cases "s = 0") (auto simp: math_min_def Fin_div inf_of_sign_def)
  show "Fin o' \<le> math_max x (Fin o' + Fin a / Fin s)" if "Fin o' \<le> x"
    using that assms by (cases x; cases "s = 0") (auto simp: math_max_def Fin_div inf_of_sign_def)
qed

lemma updateLimits_grown:
  assumes "grown orig limits" and orig: "orig = \<lparr>fr_l = Fin l, fr_r = Fin r', fr_t = Fin t, fr_b = Fin b\<rparr>"
    and "finite_pair h" "finite_pair v"
  shows "grown orig (updateLimits orig angle h v limits)"
proof -
  obtain h1 h2 v1 v2 where hv: "h = (Fin h1, Fin h2)" "v = (Fin v1, Fin v2)"
    using assms(3,4) by (cases h; cases v) (auto simp: finite_pair_def is_finite_iff)
  show ?thesis using assms(1)
    by (auto simp: grown_def updateLimits_def orig hv Let_def further_out)
qed

lemma movement:
  "x \<le> Fin o' \<Longrightarrow> 0 \<le> Fin o' - x" "Fin o' \<le> x \<Longrightarrow> 0 \<le> x - Fin o'"
  by (cases x; auto)+

lemma max_nonneg: "0 \<le> x \<Longrightarrow> 0 \<le> y \<Longrightarrow> 0 \<le> math_max x y"
  by (cases x; cases y) (simp_all add: math_max_def)

lemma setCenterPoint_area:
  assumes "rd_drawingArea r = Fin area" "0 \<le> area" and "0 \<le> ml" "0 \<le> mr" "0 \<le> mt" "0 \<le> mb"
  shows "\<exists>a. rd_drawingArea (setCenterPoint ml mr mt mb r) = Fin a \<and> area / 2 \<le> a \<and> a \<le> area"
proof -
  have "0 \<le> math_max (math_max ml mr) (math_max mt mb)" using assms(3-6) by (intro max_nonneg)
  then have "\<exists>m. math_min (Fin (area / 2)) (math_max (math_max ml mr) (math_max mt mb)) = Fin m \<and> 0 \<le> m \<and> m \<le> area / 2"
    using assms(2) by (cases "math_max (math_max ml mr) (math_max mt mb)") (auto simp: math_min_def intro: exI [of _ "area / 2"])
  then obtain m where m: "math_min (Fin (area / 2)) (math_max (math_max ml mr) (math_max mt mb)) = Fin m" "0 \<le> m" "m \<le> area / 2"
    by blast
  have "rd_drawingArea (setCenterPoint ml mr mt mb r) = Fin (area - m)"
    using m(1) by (simp add: setCenterPoint_def assms(1))
  moreover have "area / 2 \<le> area - m" "area - m \<le> area" using m(2,3) by (simp_all add: field_simps)
  ultimately show ?thesis by blast
qed

lemma fit_label_grown:
  assumes "placed r xc yc area" and "grown (orig_frame r) limits"
  shows "grown (orig_frame r) (fit_label widths o' r i limits)"
proof -
  obtain x y a where p: "getPointPosition o' r i (Fin (area + pp_padding (rp_label o' i))) (additional_angle o' r) = (Fin x, Fin y, a)"
    using position_on_circle [OF assms(1)] by blast
  have fin: "finite_pair (determineLimits n (Fin u) sz mn mx)" for n u sz mn mx
    by (simp add: finite_pair_def determineLimits_def)
  obtain w h where wh: "point_label_size widths o' r i = (w, h)" by fastforce
  show ?thesis
    using assms(1) p wh updateLimits_grown [OF assms(2) _ fin fin] by (simp add: fit_label_def placed_def orig_frame_def Let_def)
qed

text \<open>
  The room for the labels. Whatever texts surround the chart, fitting them leaves a drawing area of a finite radius, not larger than before
  and at least half of it.
\<close>

theorem label_room:
  assumes "placed r xc yc area" "0 \<le> area"
  shows "\<exists>a. rd_drawingArea (radial_fit widths o' r) = Fin a \<and> area / 2 \<le> a \<and> a \<le> area"
proof (cases "rp_display o' \<and> rp_labelDisplay o'")
  case True
  define L where "L = fold (fit_label widths o' r) [0 ..< length (rd_pointLabels r)] (orig_frame r)"
  have "grown (orig_frame r) (fold (fit_label widths o' r) is limits)" if "grown (orig_frame r) limits" for "is" limits
    using that by (induction "is" arbitrary: limits) (simp_all add: fit_label_grown [OF assms(1)])
  moreover have "grown (orig_frame r) (orig_frame r)" by (simp add: grown_def orig_frame_def)
  ultimately have g: "grown (orig_frame r) L" by (simp add: L_def)
  have m: "0 \<le> fr_l (orig_frame r) - fr_l L" "0 \<le> fr_r L - fr_r (orig_frame r)"
    "0 \<le> fr_t (orig_frame r) - fr_t L" "0 \<le> fr_b L - fr_b (orig_frame r)"
    using g unfolding grown_def by (simp_all only: orig_frame_def frame.simps movement)
  show ?thesis
    using setCenterPoint_area [OF _ assms(2) m, of r] assms(1) True
    by (simp add: radial_fit_def fitWithPointLabels_def placed_def L_def [symmetric] Let_def)
next
  case False
  then show ?thesis
    using setCenterPoint_area [of r area 0 0 0 0] assms False by (auto simp: radial_fit_def placed_def)
qed

text \<open>
  A label at the top that is wider than the axis needs room that no distance gives: the division by the sine of its angle is a division
  by zero, and the centre is not finite any more.
\<close>

lemma limits_stay:
  "fr_l limits \<in> {NInf, NaN} \<Longrightarrow> fr_l (updateLimits orig angle h v limits) \<in> {NInf, NaN}"
proof -
  have "math_min x y \<in> {NInf, NaN}" if "x \<in> {NInf, NaN}" for x y
    using that by (cases y) (auto simp: math_min_def)
  then show "fr_l limits \<in> {NInf, NaN} \<Longrightarrow> ?thesis" by (simp add: updateLimits_def Let_def)
qed

lemma wide_top_label:
  assumes "placed r xc yc area" and "rd_pointLabels r \<noteq> []" "rp_startAngle o' = 0" "\<not> rp_centerLabels o'"
    and "point_label_size widths o' r 0 = (w, h)" "xc - w / 2 < rd_left r + rd_padding r"
  shows "\<not> is_finite (rd_xCenter (fitWithPointLabels widths o' r))"
proof -
  let ?n = "length (rd_pointLabels r)"
  have a0: "getIndexAngle o' r 0 = 0" "additional_angle o' r = 0" "normalizeAngle 0 = 0"
    using assms(3,4) by (simp_all add: getIndexAngle_def toRadians_def additional_angle_def normalizeAngle_def real_rem_def trunc_real_def)
  have pos: "getPointPosition o' r 0 (Fin d) 0 = (Fin xc, Fin (yc - d), - (pi / 2))" for d
    using assms(1) by (simp add: getPointPosition_def a0 placed_def Let_def)
  have first: "fr_l (fit_label widths o' r 0 (orig_frame r)) \<in> {NInf, NaN}"
    using assms(1,5,6)
    by (simp add: fit_label_def placed_def pos a0 toDegrees_def round_half_up_def determineLimits_def updateLimits_def orig_frame_def
      Let_def Fin_div inf_of_sign_def math_min_def)
  have step: "fr_l (fit_label widths o' r i limits) \<in> {NInf, NaN}" if "fr_l limits \<in> {NInf, NaN}" for i limits
  proof -
    obtain px py pa where p: "getPointPosition o' r i (rd_drawingArea r + Fin (pp_padding (rp_label o' i))) (additional_angle o' r) = (px, py, pa)"
      by (cases "getPointPosition o' r i (rd_drawingArea r + Fin (pp_padding (rp_label o' i))) (additional_angle o' r)")
    obtain u v where "point_label_size widths o' r i = (u, v)" by fastforce
    then have "\<exists>angle h v. fit_label widths o' r i limits = updateLimits (orig_frame r) angle h v limits"
      by (intro exI) (simp add: fit_label_def p Let_def)
    then obtain angle h v where "fit_label widths o' r i limits = updateLimits (orig_frame r) angle h v limits" by blast
    then show ?thesis by (simp only: limits_stay [OF that])
  qed
  have stay: "fr_l (fold (fit_label widths o' r) is limits) \<in> {NInf, NaN}" if "fr_l limits \<in> {NInf, NaN}" for "is" limits
    using that
  proof (induction "is" arbitrary: limits)
    case (Cons i "is")
    from Cons.IH [OF step [OF Cons.prems]] show ?case by simp
  qed simp
  have "[0 ..< ?n] = 0 # [1 ..< ?n]" using assms(2) by (simp add: upt_conv_Cons)
  then have l: "fr_l (fold (fit_label widths o' r) [0 ..< ?n] (orig_frame r)) \<in> {NInf, NaN}" using stay [OF first] by simp
  have "\<not> is_finite (Fin xc + math_floor ((Fin u - k - m) / 2))" if "k \<in> {NInf, NaN}" for u k m
    using that by (cases m) (auto simp: plus_jsnum_def divide_jsnum_def minus_jsnum_def)
  from this [OF l] show ?thesis using assms(1)
    by (simp add: fitWithPointLabels_def setCenterPoint_def placed_def orig_frame_def Let_def)
qed

definition sample_radial_opts :: radial_opts where
  "sample_radial_opts = \<lparr>rp_display = True, rp_reverse = False, rp_startAngle = 0, rp_background = [], rp_circular = False, rp_tickDisplay = False,
     rp_tickReverse = False, rp_tickFontSize = None, rp_defaultFontSize = 12, rp_backdropPadding = (\<lambda>_. 2), rp_labelDisplay = True,
     rp_centerLabels = False, rp_gridDisplay = True, rp_angleDisplay = True,
     rp_label = (\<lambda>_. \<lparr>pp_padding = 5, pp_font = [], pp_lineHeight = 12, pp_color = [], pp_backdropColor = None, pp_backdropPadding = (\<lambda>_. 2)\<rparr>),
     rp_grid = (\<lambda>_. \<lparr>rs_circular = False, rs_color = [], rs_width = 1, rs_dash = [], rs_dashOffset = 0\<rparr>),
     rp_angleLine = (\<lambda>_. \<lparr>rs_circular = False, rs_color = [], rs_width = 1, rs_dash = [], rs_dashOffset = 0\<rparr>),
     rp_tick = (\<lambda>_. \<lparr>to_font = [], to_size = 12, to_lineHeight = 12, to_color = [], to_showBackdrop = False, to_backdropColor = [],
       to_backdropPadding = (\<lambda>_. 2)\<rparr>)\<rparr>"

definition sample_radial :: radial where
  "sample_radial = \<lparr>rd_left = 0, rd_top = 0, rd_right = 200, rd_bottom = 200, rd_maxWidth = 200, rd_maxHeight = 200, rd_width = 200, rd_height = 200,
     rd_padding = 0, rd_xCenter = Fin 100, rd_yCenter = Fin 100, rd_drawingArea = Fin 100, rd_min = 0, rd_max = 10, rd_endValue = 10,
     rd_pointLabels = [LText ''a'', LText ''b'', LText ''c''], rd_items = []\<rparr>"

lemma sample_placed: "placed sample_radial 100 100 100"
  by (simp add: placed_def sample_radial_def)


theorem label_room_witness:
  "\<exists>a. rd_drawingArea (radial_fit (\<lambda>f t. 20) sample_radial_opts sample_radial) = Fin a \<and> 50 \<le> a"
  using label_room [OF sample_placed, of "\<lambda>f t. 20" sample_radial_opts] by auto

theorem labels_outside_witness:
  "in_box (point_label_item sample_radial_opts sample_radial (\<lambda>_. (20, 10)) 0) 100 (- 10) \<and> (105 * cos (pi / 360))\<^sup>2 \<le> (100 - 100)\<^sup>2 + (- 10 - 100 :: real)\<^sup>2"
proof -
  have a0: "getIndexAngle sample_radial_opts sample_radial 0 = 0" "normalizeAngle 0 = 0"
    by (simp_all add: getIndexAngle_def toRadians_def sample_radial_opts_def normalizeAngle_def real_rem_def trunc_real_def)
  have b: "in_box (point_label_item sample_radial_opts sample_radial (\<lambda>_. (20, 10)) 0) 100 (- 10)"
    by (simp add: in_box_def point_label_item_def getPointPosition_def a0 additional_angle_def getTickBackdropHeight_def Let_def
      toDegrees_def round_half_up_def getTextAlignForAngle_def leftForTextAlign_def yForAngle_def)
      (simp add: sample_radial_def sample_radial_opts_def a0 toDegrees_def getTextAlignForAngle_def leftForTextAlign_def yForAngle_def)
  have R: "(105 :: real) = 100 + getTickBackdropHeight sample_radial_opts / 2 + pp_padding (rp_label sample_radial_opts 0)"
    by (simp add: getTickBackdropHeight_def sample_radial_opts_def)
  from labels_outside [OF sample_placed _ _ _ R _ b] b show ?thesis by simp
qed

end
