(* ===== verification/Spec2Isabelle.thy ===== *)
theory Spec2Isabelle
  imports Chart_Title Dashboard Scripts_Page Web_App Refresh_Manager
    Core_Helpers Math_Helpers Collections Segments Animation Color Easing Options
    Layout Canvas Splines Ticks Scale Scale_Drawing Category_Scale Linear_Scale Log_Scale
    Decimation Dataset_Stacks Dataset_Controller Line_Element Elements Interaction
    Chart_Metasets Chart_Events Bar_Controller Ring_Controllers Line_Controllers Time_Scale Radial_Scale
begin

text \<open>
  This library verifies the JavaScript of the nioev MQTT broker: its web interface under
  \<^verbatim>\<open>src/webui/src\<close>, the build of that interface, and the charting library
  \<^verbatim>\<open>src/webui/public/chart.js\<close> (Chart.js 3.7) that draws its statistics.

  \<^bold>\<open>How the parts interact.\<close> The frame (\<^verbatim>\<open>App.svelte\<close>) shows one page at a time. The
  overview and the list of scripts each own a polling manager (\<^verbatim>\<open>Utils.js\<close>) that calls back while
  the page is shown. The overview turns the answer of the broker into numbers and into the points of two
  line charts; the charts place their axes with the layout engine, compute limits and ticks, map
  values to pixels, split lines into segments, smooth them, and animate changes. The list of scripts sends
  requests and shows the last answer; the editor loads and saves one script.

  \<^bold>\<open>The web interface.\<close>
  \<^item> \<open>Refresh_Manager\<close> (\<^verbatim>\<open>Utils.js\<close>): the manager, the browser's timers and its suspended
    callbacks as a step relation. One live timer at most in orderly runs; a timer leaks when rate
    changes overlap.
  \<^item> \<open>Overview\<close> (\<^verbatim>\<open>Overview.svelte\<close>): points of a chart, texts of durations, and the
    callback that creates the charts once and updates them.
  \<^item> \<open>Dashboard\<close>: the charts of the overview on the linear axis of the charting library, from the
    statistics to pixels.
  \<^item> \<open>Scripts_Page\<close> (\<^verbatim>\<open>Scripts.svelte\<close>, \<^verbatim>\<open>Edit.svelte\<close>): requests and their URLs, the list with
    its asynchronous operations as a step relation, the rows, the editor.
  \<^item> \<open>Web_App\<close> (\<^verbatim>\<open>App.svelte\<close>, \<^verbatim>\<open>rollup.config.js\<close>): navigation and development server.

  \<^bold>\<open>The charting library.\<close> Shared values: \<open>JS_Prelude\<close> (numbers with infinities and
  \<open>NaN\<close>, values, objects) and \<open>JS_Strings\<close> (conversions between strings and numbers).
  \<^item> Helpers: \<open>Core_Helpers\<close> (type tests, clone, merge, dotted keys), \<open>Math_Helpers\<close>,
    \<open>Collections\<close> (binary search, array listeners), \<open>Options\<close> (defaults, line heights,
    paddings, fonts, \<open>resolve\<close>, grace), \<open>Color\<close> (parsing, conversion, printing), \<open>Easing\<close>
    (easing functions, interpolation, right-to-left adapters).
  \<^item> Drawing: \<open>Canvas\<close> (canvas commands, cache of text widths), \<open>Segments\<close> (parts of a
    line between gaps), \<open>Splines\<close> (control points), \<open>Animation\<close> (animations and the animator).
  \<^item> Axes: \<open>Layout\<close> (boxes around the chart area), \<open>Ticks\<close> (formats, skipping, grid
    pixels), \<open>Scale\<close> (the base class: bounds, labels, rotation, fit, pixels), \<open>Scale_Drawing\<close>
    (grid lines, labels, title, layers), the axes \<open>Category_Scale\<close>, \<open>Linear_Scale\<close>
    and \<open>Log_Scale\<close>, \<open>Time_Scale\<close> (the time axis and its series variant, over a date adapter) and \<open>Radial_Scale\<close>
    (the radial axis with the labels around it). \<open>Chart_Title\<close> has the titles, and titles and axes as the boxes of the layout.
  \<^item> Datasets: \<open>Dataset_Stacks\<close> (stacks, ranges), \<open>Dataset_Controller\<close> (parsing, and
    the elements of a dataset with its queue of changes), \<open>Decimation\<close> (thinning of data),
    \<open>Line_Element\<close> and \<open>Elements\<close> (lines, points, bars, arcs: where they are and how they are
    drawn), \<open>Bar_Controller\<close> (widths, stacks, ends and skipped borders of bars),
    \<open>Ring_Controllers\<close> (arcs and rings of doughnuts and polar areas), \<open>Line_Controllers\<close>
    (points of lines, bubbles and radars), \<open>Interaction\<close> (finding elements at a position).
  \<^item> The chart: \<open>Chart_Metasets\<close> (the records of its datasets, hidden indices) and
    \<open>Chart_Events\<close> (events and hover styles, drawing order, connections with the browser).

  Each theory has its data first, then one definition per function or method under the name it has in
  the source (with a leading underscore dropped), then the lemmas and properties. A method that changes its
  object returns the updated record. A chart is responsive through observers that call back, also in
  the middle of a change: what resizing does to the listeners is an argument of the operations that resize, \<open>resize_effect\<close> in \<open>Chart_Events\<close>. The
  locale \<open>value_axis\<close> of \<open>Scale\<close> is the
  interface between an axis and the values on it: the category, linear and logarithmic axes interpret it, and their properties about
  pixels rest on its lemmas.

  \<^bold>\<open>What the lemmas show.\<close> For each component: invariants of its state over all runs (timers, list of
  scripts, animator, layout, elements and records of datasets, hover styles, connections), the result of its operations on every branch (merge, segments,
  ticks, limits, skipping), round trips (colours, labels and values, values and pixels, values and distances, names in requests),
  agreement with a plain reference (cached label sizes, dotted keys, filtering, replayed changes, the fast path of
  a line, bisected searches), partitions (bars side by side, boxes around the chart, arcs around a doughnut), that loops end, and the places where the code does not do what it means to (a leaking
  timer, a line across a gap, a request for another script, an empty range, elements that change their datum,
  elements that a bisected search misses, hidden items that move, times that are not read back, hover styles and observers that are left behind). A property that needs such a place to be
  left out says so, and names the lemma.

  \<^bold>\<open>Bounds and termination.\<close> No fuel is used. Loops are structural or have a measure; a loop
  that can run for ever in the source is a partial function whose value \<open>None\<close> means that it does not return
  (refitting boxes, skipping ticks, counting decimals, logarithmic and time ticks), and the properties
  state when a value is returned. Finite numbers are exact reals: rounding of floating-point numbers is not
  represented. In particular counting the decimals of a number that has no finite decimal expansion does not end
  here, while it ends at the precision of floating-point numbers in the source.

  \<^bold>\<open>Not modelled.\<close> The C++ broker (its answers are parameters of the steps of the pages), the
  third-party servers and engines it embeds, style sheets and transitions, CodeMirror beyond the text of
  its document, the DOM and the canvas beyond the commands issued to it, and number and date formatting, which
  depends on the locale. Of the charting library: the construction of a
  chart, its registry, plugin service and option proxies, which pass functions and prototypes around; the options
  of elements; tooltip, legend and filler.
\<close>

end
